(* ===== verification/Prelude.thy ===== *)
theory Prelude
  imports Main "HOL-Library.Word"
begin

text \<open>
  Shared vocabulary of the development.

  \<^item> JavaScript exceptions are values: an operation that can throw returns
    \<open>js_error + 'a\<close>, \<open>Inl\<close> for the exception. \<open>ebind\<close> is sequencing.
    The interpolated numbers of an error message are left out, its fixed text is kept.
  \<^item> A Node \<open>Buffer\<close> is a list of bytes.
  \<^item> Big-endian conversion between naturals and byte lists, which is what
    \<open>readUIntBE\<close>, \<open>writeUIntBE\<close> and \<open>toBytesBE\<close> compute.
\<close>

section \<open>Exceptions as values\<close>

datatype js_error =
    Error string
  | TypeError string
  | RangeError
  | UnderflowError
  | ParseError string
  | AssertionError string

type_synonym 'a result = "js_error + 'a"

definition ebind :: "'e + 'a \<Rightarrow> ('a \<Rightarrow> 'e + 'b) \<Rightarrow> 'e + 'b" where
  "ebind m f = (case m of Inl e \<Rightarrow> Inl e | Inr a \<Rightarrow> f a)"

lemma ebind_simps [simp]:
  "ebind (Inl e) f = Inl e"
  "ebind (Inr a) f = f a"
  by (simp_all add: ebind_def)

lemma ebind_eq_Inr [simp]: "ebind m f = Inr b \<longleftrightarrow> (\<exists>a. m = Inr a \<and> f a = Inr b)"
  by (cases m) auto

lemma ebind_assoc: "ebind (ebind m f) g = ebind m (\<lambda>a. ebind (f a) g)"
  by (cases m) auto

text \<open>\<open>require c e\<close> is \<^verbatim>\<open>if (!c) throw e\<close>.\<close>

definition require :: "bool \<Rightarrow> 'e \<Rightarrow> 'e + unit" where
  "require c e = (if c then Inr () else Inl e)"

lemma require_simps [simp]:
  "require True e = Inr ()"
  "require False e = Inl e"
  "require c e = Inr u \<longleftrightarrow> c"
  by (simp_all add: require_def)

fun is_ok :: "'e + 'a \<Rightarrow> bool" where
  "is_ok (Inl _) = False"
| "is_ok (Inr _) = True"

lemma is_ok_iff: "is_ok m \<longleftrightarrow> (\<exists>a. m = Inr a)"
  by (cases m) auto

text \<open>A for-loop over a list whose body may throw.\<close>

fun efold :: "('a \<Rightarrow> 's \<Rightarrow> 'e + 's) \<Rightarrow> 'a list \<Rightarrow> 's \<Rightarrow> 'e + 's" where
  "efold f [] s = Inr s"
| "efold f (x # xs) s = ebind (f x s) (efold f xs)"

lemma efold_append: "efold f (xs @ ys) s = ebind (efold f xs s) (efold f ys)"
proof (induction xs arbitrary: s)
  case (Cons x xs)
  show ?case by (cases "f x s") (simp_all add: Cons)
qed simp

section \<open>Bytes and big-endian numbers\<close>

type_synonym byte = "8 word"
type_synonym buffer = "byte list"

definition be_to_nat :: "buffer \<Rightarrow> nat" where
  "be_to_nat bs = foldl (\<lambda>a b. a * 256 + unat b) 0 bs"

fun nat_to_be :: "nat \<Rightarrow> nat \<Rightarrow> buffer" where
  "nat_to_be 0 n = []"
| "nat_to_be (Suc k) n = nat_to_be k (n div 256) @ [of_nat n]"

lemma length_nat_to_be [simp]: "length (nat_to_be k n) = k"
  by (induction k arbitrary: n) auto

lemma be_to_nat_Nil [simp]: "be_to_nat [] = 0"
  by (simp add: be_to_nat_def)

lemma be_to_nat_snoc: "be_to_nat (bs @ [b]) = be_to_nat bs * 256 + unat b"
  by (simp add: be_to_nat_def)

lemma be_to_nat_append: "be_to_nat (xs @ ys) = be_to_nat xs * 256 ^ length ys + be_to_nat ys"
  by (induction ys rule: rev_induct)
    (simp_all add: be_to_nat_snoc algebra_simps flip: append_assoc)

lemma be_to_nat_single [simp]: "be_to_nat [b] = unat b"
  by (simp add: be_to_nat_def)

lemma be_to_nat_Cons: "be_to_nat (b # bs) = unat b * 256 ^ length bs + be_to_nat bs"
  using be_to_nat_append [of "[b]" bs] by simp

lemma unat_byte_less [simp]: "unat (b :: byte) < 256"
  using unsigned_less [of b] by simp

lemma be_to_nat_less: "be_to_nat bs < 256 ^ length bs"
proof (induction bs rule: rev_induct)
  case Nil
  show ?case by simp
next
  case (snoc b bs)
  have "unat b < 256" by simp
  then have "be_to_nat bs * 256 + unat b < (be_to_nat bs + 1) * 256" by simp
  also have "\<dots> \<le> 256 ^ length bs * 256"
    using snoc by (intro mult_right_mono) auto
  finally show ?case by (simp add: be_to_nat_snoc mult.commute)
qed

lemma unat_of_nat_byte: "unat (of_nat n :: byte) = n mod 256"
  by (simp add: unat_of_nat)

lemma be_to_nat_nat_to_be: "be_to_nat (nat_to_be k n) = n mod 256 ^ k"
proof (induction k arbitrary: n)
  case 0
  show ?case by simp
next
  case (Suc k)
  have "be_to_nat (nat_to_be (Suc k) n) = (n div 256 mod 256 ^ k) * 256 + n mod 256"
    by (simp add: be_to_nat_snoc Suc unat_of_nat_byte)
  also have "\<dots> = n mod (256 * 256 ^ k)"
    by (simp add: mod_mult2_eq)
  finally show ?case by simp
qed

lemma be_to_nat_nat_to_be_id [simp]: "n < 256 ^ k \<Longrightarrow> be_to_nat (nat_to_be k n) = n"
  by (simp add: be_to_nat_nat_to_be)

lemma nat_to_be_be_to_nat: "nat_to_be (length bs) (be_to_nat bs) = bs"
proof (induction bs rule: rev_induct)
  case Nil
  show ?case by simp
next
  case (snoc b bs)
  have "(be_to_nat bs * 256 + unat b) div 256 = be_to_nat bs" by simp
  moreover have "(of_nat (be_to_nat bs * 256 + unat b) :: byte) = b"
  proof -
    have "unat (of_nat (be_to_nat bs * 256 + unat b) :: byte) = unat b"
      unfolding unat_of_nat_byte by simp
    then show ?thesis by (rule unsigned_word_eqI)
  qed
  ultimately show ?case using snoc by (simp add: be_to_nat_snoc)
qed

text \<open>Two's complement reading of a big-endian byte string (\<open>readIntBE\<close>).\<close>

definition be_to_int :: "buffer \<Rightarrow> int" where
  "be_to_int bs =
     (let n = int (be_to_nat bs); m = 256 ^ length bs
      in if 2 * n < m then n else n - m)"

definition int_to_be :: "nat \<Rightarrow> int \<Rightarrow> buffer" where
  "int_to_be k v = nat_to_be k (nat (v mod 256 ^ k))"

lemma length_int_to_be [simp]: "length (int_to_be k v) = k"
  by (simp add: int_to_be_def)

lemma be_to_int_int_to_be:
  assumes "0 < k" and "- (256 ^ k) \<le> 2 * v" and "2 * v < 256 ^ k"
  shows "be_to_int (int_to_be k v) = v"
proof -
  let ?m = "256 ^ k :: int"
  have "nat (v mod ?m) < 256 ^ k"
    by (simp add: nat_less_iff)
  then have n: "int (be_to_nat (int_to_be k v)) = v mod ?m"
    by (simp add: int_to_be_def)
  show ?thesis
  proof (cases "0 \<le> v")
    case True
    with assms have "v mod ?m = v" by simp
    with n assms show ?thesis by (simp add: be_to_int_def)
  next
    case False
    have "v mod ?m = (v + ?m) mod ?m" by simp
    also have "\<dots> = v + ?m" by (rule mod_pos_pos_trivial) (use False assms in auto)
    finally show ?thesis using n False assms by (simp add: be_to_int_def)
  qed
qed

text \<open>Overwriting a region of a buffer: \<open>Buffer.copy\<close>, \<open>writeUIntBE\<close>.\<close>

definition overwrite :: "nat \<Rightarrow> 'a list \<Rightarrow> 'a list \<Rightarrow> 'a list" where
  "overwrite off new buf = take off buf @ new @ drop (off + length new) buf"

lemma length_overwrite [simp]: "off + length new \<le> length buf \<Longrightarrow> length (overwrite off new buf) = length buf"
  by (simp add: overwrite_def)

lemma take_overwrite:
  "off + length new \<le> length buf \<Longrightarrow> take (off + length new) (overwrite off new buf) = take off buf @ new"
  by (cases new) (auto simp: overwrite_def min_def)

definition slice :: "nat \<Rightarrow> nat \<Rightarrow> 'a list \<Rightarrow> 'a list" where
  "slice off len buf = take len (drop off buf)"

lemma length_slice [simp]: "off + len \<le> length buf \<Longrightarrow> length (slice off len buf) = len"
  by (simp add: slice_def)

lemma slice_append [simp]: "slice (length pre) (length bs) (pre @ bs @ post) = bs"
  by (simp add: slice_def)

section \<open>64-bit unsigned integers\<close>

text \<open>The bits of a \<open>Long\<close>; the arithmetic of the type wraps around.\<close>

type_synonym u64 = "64 word"

abbreviation MAX_UNSIGNED_VALUE :: u64 where
  "MAX_UNSIGNED_VALUE \<equiv> - 1"

named_theorems u64_arith \<open>unsigned readings of 64-bit operations that do not wrap\<close>

lemma unat_u64_less [simp]: "unat (x :: u64) < 2 ^ 64"
  using unsigned_less [of x] by simp

lemmas unat_u64_bound = unat_u64_less [simplified]

lemma unat_max_unsigned: "unat MAX_UNSIGNED_VALUE = 2 ^ 64 - 1"
  by (simp add: unsigned_minus_1_eq_mask mask_eq_exp_minus_1)

lemma unat_add_u64 [u64_arith]: "unat x + unat y < 2 ^ 64 \<Longrightarrow> unat (x + y :: u64) = unat x + unat y"
  by (simp add: unat_word_ariths)

lemma unat_add_wrap_u64:
  "2 ^ 64 \<le> unat x + unat y \<Longrightarrow> unat (x + y :: u64) = unat x + unat y - 2 ^ 64"
proof -
  assume ge: "2 ^ 64 \<le> unat x + unat y"
  have "unat x + unat y < 2 ^ 64 + 2 ^ 64"
    by (rule add_strict_mono) (rule unat_u64_less)+
  with ge show ?thesis by (simp add: unat_word_ariths mod_if)
qed

lemma unat_sub_u64 [u64_arith]: "y \<le> x \<Longrightarrow> unat (x - y :: u64) = unat x - unat y"
  by (simp add: unat_sub)

lemma unat_sub_wrap_u64: "x < y \<Longrightarrow> unat (x - y :: u64) = 2 ^ 64 + unat x - unat y"
  by (simp add: unat_sub_if' word_le_nat_alt word_less_nat_alt)

lemma add_u64_less_iff: "(a + b :: u64) < a \<longleftrightarrow> 2 ^ 64 \<le> unat a + unat b"
proof (cases "unat a + unat b < 2 ^ 64")
  case True
  then show ?thesis by (simp add: word_less_nat_alt unat_add_u64)
next
  case False
  then have "unat (a + b) = unat a + unat b - 2 ^ 64" by (simp add: unat_add_wrap_u64)
  with False unat_u64_less [of b] show ?thesis by (simp add: word_less_nat_alt)
qed

lemma even_unat_iff: "even (unat (a :: u64)) \<longleftrightarrow> even a"
proof -
  have "bit (unat a) 0 \<longleftrightarrow> bit a 0" by (simp only: bit_unsigned_iff) simp
  then show ?thesis by (simp only: bit_0) blast
qed

lemma unat_of_nat_u64 [u64_arith]: "n < 2 ^ 64 \<Longrightarrow> unat (of_nat n :: u64) = n"
  by (simp add: unat_of_nat)

section \<open>Rounding up\<close>

lemma ceil_div_split: "0 < c \<Longrightarrow> (n + c - 1) div c = n div c + (if n mod c = 0 then 0 else 1)" for n c :: nat
proof -
  assume c: "0 < c"
  have n: "n + c - 1 = n div c * c + (n mod c + c - 1)" using c by simp
  have "(n + c - 1) div c = n div c + (n mod c + c - 1) div c"
    unfolding n using c by (subst div_mult_self3) simp_all
  moreover have "(n mod c + c - 1) div c = (if n mod c = 0 then 0 else 1)"
  proof (cases "n mod c = 0")
    case False
    then have "n mod c + c - 1 = (n mod c - 1) + c" by simp
    moreover have "n mod c - 1 < c" using mod_less_divisor [OF c, of n] by linarith
    ultimately have "(n mod c + c - 1) div c = 1" using c by (simp only: div_add_self2) simp
    with False show ?thesis by simp
  qed (use c in simp)
  ultimately show ?thesis by simp
qed

end
