(* ===== verification/Js_String.thy ===== *)
theory Js_String
  imports Prelude
begin

text \<open>
  JavaScript strings and their conversions to and from Node buffers.

  A JavaScript string is a list of UTF-16 code units. \<open>js\<close> embeds a literal.
  \<open>ascii_encode\<close>/\<open>ascii_decode\<close> are \<open>Buffer.from(s, 'ascii')\<close> (the low byte of
  each unit) and \<open>toString('ascii')\<close> (the low seven bits of each byte);
  \<open>utf8_encode\<close>/\<open>utf8_decode\<close> are the \<open>'utf8'\<close> conversions, in which a lone surrogate
  and every ill-formed byte sequence become U+FFFD. \<open>dec_of_nat\<close>, \<open>dec_of_int\<close> are
  \<open>String(n)\<close> of an integer and \<open>dec_value\<close> reads decimal digits.
\<close>

type_synonym code_unit = "16 word"
type_synonym jsstring = "code_unit list"

definition js :: "string \<Rightarrow> jsstring" where
  "js s = map of_char s"

section \<open>ASCII\<close>

definition ascii_encode :: "jsstring \<Rightarrow> buffer" where
  "ascii_encode s = map ucast s"

definition ascii_decode :: "buffer \<Rightarrow> jsstring" where
  "ascii_decode bs = map (\<lambda>b. of_nat (unat b mod 128)) bs"

definition is_ascii :: "jsstring \<Rightarrow> bool" where
  "is_ascii s = list_all (\<lambda>u. unat u < 128) s"

lemma length_ascii_encode [simp]: "length (ascii_encode s) = length s"
  by (simp add: ascii_encode_def)

lemma unat_ucast_byte: "unat (ucast (u :: code_unit) :: byte) = unat u mod 256"
  by (simp add: unsigned_ucast_eq take_bit_eq_mod)

lemma ascii_decode_encode: "is_ascii s \<Longrightarrow> ascii_decode (ascii_encode s) = s"
  unfolding is_ascii_def ascii_encode_def ascii_decode_def
  by (induction s) (auto simp: unat_ucast_byte)

lemma is_ascii_decode: "is_ascii (ascii_decode bs)"
  unfolding is_ascii_def ascii_decode_def
  by (induction bs) (auto simp: unat_of_nat)

section \<open>Decimal numbers\<close>

definition digit :: "nat \<Rightarrow> code_unit" where
  "digit d = of_nat (48 + d)"

definition is_digit :: "code_unit \<Rightarrow> bool" where
  "is_digit u \<longleftrightarrow> 48 \<le> unat u \<and> unat u \<le> 57"

fun dec_of_nat :: "nat \<Rightarrow> jsstring" where
  "dec_of_nat n = (if n < 10 then [digit n] else dec_of_nat (n div 10) @ [digit (n mod 10)])"

declare dec_of_nat.simps [simp del]

definition minus_sign :: code_unit where
  "minus_sign = 45"

definition dec_of_int :: "int \<Rightarrow> jsstring" where
  "dec_of_int i = (if i < 0 then minus_sign # dec_of_nat (nat (- i)) else dec_of_nat (nat i))"

definition dec_value :: "jsstring \<Rightarrow> nat" where
  "dec_value s = foldl (\<lambda>a u. a * 10 + (unat u - 48)) 0 s"

lemma unat_digit: "d < 10 \<Longrightarrow> unat (digit d) = 48 + d"
  unfolding digit_def by (simp only: unat_of_nat) simp

lemma is_digit_digit: "d < 10 \<Longrightarrow> is_digit (digit d)"
  by (simp add: is_digit_def unat_digit)

lemma dec_value_snoc [simp]: "dec_value (s @ [u]) = dec_value s * 10 + (unat u - 48)"
  by (simp add: dec_value_def)

lemma dec_value_Nil [simp]: "dec_value [] = 0"
  by (simp add: dec_value_def)

lemma dec_value_dec_of_nat [simp]: "dec_value (dec_of_nat n) = n"
proof (induction n rule: dec_of_nat.induct)
  case (1 n)
  show ?case
  proof (cases "n < 10")
    case True
    then show ?thesis using dec_value_snoc [of "[]" "digit n"]
      by (simp add: dec_of_nat.simps [of n] unat_digit)
  next
    case False
    with 1 show ?thesis by (simp add: dec_of_nat.simps [of n] unat_digit)
  qed
qed

lemma dec_of_nat_digits [simp]: "list_all is_digit (dec_of_nat n)"
proof (induction n rule: dec_of_nat.induct)
  case (1 n)
  then show ?case by (simp add: dec_of_nat.simps [of n] is_digit_digit)
qed

lemma dec_of_nat_nonempty [simp]: "dec_of_nat n \<noteq> []"
  by (simp add: dec_of_nat.simps [of n])

text \<open>\<open>/^-?[0-9]+$/\<close>\<close>

fun integer_regex :: "jsstring \<Rightarrow> bool" where
  "integer_regex [] = False"
| "integer_regex (u # s) =
     (if u = minus_sign then s \<noteq> [] \<and> list_all is_digit s else list_all is_digit (u # s))"

text \<open>The integer an \<open>integer_regex\<close> string denotes.\<close>

fun dec_int_value :: "jsstring \<Rightarrow> int" where
  "dec_int_value [] = 0"
| "dec_int_value (u # s) =
     (if u = minus_sign then - int (dec_value s) else int (dec_value (u # s)))"

lemma minus_sign_not_digit: "\<not> is_digit minus_sign"
  by (simp add: is_digit_def minus_sign_def)

lemma dec_of_nat_Cons:
  obtains u s where "dec_of_nat n = u # s" "u \<noteq> minus_sign"
proof -
  obtain u s where us: "dec_of_nat n = u # s" using dec_of_nat_nonempty by (cases "dec_of_nat n") auto
  moreover have "is_digit u" using dec_of_nat_digits [of n] us by simp
  then have "u \<noteq> minus_sign" using minus_sign_not_digit by auto
  ultimately show thesis by (rule that)
qed

lemma integer_regex_dec_of_nat: "integer_regex (dec_of_nat n)"
  using dec_of_nat_digits [of n] by (rule_tac n = n in dec_of_nat_Cons) simp

lemma dec_int_value_dec_of_nat [simp]: "dec_int_value (dec_of_nat n) = int n"
proof -
  obtain u s where "dec_of_nat n = u # s" "u \<noteq> minus_sign" by (rule dec_of_nat_Cons)
  then show ?thesis using dec_value_dec_of_nat [of n] by simp
qed

lemma dec_of_nat_inj: "dec_of_nat m = dec_of_nat n \<longleftrightarrow> m = n"
  by (metis dec_value_dec_of_nat)

lemma is_ascii_dec_of_nat: "is_ascii (dec_of_nat n)"
  using dec_of_nat_digits [of n]
  by (auto simp: is_ascii_def is_digit_def list_all_iff)

section \<open>UTF-8\<close>

definition is_high :: "code_unit \<Rightarrow> bool" where
  "is_high u \<longleftrightarrow> 0xD800 \<le> unat u \<and> unat u < 0xDC00"

definition is_low :: "code_unit \<Rightarrow> bool" where
  "is_low u \<longleftrightarrow> 0xDC00 \<le> unat u \<and> unat u < 0xE000"

definition scalar_of_unit :: "code_unit \<Rightarrow> nat" where
  "scalar_of_unit u = (if is_high u \<or> is_low u then 0xFFFD else unat u)"

fun code_points :: "jsstring \<Rightarrow> nat list" where
  "code_points [] = []"
| "code_points [u] = [scalar_of_unit u]"
| "code_points (u # v # s) =
     (if is_high u \<and> is_low v
      then (0x10000 + (unat u - 0xD800) * 0x400 + (unat v - 0xDC00)) # code_points s
      else scalar_of_unit u # code_points (v # s))"

definition utf8_bytes :: "nat \<Rightarrow> buffer" where
  "utf8_bytes n = map of_nat
     (if n < 0x80 then [n]
      else if n < 0x800 then [192 + n div 64, 128 + n mod 64]
      else if n < 0x10000 then [224 + n div 4096, 128 + n div 64 mod 64, 128 + n mod 64]
      else [240 + n div 262144, 128 + n div 4096 mod 64, 128 + n div 64 mod 64, 128 + n mod 64])"

definition utf8_encode :: "jsstring \<Rightarrow> buffer" where
  "utf8_encode s = concat (map utf8_bytes (code_points s))"

definition cont :: "nat \<Rightarrow> bool" where
  "cont b \<longleftrightarrow> 128 \<le> b \<and> b \<le> 191"

definition second_ok :: "nat \<Rightarrow> nat \<Rightarrow> bool" where
  "second_ok b0 b1 \<longleftrightarrow> cont b1 \<and> (b0 = 0xE0 \<longrightarrow> 0xA0 \<le> b1) \<and> (b0 = 0xED \<longrightarrow> b1 \<le> 0x9F)
     \<and> (b0 = 0xF0 \<longrightarrow> 0x90 \<le> b1) \<and> (b0 = 0xF4 \<longrightarrow> b1 \<le> 0x8F)"

text \<open>An ill-formed sequence yields U+FFFD and decoding resumes at the offending byte.\<close>

fun utf8_points :: "nat list \<Rightarrow> nat list" where
  "utf8_points [] = []"
| "utf8_points (b0 # r) =
     (if b0 < 128 then b0 # utf8_points r
      else if 194 \<le> b0 \<and> b0 \<le> 223 then
        (case r of [] \<Rightarrow> [0xFFFD]
         | b1 # r1 \<Rightarrow>
             if cont b1 then ((b0 - 192) * 64 + (b1 - 128)) # utf8_points r1
             else 0xFFFD # utf8_points r)
      else if 224 \<le> b0 \<and> b0 \<le> 239 then
        (case r of [] \<Rightarrow> [0xFFFD]
         | b1 # r1 \<Rightarrow>
             if second_ok b0 b1 then
               (case r1 of [] \<Rightarrow> [0xFFFD]
                | b2 # r2 \<Rightarrow>
                    if cont b2
                    then ((b0 - 224) * 4096 + (b1 - 128) * 64 + (b2 - 128)) # utf8_points r2
                    else 0xFFFD # utf8_points r1)
             else 0xFFFD # utf8_points r)
      else if 240 \<le> b0 \<and> b0 \<le> 244 then
        (case r of [] \<Rightarrow> [0xFFFD]
         | b1 # r1 \<Rightarrow>
             if second_ok b0 b1 then
               (case r1 of [] \<Rightarrow> [0xFFFD]
                | b2 # r2 \<Rightarrow>
                    if cont b2 then
                      (case r2 of [] \<Rightarrow> [0xFFFD]
                       | b3 # r3 \<Rightarrow>
                           if cont b3
                           then ((b0 - 240) * 262144 + (b1 - 128) * 4096 + (b2 - 128) * 64
                                 + (b3 - 128)) # utf8_points r3
                           else 0xFFFD # utf8_points r2)
                    else 0xFFFD # utf8_points r1)
             else 0xFFFD # utf8_points r)
      else 0xFFFD # utf8_points r)"

definition utf16_units :: "nat \<Rightarrow> jsstring" where
  "utf16_units n = map of_nat
     (if n < 0x10000 then [n]
      else [0xD800 + (n - 0x10000) div 0x400, 0xDC00 + (n - 0x10000) mod 0x400])"

definition utf8_decode :: "buffer \<Rightarrow> jsstring" where
  "utf8_decode bs = concat (map utf16_units (utf8_points (map unat bs)))"

text \<open>A string without lone surrogates.\<close>

fun well_formed :: "jsstring \<Rightarrow> bool" where
  "well_formed [] = True"
| "well_formed [u] = (\<not> is_high u \<and> \<not> is_low u)"
| "well_formed (u # v # s) =
     (if is_high u \<and> is_low v then well_formed s
      else \<not> is_high u \<and> \<not> is_low u \<and> well_formed (v # s))"

definition is_scalar :: "nat \<Rightarrow> bool" where
  "is_scalar n \<longleftrightarrow> n < 0x110000 \<and> \<not> (0xD800 \<le> n \<and> n < 0xE000)"

lemma unat_unit_less: "unat (u :: code_unit) < 65536"
  using unsigned_less [of u] by simp

lemma is_scalar_scalar_of_unit: "is_scalar (scalar_of_unit u)"
  using unat_unit_less [of u] by (auto simp: is_scalar_def scalar_of_unit_def is_high_def is_low_def)

lemma is_scalar_pair:
  "is_high u \<Longrightarrow> is_low v \<Longrightarrow> is_scalar (0x10000 + (unat u - 0xD800) * 0x400 + (unat v - 0xDC00))"
  by (auto simp: is_scalar_def is_high_def is_low_def)

lemma code_points_scalar: "list_all is_scalar (code_points s)"
  by (induction s rule: code_points.induct)
    (simp_all add: is_scalar_scalar_of_unit is_scalar_pair)

text \<open>The bytes of one code point, read as naturals, by length of the encoding.\<close>

definition utf8_nats :: "nat \<Rightarrow> nat list" where
  "utf8_nats n =
     (if n < 0x80 then [n]
      else if n < 0x800 then [192 + n div 64, 128 + n mod 64]
      else if n < 0x10000 then [224 + n div 4096, 128 + n div 64 mod 64, 128 + n mod 64]
      else [240 + n div 262144, 128 + n div 4096 mod 64, 128 + n div 64 mod 64, 128 + n mod 64])"

lemma utf8_nats_byte: "n < 0x110000 \<Longrightarrow> b \<in> set (utf8_nats n) \<Longrightarrow> b < 256"
proof -
  assume n: "n < 0x110000" and b: "b \<in> set (utf8_nats n)"
  have "n div 262144 < 16" using n by auto
  moreover have "n div 64 < 64" if "n < 0x800" using that by auto
  moreover have "n div 4096 < 16" if "n < 0x10000" using that by auto
  ultimately show ?thesis using b by (auto simp: utf8_nats_def split: if_splits)
qed

lemma map_unat_utf8_bytes: "n < 0x110000 \<Longrightarrow> map unat (utf8_bytes n) = utf8_nats n"
proof -
  assume n: "n < 0x110000"
  have "utf8_bytes n = map of_nat (utf8_nats n)"
    unfolding utf8_bytes_def utf8_nats_def ..
  then show ?thesis using utf8_nats_byte [OF n]
    by (simp add: unat_of_nat_byte map_idI)
qed

lemma cont_mod: "cont (128 + n mod 64)"
proof -
  have "n mod 64 < 64" by simp
  then show ?thesis by (simp add: cont_def)
qed

lemma split64: "n div 64 * 64 + n mod 64 = n" for n :: nat
  by simp

lemma second_ok_three:
  assumes "is_scalar n" "0x800 \<le> n" "n < 0x10000"
  shows "second_ok (224 + n div 4096) (128 + n div 64 mod 64)"
proof -
  have d: "n div 64 = n div 4096 * 64 + n div 64 mod 64"
    using split64 [of "n div 64"] by (simp add: div_mult2_eq [of n 64 64, simplified])
  have "n div 4096 = 0 \<Longrightarrow> 32 \<le> n div 64 mod 64"
    using d assms(2) div_le_mono [of "0x800" n 64] by simp
  moreover have "n div 4096 = 13 \<Longrightarrow> n div 64 mod 64 \<le> 31"
  proof -
    assume "n div 4096 = 13"
    then have "0xD000 \<le> n" "n < 0xE000" by auto
    then have "n < 0xD800" using assms(1) by (auto simp: is_scalar_def)
    then have "n div 64 < 864" by auto
    with d \<open>n div 4096 = 13\<close> show ?thesis by linarith
  qed
  moreover have "n div 4096 < 16" using assms(3) by auto
  ultimately show ?thesis using cont_mod [of "n div 64"] by (auto simp: second_ok_def)
qed

lemma second_ok_four:
  assumes "is_scalar n" "0x10000 \<le> n"
  shows "second_ok (240 + n div 262144) (128 + n div 4096 mod 64)"
proof -
  have d: "n div 4096 = n div 262144 * 64 + n div 4096 mod 64"
    using split64 [of "n div 4096"] by (simp add: div_mult2_eq [of n 4096 64, simplified])
  have "n div 262144 = 0 \<Longrightarrow> 16 \<le> n div 4096 mod 64"
    using d div_le_mono [OF assms(2), of 4096] by simp
  moreover have "n div 4096 < 272" using assms(1) by (auto simp: is_scalar_def)
  then have "n div 262144 = 4 \<Longrightarrow> n div 4096 mod 64 \<le> 15" using d by linarith
  ultimately show ?thesis using cont_mod [of "n div 4096"] by (auto simp: second_ok_def)
qed

lemma utf8_points_nats:
  assumes "is_scalar n"
  shows "utf8_points (utf8_nats n @ r) = n # utf8_points r"
proof -
  have n: "n < 0x110000" using assms by (simp add: is_scalar_def)
  have div4096: "n div 4096 = n div 64 div 64" using div_mult2_eq [of n 64 64] by simp
  have div262144: "n div 262144 = n div 4096 div 64" using div_mult2_eq [of n 4096 64] by simp
  consider "n < 0x80" | "0x80 \<le> n" "n < 0x800" | "0x800 \<le> n" "n < 0x10000" | "0x10000 \<le> n"
    by linarith
  then show ?thesis
  proof cases
    case 1
    then show ?thesis by (simp add: utf8_nats_def)
  next
    case 2
    then have "2 \<le> n div 64" "n div 64 < 32" by auto
    with 2 show ?thesis by (simp add: utf8_nats_def cont_mod)
  next
    case 3
    then have "n div 4096 < 16" by auto
    moreover have "n div 4096 * 4096 + n div 64 mod 64 * 64 + n mod 64 = n"
      using split64 [of n] split64 [of "n div 64"] div4096 by linarith
    ultimately show ?thesis using 3 second_ok_three [OF assms 3]
      by (simp add: utf8_nats_def cont_mod)
  next
    case 4
    then have "n div 262144 \<le> 4" using n by auto
    moreover have "n div 262144 * 262144 + n div 4096 mod 64 * 4096 + n div 64 mod 64 * 64 + n mod 64 = n"
      using split64 [of n] split64 [of "n div 64"] split64 [of "n div 4096"] div4096 div262144
      by linarith
    ultimately show ?thesis using 4 second_ok_four [OF assms 4]
      by (simp add: utf8_nats_def cont_mod)
  qed
qed

lemma utf8_points_concat:
  "list_all is_scalar ns \<Longrightarrow> utf8_points (concat (map utf8_nats ns)) = ns"
  by (induction ns) (simp_all add: utf8_points_nats)

lemma utf16_units_pair:
  assumes "is_high u" "is_low v"
  shows "utf16_units (0x10000 + (unat u - 0xD800) * 0x400 + (unat v - 0xDC00)) = [u, v]"
proof -
  let ?h = "unat u - 0xD800" and ?l = "unat v - 0xDC00"
  have l: "?l < 0x400" using assms by (auto simp: is_low_def)
  have "0xD800 + ?h = unat u" "0xDC00 + ?l = unat v"
    using assms by (auto simp: is_low_def is_high_def)
  moreover have "(?h * 0x400 + ?l) div 0x400 = ?h" "(?h * 0x400 + ?l) mod 0x400 = ?l"
    using l by auto
  ultimately have "utf16_units (0x10000 + (?h * 0x400 + ?l)) = map of_nat [unat u, unat v]"
    unfolding utf16_units_def diff_add_inverse by (simp only: not_add_less1 if_False)
  then show ?thesis by (simp add: add.assoc)
qed

lemma utf16_units_scalar: "\<not> is_high u \<Longrightarrow> \<not> is_low u \<Longrightarrow> utf16_units (scalar_of_unit u) = [u]"
  using unat_unit_less [of u] by (simp add: utf16_units_def scalar_of_unit_def)

lemma utf16_code_points: "well_formed s \<Longrightarrow> concat (map utf16_units (code_points s)) = s"
proof (induction s rule: code_points.induct)
  case (2 u)
  then show ?case by (simp add: utf16_units_scalar)
next
  case (3 u v s)
  then show ?case
    by (simp add: utf16_units_pair utf16_units_scalar split: if_splits)
qed simp

lemma utf8_decode_encode: "well_formed s \<Longrightarrow> utf8_decode (utf8_encode s) = s"
proof -
  assume s: "well_formed s"
  have lt: "n < 0x110000" if "n \<in> set (code_points s)" for n
    using that code_points_scalar [of s] by (auto simp: list_all_iff is_scalar_def)
  have "map unat (utf8_encode s) = concat (map utf8_nats (code_points s))"
    unfolding utf8_encode_def map_concat using lt
    by (simp add: map_unat_utf8_bytes cong: map_cong)
  then show ?thesis using s
    by (simp add: utf8_decode_def utf8_points_concat code_points_scalar utf16_code_points)
qed

lemma is_ascii_well_formed: "is_ascii s \<Longrightarrow> well_formed s"
  by (induction s rule: well_formed.induct) (auto simp: is_ascii_def is_high_def is_low_def)

lemma code_points_ascii: "is_ascii s \<Longrightarrow> code_points s = map unat s"
  by (induction s rule: code_points.induct)
    (simp_all add: is_ascii_def is_high_def is_low_def scalar_of_unit_def)

lemma of_nat_unat_unit: "of_nat (unat (u :: code_unit)) = (ucast u :: byte)"
  by (rule unsigned_word_eqI [where ?'a = nat]) (simp add: unat_of_nat unat_ucast_byte)

lemma utf8_encode_ascii: "is_ascii s \<Longrightarrow> utf8_encode s = ascii_encode s"
proof -
  assume s: "is_ascii s"
  have "concat (map (\<lambda>u. utf8_bytes (unat u)) s) = map ucast s"
    using s by (induction s) (simp_all add: is_ascii_def utf8_bytes_def of_nat_unat_unit)
  then show ?thesis using s by (simp add: utf8_encode_def ascii_encode_def code_points_ascii comp_def)
qed

lemma utf8_decode_ascii: "is_ascii s \<Longrightarrow> utf8_decode (ascii_encode s) = s"
  using utf8_decode_encode [OF is_ascii_well_formed] by (simp add: utf8_encode_ascii)

section \<open>Objects as tables\<close>

text \<open>The names that every plain object inherits from \<open>Object.prototype\<close>.\<close>

definition object_members :: "jsstring list" where
  "object_members = map js [''constructor'', ''hasOwnProperty'', ''isPrototypeOf'', ''propertyIsEnumerable'', ''toLocaleString'',
     ''toString'', ''valueOf'', ''__proto__'', ''__defineGetter__'', ''__defineSetter__'', ''__lookupGetter__'', ''__lookupSetter__'']"

end
