(* ===== verification/Oer_Util.thy ===== *)
theory Oer_Util
  imports Complex_Main Js_String
begin

text \<open>
  \<^verbatim>\<open>oer-utils/src/lib/util.ts\<close>: integer arguments and the sizes of their encodings.

  A \<open>Long\<close> of the \<open>long\<close> package is its 64 bits and its signedness flag. A
  JavaScript number is a rational or one of the three non-finite values. A number that
  reaches \<open>Long.fromNumber\<close> is converted exactly when it is in the range of the type
  and saturates otherwise; a decimal string is reduced modulo \<open>2\<^sup>6\<^sup>4\<close>, which is the
  wrap-around that \<^verbatim>\<open>ilp-protocol-stream/src/util/long.ts\<close> guards against.
\<close>

datatype long = Long (long_bits: u64) (long_unsigned: bool)

datatype jsnum = NaN | Infinity | NegInfinity | Num rat

datatype long_value = LongV long | NumV jsnum | StrV jsstring

definition MAX_SAFE_BYTES :: nat where
  "MAX_SAFE_BYTES = 6"

fun isInteger :: "long_value \<Rightarrow> bool" where
  "isInteger (NumV (Num r)) = (of_int \<lfloor>r\<rfloor> = r)"
| "isInteger (NumV _) = False"
| "isInteger (StrV s) = integer_regex s"
| "isInteger (LongV _) = True"

text \<open>The integer value of a \<open>Long\<close>.\<close>

definition long_value_of :: "long \<Rightarrow> int" where
  "long_value_of l = (if long_unsigned l then uint (long_bits l) else sint (long_bits l))"

definition long_fromInt :: "int \<Rightarrow> bool \<Rightarrow> long" where
  "long_fromInt i uns =
     (if uns then Long (word_of_int (max 0 (min (2 ^ 64 - 1) i))) True
      else Long (word_of_int (max (- (2 ^ 63)) (min (2 ^ 63 - 1) i))) False)"

fun long_fromNumber :: "jsnum \<Rightarrow> bool \<Rightarrow> long" where
  "long_fromNumber (Num r) uns = long_fromInt (if 0 \<le> r then \<lfloor>r\<rfloor> else \<lceil>r\<rceil>) uns"
| "long_fromNumber NaN uns = Long 0 uns"
| "long_fromNumber Infinity uns = long_fromInt (2 ^ 64) uns"
| "long_fromNumber NegInfinity uns = long_fromInt (- (2 ^ 64)) uns"

definition long_fromDecimal :: "jsstring \<Rightarrow> bool \<Rightarrow> long" where
  "long_fromDecimal s uns = Long (word_of_int (dec_int_value s)) uns"

fun jsnum_less_zero :: "jsnum \<Rightarrow> bool" where
  "jsnum_less_zero (Num r) = (r < 0)"
| "jsnum_less_zero NegInfinity = True"
| "jsnum_less_zero _ = False"

fun longFromValue :: "long_value \<Rightarrow> bool \<Rightarrow> long result" where
  "longFromValue (NumV n) uns =
     (if uns \<and> jsnum_less_zero n then Inl (Error ''UInt must be positive'')
      else Inr (long_fromNumber n uns))"
| "longFromValue (LongV l) uns =
     (if long_unsigned l \<noteq> uns
      then Inl (Error (if uns then ''Expected unsigned Long'' else ''Expected signed Long''))
      else Inr l)"
| "longFromValue (StrV s) uns =
     (if uns \<and> s \<noteq> [] \<and> hd s = minus_sign then Inl (Error ''UInt must be positive'')
      else Inr (long_fromDecimal s uns))"

definition bufferToLong :: "buffer \<Rightarrow> bool \<Rightarrow> long result" where
  "bufferToLong bs uns =
     (if 8 < length bs
      then Inl (Error (if uns then ''UInt is too large'' else ''Int is too large''))
      else if uns then
        Inr (Long (foldl (\<lambda>sum v. push_bit 8 sum + ucast v) 0 bs) True)
      else
        Inr (Long (fst (foldl (\<lambda>(sum, i) v.
               (sum * 256 + (if i = 0 \<and> 0x80 \<le> unat v then word_of_int (uint v - 0x100) else ucast v),
                Suc i)) (0, 0 :: nat) bs)) False))"

text \<open>
  \<open>value.toBytesBE().slice(8 - length)\<close>: for a length over 8 the index is negative
  and \<open>slice\<close> counts from the end.
\<close>

definition longToBuffer :: "long \<Rightarrow> nat \<Rightarrow> buffer" where
  "longToBuffer l len =
     (let be = nat_to_be 8 (unat (long_bits l))
      in if len \<le> 8 then drop (8 - len) be else drop (8 - (len - 8)) be)"

section \<open>Sizes\<close>

definition LONG_VAR_UINT_SIZES :: "(u64 \<times> nat) list" where
  "LONG_VAR_UINT_SIZES = map (\<lambda>i. (drop_bit (64 - 8 * (i + 1)) MAX_UNSIGNED_VALUE, i + 1)) [0..<8]"

definition LONG_VAR_INT_SIZES :: "(int \<times> int \<times> nat) list" where
  "LONG_VAR_INT_SIZES =
     map (\<lambda>i. (drop_bit (64 - 8 * (i + 1)) (- (2 ^ 63)), drop_bit (64 - 8 * (i + 1)) (2 ^ 63 - 1), i + 1))
       [0..<8]"

fun first_uint_size :: "(u64 \<times> nat) list \<Rightarrow> u64 \<Rightarrow> nat result" where
  "first_uint_size [] v = Inl (Error ''unreachable'')"
| "first_uint_size ((mx, bytes) # rest) v =
     (if v \<le> mx then Inr bytes else first_uint_size rest v)"

definition getLongUIntBufferSize :: "u64 \<Rightarrow> nat result" where
  "getLongUIntBufferSize v = first_uint_size LONG_VAR_UINT_SIZES v"

fun first_int_size :: "(int \<times> int \<times> nat) list \<Rightarrow> int \<Rightarrow> nat option" where
  "first_int_size [] v = None"
| "first_int_size ((mn, mx, bytes) # rest) v =
     (if mn \<le> v \<and> v \<le> mx then Some bytes else first_int_size rest v)"

definition getLongIntBufferSize :: "u64 \<Rightarrow> nat result" where
  "getLongIntBufferSize v =
     (case first_int_size LONG_VAR_INT_SIZES (sint v) of
        None \<Rightarrow> Inl (Error ''unreachable'') | Some n \<Rightarrow> Inr n)"

fun hex_length :: "nat \<Rightarrow> nat" where
  "hex_length n = (if n < 16 then 1 else hex_length (n div 16) + 1)"

declare hex_length.simps [simp del]

text \<open>\<open>Math.ceil(value.toString(16).length / 2)\<close>; a negative value prints a sign.\<close>

definition computeLongBufferSize :: "long \<Rightarrow> nat" where
  "computeLongBufferSize l =
     (let v = long_value_of l;
          len = hex_length (nat \<bar>v\<bar>) + (if v < 0 then 1 else 0)
      in (len + 1) div 2)"

text \<open>\<open>makeNumberRanges\<close> keeps the ranges of at most \<open>MAX_SAFE_BYTES\<close> bytes.\<close>

definition VAR_UINT_SIZES :: "(int \<times> nat) list" where
  "VAR_UINT_SIZES = map (\<lambda>(mx, b). (uint mx, b)) (filter (\<lambda>(mx, b). b \<le> MAX_SAFE_BYTES) LONG_VAR_UINT_SIZES)"

definition VAR_INT_SIZES :: "(int \<times> int \<times> nat) list" where
  "VAR_INT_SIZES = filter (\<lambda>(mn, mx, b). b \<le> MAX_SAFE_BYTES) LONG_VAR_INT_SIZES"

definition getUIntBufferSize :: "int \<Rightarrow> nat" where
  "getUIntBufferSize v =
     (case find (\<lambda>(mx, b). v \<le> mx) VAR_UINT_SIZES of
        Some (mx, b) \<Rightarrow> b
      | None \<Rightarrow> computeLongBufferSize (long_fromInt v True))"

definition getIntBufferSize :: "int \<Rightarrow> nat" where
  "getIntBufferSize v =
     (case first_int_size VAR_INT_SIZES v of
        Some b \<Rightarrow> b
      | None \<Rightarrow> computeLongBufferSize (long_fromInt v False))"

section \<open>Byte strings as Longs\<close>

lemma ucast_byte_u64: "(ucast (v :: byte) :: u64) = of_nat (unat v)"
  by simp

lemma bufferToLong_unsigned:
  assumes "length bs \<le> 8"
  shows "bufferToLong bs True = Inr (Long (of_nat (be_to_nat bs)) True)"
proof -
  have "foldl (\<lambda>sum v. push_bit 8 sum + ucast v) (of_nat n :: u64) xs =
        of_nat (foldl (\<lambda>a b. a * 256 + unat b) n xs)" for n and xs :: buffer
  proof (induction xs arbitrary: n)
    case (Cons x xs)
    have "push_bit 8 (of_nat n :: u64) + ucast x = of_nat (n * 256 + unat x)"
      by (simp add: push_bit_eq_mult)
    then show ?case by (simp only: foldl_Cons Cons.IH)
  qed simp
  from this [of 0 bs] assms show ?thesis
    by (simp add: bufferToLong_def be_to_nat_def)
qed

lemma bufferToLong_too_long: "8 < length bs \<Longrightarrow> \<exists>e. bufferToLong bs uns = Inl e"
  by (simp add: bufferToLong_def)

lemma nat_of_u64_buffer: "length bs \<le> 8 \<Longrightarrow> unat (of_nat (be_to_nat bs) :: u64) = be_to_nat bs"
proof (rule unat_of_nat_u64)
  assume "length bs \<le> 8"
  then have "(256::nat) ^ length bs \<le> 256 ^ 8" by (intro power_increasing) auto
  then show "be_to_nat bs < 2 ^ 64" using be_to_nat_less [of bs] by simp
qed

lemma longToBuffer_short:
  assumes "len \<le> 8" and "unat (long_bits l) < 256 ^ len"
  shows "longToBuffer l len = nat_to_be len (unat (long_bits l))"
proof -
  have "nat_to_be (k + m) n = nat_to_be k (n div 256 ^ m) @ nat_to_be m n" for k m n
    by (induction m arbitrary: n) (simp_all add: div_mult2_eq)
  from this [of "8 - len" len] assms have
    "nat_to_be 8 (unat (long_bits l)) = nat_to_be (8 - len) 0 @ nat_to_be len (unat (long_bits l))"
    by simp
  then show ?thesis using assms by (simp add: longToBuffer_def)
qed

section \<open>Sizes are minimal\<close>

text \<open>Reference definition: the number of base-256 digits.\<close>

fun uint_size :: "nat \<Rightarrow> nat" where
  "uint_size n = (if n < 256 then 1 else uint_size (n div 256) + 1)"

declare uint_size.simps [simp del]

lemma uint_size_pos [simp]: "0 < uint_size n"
  by (subst uint_size.simps) simp

lemma uint_size_neq0 [simp]: "uint_size n \<noteq> 0"
  using uint_size_pos [of n] by linarith

lemma uint_size_upper: "n < 256 ^ uint_size n"
proof (induction n rule: uint_size.induct)
  case (1 n)
  show ?case
  proof (cases "n < 256")
    case False
    with 1 have "n div 256 < 256 ^ uint_size (n div 256)" by simp
    with False show ?thesis by (simp add: uint_size.simps [of n] div_less_iff_less_mult mult.commute)
  qed (simp add: uint_size.simps [of n])
qed

lemma uint_size_le: "0 < k \<Longrightarrow> n < 256 ^ k \<Longrightarrow> uint_size n \<le> k"
proof (induction k arbitrary: n)
  case (Suc k)
  show ?case
  proof (cases "n < 256 \<or> k = 0")
    case True
    with Suc.prems show ?thesis by (auto simp: uint_size.simps [of n])
  next
    case False
    with Suc.prems have "n div 256 < 256 ^ k" by (simp add: div_less_iff_less_mult mult.commute)
    with Suc.IH False show ?thesis by (simp add: uint_size.simps [of n])
  qed
qed simp

lemma uint_size_eqI:
  assumes "0 < k" "n < 256 ^ k" "k = 1 \<or> 256 ^ (k - 1) \<le> n"
  shows "uint_size n = k"
proof (rule antisym)
  show "uint_size n \<le> k" using assms(1,2) by (rule uint_size_le)
  show "k \<le> uint_size n"
  proof (rule ccontr)
    assume "\<not> k \<le> uint_size n"
    then have *: "uint_size n \<le> k - 1" "k \<noteq> 1" using uint_size_pos [of n] by linarith+
    from *(1) have "(256::nat) ^ uint_size n \<le> 256 ^ (k - 1)" by (rule power_increasing) simp
    with uint_size_upper have "n < 256 ^ (k - 1)" by (rule less_le_trans)
    with assms(3) *(2) show False by linarith
  qed
qed

lemma uint_size_one: "n < 256 \<Longrightarrow> uint_size n = Suc 0"
  by (simp add: uint_size.simps)

lemma LONG_VAR_UINT_SIZES_eq:
  "LONG_VAR_UINT_SIZES =
     [(0xff, 1), (0xffff, 2), (0xffffff, 3), (0xffffffff, 4), (0xffffffffff, 5),
      (0xffffffffffff, 6), (0xffffffffffffff, 7), (0xffffffffffffffff, 8)]"
  by (simp add: LONG_VAR_UINT_SIZES_def upt_rec mask_eq_exp_minus_1)

lemma getLongUIntBufferSize_minimal: "getLongUIntBufferSize v = Inr (uint_size (unat v))"
proof -
  have "unat v < 2 ^ 64" by (rule unat_u64_less)
  then show ?thesis
    unfolding getLongUIntBufferSize_def LONG_VAR_UINT_SIZES_eq
    by (auto simp: word_le_nat_alt not_le uint_size_one intro!: uint_size_eqI)
qed

lemma hex_length_pair: "(hex_length n + 1) div 2 = uint_size n"
proof (induction n rule: uint_size.induct)
  case (1 n)
  show ?case
  proof (cases "n < 256")
    case True
    then have "n div 16 < 16" by (simp add: div_less_iff_less_mult)
    with True show ?thesis
      by (simp add: hex_length.simps [of n] hex_length.simps [of "n div 16"] uint_size.simps [of n])
  next
    case False
    then have "\<not> n div 16 < 16" by (simp add: div_less_iff_less_mult)
    with False have "hex_length n = hex_length (n div 256) + 2"
      by (simp add: hex_length.simps [of n] hex_length.simps [of "n div 16"] flip: div_mult2_eq)
    with 1 False show ?thesis by (simp add: uint_size.simps [of n])
  qed
qed

lemma VAR_UINT_SIZES_eq:
  "VAR_UINT_SIZES =
     [(0xff, 1), (0xffff, 2), (0xffffff, 3), (0xffffffff, 4), (0xffffffffff, 5), (0xffffffffffff, 6)]"
  by (simp add: VAR_UINT_SIZES_def LONG_VAR_UINT_SIZES_eq MAX_SAFE_BYTES_def)

text \<open>The two size functions agree and are minimal on the whole unsigned range.\<close>

lemma getUIntBufferSize_minimal:
  assumes "n < 2 ^ 64"
  shows "getUIntBufferSize (int n) = uint_size n"
proof (cases "n \<le> 0xffffffffffff")
  case True
  then show ?thesis
    by (auto simp: getUIntBufferSize_def VAR_UINT_SIZES_eq uint_size_one intro!: uint_size_eqI)
next
  case False
  then have none: "find (\<lambda>(mx, b). int n \<le> mx) VAR_UINT_SIZES = None"
    by (simp add: VAR_UINT_SIZES_eq)
  have "long_fromInt (int n) True = Long (word_of_int (int n)) True"
    using assms by (simp add: long_fromInt_def)
  moreover have "uint (word_of_int (int n) :: u64) = int n"
  proof -
    have "uint (word_of_int (int n) :: u64) = int (unat (of_nat n :: u64))" by simp
    with assms show ?thesis by (simp only: unat_of_nat_u64)
  qed
  ultimately have "long_value_of (long_fromInt (int n) True) = int n"
    by (simp add: long_value_of_def)
  then show ?thesis
    using none hex_length_pair [of n] by (simp add: getUIntBufferSize_def computeLongBufferSize_def)
qed

lemma uint_size_bounds:
  "uint_size n \<le> 8 \<longleftrightarrow> n < 2 ^ 64"
  "uint_size n \<le> 6 \<longleftrightarrow> n < 2 ^ 48"
proof -
  have *: "uint_size n \<le> k \<longleftrightarrow> n < 256 ^ k" if "0 < k" for k
  proof
    assume "uint_size n \<le> k"
    then have "(256::nat) ^ uint_size n \<le> 256 ^ k" by (rule power_increasing) simp
    with uint_size_upper show "n < 256 ^ k" by (rule less_le_trans)
  qed (rule uint_size_le [OF that])
  show "uint_size n \<le> 8 \<longleftrightarrow> n < 2 ^ 64" "uint_size n \<le> 6 \<longleftrightarrow> n < 2 ^ 48"
    using * [of 8] * [of 6] by simp_all
qed

end
