(* ===== verification/Oer_Reader.thy ===== *)
theory Oer_Reader
  imports Oer_Util
begin

text \<open>
  \<^verbatim>\<open>oer-utils/src/lib/reader.ts\<close>: the \<open>Reader\<close> class.

  The state is the buffer, the cursor and the stack of bookmarks. A method is a state
  transformer that may throw; \<open>rbind\<close> sequences two calls on the same reader. The
  \<open>number\<close> results are at most six bytes wide, so they are exact. Byte counts of
  raw reads are naturals; the length arguments of the integer readers are integers,
  since the code tests their sign.

  \<open>reads p bs v\<close> says that \<open>p\<close>, started anywhere in a buffer in front of the bytes
  \<open>bs\<close>, returns \<open>v\<close> and advances the cursor over exactly \<open>bs\<close>; it composes along
  \<open>rbind\<close> and carries every round-trip proof of the development.
\<close>

record reader =
  rbuf :: buffer
  cursor :: nat
  bookmarks :: "nat list"

type_synonym 'a rd = "reader \<Rightarrow> ('a \<times> reader) result"

definition rret :: "'a \<Rightarrow> 'a rd" where
  "rret a r = Inr (a, r)"

definition rbind :: "'a rd \<Rightarrow> ('a \<Rightarrow> 'b rd) \<Rightarrow> 'b rd" where
  "rbind m k r = (case m r of Inl e \<Rightarrow> Inl e | Inr (a, r') \<Rightarrow> k a r')"

definition rthrow :: "js_error \<Rightarrow> 'a rd" where
  "rthrow e r = Inl e"

definition rlift :: "'a result \<Rightarrow> 'a rd" where
  "rlift m r = (case m of Inl e \<Rightarrow> Inl e | Inr a \<Rightarrow> Inr (a, r))"

text \<open>\<open>for (let i = 0; i < n; i++) items.push(body())\<close>\<close>

fun rrepeat :: "nat \<Rightarrow> 'a rd \<Rightarrow> 'a list rd" where
  "rrepeat 0 m = rret []"
| "rrepeat (Suc n) m = rbind m (\<lambda>x. rbind (rrepeat n m) (\<lambda>xs. rret (x # xs)))"

text \<open>\<open>Reader.from(buffer)\<close>; from another reader it starts at that reader's cursor.\<close>

definition new_reader :: "buffer \<Rightarrow> reader" where
  "new_reader bs = \<lparr>rbuf = bs, cursor = 0, bookmarks = []\<rparr>"

definition reader_from_reader :: "reader \<Rightarrow> reader" where
  "reader_from_reader r = new_reader (drop (cursor r) (rbuf r))"

text \<open>\<open>run_reader p bs\<close> runs a parser on a fresh reader and drops the reader.\<close>

definition run_reader :: "'a rd \<Rightarrow> buffer \<Rightarrow> 'a result" where
  "run_reader p bs = (case p (new_reader bs) of Inl e \<Rightarrow> Inl e | Inr (a, _) \<Rightarrow> Inr a)"

section \<open>Raw access\<close>

definition bookmark :: "unit rd" where
  "bookmark r = Inr ((), r\<lparr>bookmarks := cursor r # bookmarks r\<rparr>)"

definition restore :: "unit rd" where
  "restore r =
     (case bookmarks r of
        [] \<Rightarrow> Inl (Error ''Cannot restore bookmark when no bookmark set'')
      | c # cs \<Rightarrow> Inr ((), r\<lparr>cursor := c, bookmarks := cs\<rparr>))"

definition ensureAvailable :: "nat \<Rightarrow> unit rd" where
  "ensureAvailable bytes r =
     (if length (rbuf r) < cursor r + bytes then Inl UnderflowError else Inr ((), r))"

definition peek :: "nat \<Rightarrow> buffer rd" where
  "peek bytes = rbind (ensureAvailable bytes)
     (\<lambda>_ r. Inr (slice (cursor r) bytes (rbuf r), r))"

definition skip :: "nat \<Rightarrow> unit rd" where
  "skip bytes = rbind (ensureAvailable bytes)
     (\<lambda>_ r. Inr ((), r\<lparr>cursor := cursor r + bytes\<rparr>))"

definition read :: "nat \<Rightarrow> buffer rd" where
  "read bytes = rbind (ensureAvailable bytes)
     (\<lambda>_ r. Inr (slice (cursor r) bytes (rbuf r), r\<lparr>cursor := cursor r + bytes\<rparr>))"

text \<open>\<open>this.buffer[this.cursor]\<close>, \<open>undefined\<close> past the end.\<close>

definition byte_at_cursor :: "reader \<Rightarrow> nat option" where
  "byte_at_cursor r =
     (if cursor r < length (rbuf r) then Some (unat (rbuf r ! cursor r)) else None)"

text \<open>\<open>Buffer.readUIntBE\<close> and \<open>readIntBE\<close> throw a \<open>RangeError\<close> out of bounds.\<close>

definition readUIntBE :: "nat \<Rightarrow> nat rd" where
  "readUIntBE len r =
     (if cursor r + len \<le> length (rbuf r)
      then Inr (be_to_nat (slice (cursor r) len (rbuf r)), r) else Inl RangeError)"

definition readIntBE :: "nat \<Rightarrow> int rd" where
  "readIntBE len r =
     (if cursor r + len \<le> length (rbuf r)
      then Inr (be_to_int (slice (cursor r) len (rbuf r)), r) else Inl RangeError)"

definition advance_cursor :: "nat \<Rightarrow> unit rd" where
  "advance_cursor len r = Inr ((), r\<lparr>cursor := cursor r + len\<rparr>)"

section \<open>Fixed-length integers\<close>

definition readUIntNumber :: "int \<Rightarrow> nat rd" where
  "readUIntNumber len =
     (if len < 1 then rthrow (Error ''UInt length must be greater than zero'')
      else if int MAX_SAFE_BYTES < len
      then rthrow (Error ''Value does not fit a JS number without sacrificing precision'')
      else rbind (readUIntBE (nat len)) (\<lambda>v. rbind (advance_cursor (nat len)) (\<lambda>_. rret v)))"

definition peekUIntLong :: "int \<Rightarrow> long rd" where
  "peekUIntLong len =
     (if len = 0 then rret (Long 0 True)
      else if len < 0 then rthrow (Error ''Tried to read integer with negative length'')
      else if 8 < len then rthrow (Error ''UInts longer than 8 bytes must be encoded as VarUInts'')
      else rbind (peek (nat len)) (\<lambda>b. rlift (bufferToLong b True)))"

definition readUIntLong :: "int \<Rightarrow> long rd" where
  "readUIntLong len = rbind (peekUIntLong len) (\<lambda>v. rbind (advance_cursor (nat len)) (\<lambda>_. rret v))"

definition long_toString :: "long \<Rightarrow> jsstring" where
  "long_toString l = dec_of_int (long_value_of l)"

definition readUInt :: "int \<Rightarrow> jsstring rd" where
  "readUInt len =
     (if 1 \<le> len \<and> len \<le> int MAX_SAFE_BYTES
      then rbind (readUIntNumber len) (\<lambda>v. rret (dec_of_nat v))
      else rbind (readUIntLong len) (\<lambda>v. rret (long_toString v)))"

definition peekUIntNumber :: "int \<Rightarrow> nat rd" where
  "peekUIntNumber len =
     (if 1 \<le> len \<and> len \<le> int MAX_SAFE_BYTES then readUIntBE (nat len)
      else rthrow (Error ''Value does not fit a JS number without sacrificing precision''))"

definition peekUInt :: "int \<Rightarrow> jsstring rd" where
  "peekUInt len =
     (if 1 \<le> len \<and> len \<le> int MAX_SAFE_BYTES
      then rbind (peekUIntNumber len) (\<lambda>v. rret (dec_of_nat v))
      else rbind (peekUIntLong len) (\<lambda>v. rret (long_toString v)))"

definition skipUInt :: "nat \<Rightarrow> unit rd" where
  "skipUInt len = skip len"

definition readIntNumber :: "int \<Rightarrow> int rd" where
  "readIntNumber len =
     (if len < 1 then rthrow (Error ''Int length must be greater than zero'')
      else if int MAX_SAFE_BYTES < len
      then rthrow (Error ''Value does not fit a JS number without sacrificing precision'')
      else rbind (readIntBE (nat len)) (\<lambda>v. rbind (advance_cursor (nat len)) (\<lambda>_. rret v)))"

definition peekIntLong :: "int \<Rightarrow> long rd" where
  "peekIntLong len =
     (if len = 0 then rret (Long 0 False)
      else if len < 0 then rthrow (Error ''Tried to read integer with negative length'')
      else if 8 < len then rthrow (Error ''Ints longer than 8 bytes must be encoded as VarInts'')
      else rbind (peek (nat len)) (\<lambda>b. rlift (bufferToLong b False)))"

definition readIntLong :: "int \<Rightarrow> long rd" where
  "readIntLong len = rbind (peekIntLong len) (\<lambda>v. rbind (advance_cursor (nat len)) (\<lambda>_. rret v))"

definition readInt :: "int \<Rightarrow> jsstring rd" where
  "readInt len =
     (if 1 \<le> len \<and> len \<le> int MAX_SAFE_BYTES
      then rbind (readIntNumber len) (\<lambda>v. rret (dec_of_int v))
      else rbind (readIntLong len) (\<lambda>v. rret (long_toString v)))"

definition peekIntNumber :: "int \<Rightarrow> int rd" where
  "peekIntNumber len =
     (if 1 \<le> len \<and> len \<le> int MAX_SAFE_BYTES then readIntBE (nat len)
      else rthrow (Error ''Value does not fit a JS number without sacrificing precision''))"

definition peekInt :: "int \<Rightarrow> jsstring rd" where
  "peekInt len =
     (if 1 \<le> len \<and> len \<le> int MAX_SAFE_BYTES
      then rbind (peekIntNumber len) (\<lambda>v. rret (dec_of_int v))
      else rbind (peekIntLong len) (\<lambda>v. rret (long_toString v)))"

definition skipInt :: "nat \<Rightarrow> unit rd" where
  "skipInt len = skip len"

section \<open>Length prefixes and variable-length octet strings\<close>

text \<open>\<open>1 << k\<close> of JavaScript: the shift count is taken modulo 32.\<close>

definition js_one_shl :: "int \<Rightarrow> int" where
  "js_one_shl k = (let s = nat (k mod 32) in if s = 31 then - (2 ^ 31) else 2 ^ s)"

text \<open>For a byte, \<open>length & HIGH_BIT\<close> is \<open>128 \<le> length\<close> and \<open>length & LOWER_SEVEN_BITS\<close> is \<open>length mod 128\<close>.\<close>

definition readLengthPrefix :: "nat rd" where
  "readLengthPrefix = rbind (readUIntNumber 1) (\<lambda>len.
     if 128 \<le> len then
       let lpl = len mod 128
       in rbind (if lpl = 0 then rret 0 else readUIntNumber (int lpl)) (\<lambda>actualLength.
            let minLength = max 128 (js_one_shl ((int lpl - 1) * 8))
            in if lpl = 0 \<or> int actualLength < minLength
               then rthrow (ParseError ''Length prefix encoding is not canonical'')
               else rret actualLength)
     else rret len)"

definition readVarOctetString :: "buffer rd" where
  "readVarOctetString = rbind readLengthPrefix read"

definition peeking :: "'a rd \<Rightarrow> 'a rd" where
  "peeking p = rbind bookmark (\<lambda>_. rbind p (\<lambda>v. rbind restore (\<lambda>_. rret v)))"

definition peekVarOctetString :: "buffer rd" where
  "peekVarOctetString = peeking readVarOctetString"

definition skipVarOctetString :: "unit rd" where
  "skipVarOctetString = rbind readLengthPrefix skip"

definition readOctetString :: "nat \<Rightarrow> buffer rd" where
  "readOctetString len = read len"

definition peekOctetString :: "nat \<Rightarrow> buffer rd" where
  "peekOctetString len = peek len"

definition skipOctetString :: "nat \<Rightarrow> unit rd" where
  "skipOctetString len = skip len"

section \<open>Variable-length integers\<close>

text \<open>A missing byte (\<open>undefined\<close>) fails both comparisons of the code.\<close>

definition readVarUIntNumber :: "nat rd" where
  "readVarUIntNumber r =
     (case byte_at_cursor r of
        Some b \<Rightarrow>
          if b = 0 then Inl (ParseError ''UInt of length 0 is invalid'')
          else if b \<le> MAX_SAFE_BYTES then readUIntNumber (int b) (r\<lparr>cursor := cursor r + 1\<rparr>)
          else Inl (Error ''Value does not fit a JS number without sacrificing precision'')
      | None \<Rightarrow> Inl (Error ''Value does not fit a JS number without sacrificing precision''))"

definition readVarUIntLong :: "long rd" where
  "readVarUIntLong = rbind readVarOctetString (\<lambda>b.
     if length b = 0 then rthrow (ParseError ''UInt of length 0 is invalid'')
     else rlift (bufferToLong b True))"

definition readVarUInt :: "jsstring rd" where
  "readVarUInt = rbind readVarUIntLong (\<lambda>v. rret (long_toString v))"

definition peekVarUIntNumber :: "nat rd" where
  "peekVarUIntNumber = peeking readVarUIntNumber"

definition peekVarUIntLong :: "long rd" where
  "peekVarUIntLong = peeking readVarUIntLong"

definition peekVarUInt :: "jsstring rd" where
  "peekVarUInt = rbind peekVarUIntLong (\<lambda>v. rret (long_toString v))"

definition skipVarUInt :: "unit rd" where
  "skipVarUInt = skipVarOctetString"

definition readVarIntNumber :: "int rd" where
  "readVarIntNumber r =
     (case byte_at_cursor r of
        Some b \<Rightarrow>
          if b = 0 then Inl (ParseError ''Int of length 0 is invalid'')
          else if b \<le> MAX_SAFE_BYTES then readIntNumber (int b) (r\<lparr>cursor := cursor r + 1\<rparr>)
          else Inl (Error ''Value does not fit a JS number without sacrificing precision'')
      | None \<Rightarrow> Inl (Error ''Value does not fit a JS number without sacrificing precision''))"

definition readVarIntLong :: "long rd" where
  "readVarIntLong = rbind readVarOctetString (\<lambda>b.
     if length b = 0 then rthrow (ParseError ''Int of length 0 is invalid'')
     else rlift (bufferToLong b False))"

definition readVarInt :: "jsstring rd" where
  "readVarInt = rbind readVarIntLong (\<lambda>v. rret (long_toString v))"

definition peekVarIntNumber :: "int rd" where
  "peekVarIntNumber = peeking readVarIntNumber"

definition peekVarIntLong :: "long rd" where
  "peekVarIntLong = peeking readVarIntLong"

definition peekVarInt :: "jsstring rd" where
  "peekVarInt = rbind peekVarIntLong (\<lambda>v. rret (long_toString v))"

definition skipVarInt :: "unit rd" where
  "skipVarInt = skipVarOctetString"

text \<open>The generated shortcuts \<open>{read,peek,skip}[U]Int{8,16,32,64}[Number|Long]\<close> that the other packages call.\<close>

definition readUInt8Number :: "nat rd" where "readUInt8Number = readUIntNumber 1"
definition readUInt16Number :: "nat rd" where "readUInt16Number = readUIntNumber 2"
definition readUInt32Number :: "nat rd" where "readUInt32Number = readUIntNumber 4"
definition readUInt8Long :: "long rd" where "readUInt8Long = readUIntLong 1"
definition readUInt64Long :: "long rd" where "readUInt64Long = readUIntLong 8"
definition readUInt8 :: "jsstring rd" where "readUInt8 = readUInt 1"
definition readUInt64 :: "jsstring rd" where "readUInt64 = readUInt 8"

section \<open>What a successful read consumes\<close>

definition reads :: "'a rd \<Rightarrow> buffer \<Rightarrow> 'a \<Rightarrow> bool" where
  "reads p bs v \<longleftrightarrow>
     (\<forall>pre post bm.
        p \<lparr>rbuf = pre @ bs @ post, cursor = length pre, bookmarks = bm\<rparr> =
        Inr (v, \<lparr>rbuf = pre @ bs @ post, cursor = length pre + length bs, bookmarks = bm\<rparr>))"

named_theorems reads_rules \<open>what the primitive readers consume\<close>

lemma readsI:
  "(\<And>pre post bm. p \<lparr>rbuf = pre @ bs @ post, cursor = length pre, bookmarks = bm\<rparr> =
      Inr (v, \<lparr>rbuf = pre @ bs @ post, cursor = length pre + length bs, bookmarks = bm\<rparr>)) \<Longrightarrow> reads p bs v"
  by (simp add: reads_def)

lemma reads_ret: "reads (rret v) [] v"
  by (simp add: reads_def rret_def)

lemma reads_bind:
  assumes "reads p bs v" and "reads (k v) bs' w"
  shows "reads (rbind p k) (bs @ bs') w"
proof (rule readsI)
  fix pre post bm
  have "p \<lparr>rbuf = pre @ bs @ (bs' @ post), cursor = length pre, bookmarks = bm\<rparr> =
      Inr (v, \<lparr>rbuf = pre @ bs @ (bs' @ post), cursor = length pre + length bs, bookmarks = bm\<rparr>)"
    using assms(1) unfolding reads_def by blast
  moreover have "k v \<lparr>rbuf = (pre @ bs) @ bs' @ post, cursor = length (pre @ bs), bookmarks = bm\<rparr> =
      Inr (w, \<lparr>rbuf = (pre @ bs) @ bs' @ post, cursor = length (pre @ bs) + length bs', bookmarks = bm\<rparr>)"
    using assms(2) unfolding reads_def by blast
  ultimately show "rbind p k \<lparr>rbuf = pre @ (bs @ bs') @ post, cursor = length pre, bookmarks = bm\<rparr> =
      Inr (w, \<lparr>rbuf = pre @ (bs @ bs') @ post, cursor = length pre + length (bs @ bs'), bookmarks = bm\<rparr>)"
    by (simp add: rbind_def add.assoc)
qed

lemma reads_bind_last: "reads p bs v \<Longrightarrow> k v = rret w \<Longrightarrow> reads (rbind p k) bs w"
  using reads_bind [of p bs v k "[]" w] reads_ret [of w] by simp

lemma reads_run: "reads p bs v \<Longrightarrow> run_reader p (bs @ post) = Inr v"
  unfolding reads_def run_reader_def new_reader_def
  by (drule spec [of _ "[]"]) simp

lemma reads_read [reads_rules]: "reads (read (length bs)) bs bs"
  by (rule readsI) (simp add: read_def rbind_def ensureAvailable_def)

lemma reads_skip [reads_rules]: "reads (skip (length bs)) bs ()"
  by (rule readsI) (simp add: skip_def rbind_def ensureAvailable_def)

lemma reads_readUIntNumber [reads_rules]:
  assumes "0 < length bs" and "length bs \<le> 6"
  shows "reads (readUIntNumber (int (length bs))) bs (be_to_nat bs)"
  using assms by (intro readsI)
    (simp add: readUIntNumber_def MAX_SAFE_BYTES_def readUIntBE_def rbind_def advance_cursor_def rret_def)

lemma reads_readUIntLong [reads_rules]:
  assumes "0 < length bs" and "length bs \<le> 8"
  shows "reads (readUIntLong (int (length bs))) bs (Long (of_nat (be_to_nat bs)) True)"
  using assms by (intro readsI)
    (simp add: readUIntLong_def peekUIntLong_def rbind_def peek_def ensureAvailable_def
      advance_cursor_def rret_def rlift_def bufferToLong_unsigned)

lemma reads_repeat:
  assumes "\<And>x. x \<in> set xs \<Longrightarrow> reads p (enc x) x"
  shows "reads (rrepeat (length xs) p) (concat (map enc xs)) xs"
  using assms
proof (induction xs)
  case (Cons x xs)
  then have "reads (rrepeat (length xs) p) (concat (map enc xs)) xs" by simp
  then have "reads (rbind (rrepeat (length xs) p) (\<lambda>ys. rret (x # ys))) (concat (map enc xs)) (x # xs)"
    by (rule reads_bind_last) simp
  then have "reads (rbind p (\<lambda>x. rbind (rrepeat (length xs) p) (\<lambda>ys. rret (x # ys))))
      (enc x @ concat (map enc xs)) (x # xs)"
    using Cons.prems by (intro reads_bind [where v = x]) simp_all
  then show ?case by simp
qed (simp add: reads_ret)

section \<open>The wire format of variable-length strings and integers\<close>

text \<open>
  Reference encodings, independent of the reader and the writer: a length under 128 is
  one byte, a longer one is the byte \<open>0x80 + k\<close> and the length in its \<open>k\<close> base-256 digits.
\<close>

definition length_prefix :: "nat \<Rightarrow> buffer" where
  "length_prefix n =
     (if n \<le> 127 then [of_nat n] else of_nat (128 + uint_size n) # nat_to_be (uint_size n) n)"

definition var_octet :: "buffer \<Rightarrow> buffer" where
  "var_octet d = length_prefix (length d) @ d"

definition var_uint :: "nat \<Rightarrow> buffer" where
  "var_uint n = var_octet (nat_to_be (uint_size n) n)"

lemma length_prefix_length: "length (length_prefix n) = (if n \<le> 127 then 1 else 1 + uint_size n)"
  by (simp add: length_prefix_def)

lemma uint_size_lower: "256 \<le> n \<Longrightarrow> 256 ^ (uint_size n - 1) \<le> n"
proof (induction n rule: uint_size.induct)
  case (1 n)
  show ?case
  proof (cases "n div 256 < 256")
    case True
    with 1(2) show ?thesis by (simp add: uint_size.simps [of n] uint_size_one)
  next
    case False
    with 1 have "256 ^ (uint_size (n div 256) - 1) \<le> n div 256" by simp
    moreover obtain k where "uint_size (n div 256) = Suc k"
      using uint_size_pos [of "n div 256"] gr0_implies_Suc by blast
    ultimately show ?thesis using 1(2)
      by (simp add: uint_size.simps [of n] less_eq_div_iff_mult_less_eq mult.commute)
  qed
qed

lemma min_length_ok:
  assumes "128 \<le> n" "n < 2 ^ 48"
  shows "max 128 (js_one_shl ((int (uint_size n) - 1) * 8)) \<le> int n"
proof (cases "n < 256")
  case True
  with assms show ?thesis by (simp add: uint_size_one js_one_shl_def)
next
  case False
  then have low: "256 ^ (uint_size n - 1) \<le> n" by (intro uint_size_lower) simp
  have "uint_size n \<le> 6" using assms uint_size_bounds(2) [of n] by simp
  then consider "uint_size n = 1" | "uint_size n = 2" | "uint_size n = 3" | "uint_size n = 4"
    | "uint_size n = 5" | "uint_size n = 6" using uint_size_pos [of n] by linarith
  then show ?thesis using low False by cases (simp_all add: js_one_shl_def Let_def)
qed

lemma reads_readUIntNumber_one: "reads (readUIntNumber 1) [b] (unat b)"
  using reads_readUIntNumber [of "[b]"] by simp

lemma reads_length_prefix [reads_rules]:
  assumes "n < 2 ^ 48"
  shows "reads readLengthPrefix (length_prefix n) n"
proof (cases "n \<le> 127")
  case True
  then have "unat (of_nat n :: byte) = n" by (simp add: unat_of_nat_byte)
  with True have "reads (readUIntNumber 1) (length_prefix n) n"
    using reads_readUIntNumber_one [of "of_nat n"] by (simp add: length_prefix_def)
  then show ?thesis unfolding readLengthPrefix_def
    by (rule reads_bind_last) (use True in simp)
next
  case False
  let ?k = "uint_size n"
  have k: "0 < ?k" "?k \<le> 6" using assms uint_size_bounds(2) [of n] by simp_all
  then have b: "unat (of_nat (128 + ?k) :: byte) = 128 + ?k"
    unfolding unat_of_nat_byte by simp
  have "reads (readUIntNumber (int ?k)) (nat_to_be ?k n) n"
    using reads_readUIntNumber [of "nat_to_be ?k n"] k uint_size_upper [of n] by simp
  moreover have "\<not> int n < max 128 (js_one_shl ((int ?k - 1) * 8))"
    using min_length_ok [of n] assms False by linarith
  ultimately have "reads (rbind (readUIntNumber (int ?k)) (\<lambda>actualLength.
      if int actualLength < max 128 (js_one_shl ((int ?k - 1) * 8))
      then rthrow (ParseError ''Length prefix encoding is not canonical'') else rret actualLength))
      (nat_to_be ?k n) n"
    by (intro reads_bind_last [where v = n]) simp_all
  then have "reads readLengthPrefix ([of_nat (128 + ?k)] @ nat_to_be ?k n) n"
    unfolding readLengthPrefix_def
    by (intro reads_bind [OF reads_readUIntNumber_one]) (use b k in \<open>simp add: Let_def\<close>)
  with False show ?thesis by (simp add: length_prefix_def)
qed

lemma reads_var_octet [reads_rules]:
  "length d < 2 ^ 48 \<Longrightarrow> reads readVarOctetString (var_octet d) d"
  unfolding readVarOctetString_def var_octet_def
  by (intro reads_bind [OF reads_length_prefix] reads_read)

lemma reads_var_uint [reads_rules]:
  assumes "n < 2 ^ 64"
  shows "reads readVarUIntLong (var_uint n) (Long (of_nat n) True)"
proof -
  have k: "uint_size n \<le> 8" using assms uint_size_bounds(1) [of n] by simp
  have "reads readVarOctetString (var_uint n) (nat_to_be (uint_size n) n)"
    unfolding var_uint_def by (rule reads_var_octet) (use k in simp)
  then show ?thesis unfolding readVarUIntLong_def
    by (rule reads_bind_last) (use k uint_size_upper [of n] in
      \<open>simp add: bufferToLong_unsigned rlift_def rret_def fun_eq_iff\<close>)
qed

text \<open>The first byte of a small \<open>VarUInt\<close> is its length, which \<open>readVarUIntNumber\<close> peeks at.\<close>

lemma reads_var_uint_number [reads_rules]:
  assumes "n < 2 ^ 48"
  shows "reads readVarUIntNumber (var_uint n) n"
proof (rule readsI)
  fix pre post bm
  let ?k = "uint_size n" and ?ds = "nat_to_be (uint_size n) n"
  have k: "0 < ?k" "?k \<le> 6" using assms uint_size_bounds(2) [of n] by simp_all
  then have enc: "var_uint n = of_nat ?k # ?ds"
    by (simp add: var_uint_def var_octet_def length_prefix_def)
  have b: "unat (of_nat ?k :: byte) = ?k" using k unfolding unat_of_nat_byte by simp
  let ?r = "\<lparr>rbuf = pre @ var_uint n @ post, cursor = length pre, bookmarks = bm\<rparr>"
  have at: "byte_at_cursor ?r = Some ?k"
    by (simp add: byte_at_cursor_def enc nth_append b)
  have "reads (readUIntNumber (int ?k)) ?ds n"
    using reads_readUIntNumber [of ?ds] k uint_size_upper [of n] by simp
  then have "readUIntNumber (int ?k)
      \<lparr>rbuf = (pre @ [of_nat ?k]) @ ?ds @ post, cursor = length (pre @ [of_nat ?k :: byte]), bookmarks = bm\<rparr> =
      Inr (n, \<lparr>rbuf = (pre @ [of_nat ?k]) @ ?ds @ post,
               cursor = length (pre @ [of_nat ?k :: byte]) + length ?ds, bookmarks = bm\<rparr>)"
    unfolding reads_def by blast
  then show "readVarUIntNumber ?r = Inr (n,
      \<lparr>rbuf = pre @ var_uint n @ post, cursor = length pre + length (var_uint n), bookmarks = bm\<rparr>)"
    using k at by (simp add: readVarUIntNumber_def MAX_SAFE_BYTES_def enc)
qed

lemma uint_of_nat_u64: "n < 2 ^ 64 \<Longrightarrow> uint (of_nat n :: u64) = int n"
  using unat_of_nat_u64 [of n] by (metis uint_nat)

lemma long_toString_of_nat: "n < 2 ^ 64 \<Longrightarrow> long_toString (Long (of_nat n) True) = dec_of_nat n"
proof -
  assume "n < 2 ^ 64"
  then have "long_value_of (Long (of_nat n) True) = int n"
    by (simp only: long_value_of_def long.sel if_True uint_of_nat_u64)
  then show ?thesis by (simp add: long_toString_def dec_of_int_def)
qed

lemma reads_UIntLong_be:
  assumes "0 < k" "k \<le> 8" "n < 256 ^ k"
  shows "reads (readUIntLong (int k)) (nat_to_be k n) (Long (of_nat n) True)"
  using reads_readUIntLong [of "nat_to_be k n"] assms by simp

lemma reads_UIntNumber_be:
  assumes "0 < k" "k \<le> 6" "n < 256 ^ k"
  shows "reads (readUIntNumber (int k)) (nat_to_be k n) n"
  using reads_readUIntNumber [of "nat_to_be k n"] assms by simp

lemma reads_readUInt64 [reads_rules]:
  assumes "n < 2 ^ 64"
  shows "reads readUInt64 (nat_to_be 8 n) (dec_of_nat n)"
proof -
  have "reads (readUIntLong 8) (nat_to_be 8 n) (Long (of_nat n) True)"
    using reads_UIntLong_be [of 8 n] assms by simp
  moreover have "readUInt64 = rbind (readUIntLong 8) (\<lambda>v. rret (long_toString v))"
    by (simp add: readUInt64_def readUInt_def MAX_SAFE_BYTES_def)
  ultimately show ?thesis
    using reads_bind_last [of "readUIntLong 8" "nat_to_be 8 n" "Long (of_nat n) True"
        "\<lambda>v. rret (long_toString v)" "dec_of_nat n"] long_toString_of_nat [OF assms] by simp
qed

lemma reads_readUInt8Number [reads_rules]: "n < 256 \<Longrightarrow> reads readUInt8Number [of_nat n] n"
  using reads_readUIntNumber_one [of "of_nat n"] by (simp add: readUInt8Number_def unat_of_nat_byte)

lemma reads_lift: "m = Inr v \<Longrightarrow> reads (k v) bs w \<Longrightarrow> reads (rbind (rlift m) k) bs w"
  by (simp add: reads_def rbind_def rlift_def)

section \<open>What a successful read says\<close>

lemma rbind_eq_Inr [simp]:
  "rbind m k r = Inr (b, r'') \<longleftrightarrow> (\<exists>a r'. m r = Inr (a, r') \<and> k a r' = Inr (b, r''))"
  by (auto simp: rbind_def split: sum.splits)

lemma rret_eq_Inr [simp]: "rret a r = Inr (b, r') \<longleftrightarrow> a = b \<and> r = r'"
  by (simp add: rret_def)

lemma rthrow_eq_Inr [simp]: "rthrow e r \<noteq> Inr x"
  by (simp add: rthrow_def)

lemma rlift_eq_Inr [simp]: "rlift m r = Inr (a, r') \<longleftrightarrow> m = Inr a \<and> r' = r"
  by (auto simp: rlift_def split: sum.splits)

lemma run_reader_eq_Inr: "run_reader p bs = Inr a \<longleftrightarrow> (\<exists>r. p (new_reader bs) = Inr (a, r))"
  by (auto simp: run_reader_def split: sum.splits)

lemma read_length: "read n r = Inr (b, r') \<Longrightarrow> length b = n"
  by (auto simp: read_def ensureAvailable_def split: if_splits)

lemma bufferToLong_signedness: "bufferToLong b uns = Inr l \<Longrightarrow> long_unsigned l = uns"
  by (auto simp: bufferToLong_def split: if_splits)

lemma readUIntLong_unsigned: "readUIntLong len r = Inr (l, r') \<Longrightarrow> long_unsigned l"
  by (auto simp: readUIntLong_def peekUIntLong_def dest: bufferToLong_signedness split: if_splits)

lemma readUInt64_canonical: "readUInt64 r = Inr (s, r') \<Longrightarrow> \<exists>n. n < 2 ^ 64 \<and> s = dec_of_nat n"
proof -
  assume "readUInt64 r = Inr (s, r')"
  then obtain l where l: "long_unsigned l" "s = long_toString l"
    by (auto simp: readUInt64_def readUInt_def MAX_SAFE_BYTES_def dest: readUIntLong_unsigned)
  then have "s = dec_of_nat (unat (long_bits l))"
    by (simp add: long_toString_def long_value_of_def dec_of_int_def)
  then show ?thesis using unat_u64_less by blast
qed

end
