(* ===== verification/Writer_Interface.thy ===== *)
theory Writer_Interface
  imports Oer_Reader
begin

text \<open>
  The interface \<open>WriterInterface\<close> of \<^verbatim>\<open>oer-utils/src/lib/writer.ts\<close>, which \<open>Writer\<close> and
  \<open>Predictor\<close> implement and which the serializers of the other packages are written against.

  The interface is a record of operations on an implementation state \<open>'w\<close>. The writer that
  \<open>createVarOctetString\<close> returns is valid until its parent is used again, so the operation
  takes the code that uses it as an argument and runs it on the child writer.
  The locale \<open>writer_interface\<close> states the contract: with room for its encoding, every
  operation appends exactly the reference encoding of its argument. Serializers are
  proved correct once, inside the locale.
\<close>

record 'w writer_ops =
  op_writeUInt :: "long_value \<Rightarrow> int \<Rightarrow> 'w \<Rightarrow> 'w result"
  op_writeInt :: "long_value \<Rightarrow> int \<Rightarrow> 'w \<Rightarrow> 'w result"
  op_writeVarUInt :: "long_value \<Rightarrow> 'w \<Rightarrow> 'w result"
  op_writeVarInt :: "long_value \<Rightarrow> 'w \<Rightarrow> 'w result"
  op_writeOctetString :: "buffer \<Rightarrow> int \<Rightarrow> 'w \<Rightarrow> 'w result"
  op_writeVarOctetString :: "buffer \<Rightarrow> 'w \<Rightarrow> 'w result"
  op_createVarOctetString :: "int \<Rightarrow> ('w \<Rightarrow> 'w result) \<Rightarrow> 'w \<Rightarrow> 'w result"
  op_write :: "buffer \<Rightarrow> 'w \<Rightarrow> 'w result"

definition MAX_SAFE_INTEGER :: int where
  "MAX_SAFE_INTEGER = 0x1fffffffffffff"

text \<open>A JavaScript number argument.\<close>

definition num :: "int \<Rightarrow> long_value" where
  "num i = NumV (Num (of_int i))"

definition ulong :: "u64 \<Rightarrow> long_value" where
  "ulong b = LongV (Long b True)"

text \<open>
  \<open>Number(v)\<close> of an integer argument. The conversion of a \<open>Long\<close> or a string over \<open>2\<^sup>5\<^sup>3\<close>
  rounds, but such a value stays over every range it is compared with.
\<close>

fun long_int :: "long_value \<Rightarrow> int" where
  "long_int (LongV l) = long_value_of l"
| "long_int (NumV (Num r)) = \<lfloor>r\<rfloor>"
| "long_int (NumV _) = 0"
| "long_int (StrV s) = dec_int_value s"

text \<open>The unsigned value every operation of the interface accepts, if the argument has one.\<close>

fun uint_value :: "long_value \<Rightarrow> nat option" where
  "uint_value (LongV l) = (if long_unsigned l then Some (unat (long_bits l)) else None)"
| "uint_value (NumV (Num r)) =
     (if of_int \<lfloor>r\<rfloor> = r \<and> 0 \<le> r \<and> \<lfloor>r\<rfloor> \<le> MAX_SAFE_INTEGER then Some (nat \<lfloor>r\<rfloor>) else None)"
| "uint_value (NumV _) = None"
| "uint_value (StrV s) =
     (if s \<noteq> [] \<and> list_all is_digit s \<and> dec_value s < 2 ^ 64 then Some (dec_value s) else None)"

lemma uint_value_num [simp]:
  "0 \<le> i \<Longrightarrow> i \<le> MAX_SAFE_INTEGER \<Longrightarrow> uint_value (num i) = Some (nat i)"
  by (simp add: num_def)

lemma uint_value_ulong [simp]: "uint_value (ulong b) = Some (unat b)"
  by (simp add: ulong_def)

lemma digits_not_minus: "list_all is_digit s \<Longrightarrow> s \<noteq> [] \<Longrightarrow> hd s \<noteq> minus_sign"
  using minus_sign_not_digit by (cases s) auto

lemma digits_regex: "list_all is_digit s \<Longrightarrow> s \<noteq> [] \<Longrightarrow> integer_regex s"
  using minus_sign_not_digit by (cases s) auto

lemma digits_value: "list_all is_digit s \<Longrightarrow> s \<noteq> [] \<Longrightarrow> dec_int_value s = int (dec_value s)"
  using minus_sign_not_digit by (cases s) auto

lemma uint_value_str [simp]: "n < 2 ^ 64 \<Longrightarrow> uint_value (StrV (dec_of_nat n)) = Some n"
  by (simp add: dec_of_nat_digits)

lemma uint_value_isInteger: "uint_value v = Some n \<Longrightarrow> isInteger v"
  by (cases v rule: uint_value.cases) (auto simp: digits_regex split: if_splits)

lemma uint_value_less: "uint_value v = Some n \<Longrightarrow> n < 2 ^ 64"
  by (cases v rule: uint_value.cases)
    (auto simp: MAX_SAFE_INTEGER_def unat_u64_less [simplified] split: if_splits)

lemma uint_value_int: "uint_value v = Some n \<Longrightarrow> long_int v = int n"
  by (cases v rule: uint_value.cases)
    (auto simp: digits_value long_value_of_def split: if_splits)

lemma uint_value_long: "uint_value v = Some n \<Longrightarrow> longFromValue v True = Inr (Long (of_nat n) True)"
proof (cases v rule: uint_value.cases)
  case (1 l)
  assume "uint_value v = Some n"
  with 1 show ?thesis by (cases l) (auto split: if_splits)
next
  case (2 r)
  assume "uint_value v = Some n"
  with 2 show ?thesis
    by (auto simp: long_fromInt_def MAX_SAFE_INTEGER_def split: if_splits)
next
  case (4 s)
  assume "uint_value v = Some n"
  with 4 show ?thesis
    by (auto simp: digits_not_minus digits_value long_fromDecimal_def split: if_splits)
qed simp_all

locale writer_interface =
  fixes ops :: "'w writer_ops"
    and ok :: "'w \<Rightarrow> bool"
    and room :: "'w \<Rightarrow> nat \<Rightarrow> bool"
    and adds :: "'w \<Rightarrow> buffer \<Rightarrow> 'w \<Rightarrow> bool"
  assumes adds_nil: "ok w \<Longrightarrow> adds w [] w"
    and adds_trans: "adds w bs w' \<Longrightarrow> adds w' bs' w'' \<Longrightarrow> adds w (bs @ bs') w''"
    and adds_ok: "adds w bs w' \<Longrightarrow> ok w'"
    and adds_room: "adds w bs w' \<Longrightarrow> room w (length bs + n) \<Longrightarrow> room w' n"
    and room_mono: "room w n \<Longrightarrow> m \<le> n \<Longrightarrow> room w m"
    and write_law: "ok w \<Longrightarrow> room w (length bs) \<Longrightarrow> \<exists>w'. op_write ops bs w = Inr w' \<and> adds w bs w'"
    and writeUInt_law:
      "uint_value v = Some n \<Longrightarrow> 0 < k \<Longrightarrow> k \<le> 8 \<Longrightarrow> n < 256 ^ k \<Longrightarrow> ok w \<Longrightarrow> room w k \<Longrightarrow>
       \<exists>w'. op_writeUInt ops v (int k) w = Inr w' \<and> adds w (nat_to_be k n) w'"
    and writeVarUInt_law:
      "uint_value v = Some n \<Longrightarrow> ok w \<Longrightarrow> room w (length (var_uint n)) \<Longrightarrow>
       \<exists>w'. op_writeVarUInt ops v w = Inr w' \<and> adds w (var_uint n) w'"
    and writeOctetString_law:
      "ok w \<Longrightarrow> room w (length bs) \<Longrightarrow>
       \<exists>w'. op_writeOctetString ops bs (int (length bs)) w = Inr w' \<and> adds w bs w'"
    and writeVarOctetString_law:
      "length bs < 2 ^ 48 \<Longrightarrow> ok w \<Longrightarrow> room w (length (var_octet bs)) \<Longrightarrow>
       \<exists>w'. op_writeVarOctetString ops bs w = Inr w' \<and> adds w (var_octet bs) w'"
    and createVarOctetString_law:
      "length bs < 2 ^ 48 \<Longrightarrow>
       (\<And>c. ok c \<Longrightarrow> room c (length bs) \<Longrightarrow> \<exists>c'. body c = Inr c' \<and> adds c bs c') \<Longrightarrow>
       ok w \<Longrightarrow> room w (length (var_octet bs)) \<Longrightarrow>
       \<exists>w'. op_createVarOctetString ops (int (length bs)) body w = Inr w' \<and> adds w (var_octet bs) w'"
begin

definition emits :: "('w \<Rightarrow> 'w result) \<Rightarrow> buffer \<Rightarrow> bool" where
  "emits f bs \<longleftrightarrow> (\<forall>w. ok w \<longrightarrow> room w (length bs) \<longrightarrow> (\<exists>w'. f w = Inr w' \<and> adds w bs w'))"

lemma emitsI: "(\<And>w. ok w \<Longrightarrow> room w (length bs) \<Longrightarrow> \<exists>w'. f w = Inr w' \<and> adds w bs w') \<Longrightarrow> emits f bs"
  by (simp add: emits_def)

lemma emitsD: "emits f bs \<Longrightarrow> ok w \<Longrightarrow> room w (length bs) \<Longrightarrow> \<exists>w'. f w = Inr w' \<and> adds w bs w'"
  by (simp add: emits_def)

lemma emits_skip: "emits Inr []"
  by (simp add: emits_def adds_nil)

lemma emits_seq:
  assumes "emits f bs" and "emits g bs'"
  shows "emits (\<lambda>w. ebind (f w) g) (bs @ bs')"
proof (rule emitsI)
  fix w assume w: "ok w" "room w (length (bs @ bs'))"
  then obtain w1 where w1: "f w = Inr w1" "adds w bs w1"
    using emitsD [OF assms(1), of w] room_mono [of w _ "length bs"] by auto
  then obtain w2 where "g w1 = Inr w2" "adds w1 bs' w2"
    using emitsD [OF assms(2), of w1] adds_ok adds_room w(2) by fastforce
  with w1 show "\<exists>w'. ebind (f w) g = Inr w' \<and> adds w (bs @ bs') w'"
    using adds_trans by auto
qed

lemma emits_fold:
  assumes "\<And>x. x \<in> set xs \<Longrightarrow> emits (f x) (enc x)"
  shows "emits (efold f xs) (concat (map enc xs))"
  using assms
proof (induction xs)
  case Nil
  have "efold f [] = (Inr :: 'w \<Rightarrow> 'w result)" by (simp add: fun_eq_iff)
  then show ?case using emits_skip by simp
next
  case (Cons x xs)
  then have "emits (\<lambda>w. ebind (f x w) (efold f xs)) (enc x @ concat (map enc xs))"
    by (intro emits_seq) simp_all
  moreover have "efold f (x # xs) = (\<lambda>w. ebind (f x w) (efold f xs))" by (simp add: fun_eq_iff)
  ultimately show ?case by simp
qed

lemma emits_write: "emits (op_write ops bs) bs"
  by (intro emitsI write_law)

lemma emits_UInt:
  "uint_value v = Some n \<Longrightarrow> 0 < k \<Longrightarrow> k \<le> 8 \<Longrightarrow> n < 256 ^ k \<Longrightarrow> emits (op_writeUInt ops v (int k)) (nat_to_be k n)"
  by (intro emitsI writeUInt_law) simp_all

lemma emits_UInt8:
  "uint_value v = Some n \<Longrightarrow> n < 256 \<Longrightarrow> emits (op_writeUInt ops v 1) [of_nat n]"
  using emits_UInt [of v n 1] by simp

lemma emits_VarUInt: "uint_value v = Some n \<Longrightarrow> emits (op_writeVarUInt ops v) (var_uint n)"
  by (intro emitsI writeVarUInt_law)

lemma emits_OctetString:
  "k = int (length bs) \<Longrightarrow> emits (op_writeOctetString ops bs k) bs"
  by (simp add: emitsI writeOctetString_law)

lemma emits_VarOctetString: "length bs < 2 ^ 48 \<Longrightarrow> emits (op_writeVarOctetString ops bs) (var_octet bs)"
  by (intro emitsI writeVarOctetString_law)

lemma emits_createVarOctetString:
  assumes "length bs < 2 ^ 48" and "emits body bs" and "k = int (length bs)"
  shows "emits (op_createVarOctetString ops k body) (var_octet bs)"
  unfolding assms(3) by (intro emitsI createVarOctetString_law [OF assms(1)] emitsD [OF assms(2)])

lemmas emits_rules = emits_skip emits_seq emits_write emits_UInt emits_VarUInt
  emits_OctetString emits_VarOctetString emits_createVarOctetString

end

end
