(* ===== verification/Oer_Writer.thy ===== *)
theory Oer_Writer
  imports Writer_Interface
begin

text \<open>
  \<^verbatim>\<open>oer-utils/src/lib/writer.ts\<close>: the \<open>Writer\<close> class.

  The state is the whole allocated buffer, the write offset and the strict flag. Methods
  return the new state or the exception. A child writer of \<open>createVarOctetString\<close> is a
  strict writer on a slice that aliases the parent; its buffer is copied back into
  the parent when the child is done. The lemmas show that the allocation strategy of \<open>advance\<close>
  is invisible: every method appends an encoding to the contents, or throws when a strict
  writer has no room, and the class is an instance of \<open>writer_interface\<close>.
\<close>

record writer =
  wbuf :: buffer
  woffset :: nat
  wstrict :: bool

definition new_writer :: writer where
  "new_writer = \<lparr>wbuf = [], woffset = 0, wstrict = False\<rparr>"

definition new_writer_capacity :: "nat \<Rightarrow> writer" where
  "new_writer_capacity n = \<lparr>wbuf = replicate n 0, woffset = 0, wstrict = True\<rparr>"

definition new_writer_buffer :: "buffer \<Rightarrow> writer" where
  "new_writer_buffer b = \<lparr>wbuf = b, woffset = 0, wstrict = True\<rparr>"

definition MIN_BUFFER_SIZE :: nat where
  "MIN_BUFFER_SIZE = 32"

definition MIN_SAFE_INTEGER :: int where
  "MIN_SAFE_INTEGER = - 0x1fffffffffffff"

text \<open>\<open>UINT_RANGES[k]\<close> and \<open>INT_RANGES[k]\<close>, used for \<open>1 \<le> k \<le> 6\<close>.\<close>

definition UINT_RANGES :: "nat \<Rightarrow> int" where
  "UINT_RANGES k = [0, 0xff, 0xffff, 0xffffff, 0xffffffff, 0xffffffffff, 0xffffffffffff] ! k"

definition INT_RANGES :: "nat \<Rightarrow> int \<times> int" where
  "INT_RANGES k =
     [(0, 0), (- 0x80, 0x7f), (- 0x8000, 0x7fff), (- 0x800000, 0x7fffff),
      (- 0x80000000, 0x7fffffff), (- 0x8000000000, 0x7fffffffff),
      (- 0x800000000000, 0x7fffffffffff)] ! k"

text \<open>\<open>while (capacity < minCapacity) capacity *= 2\<close>, from a positive capacity.\<close>

function grow :: "nat \<Rightarrow> nat \<Rightarrow> nat" where
  "grow capacity minCapacity =
     (if 0 < capacity \<and> capacity < minCapacity then grow (capacity * 2) minCapacity else capacity)"
  by auto
termination by (relation "measure (\<lambda>(c, m). m - c)") auto

declare grow.simps [simp del]

definition advance :: "nat \<Rightarrow> writer \<Rightarrow> (nat \<times> writer) result" where
  "advance advanceBy w =
     (let srcOffset = woffset w; minCapacity = srcOffset + advanceBy
      in if minCapacity \<le> length (wbuf w)
         then Inr (srcOffset, w\<lparr>woffset := srcOffset + advanceBy\<rparr>)
         else if wstrict w then Inl (Error ''writer cannot exceed capacity'')
         else
           let capacity = grow (if wbuf w = [] then MIN_BUFFER_SIZE else length (wbuf w)) minCapacity;
               newBuffer = overwrite 0 (wbuf w) (replicate capacity 0)
           in Inr (srcOffset, w\<lparr>wbuf := newBuffer, woffset := srcOffset + advanceBy\<rparr>))"

definition put_at :: "nat \<Rightarrow> buffer \<Rightarrow> writer \<Rightarrow> writer" where
  "put_at off bs w = w\<lparr>wbuf := overwrite off bs (wbuf w)\<rparr>"

definition write_bytes :: "buffer \<Rightarrow> writer \<Rightarrow> writer result" where
  "write_bytes bs w = ebind (advance (length bs) w) (\<lambda>(off, w'). Inr (put_at off bs w'))"

definition getBuffer :: "writer \<Rightarrow> buffer" where
  "getBuffer w = take (woffset w) (wbuf w)"

section \<open>Integers\<close>

fun is_number :: "long_value \<Rightarrow> bool" where
  "is_number (NumV _) = True"
| "is_number _ = False"

fun is_long :: "long_value \<Rightarrow> bool" where
  "is_long (LongV _) = True"
| "is_long _ = False"

fun unsigned_long :: "long_value \<Rightarrow> bool" where
  "unsigned_long (LongV l) = long_unsigned l"
| "unsigned_long _ = False"

definition writeUInt :: "long_value \<Rightarrow> int \<Rightarrow> writer \<Rightarrow> writer result" where
  "writeUInt v len w =
     (if \<not> isInteger v then Inl (Error ''UInt must be an integer'')
      else if is_number v \<and> MAX_SAFE_INTEGER < long_int v
      then Inl (Error ''UInt is larger than safe JavaScript range (try using Longs instead)'')
      else if len \<le> 0 then Inl (Error ''UInt length must be greater than zero'')
      else if is_long v \<and> \<not> unsigned_long v then Inl (Error ''Expected unsigned Long'')
      else if len \<le> int MAX_SAFE_BYTES then
        (if long_int v < 0 then Inl (Error ''UInt must be positive'')
         else if UINT_RANGES (nat len) < long_int v then Inl (Error ''UInt does not fit'')
         else ebind (advance (nat len) w)
           (\<lambda>(off, w'). Inr (put_at off (nat_to_be (nat len) (nat (long_int v))) w')))
      else ebind (longFromValue v True) (\<lambda>l.
        ebind (getLongUIntBufferSize (long_bits l)) (\<lambda>size.
          if len < int size then Inl (Error ''UInt does not fit'')
          else write_bytes (longToBuffer l (nat len)) w)))"

definition writeInt :: "long_value \<Rightarrow> int \<Rightarrow> writer \<Rightarrow> writer result" where
  "writeInt v len w =
     (if \<not> isInteger v then Inl (Error ''Int must be an integer'')
      else if len \<le> 0 then Inl (Error ''Int length must be greater than zero'')
      else if is_number v \<and> MAX_SAFE_INTEGER < long_int v
      then Inl (Error ''Int is larger than safe JavaScript range (try using Longs instead)'')
      else if is_number v \<and> long_int v < MIN_SAFE_INTEGER
      then Inl (Error ''Int is smaller than safe JavaScript range (try using Longs instead)'')
      else if is_long v \<and> unsigned_long v then Inl (Error ''Expected signed Long'')
      else if len \<le> int MAX_SAFE_BYTES then
        (if long_int v < fst (INT_RANGES (nat len)) \<or> snd (INT_RANGES (nat len)) < long_int v
         then Inl (Error ''Int does not fit'')
         else ebind (advance (nat len) w)
           (\<lambda>(off, w'). Inr (put_at off (int_to_be (nat len) (long_int v)) w')))
      else ebind (longFromValue v False) (\<lambda>l.
        ebind (getLongIntBufferSize (long_bits l)) (\<lambda>size.
          if len < int size then Inl (Error ''Int does not fit'')
          else write_bytes (longToBuffer l (nat len)) w)))"

section \<open>Octet strings\<close>

text \<open>\<open>lengthOfLength\<close> is at most 8, so \<open>MSB | lengthOfLength\<close> is their sum.\<close>

definition writeLengthPrefix :: "int \<Rightarrow> writer \<Rightarrow> writer result" where
  "writeLengthPrefix len w =
     (if len \<le> 127 then writeUInt (num len) 1 w
      else
        let lengthOfLength = int (getUIntBufferSize len)
        in ebind (writeUInt (num (0x80 + lengthOfLength)) 1 w)
             (writeUInt (num len) lengthOfLength))"

definition createVarOctetString :: "int \<Rightarrow> (writer \<Rightarrow> writer result) \<Rightarrow> writer \<Rightarrow> writer result" where
  "createVarOctetString len body w =
     (if len < 0 then Inl (Error ''length must be non-negative'')
      else ebind (writeLengthPrefix len w) (\<lambda>w1.
           ebind (advance (nat len) w1) (\<lambda>(off, w2).
           ebind (body (new_writer_buffer (slice off (nat len) (wbuf w2)))) (\<lambda>child.
             Inr (put_at off (wbuf child) w2)))))"

definition writeOctetString :: "buffer \<Rightarrow> int \<Rightarrow> writer \<Rightarrow> writer result" where
  "writeOctetString bs len w =
     (if int (length bs) \<noteq> len then Inl (Error ''Incorrect length for octet string'') else write_bytes bs w)"

definition writeVarOctetString :: "buffer \<Rightarrow> writer \<Rightarrow> writer result" where
  "writeVarOctetString bs w = ebind (writeLengthPrefix (int (length bs)) w) (write_bytes bs)"

section \<open>Variable-length integers\<close>

text \<open>A \<open>Buffer\<close> argument of \<open>writeVarUInt\<close> and \<open>writeVarInt\<close> is an octet string already.\<close>

definition writeVarUIntBuffer :: "buffer \<Rightarrow> writer \<Rightarrow> writer result" where
  "writeVarUIntBuffer bs = writeVarOctetString bs"

definition writeVarUInt :: "long_value \<Rightarrow> writer \<Rightarrow> writer result" where
  "writeVarUInt v w =
     (if \<not> isInteger v then Inl (Error ''UInt must be an integer'')
      else if is_number v then
        let len = int (getUIntBufferSize (long_int v))
        in createVarOctetString len (writeUInt v len) w
      else ebind (longFromValue v True) (\<lambda>l.
           ebind (getLongUIntBufferSize (long_bits l)) (\<lambda>len.
             createVarOctetString (int len) (writeUInt (LongV l) (int len)) w)))"

definition writeVarInt :: "long_value \<Rightarrow> writer \<Rightarrow> writer result" where
  "writeVarInt v w =
     (if \<not> isInteger v then Inl (Error ''Int must be an integer'')
      else if is_number v \<and> MAX_SAFE_INTEGER < long_int v
      then Inl (Error ''Int is larger than safe JavaScript range'')
      else if is_number v \<and> long_int v < MIN_SAFE_INTEGER
      then Inl (Error ''Int is smaller than safe JavaScript range'')
      else if is_number v then
        let len = int (getIntBufferSize (long_int v))
        in createVarOctetString len (writeInt v len) w
      else ebind (longFromValue v False) (\<lambda>l.
           ebind (getLongIntBufferSize (long_bits l)) (\<lambda>len.
             createVarOctetString (int len) (writeInt (LongV l) (int len)) w)))"

definition Writer :: "writer writer_ops" where
  "Writer =
     \<lparr>op_writeUInt = writeUInt, op_writeInt = writeInt, op_writeVarUInt = writeVarUInt,
      op_writeVarInt = writeVarInt, op_writeOctetString = writeOctetString,
      op_writeVarOctetString = writeVarOctetString,
      op_createVarOctetString = createVarOctetString, op_write = write_bytes\<rparr>"

lemma Writer_ops [simp]:
  "op_writeUInt Writer = writeUInt" "op_writeInt Writer = writeInt"
  "op_writeVarUInt Writer = writeVarUInt" "op_writeVarInt Writer = writeVarInt"
  "op_writeOctetString Writer = writeOctetString"
  "op_writeVarOctetString Writer = writeVarOctetString"
  "op_createVarOctetString Writer = createVarOctetString" "op_write Writer = write_bytes"
  by (simp_all add: Writer_def)

section \<open>The contract of the writer\<close>

definition wok :: "writer \<Rightarrow> bool" where
  "wok w \<longleftrightarrow> woffset w \<le> length (wbuf w)"

definition wroom :: "writer \<Rightarrow> nat \<Rightarrow> bool" where
  "wroom w n \<longleftrightarrow> (wstrict w \<longrightarrow> woffset w + n \<le> length (wbuf w))"

definition wadds :: "writer \<Rightarrow> buffer \<Rightarrow> writer \<Rightarrow> bool" where
  "wadds w bs w' \<longleftrightarrow> wok w \<and> wok w' \<and> getBuffer w' = getBuffer w @ bs \<and> wstrict w' = wstrict w
     \<and> (wstrict w \<longrightarrow> length (wbuf w') = length (wbuf w))"

lemma wadds_offset: "wadds w bs w' \<Longrightarrow> woffset w' = woffset w + length bs"
proof -
  assume a: "wadds w bs w'"
  have "length (getBuffer w') = length (getBuffer w) + length bs" using a by (simp add: wadds_def)
  then show ?thesis using a by (simp add: wadds_def wok_def getBuffer_def)
qed

lemma grow_ge: "0 < capacity \<Longrightarrow> minCapacity \<le> grow capacity minCapacity"
proof (induction capacity minCapacity rule: grow.induct)
  case (1 capacity minCapacity)
  then show ?case by (subst grow.simps) auto
qed

lemma grow_mono: "capacity \<le> grow capacity minCapacity"
proof (induction capacity minCapacity rule: grow.induct)
  case (1 capacity minCapacity)
  then show ?case by (subst grow.simps) auto
qed

lemma grow_less: "capacity < minCapacity \<Longrightarrow> grow capacity minCapacity < 2 * minCapacity"
proof (induction capacity minCapacity rule: grow.induct)
  case (1 capacity minCapacity)
  show ?case
  proof (cases "capacity * 2 < minCapacity")
    case True
    with 1 show ?thesis by (cases "capacity = 0") (simp_all add: grow.simps [of 0] grow.simps [of capacity])
  next
    case False
    with 1(2) show ?thesis by (simp add: grow.simps [of capacity] grow.simps [of "capacity * 2"])
  qed
qed

lemma advance_ok:
  assumes "wok w" and "wroom w n"
  obtains w' where "advance n w = Inr (woffset w, w')" "woffset w' = woffset w + n"
    "wok w'" "take (woffset w) (wbuf w') = getBuffer w" "wstrict w' = wstrict w"
    "wstrict w \<longrightarrow> length (wbuf w') = length (wbuf w)"
proof (cases "woffset w + n \<le> length (wbuf w)")
  case True
  then show ?thesis
    by (intro that [of "w\<lparr>woffset := woffset w + n\<rparr>"])
      (simp_all add: advance_def Let_def getBuffer_def wok_def)
next
  case False
  let ?old = "if wbuf w = [] then MIN_BUFFER_SIZE else length (wbuf w)"
  let ?cap = "grow ?old (woffset w + n)"
  let ?new = "overwrite 0 (wbuf w) (replicate ?cap 0)"
  have "0 < ?old" by (simp add: MIN_BUFFER_SIZE_def)
  then have cap: "woffset w + n \<le> ?cap" by (rule grow_ge)
  have "length (wbuf w) \<le> ?cap" using grow_mono [of ?old "woffset w + n"] by (simp split: if_splits)
  then have "length ?new = ?cap" by simp
  moreover have "take (woffset w) ?new = getBuffer w"
    using assms by (simp add: overwrite_def getBuffer_def wok_def)
  moreover have "\<not> wstrict w" using assms(2) False by (auto simp: wroom_def)
  ultimately show ?thesis using False cap
    by (intro that [of "w\<lparr>wbuf := ?new, woffset := woffset w + n\<rparr>"])
      (simp_all add: advance_def Let_def wok_def)
qed

lemma advance_strict:
  "wstrict w \<Longrightarrow> \<not> wroom w n \<Longrightarrow> advance n w = Inl (Error ''writer cannot exceed capacity'')"
  by (simp add: advance_def wroom_def)

lemma put_adds:
  assumes "wok w" "woffset w' = woffset w + length bs" "wok w'"
    "take (woffset w) (wbuf w') = getBuffer w" "wstrict w' = wstrict w"
    "wstrict w \<longrightarrow> length (wbuf w') = length (wbuf w)"
  shows "wadds w bs (put_at (woffset w) bs w')"
proof -
  have "woffset w + length bs \<le> length (wbuf w')" using assms(2,3) by (simp add: wok_def)
  then show ?thesis using assms length_overwrite [of "woffset w" bs "wbuf w'"]
    by (auto simp: wadds_def wok_def put_at_def getBuffer_def take_overwrite)
qed

lemma advance_put:
  assumes "wok w" and "wroom w (length bs)"
  shows "\<exists>w'. ebind (advance (length bs) w) (\<lambda>(off, w'). Inr (put_at off bs w')) = Inr w' \<and> wadds w bs w'"
proof -
  obtain w' where w': "advance (length bs) w = Inr (woffset w, w')" "woffset w' = woffset w + length bs"
    "wok w'" "take (woffset w) (wbuf w') = getBuffer w" "wstrict w' = wstrict w"
    "wstrict w \<longrightarrow> length (wbuf w') = length (wbuf w)"
    by (rule advance_ok [OF assms])
  from put_adds [OF assms(1) w'(2-)] w'(1) show ?thesis by simp
qed

lemma write_adds: "wok w \<Longrightarrow> wroom w (length bs) \<Longrightarrow> \<exists>w'. write_bytes bs w = Inr w' \<and> wadds w bs w'"
  unfolding write_bytes_def by (rule advance_put)

lemma wadds_nil: "wok w \<Longrightarrow> wadds w [] w"
  by (simp add: wadds_def)

lemma wadds_trans: "wadds w bs w' \<Longrightarrow> wadds w' bs' w'' \<Longrightarrow> wadds w (bs @ bs') w''"
  by (auto simp: wadds_def)

lemma wadds_room: "wadds w bs w' \<Longrightarrow> wroom w (length bs + n) \<Longrightarrow> wroom w' n"
  using wadds_offset [of w bs w'] by (auto simp: wadds_def wroom_def)

lemma wroom_mono: "wroom w n \<Longrightarrow> m \<le> n \<Longrightarrow> wroom w m"
  by (auto simp: wroom_def)

lemma UINT_RANGES_eq: "1 \<le> k \<Longrightarrow> k \<le> 6 \<Longrightarrow> UINT_RANGES k = 256 ^ k - 1"
proof -
  assume "1 \<le> k" "k \<le> 6"
  then consider "k = 1" | "k = 2" | "k = 3" | "k = 4" | "k = 5" | "k = 6" by linarith
  then show ?thesis by cases (simp_all add: UINT_RANGES_def)
qed

lemma uint_value_guards:
  "uint_value v = Some n \<Longrightarrow> \<not> (is_number v \<and> MAX_SAFE_INTEGER < long_int v)"
  "uint_value v = Some n \<Longrightarrow> \<not> (is_long v \<and> \<not> unsigned_long v)"
  by (cases v rule: uint_value.cases; auto split: if_splits)+

lemma writeUInt_adds:
  assumes v: "uint_value v = Some n" and k: "0 < k" "k \<le> 8" "n < 256 ^ k" and w: "wok w" "wroom w k"
  shows "\<exists>w'. writeUInt v (int k) w = Inr w' \<and> wadds w (nat_to_be k n) w'"
proof (cases "k \<le> 6")
  case True
  have "int n < 256 ^ k" using k(3) by (metis of_nat_less_iff of_nat_numeral of_nat_power)
  then have "\<not> UINT_RANGES k < int n" using True k(1) UINT_RANGES_eq [of k] by linarith
  then have "writeUInt v (int k) w =
      ebind (advance (length (nat_to_be k n)) w) (\<lambda>(off, w'). Inr (put_at off (nat_to_be k n) w'))"
    using True k(1) uint_value_guards [OF v]
    by (auto simp: writeUInt_def uint_value_isInteger [OF v] uint_value_int [OF v] MAX_SAFE_BYTES_def)
  then show ?thesis using advance_put [of w "nat_to_be k n"] w by simp
next
  case False
  have n: "unat (of_nat n :: u64) = n" using uint_value_less [OF v] by (rule unat_of_nat_u64)
  have "uint_size n \<le> k" using k by (intro uint_size_le)
  moreover have "longToBuffer (Long (of_nat n) True) k = nat_to_be k n"
    using longToBuffer_short [of k "Long (of_nat n) True"] k n by simp
  ultimately have "writeUInt v (int k) w = write_bytes (nat_to_be k n) w"
    using False k(1) uint_value_guards [OF v] n
    by (auto simp: writeUInt_def uint_value_isInteger [OF v] uint_value_long [OF v] MAX_SAFE_BYTES_def
        getLongUIntBufferSize_minimal)
  then show ?thesis using write_adds [of w "nat_to_be k n"] w by simp
qed

lemma writeLengthPrefix_adds:
  assumes n: "n < 2 ^ 48" and w: "wok w" "wroom w (length (length_prefix n))"
  shows "\<exists>w'. writeLengthPrefix (int n) w = Inr w' \<and> wadds w (length_prefix n) w'"
proof (cases "n \<le> 127")
  case True
  then show ?thesis using writeUInt_adds [of "num (int n)" n 1 w] w
    by (simp add: writeLengthPrefix_def length_prefix_def MAX_SAFE_INTEGER_def)
next
  case False
  let ?k = "uint_size n"
  have k: "?k \<le> 6" using n uint_size_bounds(2) [of n] by simp
  have size: "getUIntBufferSize (int n) = ?k" using n by (intro getUIntBufferSize_minimal) simp
  have room: "wroom w (Suc ?k)" using w(2) False by (simp add: length_prefix_length)
  then have "wroom w 1" by (rule wroom_mono) simp
  moreover have "uint_value (num (128 + int ?k)) = Some (128 + ?k)"
    using k by (simp add: MAX_SAFE_INTEGER_def nat_add_distrib)
  ultimately obtain w1 where w1: "writeUInt (num (128 + int ?k)) 1 w = Inr w1"
      "wadds w [of_nat (128 + ?k)] w1"
    using writeUInt_adds [of "num (128 + int ?k)" "128 + ?k" 1 w] k w(1) by auto
  have "wroom w1 ?k" using wadds_room [OF w1(2), of ?k] room by simp
  moreover have "uint_value (num (int n)) = Some n" using n by (simp add: MAX_SAFE_INTEGER_def)
  ultimately obtain w2 where "writeUInt (num (int n)) (int ?k) w1 = Inr w2" "wadds w1 (nat_to_be ?k n) w2"
    using writeUInt_adds [of "num (int n)" n ?k w1] k uint_size_upper w1(2) by (auto simp: wadds_def)
  with w1 wadds_trans [OF w1(2)] False size show ?thesis
    by (auto simp: writeLengthPrefix_def length_prefix_def)
qed

lemma writeVarOctetString_adds:
  assumes "length bs < 2 ^ 48" and w: "wok w" "wroom w (length (var_octet bs))"
  shows "\<exists>w'. writeVarOctetString bs w = Inr w' \<and> wadds w (var_octet bs) w'"
proof -
  have "wroom w (length (length_prefix (length bs)))"
    using w(2) by (rule wroom_mono) (simp add: var_octet_def)
  then obtain w1 where w1: "writeLengthPrefix (int (length bs)) w = Inr w1"
      "wadds w (length_prefix (length bs)) w1"
    using writeLengthPrefix_adds assms(1) w(1) by blast
  moreover have "wok w1" using w1(2) by (simp add: wadds_def)
  moreover have "wroom w1 (length bs)"
    using wadds_room [OF w1(2), of "length bs"] w(2) by (simp add: var_octet_def)
  ultimately obtain w2 where "write_bytes bs w1 = Inr w2" "wadds w1 bs w2" using write_adds by blast
  with w1 wadds_trans show ?thesis by (auto simp: writeVarOctetString_def var_octet_def)
qed

lemma strict_full:
  assumes "wadds (new_writer_buffer b) bs c'" and "length b = length bs"
  shows "wbuf c' = bs"
proof -
  have "woffset c' = length bs" using wadds_offset [OF assms(1)] by (simp add: new_writer_buffer_def)
  with assms show ?thesis by (auto simp: wadds_def getBuffer_def new_writer_buffer_def)
qed

lemma createVarOctetString_adds:
  assumes len: "length bs < 2 ^ 48"
    and body: "\<And>c. wok c \<Longrightarrow> wroom c (length bs) \<Longrightarrow> \<exists>c'. body c = Inr c' \<and> wadds c bs c'"
    and w: "wok w" "wroom w (length (var_octet bs))"
  shows "\<exists>w'. createVarOctetString (int (length bs)) body w = Inr w' \<and> wadds w (var_octet bs) w'"
proof -
  have "wroom w (length (length_prefix (length bs)))"
    using w(2) by (rule wroom_mono) (simp add: var_octet_def)
  then obtain w1 where w1: "writeLengthPrefix (int (length bs)) w = Inr w1"
      "wadds w (length_prefix (length bs)) w1"
    using writeLengthPrefix_adds len w(1) by blast
  have ok1: "wok w1" using w1(2) by (simp add: wadds_def)
  have room1: "wroom w1 (length bs)"
    using wadds_room [OF w1(2), of "length bs"] w(2) by (simp add: var_octet_def)
  obtain w2 where w2: "advance (length bs) w1 = Inr (woffset w1, w2)" "woffset w2 = woffset w1 + length bs"
    "wok w2" "take (woffset w1) (wbuf w2) = getBuffer w1" "wstrict w2 = wstrict w1"
    "wstrict w1 \<longrightarrow> length (wbuf w2) = length (wbuf w1)"
    by (rule advance_ok [OF ok1 room1])
  let ?c = "new_writer_buffer (slice (woffset w1) (length bs) (wbuf w2))"
  have sl: "length (slice (woffset w1) (length bs) (wbuf w2)) = length bs"
    using w2(2,3) by (simp add: wok_def)
  then have "wok ?c" "wroom ?c (length bs)" by (simp_all add: wok_def wroom_def new_writer_buffer_def)
  then obtain c' where c': "body ?c = Inr c'" "wadds ?c bs c'" using body by blast
  have "wbuf c' = bs" using c'(2) sl by (rule strict_full)
  with w1(1) w2(1) c'(1) have "createVarOctetString (int (length bs)) body w = Inr (put_at (woffset w1) bs w2)"
    by (simp add: createVarOctetString_def)
  moreover have "wadds w (var_octet bs) (put_at (woffset w1) bs w2)"
    unfolding var_octet_def by (rule wadds_trans [OF w1(2) put_adds [OF ok1 w2(2-)]])
  ultimately show ?thesis by blast
qed

lemma writeVarUInt_adds:
  assumes v: "uint_value v = Some n" and w: "wok w" "wroom w (length (var_uint n))"
  shows "\<exists>w'. writeVarUInt v w = Inr w' \<and> wadds w (var_uint n) w'"
proof -
  let ?k = "uint_size n" and ?bs = "nat_to_be (uint_size n) n"
  have n: "n < 2 ^ 64" using v by (rule uint_value_less)
  have k: "?k \<le> 8" using n uint_size_bounds(1) [of n] by simp
  define v' where "v' = (if is_number v then v else LongV (Long (of_nat n) True))"
  have v': "uint_value v' = Some n" using v unat_of_nat_u64 [OF n] by (simp add: v'_def)
  have "writeVarUInt v w = createVarOctetString (int (length ?bs)) (writeUInt v' (int ?k)) w"
    using getUIntBufferSize_minimal [OF n] unat_of_nat_u64 [OF n]
    by (simp add: writeVarUInt_def uint_value_isInteger [OF v] uint_value_int [OF v]
        uint_value_long [OF v] getLongUIntBufferSize_minimal v'_def Let_def)
  moreover have "\<exists>c'. writeUInt v' (int ?k) c = Inr c' \<and> wadds c ?bs c'"
    if "wok c" "wroom c (length ?bs)" for c
    using writeUInt_adds [OF v', of ?k c] k uint_size_upper that by simp
  moreover have "length ?bs < 2 ^ 48" using k by simp
  ultimately show ?thesis
    using createVarOctetString_adds [of ?bs "writeUInt v' (int ?k)" w] w unfolding var_uint_def by simp
qed

interpretation wr: writer_interface Writer wok wroom wadds
proof
  show "\<exists>w'. op_writeOctetString Writer bs (int (length bs)) w = Inr w' \<and> wadds w bs w'"
    if "wok w" "wroom w (length bs)" for w bs
    using that write_adds by (simp add: Writer_def writeOctetString_def)
  show "\<exists>w'. op_createVarOctetString Writer (int (length bs)) body w = Inr w' \<and> wadds w (var_octet bs) w'"
    if "length bs < 2 ^ 48" "\<And>c. wok c \<Longrightarrow> wroom c (length bs) \<Longrightarrow> \<exists>c'. body c = Inr c' \<and> wadds c bs c'"
      "wok w" "wroom w (length (var_octet bs))" for bs body w
    using createVarOctetString_adds [OF that] by (simp add: Writer_def)
qed (simp_all add: Writer_def wadds_nil wadds_room wroom_mono write_adds writeUInt_adds
      writeVarUInt_adds writeVarOctetString_adds, auto simp: wadds_def)

text \<open>The rules of the contract for code that calls the methods of \<open>Writer\<close> directly.\<close>

lemmas emits_writer = wr.emits_seq wr.emits_write [unfolded Writer_ops]
  wr.emits_UInt [unfolded Writer_ops] wr.emits_VarUInt [unfolded Writer_ops]
  wr.emits_VarOctetString [unfolded Writer_ops] wr.emits_createVarOctetString [unfolded Writer_ops]

end
