(* ===== verification/Oer_Predictor.thy ===== *)
theory Oer_Predictor
  imports Oer_Writer
begin

text \<open>
  \<^verbatim>\<open>oer-utils/src/lib/predictor.ts\<close>: the \<open>Predictor\<close> class, which counts the bytes a
  \<open>Writer\<close> would write. The interpretation \<open>pr\<close> of \<open>writer_interface\<close> and
  the interpretation \<open>wr\<close> for \<open>Writer\<close> together say that a serializer run on a predictor predicts
  the number of bytes that the same serializer writes.
\<close>

record predictor =
  psize :: int

definition new_predictor :: predictor where
  "new_predictor = \<lparr>psize = 0\<rparr>"

definition predictor_skip :: "int \<Rightarrow> predictor \<Rightarrow> predictor" where
  "predictor_skip bytes p = p\<lparr>psize := psize p + bytes\<rparr>"

definition measureVarOctetString :: "int \<Rightarrow> int" where
  "measureVarOctetString len =
     1 + (if 127 < len then int (getUIntBufferSize len) else 0) + len"

definition predictor_skipVarOctetString :: "int \<Rightarrow> predictor \<Rightarrow> predictor" where
  "predictor_skipVarOctetString len p = predictor_skip (measureVarOctetString len) p"

definition predictor_writeUInt :: "long_value \<Rightarrow> int \<Rightarrow> predictor \<Rightarrow> predictor result" where
  "predictor_writeUInt v len p = Inr (predictor_skip len p)"

definition predictor_writeInt :: "long_value \<Rightarrow> int \<Rightarrow> predictor \<Rightarrow> predictor result" where
  "predictor_writeInt v len p = Inr (predictor_skip len p)"

definition predictor_writeVarUInt :: "long_value \<Rightarrow> predictor \<Rightarrow> predictor result" where
  "predictor_writeVarUInt v p =
     (if \<not> isInteger v then Inl (Error ''UInt must be an integer'')
      else if is_number v then
        (if long_int v < 0 then Inl (Error ''UInt must be positive'')
         else Inr (predictor_skipVarOctetString (int (getUIntBufferSize (long_int v))) p))
      else ebind (longFromValue v True) (\<lambda>l.
           ebind (getLongUIntBufferSize (long_bits l)) (\<lambda>len.
             Inr (predictor_skipVarOctetString (int len) p))))"

definition predictor_writeVarInt :: "long_value \<Rightarrow> predictor \<Rightarrow> predictor result" where
  "predictor_writeVarInt v p =
     (if \<not> isInteger v then Inl (Error ''UInt must be an integer'')
      else if is_number v then
        Inr (predictor_skipVarOctetString (int (getIntBufferSize (long_int v))) p)
      else ebind (longFromValue v False) (\<lambda>l.
           ebind (getLongIntBufferSize (long_bits l)) (\<lambda>len.
             Inr (predictor_skipVarOctetString (int len) p))))"

definition predictor_writeOctetString :: "buffer \<Rightarrow> int \<Rightarrow> predictor \<Rightarrow> predictor result" where
  "predictor_writeOctetString bs len p =
     (if int (length bs) \<noteq> len then Inl (Error ''Incorrect length for octet string'')
      else Inr (predictor_skip len p))"

definition predictor_writeVarOctetString :: "buffer \<Rightarrow> predictor \<Rightarrow> predictor result" where
  "predictor_writeVarOctetString bs p = Inr (predictor_skipVarOctetString (int (length bs)) p)"

text \<open>The child is a fresh predictor whose count is dropped.\<close>

definition predictor_createVarOctetString ::
  "int \<Rightarrow> (predictor \<Rightarrow> predictor result) \<Rightarrow> predictor \<Rightarrow> predictor result" where
  "predictor_createVarOctetString len body p =
     ebind (body new_predictor) (\<lambda>_. Inr (predictor_skipVarOctetString len p))"

definition predictor_write :: "buffer \<Rightarrow> predictor \<Rightarrow> predictor result" where
  "predictor_write bs p = Inr (predictor_skip (int (length bs)) p)"

definition getSize :: "predictor \<Rightarrow> int" where
  "getSize p = psize p"

definition Predictor :: "predictor writer_ops" where
  "Predictor =
     \<lparr>op_writeUInt = predictor_writeUInt, op_writeInt = predictor_writeInt,
      op_writeVarUInt = predictor_writeVarUInt, op_writeVarInt = predictor_writeVarInt,
      op_writeOctetString = predictor_writeOctetString,
      op_writeVarOctetString = predictor_writeVarOctetString,
      op_createVarOctetString = predictor_createVarOctetString, op_write = predictor_write\<rparr>"

section \<open>The predictor as an implementation of the interface\<close>

definition pok :: "predictor \<Rightarrow> bool" where
  "pok p = True"

definition proom :: "predictor \<Rightarrow> nat \<Rightarrow> bool" where
  "proom p n = True"

definition padds :: "predictor \<Rightarrow> buffer \<Rightarrow> predictor \<Rightarrow> bool" where
  "padds p bs p' \<longleftrightarrow> psize p' = psize p + int (length bs)"

lemma measureVarOctetString_exact:
  assumes "length bs < 2 ^ 48"
  shows "measureVarOctetString (int (length bs)) = int (length (var_octet bs))"
proof -
  have "getUIntBufferSize (int (length bs)) = uint_size (length bs)"
    using assms by (intro getUIntBufferSize_minimal) simp
  then show ?thesis by (simp add: measureVarOctetString_def var_octet_def length_prefix_length)
qed

lemma predictor_writeVarUInt_adds:
  assumes v: "uint_value v = Some n"
  shows "\<exists>p'. predictor_writeVarUInt v p = Inr p' \<and> padds p (var_uint n) p'"
proof -
  have n: "n < 2 ^ 64" using v by (rule uint_value_less)
  have k: "uint_size n \<le> 8" using n uint_size_bounds(1) [of n] by simp
  have "predictor_writeVarUInt v p = Inr (predictor_skipVarOctetString (int (uint_size n)) p)"
    using getUIntBufferSize_minimal [OF n] unat_of_nat_u64 [OF n]
    by (simp add: predictor_writeVarUInt_def uint_value_isInteger [OF v] uint_value_int [OF v]
        uint_value_long [OF v] getLongUIntBufferSize_minimal)
  moreover have "measureVarOctetString (int (uint_size n)) = int (length (var_uint n))"
    using measureVarOctetString_exact [of "nat_to_be (uint_size n) n"] k by (simp add: var_uint_def)
  ultimately show ?thesis
    by (simp add: padds_def predictor_skipVarOctetString_def predictor_skip_def)
qed

interpretation pr: writer_interface Predictor pok proom padds
proof
  show "\<exists>w'. op_createVarOctetString Predictor (int (length bs)) body w = Inr w' \<and> padds w (var_octet bs) w'"
    if "length bs < 2 ^ 48" "\<And>c. pok c \<Longrightarrow> proom c (length bs) \<Longrightarrow> \<exists>c'. body c = Inr c' \<and> padds c bs c'"
    for bs body w
    using that(1) that(2) [of new_predictor] measureVarOctetString_exact [of bs]
    by (auto simp: Predictor_def predictor_createVarOctetString_def predictor_skipVarOctetString_def
        predictor_skip_def padds_def pok_def proom_def)
qed (auto simp: Predictor_def padds_def pok_def proom_def predictor_write_def predictor_skip_def
      predictor_writeUInt_def predictor_writeOctetString_def predictor_writeVarOctetString_def
      predictor_skipVarOctetString_def measureVarOctetString_exact
      intro: predictor_writeVarUInt_adds [unfolded padds_def])

text \<open>What a serializer that emits \<open>bs\<close> does on a fresh predictor and on the two kinds of writer.\<close>

definition predict :: "(predictor \<Rightarrow> predictor result) \<Rightarrow> int result" where
  "predict f = ebind (f new_predictor) (\<lambda>p. Inr (getSize p))"

definition written :: "(writer \<Rightarrow> writer result) \<Rightarrow> writer \<Rightarrow> buffer result" where
  "written f w = ebind (f w) (\<lambda>w'. Inr (getBuffer w'))"

lemma predict_emits: "pr.emits f bs \<Longrightarrow> predict f = Inr (int (length bs))"
  using pr.emitsD [of f bs new_predictor]
  by (auto simp: predict_def pok_def proom_def padds_def getSize_def new_predictor_def)

lemma written_emits: "wr.emits f bs \<Longrightarrow> written f new_writer = Inr bs"
  using wr.emitsD [of f bs new_writer]
  by (auto simp: written_def wok_def wroom_def wadds_def getBuffer_def new_writer_def)

lemma written_emits_capacity: "wr.emits f bs \<Longrightarrow> written f (new_writer_capacity (length bs)) = Inr bs"
  using wr.emitsD [of f bs "new_writer_capacity (length bs)"]
  by (auto simp: written_def wok_def wroom_def wadds_def getBuffer_def new_writer_capacity_def)

end
