(* ===== verification/Oer_Codec.thy ===== *)
theory Oer_Codec
  imports Oer_Predictor
begin

text \<open>
  The properties of \<^verbatim>\<open>oer-utils\<close> that span its parts: what a \<open>Writer\<close> writes a
  \<open>Reader\<close> reads back, a \<open>Predictor\<close> predicts its size, sizes are minimal, length
  prefixes are canonical, and the allocation of the writer is bounded.
\<close>

text \<open>
  The two size functions agree with each other on every unsigned 64-bit value and return
  the least number of bytes that holds it.
\<close>

theorem uint_buffer_size_minimal:
  "getUIntBufferSize (int (unat v)) = uint_size (unat v) \<and>
   getLongUIntBufferSize v = Inr (uint_size (unat v)) \<and>
   unat v < 256 ^ uint_size (unat v) \<and>
   (uint_size (unat v) = 1 \<or> 256 ^ (uint_size (unat v) - 1) \<le> unat v)"
proof (intro conjI)
  show "uint_size (unat v) = 1 \<or> 256 ^ (uint_size (unat v) - 1) \<le> unat v"
    using uint_size_lower [of "unat v"] uint_size_one [of "unat v"] by (cases "unat v < 256") simp_all
  show "getUIntBufferSize (int (unat v)) = uint_size (unat v)"
    by (rule getUIntBufferSize_minimal [OF unat_u64_less])
qed (simp_all add: getLongUIntBufferSize_minimal uint_size_upper)

text \<open>
  An unsigned integer given as a number, a decimal string or a \<open>Long\<close> is written by
  \<open>writeVarUInt\<close> and read back by \<open>readVarUIntLong\<close>, whatever follows it; the predictor predicts
  the length of the encoding.
\<close>

theorem var_uint_roundtrip:
  assumes "uint_value v = Some n"
  shows "\<exists>bs. written (writeVarUInt v) new_writer = Inr bs
    \<and> predict (predictor_writeVarUInt v) = Inr (int (length bs))
    \<and> run_reader readVarUIntLong (bs @ post) = Inr (Long (of_nat n) True)"
proof (intro exI conjI)
  show "written (writeVarUInt v) new_writer = Inr (var_uint n)"
    using written_emits [OF wr.emits_VarUInt [OF assms]] by simp
  show "predict (predictor_writeVarUInt v) = Inr (int (length (var_uint n)))"
    using predict_emits [OF pr.emits_VarUInt [OF assms]] by (simp add: Predictor_def)
  show "run_reader readVarUIntLong (var_uint n @ post) = Inr (Long (of_nat n) True)"
    by (rule reads_run [OF reads_var_uint [OF uint_value_less [OF assms]]])
qed

theorem var_uint_roundtrip_witness:
  "\<exists>bs. written (writeVarUInt (StrV (js ''65536''))) new_writer = Inr bs
    \<and> predict (predictor_writeVarUInt (StrV (js ''65536''))) = Inr (int (length bs))
    \<and> run_reader readVarUIntLong (bs @ [7]) = Inr (Long (of_nat 65536) True)"
  by (rule var_uint_roundtrip) (simp add: js_def is_digit_def dec_value_def)

text \<open>
  An octet string of any realistic length is written by \<open>writeVarOctetString\<close> and read back by
  \<open>readVarOctetString\<close>, whatever follows it, and its length is predicted.
\<close>

theorem var_octet_string_roundtrip:
  assumes "length d < 2 ^ 48"
  shows "\<exists>bs. written (writeVarOctetString d) new_writer = Inr bs
    \<and> predict (predictor_writeVarOctetString d) = Inr (int (length bs))
    \<and> run_reader readVarOctetString (bs @ post) = Inr d"
proof (intro exI conjI)
  show "written (writeVarOctetString d) new_writer = Inr (var_octet d)"
    using written_emits [OF wr.emits_VarOctetString [OF assms]] by simp
  show "predict (predictor_writeVarOctetString d) = Inr (int (length (var_octet d)))"
    using predict_emits [OF pr.emits_VarOctetString [OF assms]] by (simp add: Predictor_def)
  show "run_reader readVarOctetString (var_octet d @ post) = Inr d"
    by (rule reads_run [OF reads_var_octet [OF assms]])
qed

theorem var_octet_string_roundtrip_witness:
  "\<exists>bs. written (writeVarOctetString (replicate 200 1)) new_writer = Inr bs
    \<and> predict (predictor_writeVarOctetString (replicate 200 1)) = Inr (int (length bs))
    \<and> run_reader readVarOctetString (bs @ [7, 8]) = Inr (replicate 200 1)"
  by (rule var_octet_string_roundtrip) simp

section \<open>Capacity\<close>

lemma advance_growth:
  assumes "advance n w = Inr (off, w')"
  shows "length (wbuf w') \<le> max (length (wbuf w)) (max MIN_BUFFER_SIZE (2 * woffset w'))"
proof (cases "woffset w + n \<le> length (wbuf w)")
  case True
  with assms show ?thesis by (auto simp: advance_def Let_def)
next
  case False
  let ?old = "if wbuf w = [] then MIN_BUFFER_SIZE else length (wbuf w)"
  let ?cap = "grow ?old (woffset w + n)"
  have "?cap \<le> max ?old (2 * (woffset w + n))"
    using grow_less [of ?old "woffset w + n"] grow.simps [of ?old "woffset w + n"]
    by (cases "?old < woffset w + n") auto
  moreover have "length (wbuf w) \<le> ?cap"
    using grow_mono [of ?old "woffset w + n"] by (simp split: if_splits)
  moreover have "w' = w\<lparr>wbuf := overwrite 0 (wbuf w) (replicate ?cap 0), woffset := woffset w + n\<rparr>"
    using assms False by (auto simp: advance_def Let_def split: if_splits)
  ultimately show ?thesis by (auto split: if_splits)
qed

text \<open>
  A raw write appends to the contents. A strict writer keeps its buffer and throws exactly when the
  bytes do not fit; a growing writer never throws and allocates less than twice what it
  needs, or its minimal size.
\<close>

theorem write_capacity:
  assumes "wok w"
  shows "write_bytes bs w = Inl (Error ''writer cannot exceed capacity'')
      \<and> wstrict w \<and> length (wbuf w) < woffset w + length bs
    \<or> (\<exists>w'. write_bytes bs w = Inr w' \<and> getBuffer w' = getBuffer w @ bs
        \<and> woffset w' = woffset w + length bs
        \<and> (if wstrict w then length (wbuf w') = length (wbuf w)
           else length (wbuf w') \<le> max (length (wbuf w)) (max MIN_BUFFER_SIZE (2 * woffset w'))))"
proof (cases "wroom w (length bs)")
  case True
  obtain w' where w': "write_bytes bs w = Inr w'" "wadds w bs w'"
    using write_adds [OF assms True] by blast
  have "length (wbuf w') \<le> max (length (wbuf w)) (max MIN_BUFFER_SIZE (2 * woffset w'))" if "\<not> wstrict w"
  proof -
    obtain off w1 where adv: "advance (length bs) w = Inr (off, w1)" "w' = put_at off bs w1"
      using w'(1) by (auto simp: write_bytes_def)
    obtain w2 where "advance (length bs) w = Inr (woffset w, w2)" "woffset w2 = woffset w + length bs" "wok w2"
      using advance_ok [OF assms True] by metis
    with adv have "off = woffset w" "woffset w1 = woffset w + length bs" "wok w1" by auto
    with adv(2) have "length (wbuf w') = length (wbuf w1)" "woffset w' = woffset w1"
      by (simp_all add: put_at_def wok_def)
    with advance_growth [OF adv(1)] show ?thesis by simp
  qed
  with w' wadds_offset [OF w'(2)] show ?thesis by (auto simp: wadds_def)
next
  case False
  then have "wstrict w" "length (wbuf w) < woffset w + length bs" by (auto simp: wroom_def)
  with advance_strict False show ?thesis by (simp add: write_bytes_def)
qed

theorem write_capacity_witness:
  "write_bytes [1, 2, 3] (new_writer_capacity 2) = Inl (Error ''writer cannot exceed capacity'')
      \<and> wstrict (new_writer_capacity 2)
      \<and> length (wbuf (new_writer_capacity 2)) < woffset (new_writer_capacity 2) + length [1, 2, 3 :: byte]
    \<or> (\<exists>w'. write_bytes [1, 2, 3] (new_writer_capacity 2) = Inr w'
        \<and> getBuffer w' = getBuffer (new_writer_capacity 2) @ [1, 2, 3]
        \<and> woffset w' = woffset (new_writer_capacity 2) + length [1, 2, 3 :: byte]
        \<and> (if wstrict (new_writer_capacity 2) then length (wbuf w') = length (wbuf (new_writer_capacity 2))
           else length (wbuf w') \<le> max (length (wbuf (new_writer_capacity 2)))
             (max MIN_BUFFER_SIZE (2 * woffset w'))))"
  by (rule write_capacity) (simp add: wok_def new_writer_capacity_def)

section \<open>Canonical length prefixes\<close>

lemma canonical_digits:
  assumes "0 < k" "k \<le> 4" "length ds = k"
    and "max 128 (js_one_shl ((int k - 1) * 8)) \<le> int (be_to_nat ds)"
  shows "uint_size (be_to_nat ds) = k" "127 < be_to_nat ds"
proof -
  have "k = 1 \<or> 256 ^ (k - 1) \<le> be_to_nat ds"
  proof -
    consider "k = 1" | "k = 2" | "k = 3" | "k = 4" using assms(1,2) by linarith
    then show ?thesis using assms(4) by cases (simp_all add: js_one_shl_def Let_def)
  qed
  then show "uint_size (be_to_nat ds) = k"
    using assms(1,3) be_to_nat_less [of ds] by (intro uint_size_eqI) simp_all
  show "127 < be_to_nat ds" using assms(4) by simp
qed

text \<open>
  A length prefix of up to four length bytes is accepted only in its shortest form: the bytes read are
  the canonical prefix of the length returned.
\<close>

theorem readLengthPrefix_canonical:
  assumes "run_reader readLengthPrefix (b # rest) = Inr n" and "unat b \<le> 0x84"
  shows "\<exists>post. b # rest = length_prefix n @ post"
proof (cases "128 \<le> unat b")
  case False
  with assms(1) have "n = unat b"
    by (auto simp: run_reader_eq_Inr readLengthPrefix_def readUIntNumber_def MAX_SAFE_BYTES_def
        readUIntBE_def advance_cursor_def new_reader_def slice_def split: if_splits)
  with False show ?thesis by (simp add: length_prefix_def)
next
  case True
  let ?k = "unat b mod 128"
  have k: "?k \<le> 4" "unat b = 128 + ?k"
    using True assms(2) by (simp_all add: le_mod_geq)
  have first: "readUIntNumber 1 (new_reader (b # rest)) =
      Inr (unat b, \<lparr>rbuf = b # rest, cursor = 1, bookmarks = []\<rparr>)"
    by (simp add: readUIntNumber_def MAX_SAFE_BYTES_def readUIntBE_def advance_cursor_def new_reader_def
        slice_def rbind_def rret_def)
  have k0: "?k \<noteq> 0"
    using assms(1) True by (auto simp: run_reader_eq_Inr readLengthPrefix_def first Let_def split: if_splits)
  obtain r' where r': "readUIntNumber (int ?k) \<lparr>rbuf = b # rest, cursor = 1, bookmarks = []\<rparr> = Inr (n, r')"
      "max 128 (js_one_shl ((int ?k - 1) * 8)) \<le> int n"
    using assms(1) True k0
    by (auto simp: run_reader_eq_Inr readLengthPrefix_def first Let_def not_less split: if_splits)
  then have second: "?k \<le> length rest" "n = be_to_nat (take ?k rest)"
    using k0 k(1)
    by (auto simp: readUIntNumber_def MAX_SAFE_BYTES_def readUIntBE_def advance_cursor_def slice_def
        split: if_splits)
  then have size: "uint_size n = ?k" "127 < n"
    using canonical_digits [of ?k "take ?k rest"] k0 k(1) r'(2) by simp_all
  moreover have "nat_to_be ?k n = take ?k rest"
    using nat_to_be_be_to_nat [of "take ?k rest"] second(1,2) by simp
  moreover have "of_nat (128 + ?k) = b" unfolding k(2) [symmetric] by simp
  ultimately have "length_prefix n = b # take ?k rest"
    by (simp add: length_prefix_def del: of_nat_add)
  then show ?thesis by (intro exI [of _ "drop ?k rest"]) simp
qed

theorem readLengthPrefix_canonical_witness:
  "\<exists>post. [0x82, 0x01, 0x00, 0x07] = length_prefix 256 @ post"
proof (rule readLengthPrefix_canonical)
  show "run_reader readLengthPrefix [0x82, 0x01, 0x00, 0x07] = Inr 256" by code_simp
qed simp

text \<open>
  The canonicality test shifts modulo 32, so it does not protect prefixes of five and six
  length bytes: 128 is read back from a prefix whose canonical form has one length byte.
\<close>

theorem readLengthPrefix_five_bytes:
  "run_reader readLengthPrefix [0x85, 0, 0, 0, 0, 0x80] = Inr 128 \<and> length_prefix 128 = [0x81, 0x80]"
proof
  show "run_reader readLengthPrefix [0x85, 0, 0, 0, 0, 0x80] = Inr 128" by code_simp
  show "length_prefix 128 = [0x81, 0x80]" by (simp add: length_prefix_def uint_size_one)
qed

end
