(* ===== verification/Ilp_Address.thy ===== *)
theory Ilp_Address
  imports Js_String
begin

text \<open>
  \<^verbatim>\<open>ilp-packet/src/utils/address.ts\<close>. The regular expression is modelled by splitting at
  the dots, as \<open>getScheme\<close> does; \<open>isValidIlpAddress_language\<close> shows that this accepts exactly the
  language of the expression.
\<close>

definition dot :: code_unit where
  "dot = 46"

fun split_on :: "code_unit \<Rightarrow> jsstring \<Rightarrow> jsstring list" where
  "split_on d [] = [[]]"
| "split_on d (c # s) =
     (if c = d then [] # split_on d s
      else case split_on d s of [] \<Rightarrow> [[c]] | h # t \<Rightarrow> (c # h) # t)"

definition ILP_ADDRESS_MAX_LENGTH :: nat where
  "ILP_ADDRESS_MAX_LENGTH = 1023"

definition schemes :: "jsstring list" where
  "schemes = map js [''g'', ''private'', ''example'', ''peer'', ''self'',
     ''test'', ''test1'', ''test2'', ''test3'', ''local'']"

text \<open>\<open>[a-zA-Z0-9_~-]\<close>\<close>

definition address_char :: "code_unit \<Rightarrow> bool" where
  "address_char u \<longleftrightarrow>
     (let n = unat u
      in 97 \<le> n \<and> n \<le> 122 \<or> 65 \<le> n \<and> n \<le> 90 \<or> 48 \<le> n \<and> n \<le> 57 \<or> n = 95 \<or> n = 126 \<or> n = 45)"

definition segment :: "jsstring \<Rightarrow> bool" where
  "segment s \<longleftrightarrow> s \<noteq> [] \<and> list_all address_char s"

definition ilp_address_regex :: "jsstring \<Rightarrow> bool" where
  "ilp_address_regex s =
     (case split_on dot s of
        [] \<Rightarrow> False
      | scheme # segs \<Rightarrow> scheme \<in> set schemes \<and> segs \<noteq> [] \<and> list_all segment segs)"

definition isValidIlpAddress :: "jsstring \<Rightarrow> bool" where
  "isValidIlpAddress s \<longleftrightarrow> length s \<le> ILP_ADDRESS_MAX_LENGTH \<and> ilp_address_regex s"

definition getScheme :: "jsstring \<Rightarrow> jsstring" where
  "getScheme address = hd (split_on dot address)"

section \<open>The language of the expression\<close>

text \<open>\<open>^(scheme)([.][a-zA-Z0-9_~-]+)+$\<close>: one dotted segment, then any number of them.\<close>

inductive address_language :: "jsstring \<Rightarrow> bool" where
  first: "scheme \<in> set schemes \<Longrightarrow> segment seg \<Longrightarrow> address_language (scheme @ dot # seg)"
| more: "address_language s \<Longrightarrow> segment seg \<Longrightarrow> address_language (s @ dot # seg)"

lemma split_on_nonempty [simp]: "split_on d s \<noteq> []"
  by (induction s) (auto split: list.splits)

lemma split_on_append:
  "split_on d (s @ d # t) = split_on d s @ split_on d t"
proof (induction s)
  case (Cons c s)
  then show ?case by (cases "split_on d s") (auto split: list.splits)
qed simp

lemma split_on_no_dot: "d \<notin> set s \<Longrightarrow> split_on d s = [s]"
  by (induction s) auto

lemma segment_no_dot: "segment s \<Longrightarrow> dot \<notin> set s"
  by (auto simp: segment_def list_all_iff address_char_def dot_def Let_def)

lemma scheme_no_dot: "s \<in> set schemes \<Longrightarrow> dot \<notin> set s"
  by (auto simp: schemes_def js_def dot_def)

text \<open>\<open>join\<close> inverts the split.\<close>

fun join :: "code_unit \<Rightarrow> jsstring list \<Rightarrow> jsstring" where
  "join d [] = []"
| "join d [s] = s"
| "join d (s # ss) = s @ d # join d ss"

lemma join_split_on: "join d (split_on d s) = s"
proof (induction s)
  case (Cons c s)
  show ?case
  proof (cases "split_on d s")
    case (Cons h t)
    with Cons.IH show ?thesis by (cases t) auto
  qed simp
qed simp

lemma join_snoc: "ss \<noteq> [] \<Longrightarrow> join d (ss @ [s]) = join d ss @ d # s"
  by (induction d ss rule: join.induct) auto

lemma regex_join:
  "scheme \<in> set schemes \<Longrightarrow> segs \<noteq> [] \<Longrightarrow> list_all segment segs \<Longrightarrow> address_language (join dot (scheme # segs))"
proof (induction segs rule: rev_induct)
  case (snoc s segs)
  show ?case
  proof (cases segs)
    case Nil
    with snoc.prems show ?thesis by (simp add: address_language.first)
  next
    case Cons
    have "join dot (scheme # segs @ [s]) = join dot (scheme # segs) @ dot # s"
      using join_snoc [of "scheme # segs"] by simp
    moreover have "address_language (join dot (scheme # segs))" using snoc Cons by simp
    ultimately show ?thesis using address_language.more snoc.prems(3) by simp
  qed
qed simp

lemma ilp_address_regex_language: "ilp_address_regex s \<longleftrightarrow> address_language s"
proof
  assume "ilp_address_regex s"
  then obtain scheme segs where "split_on dot s = scheme # segs" "scheme \<in> set schemes"
      "segs \<noteq> []" "list_all segment segs"
    by (auto simp: ilp_address_regex_def split: list.splits)
  then show "address_language s" using regex_join join_split_on by metis
next
  assume "address_language s"
  then show "ilp_address_regex s"
  proof induction
    case (first scheme seg)
    then show ?case
      by (simp add: ilp_address_regex_def split_on_append split_on_no_dot segment_no_dot scheme_no_dot)
  next
    case (more s seg)
    then show ?case
      by (auto simp: ilp_address_regex_def split_on_append split_on_no_dot segment_no_dot
          split: list.splits)
  qed
qed

lemma valid_scheme: "ilp_address_regex s \<Longrightarrow> getScheme s \<in> set schemes"
  by (auto simp: ilp_address_regex_def getScheme_def split: list.splits)


section \<open>Addresses are ASCII\<close>

lemma ascii_split: "is_ascii s \<longleftrightarrow> list_all is_ascii (split_on dot s)"
proof (induction s)
  case (Cons c s)
  then show ?case
    by (cases "split_on dot s") (auto simp: is_ascii_def dot_def split: list.splits)
qed (simp add: is_ascii_def)

lemma segment_ascii: "segment s \<Longrightarrow> is_ascii s"
  by (auto simp: segment_def is_ascii_def list_all_iff address_char_def Let_def)

lemma schemes_ascii: "s \<in> set schemes \<Longrightarrow> is_ascii s"
  by (auto simp: schemes_def js_def is_ascii_def)

lemma valid_address_ascii: "isValidIlpAddress s \<Longrightarrow> is_ascii s"
  by (subst ascii_split)
    (auto simp: isValidIlpAddress_def ilp_address_regex_def schemes_ascii list_all_iff
      intro: segment_ascii split: list.splits)

lemma valid_address_length: "isValidIlpAddress s \<Longrightarrow> length s \<le> 1023"
  by (simp add: isValidIlpAddress_def ILP_ADDRESS_MAX_LENGTH_def)

end
