(* ===== verification/Ilp_Date.thy ===== *)
theory Ilp_Date
  imports Oer_Util
begin

text \<open>
  \<^verbatim>\<open>ilp-packet/src/utils/date.ts\<close>: the 17-digit Interledger timestamp.

  A valid \<open>Date\<close> is its time value, an integer number of milliseconds. The \<open>Date\<close>
  operations the code calls (\<open>getUTCFullYear\<close>, \<open>Date.UTC\<close>, ...) are the algorithms of the
  ECMAScript standard, and \<open>to_number\<close> is its conversion \<open>+s\<close> of a string to a number.
  A time value is clipped to \<open>8.64e15\<close>, below the range in which doubles lose precision.
\<close>

section \<open>Strings as numbers\<close>

definition white_space :: "code_unit \<Rightarrow> bool" where
  "white_space u \<longleftrightarrow>
     (let n = unat u
      in 9 \<le> n \<and> n \<le> 13 \<or> n \<in> {0x20, 0xA0, 0x1680} \<or> 0x2000 \<le> n \<and> n \<le> 0x200A
         \<or> n \<in> {0x2028, 0x2029, 0x202F, 0x205F, 0x3000, 0xFEFF})"

definition trim :: "jsstring \<Rightarrow> jsstring" where
  "trim s = rev (dropWhile white_space (rev (dropWhile white_space s)))"

definition ten_power :: "int \<Rightarrow> rat" where
  "ten_power e = (if 0 \<le> e then 10 ^ nat e else 1 / 10 ^ nat (- e))"

text \<open>An optional sign: \<open>(negative, rest)\<close>.\<close>

definition take_sign :: "jsstring \<Rightarrow> bool \<times> jsstring" where
  "take_sign s =
     (if s \<noteq> [] \<and> hd s = 45 then (True, tl s) else if s \<noteq> [] \<and> hd s = 43 then (False, tl s) else (False, s))"

definition exponent_part :: "jsstring \<Rightarrow> int option" where
  "exponent_part s =
     (if s = [] then Some 0
      else if hd s = 101 \<or> hd s = 69 then
        let (neg, ds) = take_sign (tl s)
        in if ds \<noteq> [] \<and> list_all is_digit ds
           then Some (if neg then - int (dec_value ds) else int (dec_value ds)) else None
      else None)"

definition unsigned_decimal :: "jsstring \<Rightarrow> rat option" where
  "unsigned_decimal s =
     (let ip = takeWhile is_digit s; r = dropWhile is_digit s;
          pt = r \<noteq> [] \<and> hd r = 46;
          fp = (if pt then takeWhile is_digit (tl r) else []);
          ex = (if pt then dropWhile is_digit (tl r) else r)
      in if ip = [] \<and> fp = [] then None
         else case exponent_part ex of
           None \<Rightarrow> None
         | Some e \<Rightarrow> Some (of_nat (dec_value (ip @ fp)) * ten_power (e - int (length fp))))"

definition radix_digit :: "code_unit \<Rightarrow> nat option" where
  "radix_digit u =
     (let n = unat u
      in if 48 \<le> n \<and> n \<le> 57 then Some (n - 48)
         else if 97 \<le> n \<and> n \<le> 102 then Some (n - 87)
         else if 65 \<le> n \<and> n \<le> 70 then Some (n - 55) else None)"

definition radix_value :: "nat \<Rightarrow> jsstring \<Rightarrow> jsnum" where
  "radix_value b s =
     (if s \<noteq> [] \<and> list_all (\<lambda>u. case radix_digit u of None \<Rightarrow> False | Some d \<Rightarrow> d < b) s
      then Num (of_nat (foldl (\<lambda>a u. a * b + the (radix_digit u)) 0 s)) else NaN)"

definition to_number :: "jsstring \<Rightarrow> jsnum" where
  "to_number str =
     (let s = trim str
      in if s = [] then Num 0
         else if 2 \<le> length s \<and> hd s = 48 \<and> s ! 1 \<in> {120, 88} then radix_value 16 (drop 2 s)
         else if 2 \<le> length s \<and> hd s = 48 \<and> s ! 1 \<in> {111, 79} then radix_value 8 (drop 2 s)
         else if 2 \<le> length s \<and> hd s = 48 \<and> s ! 1 \<in> {98, 66} then radix_value 2 (drop 2 s)
         else
           let (neg, u) = take_sign s
           in if u = js ''Infinity'' then (if neg then NegInfinity else Infinity)
              else case unsigned_decimal u of None \<Rightarrow> NaN | Some q \<Rightarrow> Num (if neg then - q else q))"

section \<open>The calendar of ECMAScript\<close>

definition msPerDay :: int where
  "msPerDay = 86400000"

definition DayFromYear :: "int \<Rightarrow> int" where
  "DayFromYear y = 365 * (y - 1970) + (y - 1969) div 4 - (y - 1901) div 100 + (y - 1601) div 400"

definition leap :: "int \<Rightarrow> bool" where
  "leap y \<longleftrightarrow> 4 dvd y \<and> (\<not> 100 dvd y \<or> 400 dvd y)"

lemma div_step:
  fixes a m :: int
  assumes "1 < m"
  shows "(a + 1) div m = a div m + (if m dvd a + 1 then 1 else 0)"
proof -
  let ?r = "a mod m"
  have r: "0 \<le> ?r" "?r < m" using assms by simp_all
  have a: "a + 1 = m * (a div m) + (?r + 1)" using mult_div_mod_eq [of m a] by linarith
  have split: "(a + 1) div m = a div m + (?r + 1) div m"
    by (subst a) (use assms in \<open>simp only: div_mult_self4\<close>)
  have dvd: "m dvd a + 1 \<longleftrightarrow> m dvd ?r + 1" by (simp only: dvd_eq_mod_eq_0 mod_add_left_eq)
  show ?thesis
  proof (cases "?r + 1 = m")
    case True
    with split dvd assms show ?thesis by simp
  next
    case False
    then have "(?r + 1) div m = 0" "\<not> m dvd ?r + 1"
      using r zdvd_not_zless [of "?r + 1" m] by auto
    with split dvd show ?thesis by simp
  qed
qed
lemma dvd_shift: "m dvd c \<Longrightarrow> m dvd y - c \<longleftrightarrow> m dvd y" for m :: int
  using dvd_add_left_iff [of m "- c" y] by simp
lemma DayFromYear_step: "DayFromYear (y + 1) = DayFromYear y + (if leap y then 366 else 365)"
proof -
  have shift: "y + 1 - 1969 = y - 1969 + 1" "y + 1 - 1901 = y - 1901 + 1" "y + 1 - 1601 = y - 1601 + 1"
    by simp_all
  have div4: "(y - 1969 + 1) div 4 = (y - 1969) div 4 + (if 4 dvd y then 1 else 0)"
    using div_step [of 4 "y - 1969"] dvd_shift [of 4 1968 y] by simp
  have div100: "(y - 1901 + 1) div 100 = (y - 1901) div 100 + (if 100 dvd y then 1 else 0)"
    using div_step [of 100 "y - 1901"] dvd_shift [of 100 1900 y] by simp
  have div400: "(y - 1601 + 1) div 400 = (y - 1601) div 400 + (if 400 dvd y then 1 else 0)"
    using div_step [of 400 "y - 1601"] dvd_shift [of 400 1600 y] by simp
  have dvd: "100 dvd y \<longrightarrow> 4 dvd y" "400 dvd y \<longrightarrow> 100 dvd y"
    using dvd_trans [of 4 100 y] dvd_trans [of 100 400 y] by simp_all
  have sum_eq: "365 * (y + 1 - 1970) + (a + (if P then 1 else 0)) - (b + (if Q then 1 else 0))
        + (c + (if R then 1 else 0))
      = 365 * (y - 1970) + a - b + c + (if P \<and> (\<not> Q \<or> R) then 366 else 365)"
    if "Q \<longrightarrow> P" "R \<longrightarrow> Q" for a b c :: int and P Q R
    using that by (cases P; cases Q; cases R) simp_all
  show ?thesis unfolding DayFromYear_def leap_def shift div4 div100 div400
    by (rule sum_eq [OF dvd])
qed

text \<open>The largest year that starts on or before a day, searched downwards from a bound.\<close>

function year_search :: "int \<Rightarrow> int \<Rightarrow> int" where
  "year_search y d = (if DayFromYear y \<le> d then y else year_search (y - 1) d)"
  by auto
termination
proof (relation "measure (\<lambda>(y, d). nat (DayFromYear y - d))")
  fix y d :: int
  assume "\<not> DayFromYear y \<le> d"
  then show "((y - 1, d), y, d) \<in> measure (\<lambda>(y, d). nat (DayFromYear y - d))"
    using DayFromYear_step [of "y - 1"] by (simp split: if_splits)
qed simp

declare year_search.simps [simp del]

definition YearFromDay :: "int \<Rightarrow> int" where
  "YearFromDay d = year_search (1970 + d div (if 0 \<le> d then 365 else 366)) d"

definition month_starts :: "bool \<Rightarrow> int list" where
  "month_starts lp =
     (let l = (if lp then 1 else 0)
      in [0, 31, 59 + l, 90 + l, 120 + l, 151 + l, 181 + l, 212 + l, 243 + l, 273 + l, 304 + l, 334 + l])"

type_synonym date = int

definition getUTCFullYear :: "date \<Rightarrow> int" where
  "getUTCFullYear t = YearFromDay (t div msPerDay)"

definition DayWithinYear :: "date \<Rightarrow> int" where
  "DayWithinYear t = t div msPerDay - DayFromYear (getUTCFullYear t)"

definition getUTCMonth :: "date \<Rightarrow> nat" where
  "getUTCMonth t =
     length (filter (\<lambda>c. c \<le> DayWithinYear t) (tl (month_starts (leap (getUTCFullYear t)))))"

definition getUTCDate :: "date \<Rightarrow> int" where
  "getUTCDate t = DayWithinYear t - month_starts (leap (getUTCFullYear t)) ! getUTCMonth t + 1"

definition getUTCHours :: "date \<Rightarrow> int" where "getUTCHours t = t div 3600000 mod 24"
definition getUTCMinutes :: "date \<Rightarrow> int" where "getUTCMinutes t = t div 60000 mod 60"
definition getUTCSeconds :: "date \<Rightarrow> int" where "getUTCSeconds t = t div 1000 mod 60"
definition getUTCMilliseconds :: "date \<Rightarrow> int" where "getUTCMilliseconds t = t mod 1000"

definition rat_trunc :: "rat \<Rightarrow> int" where
  "rat_trunc r = (if 0 \<le> r then \<lfloor>r\<rfloor> else \<lceil>r\<rceil>)"

definition MakeDate :: "int \<Rightarrow> int \<Rightarrow> int \<Rightarrow> int \<Rightarrow> int \<Rightarrow> int \<Rightarrow> int \<Rightarrow> int" where
  "MakeDate y m dt h mi s ms =
     (let ym = y + m div 12;
          day = DayFromYear ym + month_starts (leap ym) ! nat (m mod 12) + dt - 1
      in day * msPerDay + (h * 3600000 + mi * 60000 + s * 1000 + ms))"

definition TimeClip :: "int \<Rightarrow> date option" where
  "TimeClip t = (if \<bar>t\<bar> \<le> 8640000000000000 then Some t else None)"

text \<open>\<open>None\<close> is the invalid date, whose time value is \<open>NaN\<close>.\<close>

fun Date_UTC :: "jsnum \<Rightarrow> jsnum \<Rightarrow> jsnum \<Rightarrow> jsnum \<Rightarrow> jsnum \<Rightarrow> jsnum \<Rightarrow> jsnum \<Rightarrow> date option" where
  "Date_UTC (Num y) (Num m) (Num dt) (Num h) (Num mi) (Num s) (Num ms) =
     (let yi = rat_trunc y; yr = (if 0 \<le> yi \<and> yi \<le> 99 then 1900 + yi else yi)
      in TimeClip (MakeDate yr (rat_trunc m) (rat_trunc dt) (rat_trunc h) (rat_trunc mi)
           (rat_trunc s) (rat_trunc ms)))"
| "Date_UTC _ _ _ _ _ _ _ = None"

section \<open>Interledger time\<close>

definition pad :: "int \<Rightarrow> jsstring" where
  "pad n = (if n < 10 then js ''0'' @ dec_of_int n else dec_of_int n)"

text \<open>\<open>(ms / 1000).toFixed(3).slice(2, 5)\<close>: the three decimals of a fraction below one.\<close>

definition fixed_decimals :: "int \<Rightarrow> jsstring" where
  "fixed_decimals ms = [digit (nat ms div 100), digit (nat ms div 10 mod 10), digit (nat ms mod 10)]"

definition dateToInterledgerTime :: "date \<Rightarrow> jsstring" where
  "dateToInterledgerTime t =
     dec_of_int (getUTCFullYear t) @ pad (int (getUTCMonth t) + 1) @ pad (getUTCDate t)
     @ pad (getUTCHours t) @ pad (getUTCMinutes t) @ pad (getUTCSeconds t)
     @ fixed_decimals (getUTCMilliseconds t)"

definition INTERLEDGER_TIME_LENGTH :: nat where
  "INTERLEDGER_TIME_LENGTH = 17"

fun minus_one :: "jsnum \<Rightarrow> jsnum" where
  "minus_one (Num r) = Num (r - 1)"
| "minus_one x = x"

definition interledgerTimeToDate :: "jsstring \<Rightarrow> date result" where
  "interledgerTimeToDate str =
     (let field = (\<lambda>i j. to_number (slice i (j - i) str))
      in case Date_UTC (field 0 4) (minus_one (field 4 6)) (field 6 8) (field 8 10)
                (field 10 12) (field 12 14) (field 14 17) of
           None \<Rightarrow> Inl (Error ''invalid date'')
         | Some t \<Rightarrow> if t = 0 then Inl (Error ''invalid date'') else Inr t)"

section \<open>The timestamp round trip\<close>

lemma digit_not_special:
  assumes "is_digit u"
  shows "\<not> white_space u" "u \<notin> {120, 88}" "u \<notin> {111, 79}" "u \<notin> {98, 66}" "u \<noteq> 45" "u \<noteq> 43" "u \<noteq> 73"
  using assms by (auto simp: is_digit_def white_space_def Let_def)

lemma trim_digits: "list_all is_digit s \<Longrightarrow> trim s = s"
proof -
  have *: "dropWhile white_space r = r" if "list_all is_digit r" for r
    using that digit_not_special(1) by (cases r) auto
  assume "list_all is_digit s"
  then show ?thesis using * [of s] * [of "rev s"] by (simp add: trim_def)
qed

lemma to_number_digits:
  assumes s: "list_all is_digit s" and ne: "s \<noteq> []"
  shows "to_number s = Num (of_nat (dec_value s))"
proof -
  have radix: "\<not> (2 \<le> length s \<and> hd s = 48 \<and> s ! 1 \<in> X)" if "X \<in> {{120, 88}, {111, 79}, {98, 66}}" for X
  proof
    assume "2 \<le> length s \<and> hd s = 48 \<and> s ! 1 \<in> X"
    moreover have "is_digit (s ! 1)" if "2 \<le> length s" using that s by (simp add: list_all_length)
    ultimately show False using that digit_not_special(2-4) [of "s ! 1"] by blast
  qed
  have hd: "is_digit (hd s)" using s ne by (cases s) auto
  then have sign: "take_sign s = (False, s)" using digit_not_special(5,6) by (simp add: take_sign_def)
  have inf: "s \<noteq> js ''Infinity''"
    using hd digit_not_special(7) [of "hd s"] by (auto simp: js_def)
  have whole: "takeWhile is_digit s = s" "dropWhile is_digit s = []"
    using s by (simp_all add: list_all_iff)
  have dec: "unsigned_decimal s = Some (of_nat (dec_value s))"
    using ne by (simp add: unsigned_decimal_def whole exponent_part_def ten_power_def)
  show ?thesis using ne sign inf dec radix [of "{120, 88}"] radix [of "{111, 79}"] radix [of "{98, 66}"]
    unfolding to_number_def trim_digits [OF s] Let_def by (simp only: simp_thms if_False case_prod_conv option.case) auto
qed

lemma DayFromYear_mono: "y \<le> z \<Longrightarrow> DayFromYear y + (z - y) \<le> DayFromYear z"
proof (induction "nat (z - y)" arbitrary: z)
  case (Suc n)
  then have "DayFromYear y + (z - 1 - y) \<le> DayFromYear (z - 1)" by simp
  then show ?case using DayFromYear_step [of "z - 1"] by (simp split: if_splits)
qed simp

lemma DayFromYear_above: "365 * int k \<le> DayFromYear (1970 + int k)"
proof (induction k)
  case (Suc k)
  then show ?case using DayFromYear_step [of "1970 + int k"] by (simp add: algebra_simps split: if_splits)
qed (simp add: DayFromYear_def)

lemma DayFromYear_below: "- (366 * int k) \<le> DayFromYear (1970 - int k)"
proof (induction k)
  case (Suc k)
  then show ?case using DayFromYear_step [of "1970 - int k - 1"] by (simp add: algebra_simps split: if_splits)
qed (simp add: DayFromYear_def)

lemma year_search_correct:
  "d < DayFromYear (y + 1) \<Longrightarrow>
   DayFromYear (year_search y d) \<le> d \<and> d < DayFromYear (year_search y d + 1)"
proof (induction y d rule: year_search.induct)
  case (1 y d)
  then show ?case by (cases "DayFromYear y \<le> d") (simp_all add: year_search.simps [of y d])
qed

lemma YearFromDay_correct: "DayFromYear (YearFromDay d) \<le> d \<and> d < DayFromYear (YearFromDay d + 1)"
  unfolding YearFromDay_def
proof (rule year_search_correct)
  show "d < DayFromYear (1970 + d div (if 0 \<le> d then 365 else 366) + 1)"
  proof (cases "0 \<le> d")
    case True
    let ?k = "nat (d div 365 + 1)"
    have "0 \<le> d div 365" using True by simp
    then have "int ?k = d div 365 + 1" by simp
    moreover have "d < 365 * (d div 365 + 1)" by simp
    ultimately show ?thesis using DayFromYear_above [of ?k] True by (simp add: algebra_simps)
  next
    case False
    have "d div 366 < 0" using False by (simp add: neg_imp_zdiv_neg_iff)
    then have "0 \<le> - (d div 366) - 1" by simp
    then obtain k where k: "- (d div 366) - 1 = int k" by (rule nonneg_int_cases)
    have "d < 366 * (d div 366 + 1)" by simp
    also have "\<dots> = - (366 * int k)" unfolding k [symmetric] by simp
    also have "\<dots> \<le> DayFromYear (1970 - int k)" by (rule DayFromYear_below)
    also have "1970 - int k = 1970 + d div 366 + 1" unfolding k [symmetric] by simp
    finally show ?thesis using False by simp
  qed
qed

lemma count_below:
  fixes d :: int
  assumes "sorted xs" "d < b" "xs \<noteq> []" "hd xs \<le> d"
  shows "let m = length (filter (\<lambda>c. c \<le> d) (tl xs))
         in m < length xs \<and> xs ! m \<le> d \<and> d < (xs @ [b]) ! Suc m"
  using assms
proof (induction xs)
  case (Cons x xs)
  show ?case
  proof (cases xs)
    case (Cons y ys)
    show ?thesis
    proof (cases "y \<le> d")
      case True
      then show ?thesis using Cons.IH Cons.prems Cons by (simp add: Let_def)
    next
      case False
      then have "filter (\<lambda>c. c \<le> d) ys = []" using Cons.prems Cons by (auto simp: filter_empty_conv)
      with False Cons.prems Cons show ?thesis by simp
    qed
  qed (use Cons in simp)
qed simp

lemma month_lengths:
  assumes "m < 12"
  shows "(month_starts lp @ [if lp then 366 else 365]) ! Suc m - month_starts lp ! m \<le> 31"
proof -
  have "list_all (\<lambda>m. (month_starts lp @ [if lp then 366 else 365]) ! Suc m - month_starts lp ! m \<le> 31) [0..<12]"
    by (cases lp) (simp_all add: month_starts_def upt_rec)
  with assms show ?thesis by (simp add: list_all_iff)
qed

lemma month_starts_step:
  assumes "0 \<le> d" "d < (if lp then 366 else 365)"
    and "m = length (filter (\<lambda>c. c \<le> d) (tl (month_starts lp)))"
  shows "m < 12" "month_starts lp ! m \<le> d" "d - month_starts lp ! m < 31"
proof -
  have "sorted (month_starts lp)" "hd (month_starts lp) = 0" "length (month_starts lp) = 12"
    by (simp_all add: month_starts_def Let_def)
  then have "m < 12 \<and> month_starts lp ! m \<le> d \<and> d < (month_starts lp @ [if lp then 366 else 365]) ! Suc m"
    using count_below [of "month_starts lp" d "if lp then 366 else 365"] assms
    by (auto simp: Let_def simp flip: length_0_conv)
  then show "m < 12" "month_starts lp ! m \<le> d" "d - month_starts lp ! m < 31"
    using month_lengths [of m lp] by linarith+
qed

lemma month_day:
  "getUTCMonth t < 12" "1 \<le> getUTCDate t" "getUTCDate t \<le> 31"
proof -
  let ?y = "getUTCFullYear t"
  have "0 \<le> DayWithinYear t" "DayWithinYear t < (if leap ?y then 366 else 365)"
    using YearFromDay_correct [of "t div msPerDay"] DayFromYear_step [of ?y]
    by (auto simp: DayWithinYear_def getUTCFullYear_def)
  from month_starts_step [OF this refl]
  show "getUTCMonth t < 12" "1 \<le> getUTCDate t" "getUTCDate t \<le> 31"
    by (simp_all add: getUTCMonth_def getUTCDate_def)
qed

lemma time_split:
  "getUTCHours t * 3600000 + getUTCMinutes t * 60000 + getUTCSeconds t * 1000 + getUTCMilliseconds t
   = t mod msPerDay"
proof -
  have h: "t mod 86400000 = 3600000 * (t div 3600000 mod 24) + t mod 3600000"
    using zmod_zmult2_eq [of 24 t 3600000] by simp
  have m: "t mod 3600000 = 60000 * (t div 60000 mod 60) + t mod 60000"
    using zmod_zmult2_eq [of 60 t 60000] by simp
  have s: "t mod 60000 = 1000 * (t div 1000 mod 60) + t mod 1000"
    using zmod_zmult2_eq [of 60 t 1000] by simp
  show ?thesis
    unfolding getUTCHours_def getUTCMinutes_def getUTCSeconds_def getUTCMilliseconds_def msPerDay_def h m s
    by (simp only: ac_simps)
qed

lemma MakeDate_fields:
  "MakeDate (getUTCFullYear t) (int (getUTCMonth t)) (getUTCDate t) (getUTCHours t)
     (getUTCMinutes t) (getUTCSeconds t) (getUTCMilliseconds t) = t"
  using month_day(1) [of t] time_split [of t]
  by (simp add: MakeDate_def Let_def getUTCDate_def DayWithinYear_def)

text \<open>Fixed-width decimal fields.\<close>

definition is_field :: "nat \<Rightarrow> int \<Rightarrow> jsstring \<Rightarrow> bool" where
  "is_field k n s \<longleftrightarrow> length s = k \<and> list_all is_digit s \<and> int (dec_value s) = n"

lemma field_number: "is_field k n s \<Longrightarrow> 0 < k \<Longrightarrow> to_number s = Num (of_int n)"
  by (auto simp: is_field_def to_number_digits)

lemma dec_value_list:
  "dec_value [a] = unat a - 48"
  "dec_value [a, b] = (unat a - 48) * 10 + (unat b - 48)"
  "dec_value [a, b, c] = ((unat a - 48) * 10 + (unat b - 48)) * 10 + (unat c - 48)"
  by (simp_all add: dec_value_def)

lemma is_field_pad:
  assumes "0 \<le> n" "n < 100"
  shows "is_field 2 n (pad n)"
proof (cases "n < 10")
  case True
  moreover have "js ''0'' = [digit 0]" by (simp add: js_def digit_def)
  ultimately show ?thesis using assms
    by (simp add: pad_def dec_of_int_def dec_of_nat.simps [of "nat n"] is_field_def dec_value_list
        unat_digit is_digit_digit)
next
  case False
  then have "nat n div 10 < 10" using assms by (simp add: div_less_iff_less_mult)
  with False assms show ?thesis
    by (simp add: pad_def dec_of_int_def dec_of_nat.simps [of "nat n"] dec_of_nat.simps [of "nat n div 10"]
        is_field_def dec_value_list unat_digit is_digit_digit)
qed

lemma is_field_millis:
  assumes "0 \<le> n" "n < 1000"
  shows "is_field 3 n (fixed_decimals n)"
proof -
  have "nat n div 100 < 10" using assms by (simp add: div_less_iff_less_mult)
  moreover have "(nat n div 100 * 10 + nat n div 10 mod 10) * 10 + nat n mod 10 = nat n"
    using div_mult_mod_eq [of "nat n" 10] div_mult_mod_eq [of "nat n div 10" 10] by (simp flip: div_mult2_eq)
  ultimately show ?thesis using assms
    by (simp add: fixed_decimals_def is_field_def dec_value_list unat_digit is_digit_digit)
qed

lemma is_field_year:
  assumes "1000 \<le> n" "n < 10000"
  shows "is_field 4 n (dec_of_int n)"
proof -
  let ?n = "nat n"
  have "\<not> ?n < 10" "\<not> ?n div 10 < 10" "\<not> ?n div 100 < 10" "?n div 1000 < 10"
    using assms by (auto simp: div_less_iff_less_mult)
  then have "length (dec_of_nat ?n) = 4"
    by (simp add: dec_of_nat.simps [of ?n] dec_of_nat.simps [of "?n div 10"]
        dec_of_nat.simps [of "?n div 100"] dec_of_nat.simps [of "?n div 1000"] flip: div_mult2_eq)
  with assms show ?thesis by (simp add: is_field_def dec_of_int_def dec_of_nat_digits)
qed

lemma slice_fields:
  assumes "length y = 4" "length mo = 2" "length d = 2" "length h = 2" "length mi = 2" "length s = 2" "length ms = 3"
  shows "slice 0 4 (y @ mo @ d @ h @ mi @ s @ ms) = y" "slice 4 2 (y @ mo @ d @ h @ mi @ s @ ms) = mo"
    "slice 6 2 (y @ mo @ d @ h @ mi @ s @ ms) = d" "slice 8 2 (y @ mo @ d @ h @ mi @ s @ ms) = h"
    "slice 10 2 (y @ mo @ d @ h @ mi @ s @ ms) = mi" "slice 12 2 (y @ mo @ d @ h @ mi @ s @ ms) = s"
    "slice 14 3 (y @ mo @ d @ h @ mi @ s @ ms) = ms"
  using assms by (simp_all add: slice_def)

lemma rat_trunc_int [simp]: "rat_trunc (of_int i) = i"
  by (simp add: rat_trunc_def)

lemma time_fields_bounds:
  "0 \<le> getUTCHours t" "getUTCHours t < 100" "0 \<le> getUTCMinutes t" "getUTCMinutes t < 100"
  "0 \<le> getUTCSeconds t" "getUTCSeconds t < 100" "0 \<le> getUTCMilliseconds t" "getUTCMilliseconds t < 1000"
proof -
  have "t div 3600000 mod 24 < 24" "t div 60000 mod 60 < 60" "t div 1000 mod 60 < 60" by simp_all
  then show "0 \<le> getUTCHours t" "getUTCHours t < 100" "0 \<le> getUTCMinutes t" "getUTCMinutes t < 100"
    "0 \<le> getUTCSeconds t" "getUTCSeconds t < 100" "0 \<le> getUTCMilliseconds t" "getUTCMilliseconds t < 1000"
    unfolding getUTCHours_def getUTCMinutes_def getUTCSeconds_def getUTCMilliseconds_def by simp_all
qed

text \<open>The years that print with four digits.\<close>

definition four_digit_date :: "date \<Rightarrow> bool" where
  "four_digit_date t \<longleftrightarrow> 1000 \<le> getUTCFullYear t \<and> getUTCFullYear t < 10000"

lemma timestamp_fields:
  assumes "four_digit_date t"
  shows "is_field 4 (getUTCFullYear t) (dec_of_int (getUTCFullYear t))"
    "is_field 2 (int (getUTCMonth t) + 1) (pad (int (getUTCMonth t) + 1))"
    "is_field 2 (getUTCDate t) (pad (getUTCDate t))"
    "is_field 2 (getUTCHours t) (pad (getUTCHours t))"
    "is_field 2 (getUTCMinutes t) (pad (getUTCMinutes t))"
    "is_field 2 (getUTCSeconds t) (pad (getUTCSeconds t))"
    "is_field 3 (getUTCMilliseconds t) (fixed_decimals (getUTCMilliseconds t))"
  using assms month_day [of t] time_fields_bounds [of t]
  by (simp_all add: is_field_year is_field_pad is_field_millis four_digit_date_def)

lemma is_field_length: "is_field k n s \<Longrightarrow> length s = k"
  by (simp add: is_field_def)

lemma dateToInterledgerTime_length: "four_digit_date t \<Longrightarrow> length (dateToInterledgerTime t) = 17"
  using timestamp_fields [of t] by (simp add: dateToInterledgerTime_def is_field_def)

lemma dateToInterledgerTime_ascii: "four_digit_date t \<Longrightarrow> is_ascii (dateToInterledgerTime t)"
  using timestamp_fields [of t]
  by (auto simp: dateToInterledgerTime_def is_field_def is_ascii_def list_all_iff is_digit_def)

lemma DayFromYear_10000: "DayFromYear 10000 = 2932897"
  by (simp add: DayFromYear_def)

lemma DayFromYear_1000: "DayFromYear 1000 = - 354285"
  by (simp add: DayFromYear_def)

lemma four_digit_range:
  assumes "four_digit_date t"
  shows "\<bar>t\<bar> \<le> 8640000000000000"
proof -
  let ?d = "t div msPerDay"
  have "DayFromYear 1000 \<le> ?d"
    using assms YearFromDay_correct [of ?d] DayFromYear_mono [of 1000 "getUTCFullYear t"]
    by (simp add: four_digit_date_def getUTCFullYear_def)
  moreover have "?d < DayFromYear 10000"
    using assms YearFromDay_correct [of ?d] DayFromYear_mono [of "getUTCFullYear t + 1" 10000]
    by (simp add: four_digit_date_def getUTCFullYear_def)
  moreover have "msPerDay * ?d \<le> t" "t < msPerDay * ?d + msPerDay"
    using pos_mod_bound [of msPerDay t] pos_mod_sign [of msPerDay t] mult_div_mod_eq [of msPerDay t]
    by (simp_all only: msPerDay_def zero_less_numeral simp_thms)
  ultimately show ?thesis unfolding DayFromYear_10000 DayFromYear_1000 msPerDay_def by simp
qed

lemma interledgerTime_roundtrip:
  assumes t: "four_digit_date t" and "t \<noteq> 0"
  shows "interledgerTimeToDate (dateToInterledgerTime t) = Inr t"
proof -
  note f = timestamp_fields [OF t]
  note sl = slice_fields [OF f [THEN is_field_length]]
  note nums = f [THEN field_number]
  have "Date_UTC (Num (of_int (getUTCFullYear t))) (Num (of_int (int (getUTCMonth t))))
      (Num (of_int (getUTCDate t))) (Num (of_int (getUTCHours t))) (Num (of_int (getUTCMinutes t)))
      (Num (of_int (getUTCSeconds t))) (Num (of_int (getUTCMilliseconds t))) = Some t"
    using t MakeDate_fields [of t] four_digit_range [OF t]
    by (simp only: Date_UTC.simps rat_trunc_int Let_def) (simp add: TimeClip_def four_digit_date_def)
  then show ?thesis using assms(2)
    unfolding interledgerTimeToDate_def dateToInterledgerTime_def Let_def
    by (simp add: sl nums)
qed

end
