(* ===== verification/Ilp_Packet.thy ===== *)
theory Ilp_Packet
  imports Oer_Predictor Ilp_Address Ilp_Date
begin

text \<open>
  \<^verbatim>\<open>ilp-packet/src/index.ts\<close> and \<^verbatim>\<open>ilp-packet/src/errors.ts\<close>: ILPv4 Prepare, Fulfill and
  Reject packets.

  The records have the fields of the interfaces, so the assertions of the serializers
  that test the type of a field hold by construction and the ones that test its value remain.
  The main results are the round trips, which also show that the size computed
  ahead is the size written (the writer is strict), and that whatever the deserializers accept
  satisfies the type guards \<open>isPrepare\<close>, \<open>isFulfill\<close> and \<open>isReject\<close>.
\<close>

record IlpPrepare =
  prep_amount :: jsstring
  executionCondition :: buffer
  expiresAt :: date
  destination :: jsstring
  prep_data :: buffer

record IlpFulfill =
  fulfillment :: buffer
  fulfill_data :: buffer

record IlpReject =
  rej_code :: jsstring
  triggeredBy :: jsstring
  rej_message :: jsstring
  rej_data :: buffer

datatype IlpPacketType = Prepare | Fulfill | Reject

fun type_byte :: "IlpPacketType \<Rightarrow> nat" where
  "type_byte Prepare = 12"
| "type_byte Fulfill = 13"
| "type_byte Reject = 14"

section \<open>Type guards\<close>

text \<open>
  \<open>Long.fromString(o, true).toString() === o\<close>: the printed value is a decimal numeral, so
  strings of other characters never compare equal.
\<close>

definition isUInt64 :: "jsstring \<Rightarrow> bool" where
  "isUInt64 s \<longleftrightarrow> s \<noteq> [] \<and> list_all is_digit s \<and> long_toString (long_fromDecimal s True) = s"

definition isPrepare :: "IlpPrepare \<Rightarrow> bool" where
  "isPrepare p \<longleftrightarrow> isUInt64 (prep_amount p) \<and> isValidIlpAddress (destination p)
     \<and> length (executionCondition p) = 32"

definition isFulfill :: "IlpFulfill \<Rightarrow> bool" where
  "isFulfill f \<longleftrightarrow> length (fulfillment f) = 32"

definition isReject :: "IlpReject \<Rightarrow> bool" where
  "isReject r \<longleftrightarrow> isValidIlpAddress (triggeredBy r) \<or> triggeredBy r = []"

section \<open>Envelope\<close>

definition deserializeEnvelope :: "buffer \<Rightarrow> (nat \<times> buffer) result" where
  "deserializeEnvelope binary =
     run_reader (rbind readUInt8Number (\<lambda>type.
       rbind readVarOctetString (\<lambda>contents. rret (type, contents)))) binary"

text \<open>The common tail of the serializers: a strict writer of the predicted size.\<close>

definition write_envelope ::
  "IlpPacketType \<Rightarrow> int \<Rightarrow> (writer \<Rightarrow> writer result) \<Rightarrow> buffer result" where
  "write_envelope ty contentSize body =
     (let envelopeSize = 1 + measureVarOctetString contentSize
      in written (\<lambda>w. ebind (writeUInt (num (int (type_byte ty))) 1 w)
                       (createVarOctetString contentSize body))
           (new_writer_capacity (nat envelopeSize)))"

definition read_envelope :: "IlpPacketType \<Rightarrow> 'a rd \<Rightarrow> buffer \<Rightarrow> 'a result" where
  "read_envelope ty p binary = ebind (deserializeEnvelope binary) (\<lambda>(type, contents).
     if type \<noteq> type_byte ty then Inl (Error ''Packet has incorrect type'')
     else run_reader p contents)"

section \<open>Prepare\<close>

definition serializeIlpPrepare :: "IlpPrepare \<Rightarrow> buffer result" where
  "serializeIlpPrepare json =
     (if prep_amount json = [] then Inl (AssertionError ''amount must be a string'')
      else if length (executionCondition json) \<noteq> 32
      then Inl (AssertionError ''executionCondition must be a 32-byte buffer'')
      else
        let expires = ascii_encode (dateToInterledgerTime (expiresAt json));
            dest = ascii_encode (destination json);
            contentSize = 8 + int INTERLEDGER_TIME_LENGTH + 32
              + measureVarOctetString (int (length dest))
              + measureVarOctetString (int (length (prep_data json)))
        in write_envelope Prepare contentSize (\<lambda>c.
             ebind (writeUInt (StrV (prep_amount json)) 8 c) (\<lambda>c.
             ebind (write_bytes expires c) (\<lambda>c.
             ebind (write_bytes (executionCondition json) c) (\<lambda>c.
             ebind (writeVarOctetString dest c)
               (writeVarOctetString (prep_data json)))))))"

definition read_prepare :: "IlpPrepare rd" where
  "read_prepare =
     rbind readUInt64 (\<lambda>am.
     rbind (read INTERLEDGER_TIME_LENGTH) (\<lambda>time.
     rbind (rlift (interledgerTimeToDate (ascii_decode time))) (\<lambda>expires.
     rbind (read 32) (\<lambda>condition.
     rbind readVarOctetString (\<lambda>dest.
     if \<not> isValidIlpAddress (ascii_decode dest)
     then rthrow (Error ''Packet has invalid destination address'')
     else rbind readVarOctetString (\<lambda>d.
       rret \<lparr>prep_amount = am, executionCondition = condition, expiresAt = expires,
             destination = ascii_decode dest, prep_data = d\<rparr>))))))"

definition deserializeIlpPrepare :: "buffer \<Rightarrow> IlpPrepare result" where
  "deserializeIlpPrepare = read_envelope Prepare read_prepare"

section \<open>Fulfill\<close>

definition serializeIlpFulfill :: "IlpFulfill \<Rightarrow> buffer result" where
  "serializeIlpFulfill json =
     (if length (fulfillment json) \<noteq> 32
      then Inl (AssertionError ''fulfillment must be a 32-byte buffer'')
      else write_envelope Fulfill (32 + measureVarOctetString (int (length (fulfill_data json))))
        (\<lambda>c. ebind (write_bytes (fulfillment json) c) (writeVarOctetString (fulfill_data json))))"

definition read_fulfill :: "IlpFulfill rd" where
  "read_fulfill =
     rbind (read 32) (\<lambda>f. rbind readVarOctetString (\<lambda>d. rret \<lparr>fulfillment = f, fulfill_data = d\<rparr>))"

definition deserializeIlpFulfill :: "buffer \<Rightarrow> IlpFulfill result" where
  "deserializeIlpFulfill = read_envelope Fulfill read_fulfill"

section \<open>Reject\<close>

definition ILP_ERROR_CODE_LENGTH :: nat where
  "ILP_ERROR_CODE_LENGTH = 3"

definition serializeIlpReject :: "IlpReject \<Rightarrow> buffer result" where
  "serializeIlpReject json =
     (if rej_code json = [] then Inl (AssertionError ''code must be a string'')
      else
        let codeBuffer = ascii_encode (rej_code json)
        in if length codeBuffer \<noteq> ILP_ERROR_CODE_LENGTH
           then Inl (Error ''ILP error codes must be three bytes long'')
           else
             let trig = ascii_encode (triggeredBy json);
                 message = utf8_encode (rej_message json);
                 contentSize = int ILP_ERROR_CODE_LENGTH
                   + measureVarOctetString (int (length trig))
                   + measureVarOctetString (int (length message))
                   + measureVarOctetString (int (length (rej_data json)))
             in write_envelope Reject contentSize (\<lambda>c.
                  ebind (write_bytes codeBuffer c) (\<lambda>c.
                  ebind (writeVarOctetString trig c) (\<lambda>c.
                  ebind (writeVarOctetString message c)
                    (writeVarOctetString (rej_data json))))))"

definition read_reject :: "IlpReject rd" where
  "read_reject =
     rbind (read ILP_ERROR_CODE_LENGTH) (\<lambda>code.
     rbind readVarOctetString (\<lambda>trig.
     if \<not> isValidIlpAddress (ascii_decode trig) \<and> ascii_decode trig \<noteq> []
     then rthrow (Error ''Invalid triggeredBy ILP address'')
     else rbind readVarOctetString (\<lambda>message.
          rbind readVarOctetString (\<lambda>d.
            rret \<lparr>rej_code = ascii_decode code, triggeredBy = ascii_decode trig,
                  rej_message = utf8_decode message, rej_data = d\<rparr>))))"

definition deserializeIlpReject :: "buffer \<Rightarrow> IlpReject result" where
  "deserializeIlpReject = read_envelope Reject read_reject"

section \<open>Any packet, replies\<close>

datatype IlpPacket = PreparePacket IlpPrepare | FulfillPacket IlpFulfill | RejectPacket IlpReject

fun serializeIlpPacket :: "IlpPacket \<Rightarrow> buffer result" where
  "serializeIlpPacket (PreparePacket p) = serializeIlpPrepare p"
| "serializeIlpPacket (FulfillPacket f) = serializeIlpFulfill f"
| "serializeIlpPacket (RejectPacket r) = serializeIlpReject r"

text \<open>\<open>binary[0]\<close> is \<open>undefined\<close> for an empty buffer.\<close>

definition first_byte :: "buffer \<Rightarrow> nat option" where
  "first_byte bs = (case bs of [] \<Rightarrow> None | b # _ \<Rightarrow> Some (unat b))"

definition deserializeIlpPacket :: "buffer \<Rightarrow> IlpPacket result" where
  "deserializeIlpPacket binary =
     (if first_byte binary = Some (type_byte Prepare)
      then ebind (deserializeIlpPrepare binary) (Inr \<circ> PreparePacket)
      else if first_byte binary = Some (type_byte Fulfill)
      then ebind (deserializeIlpFulfill binary) (Inr \<circ> FulfillPacket)
      else if first_byte binary = Some (type_byte Reject)
      then ebind (deserializeIlpReject binary) (Inr \<circ> RejectPacket)
      else Inl (Error ''Packet has invalid type''))"

datatype IlpReply = FulfillReply IlpFulfill | RejectReply IlpReject

definition deserializeIlpReply :: "buffer \<Rightarrow> IlpReply result" where
  "deserializeIlpReply binary =
     (if first_byte binary = Some (type_byte Fulfill)
      then ebind (deserializeIlpFulfill binary) (Inr \<circ> FulfillReply)
      else ebind (deserializeIlpReject binary) (Inr \<circ> RejectReply))"

text \<open>A fulfill that fails its guard goes to \<open>serializeIlpReject\<close>, whose first assertion fails on it.\<close>

fun serializeIlpReply :: "IlpReply \<Rightarrow> buffer result" where
  "serializeIlpReply (FulfillReply f) =
     (if isFulfill f then serializeIlpFulfill f else Inl (AssertionError ''code must be a string''))"
| "serializeIlpReply (RejectReply r) = serializeIlpReject r"

section \<open>Errors\<close>

record IlpErrorClass =
  err_message :: jsstring
  ilpErrorCode :: "jsstring option"
  ilpErrorData :: "buffer option"

definition errorToIlpReject :: "jsstring \<Rightarrow> IlpErrorClass \<Rightarrow> IlpReject" where
  "errorToIlpReject address error =
     \<lparr>rej_code = (case ilpErrorCode error of
          None \<Rightarrow> js ''F00'' | Some c \<Rightarrow> if c = [] then js ''F00'' else c),
      triggeredBy = address, rej_message = err_message error,
      rej_data = (case ilpErrorData error of None \<Rightarrow> [] | Some d \<Rightarrow> d)\<rparr>"

definition errorToReject :: "jsstring \<Rightarrow> IlpErrorClass \<Rightarrow> buffer result" where
  "errorToReject address error = serializeIlpReject (errorToIlpReject address error)"

datatype error_class =
    BadRequestError | InvalidPacketError | UnreachableError | InvalidAmountError
  | InsufficientDestinationAmountError | WrongConditionError | UnexpectedPaymentError
  | CannotReceiveError | AmountTooLargeError | FinalApplicationError | InternalError
  | PeerUnreachableError | PeerBusyError | ConnectorBusyError | InsufficientLiquidityError
  | RateLimitedError | TemporaryApplicationError | TransferTimedOutError
  | InsufficientSourceAmountError | InsufficientTimeoutError | RelativeApplicationError

fun error_code :: "error_class \<Rightarrow> jsstring" where
  "error_code BadRequestError = js ''F00''"
| "error_code InvalidPacketError = js ''F01''"
| "error_code UnreachableError = js ''F02''"
| "error_code InvalidAmountError = js ''F03''"
| "error_code InsufficientDestinationAmountError = js ''F04''"
| "error_code WrongConditionError = js ''F05''"
| "error_code UnexpectedPaymentError = js ''F06''"
| "error_code CannotReceiveError = js ''F07''"
| "error_code AmountTooLargeError = js ''F08''"
| "error_code FinalApplicationError = js ''F99''"
| "error_code InternalError = js ''T00''"
| "error_code PeerUnreachableError = js ''T01''"
| "error_code PeerBusyError = js ''T02''"
| "error_code ConnectorBusyError = js ''T03''"
| "error_code InsufficientLiquidityError = js ''T04''"
| "error_code RateLimitedError = js ''T05''"
| "error_code TemporaryApplicationError = js ''T99''"
| "error_code TransferTimedOutError = js ''R00''"
| "error_code InsufficientSourceAmountError = js ''R01''"
| "error_code InsufficientTimeoutError = js ''R02''"
| "error_code RelativeApplicationError = js ''R99''"

definition IlpErrors :: "jsstring list" where
  "IlpErrors = map js
     [''F00'', ''F01'', ''F02'', ''F03'', ''F04'', ''F05'', ''F06'', ''F07'', ''F08'', ''F99'',
      ''T00'', ''T01'', ''T02'', ''T03'', ''T04'', ''T05'', ''T99'', ''R00'', ''R01'', ''R02'', ''R99'']"

definition isCanonicalIlpRejectCode :: "jsstring \<Rightarrow> bool" where
  "isCanonicalIlpRejectCode s \<longleftrightarrow> s \<in> set IlpErrors"

text \<open>The data the constructor of \<open>AmountTooLargeError\<close> writes.\<close>

definition amountTooLargeData :: "jsstring \<Rightarrow> jsstring \<Rightarrow> buffer result" where
  "amountTooLargeData receivedAmount maximumAmount =
     written (\<lambda>w. ebind (writeUInt (StrV receivedAmount) 8 w) (writeUInt (StrV maximumAmount) 8))
       (new_writer_capacity (8 + 8))"

section \<open>Envelope round trip\<close>

definition envelope :: "IlpPacketType \<Rightarrow> buffer \<Rightarrow> buffer" where
  "envelope ty bs = of_nat (type_byte ty) # var_octet bs"

lemma type_byte_less: "type_byte ty < 256"
  by (cases ty) simp_all

lemma write_envelope_emits:
  assumes "wr.emits body bs" "length bs < 2 ^ 48" "sz = int (length bs)"
  shows "write_envelope ty sz body = Inr (envelope ty bs)"
proof -
  have "uint_value (num (int (type_byte ty))) = Some (type_byte ty)"
    using type_byte_less [of ty] by (simp add: MAX_SAFE_INTEGER_def)
  then have "wr.emits (writeUInt (num (int (type_byte ty))) 1) [of_nat (type_byte ty)]"
    using wr.emits_UInt8 type_byte_less [of ty] by simp
  then have "wr.emits (\<lambda>w. ebind (writeUInt (num (int (type_byte ty))) 1 w) (createVarOctetString sz body))
      ([of_nat (type_byte ty)] @ var_octet bs)"
    by (intro emits_writer assms)
  from written_emits_capacity [OF this]
  have "written (\<lambda>w. ebind (writeUInt (num (int (type_byte ty))) 1 w) (createVarOctetString sz body))
      (new_writer_capacity (Suc (length (var_octet bs)))) = Inr (envelope ty bs)"
    by (simp add: envelope_def)
  moreover have "nat (1 + measureVarOctetString sz) = Suc (length (var_octet bs))"
    unfolding assms(3) measureVarOctetString_exact [OF assms(2)] by simp
  ultimately show ?thesis by (simp add: write_envelope_def Let_def)
qed

lemma read_envelope_reads:
  assumes "reads p bs v" "length bs < 2 ^ 48"
  shows "read_envelope ty p (envelope ty bs @ post) = Inr v"
proof -
  have "reads (rbind readUInt8Number (\<lambda>type. rbind readVarOctetString (\<lambda>contents. rret (type, contents))))
      ([of_nat (type_byte ty)] @ var_octet bs) (type_byte ty, bs)"
    by (intro reads_bind [OF reads_readUInt8Number [OF type_byte_less]]
        reads_bind_last [OF reads_var_octet] assms(2) refl)
  then have "deserializeEnvelope (envelope ty bs @ post) = Inr (type_byte ty, bs)"
    using reads_run by (fastforce simp: deserializeEnvelope_def envelope_def)
  then show ?thesis using reads_run [OF assms(1), of "[]"] by (simp add: read_envelope_def)
qed

lemma isUInt64_iff: "isUInt64 s \<longleftrightarrow> (\<exists>n. n < 2 ^ 64 \<and> s = dec_of_nat n)"
proof
  assume "isUInt64 s"
  moreover define b where "b = long_bits (long_fromDecimal s True)"
  ultimately have "dec_of_int (uint b) = s"
    by (simp add: isUInt64_def long_toString_def long_value_of_def long_fromDecimal_def)
  then have "s = dec_of_nat (unat b)" by (auto simp: dec_of_int_def)
  then show "\<exists>n. n < 2 ^ 64 \<and> s = dec_of_nat n" using unat_u64_less by blast
next
  assume "\<exists>n. n < 2 ^ 64 \<and> s = dec_of_nat n"
  then obtain n where n: "n < 2 ^ 64" "s = dec_of_nat n" by blast
  then have "long_fromDecimal s True = Long (of_nat n) True" by (simp add: long_fromDecimal_def)
  with n show "isUInt64 s" using long_toString_of_nat [OF n(1)] by (simp add: isUInt64_def dec_of_nat_digits)
qed

lemma var_octet_length_le: "length bs < 2 ^ 48 \<Longrightarrow> length (var_octet bs) \<le> 7 + length bs"
  using uint_size_bounds(2) [of "length bs"] by (simp add: var_octet_def length_prefix_length)

definition prepare_bytes :: "nat \<Rightarrow> IlpPrepare \<Rightarrow> buffer" where
  "prepare_bytes n p =
     nat_to_be 8 n @ ascii_encode (dateToInterledgerTime (expiresAt p)) @ executionCondition p
     @ var_octet (ascii_encode (destination p)) @ var_octet (prep_data p)"

text \<open>The packets that have a faithful encoding.\<close>

definition encodable_prepare :: "IlpPrepare \<Rightarrow> bool" where
  "encodable_prepare p \<longleftrightarrow> isPrepare p \<and> four_digit_date (expiresAt p) \<and> expiresAt p \<noteq> 0
     \<and> length (prep_data p) < 2 ^ 47"

lemma encodable_prepare_facts:
  assumes "encodable_prepare p"
  obtains n where "n < 2 ^ 64" "prep_amount p = dec_of_nat n" "length (executionCondition p) = 32"
    "length (dateToInterledgerTime (expiresAt p)) = 17" "length (destination p) \<le> 1023"
    "length (prep_data p) < 2 ^ 47" "length (prepare_bytes n p) < 2 ^ 48"
proof -
  obtain n where n: "n < 2 ^ 64" "prep_amount p = dec_of_nat n"
    using assms by (auto simp: encodable_prepare_def isPrepare_def isUInt64_iff)
  have l: "length (executionCondition p) = 32" "length (dateToInterledgerTime (expiresAt p)) = 17"
    "length (destination p) \<le> 1023" "length (prep_data p) < 2 ^ 47"
    using assms dateToInterledgerTime_length valid_address_length
    by (auto simp: encodable_prepare_def isPrepare_def)
  then have "length (prepare_bytes n p) < 2 ^ 48"
    using var_octet_length_le [of "ascii_encode (destination p)"] var_octet_length_le [of "prep_data p"]
    by (simp add: prepare_bytes_def)
  with n l show thesis by (rule that)
qed

lemma serializeIlpPrepare_bytes:
  assumes "encodable_prepare p"
  shows "\<exists>n < 2 ^ 64. prep_amount p = dec_of_nat n \<and> length (prepare_bytes n p) < 2 ^ 48
    \<and> serializeIlpPrepare p = Inr (envelope Prepare (prepare_bytes n p))"
proof -
  obtain n where n: "n < 2 ^ 64" "prep_amount p = dec_of_nat n" "length (executionCondition p) = 32"
    "length (dateToInterledgerTime (expiresAt p)) = 17" "length (destination p) \<le> 1023"
    "length (prep_data p) < 2 ^ 47" "length (prepare_bytes n p) < 2 ^ 48"
    using encodable_prepare_facts [OF assms] .
  let ?dest = "ascii_encode (destination p)"
  have lens: "length ?dest < 2 ^ 48" "length (prep_data p) < 2 ^ 48" using n by simp_all
  have "wr.emits (writeUInt (StrV (prep_amount p)) 8) (nat_to_be 8 n)"
    using wr.emits_UInt [of "StrV (prep_amount p)" n 8] n(1,2) by simp
  then have "wr.emits (\<lambda>c. ebind (writeUInt (StrV (prep_amount p)) 8 c) (\<lambda>c.
      ebind (write_bytes (ascii_encode (dateToInterledgerTime (expiresAt p))) c) (\<lambda>c.
      ebind (write_bytes (executionCondition p) c) (\<lambda>c.
      ebind (writeVarOctetString ?dest c) (writeVarOctetString (prep_data p)))))) (prepare_bytes n p)"
    unfolding prepare_bytes_def by (intro emits_writer lens)
  moreover have "8 + int INTERLEDGER_TIME_LENGTH + 32 + measureVarOctetString (int (length ?dest))
      + measureVarOctetString (int (length (prep_data p))) = int (length (prepare_bytes n p))"
    unfolding measureVarOctetString_exact [OF lens(1)] measureVarOctetString_exact [OF lens(2)]
    using n by (simp add: prepare_bytes_def INTERLEDGER_TIME_LENGTH_def)
  ultimately have "serializeIlpPrepare p = Inr (envelope Prepare (prepare_bytes n p))"
    using n write_envelope_emits by (simp add: serializeIlpPrepare_def Let_def)
  with n show ?thesis by blast
qed

lemma reads_prepare:
  assumes "encodable_prepare p" and n: "n < 2 ^ 64" "prep_amount p = dec_of_nat n"
  shows "reads read_prepare (prepare_bytes n p) p"
proof -
  let ?t = "ascii_encode (dateToInterledgerTime (expiresAt p))"
  have p: "isPrepare p" "four_digit_date (expiresAt p)" "expiresAt p \<noteq> 0" "length (prep_data p) < 2 ^ 48"
    using assms by (auto simp: encodable_prepare_def)
  have t: "interledgerTimeToDate (ascii_decode ?t) = Inr (expiresAt p)"
    using interledgerTime_roundtrip [OF p(2,3)] dateToInterledgerTime_ascii [OF p(2)]
    by (simp add: ascii_decode_encode)
  have len: "length ?t = INTERLEDGER_TIME_LENGTH" "length (executionCondition p) = 32"
    "length (ascii_encode (destination p)) < 2 ^ 48"
    using p dateToInterledgerTime_length [OF p(2)] valid_address_length [of "destination p"]
    by (auto simp: INTERLEDGER_TIME_LENGTH_def isPrepare_def)
  have dest: "ascii_decode (ascii_encode (destination p)) = destination p" "isValidIlpAddress (destination p)"
    using p(1) valid_address_ascii by (auto simp: isPrepare_def ascii_decode_encode)
  have r: "reads (read INTERLEDGER_TIME_LENGTH) ?t ?t" "reads (read 32) (executionCondition p) (executionCondition p)"
    using reads_read [of ?t] reads_read [of "executionCondition p"] len by simp_all
  show ?thesis unfolding read_prepare_def prepare_bytes_def
    by (intro reads_bind [OF reads_readUInt64 [OF n(1)]] reads_bind [OF r(1)] reads_lift [OF t]
        reads_bind [OF r(2)] reads_bind [OF reads_var_octet [OF len(3)]])
      (use dest n(2) p(4) in \<open>cases p; simp add: reads_bind_last [OF reads_var_octet]\<close>)
qed

definition encodable_fulfill :: "IlpFulfill \<Rightarrow> bool" where
  "encodable_fulfill f \<longleftrightarrow> isFulfill f \<and> length (fulfill_data f) < 2 ^ 47"

lemma fulfill_codec:
  assumes "encodable_fulfill f"
  defines "bs \<equiv> fulfillment f @ var_octet (fulfill_data f)"
  shows "serializeIlpFulfill f = Inr (envelope Fulfill bs)" "reads read_fulfill bs f" "length bs < 2 ^ 48"
proof -
  have f: "length (fulfillment f) = 32" and d: "length (fulfill_data f) < 2 ^ 48"
    using assms(1) by (auto simp: encodable_fulfill_def isFulfill_def)
  show len: "length bs < 2 ^ 48"
    using assms(1) f var_octet_length_le [OF d] by (simp add: bs_def encodable_fulfill_def)
  have "wr.emits (\<lambda>c. ebind (write_bytes (fulfillment f) c) (writeVarOctetString (fulfill_data f))) bs"
    unfolding bs_def by (intro emits_writer d)
  then show "serializeIlpFulfill f = Inr (envelope Fulfill bs)"
    using f write_envelope_emits [OF _ len] measureVarOctetString_exact [OF d]
    by (simp add: serializeIlpFulfill_def bs_def)
  have "reads (read 32) (fulfillment f) (fulfillment f)" using reads_read [of "fulfillment f"] f by simp
  then show "reads read_fulfill bs f"
    unfolding read_fulfill_def bs_def
    by (rule reads_bind) (intro reads_bind_last [OF reads_var_octet [OF d]], cases f, simp)
qed

definition encodable_reject :: "IlpReject \<Rightarrow> bool" where
  "encodable_reject r \<longleftrightarrow> isReject r \<and> length (rej_code r) = 3 \<and> is_ascii (rej_code r)
     \<and> well_formed (rej_message r) \<and> length (utf8_encode (rej_message r)) < 2 ^ 46
     \<and> length (rej_data r) < 2 ^ 46"

definition reject_bytes :: "IlpReject \<Rightarrow> buffer" where
  "reject_bytes r = ascii_encode (rej_code r) @ var_octet (ascii_encode (triggeredBy r))
     @ var_octet (utf8_encode (rej_message r)) @ var_octet (rej_data r)"

lemma encodable_reject_lengths:
  assumes "encodable_reject r"
  shows "length (ascii_encode (triggeredBy r)) < 2 ^ 48" "length (utf8_encode (rej_message r)) < 2 ^ 48"
    "length (rej_data r) < 2 ^ 48" "length (reject_bytes r) < 2 ^ 48" "rej_code r \<noteq> []"
    "is_ascii (triggeredBy r)"
proof -
  have t: "length (triggeredBy r) \<le> 1023" "is_ascii (triggeredBy r)"
    using assms valid_address_length valid_address_ascii
    by (auto simp: encodable_reject_def isReject_def is_ascii_def)
  then show l: "length (ascii_encode (triggeredBy r)) < 2 ^ 48" "length (utf8_encode (rej_message r)) < 2 ^ 48"
    "length (rej_data r) < 2 ^ 48" "rej_code r \<noteq> []" "is_ascii (triggeredBy r)"
    using assms by (auto simp: encodable_reject_def)
  show "length (reject_bytes r) < 2 ^ 48"
    using assms t var_octet_length_le [OF l(1)] var_octet_length_le [OF l(2)] var_octet_length_le [OF l(3)]
    by (simp add: reject_bytes_def encodable_reject_def)
qed

lemma serializeIlpReject_bytes:
  assumes "encodable_reject r"
  shows "serializeIlpReject r = Inr (envelope Reject (reject_bytes r))"
proof -
  note l = encodable_reject_lengths [OF assms]
  have code: "length (rej_code r) = 3" using assms by (simp add: encodable_reject_def)
  have "wr.emits (\<lambda>c. ebind (write_bytes (ascii_encode (rej_code r)) c) (\<lambda>c.
      ebind (writeVarOctetString (ascii_encode (triggeredBy r)) c) (\<lambda>c.
      ebind (writeVarOctetString (utf8_encode (rej_message r)) c) (writeVarOctetString (rej_data r)))))
      (reject_bytes r)"
    unfolding reject_bytes_def by (intro emits_writer l)
  moreover have "int ILP_ERROR_CODE_LENGTH + measureVarOctetString (int (length (ascii_encode (triggeredBy r))))
      + measureVarOctetString (int (length (utf8_encode (rej_message r))))
      + measureVarOctetString (int (length (rej_data r))) = int (length (reject_bytes r))"
    unfolding measureVarOctetString_exact [OF l(1)] measureVarOctetString_exact [OF l(2)]
      measureVarOctetString_exact [OF l(3)]
    using code by (simp add: reject_bytes_def ILP_ERROR_CODE_LENGTH_def)
  ultimately show ?thesis
    using write_envelope_emits [OF _ l(4)] l(5) code
    by (simp add: serializeIlpReject_def Let_def ILP_ERROR_CODE_LENGTH_def)
qed

lemma reads_reject:
  assumes "encodable_reject r"
  shows "reads read_reject (reject_bytes r) r"
proof -
  note l = encodable_reject_lengths [OF assms]
  have c: "reads (read ILP_ERROR_CODE_LENGTH) (ascii_encode (rej_code r)) (ascii_encode (rej_code r))"
    using assms reads_read [of "ascii_encode (rej_code r)"]
    by (simp add: encodable_reject_def ILP_ERROR_CODE_LENGTH_def)
  have dec: "ascii_decode (ascii_encode (rej_code r)) = rej_code r"
    "ascii_decode (ascii_encode (triggeredBy r)) = triggeredBy r"
    "utf8_decode (utf8_encode (rej_message r)) = rej_message r"
    using assms l(6) by (simp_all add: ascii_decode_encode utf8_decode_encode encodable_reject_def)
  have "\<not> (\<not> isValidIlpAddress (triggeredBy r) \<and> triggeredBy r \<noteq> [])"
    using assms by (auto simp: encodable_reject_def isReject_def)
  moreover have "reads (rbind readVarOctetString (\<lambda>message. rbind readVarOctetString (\<lambda>d.
      rret \<lparr>rej_code = rej_code r, triggeredBy = triggeredBy r, rej_message = utf8_decode message, rej_data = d\<rparr>)))
      (var_octet (utf8_encode (rej_message r)) @ var_octet (rej_data r)) r"
    by (intro reads_bind [OF reads_var_octet [OF l(2)]] reads_bind_last [OF reads_var_octet [OF l(3)]])
      (unfold dec, cases r, simp)
  ultimately show ?thesis unfolding read_reject_def reject_bytes_def
    by (intro reads_bind [OF c] reads_bind [OF reads_var_octet [OF l(1)]]) (simp only: dec if_False)
qed

section \<open>Packet round trips\<close>

fun encodable :: "IlpPacket \<Rightarrow> bool" where
  "encodable (PreparePacket p) = encodable_prepare p"
| "encodable (FulfillPacket f) = encodable_fulfill f"
| "encodable (RejectPacket r) = encodable_reject r"

lemma first_byte_envelope: "first_byte (envelope ty bs @ post) = Some (type_byte ty)"
  using type_byte_less [of ty] by (simp add: first_byte_def envelope_def unat_of_nat_byte)

lemma prepare_packet_roundtrip:
  assumes "encodable_prepare p"
  shows "\<exists>bs. serializeIlpPrepare p = Inr bs \<and> first_byte (bs @ post) = Some 12
    \<and> deserializeIlpPrepare (bs @ post) = Inr p"
proof -
  obtain n where n: "n < 2 ^ 64" "prep_amount p = dec_of_nat n" "length (prepare_bytes n p) < 2 ^ 48"
      "serializeIlpPrepare p = Inr (envelope Prepare (prepare_bytes n p))"
    using serializeIlpPrepare_bytes [OF assms] by blast
  then show ?thesis
    using read_envelope_reads [OF reads_prepare [OF assms n(1,2)] n(3)] first_byte_envelope [of Prepare]
    by (simp add: deserializeIlpPrepare_def)
qed

lemma fulfill_packet_roundtrip:
  assumes "encodable_fulfill f"
  shows "\<exists>bs. serializeIlpFulfill f = Inr bs \<and> first_byte (bs @ post) = Some 13
    \<and> deserializeIlpFulfill (bs @ post) = Inr f"
  using fulfill_codec [OF assms] read_envelope_reads [OF fulfill_codec(2,3) [OF assms]]
    first_byte_envelope [of Fulfill]
  by (simp add: deserializeIlpFulfill_def)

lemma reject_packet_roundtrip:
  assumes "encodable_reject r"
  shows "\<exists>bs. serializeIlpReject r = Inr bs \<and> first_byte (bs @ post) = Some 14
    \<and> deserializeIlpReject (bs @ post) = Inr r"
  using serializeIlpReject_bytes [OF assms] first_byte_envelope [of Reject]
    read_envelope_reads [OF reads_reject [OF assms] encodable_reject_lengths(4) [OF assms]]
  by (simp add: deserializeIlpReject_def)

text \<open>
  C26. Every encodable packet (a well-formed amount, address, condition and code; a date in the
  years 1000 to 9999 other than the epoch; data of a realistic size) serializes without an
  exception, in particular without overflowing the strict writer whose capacity is predicted, and parsing the result, with
  any bytes after it, gives the packet back.
\<close>

theorem ilp_packet_roundtrip:
  "encodable packet \<Longrightarrow>
   \<exists>bs. serializeIlpPacket packet = Inr bs \<and> deserializeIlpPacket (bs @ post) = Inr packet"
proof (cases packet)
  case (PreparePacket p)
  assume "encodable packet"
  then obtain bs where "serializeIlpPrepare p = Inr bs" "first_byte (bs @ post) = Some 12"
      "deserializeIlpPrepare (bs @ post) = Inr p"
    using PreparePacket prepare_packet_roundtrip [of p post] by auto
  with PreparePacket show ?thesis by (intro exI [of _ bs]) (simp add: deserializeIlpPacket_def)
next
  case (FulfillPacket f)
  assume "encodable packet"
  then obtain bs where "serializeIlpFulfill f = Inr bs" "first_byte (bs @ post) = Some 13"
      "deserializeIlpFulfill (bs @ post) = Inr f"
    using FulfillPacket fulfill_packet_roundtrip [of f post] by auto
  with FulfillPacket show ?thesis by (intro exI [of _ bs]) (simp add: deserializeIlpPacket_def)
next
  case (RejectPacket r)
  assume "encodable packet"
  then obtain bs where "serializeIlpReject r = Inr bs" "first_byte (bs @ post) = Some 14"
      "deserializeIlpReject (bs @ post) = Inr r"
    using RejectPacket reject_packet_roundtrip [of r post] by auto
  with RejectPacket show ?thesis by (intro exI [of _ bs]) (simp add: deserializeIlpPacket_def)
qed

definition sample_prepare :: IlpPrepare where
  "sample_prepare = \<lparr>prep_amount = js ''107'', executionCondition = replicate 32 7,
     expiresAt = 1434412800123, destination = js ''example.alice'', prep_data = [1, 2, 3]\<rparr>"

lemma sample_prepare_encodable: "encodable (PreparePacket sample_prepare)"
proof -
  have "js ''107'' = dec_of_nat 107" by (simp add: js_def dec_of_nat.simps digit_def)
  then have "isUInt64 (js ''107'')" unfolding isUInt64_iff by (intro exI [of _ 107]) simp
  moreover have "isValidIlpAddress (js ''example.alice'')"
    by (simp add: isValidIlpAddress_def ilp_address_regex_def ILP_ADDRESS_MAX_LENGTH_def js_def dot_def
        schemes_def segment_def address_char_def)
  moreover have "four_digit_date 1434412800123"
    by (simp add: four_digit_date_def getUTCFullYear_def YearFromDay_def msPerDay_def DayFromYear_def
        year_search.simps)
  ultimately show ?thesis
    by (simp add: encodable_prepare_def isPrepare_def sample_prepare_def)
qed

theorem ilp_packet_roundtrip_witness:
  "\<exists>bs. serializeIlpPacket (PreparePacket sample_prepare) = Inr bs
     \<and> deserializeIlpPacket (bs @ []) = Inr (PreparePacket sample_prepare)"
  by (rule ilp_packet_roundtrip) (rule sample_prepare_encodable)

text \<open>What the deserializers accept passes the type guards.\<close>

fun guard :: "IlpPacket \<Rightarrow> bool" where
  "guard (PreparePacket p) = isPrepare p"
| "guard (FulfillPacket f) = isFulfill f"
| "guard (RejectPacket r) = (isReject r \<and> length (rej_code r) = 3 \<and> is_ascii (rej_code r))"

lemma read_prepare_guard: "read_prepare r = Inr (p, r') \<Longrightarrow> isPrepare p"
  by (auto simp: read_prepare_def isPrepare_def isUInt64_iff
      dest!: readUInt64_canonical read_length split: if_splits)

lemma read_fulfill_guard: "read_fulfill r = Inr (f, r') \<Longrightarrow> isFulfill f"
  by (auto simp: read_fulfill_def isFulfill_def dest!: read_length)

lemma read_reject_guard:
  "read_reject r = Inr (j, r') \<Longrightarrow> isReject j \<and> length (rej_code j) = 3 \<and> is_ascii (rej_code j)"
  by (auto simp: read_reject_def isReject_def ILP_ERROR_CODE_LENGTH_def is_ascii_decode ascii_decode_def
      dest!: read_length split: if_splits) (auto simp: is_ascii_def unat_of_nat list_all_iff)

lemma read_envelope_inner: "read_envelope ty p bs = Inr v \<Longrightarrow> \<exists>r r'. p r = Inr (v, r')"
  by (auto simp: read_envelope_def run_reader_eq_Inr split: if_splits)

text \<open>
  Whatever bytes arrive, a packet that \<open>deserializeIlpPacket\<close> returns satisfies its
  type guard: a canonical 64-bit amount, a 32-byte condition or fulfillment, a valid
  destination, a valid or empty \<open>triggeredBy\<close> and a three-character ASCII code.
\<close>

theorem deserializeIlpPacket_guard: "deserializeIlpPacket bs = Inr packet \<Longrightarrow> guard packet"
  by (auto simp: deserializeIlpPacket_def deserializeIlpPrepare_def deserializeIlpFulfill_def
      deserializeIlpReject_def dest!: read_envelope_inner read_prepare_guard read_fulfill_guard
      read_reject_guard split: if_splits)

lemma sample_fulfill_bytes:
  "deserializeIlpPacket ([13, 33] @ replicate 32 7 @ [0]) =
     Inr (FulfillPacket \<lparr>fulfillment = replicate 32 7, fulfill_data = []\<rparr>)"
  by code_simp

theorem deserializeIlpPacket_guard_witness:
  "guard (FulfillPacket \<lparr>fulfillment = replicate 32 7, fulfill_data = []\<rparr>)"
  by (rule deserializeIlpPacket_guard) (rule sample_fulfill_bytes)

section \<open>Errors as Reject packets\<close>

lemma error_code_canonical: "isCanonicalIlpRejectCode (error_code c)"
  by (cases c) (simp_all add: isCanonicalIlpRejectCode_def IlpErrors_def)

lemma canonical_code_form: "isCanonicalIlpRejectCode c \<Longrightarrow> length c = 3 \<and> is_ascii c"
  by (auto simp: isCanonicalIlpRejectCode_def IlpErrors_def js_def is_ascii_def)

text \<open>
  The reject packet a connector answers with for any of the error classes is delivered:
  it serializes, and the receiver parses the class's own code, the address, the message and the data.
\<close>

theorem errorToReject_delivered:
  assumes "isValidIlpAddress address"
    and "well_formed msg" and "length (utf8_encode msg) < 2 ^ 46" and "length d < 2 ^ 46"
  shows "\<exists>bs. errorToReject address
        \<lparr>err_message = msg, ilpErrorCode = Some (error_code cls), ilpErrorData = Some d\<rparr> = Inr bs
      \<and> deserializeIlpReply bs = Inr (RejectReply
          \<lparr>rej_code = error_code cls, triggeredBy = address, rej_message = msg, rej_data = d\<rparr>)"
proof -
  let ?r = "\<lparr>rej_code = error_code cls, triggeredBy = address, rej_message = msg, rej_data = d\<rparr>"
  have code: "length (error_code cls) = 3" "is_ascii (error_code cls)"
    using canonical_code_form [OF error_code_canonical] by auto
  then have "encodable_reject ?r" using assms by (simp add: encodable_reject_def isReject_def)
  then obtain bs where "serializeIlpReject ?r = Inr bs" "first_byte bs = Some 14"
      "deserializeIlpReject bs = Inr ?r"
    using reject_packet_roundtrip [of ?r "[]"] by auto
  moreover have "errorToIlpReject address
      \<lparr>err_message = msg, ilpErrorCode = Some (error_code cls), ilpErrorData = Some d\<rparr> = ?r"
    using code by (auto simp: errorToIlpReject_def)
  ultimately show ?thesis by (simp add: errorToReject_def deserializeIlpReply_def)
qed

theorem errorToReject_delivered_witness:
  "\<exists>bs. errorToReject (js ''g.hub'')
        \<lparr>err_message = js ''busy'', ilpErrorCode = Some (error_code PeerBusyError), ilpErrorData = Some []\<rparr> = Inr bs
      \<and> deserializeIlpReply bs = Inr (RejectReply
          \<lparr>rej_code = error_code PeerBusyError, triggeredBy = js ''g.hub'', rej_message = js ''busy'', rej_data = []\<rparr>)"
proof (rule errorToReject_delivered)
  show "isValidIlpAddress (js ''g.hub'')"
    by (simp add: isValidIlpAddress_def ilp_address_regex_def ILP_ADDRESS_MAX_LENGTH_def js_def dot_def
        schemes_def segment_def address_char_def)
  show "well_formed (js ''busy'')" by (simp add: js_def is_high_def is_low_def)
  show "length (utf8_encode (js ''busy'')) < 2 ^ 46"
    by (simp add: js_def utf8_encode_def utf8_bytes_def scalar_of_unit_def is_high_def is_low_def)
qed simp

end
