(* ===== verification/Long_Util.thy ===== *)
theory Long_Util
  imports Oer_Reader
begin

text \<open>
  The arithmetic helpers of \<^verbatim>\<open>ilp-protocol-stream/src/util/long.ts\<close>.

  A \<open>Long\<close> is a 64-bit integer with wrap-around; every Long of the STREAM
  implementation is unsigned (its constructors reject a signed one), so the
  helpers work on \<open>64 word\<close>, where \<open>add\<close>, \<open>subtract\<close>, \<open>multiply\<close>, \<open>divide\<close>,
  \<open>modulo\<close>, \<open>shiftLeft\<close> and the comparisons are the operations of the word type.
  The lemmas relate each helper to exact arithmetic on the unsigned values and
  say where the overflow tests of the code are exact and where they are not.
\<close>

text \<open>
  Unlike the function of the same name in \<^verbatim>\<open>oer-utils\<close>, this one rejects a decimal string that
  \<open>Long.fromString\<close> would wrap. Strings here are decimal numerals.
\<close>

fun stream_longFromValue :: "long_value \<Rightarrow> bool \<Rightarrow> long result" where
  "stream_longFromValue (NumV n) uns =
     (if uns \<and> jsnum_less_zero n then Inl (Error ''Expected positive number'')
      else Inr (long_fromNumber n uns))"
| "stream_longFromValue (StrV s) uns =
     (if uns \<and> s \<noteq> [] \<and> hd s = minus_sign then Inl (Error ''Expected positive number'')
      else
        let longValue = long_fromDecimal s uns
        in if long_toString longValue \<noteq> s then Inl (Error ''Value does not fit in a Long.'')
           else Inr longValue)"
| "stream_longFromValue (LongV l) uns =
     (if long_unsigned l \<noteq> uns
      then Inl (Error (if uns then ''Expected unsigned Long'' else ''Expected signed Long''))
      else Inr l)"

definition maxLong :: "u64 \<Rightarrow> u64 \<Rightarrow> u64" where
  "maxLong a b = (if a > b then a else b)"

definition minLong :: "u64 \<Rightarrow> u64 \<Rightarrow> u64" where
  "minLong a b = (if a < b then a else b)"

text \<open>\<open>values[0]\<close> of an empty array is \<open>undefined\<close>.\<close>

definition minLongs :: "u64 list \<Rightarrow> u64 option" where
  "minLongs vs = (case vs of [] \<Rightarrow> None | v # rest \<Rightarrow> Some (foldl minLong v rest))"

function countDigits_loop :: "u64 \<Rightarrow> nat \<Rightarrow> nat" where
  "countDigits_loop v digits =
     (if v = 0 then digits else countDigits_loop (v div 10) (digits + 1))"
  by pat_completeness auto
termination
proof (relation "measure (\<lambda>(v, _). unat v)")
  fix v :: u64 and digits :: nat
  assume "v \<noteq> 0"
  then have "0 < unat v" by (simp add: unat_gt_0)
  then show "((v div 10, digits + 1), v, digits) \<in> measure (\<lambda>(v, _). unat v)"
    by (simp add: unat_div_distrib)
qed simp

declare countDigits_loop.simps [simp del]

definition countDigits :: "u64 \<Rightarrow> nat" where
  "countDigits v = countDigits_loop v 0"

record sum_result =
  add_sum :: u64
  add_overflow :: bool

definition checkedAdd :: "u64 \<Rightarrow> u64 \<Rightarrow> sum_result" where
  "checkedAdd a b =
     (let s = a + b; o' = (s < a \<or> s < b)
      in \<lparr>add_sum = (if o' then MAX_UNSIGNED_VALUE else s), add_overflow = o'\<rparr>)"

record difference_result =
  difference :: u64
  underflow :: bool

definition checkedSubtract :: "u64 \<Rightarrow> u64 \<Rightarrow> difference_result" where
  "checkedSubtract a b =
     (let d = a - b; u = (d > a \<and> d > b)
      in \<lparr>difference = (if u then 0 else d), underflow = u\<rparr>)"

record product_result =
  product :: u64
  mul_overflow :: bool

definition checkedMultiply :: "u64 \<Rightarrow> u64 \<Rightarrow> product_result" where
  "checkedMultiply a b =
     (let p = a * b; o' = (p < a \<or> p < b)
      in \<lparr>product = (if o' then MAX_UNSIGNED_VALUE else p), mul_overflow = o'\<rparr>)"

text \<open>
  The loop of \<open>multiplyDivide\<close> (Egyptian multiplication). The throw is the one
  of \<open>Long.divide\<close> on a zero divisor, before the loop starts. \<open>carry\<close> is the
  test \<^verbatim>\<open>if (rem.greaterThanOrEqual(c)) { quo = quo.add(1); rem = rem.subtract(c) }\<close>,
  which the loop body runs on \<open>(quo, rem)\<close> and on \<open>(qn, rn)\<close>.
\<close>

definition carry :: "u64 \<Rightarrow> u64 \<Rightarrow> u64 \<Rightarrow> u64 \<times> u64" where
  "carry c q r = (if r \<ge> c then (q + 1, r - c) else (q, r))"

function multiplyDivide_loop :: "u64 \<Rightarrow> u64 \<Rightarrow> u64 \<Rightarrow> u64 \<Rightarrow> u64 \<Rightarrow> u64 \<Rightarrow> u64 \<times> u64" where
  "multiplyDivide_loop a c quo rem qn rn =
     (if a = 0 then (quo, rem)
      else
        let (quo1, rem1) = (if odd a then carry c (quo + qn) (rem + rn) else (quo, rem))
        in if quo1 < quo then (MAX_UNSIGNED_VALUE, 0)
           else
             let (qn1, rn1) = carry c (push_bit 1 qn) (push_bit 1 rn)
             in multiplyDivide_loop (drop_bit 1 a) c quo1 rem1 qn1 rn1)"
  by pat_completeness auto
termination
proof (relation "measure (\<lambda>(a, _). unat a)", goal_cases)
  case (2 a c quo rem qn rn)
  then have "0 < unat a" by (simp add: unat_gt_0)
  then show ?case by (simp add: unat_drop_bit_eq drop_bit_eq_div unat_div_distrib)
qed simp

declare multiplyDivide_loop.simps [simp del]

definition multiplyDivide :: "u64 \<Rightarrow> u64 \<Rightarrow> u64 \<Rightarrow> (u64 \<times> u64) result" where
  "multiplyDivide a b c =
     (if c = 0 then Inl (Error ''division by zero'')
      else Inr (multiplyDivide_loop a c 0 0 (b div c) (b mod c)))"

definition multiplyDivideFloor :: "u64 \<Rightarrow> u64 \<Rightarrow> u64 \<Rightarrow> u64 result" where
  "multiplyDivideFloor a b c = ebind (multiplyDivide a b c) (\<lambda>(quo, rem). Inr quo)"

definition multiplyDivideCeil :: "u64 \<Rightarrow> u64 \<Rightarrow> u64 \<Rightarrow> u64 result" where
  "multiplyDivideCeil a b c = ebind (multiplyDivide a b c) (\<lambda>(quo, rem).
     if quo = MAX_UNSIGNED_VALUE then Inr quo
     else Inr (quo + (if rem = 0 then 0 else 1)))"

definition multiplyDivideRound :: "u64 \<Rightarrow> u64 \<Rightarrow> u64 \<Rightarrow> u64 result" where
  "multiplyDivideRound a b c = ebind (multiplyDivide a b c) (\<lambda>(quo, rem).
     if quo = MAX_UNSIGNED_VALUE then Inr quo
     else
       let roundUp = rem \<noteq> 0 \<and> (if odd c then rem > c div 2 else rem \<ge> c div 2)
       in Inr (if roundUp then quo + 1 else quo))"

section \<open>Minimum, maximum, checked addition and subtraction\<close>

lemma unat_minLong: "unat (minLong a b) = min (unat a) (unat b)"
  by (simp add: minLong_def word_less_nat_alt)

lemma unat_maxLong: "unat (maxLong a b) = max (unat a) (unat b)"
  by (simp add: maxLong_def word_less_nat_alt)

lemma minLong_le: "minLong a b \<le> a" "minLong a b \<le> b"
  by (auto simp: minLong_def)

lemma foldl_minLong: "foldl minLong v vs = Min (set (v # vs))"
proof (induction vs arbitrary: v)
  case (Cons w vs)
  have "minLong v w = min v w" by (simp add: minLong_def min_def not_less order.order_iff_strict)
  with Cons show ?case by (cases vs) (simp_all add: min.assoc)
qed simp

lemma checkedAdd_sat:
  "(add_overflow (checkedAdd a b) \<longleftrightarrow> 2 ^ 64 \<le> unat a + unat b) \<and>
   unat (add_sum (checkedAdd a b)) = min (2 ^ 64 - 1) (unat a + unat b)"
proof (intro conjI)
  have o: "(a + b < a \<or> a + b < b) \<longleftrightarrow> 2 ^ 64 \<le> unat a + unat b"
    using add_u64_less_iff [of a b] add_u64_less_iff [of b a] by (simp add: add.commute)
  show "add_overflow (checkedAdd a b) \<longleftrightarrow> 2 ^ 64 \<le> unat a + unat b"
    using o by (simp add: checkedAdd_def Let_def)
  show "unat (add_sum (checkedAdd a b)) = min (2 ^ 64 - 1) (unat a + unat b)"
  proof (cases "2 ^ 64 \<le> unat a + unat b")
    case True
    with o show ?thesis by (simp add: checkedAdd_def Let_def unat_max_unsigned min_def)
  next
    case False
    with o have "add_sum (checkedAdd a b) = a + b" by (auto simp: checkedAdd_def Let_def)
    with False show ?thesis by (simp add: unat_add_u64 min_def)
  qed
qed

text \<open>
  \<open>checkedAdd\<close> is saturating addition: it reports an overflow exactly when the
  unsigned sum does not fit 64 bits, and its sum is then \<open>MAX_UNSIGNED_VALUE\<close>.
\<close>

theorem checkedAdd_saturates:
  "(add_overflow (checkedAdd a b) \<longleftrightarrow> 2 ^ 64 \<le> unat a + unat b) \<and>
   unat (add_sum (checkedAdd a b)) = min (2 ^ 64 - 1) (unat a + unat b)"
  by (rule checkedAdd_sat)

lemma checkedSubtract_underflow_iff:
  "underflow (checkedSubtract a b) \<longleftrightarrow> a < b \<and> 2 * unat b < unat a + 2 ^ 64"
proof (cases "b \<le> a")
  case True
  then show ?thesis
    by (auto simp: checkedSubtract_def Let_def word_less_nat_alt word_le_nat_alt unat_sub_u64)
next
  case False
  then have lt: "a < b" by simp
  then have "unat (a - b) = 2 ^ 64 + unat a - unat b" by (rule unat_sub_wrap_u64)
  then show ?thesis
    using lt unat_u64_less [of b]
    by (auto simp: checkedSubtract_def Let_def word_less_nat_alt)
qed

lemma checkedSubtract_sat:
  assumes "b \<le> a \<or> 2 * unat b < unat a + 2 ^ 64"
  shows "underflow (checkedSubtract a b) = (a < b) \<and>
         unat (difference (checkedSubtract a b)) = unat a - unat b"
proof -
  have u: "underflow (checkedSubtract a b) = (a < b)"
    using assms by (auto simp: checkedSubtract_underflow_iff)
  have "difference (checkedSubtract a b) = (if underflow (checkedSubtract a b) then 0 else a - b)"
    by (simp add: checkedSubtract_def Let_def)
  with u show ?thesis
    by (cases "a < b") (simp_all add: unat_sub_u64 not_less word_less_nat_alt word_le_nat_alt)
qed

text \<open>
  \<open>checkedSubtract\<close> is saturating subtraction for every subtrahend up to \<open>2\<^sup>6\<^sup>3\<close>
  of a non-zero minuend, and for every subtrahend not larger than the minuend: the
  difference is the truncated one and \<open>underflow\<close> tells whether the subtrahend was larger.
\<close>

theorem checkedSubtract_saturates:
  assumes "b \<le> a \<or> 2 * unat b < unat a + 2 ^ 64"
  shows "underflow (checkedSubtract a b) = (a < b) \<and>
         unat (difference (checkedSubtract a b)) = unat a - unat b"
  using assms by (rule checkedSubtract_sat)

theorem checkedSubtract_saturates_witness:
  "underflow (checkedSubtract 3 5) \<and> unat (difference (checkedSubtract 3 5)) = 0"
  using checkedSubtract_saturates [of 5 3] by simp

text \<open>
  The underflow test of \<open>checkedSubtract\<close> misses large subtrahends: subtracting
  \<open>2\<^sup>6\<^sup>3\<close> from \<open>0\<close> is not reported and returns \<open>2\<^sup>6\<^sup>3\<close> instead of \<open>0\<close>. The overflow
  test of \<open>checkedMultiply\<close> misses products such as \<open>(2\<^sup>3\<^sup>2 + 1)\<^sup>2\<close> and reports one
  for a product with \<open>0\<close>.
\<close>

theorem checked_tests_incomplete:
  "\<not> underflow (checkedSubtract 0 (2 ^ 63)) \<and> difference (checkedSubtract 0 (2 ^ 63)) = 2 ^ 63
   \<and> \<not> mul_overflow (checkedMultiply (2 ^ 32 + 1) (2 ^ 32 + 1))
   \<and> product (checkedMultiply (2 ^ 32 + 1) (2 ^ 32 + 1)) = 2 ^ 33 + 1
   \<and> mul_overflow (checkedMultiply 0 5)"
  by (simp add: checkedSubtract_def checkedMultiply_def)

lemma checkedMultiply_two:
  assumes "a \<noteq> 0"
  shows "unat (product (checkedMultiply a 2)) = min (2 ^ 64 - 1) (2 * unat a)"
proof -
  have two: "a * 2 = a + a" by simp
  have pos: "0 < unat a" using assms by (simp add: unat_gt_0)
  show ?thesis
  proof (cases "unat a + unat a < 2 ^ 64")
    case True
    then have "unat (a + a) = unat a + unat a" by (rule unat_add_u64)
    with pos True show ?thesis
      by (simp add: checkedMultiply_def Let_def two word_less_nat_alt min_def)
  next
    case False
    then have "a + a < a" using add_u64_less_iff [of a a] by simp
    with False show ?thesis
      by (simp add: checkedMultiply_def Let_def two unat_max_unsigned min_def)
  qed
qed

section \<open>Multiplication followed by division\<close>

text \<open>One \<open>carry\<close> is exact when the divisor is at most \<open>2\<^sup>6\<^sup>3\<close> and the quotient fits.\<close>

lemma carry_exact:
  fixes c q1 q2 r1 r2 :: u64
  defines "N \<equiv> (unat q1 * unat c + unat r1) + (unat q2 * unat c + unat r2)"
  assumes c: "unat c \<le> 2 ^ 63" and r: "unat r1 < unat c" "unat r2 < unat c"
    and fits: "N div unat c < 2 ^ 64"
  shows "(case carry c (q1 + q2) (r1 + r2) of (q, r) \<Rightarrow>
           unat q * unat c + unat r = N \<and> unat r < unat c)"
proof -
  let ?Q = "unat q1 + unat q2" and ?R = "unat r1 + unat r2"
  have N: "N = ?Q * unat c + ?R" by (simp add: N_def algebra_simps)
  have pos: "0 < unat c" using r by linarith
  have R: "unat (r1 + r2) = ?R" using r c by (intro unat_add_u64) simp
  have Q: "?Q + ?R div unat c < 2 ^ 64" using fits pos by (simp add: N)
  then have q: "unat (q1 + q2) = ?Q" by (intro unat_add_u64) linarith
  show ?thesis
  proof (cases "unat c \<le> ?R")
    case True
    then have "1 \<le> ?R div unat c" using pos by (simp add: div_greater_zero_iff Suc_leI)
    with Q q have "unat (q1 + q2 + 1) = ?Q + 1" by (subst unat_add_u64) simp_all
    moreover have "unat (r1 + r2 - c) = ?R - unat c"
      using True R by (subst unat_sub_u64) (simp_all add: word_le_nat_alt)
    ultimately show ?thesis
      using True R r by (simp add: carry_def word_le_nat_alt N algebra_simps)
  next
    case False
    with R q show ?thesis by (simp add: carry_def word_le_nat_alt N)
  qed
qed

lemma carry_exact_obtain:
  fixes c q1 q2 r1 r2 :: u64
  assumes "unat c \<le> 2 ^ 63" "unat r1 < unat c" "unat r2 < unat c"
    and "((unat q1 * unat c + unat r1) + (unat q2 * unat c + unat r2)) div unat c < 2 ^ 64"
  obtains q r where "carry c (q1 + q2) (r1 + r2) = (q, r)" "unat r < unat c"
    "unat q * unat c + unat r = (unat q1 * unat c + unat r1) + (unat q2 * unat c + unat r2)"
  using carry_exact [OF assms] by (cases "carry c (q1 + q2) (r1 + r2)") auto

lemma unat_eq_of_nat_div_mod:
  fixes q r :: u64
  assumes "unat q * c + unat r = n" and "unat r < c"
  shows "q = of_nat (n div c) \<and> r = of_nat (n mod c)"
proof -
  have "n div c = unat q" "n mod c = unat r" using assms by auto
  then show ?thesis by simp
qed

lemma multiplyDivide_loop_exact:
  fixes a c quo rem qn rn :: u64
  assumes c: "unat c \<le> 2 ^ 63" and rem: "unat rem < unat c" and rn: "unat rn < unat c"
    and N: "N = (unat quo * unat c + unat rem) + unat a * (unat qn * unat c + unat rn)"
    and fits: "N div unat c < 2 ^ 64"
  shows "multiplyDivide_loop a c quo rem qn rn = (of_nat (N div unat c), of_nat (N mod unat c))"
  using rem rn N
proof (induction "unat a" arbitrary: a quo rem qn rn rule: less_induct)
  case less
  let ?C = "unat c" let ?Y = "unat qn * ?C + unat rn" let ?X = "unat quo * ?C + unat rem"
  let ?a' = "drop_bit 1 a"
  show ?case
  proof (cases "a = 0")
    case True
    with less.prems show ?thesis
      by (simp add: multiplyDivide_loop.simps unat_eq_of_nat_div_mod)
  next
    case False
    have a': "unat ?a' = unat a div 2"
      by (simp add: unat_drop_bit_eq drop_bit_eq_div unat_div_distrib)
    have A: "unat a = 2 * unat ?a' + (if odd a then 1 else 0)"
      unfolding a' by (auto simp: even_unat_iff elim: oddE evenE)
    obtain quo1 rem1 where
      s1: "(if odd a then carry c (quo + qn) (rem + rn) else (quo, rem)) = (quo1, rem1)"
      and r1: "unat rem1 < ?C"
      and x1: "unat quo1 * ?C + unat rem1 = ?X + (if odd a then ?Y else 0)"
    proof (cases "odd a")
      case True
      then have "?X + ?Y \<le> N" using A less.prems(3) by simp
      then have "(?X + ?Y) div ?C < 2 ^ 64" using fits div_le_mono le_less_trans by blast
      from carry_exact_obtain [OF c less.prems(1,2) this] that True show ?thesis by auto
    qed (use that less.prems in auto)
    have le: "\<not> quo1 < quo"
    proof -
      have "unat quo \<le> (unat quo1 * ?C + unat rem1) div ?C"
        using div_le_mono [of ?X "unat quo1 * ?C + unat rem1" ?C] x1 less.prems(1) by simp
      then show ?thesis using r1 by (simp add: word_less_nat_alt)
    qed
    have N1: "N = (unat quo1 * ?C + unat rem1) + unat ?a' * (?Y + ?Y)"
      using x1 A less.prems(3) by (auto simp: algebra_simps)
    obtain qn1 rn1 where s2: "carry c (push_bit 1 qn) (push_bit 1 rn) = (qn1, rn1)"
      by fastforce
    have step: "multiplyDivide_loop a c quo rem qn rn = multiplyDivide_loop ?a' c quo1 rem1 qn1 rn1"
      by (subst multiplyDivide_loop.simps) (use False s1 le s2 in simp)
    show ?thesis
    proof (cases "?a' = 0")
      case True
      with N1 r1 show ?thesis unfolding step
        by (simp add: multiplyDivide_loop.simps unat_eq_of_nat_div_mod)
    next
      case nz: False
      have "?Y + ?Y \<le> unat ?a' * (?Y + ?Y)" using nz by (simp add: unat_gt_0 [symmetric])
      then have "(?Y + ?Y) div ?C < 2 ^ 64"
        using fits N1 div_le_mono [of "?Y + ?Y" N ?C] by linarith
      from carry_exact_obtain [OF c less.prems(2,2) this]
      obtain q r where q: "carry c (qn + qn) (rn + rn) = (q, r)" "unat r < ?C"
        "unat q * ?C + unat r = ?Y + ?Y" by blast
      with s2 have "qn1 = q" "rn1 = r" by (simp_all flip: mult_2_right)
      moreover have "unat ?a' < unat a"
        using False a' by (simp only: unat_gt_0 [symmetric])
      ultimately show ?thesis unfolding step using q N1 r1
        by (intro less.hyps) simp_all
    qed
  qed
qed

lemma multiplyDivide_correct:
  assumes "0 < unat c" and "unat c \<le> 2 ^ 63" and "unat a * unat b div unat c < 2 ^ 64"
  shows "multiplyDivide a b c =
    Inr (of_nat (unat a * unat b div unat c), of_nat (unat a * unat b mod unat c))"
proof -
  have "c \<noteq> 0" using assms(1) by auto
  moreover have "unat (b mod c) < unat c" using assms(1) by (simp add: unat_mod_distrib)
  moreover have "unat b = unat (b div c) * unat c + unat (b mod c)"
    by (simp add: unat_div_distrib unat_mod_distrib)
  ultimately show ?thesis
    using assms multiplyDivide_loop_exact [of c 0 "b mod c" _ 0 a "b div c"]
    by (simp add: multiplyDivide_def)
qed

text \<open>
  C40. \<open>multiplyDivide\<close> computes the exact quotient and remainder of \<open>a * b\<close> by \<open>c\<close>,
  although \<open>a * b\<close> may need 128 bits, for every divisor up to \<open>2\<^sup>6\<^sup>3\<close> and every
  quotient that fits 64 bits.
\<close>

theorem multiplyDivide_exact:
  assumes "0 < unat c" and "unat c \<le> 2 ^ 63" and "unat a * unat b div unat c < 2 ^ 64"
  shows "multiplyDivide a b c =
    Inr (of_nat (unat a * unat b div unat c), of_nat (unat a * unat b mod unat c))"
  using assms by (rule multiplyDivide_correct)

theorem multiplyDivide_exact_witness:
  "multiplyDivide (2 ^ 40) (2 ^ 40) (2 ^ 20) = Inr (2 ^ 60, 0)"
  using multiplyDivide_exact [of "2 ^ 20" "2 ^ 40" "2 ^ 40"] by simp

lemma multiplyDivideFloor_exact:
  assumes "0 < unat c" and "unat c \<le> 2 ^ 63" and "unat a * unat b div unat c < 2 ^ 64"
  shows "multiplyDivideFloor a b c = Inr (of_nat (unat a * unat b div unat c))"
  using multiplyDivide_correct [OF assms] by (simp add: multiplyDivideFloor_def)

text \<open>
  For any divisor, also one over \<open>2\<^sup>6\<^sup>3\<close> where steps of the loop wrap, the quotient is never too large.
\<close>

lemma carry_le: "unat (fst (carry c q r)) * unat c + unat (snd (carry c q r)) \<le> unat q * unat c + unat r"
proof (cases "r \<ge> c")
  case True
  then have r: "unat (r - c) + unat c = unat r" by (simp add: unat_sub_u64 word_le_nat_alt)
  have "unat (q + 1) \<le> unat q + 1"
    using unat_add_u64 [of q 1] unat_add_wrap_u64 [of q 1] by (cases "unat q + unat (1 :: u64) < 2 ^ 64") auto
  then have "unat (q + 1) * unat c \<le> unat q * unat c + unat c"
    by (metis mult_le_mono1 add_mult_distrib nat_mult_1)
  with True r show ?thesis by (simp add: carry_def)
qed (simp add: carry_def)

lemma unat_add_le: "unat (x + y :: u64) \<le> unat x + unat y"
  using unat_add_u64 [of x y] unat_add_wrap_u64 [of x y] by (cases "unat x + unat y < 2 ^ 64") auto


lemma unat_double_le: "unat (push_bit 1 x :: u64) \<le> 2 * unat x"
proof -
  have "push_bit 1 x = x + x" by (simp add: push_bit_eq_mult mult_2_right)
  then show ?thesis using unat_add_le [of x x] by (simp only: mult_2)
qed

lemma weight_mono: "x \<le> x' \<Longrightarrow> y \<le> y' \<Longrightarrow> x * c + y \<le> x' * c + (y' :: nat)"
  by (intro add_mono mult_le_mono1)

lemma carry_no_wrap:
  assumes "0 < unat c" "(unat q + unat d) * unat c + (unat r + unat s) \<le> N" "N div unat c < 2 ^ 64"
  shows "q \<le> fst (carry c (q + d) (r + s))"
proof -
  have "(unat q + unat d) * unat c \<le> N" using assms(2) by linarith
  then have "unat q + unat d \<le> N div unat c" using assms(1) by (simp add: less_eq_div_iff_mult_less_eq)
  then have qd: "unat (q + d) = unat q + unat d" using assms(3) by (intro unat_add_u64) linarith
  show ?thesis
  proof (cases "c \<le> r + s")
    case True
    then have "unat c \<le> unat r + unat s" using unat_add_le [of r s] by (simp add: word_le_nat_alt)
    then have "(unat q + unat d + 1) * unat c \<le> N" using assms(2) by (simp add: add_mult_distrib)
    then have "unat q + unat d + 1 \<le> N div unat c" using assms(1) by (simp only: less_eq_div_iff_mult_less_eq)
    then have "unat (q + d + 1) = unat q + unat d + 1" using qd assms(3) by (subst unat_add_u64) auto
    with True show ?thesis by (simp add: carry_def word_le_nat_alt)
  qed (use qd in \<open>simp add: carry_def word_le_nat_alt\<close>)
qed

lemma multiplyDivide_loop_le:
  assumes "0 < unat c"
    and "(unat quo * unat c + unat rem) + unat a * (unat qn * unat c + unat rn) \<le> N" and "N div unat c < 2 ^ 64"
  shows "unat (fst (multiplyDivide_loop a c quo rem qn rn)) \<le> N div unat c"
  using assms
proof (induction a c quo rem qn rn rule: multiplyDivide_loop.induct)
  case (1 a c quo rem qn rn)
  define S where "S = unat quo * unat c + unat rem"
  define Q where "Q = unat qn * unat c + unat rn"
  define p1 where "p1 = (if odd a then carry c (quo + qn) (rem + rn) else (quo, rem))"
  define p2 where "p2 = carry c (push_bit 1 qn) (push_bit 1 rn)"
  note N = "1.prems"(2) [folded S_def Q_def]
  show ?case
  proof (cases "a = 0")
    case True
    have "unat quo * unat c \<le> N" using N by (simp add: S_def)
    with True "1.prems"(1) show ?thesis
      by (simp add: multiplyDivide_loop.simps less_eq_div_iff_mult_less_eq)
  next
    case False
    have a: "unat a = 2 * unat (drop_bit 1 a) + (if odd a then 1 else 0)"
      by (simp add: drop_bit_eq_div unat_div_distrib flip: even_unat_iff)
    have v1: "unat (fst p1) * unat c + unat (snd p1) \<le> S + (if odd a then Q else 0)"
      using carry_le [of c "quo + qn" "rem + rn"] weight_mono [OF unat_add_le unat_add_le, of quo qn "unat c" rem rn]
      by (auto simp: p1_def S_def Q_def algebra_simps)
    have v2: "unat (fst p2) * unat c + unat (snd p2) \<le> 2 * Q"
      using carry_le [of c "push_bit 1 qn" "push_bit 1 rn"]
        weight_mono [OF unat_double_le unat_double_le, of qn "unat c" rn]
      by (simp add: p2_def Q_def algebra_simps)
    have ge: "quo \<le> fst p1"
    proof (cases "odd a")
      case True
      have "S + Q \<le> N" using N a True by (simp add: algebra_simps)
      then have "(unat quo + unat qn) * unat c + (unat rem + unat rn) \<le> N" by (simp add: S_def Q_def algebra_simps)
      from carry_no_wrap [OF "1.prems"(1) this "1.prems"(3)] True show ?thesis by (simp add: p1_def)
    qed (simp add: p1_def)
    have "unat (drop_bit 1 a) * (unat (fst p2) * unat c + unat (snd p2)) \<le> unat (drop_bit 1 a) * (2 * Q)"
      using v2 by (rule mult_le_mono2)
    with v1 N a have step: "(unat (fst p1) * unat c + unat (snd p1))
        + unat (drop_bit 1 a) * (unat (fst p2) * unat c + unat (snd p2)) \<le> N"
      by (cases "odd a") (simp_all add: algebra_simps)
    have "unat (fst (multiplyDivide_loop (drop_bit 1 a) c (fst p1) (snd p1) (fst p2) (snd p2))) \<le> N div unat c"
      using "1.IH" [OF False p1_def prod.collapse _ p2_def prod.collapse] ge step "1.prems" by auto
    moreover have "multiplyDivide_loop a c quo rem qn rn
        = multiplyDivide_loop (drop_bit 1 a) c (fst p1) (snd p1) (fst p2) (snd p2)"
      unfolding multiplyDivide_loop.simps [of a c quo rem] p1_def [symmetric] p2_def [symmetric]
      using False leD [OF ge] by (simp add: case_prod_beta)
    ultimately show ?thesis by simp
  qed
qed

lemma multiplyDivideFloor_le:
  assumes "multiplyDivideFloor a b c = Inr q" "unat b \<le> unat c"
  shows "unat q \<le> unat a * unat b div unat c"
proof -
  have c: "0 < unat c" using assms(1) by (auto simp: multiplyDivideFloor_def multiplyDivide_def unat_gt_0 split: if_splits)
  have b: "unat (b div c) * unat c + unat (b mod c) = unat b" by (simp add: unat_div_distrib unat_mod_distrib)
  have "unat a * unat b div unat c \<le> unat a"
    using div_le_mono [OF mult_le_mono2 [OF assms(2), of "unat a"], of "unat c"] c by simp
  then have "unat a * unat b div unat c < 2 ^ 64" using unat_u64_less [of a] by linarith
  moreover have "q = fst (multiplyDivide_loop a c 0 0 (b div c) (b mod c))"
    using assms(1) by (auto simp: multiplyDivideFloor_def multiplyDivide_def split: if_splits prod.splits)
  ultimately show ?thesis
    using multiplyDivide_loop_le [OF c, of 0 0 a "b div c" "b mod c" "unat a * unat b"] b by simp
qed

lemma multiplyDivideCeil_exact:
  assumes c: "0 < unat c" "unat c \<le> 2 ^ 63"
    and fits: "(unat a * unat b + unat c - 1) div unat c < 2 ^ 64"
  shows "\<exists>v. multiplyDivideCeil a b c = Inr v \<and> unat v = (unat a * unat b + unat c - 1) div unat c"
proof -
  let ?n = "unat a * unat b" let ?q = "?n div unat c"
  have split: "(?n + unat c - 1) div unat c = ?q + (if ?n mod unat c = 0 then 0 else 1)"
    using c(1) by (rule ceil_div_split)
  have q: "?q < 2 ^ 64" using fits split by linarith
  have md: "multiplyDivide a b c = Inr (of_nat ?q, of_nat (?n mod unat c))"
    using c q by (rule multiplyDivide_correct)
  have m: "?n mod unat c < 2 ^ 64"
    using c by (meson le_less_trans less_imp_le mod_less_divisor unat_u64_less)
  have r: "(of_nat (?n mod unat c) :: u64) = 0 \<longleftrightarrow> ?n mod unat c = 0"
    by (simp only: word_unat_eq_iff unat_of_nat_u64 [OF m] unat_0)
  have mx: "(of_nat ?q :: u64) = MAX_UNSIGNED_VALUE \<longleftrightarrow> ?q = 2 ^ 64 - 1"
    by (simp only: word_unat_eq_iff unat_of_nat_u64 [OF q] unat_max_unsigned)
  show ?thesis
  proof (cases "?q = 2 ^ 64 - 1")
    case True
    with split fits have "?n mod unat c = 0" by (auto split: if_splits)
    with True mx md split show ?thesis
      by (simp add: multiplyDivideCeil_def unat_max_unsigned)
  next
    case False
    then have "unat (of_nat ?q + 1 :: u64) = ?q + 1"
      using q by (subst unat_add_u64) (simp_all add: unat_of_nat_u64)
    with False mx r md split q show ?thesis
      by (simp add: multiplyDivideCeil_def unat_of_nat_u64)
  qed
qed

text \<open>
  The overflow test of \<open>multiplyDivide\<close> misses quotients that only the doubled
  \<open>qn\<close> exceeds: \<open>2 * 2\<^sup>6\<^sup>3 / 1\<close> returns \<open>0\<close> instead of saturating at
  \<open>MAX_UNSIGNED_VALUE\<close>.
\<close>

theorem multiplyDivide_missed_overflow: "multiplyDivideFloor 2 (2 ^ 63) 1 = Inr 0"
  by (simp add: multiplyDivideFloor_def multiplyDivide_def multiplyDivide_loop.simps carry_def)

section \<open>Counting decimal digits\<close>

lemma countDigits_loop_bounds:
  "v \<noteq> 0 \<Longrightarrow> \<exists>k. countDigits_loop v d = d + Suc k \<and> 10 ^ k \<le> unat v \<and> unat v < 10 ^ Suc k"
proof (induction v d rule: countDigits_loop.induct)
  case (1 v d)
  show ?case
  proof (cases "v div 10 = 0")
    case True
    then have "unat v < 10" by (simp add: word_unat_eq_iff unat_div_distrib)
    with True "1.prems" show ?thesis
      by (intro exI [of _ 0]) (simp add: countDigits_loop.simps unat_gt_0 Suc_le_eq)
  next
    case False
    with "1.IH" "1.prems" obtain k where k: "countDigits_loop (v div 10) (d + 1) = d + 1 + Suc k"
      "10 ^ k \<le> unat (v div 10)" "unat (v div 10) < 10 ^ Suc k" by auto
    then have "10 ^ Suc k \<le> unat v \<and> unat v < 10 ^ Suc (Suc k)"
      by (auto simp: unat_div_distrib less_mult_imp_div_less)
    with k "1.prems" show ?thesis
      by (intro exI [of _ "Suc k"]) (simp add: countDigits_loop.simps [of v])
  qed
qed

lemma countDigits_zero [simp]: "countDigits 0 = 0"
  by (simp add: countDigits_def countDigits_loop.simps)

lemma countDigits_iff: "v \<noteq> 0 \<Longrightarrow> countDigits v = Suc k \<longleftrightarrow> 10 ^ k \<le> unat v \<and> unat v < 10 ^ Suc k"
proof -
  assume "v \<noteq> 0"
  then obtain j where j: "countDigits v = Suc j" "10 ^ j \<le> unat v" "unat v < 10 ^ Suc j"
    using countDigits_loop_bounds [of v 0] by (auto simp: countDigits_def)
  have "j = k" if "10 ^ k \<le> unat v" "unat v < 10 ^ Suc k"
  proof -
    have "(10::nat) ^ j < 10 ^ Suc k" "(10::nat) ^ k < 10 ^ Suc j" using j that by linarith+
    then have "j < Suc k" "k < Suc j" by (simp_all only: power_strict_increasing_iff)
    then show ?thesis by simp
  qed
  with j show ?thesis by auto
qed

end
