(* ===== verification/Stream_Crypto.thy ===== *)
theory Stream_Crypto
  imports Long_Util
begin

text \<open>
  \<^verbatim>\<open>ilp-protocol-stream/src/crypto.ts\<close> and \<^verbatim>\<open>ilp-protocol-stream/src/util/crypto-node.ts\<close>.

  Node's \<open>crypto\<close> module is not part of the program: its HMAC-SHA256, SHA256 and AES-256-GCM
  are the record \<open>crypto_lib\<close>, an argument of every definition that uses them, and the random
  bytes a function draws are an argument too. \<open>aead\<close> and \<open>digests\<close> state what the code relies on:
  decrypting with the nonce and the tag of an encryption returns the plain text, tags have 16 bytes and digests 32.
\<close>

record crypto_lib =
  lib_hmac :: "buffer \<Rightarrow> buffer \<Rightarrow> buffer"
  lib_sha256 :: "buffer \<Rightarrow> buffer"
  lib_gcm_encrypt :: "buffer \<Rightarrow> buffer \<Rightarrow> buffer \<Rightarrow> buffer \<times> buffer"
  lib_gcm_decrypt :: "buffer \<Rightarrow> buffer \<Rightarrow> buffer \<Rightarrow> buffer \<Rightarrow> buffer option"

text \<open>\<open>lib_gcm_encrypt key iv plaintext = (ciphertext, tag)\<close>;
  \<open>lib_gcm_decrypt key iv tag ciphertext\<close> is \<open>None\<close> when \<open>final\<close> throws.\<close>

definition aead :: "crypto_lib \<Rightarrow> bool" where
  "aead lib \<longleftrightarrow> (\<forall>key iv m. length iv = 12 \<longrightarrow>
     (case lib_gcm_encrypt lib key iv m of (c, tag) \<Rightarrow>
        length tag = 16 \<and> length c = length m \<and> lib_gcm_decrypt lib key iv tag c = Some m))"

definition digests :: "crypto_lib \<Rightarrow> bool" where
  "digests lib \<longleftrightarrow> (\<forall>key m. length (lib_hmac lib key m) = 32) \<and> (\<forall>m. length (lib_sha256 lib m) = 32)"

definition IV_LENGTH :: nat where "IV_LENGTH = 12"
definition AUTH_TAG_LENGTH :: nat where "AUTH_TAG_LENGTH = 16"
definition ENCRYPTION_OVERHEAD :: int where "ENCRYPTION_OVERHEAD = 28"

definition encrypt :: "crypto_lib \<Rightarrow> buffer \<Rightarrow> buffer \<Rightarrow> buffer list \<Rightarrow> buffer" where
  "encrypt lib iv key buffers =
     (let (ciphertext, tag) = lib_gcm_encrypt lib key iv (concat buffers) in iv @ tag @ ciphertext)"

definition decrypt :: "crypto_lib \<Rightarrow> buffer \<Rightarrow> buffer \<Rightarrow> buffer result" where
  "decrypt lib key data =
     (if length data = 0 then Inl (AssertionError ''cannot decrypt empty buffer'')
      else
        let nonce = take IV_LENGTH data;
            tag = slice IV_LENGTH AUTH_TAG_LENGTH data;
            encrypted = drop (IV_LENGTH + AUTH_TAG_LENGTH) data
        in case lib_gcm_decrypt lib key nonce tag encrypted of
             None \<Rightarrow> Inl (Error ''Unsupported state or unable to authenticate data'')
           | Some m \<Rightarrow> Inr m)"

definition utf8 :: "string \<Rightarrow> buffer" where
  "utf8 s = utf8_encode (js s)"

definition generateSharedSecretFromToken :: "crypto_lib \<Rightarrow> buffer \<Rightarrow> buffer \<Rightarrow> buffer" where
  "generateSharedSecretFromToken lib seed token =
     lib_hmac lib (lib_hmac lib seed (utf8 ''ilp_stream_shared_secret'')) token"

definition generateReceiptHMAC :: "crypto_lib \<Rightarrow> buffer \<Rightarrow> buffer \<Rightarrow> buffer" where
  "generateReceiptHMAC lib secret message = lib_hmac lib secret message"

definition encryptConnectionAddressToken :: "crypto_lib \<Rightarrow> buffer \<Rightarrow> buffer \<Rightarrow> buffer \<Rightarrow> buffer" where
  "encryptConnectionAddressToken lib iv seed token = encrypt lib iv seed [token]"

definition decryptConnectionAddressToken :: "crypto_lib \<Rightarrow> buffer \<Rightarrow> buffer \<Rightarrow> buffer result" where
  "decryptConnectionAddressToken lib seed token = decrypt lib seed token"

definition generatePskEncryptionKey :: "crypto_lib \<Rightarrow> buffer \<Rightarrow> buffer" where
  "generatePskEncryptionKey lib sharedSecret = lib_hmac lib sharedSecret (utf8 ''ilp_stream_encryption'')"

definition generateFulfillmentKey :: "crypto_lib \<Rightarrow> buffer \<Rightarrow> buffer" where
  "generateFulfillmentKey lib sharedSecret = lib_hmac lib sharedSecret (utf8 ''ilp_stream_fulfillment'')"

definition generateFulfillment :: "crypto_lib \<Rightarrow> buffer \<Rightarrow> buffer \<Rightarrow> buffer" where
  "generateFulfillment lib fulfillmentKey data = lib_hmac lib fulfillmentKey data"

text \<open>\<open>sequence.toBytes()\<close> is big-endian by default.\<close>

definition generateIncomingPacketId :: "crypto_lib \<Rightarrow> buffer \<Rightarrow> u64 \<Rightarrow> buffer" where
  "generateIncomingPacketId lib sharedSecret sequence =
     lib_hmac lib sharedSecret (utf8 ''ilp_stream_packet_id'' @ nat_to_be 8 (unat sequence))"

section \<open>Encryption round trip\<close>

lemma encrypt_facts:
  assumes "aead lib" "length iv = 12"
  shows "length (encrypt lib iv key bs) = 28 + length (concat bs)"
    and "decrypt lib key (encrypt lib iv key bs) = Inr (concat bs)"
proof -
  obtain c tag where ct: "lib_gcm_encrypt lib key iv (concat bs) = (c, tag)" by fastforce
  have "case lib_gcm_encrypt lib key iv (concat bs) of (c, tag) \<Rightarrow> length tag = 16
      \<and> length c = length (concat bs) \<and> lib_gcm_decrypt lib key iv tag c = Some (concat bs)"
    using assms(1) [unfolded aead_def, rule_format, OF assms(2)] .
  with ct assms(2) show "length (encrypt lib iv key bs) = 28 + length (concat bs)"
    "decrypt lib key (encrypt lib iv key bs) = Inr (concat bs)"
    by (auto simp: encrypt_def decrypt_def IV_LENGTH_def AUTH_TAG_LENGTH_def slice_def)
qed

text \<open>A library that satisfies the contract: the identity cipher with a constant tag.\<close>

definition null_lib :: crypto_lib where
  "null_lib = \<lparr>lib_hmac = (\<lambda>key m. replicate 32 0), lib_sha256 = (\<lambda>m. replicate 32 0),
     lib_gcm_encrypt = (\<lambda>key iv m. (m, replicate 16 0)),
     lib_gcm_decrypt = (\<lambda>key iv tag c. Some c)\<rparr>"

lemma null_lib_ok: "aead null_lib" "digests null_lib"
  by (simp_all add: aead_def digests_def null_lib_def)

end
