(* ===== verification/Stream_Packet.thy ===== *)
theory Stream_Packet
  imports Oer_Predictor Stream_Crypto
begin

text \<open>
  \<^verbatim>\<open>ilp-protocol-stream/src/packet.ts\<close>: STREAM frames and packets.

  A frame class is a constructor of \<open>frame\<close>; its \<open>Long\<close> properties, which the constructors
  force to be unsigned, are 64-bit words. \<open>writeContentsTo\<close> walks over the own properties in order of assignment
  (\<open>properties\<close>), as the base class does by reflection. The writers take the implementation of
  \<open>WriterInterface\<close> as an argument, since the code runs them on a \<open>Predictor\<close> first and on a
  \<open>Writer\<close> of the predicted capacity next.
\<close>

datatype frame =
    ConnectionClose nat jsstring
  | ConnectionNewAddress jsstring
  | ConnectionMaxData u64
  | ConnectionDataBlocked u64
  | ConnectionMaxStreamId u64
  | ConnectionStreamIdBlocked u64
  | ConnectionAssetDetails jsstring nat
  | StreamClose u64 nat jsstring
  | StreamMoney u64 u64
  | StreamMaxMoney u64 u64 u64
  | StreamMoneyBlocked u64 u64 u64
  | StreamData u64 u64 buffer
  | StreamMaxData u64 u64
  | StreamDataBlocked u64 u64
  | StreamReceipt u64 buffer

fun FrameType :: "frame \<Rightarrow> nat" where
  "FrameType (ConnectionClose _ _) = 0x01"
| "FrameType (ConnectionNewAddress _) = 0x02"
| "FrameType (ConnectionMaxData _) = 0x03"
| "FrameType (ConnectionDataBlocked _) = 0x04"
| "FrameType (ConnectionMaxStreamId _) = 0x05"
| "FrameType (ConnectionStreamIdBlocked _) = 0x06"
| "FrameType (ConnectionAssetDetails _ _) = 0x07"
| "FrameType (StreamClose _ _ _) = 0x10"
| "FrameType (StreamMoney _ _) = 0x11"
| "FrameType (StreamMaxMoney _ _ _) = 0x12"
| "FrameType (StreamMoneyBlocked _ _ _) = 0x13"
| "FrameType (StreamData _ _ _) = 0x14"
| "FrameType (StreamMaxData _ _) = 0x15"
| "FrameType (StreamDataBlocked _ _) = 0x16"
| "FrameType (StreamReceipt _ _) = 0x17"

text \<open>The values of \<open>ErrorCode\<close> that the connection uses.\<close>

definition NoError :: nat where "NoError = 1"
definition InternalErrorCode :: nat where "InternalErrorCode = 2"
definition FlowControlError :: nat where "FlowControlError = 4"
definition StreamIdError :: nat where "StreamIdError = 5"
definition StreamStateError :: nat where "StreamStateError = 6"
definition ProtocolViolation :: nat where "ProtocolViolation = 8"
definition ApplicationError :: nat where "ApplicationError = 9"

datatype property = NumP nat | StrP jsstring | BufP buffer | LongP u64

fun properties :: "frame \<Rightarrow> property list" where
  "properties (ConnectionClose c m) = [NumP c, StrP m]"
| "properties (ConnectionNewAddress a) = [StrP a]"
| "properties (ConnectionMaxData x) = [LongP x]"
| "properties (ConnectionDataBlocked x) = [LongP x]"
| "properties (ConnectionMaxStreamId x) = [LongP x]"
| "properties (ConnectionStreamIdBlocked x) = [LongP x]"
| "properties (ConnectionAssetDetails c s) = [StrP c, NumP s]"
| "properties (StreamClose i c m) = [LongP i, NumP c, StrP m]"
| "properties (StreamMoney i s) = [LongP i, LongP s]"
| "properties (StreamMaxMoney i r t) = [LongP i, LongP r, LongP t]"
| "properties (StreamMoneyBlocked i s t) = [LongP i, LongP s, LongP t]"
| "properties (StreamData i off d) = [LongP i, LongP off, BufP d]"
| "properties (StreamMaxData i x) = [LongP i, LongP x]"
| "properties (StreamDataBlocked i x) = [LongP i, LongP x]"
| "properties (StreamReceipt i d) = [LongP i, BufP d]"

fun write_property :: "'w writer_ops \<Rightarrow> property \<Rightarrow> 'w \<Rightarrow> 'w result" where
  "write_property ops (NumP n) = op_writeUInt ops (num (int n)) 1"
| "write_property ops (StrP s) = op_writeVarOctetString ops (utf8_encode s)"
| "write_property ops (BufP b) = op_writeVarOctetString ops b"
| "write_property ops (LongP x) = op_writeVarUInt ops (ulong x)"

definition writeContentsTo :: "'w writer_ops \<Rightarrow> frame \<Rightarrow> 'w \<Rightarrow> 'w result" where
  "writeContentsTo ops f = efold (write_property ops) (properties f)"

definition frame_writeTo :: "'w writer_ops \<Rightarrow> frame \<Rightarrow> 'w \<Rightarrow> 'w result" where
  "frame_writeTo ops f w =
     ebind (predict (writeContentsTo Predictor f)) (\<lambda>len.
     ebind (op_writeUInt ops (num (int (FrameType f))) 1 w)
       (op_createVarOctetString ops len (writeContentsTo ops f)))"

definition frame_byteLength :: "frame \<Rightarrow> int result" where
  "frame_byteLength f = predict (frame_writeTo Predictor f)"

text \<open>The constructor of \<open>StreamMaxMoneyFrame\<close> takes an infinite limit.\<close>

definition newStreamMaxMoney :: "long_value \<Rightarrow> long_value \<Rightarrow> long_value \<Rightarrow> frame result" where
  "newStreamMaxMoney streamId receiveMax totalReceived =
     (let receiveMax = (if receiveMax \<in> NumV ` {NaN, Infinity, NegInfinity}
                        then ulong MAX_UNSIGNED_VALUE else receiveMax)
      in ebind (stream_longFromValue streamId True) (\<lambda>i.
         ebind (stream_longFromValue receiveMax True) (\<lambda>r.
         ebind (stream_longFromValue totalReceived True) (\<lambda>t.
           Inr (StreamMaxMoney (long_bits i) (long_bits r) (long_bits t))))))"

section \<open>Parsing frames\<close>

definition saturatingReadVarUInt :: "long rd" where
  "saturatingReadVarUInt = rbind peekVarOctetString (\<lambda>b.
     if 8 < length b then rbind skipVarOctetString (\<lambda>_. rret (Long MAX_UNSIGNED_VALUE True))
     else readVarUIntLong)"

definition readString :: "jsstring rd" where
  "readString = rbind readVarOctetString (\<lambda>b. rret (utf8_decode b))"

definition readLong :: "u64 rd" where
  "readLong = rbind readVarUIntLong (\<lambda>l. rret (long_bits l))"

definition readSaturating :: "u64 rd" where
  "readSaturating = rbind saturatingReadVarUInt (\<lambda>l. rret (long_bits l))"

definition fromContents :: "nat \<Rightarrow> frame option rd" where
  "fromContents type =
     (if type = 0x01 then rbind readUInt8Number (\<lambda>c. rbind readString (\<lambda>m. rret (Some (ConnectionClose c m))))
      else if type = 0x02 then rbind readString (\<lambda>a. rret (Some (ConnectionNewAddress a)))
      else if type = 0x07 then rbind readString (\<lambda>c. rbind readUInt8Number (\<lambda>s. rret (Some (ConnectionAssetDetails c s))))
      else if type = 0x03 then rbind readLong (\<lambda>x. rret (Some (ConnectionMaxData x)))
      else if type = 0x04 then rbind readLong (\<lambda>x. rret (Some (ConnectionDataBlocked x)))
      else if type = 0x05 then rbind readLong (\<lambda>x. rret (Some (ConnectionMaxStreamId x)))
      else if type = 0x06 then rbind readLong (\<lambda>x. rret (Some (ConnectionStreamIdBlocked x)))
      else if type = 0x10 then rbind readLong (\<lambda>i. rbind readUInt8Number (\<lambda>c. rbind readString (\<lambda>m.
        rret (Some (StreamClose i c m)))))
      else if type = 0x11 then rbind readLong (\<lambda>i. rbind readLong (\<lambda>s. rret (Some (StreamMoney i s))))
      else if type = 0x12 then rbind readLong (\<lambda>i. rbind readSaturating (\<lambda>r. rbind readLong (\<lambda>t.
        rret (Some (StreamMaxMoney i r t)))))
      else if type = 0x13 then rbind readLong (\<lambda>i. rbind readSaturating (\<lambda>s. rbind readLong (\<lambda>t.
        rret (Some (StreamMoneyBlocked i s t)))))
      else if type = 0x14 then rbind readLong (\<lambda>i. rbind readLong (\<lambda>off. rbind readVarOctetString (\<lambda>d.
        rret (Some (StreamData i off d)))))
      else if type = 0x15 then rbind readLong (\<lambda>i. rbind readLong (\<lambda>x. rret (Some (StreamMaxData i x))))
      else if type = 0x16 then rbind readLong (\<lambda>i. rbind readLong (\<lambda>x. rret (Some (StreamDataBlocked i x))))
      else if type = 0x17 then rbind readLong (\<lambda>i. rbind readVarOctetString (\<lambda>d. rret (Some (StreamReceipt i d))))
      else rret None)"

text \<open>An unknown type is \<open>undefined\<close>; the contents are parsed by a reader of their own.\<close>

definition parseFrame :: "frame option rd" where
  "parseFrame = rbind readUInt8Number (\<lambda>type.
     rbind readVarOctetString (\<lambda>contents. rlift (run_reader (fromContents type) contents)))"

section \<open>Packets\<close>

record stream_packet =
  sequence :: u64
  ilpPacketType :: nat
  prepareAmount :: u64
  frames :: "frame list"

definition packet_writeTo :: "'w writer_ops \<Rightarrow> stream_packet \<Rightarrow> 'w \<Rightarrow> 'w result" where
  "packet_writeTo ops p w =
     ebind (op_writeUInt ops (ulong 1) 1 w) (\<lambda>w.
     ebind (op_writeUInt ops (num (int (ilpPacketType p))) 1 w) (\<lambda>w.
     ebind (op_writeVarUInt ops (ulong (sequence p)) w) (\<lambda>w.
     ebind (op_writeVarUInt ops (ulong (prepareAmount p)) w) (\<lambda>w.
     ebind (op_writeVarUInt ops (num (int (length (frames p)))) w)
       (efold (frame_writeTo ops) (frames p))))))"

definition serialize :: "stream_packet \<Rightarrow> buffer result" where
  "serialize p = ebind (predict (packet_writeTo Predictor p)) (\<lambda>len.
     written (packet_writeTo Writer p) (new_writer_capacity (nat len)))"

definition byteLength :: "stream_packet \<Rightarrow> int result" where
  "byteLength p = ebind (predict (packet_writeTo Predictor p)) (\<lambda>len. Inr (len + ENCRYPTION_OVERHEAD))"

definition read_packet :: "stream_packet rd" where
  "read_packet =
     rbind readUInt8Long (\<lambda>version.
     if long_bits version \<noteq> 1 then rthrow (Error ''Unsupported protocol version'')
     else rbind readUInt8Number (\<lambda>type.
          rbind readLong (\<lambda>seq.
          rbind readLong (\<lambda>am.
          rbind readVarUIntNumber (\<lambda>numFrames.
          rbind (rrepeat numFrames parseFrame) (\<lambda>fs.
            rret \<lparr>sequence = seq, ilpPacketType = type, prepareAmount = am,
                  frames = List.map_filter id fs\<rparr>))))))"

definition deserializeUnencrypted :: "buffer \<Rightarrow> stream_packet result" where
  "deserializeUnencrypted bs = run_reader read_packet bs"

definition decryptAndDeserialize :: "crypto_lib \<Rightarrow> buffer \<Rightarrow> buffer \<Rightarrow> stream_packet result" where
  "decryptAndDeserialize lib key bs =
     (case decrypt lib key bs of
        Inl e \<Rightarrow> Inl (Error ''Unable to decrypt packet. Data was corrupted or packet was encrypted with the wrong key'')
      | Inr decrypted \<Rightarrow> deserializeUnencrypted decrypted)"

text \<open>
  The padding after the serialized packet. \<open>paddingSize % 32\<close> has the sign of \<open>paddingSize\<close> and
  \<open>slice(0, e)\<close> with a negative \<open>e\<close> drops \<open>-e\<close> bytes from the end.
\<close>

definition padding :: "int \<Rightarrow> buffer list" where
  "padding paddingSize =
     replicate (nat (paddingSize div 32)) (replicate 32 0)
     @ [if 0 \<le> paddingSize then replicate (nat (paddingSize mod 32)) 0
        else if (- paddingSize) mod 32 = 0 then []
        else replicate (32 - nat ((- paddingSize) mod 32)) 0]"

definition serializeAndEncrypt ::
  "crypto_lib \<Rightarrow> buffer \<Rightarrow> buffer \<Rightarrow> int option \<Rightarrow> stream_packet \<Rightarrow> buffer result" where
  "serializeAndEncrypt lib iv key padPacketToSize p =
     ebind (serialize p) (\<lambda>serialized.
       case padPacketToSize of
         Some size' \<Rightarrow>
           let paddingSize = size' - ENCRYPTION_OVERHEAD - int (length serialized)
           in Inr (encrypt lib iv key (serialized # padding paddingSize))
       | None \<Rightarrow> Inr (encrypt lib iv key [serialized]))"

section \<open>What the writers emit\<close>

fun property_bytes :: "property \<Rightarrow> buffer" where
  "property_bytes (NumP n) = [of_nat n]"
| "property_bytes (StrP s) = var_octet (utf8_encode s)"
| "property_bytes (BufP b) = var_octet b"
| "property_bytes (LongP x) = var_uint (unat x)"

definition contents_bytes :: "frame \<Rightarrow> buffer" where
  "contents_bytes f = concat (map property_bytes (properties f))"

definition frame_bytes :: "frame \<Rightarrow> buffer" where
  "frame_bytes f = of_nat (FrameType f) # var_octet (contents_bytes f)"

definition packet_bytes :: "stream_packet \<Rightarrow> buffer" where
  "packet_bytes p = 1 # of_nat (ilpPacketType p) # var_uint (unat (sequence p))
     @ var_uint (unat (prepareAmount p)) @ var_uint (length (frames p))
     @ concat (map frame_bytes (frames p))"

fun property_ok :: "property \<Rightarrow> bool" where
  "property_ok (NumP n) = (n < 256)"
| "property_ok (StrP s) = (well_formed s \<and> length (utf8_encode s) < 2 ^ 40)"
| "property_ok (BufP b) = (length b < 2 ^ 40)"
| "property_ok (LongP x) = True"

text \<open>Frames and packets that have a faithful encoding.\<close>

definition frame_ok :: "frame \<Rightarrow> bool" where
  "frame_ok f = list_all property_ok (properties f)"

definition packet_ok :: "stream_packet \<Rightarrow> bool" where
  "packet_ok p \<longleftrightarrow> ilpPacketType p < 256 \<and> length (frames p) < 2 ^ 48 \<and> list_all frame_ok (frames p)"

lemma FrameType_less: "FrameType f < 256"
  by (cases f) simp_all

lemma var_uint_length_le: "n < 2 ^ 64 \<Longrightarrow> length (var_uint n) \<le> 9"
  using uint_size_bounds(1) [of n] by (simp add: var_uint_def var_octet_def length_prefix_length)

lemma property_bytes_length: "property_ok p \<Longrightarrow> length (property_bytes p) < 2 ^ 41"
proof (cases p)
  case (StrP s)
  assume "property_ok p"
  with StrP show ?thesis using uint_size_bounds(2) [of "length (utf8_encode s)"]
    by (simp add: var_octet_def length_prefix_length)
next
  case (BufP b)
  assume "property_ok p"
  with BufP show ?thesis using uint_size_bounds(2) [of "length b"]
    by (simp add: var_octet_def length_prefix_length)
next
  case (LongP x)
  then show ?thesis using var_uint_length_le [of "unat x"] unat_u64_less [of x] by simp
qed simp

lemma properties_length: "length (properties f) \<le> 3"
  by (cases f) simp_all

lemma concat_length_le:
  "(\<And>x. x \<in> set xs \<Longrightarrow> length (g x) \<le> b) \<Longrightarrow> length (concat (map g xs)) \<le> length xs * b"
proof (induction xs)
  case (Cons x xs)
  have "length (g x) \<le> b" "length (concat (map g xs)) \<le> length xs * b"
    using Cons by simp_all
  then show ?case by simp
qed simp

lemma contents_bytes_length: "frame_ok f \<Longrightarrow> length (contents_bytes f) < 2 ^ 48"
proof -
  assume "frame_ok f"
  then have "length (contents_bytes f) \<le> length (properties f) * 2 ^ 41"
    unfolding contents_bytes_def frame_ok_def
    by (intro concat_length_le less_imp_le property_bytes_length) (simp add: list_all_iff)
  also have "\<dots> \<le> 3 * 2 ^ 41" using properties_length by (rule mult_le_mono1)
  finally show ?thesis by simp
qed

context writer_interface
begin

lemma emits_property: "property_ok p \<Longrightarrow> emits (write_property ops p) (property_bytes p)"
proof (cases p)
  case (NumP n)
  assume "property_ok p"
  with NumP show ?thesis
    using emits_UInt8 [of "num (int n)" n] by (simp add: MAX_SAFE_INTEGER_def)
qed (simp_all add: emits_VarOctetString emits_VarUInt)

lemma emits_contents: "frame_ok f \<Longrightarrow> emits (writeContentsTo ops f) (contents_bytes f)"
  unfolding writeContentsTo_def contents_bytes_def frame_ok_def
  by (intro emits_fold emits_property) (simp add: list_all_iff)

end

lemma predict_contents: "frame_ok f \<Longrightarrow> predict (writeContentsTo Predictor f) = Inr (int (length (contents_bytes f)))"
  by (intro predict_emits pr.emits_contents)

context writer_interface
begin

lemma emits_frame:
  assumes "frame_ok f"
  shows "emits (frame_writeTo ops f) (frame_bytes f)"
proof -
  have "emits (op_writeUInt ops (num (int (FrameType f))) 1) [of_nat (FrameType f)]"
    using emits_UInt8 [of "num (int (FrameType f))"] FrameType_less [of f]
    by (simp add: MAX_SAFE_INTEGER_def)
  then have "emits (\<lambda>w. ebind (op_writeUInt ops (num (int (FrameType f))) 1 w)
      (op_createVarOctetString ops (int (length (contents_bytes f))) (writeContentsTo ops f)))
      ([of_nat (FrameType f)] @ var_octet (contents_bytes f))"
    by (intro emits_seq emits_createVarOctetString contents_bytes_length emits_contents assms refl)
  moreover have "frame_writeTo ops f = (\<lambda>w. ebind (op_writeUInt ops (num (int (FrameType f))) 1 w)
      (op_createVarOctetString ops (int (length (contents_bytes f))) (writeContentsTo ops f)))"
    by (simp add: frame_writeTo_def predict_contents [OF assms] fun_eq_iff)
  ultimately show ?thesis by (simp add: frame_bytes_def)
qed

lemma emits_packet:
  assumes "packet_ok p"
  shows "emits (packet_writeTo ops p) (packet_bytes p)"
proof -
  have fs: "emits (efold (frame_writeTo ops) (frames p)) (concat (map frame_bytes (frames p)))"
    using assms by (intro emits_fold emits_frame) (simp add: packet_ok_def list_all_iff)
  have v: "emits (op_writeUInt ops (ulong 1) 1) [1]"
    using emits_UInt8 [of "ulong 1" 1] by simp
  have t: "emits (op_writeUInt ops (num (int (ilpPacketType p))) 1) [of_nat (ilpPacketType p)]"
    using assms emits_UInt8 [of "num (int (ilpPacketType p))"]
    by (simp add: packet_ok_def MAX_SAFE_INTEGER_def)
  have n: "uint_value (num (int (length (frames p)))) = Some (length (frames p))"
    using assms by (simp add: packet_ok_def MAX_SAFE_INTEGER_def)
  have "emits (packet_writeTo ops p) ([1] @ [of_nat (ilpPacketType p)] @ var_uint (unat (sequence p))
     @ var_uint (unat (prepareAmount p)) @ var_uint (length (frames p)) @ concat (map frame_bytes (frames p)))"
    unfolding packet_writeTo_def
    by (intro emits_seq v t fs emits_VarUInt n uint_value_ulong)
  then show ?thesis by (simp add: packet_bytes_def)
qed

end

lemma serialize_bytes: "packet_ok p \<Longrightarrow> serialize p = Inr (packet_bytes p)"
  using predict_emits [OF pr.emits_packet [of p]] written_emits_capacity [OF wr.emits_packet [of p]]
  by (simp add: serialize_def)

lemma byteLength_bytes: "packet_ok p \<Longrightarrow> byteLength p = Inr (int (length (packet_bytes p)) + 28)"
  using predict_emits [OF pr.emits_packet [of p]] by (simp add: byteLength_def ENCRYPTION_OVERHEAD_def)

lemma frame_byteLength_bytes: "frame_ok f \<Longrightarrow> frame_byteLength f = Inr (int (length (frame_bytes f)))"
  using predict_emits [OF pr.emits_frame [of f]] by (simp add: frame_byteLength_def)

section \<open>What the parsers accept\<close>

lemma reads_peek:
  assumes "reads p bs v" and "reads (k v) (bs @ bs') w"
  shows "reads (rbind (peeking p) k) (bs @ bs') w"
proof (rule readsI)
  fix pre post bm
  have "p \<lparr>rbuf = pre @ bs @ (bs' @ post), cursor = length pre, bookmarks = length pre # bm\<rparr> =
      Inr (v, \<lparr>rbuf = pre @ bs @ (bs' @ post), cursor = length pre + length bs, bookmarks = length pre # bm\<rparr>)"
    using assms(1) unfolding reads_def by blast
  then have "peeking p \<lparr>rbuf = pre @ (bs @ bs') @ post, cursor = length pre, bookmarks = bm\<rparr> =
      Inr (v, \<lparr>rbuf = pre @ (bs @ bs') @ post, cursor = length pre, bookmarks = bm\<rparr>)"
    by (simp add: peeking_def rbind_def bookmark_def restore_def rret_def)
  then show "rbind (peeking p) k \<lparr>rbuf = pre @ (bs @ bs') @ post, cursor = length pre, bookmarks = bm\<rparr> =
      Inr (w, \<lparr>rbuf = pre @ (bs @ bs') @ post, cursor = length pre + length (bs @ bs'), bookmarks = bm\<rparr>)"
    using assms(2) unfolding rbind_def reads_def by simp
qed

lemma reads_readLong: "reads readLong (var_uint (unat x)) x"
  unfolding readLong_def by (rule reads_bind_last [OF reads_var_uint [OF unat_u64_less]]) simp

lemma reads_readSaturating: "reads readSaturating (var_uint (unat x)) x"
proof -
  let ?n = "unat x" and ?bs = "nat_to_be (uint_size (unat x)) (unat x)"
  have k: "uint_size ?n \<le> 8" using uint_size_bounds(1) [of ?n] unat_u64_less [of x] by simp
  then have "reads readVarOctetString (var_uint ?n) ?bs"
    unfolding var_uint_def by (intro reads_var_octet) simp
  moreover have "reads readVarUIntLong (var_uint ?n) (Long (of_nat ?n) True)"
    by (rule reads_var_uint [OF unat_u64_less])
  ultimately have "reads saturatingReadVarUInt (var_uint ?n @ []) (Long (of_nat ?n) True)"
    unfolding saturatingReadVarUInt_def peekVarOctetString_def
    by (intro reads_peek [where v = ?bs]) (use k in simp_all)
  then have "reads saturatingReadVarUInt (var_uint ?n) (Long x True)" by simp
  then show ?thesis unfolding readSaturating_def by (rule reads_bind_last) simp
qed

text \<open>A limit wider than 64 bits saturates.\<close>

lemma reads_saturates:
  assumes "8 < length d" "length d < 2 ^ 48"
  shows "reads readSaturating (var_octet d) MAX_UNSIGNED_VALUE"
proof -
  have "reads skipVarOctetString (var_octet d) ()"
    unfolding skipVarOctetString_def var_octet_def
    by (rule reads_bind [OF reads_length_prefix [OF assms(2)]], rule reads_skip)
  then have "reads (rbind skipVarOctetString (\<lambda>_. rret (Long MAX_UNSIGNED_VALUE True)))
      (var_octet d) (Long MAX_UNSIGNED_VALUE True)"
    by (rule reads_bind_last) simp
  then have "reads saturatingReadVarUInt (var_octet d @ []) (Long MAX_UNSIGNED_VALUE True)"
    unfolding saturatingReadVarUInt_def peekVarOctetString_def
    by (intro reads_peek [OF reads_var_octet [OF assms(2)]]) (use assms(1) in simp)
  then have "reads saturatingReadVarUInt (var_octet d) (Long MAX_UNSIGNED_VALUE True)" by simp
  then show ?thesis unfolding readSaturating_def by (rule reads_bind_last) simp
qed

lemma reads_readString:
  "well_formed s \<Longrightarrow> length (utf8_encode s) < 2 ^ 48 \<Longrightarrow> reads readString (var_octet (utf8_encode s)) s"
  unfolding readString_def
  by (rule reads_bind_last [OF reads_var_octet]) (simp_all add: utf8_decode_encode)

lemmas reads_frame = reads_bind reads_ret reads_readLong reads_readSaturating reads_readString
  reads_readUInt8Number reads_var_octet


lemma reads_fromContents:
  assumes "frame_ok f"
  shows "reads (fromContents (FrameType f)) (contents_bytes f) (Some f)"
  using assms
  by (cases f; simp add: fromContents_def frame_ok_def)
    (unfold contents_bytes_def properties.simps list.map concat.simps property_bytes.simps,
      (rule reads_frame | (simp; fail))+)

lemma reads_parseFrame:
  assumes "frame_ok f"
  shows "reads parseFrame (frame_bytes f) (Some f)"
proof -
  have "run_reader (fromContents (FrameType f)) (contents_bytes f) = Inr (Some f)"
    using reads_run [OF reads_fromContents [OF assms], of "[]"] by simp
  then have "reads parseFrame ([of_nat (FrameType f)] @ var_octet (contents_bytes f)) (Some f)"
    unfolding parseFrame_def
    by (intro reads_bind [OF reads_readUInt8Number [OF FrameType_less]]
        reads_bind_last [OF reads_var_octet [OF contents_bytes_length [OF assms]]])
      (simp add: rlift_def rret_def fun_eq_iff)
  then show ?thesis by (simp add: frame_bytes_def)
qed

text \<open>A frame of an unknown type is skipped, whatever it holds.\<close>

lemma reads_unknown_frame:
  assumes "type < 256" "type = 0 \<or> 7 < type \<and> type < 16 \<or> 0x17 < type" "length c < 2 ^ 48"
  shows "reads parseFrame (of_nat type # var_octet c) None"
proof -
  have "fromContents type = rret None" using assms(2) by (auto simp: fromContents_def)
  then have "run_reader (fromContents type) c = Inr None"
    by (simp add: run_reader_def rret_def)
  then have "reads parseFrame ([of_nat type] @ var_octet c) None"
    unfolding parseFrame_def
    by (intro reads_bind [OF reads_readUInt8Number [OF assms(1)]]
        reads_bind_last [OF reads_var_octet [OF assms(3)]])
      (simp add: rlift_def rret_def fun_eq_iff)
  then show ?thesis by simp
qed

lemma reads_frames:
  assumes "list_all frame_ok fs"
  shows "reads (rrepeat (length fs) parseFrame) (concat (map frame_bytes fs)) (map Some fs)"
  using reads_repeat [of "map Some fs" parseFrame "frame_bytes \<circ> the"] assms
  by (force simp: list_all_iff comp_def intro: reads_parseFrame)

lemma map_filter_Some: "List.map_filter id (map Some xs) = xs"
  by (induction xs) simp_all

lemma reads_packet:
  assumes "packet_ok p"
  shows "reads read_packet (packet_bytes p) p"
proof -
  have ok: "ilpPacketType p < 256" "length (frames p) < 2 ^ 48" "list_all frame_ok (frames p)"
    using assms by (auto simp: packet_ok_def)
  have v: "reads readUInt8Long [1] (Long 1 True)"
    using reads_readUIntLong [of "[1]"] by (simp add: readUInt8Long_def)
  have fs: "reads (rbind (rrepeat (length (frames p)) parseFrame) (\<lambda>fs.
      rret \<lparr>sequence = sequence p, ilpPacketType = ilpPacketType p, prepareAmount = prepareAmount p,
            frames = List.map_filter id fs\<rparr>)) (concat (map frame_bytes (frames p))) p"
    by (rule reads_bind_last [OF reads_frames [OF ok(3)]], cases p, simp add: map_filter_Some)
  have "reads read_packet ([1] @ [of_nat (ilpPacketType p)] @ var_uint (unat (sequence p))
     @ var_uint (unat (prepareAmount p)) @ var_uint (length (frames p)) @ concat (map frame_bytes (frames p))) p"
    unfolding read_packet_def
    by (intro reads_bind [OF v])
      (simp only: long.sel simp_thms if_False, intro reads_bind [OF reads_readUInt8Number [OF ok(1)]] reads_bind [OF reads_readLong]
        reads_bind [OF reads_var_uint_number [OF ok(2)]] fs)
  then show ?thesis by (simp add: packet_bytes_def)
qed

lemma encrypt_roundtrip:
  assumes "aead lib" and "length iv = 12" and "packet_ok p"
  shows "serializeAndEncrypt lib iv key None p = Inr (encrypt lib iv key [packet_bytes p])"
    and "decryptAndDeserialize lib key (encrypt lib iv key [packet_bytes p]) = Inr p"
    and "length (encrypt lib iv key [packet_bytes p]) = 28 + length (packet_bytes p)"
  using serialize_bytes [OF assms(3)] encrypt_facts [OF assms(1,2)] reads_run [OF reads_packet [OF assms(3)], of "[]"]
  by (simp_all add: serializeAndEncrypt_def decryptAndDeserialize_def deserializeUnencrypted_def)

section \<open>Packet round trips\<close>

text \<open>
  C28. A STREAM packet whose frames fit the wire format serializes without an exception into
  exactly the number of bytes predicted, and parsing the bytes, with any padding behind
  them, gives the same packet: every frame of the fifteen types, in order.
\<close>

theorem stream_packet_roundtrip:
  "packet_ok p \<Longrightarrow>
   \<exists>bs. serialize p = Inr bs \<and> byteLength p = Inr (int (length bs) + ENCRYPTION_OVERHEAD)
      \<and> deserializeUnencrypted (bs @ pad) = Inr p"
  using serialize_bytes [of p] byteLength_bytes [of p] reads_run [OF reads_packet, of p pad]
  by (simp add: deserializeUnencrypted_def ENCRYPTION_OVERHEAD_def)

definition sample_packet :: stream_packet where
  "sample_packet = \<lparr>sequence = 5, ilpPacketType = 12, prepareAmount = 1000,
     frames = [StreamMoney 1 1, ConnectionNewAddress (js ''g.me''), StreamData 1 0 [1, 2, 3],
               StreamMaxMoney 1 MAX_UNSIGNED_VALUE 20, ConnectionClose 1 (js ''bye'')]\<rparr>"

lemma sample_packet_ok: "packet_ok sample_packet"
  by (simp add: sample_packet_def packet_ok_def frame_ok_def js_def is_high_def is_low_def
      utf8_encode_def utf8_bytes_def scalar_of_unit_def)

theorem stream_packet_roundtrip_witness:
  "\<exists>bs. serialize sample_packet = Inr bs
     \<and> byteLength sample_packet = Inr (int (length bs) + ENCRYPTION_OVERHEAD)
     \<and> deserializeUnencrypted (bs @ [0, 0]) = Inr sample_packet"
  by (rule stream_packet_roundtrip) (rule sample_packet_ok)

lemma padding_length: "0 \<le> n \<Longrightarrow> int (length (concat (padding n))) = n"
  by (simp add: padding_def length_concat sum_list_replicate pos_imp_zdiv_nonneg_iff)

text \<open>
  C27. An encrypted packet, padded to a requested size that is large enough, has exactly that
  size, and the holder of the key gets the packet back from it.
\<close>

theorem encrypted_packet_roundtrip:
  assumes "aead lib" and "length iv = 12" and "packet_ok p" and "byteLength p = Inr len" and "len \<le> padTo"
  shows "\<exists>bs. serializeAndEncrypt lib iv key (Some padTo) p = Inr bs \<and> int (length bs) = padTo
    \<and> decryptAndDeserialize lib key bs = Inr p"
proof -
  let ?ps = "padTo - 28 - int (length (packet_bytes p))"
  let ?bs = "encrypt lib iv key (packet_bytes p # padding ?ps)"
  have "0 \<le> ?ps" using assms(4,5) byteLength_bytes [OF assms(3)] by simp
  then have "int (length ?bs) = padTo" using encrypt_facts(1) [OF assms(1,2)] padding_length by simp
  moreover have "decryptAndDeserialize lib key ?bs = Inr p"
    using encrypt_facts(2) [OF assms(1,2)] reads_run [OF reads_packet [OF assms(3)]]
    by (simp add: decryptAndDeserialize_def deserializeUnencrypted_def)
  ultimately show ?thesis using serialize_bytes [OF assms(3)]
    by (simp add: serializeAndEncrypt_def ENCRYPTION_OVERHEAD_def)
qed

theorem encrypted_packet_roundtrip_witness:
  "\<exists>bs. serializeAndEncrypt null_lib (replicate 12 0) [] (Some 200)
        (sample_packet\<lparr>frames := []\<rparr>) = Inr bs \<and> int (length bs) = 200
      \<and> decryptAndDeserialize null_lib [] bs = Inr (sample_packet\<lparr>frames := []\<rparr>)"
proof (rule encrypted_packet_roundtrip [OF null_lib_ok(1)])
  show ok: "packet_ok (sample_packet\<lparr>frames := []\<rparr>)" by (simp add: packet_ok_def sample_packet_def)
  show "byteLength (sample_packet\<lparr>frames := []\<rparr>) = Inr 37"
    unfolding byteLength_bytes [OF ok]
    by (simp add: packet_bytes_def sample_packet_def var_uint_def var_octet_def length_prefix_length uint_size.simps)
qed simp_all

end
