(* ===== verification/Receipt.thy ===== *)
theory Receipt
  imports Oer_Codec Stream_Crypto
begin

text \<open>
  \<^verbatim>\<open>ilp-protocol-stream/src/util/receipt.ts\<close>: STREAM receipts, 58 bytes of which the
  last 32 authenticate the first 26. A secret given as a buffer is the constant function of the
  decoded receipt.
\<close>

record ReceiptOpts =
  opt_nonce :: buffer
  opt_streamId :: long_value
  opt_totalReceived :: long_value
  opt_secret :: buffer

record ReceiptWithHMAC =
  rc_version :: nat
  rc_nonce :: buffer
  rc_streamId :: jsstring
  rc_totalReceived :: u64
  rc_hmac :: buffer

definition RECEIPT_VERSION :: nat where
  "RECEIPT_VERSION = 1"

definition createReceipt :: "crypto_lib \<Rightarrow> ReceiptOpts \<Rightarrow> buffer result" where
  "createReceipt lib opts =
     (if length (opt_nonce opts) \<noteq> 16 then Inl (Error ''receipt nonce must be 16 bytes'')
      else if length (opt_secret opts) \<noteq> 32 then Inl (Error ''receipt secret must be 32 bytes'')
      else
        ebind (writeUInt (num (int RECEIPT_VERSION)) 1 (new_writer_capacity 58)) (\<lambda>w.
        ebind (writeOctetString (opt_nonce opts) 16 w) (\<lambda>w.
        ebind (writeUInt (opt_streamId opts) 1 w) (\<lambda>w.
        ebind (stream_longFromValue (opt_totalReceived opts) True) (\<lambda>amt.
        ebind (writeUInt (LongV amt) 8 w) (\<lambda>w.
        ebind (writeOctetString (generateReceiptHMAC lib (opt_secret opts) (getBuffer w)) 32 w) (\<lambda>w.
          Inr (getBuffer w))))))))"

definition read_receipt :: "ReceiptWithHMAC rd" where
  "read_receipt =
     rbind readUInt8Number (\<lambda>version.
     rbind (readOctetString 16) (\<lambda>nonce.
     rbind readUInt8 (\<lambda>streamId.
     rbind readUInt64Long (\<lambda>amt.
     rbind (readOctetString 32) (\<lambda>hmac.
       rret \<lparr>rc_version = version, rc_nonce = nonce, rc_streamId = streamId,
             rc_totalReceived = long_bits amt, rc_hmac = hmac\<rparr>)))))"

definition decodeReceipt :: "buffer \<Rightarrow> ReceiptWithHMAC result" where
  "decodeReceipt receipt =
     (if length receipt \<noteq> 58 then Inl (Error ''receipt malformed'') else run_reader read_receipt receipt)"

definition verifyReceipt ::
  "crypto_lib \<Rightarrow> buffer \<Rightarrow> (ReceiptWithHMAC \<Rightarrow> buffer) \<Rightarrow> ReceiptWithHMAC result" where
  "verifyReceipt lib receipt secret =
     ebind (decodeReceipt receipt) (\<lambda>decoded.
       if rc_version decoded \<noteq> RECEIPT_VERSION then Inl (Error ''invalid version'')
       else if rc_hmac decoded \<noteq> generateReceiptHMAC lib (secret decoded) (take 26 receipt)
       then Inl (Error ''invalid hmac'')
       else Inr decoded)"

section \<open>Receipts that are created verify\<close>

definition receipt_body :: "buffer \<Rightarrow> nat \<Rightarrow> u64 \<Rightarrow> buffer" where
  "receipt_body nonce i amt = [1] @ nonce @ [of_nat i] @ nat_to_be 8 (unat amt)"

lemma emits_receipt_body:
  assumes "length nonce = 16" "uint_value sid = Some i" "i < 256"
  shows "wr.emits (\<lambda>w. ebind (writeUInt (num 1) 1 w) (\<lambda>w. ebind (writeOctetString nonce 16 w) (\<lambda>w.
      ebind (writeUInt sid 1 w) (writeUInt (LongV (Long amt True)) 8)))) (receipt_body nonce i amt)"
proof -
  have "wr.emits (writeUInt (num 1) 1) [1]"
    using wr.emits_UInt8 [of "num 1" 1] by (simp add: MAX_SAFE_INTEGER_def)
  moreover have "wr.emits (writeOctetString nonce 16) nonce"
    using wr.emits_OctetString [of 16 nonce] assms(1) by simp
  moreover have "wr.emits (writeUInt sid 1) [of_nat i]"
    using wr.emits_UInt8 [OF assms(2,3)] by simp
  moreover have "wr.emits (writeUInt (LongV (Long amt True)) 8) (nat_to_be 8 (unat amt))"
    using wr.emits_UInt [of "LongV (Long amt True)" "unat amt" 8] unat_u64_bound [of amt] by simp
  ultimately show ?thesis unfolding receipt_body_def by (intro wr.emits_seq)
qed

lemma createReceipt_bytes:
  assumes "length nonce = 16" "length sec = 32" "digests lib" "uint_value sid = Some i" "i < 256"
    "stream_longFromValue tot True = Inr (Long amt True)"
  defines "body \<equiv> receipt_body nonce i amt"
  shows "createReceipt lib \<lparr>opt_nonce = nonce, opt_streamId = sid, opt_totalReceived = tot, opt_secret = sec\<rparr> =
    Inr (body @ lib_hmac lib sec body)"
proof -
  let ?w0 = "new_writer_capacity 58"
  have len: "length body = 26" by (simp add: body_def receipt_body_def assms(1))
  have ok: "wok ?w0" "wroom ?w0 (length body)"
    by (simp_all add: wok_def wroom_def new_writer_capacity_def len)
  obtain w where w: "ebind (writeUInt (num 1) 1 ?w0) (\<lambda>w. ebind (writeOctetString nonce 16 w) (\<lambda>w.
      ebind (writeUInt sid 1 w) (writeUInt (LongV (Long amt True)) 8))) = Inr w" "wadds ?w0 body w"
    using wr.emitsD [OF emits_receipt_body [OF assms(1,4,5)], of ?w0 amt] ok by (auto simp: body_def)
  have buf: "getBuffer w = body" using w(2) by (simp add: wadds_def new_writer_capacity_def getBuffer_def)
  have hm: "length (lib_hmac lib sec body) = 32" using assms(3) by (simp add: digests_def)
  have "wok w" "wroom w 32"
    using w(2) wadds_room [OF w(2), of 32] len by (simp_all add: wadds_def wroom_def new_writer_capacity_def)
  then obtain w' where "writeOctetString (lib_hmac lib sec body) 32 w = Inr w'" "wadds w (lib_hmac lib sec body) w'"
    using wr.writeOctetString_law [of w "lib_hmac lib sec body"] hm by auto
  with w(1) buf show ?thesis
    by (auto simp: createReceipt_def RECEIPT_VERSION_def assms(1,2,6) generateReceiptHMAC_def wadds_def)
qed

lemma reads_readUInt8: "reads readUInt8 [b] (dec_of_nat (unat b))"
  unfolding readUInt8_def readUInt_def
  by (simp add: MAX_SAFE_BYTES_def reads_bind_last [OF reads_readUIntNumber_one])

lemma reads_receipt:
  assumes "length nonce = 16" "i < 256" "length hm = 32"
  shows "reads read_receipt (receipt_body nonce i amt @ hm)
    \<lparr>rc_version = 1, rc_nonce = nonce, rc_streamId = dec_of_nat i, rc_totalReceived = amt, rc_hmac = hm\<rparr>"
proof -
  have v: "reads readUInt8Number [1] 1" using reads_readUInt8Number [of 1] by simp
  have n: "reads (readOctetString 16) nonce nonce" "reads (readOctetString 32) hm hm"
    using reads_read [of nonce] reads_read [of hm] assms by (simp_all add: readOctetString_def)
  have s: "reads readUInt8 [of_nat i] (dec_of_nat i)"
    using reads_readUInt8 [of "of_nat i"] assms(2) by (simp add: unat_of_nat_byte)
  have t: "reads readUInt64Long (nat_to_be 8 (unat amt)) (Long amt True)"
    using reads_UIntLong_be [of 8 "unat amt"] unat_u64_bound [of amt] by (simp add: readUInt64Long_def)
  have h: "reads (rbind (readOctetString 32) (\<lambda>h. rret \<lparr>rc_version = 1, rc_nonce = nonce,
      rc_streamId = dec_of_nat i, rc_totalReceived = long_bits (Long amt True), rc_hmac = h\<rparr>)) hm
    \<lparr>rc_version = 1, rc_nonce = nonce, rc_streamId = dec_of_nat i, rc_totalReceived = amt, rc_hmac = hm\<rparr>"
    by (rule reads_bind_last [OF n(2)]) simp
  show ?thesis unfolding receipt_body_def read_receipt_def append_assoc
    by (intro reads_bind [OF v] reads_bind [OF n(1)] reads_bind [OF s] reads_bind [OF t] h)
qed

text \<open>
  A receipt created for a stream and an amount verifies under the secret it was created
  with, and verification returns that stream and amount.
\<close>

theorem created_receipt_verifies:
  assumes "length nonce = 16" "length sec = 32" "digests lib" "uint_value sid = Some i" "i < 256"
    "stream_longFromValue tot True = Inr (Long amt True)"
  shows "\<exists>r hm. createReceipt lib
        \<lparr>opt_nonce = nonce, opt_streamId = sid, opt_totalReceived = tot, opt_secret = sec\<rparr> = Inr r
      \<and> length r = 58
      \<and> verifyReceipt lib r (\<lambda>_. sec) = Inr \<lparr>rc_version = 1, rc_nonce = nonce,
          rc_streamId = dec_of_nat i, rc_totalReceived = amt, rc_hmac = hm\<rparr>"
proof -
  let ?body = "receipt_body nonce i amt"
  let ?hm = "lib_hmac lib sec ?body"
  have hm: "length ?hm = 32" using assms(3) by (simp add: digests_def)
  have len: "length ?body = 26" by (simp add: receipt_body_def assms(1))
  have "run_reader read_receipt (?body @ ?hm) = Inr \<lparr>rc_version = 1, rc_nonce = nonce,
      rc_streamId = dec_of_nat i, rc_totalReceived = amt, rc_hmac = ?hm\<rparr>"
    using reads_run [OF reads_receipt [OF assms(1,5) hm], of amt "[]"] by simp
  then have "verifyReceipt lib (?body @ ?hm) (\<lambda>_. sec) = Inr \<lparr>rc_version = 1, rc_nonce = nonce,
      rc_streamId = dec_of_nat i, rc_totalReceived = amt, rc_hmac = ?hm\<rparr>"
    using len hm by (simp add: verifyReceipt_def decodeReceipt_def RECEIPT_VERSION_def generateReceiptHMAC_def)
  with createReceipt_bytes [OF assms] len hm show ?thesis by auto
qed

theorem created_receipt_verifies_witness:
  "\<exists>r hm. createReceipt null_lib
        \<lparr>opt_nonce = replicate 16 3, opt_streamId = num 5, opt_totalReceived = ulong 500,
         opt_secret = replicate 32 9\<rparr> = Inr r
      \<and> length r = 58
      \<and> verifyReceipt null_lib r (\<lambda>_. replicate 32 9) = Inr \<lparr>rc_version = 1, rc_nonce = replicate 16 3,
          rc_streamId = dec_of_nat 5, rc_totalReceived = 500, rc_hmac = hm\<rparr>"
  by (rule created_receipt_verifies) (simp_all add: null_lib_ok MAX_SAFE_INTEGER_def ulong_def)

text \<open>
  Only authenticated receipts verify: an accepted receipt has 58 bytes, version 1, and
  its last 32 bytes are the keyed hash of the first 26 under the secret; any change to the first 26 bytes
  that changes that hash is rejected.
\<close>

theorem verified_receipt_authentic:
  assumes "verifyReceipt lib receipt secret = Inr decoded"
  shows "length receipt = 58 \<and> rc_version decoded = 1
    \<and> drop 26 receipt = lib_hmac lib (secret decoded) (take 26 receipt)"
proof -
  have d: "length receipt = 58" "run_reader read_receipt receipt = Inr decoded" "rc_version decoded = 1"
      "rc_hmac decoded = lib_hmac lib (secret decoded) (take 26 receipt)"
    using assms by (auto simp: verifyReceipt_def decodeReceipt_def RECEIPT_VERSION_def
        generateReceiptHMAC_def split: if_splits)
  have "rc_hmac decoded = slice 26 32 receipt"
    using d(2) by (auto simp: run_reader_eq_Inr read_receipt_def readUInt8Number_def readUIntNumber_def
        readOctetString_def read_def ensureAvailable_def readUInt8_def readUInt_def readUInt64Long_def
        readUIntLong_def peekUIntLong_def peek_def readUIntBE_def advance_cursor_def MAX_SAFE_BYTES_def
        new_reader_def split: if_splits)
  with d show ?thesis by (simp add: slice_def)
qed

lemma sample_receipt_verifies:
  "verifyReceipt null_lib (1 # replicate 57 0) (\<lambda>_. []) =
     Inr \<lparr>rc_version = 1, rc_nonce = replicate 16 0, rc_streamId = js ''0'', rc_totalReceived = 0,
          rc_hmac = replicate 32 0\<rparr>"
  by code_simp

theorem verified_receipt_authentic_witness:
  "length (1 # replicate 57 (0 :: byte)) = 58
    \<and> rc_version \<lparr>rc_version = 1, rc_nonce = replicate 16 0, rc_streamId = js ''0'', rc_totalReceived = 0,
          rc_hmac = replicate 32 0\<rparr> = 1
    \<and> drop 26 (1 # replicate 57 0) = lib_hmac null_lib [] (take 26 (1 # replicate 57 0))"
  using verified_receipt_authentic [OF sample_receipt_verifies] .

end
