(* ===== verification/Rational.thy ===== *)
theory Rational
  imports Long_Util
begin

text \<open>
  \<^verbatim>\<open>ilp-protocol-stream/src/util/rational.ts\<close>: fractions of two unsigned Longs. The
  conversion from numbers is in \<open>Float_Rational\<close>; \<open>toNumber\<close> is one division of floats and is not modelled.
\<close>

record rational =
  numer :: u64
  denom :: u64

definition new_rational :: "u64 \<Rightarrow> u64 \<Rightarrow> rational result" where
  "new_rational a b =
     (if b = 0 then Inl (AssertionError ''denominator must be non-zero'')
      else Inr \<lparr>numer = a, denom = b\<rparr>)"

definition multiplyByLong :: "rational \<Rightarrow> u64 \<Rightarrow> u64 result" where
  "multiplyByLong r v = multiplyDivideFloor v (numer r) (denom r)"

definition multiplyByLongCeil :: "rational \<Rightarrow> u64 \<Rightarrow> u64 result" where
  "multiplyByLongCeil r v = multiplyDivideCeil v (numer r) (denom r)"

definition multiplyByRational :: "rational \<Rightarrow> rational \<Rightarrow> rational result" where
  "multiplyByRational r s = new_rational (numer r * numer s) (denom r * denom s)"

definition greaterThanOne :: "rational \<Rightarrow> bool" where
  "greaterThanOne r \<longleftrightarrow> numer r > denom r"

definition complement :: "rational \<Rightarrow> rational result" where
  "complement r =
     (if numer r > denom r then Inl (Error ''cannot take complement of rational >1'')
      else new_rational (denom r - numer r) (denom r))"

definition reciprocal :: "rational \<Rightarrow> rational result" where
  "reciprocal r = new_rational (denom r) (numer r)"

definition power10 :: "nat \<Rightarrow> u64" where
  "power10 n = 10 ^ n"

definition trimRight :: "jsstring \<Rightarrow> code_unit \<Rightarrow> jsstring" where
  "trimRight str ch = rev (dropWhile (\<lambda>u. u = ch) (rev str))"

text \<open>\<open>'0'.repeat(k)\<close> throws for a negative \<open>k\<close>.\<close>

definition toFixed :: "rational \<Rightarrow> nat \<Rightarrow> jsstring result" where
  "toFixed r digits =
     (let quotient = dec_of_nat (unat (numer r div denom r))
      in if digits = 0 then Inr quotient
         else ebind (multiplyDivideRound (numer r mod denom r) (power10 digits) (denom r)) (\<lambda>m.
                let rs = dec_of_nat (unat m)
                in if digits < length rs then Inl RangeError
                   else Inr (quotient @ js ''.'' @ replicate (digits - length rs) (digit 0) @ rs)))"

definition rational_toString :: "rational \<Rightarrow> jsstring result" where
  "rational_toString r = ebind (toFixed r 19) (\<lambda>fixed.
     let str = trimRight fixed (digit 0)
     in Inr (if str \<noteq> [] \<and> last str = 46 then butlast str else str))"

section \<open>Scaling\<close>

text \<open>The fractions on which \<open>multiplyDivide\<close> is exact.\<close>

definition rok :: "rational \<Rightarrow> bool" where
  "rok r \<longleftrightarrow> 0 < unat (denom r) \<and> unat (denom r) \<le> 2 ^ 63"

lemma multiplyByLong_exact:
  assumes "rok r" "unat v * unat (numer r) div unat (denom r) < 2 ^ 64"
  shows "\<exists>q. multiplyByLong r v = Inr q \<and> unat q = unat v * unat (numer r) div unat (denom r)"
  using multiplyDivideFloor_exact [of "denom r" v "numer r"] assms
  by (simp add: multiplyByLong_def rok_def unat_of_nat_u64)

lemma scaled_down: "a \<le> b \<Longrightarrow> v * a div b \<le> v" for a b v :: nat
proof (cases "b = 0")
  case False
  assume "a \<le> b"
  then have "v * a div b \<le> v * b div b" by (intro div_le_mono mult_le_mono2)
  then show ?thesis using False by simp
qed simp

lemma residues_sum:
  fixes p q b :: nat
  assumes "(p + q) mod b = 0" "p < b" "q < b"
  shows "p + q = (if q = 0 then 0 else b)"
proof -
  obtain k where k: "p + q = b * k" using assms(1) by (auto simp: mod_eq_0_iff_dvd)
  have "b * k < b * 2" using assms(2,3) k by linarith
  then have "k < 2" by simp
  then consider "k = 0" | "k = 1" by linarith
  then show ?thesis using k assms(2) by cases auto
qed

lemma floor_ceil_split:
  fixes a b v :: nat
  assumes "0 < b" "a \<le> b"
  shows "v * a div b + (v * (b - a) + b - 1) div b = v"
proof -
  let ?x = "v * a" and ?y = "v * (b - a)"
  have sum: "?x + ?y = v * b" using assms(2) by (simp flip: distrib_left)
  have split: "?x = b * (?x div b) + ?x mod b" "?y = b * (?y div b) + ?y mod b" by simp_all
  have "(?x mod b + ?y mod b) mod b = 0"
    using sum by (metis mod_add_eq mod_mult_self2_is_0)
  moreover have "?x mod b < b" "?y mod b < b" using assms(1) by simp_all
  ultimately have m: "?x mod b + ?y mod b = (if ?y mod b = 0 then 0 else b)"
    by (rule residues_sum)
  have "b * v = b * (?x div b) + b * (?y div b) + (?x mod b + ?y mod b)"
    using sum split by (simp add: mult.commute [of b v])
  also have "\<dots> = b * (?x div b + ?y div b + (if ?y mod b = 0 then 0 else 1))"
    unfolding m by (simp add: distrib_left)
  finally have "v = ?x div b + ?y div b + (if ?y mod b = 0 then 0 else 1)" using assms(1) by simp
  then show ?thesis using ceil_div_split [OF assms(1), of ?y] by simp
qed

text \<open>
  Splitting an amount by a fraction and its complement loses nothing: for a fraction of at
  most one, the floor of its share and the ceiling of the complement's share add up to the amount.
\<close>

theorem complement_splits:
  assumes "rok r" and "\<not> greaterThanOne r"
  shows "\<exists>c x y. complement r = Inr c \<and> multiplyByLong r v = Inr x \<and> multiplyByLongCeil c v = Inr y
    \<and> unat x + unat y = unat v"
proof -
  let ?a = "unat (numer r)" and ?b = "unat (denom r)" and ?v = "unat v"
  have b: "0 < ?b" "?b \<le> 2 ^ 63" "denom r \<noteq> 0" using assms(1) by (auto simp: rok_def)
  have le: "numer r \<le> denom r" "?a \<le> ?b" using assms(2) by (simp_all add: greaterThanOne_def word_le_nat_alt word_less_nat_alt not_less)
  have d: "unat (denom r - numer r) = ?b - ?a" by (rule unat_sub_u64 [OF le(1)])
  have eq: "?v * ?a div ?b + (?v * (?b - ?a) + ?b - 1) div ?b = ?v"
    by (rule floor_ceil_split [OF b(1) le(2)])
  then have "?v * ?a div ?b < 2 ^ 64" "(?v * (?b - ?a) + ?b - 1) div ?b < 2 ^ 64"
    using unat_u64_less [of v] by linarith+
  then obtain x y where "multiplyByLong r v = Inr x" "unat x = ?v * ?a div ?b"
      "multiplyDivideCeil v (denom r - numer r) (denom r) = Inr y" "unat y = (?v * (?b - ?a) + ?b - 1) div ?b"
    using multiplyByLong_exact [OF assms(1), of v] multiplyDivideCeil_exact [OF b(1,2), of v "denom r - numer r"]
    unfolding d by blast
  moreover have "complement r = Inr \<lparr>numer = denom r - numer r, denom = denom r\<rparr>"
    using le b by (simp add: complement_def new_rational_def not_less)
  ultimately show ?thesis using eq by (auto simp: multiplyByLongCeil_def)
qed

theorem complement_splits_witness:
  "\<exists>c x y. complement \<lparr>numer = 1, denom = 3\<rparr> = Inr c \<and> multiplyByLong \<lparr>numer = 1, denom = 3\<rparr> 100 = Inr x
    \<and> multiplyByLongCeil c 100 = Inr y \<and> unat x + unat y = unat (100 :: u64)"
  by (rule complement_splits) (simp_all add: rok_def greaterThanOne_def)

lemma reciprocal_reciprocal: "numer r \<noteq> 0 \<Longrightarrow> denom r \<noteq> 0 \<Longrightarrow> ebind (reciprocal r) reciprocal = Inr r"
  by (simp add: reciprocal_def new_rational_def)

end
