(* ===== verification/Congestion.thy ===== *)
theory Congestion
  imports Ilp_Packet Long_Util
begin

text \<open>
  \<^verbatim>\<open>ilp-protocol-stream/src/util/congestion.ts\<close>: the \<open>CongestionController\<close>, which probes for
  the path maximum packet amount. Logging is left out. The handlers are the transitions of a
  step relation; its reachable states keep the invariant \<open>congestion_inv\<close>.
\<close>

record congestion =
  testMaximumPacketAmount :: u64
  c_maximumPacketAmount :: u64
  fixedPacketAmount :: u64

definition new_congestion :: "u64 option \<Rightarrow> congestion" where
  "new_congestion opt =
     \<lparr>testMaximumPacketAmount = MAX_UNSIGNED_VALUE, c_maximumPacketAmount = MAX_UNSIGNED_VALUE,
      fixedPacketAmount = (case opt of None \<Rightarrow> MAX_UNSIGNED_VALUE | Some a \<Rightarrow> a)\<rparr>"

definition maximumPacketAmount :: "congestion \<Rightarrow> u64" where
  "maximumPacketAmount c = minLong (c_maximumPacketAmount c) (fixedPacketAmount c)"

definition setMaximumAmounts :: "u64 \<Rightarrow> congestion \<Rightarrow> congestion" where
  "setMaximumAmounts am c = c\<lparr>testMaximumPacketAmount := am, c_maximumPacketAmount := am\<rparr>"

definition onFulfill :: "u64 \<Rightarrow> congestion \<Rightarrow> congestion" where
  "onFulfill amountSent c =
     (let mx = maximumPacketAmount c;
          test = testMaximumPacketAmount c;
          shouldRaiseLimit = (amountSent = test \<and> test < mx)
      in if \<not> shouldRaiseLimit then c
         else
           let newTestMax =
             (if mx \<noteq> MAX_UNSIGNED_VALUE
              then minLong (add_sum (checkedAdd test (mx div 10))) mx
              else product (checkedMultiply test 2))
           in c\<lparr>testMaximumPacketAmount := newTestMax\<rparr>)"

text \<open>The amounts in the data of an F08 reject; reading both may throw.\<close>

definition read_amounts :: "(u64 \<times> u64) rd" where
  "read_amounts = rbind readUInt64Long (\<lambda>received. rbind readUInt64Long (\<lambda>maximum.
     rret (long_bits received, long_bits maximum)))"

definition onAmountTooLargeError :: "IlpReject \<Rightarrow> u64 \<Rightarrow> congestion \<Rightarrow> (u64 \<times> congestion) result" where
  "onAmountTooLargeError reject amountSent c =
     (let without = (let c1 = c\<lparr>c_maximumPacketAmount := amountSent - 1\<rparr>;
                         c2 = c1\<lparr>testMaximumPacketAmount := maximumPacketAmount c1 div 2\<rparr>
                     in Inr (maximumPacketAmount c2, c2))
      in case run_reader read_amounts (rej_data reject) of
           Inl _ \<Rightarrow> without
         | Inr (received, maximum) \<Rightarrow>
             if received > maximum then
               ebind (multiplyDivideFloor amountSent maximum received) (\<lambda>newMaximum.
                 let c2 = c\<lparr>c_maximumPacketAmount := newMaximum, testMaximumPacketAmount := newMaximum\<rparr>
                 in Inr (maximumPacketAmount c2, c2))
             else without)"

definition onInsufficientLiquidityError :: "u64 \<Rightarrow> congestion \<Rightarrow> congestion" where
  "onInsufficientLiquidityError amountSent c =
     (let minPacketAmount = minLong amountSent (testMaximumPacketAmount c);
          newTestAmount = minPacketAmount - minPacketAmount div 3
      in c\<lparr>testMaximumPacketAmount := maxLong 2 newTestAmount\<rparr>)"

section \<open>Raising the limit\<close>

lemma unat_div_10: "unat (x div 10 :: u64) = unat x div 10"
  by (simp add: unat_div_distrib)

lemma raise_known:
  assumes "test < mx"
  shows "test \<le> minLong (add_sum (checkedAdd test (mx div 10))) mx"
    and "10 \<le> unat mx \<Longrightarrow> test < minLong (add_sum (checkedAdd test (mx div 10))) mx"
proof -
  have s: "unat (add_sum (checkedAdd test (mx div 10))) = min (2 ^ 64 - 1) (unat test + unat mx div 10)"
    using checkedAdd_sat [of test "mx div 10"] by (simp add: unat_div_10)
  have "unat test < unat mx" using assms by (simp add: word_less_nat_alt)
  moreover have "1 \<le> unat mx div 10" if "10 \<le> unat mx" using that by (simp add: div_greater_zero_iff Suc_le_eq)
  ultimately show "test \<le> minLong (add_sum (checkedAdd test (mx div 10))) mx"
    "10 \<le> unat mx \<Longrightarrow> test < minLong (add_sum (checkedAdd test (mx div 10))) mx"
    using unat_u64_less [of test] unat_u64_less [of mx] s
    by (auto simp: word_le_nat_alt word_less_nat_alt unat_minLong)
qed

lemma raise_unknown:
  assumes "test < MAX_UNSIGNED_VALUE" "test \<noteq> 0"
  shows "test < product (checkedMultiply test 2)"
proof -
  have "0 < unat test" "unat test < 2 ^ 64 - 1"
    using assms by (simp_all add: unat_gt_0 word_less_nat_alt unat_max_unsigned)
  then show ?thesis using checkedMultiply_two [OF assms(2)] by (simp add: word_less_nat_alt)
qed

lemma onFulfill_cases:
  obtains "onFulfill sent c = c"
  | t where "onFulfill sent c = c\<lparr>testMaximumPacketAmount := t\<rparr>" "testMaximumPacketAmount c \<le> t"
      "t \<le> maximumPacketAmount c"
proof (cases "sent = testMaximumPacketAmount c \<and> testMaximumPacketAmount c < maximumPacketAmount c")
  case False
  then show thesis using that(1) by (auto simp: onFulfill_def Let_def)
next
  case True
  let ?t = "testMaximumPacketAmount c" and ?mx = "maximumPacketAmount c"
  show thesis
  proof (cases "?mx = MAX_UNSIGNED_VALUE")
    case False
    with True raise_known [of ?t ?mx] minLong_le(2) show thesis
      by (intro that(2) [of "minLong (add_sum (checkedAdd ?t (?mx div 10))) ?mx"])
        (simp_all add: onFulfill_def Let_def)
  next
    case mx: True
    have "?t \<le> product (checkedMultiply ?t 2)"
      using True mx raise_unknown [of ?t] by (cases "?t = 0") auto
    with True mx show thesis
      by (intro that(2) [of "product (checkedMultiply ?t 2)"]) (simp_all add: onFulfill_def Let_def)
  qed
qed

lemma maximumPacketAmount_test [simp]:
  "maximumPacketAmount (c\<lparr>testMaximumPacketAmount := t\<rparr>) = maximumPacketAmount c"
  by (simp add: maximumPacketAmount_def)

text \<open>
  A fulfilled packet never lowers the test amount, never changes the maximum, and
  never raises the test amount over the maximum.
\<close>

theorem onFulfill_bounded:
  "testMaximumPacketAmount c \<le> testMaximumPacketAmount (onFulfill sent c) \<and>
   maximumPacketAmount (onFulfill sent c) = maximumPacketAmount c \<and>
   (onFulfill sent c = c \<or> testMaximumPacketAmount (onFulfill sent c) \<le> maximumPacketAmount c)"
  by (rule onFulfill_cases [of sent c]) simp_all

text \<open>
  Probing makes progress: when a packet of the test amount is fulfilled, that amount is below the
  maximum and the maximum is at least ten, the test amount strictly rises.
\<close>

theorem onFulfill_progress:
  assumes "0 < testMaximumPacketAmount c" and "testMaximumPacketAmount c < maximumPacketAmount c"
    and "10 \<le> unat (maximumPacketAmount c)"
  shows "testMaximumPacketAmount c < testMaximumPacketAmount (onFulfill (testMaximumPacketAmount c) c)"
  using assms raise_known(2) [of "testMaximumPacketAmount c" "maximumPacketAmount c"]
    raise_unknown [of "testMaximumPacketAmount c"]
  by (auto simp: onFulfill_def Let_def)

theorem onFulfill_progress_witness:
  "testMaximumPacketAmount \<lparr>testMaximumPacketAmount = 5, c_maximumPacketAmount = 100, fixedPacketAmount = 50\<rparr>
   < testMaximumPacketAmount (onFulfill
       (testMaximumPacketAmount \<lparr>testMaximumPacketAmount = 5, c_maximumPacketAmount = 100, fixedPacketAmount = 50\<rparr>)
       \<lparr>testMaximumPacketAmount = 5, c_maximumPacketAmount = 100, fixedPacketAmount = 50\<rparr>)"
  by (rule onFulfill_progress) (simp_all add: maximumPacketAmount_def minLong_def)

section \<open>Lowering the limit\<close>

lemma scaled_less: "0 < s \<Longrightarrow> m < r \<Longrightarrow> s * m div r < s" for s m r :: nat
  by (simp add: div_less_iff_less_mult)

lemma onAmountTooLargeError_amounts:
  assumes "run_reader read_amounts (rej_data reject) = Inr (received, maximum)"
    and "maximum < received" and "unat received \<le> 2 ^ 63"
  shows "\<exists>m. unat m = unat sent * unat maximum div unat received
    \<and> onAmountTooLargeError reject sent c =
      Inr (minLong m (fixedPacketAmount c), c\<lparr>c_maximumPacketAmount := m, testMaximumPacketAmount := m\<rparr>)"
proof -
  let ?q = "unat sent * unat maximum div unat received"
  have lt: "unat maximum < unat received" using assms(2) by (simp add: word_less_nat_alt)
  have "?q \<le> unat sent"
    using scaled_less [OF _ lt, of "unat sent"] by (cases "unat sent = 0") (simp_all add: less_imp_le)
  then have q: "?q < 2 ^ 64" using unat_u64_less [of sent] by linarith
  have "multiplyDivideFloor sent maximum received = Inr (of_nat ?q)"
    using lt assms(3) q by (intro multiplyDivideFloor_exact) simp_all
  then show ?thesis
    using assms(1,2) unat_of_nat_u64 [OF q]
    by (intro exI [of _ "of_nat ?q"]) (simp add: onAmountTooLargeError_def maximumPacketAmount_def)
qed

lemma without_amounts_less:
  assumes "0 < sent" and "c1 = c\<lparr>c_maximumPacketAmount := sent - 1\<rparr>"
  shows "maximumPacketAmount c1 < sent" "maximumPacketAmount c1 div 2 < sent"
proof -
  have "1 \<le> sent" "0 < unat sent" using assms(1) by (simp_all add: word_le_nat_alt word_less_nat_alt Suc_leI)
  then have "unat (sent - 1) < unat sent" using unat_sub_u64 [of 1 sent] by simp
  then show *: "maximumPacketAmount c1 < sent"
    by (auto simp: assms(2) maximumPacketAmount_def word_less_nat_alt unat_minLong)
  have "unat (maximumPacketAmount c1 div 2) \<le> unat (maximumPacketAmount c1)"
    by (simp add: unat_div_distrib)
  with * show "maximumPacketAmount c1 div 2 < sent" by (simp add: word_less_nat_alt)
qed

text \<open>
  After an F08 reject, with or without readable amounts in its data, the maximum packet
  amount and the next test amount are strictly below the amount that was rejected, so retries end.
\<close>

theorem onAmountTooLargeError_decreases:
  assumes "0 < sent"
    and "\<And>received maximum. run_reader read_amounts (rej_data reject) = Inr (received, maximum)
           \<Longrightarrow> unat received \<le> 2 ^ 63"
  shows "\<exists>m c'. onAmountTooLargeError reject sent c = Inr (m, c') \<and> m = maximumPacketAmount c'
    \<and> m < sent \<and> testMaximumPacketAmount c' < sent"
proof (cases "\<exists>received maximum. run_reader read_amounts (rej_data reject) = Inr (received, maximum) \<and> maximum < received")
  case True
  then obtain received maximum where am: "run_reader read_amounts (rej_data reject) = Inr (received, maximum)"
      "maximum < received" by blast
  obtain m where m: "unat m = unat sent * unat maximum div unat received"
      "onAmountTooLargeError reject sent c =
        Inr (minLong m (fixedPacketAmount c), c\<lparr>c_maximumPacketAmount := m, testMaximumPacketAmount := m\<rparr>)"
    using onAmountTooLargeError_amounts [OF am assms(2) [OF am(1)], of sent c] by blast
  have "unat m < unat sent" unfolding m(1)
    using assms(1) am(2) by (intro scaled_less) (simp_all add: word_less_nat_alt)
  with m(2) show ?thesis
    by (auto simp: word_less_nat_alt unat_minLong maximumPacketAmount_def)
next
  case False
  let ?c1 = "c\<lparr>c_maximumPacketAmount := sent - 1\<rparr>"
  have "onAmountTooLargeError reject sent c =
      Inr (maximumPacketAmount ?c1, ?c1\<lparr>testMaximumPacketAmount := maximumPacketAmount ?c1 div 2\<rparr>)"
    using False by (auto simp: onAmountTooLargeError_def Let_def split: sum.splits)
  then show ?thesis using without_amounts_less [OF assms(1) refl, of c] by simp
qed

theorem onAmountTooLargeError_decreases_witness:
  "\<exists>m c'. onAmountTooLargeError \<lparr>rej_code = js ''F08'', triggeredBy = [], rej_message = [], rej_data = []\<rparr>
       1000 (new_congestion None) = Inr (m, c') \<and> m = maximumPacketAmount c'
    \<and> m < 1000 \<and> testMaximumPacketAmount c' < 1000"
proof (rule onAmountTooLargeError_decreases)
  fix received maximum
  assume "run_reader read_amounts (rej_data \<lparr>rej_code = js ''F08'', triggeredBy = [], rej_message = [], rej_data = []\<rparr>)
    = Inr (received, maximum)"
  then show "unat received \<le> 2 ^ 63"
    by (simp add: run_reader_eq_Inr read_amounts_def readUInt64Long_def readUIntLong_def peekUIntLong_def
        peek_def ensureAvailable_def new_reader_def)
qed simp

lemma onInsufficientLiquidityError_test:
  "2 \<le> testMaximumPacketAmount (onInsufficientLiquidityError sent c)"
  "testMaximumPacketAmount (onInsufficientLiquidityError sent c) \<le> maxLong 2 (testMaximumPacketAmount c)"
proof -
  let ?m = "minLong sent (testMaximumPacketAmount c)"
  have d: "?m div 3 \<le> ?m" by (simp add: word_le_nat_alt unat_div_distrib)
  have "unat (?m - ?m div 3) \<le> unat ?m" using unat_sub_u64 [OF d] by simp
  then have "unat (?m - ?m div 3) \<le> unat (testMaximumPacketAmount c)" by (simp add: unat_minLong)
  then show "2 \<le> testMaximumPacketAmount (onInsufficientLiquidityError sent c)"
    "testMaximumPacketAmount (onInsufficientLiquidityError sent c) \<le> maxLong 2 (testMaximumPacketAmount c)"
    by (simp_all add: onInsufficientLiquidityError_def Let_def word_le_nat_alt unat_maxLong)
qed

section \<open>The controller as a state machine\<close>

inductive cstep :: "congestion \<Rightarrow> congestion \<Rightarrow> bool" where
  fulfill: "cstep c (onFulfill sent c)"
| tooLarge: "onAmountTooLargeError reject sent c = Inr (m, c') \<Longrightarrow> cstep c c'"
| liquidity: "cstep c (onInsufficientLiquidityError sent c)"
| set: "cstep c (setMaximumAmounts am c)"

definition congestion_inv :: "u64 option \<Rightarrow> congestion \<Rightarrow> bool" where
  "congestion_inv opt c \<longleftrightarrow>
     testMaximumPacketAmount c \<le> maxLong 2 (c_maximumPacketAmount c)
     \<and> fixedPacketAmount c = (case opt of None \<Rightarrow> MAX_UNSIGNED_VALUE | Some a \<Rightarrow> a)"

lemma tooLarge_test:
  assumes "onAmountTooLargeError reject sent c = Inr (m, c')"
  shows "testMaximumPacketAmount c' \<le> c_maximumPacketAmount c' \<and> fixedPacketAmount c' = fixedPacketAmount c"
proof -
  have "minLong a b div 2 \<le> a" for a b :: u64
  proof -
    have "unat (minLong a b div 2) \<le> unat (minLong a b)" by (simp add: unat_div_distrib)
    then show ?thesis by (simp add: word_le_nat_alt unat_minLong)
  qed
  then show ?thesis using assms
    by (auto simp: onAmountTooLargeError_def Let_def maximumPacketAmount_def split: sum.splits if_splits)
qed

lemma cstep_inv: "cstep c c' \<Longrightarrow> congestion_inv opt c \<Longrightarrow> congestion_inv opt c'"
proof (induction rule: cstep.induct)
  case (fulfill c sent)
  then show ?case
    by (cases rule: onFulfill_cases [of sent c])
      (auto simp: congestion_inv_def maximumPacketAmount_def word_le_nat_alt unat_maxLong unat_minLong)
next
  case (tooLarge reject sent c m c')
  then show ?case using tooLarge_test [OF tooLarge(1)]
    by (auto simp: congestion_inv_def word_le_nat_alt unat_maxLong)
next
  case (liquidity c sent)
  then show ?case using onInsufficientLiquidityError_test(2) [of sent c]
    by (auto simp: congestion_inv_def word_le_nat_alt unat_maxLong onInsufficientLiquidityError_def Let_def)
next
  case (set c am)
  then show ?case by (auto simp: congestion_inv_def setMaximumAmounts_def word_le_nat_alt unat_maxLong)
qed

text \<open>
  In every state the controller reaches by any sequence of fulfills, rejects and resets,
  the amount it tests with is at most the discovered maximum (or the floor of 2), and the sender's own
  limit is never exceeded by the maximum it reports.
\<close>

theorem congestion_reachable:
  assumes "cstep\<^sup>*\<^sup>* (new_congestion opt) c"
  shows "testMaximumPacketAmount c \<le> maxLong 2 (c_maximumPacketAmount c)
    \<and> maximumPacketAmount c \<le> (case opt of None \<Rightarrow> MAX_UNSIGNED_VALUE | Some a \<Rightarrow> a)"
proof -
  have "congestion_inv opt (new_congestion opt)"
    by (simp add: congestion_inv_def new_congestion_def word_le_nat_alt unat_maxLong)
  with assms have "congestion_inv opt c" by (induction rule: rtranclp_induct) (auto intro: cstep_inv)
  then show ?thesis using minLong_le(2) [of "c_maximumPacketAmount c" "fixedPacketAmount c"]
    by (simp add: congestion_inv_def maximumPacketAmount_def)
qed

theorem congestion_reachable_witness:
  "testMaximumPacketAmount (onInsufficientLiquidityError 90 (new_congestion (Some 100)))
      \<le> maxLong 2 (c_maximumPacketAmount (onInsufficientLiquidityError 90 (new_congestion (Some 100))))
    \<and> maximumPacketAmount (onInsufficientLiquidityError 90 (new_congestion (Some 100)))
      \<le> (case Some 100 of None \<Rightarrow> MAX_UNSIGNED_VALUE | Some a \<Rightarrow> a)"
  by (rule congestion_reachable) (rule r_into_rtranclp, rule cstep.liquidity)

end
