(* ===== verification/Data_Queue.thy ===== *)
theory Data_Queue
  imports Prelude
begin

text \<open>
  \<^verbatim>\<open>ilp-protocol-stream/src/util/data-queue.ts\<close>: the FIFO of outgoing chunks.

  The linked list with a tail pointer is a list of chunks with their callbacks (of any type);
  \<open>qlength\<close> is the counter the class keeps beside it. \<open>queue_read\<close> returns the data, the callbacks in
  the order the code calls them, and the queue. The locale \<open>byte_fifo\<close> is the contract
  that the stream relies on: the queue is a byte string to which \<open>push\<close> appends and from which
  \<open>read\<close> takes a prefix.
\<close>

record 'cb data_queue =
  entries :: "(buffer \<times> 'cb option) list"
  qlength :: nat

definition new_queue :: "'cb data_queue" where
  "new_queue = \<lparr>entries = [], qlength = 0\<rparr>"

definition queue_push :: "buffer \<Rightarrow> 'cb option \<Rightarrow> 'cb data_queue \<Rightarrow> 'cb data_queue" where
  "queue_push buf callback q =
     q\<lparr>entries := entries q @ [(buf, callback)], qlength := qlength q + 1\<rparr>"

definition queue_shift :: "'cb data_queue \<Rightarrow> buffer option \<times> 'cb data_queue" where
  "queue_shift q =
     (case entries q of
        [] \<Rightarrow> (None, q)
      | (d, _) # rest \<Rightarrow>
          (Some d, q\<lparr>entries := (if qlength q = 1 then [] else rest), qlength := qlength q - 1\<rparr>))"

text \<open>The while-loop of \<open>read\<close>; an empty list with a positive counter does not occur (\<open>queue_inv\<close>).\<close>

function read_loop ::
  "int \<Rightarrow> 'cb data_queue \<Rightarrow> buffer list \<Rightarrow> 'cb list \<Rightarrow> buffer list \<times> 'cb list \<times> 'cb data_queue" where
  "read_loop bytesLeft q chunks cbs =
     (if bytesLeft > 0 \<and> qlength q > 0 then
        case entries q of
          [] \<Rightarrow> (chunks, cbs, q)
        | (chunk, cb) # rest \<Rightarrow>
            if int (length chunk) > bytesLeft then
              read_loop 0 (q\<lparr>entries := (drop (nat bytesLeft) chunk, cb) # rest\<rparr>)
                (chunks @ [take (nat bytesLeft) chunk]) cbs
            else
              read_loop (bytesLeft - int (length chunk)) (snd (queue_shift q)) (chunks @ [chunk])
                (cbs @ (case cb of None \<Rightarrow> [] | Some c \<Rightarrow> [c]))
      else (chunks, cbs, q))"
  by pat_completeness auto
termination
  by (relation "measures [\<lambda>(n, q, _). length (entries q), \<lambda>(n, q, _). nat n]")
    (auto simp: queue_shift_def)

declare read_loop.simps [simp del]

definition queue_read :: "int \<Rightarrow> 'cb data_queue \<Rightarrow> buffer option \<times> 'cb list \<times> 'cb data_queue" where
  "queue_read n q =
     (if entries q = [] then (None, [], q)
      else case read_loop n q [] [] of (chunks, cbs, q') \<Rightarrow> (Some (concat chunks), cbs, q'))"

definition queue_isEmpty :: "'cb data_queue \<Rightarrow> bool" where
  "queue_isEmpty q \<longleftrightarrow> qlength q = 0"

definition queue_byteLength :: "'cb data_queue \<Rightarrow> nat" where
  "queue_byteLength q = sum_list (map (length \<circ> fst) (entries q))"

section \<open>The queue as a byte string\<close>

definition queue_inv :: "'cb data_queue \<Rightarrow> bool" where
  "queue_inv q \<longleftrightarrow> qlength q = length (entries q)"

definition queue_bytes :: "'cb data_queue \<Rightarrow> buffer" where
  "queue_bytes q = concat (map fst (entries q))"

locale byte_fifo =
  fixes inv :: "'q \<Rightarrow> bool"
    and bytes :: "'q \<Rightarrow> buffer"
    and fresh :: 'q
    and push :: "buffer \<Rightarrow> 'cb option \<Rightarrow> 'q \<Rightarrow> 'q"
    and read :: "int \<Rightarrow> 'q \<Rightarrow> buffer option \<times> 'cb list \<times> 'q"
  assumes fresh: "inv fresh" "bytes fresh = []"
    and push: "inv q \<Longrightarrow> inv (push b cb q)" "inv q \<Longrightarrow> bytes (push b cb q) = bytes q @ b"
    and read: "inv q \<Longrightarrow> read n q = (d, cbs, q') \<Longrightarrow>
      inv q' \<and> bytes q' = drop (nat n) (bytes q) \<and> (case d of None \<Rightarrow> [] | Some b \<Rightarrow> b) = take (nat n) (bytes q)"
begin

text \<open>Any interleaving of pushes (\<open>Inl\<close>) and reads (\<open>Inr\<close>): the bytes delivered and the final queue.\<close>

fun run :: "(buffer \<times> 'cb option + int) list \<Rightarrow> 'q \<Rightarrow> buffer \<times> 'q" where
  "run [] q = ([], q)"
| "run (Inl (b, cb) # ops) q = run ops (push b cb q)"
| "run (Inr n # ops) q =
     (case read n q of (d, cbs, q') \<Rightarrow>
        case run ops q' of (out, q'') \<Rightarrow> ((case d of None \<Rightarrow> [] | Some b \<Rightarrow> b) @ out, q''))"

fun pushed :: "(buffer \<times> 'cb option + int) list \<Rightarrow> buffer" where
  "pushed [] = []"
| "pushed (Inl (b, cb) # ops) = b @ pushed ops"
| "pushed (Inr n # ops) = pushed ops"

lemma run_conserves:
  "inv q \<Longrightarrow> run ops q = (out, q') \<Longrightarrow> out @ bytes q' = bytes q @ pushed ops"
proof (induction ops q arbitrary: out q' rule: run.induct)
  case (2 b cb ops q)
  then show ?case by (simp add: push)
next
  case (3 n ops q)
  obtain d cbs q1 where r: "read n q = (d, cbs, q1)" by (metis prod_cases3)
  obtain out1 where out: "run ops q1 = (out1, q')" "out = (case d of None \<Rightarrow> [] | Some b \<Rightarrow> b) @ out1"
    using 3(3) r by (auto split: prod.splits)
  note rd = read [OF 3(2) r]
  have "out1 @ bytes q' = bytes q1 @ pushed ops" using 3(1) [OF r [symmetric] refl] rd out(1) by simp
  then show ?case using rd out(2) by (metis append.assoc append_take_drop_id pushed.simps(3))
qed simp

end

lemma queue_shift_inv:
  "queue_inv q \<Longrightarrow> entries q = (d, cb) # rest \<Longrightarrow> snd (queue_shift q) = q\<lparr>entries := rest, qlength := length rest\<rparr>"
  by (auto simp: queue_inv_def queue_shift_def)

lemma read_loop_bytes:
  "queue_inv q \<Longrightarrow> read_loop n q chunks cbs = (chunks', cbs', q') \<Longrightarrow>
   queue_inv q' \<and> queue_bytes q' = drop (nat n) (queue_bytes q)
   \<and> concat chunks' = concat chunks @ take (nat n) (queue_bytes q)"
proof (induction n q chunks cbs rule: read_loop.induct)
  case (1 n q chunks cbs)
  show ?case
  proof (cases "n > 0 \<and> qlength q > 0")
    case False
    then have "nat n = 0 \<or> entries q = []" using 1(3) by (auto simp: queue_inv_def)
    with 1(3,4) False show ?thesis by (subst (asm) read_loop.simps) (auto simp: queue_bytes_def)
  next
    case True
    then obtain c cb rest where e: "entries q = (c, cb) # rest"
      using 1(3) by (cases "entries q") (auto simp: queue_inv_def)
    show ?thesis
    proof (cases "int (length c) > n")
      case big: True
      let ?q = "q\<lparr>entries := (drop (nat n) c, cb) # rest\<rparr>"
      have "read_loop 0 ?q (chunks @ [take (nat n) c]) cbs = (chunks', cbs', q')"
        using 1(4) True big e by (subst (asm) read_loop.simps) simp
      then have "chunks' = chunks @ [take (nat n) c]" "q' = ?q" by (simp_all add: read_loop.simps [of 0])
      with 1(3) big e show ?thesis by (simp add: queue_inv_def queue_bytes_def)
    next
      case small: False
      let ?q = "snd (queue_shift q)"
      note sh = queue_shift_inv [OF 1(3) e]
      have rl: "read_loop (n - int (length c)) ?q (chunks @ [c]) (cbs @ (case cb of None \<Rightarrow> [] | Some c \<Rightarrow> [c]))
          = (chunks', cbs', q')"
        using 1(4) True small e by (subst (asm) read_loop.simps) simp
      have "queue_inv ?q" by (simp add: sh queue_inv_def)
      from 1(2) [OF True e refl small this rl]
      have "queue_inv q' \<and> queue_bytes q' = drop (nat (n - int (length c))) (queue_bytes ?q)
        \<and> concat chunks' = concat (chunks @ [c]) @ take (nat (n - int (length c))) (queue_bytes ?q)" .
      moreover have "nat n = length c + nat (n - int (length c))" using small by simp
      moreover have "queue_bytes q = c @ queue_bytes ?q" by (simp add: e sh queue_bytes_def)
      ultimately show ?thesis by simp
    qed
  qed
qed

interpretation dq: byte_fifo queue_inv queue_bytes new_queue queue_push queue_read
proof
  fix q :: "'cb data_queue" and n d cbs q'
  assume q: "queue_inv q" and r: "queue_read n q = (d, cbs, q')"
  show "queue_inv q' \<and> queue_bytes q' = drop (nat n) (queue_bytes q)
    \<and> (case d of None \<Rightarrow> [] | Some b \<Rightarrow> b) = take (nat n) (queue_bytes q)"
  proof (cases "entries q = []")
    case True
    with q r show ?thesis by (auto simp: queue_read_def queue_bytes_def)
  next
    case False
    obtain ch cb2 q2 where rl: "read_loop n q [] [] = (ch, cb2, q2)" by (metis prod_cases3)
    with False r have "d = Some (concat ch)" "q' = q2" by (auto simp: queue_read_def)
    with read_loop_bytes [OF q rl] show ?thesis by simp
  qed
qed (auto simp: queue_inv_def queue_bytes_def new_queue_def queue_push_def)

text \<open>
  \<open>read(n)\<close> returns the first \<open>n\<close> bytes of what is queued, across chunk boundaries, and keeps
  the rest; it returns \<open>undefined\<close> only for an empty queue, and the counter stays in step with the list.
\<close>

theorem queue_read_prefix:
  assumes "queue_inv q" and "entries q \<noteq> []"
  shows "\<exists>cbs q'. queue_read n q = (Some (take (nat n) (queue_bytes q)), cbs, q')
    \<and> queue_inv q' \<and> queue_bytes q' = drop (nat n) (queue_bytes q)
    \<and> queue_byteLength q' = queue_byteLength q - nat n"
proof -
  obtain ch cbs q' where rl: "read_loop n q [] [] = (ch, cbs, q')" by (metis prod_cases3)
  have len: "queue_byteLength r = length (queue_bytes r)" for r :: "'a data_queue"
    by (simp add: queue_byteLength_def queue_bytes_def length_concat comp_def)
  from rl read_loop_bytes [OF assms(1) rl] assms(2) show ?thesis
    by (auto simp: queue_read_def len)
qed

theorem queue_read_prefix_witness:
  "\<exists>cbs q'. queue_read 3 (queue_push [3, 4] (Some ()) (queue_push [1, 2] None new_queue))
      = (Some (take (nat 3) (queue_bytes (queue_push [3, 4] (Some ()) (queue_push [1, 2] None new_queue)))), cbs, q')
    \<and> queue_inv q'
    \<and> queue_bytes q' = drop (nat 3) (queue_bytes (queue_push [3, 4] (Some ()) (queue_push [1, 2] None new_queue)))
    \<and> queue_byteLength q' = queue_byteLength (queue_push [3, 4] (Some ()) (queue_push [1, 2] None new_queue)) - nat 3"
  by (rule queue_read_prefix) (simp_all add: queue_inv_def queue_push_def new_queue_def)

text \<open>
  No byte is lost, duplicated or reordered: over any interleaving of pushes and reads from an
  empty queue, what was read followed by what is still queued is what was pushed.
\<close>

theorem queue_conserves_bytes:
  "fst (dq.run ops new_queue) @ queue_bytes (snd (dq.run ops new_queue)) = dq.pushed ops"
  using dq.run_conserves [OF dq.fresh(1), of ops] dq.fresh(2) by (cases "dq.run ops new_queue") simp

section \<open>Refinement of a byte queue\<close>

text \<open>The abstract queue is the byte string alone; a run lists what each read returns.\<close>

fun fifo_run :: "(buffer \<times> 'cb option + int) list \<Rightarrow> buffer \<Rightarrow> buffer list \<times> buffer" where
  "fifo_run [] bs = ([], bs)"
| "fifo_run (Inl (b, cb) # ops) bs = fifo_run ops (bs @ b)"
| "fifo_run (Inr n # ops) bs = (case fifo_run ops (drop (nat n) bs) of (outs, bs') \<Rightarrow> (take (nat n) bs # outs, bs'))"

text \<open>The same run on the queue of chunks; a read of an empty queue, \<open>undefined\<close>, counts as no bytes.\<close>

fun queue_run :: "(buffer \<times> 'cb option + int) list \<Rightarrow> 'cb data_queue \<Rightarrow> buffer list \<times> 'cb data_queue" where
  "queue_run [] q = ([], q)"
| "queue_run (Inl (b, cb) # ops) q = queue_run ops (queue_push b cb q)"
| "queue_run (Inr n # ops) q =
     (case queue_read n q of (d, cbs, q') \<Rightarrow>
        case queue_run ops q' of (outs, q'') \<Rightarrow> ((case d of None \<Rightarrow> [] | Some b \<Rightarrow> b) # outs, q''))"

lemma queue_run_simulation:
  "queue_inv q \<Longrightarrow> queue_run ops q = (outs, q') \<Longrightarrow> queue_inv q' \<and> fifo_run ops (queue_bytes q) = (outs, queue_bytes q')"
proof (induction ops q arbitrary: outs q' rule: queue_run.induct)
  case (2 b cb ops q)
  then show ?case by (simp add: dq.push)
next
  case (3 n ops q)
  obtain d cbs q1 where r: "queue_read n q = (d, cbs, q1)" by (metis prod_cases3)
  obtain outs1 where o: "queue_run ops q1 = (outs1, q')" "outs = (case d of None \<Rightarrow> [] | Some b \<Rightarrow> b) # outs1"
    using 3(3) r by (auto split: prod.splits)
  note rd = dq.read [OF 3(2) r]
  then show ?case using 3(1) [OF r [symmetric] refl] o by simp
qed simp

text \<open>
  C34. The linked list of chunks refines a byte string: over any sequence of pushes and reads from the empty queue every
  read returns exactly the bytes the abstract queue returns, whatever the chunk boundaries, and the chunk list that remains, whose
  length the counter gives, holds the abstract queue's bytes.
\<close>

theorem data_queue_refines:
  "map_prod id queue_bytes (queue_run ops new_queue) = fifo_run ops [] \<and> queue_inv (snd (queue_run ops new_queue))"
  using queue_run_simulation [OF dq.fresh(1), of ops] by (cases "queue_run ops new_queue") (simp add: dq.fresh(2))

end
