(* ===== verification/Offset_Sorter.thy ===== *)
theory Offset_Sorter
  imports Prelude "HOL-Library.Multiset"
begin

text \<open>
  \<^verbatim>\<open>ilp-protocol-stream/src/util/data-offset-sorter.ts\<close>: the receive buffer of a stream, a
  linked list of chunks ordered by offset. Offsets are JavaScript numbers that came from
  non-negative Longs.
\<close>

type_synonym chunk = "buffer \<times> nat"

record offset_sorter =
  sorted_entries :: "chunk list"
  readOffset :: nat
  maxOffset :: nat

definition new_sorter :: offset_sorter where
  "new_sorter = \<lparr>sorted_entries = [], readOffset = 0, maxOffset = 0\<rparr>"

text \<open>The search of \<open>push\<close>: in front of the first entry with a larger offset.\<close>

fun insert_chunk :: "chunk \<Rightarrow> chunk list \<Rightarrow> chunk list" where
  "insert_chunk e [] = [e]"
| "insert_chunk e (x # xs) = (if snd x > snd e then e # x # xs else x # insert_chunk e xs)"

definition sorter_push :: "buffer \<Rightarrow> nat \<Rightarrow> offset_sorter \<Rightarrow> offset_sorter" where
  "sorter_push d off s =
     s\<lparr>sorted_entries := insert_chunk (d, off) (sorted_entries s),
       maxOffset := max (off + length d) (maxOffset s)\<rparr>"

definition sorter_read :: "offset_sorter \<Rightarrow> buffer option \<times> offset_sorter" where
  "sorter_read s =
     (case sorted_entries s of
        [] \<Rightarrow> (None, s)
      | (d, off) # rest \<Rightarrow>
          if readOffset s = off
          then (Some d, s\<lparr>sorted_entries := rest, readOffset := off + length d\<rparr>)
          else (None, s))"

fun contiguous :: "nat \<Rightarrow> chunk list \<Rightarrow> nat" where
  "contiguous off [] = 0"
| "contiguous off ((d, o') # rest) =
     (if o' = off then length d + contiguous (off + length d) rest else 0)"

definition sorter_byteLength :: "offset_sorter \<Rightarrow> nat" where
  "sorter_byteLength s = contiguous (readOffset s) (sorted_entries s)"

section \<open>Order\<close>

lemma insert_chunk_mset: "mset (insert_chunk e xs) = add_mset e (mset xs)"
  by (induction xs) auto

lemma insert_chunk_set: "set (insert_chunk e xs) = insert e (set xs)"
  by (induction xs) auto

lemma insert_chunk_sorted:
  "sorted (map snd xs) \<Longrightarrow> sorted (map snd (insert_chunk e xs))"
  by (induction xs) (auto simp: insert_chunk_set)

lemma fold_push:
  "sorted_entries (fold (\<lambda>(d, off). sorter_push d off) cs s) = fold insert_chunk cs (sorted_entries s)"
  "readOffset (fold (\<lambda>(d, off). sorter_push d off) cs s) = readOffset s"
  by (induction cs arbitrary: s) (auto simp: sorter_push_def)

lemma fold_insert_sorted: "sorted (map snd xs) \<Longrightarrow> sorted (map snd (fold insert_chunk cs xs))"
  by (induction cs arbitrary: xs) (auto simp: insert_chunk_sorted)

lemma fold_insert_mset: "mset (fold insert_chunk cs xs) = mset cs + mset xs"
  by (induction cs arbitrary: xs) (auto simp: insert_chunk_mset)

section \<open>Reassembly\<close>

text \<open>\<open>tiles off bs cs\<close>: the non-empty chunks \<open>cs\<close>, in this order, cut \<open>bs\<close> starting at offset \<open>off\<close>.\<close>

fun tiles :: "nat \<Rightarrow> buffer \<Rightarrow> chunk list \<Rightarrow> bool" where
  "tiles off bs [] = (bs = [])"
| "tiles off bs ((d, o') # rest) =
     (o' = off \<and> d \<noteq> [] \<and> take (length d) bs = d \<and> tiles (off + length d) (drop (length d) bs) rest)"

lemma tiles_lower: "tiles off bs cs \<Longrightarrow> c \<in> set cs \<Longrightarrow> off \<le> snd c"
  by (induction off bs cs rule: tiles.induct) (auto dest: add_leD1)

lemma tiles_sorted: "tiles off bs cs \<Longrightarrow> sorted (map snd cs) \<and> distinct (map snd cs)"
proof (induction off bs cs rule: tiles.induct)
  case (2 off bs d o' rest)
  have "off < snd c" if "c \<in> set rest" for c
    using tiles_lower [of "off + length d" "drop (length d) bs" rest c] 2 that by (cases d) auto
  with 2 show ?case by fastforce
qed simp

lemma sorted_unique:
  "sorted (map snd xs) \<Longrightarrow> sorted (map snd ys) \<Longrightarrow> distinct (map snd xs) \<Longrightarrow> mset xs = mset ys \<Longrightarrow> xs = ys"
  for xs ys :: "chunk list"
proof (induction xs arbitrary: ys)
  case (Cons x xs)
  then obtain y ys' where ys: "ys = y # ys'" by (cases ys) auto
  have "x \<in> set ys" "y \<in> set (x # xs)" using Cons.prems(4) ys by (metis list.set_intros(1) mset_eq_setD)+
  then have "snd y \<le> snd x" "snd x \<le> snd y" using Cons.prems(1,2) ys by auto
  then have "snd x = snd y" by simp
  then have "x = y" using Cons.prems(3) \<open>y \<in> set (x # xs)\<close> by auto
  then show ?case using Cons ys by simp
qed simp

text \<open>
  The bytes of \<open>bs\<close> before the read offset were read, \<open>es\<close> cuts the others, and the entries together with the chunks \<open>X\<close> that did
  not arrive yet are \<open>es\<close>.
\<close>

definition sorter_ok :: "buffer \<Rightarrow> chunk multiset \<Rightarrow> chunk list \<Rightarrow> offset_sorter \<Rightarrow> bool" where
  "sorter_ok bs X es s \<longleftrightarrow> readOffset s \<le> length bs \<and> tiles (readOffset s) (drop (readOffset s) bs) es
     \<and> sorted (map snd (sorted_entries s)) \<and> mset (sorted_entries s) + X = mset es"

lemma push_ok: "sorter_ok bs (add_mset (d, off) X) es s \<Longrightarrow> sorter_ok bs X es (sorter_push d off s)"
  by (simp add: sorter_ok_def sorter_push_def insert_chunk_sorted insert_chunk_mset)

text \<open>An entry at the read offset is the next piece.\<close>

lemma read_ok:
  assumes "sorter_ok bs X es s" "sorter_read s = (Some d, s')"
  shows "\<exists>es'. sorter_ok bs X es' s'" "drop (readOffset s) bs = d @ drop (readOffset s') bs" "readOffset s' = readOffset s + length d"
proof -
  obtain rest where e: "sorted_entries s = (d, readOffset s) # rest"
    and s': "s' = s\<lparr>sorted_entries := rest, readOffset := readOffset s + length d\<rparr>"
    using assms(2) by (auto simp: sorter_read_def split: list.splits if_splits)
  then show ro: "readOffset s' = readOffset s + length d" by simp
  have es: "tiles (readOffset s) (drop (readOffset s) bs) es" "mset es = add_mset (d, readOffset s) (mset rest + X)" and le: "readOffset s \<le> length bs"
    using assms(1) e by (auto simp: sorter_ok_def)
  have m: "(d, readOffset s) \<in> set es" using arg_cong [OF es(2), of set_mset] by auto
  then obtain c es' where c: "es = c # es'" by (cases es) auto
  have "c = (d, readOffset s)"
    using es(1) m tiles_sorted [OF es(1)] by (cases c) (auto simp: c rev_image_eqI)
  then have t: "take (length d) (drop (readOffset s) bs) = d" "tiles (readOffset s + length d) (drop (readOffset s + length d) bs) es'"
    using es(1) \<open>c = _\<close> by (simp_all add: c add.commute)
  show "drop (readOffset s) bs = d @ drop (readOffset s') bs"
    using append_take_drop_id [of "length d" "drop (readOffset s) bs"] t(1) by (simp add: ro add.commute)
  have "length d \<le> length bs - readOffset s" using arg_cong [OF t(1), of length] by simp
  then have "sorter_ok bs X es' s'"
    using assms(1) e t(2) c es(2) \<open>c = _\<close> le by (simp add: sorter_ok_def s')
  then show "\<exists>es'. sorter_ok bs X es' s'" ..
qed

text \<open>When everything arrived, reading only stops at the end.\<close>

lemma complete_read:
  assumes "sorter_ok bs {#} es s" "sorter_read s = (None, s')"
  shows "readOffset s = length bs"
proof -
  have es: "tiles (readOffset s) (drop (readOffset s) bs) es" using assms(1) by (simp add: sorter_ok_def)
  have "es = sorted_entries s"
    using assms(1) tiles_sorted [OF es] by (intro sorted_unique) (simp_all add: sorter_ok_def)
  moreover have "sorted_entries s = []" if "sorted_entries s = c # rest" for c rest
    using assms(2) es that calculation by (cases c) (simp add: sorter_read_def)
  ultimately have "es = []" by (cases "sorted_entries s") simp_all
  then show ?thesis using es assms(1) by (simp add: sorter_ok_def)
qed

lemma read_to_end: "sorter_ok bs X es s \<Longrightarrow> readOffset s = length bs \<Longrightarrow> sorted_entries s = []"
  by (cases es) (auto simp: sorter_ok_def)

section \<open>Stale chunks\<close>

definition stale :: "offset_sorter \<Rightarrow> bool" where
  "stale s \<longleftrightarrow> (\<exists>c \<in> set (sorted_entries s). snd c < readOffset s) \<and> sorted (map snd (sorted_entries s))"

lemma stale_read: "stale s \<Longrightarrow> sorter_read s = (None, s)"
  by (cases "sorted_entries s") (auto simp: stale_def sorter_read_def)

lemma stale_push: "stale s \<Longrightarrow> stale (sorter_push d off s)"
  by (auto simp: stale_def sorter_push_def insert_chunk_set insert_chunk_sorted)

text \<open>
  A chunk that starts before the read offset, such as a second copy of data that was already
  read, blocks the sorter for good: whatever is pushed afterwards, nothing is ever read again.
\<close>

theorem stale_chunk_blocks:
  assumes "sorted (map snd (sorted_entries s))" and "off < readOffset s"
  shows "fst (sorter_read (fold (\<lambda>(d, off). sorter_push d off) cs (sorter_push d off s))) = None"
proof -
  have "stale (sorter_push d off s)"
    using assms by (auto simp: stale_def sorter_push_def insert_chunk_set insert_chunk_sorted)
  then have "stale (fold (\<lambda>(d, off). sorter_push d off) cs (sorter_push d off s))"
    by (induction cs arbitrary: s d off) (auto simp: stale_push)
  then show ?thesis by (simp add: stale_read)
qed

theorem stale_chunk_blocks_witness:
  "fst (sorter_read (fold (\<lambda>(d, off). sorter_push d off) [([9, 9], 2), ([8], 4)]
     (sorter_push [7] 0 \<lparr>sorted_entries = [], readOffset = 2, maxOffset = 2\<rparr>))) = None"
  by (rule stale_chunk_blocks) simp_all

end
