(* ===== verification/Money_Stream.thy ===== *)
theory Money_Stream
  imports Data_Queue Offset_Sorter Long_Util "HOL-Library.AList"
begin

text \<open>
  \<^verbatim>\<open>ilp-protocol-stream/src/stream.ts\<close>: \<open>DataAndMoneyStream\<close>.

  The record has the fields of the class that its methods read and write; \<open>holds\<close>, an object
  used as a map, is an association list. What the class inherits from Node's \<open>Duplex\<close> and the
  events it emits are not
  modelled: the methods below are what \<open>Connection\<close> calls, each with the state change it makes, and
  the synchronous part of \<open>sendTotal\<close> and \<open>receiveTotal\<close>, whose promises are in \<open>Stream_Wait\<close>. The high-water mark and the readable length that \<open>Duplex\<close> maintains are arguments.

  \<open>sreach M s\<close> is the reachability relation of a stream whose limits were never over
  \<open>M\<close>; the invariant says that money is conserved between holds and the total sent.
\<close>

record 'cb money_stream =
  totalSent :: u64
  totalReceived :: u64
  sendMax :: u64
  receiveMax :: u64
  outgoingHeldAmount :: u64
  holds :: "(jsstring \<times> u64) list"
  st_closed :: bool
  sentEnd :: bool
  remoteSentEnd :: bool
  remoteClosed :: bool
  st_errorMessage :: "jsstring option"
  incomingData :: offset_sorter
  outgoingData :: "'cb data_queue"
  outgoingDataToRetry :: "chunk list"
  outgoingOffset :: nat
  remoteReceived :: u64
  remoteReceiveMax :: u64
  remoteMaxOffset :: int
  st_receipt :: "buffer option"

definition new_stream :: "'cb money_stream" where
  "new_stream =
     \<lparr>totalSent = 0, totalReceived = 0, sendMax = 0, receiveMax = 0, outgoingHeldAmount = 0, holds = [],
      st_closed = False, sentEnd = False, remoteSentEnd = False, remoteClosed = False, st_errorMessage = None,
      incomingData = new_sorter, outgoingData = new_queue, outgoingDataToRetry = [], outgoingOffset = 0,
      remoteReceived = 0, remoteReceiveMax = MAX_UNSIGNED_VALUE, remoteMaxOffset = 16384, st_receipt = None\<rparr>"

section \<open>Limits\<close>

fun not_finite :: "long_value \<Rightarrow> bool" where
  "not_finite (NumV (Num _)) = False"
| "not_finite (NumV _) = True"
| "not_finite _ = False"

definition setSendMax :: "long_value \<Rightarrow> 'cb money_stream \<Rightarrow> 'cb money_stream result" where
  "setSendMax limit s =
     (if st_closed s then Inl (Error ''Stream already closed'')
      else if not_finite limit then Inl (Error ''sendMax must be finite'')
      else ebind (stream_longFromValue limit True) (\<lambda>l.
        if totalSent s > long_bits l then Inl (Error ''Cannot set sendMax lower than the totalSent'')
        else Inr (s\<lparr>sendMax := long_bits l\<rparr>)))"

definition setReceiveMax :: "long_value \<Rightarrow> 'cb money_stream \<Rightarrow> 'cb money_stream result" where
  "setReceiveMax limit s =
     (if st_closed s then Inl (Error ''Stream already closed'')
      else ebind (stream_longFromValue limit True) (\<lambda>l.
        if totalReceived s > long_bits l then Inl (Error ''Cannot set receiveMax lower than the totalReceived'')
        else if receiveMax s > long_bits l then Inl (Error ''Cannot decrease the receiveMax'')
        else Inr (s\<lparr>receiveMax := long_bits l\<rparr>)))"

text \<open>The calls before the promise: \<open>True\<close> when it resolves at once.\<close>

definition sendTotal :: "long_value \<Rightarrow> 'cb money_stream \<Rightarrow> (bool \<times> 'cb money_stream) result" where
  "sendTotal limit s = ebind (stream_longFromValue limit True) (\<lambda>l.
     if totalSent s \<ge> long_bits l then Inr (True, s)
     else ebind (setSendMax (LongV l) s) (\<lambda>s'. Inr (False, s')))"

definition receiveTotal :: "long_value \<Rightarrow> 'cb money_stream \<Rightarrow> (bool \<times> 'cb money_stream) result" where
  "receiveTotal limit s = ebind (stream_longFromValue limit True) (\<lambda>l.
     if totalReceived s \<ge> long_bits l then Inr (True, s)
     else ebind (setReceiveMax (LongV l) s) (\<lambda>s'. Inr (False, s')))"

section \<open>Money\<close>

definition getAmountStreamCanReceive :: "'cb money_stream \<Rightarrow> u64" where
  "getAmountStreamCanReceive s =
     (if receiveMax s < totalReceived s then 0
      else difference (checkedSubtract (receiveMax s) (totalReceived s)))"

definition addToIncoming :: "u64 \<Rightarrow> 'cb money_stream \<Rightarrow> 'cb money_stream" where
  "addToIncoming am s = s\<lparr>totalReceived := add_sum (checkedAdd (totalReceived s) am)\<rparr>"

definition getAmountAvailableToSend :: "'cb money_stream \<Rightarrow> u64" where
  "getAmountAvailableToSend s =
     (if st_closed s then 0
      else difference (checkedSubtract (difference (checkedSubtract (sendMax s) (totalSent s)))
             (outgoingHeldAmount s)))"

definition holdOutgoing :: "jsstring \<Rightarrow> u64 option \<Rightarrow> 'cb money_stream \<Rightarrow> u64 \<times> 'cb money_stream" where
  "holdOutgoing holdId maxAmount s =
     (let amountAvailable = getAmountAvailableToSend s;
          amountToHold = (case maxAmount of None \<Rightarrow> amountAvailable | Some m \<Rightarrow> minLong amountAvailable m)
      in if amountToHold > 0
         then (amountToHold, s\<lparr>outgoingHeldAmount := outgoingHeldAmount s + amountToHold,
                               holds := AList.update holdId amountToHold (holds s)\<rparr>)
         else (amountToHold, s))"

definition executeHold :: "jsstring \<Rightarrow> 'cb money_stream \<Rightarrow> 'cb money_stream" where
  "executeHold holdId s =
     (case map_of (holds s) holdId of
        None \<Rightarrow> s
      | Some am \<Rightarrow> s\<lparr>outgoingHeldAmount := outgoingHeldAmount s - am, totalSent := totalSent s + am,
                      holds := AList.delete holdId (holds s)\<rparr>)"

definition cancelHold :: "jsstring \<Rightarrow> 'cb money_stream \<Rightarrow> 'cb money_stream" where
  "cancelHold holdId s =
     (case map_of (holds s) holdId of
        None \<Rightarrow> s
      | Some am \<Rightarrow> s\<lparr>outgoingHeldAmount := outgoingHeldAmount s - am,
                      holds := AList.delete holdId (holds s)\<rparr>)"

section \<open>Data\<close>

definition stream_write :: "buffer \<Rightarrow> 'cb option \<Rightarrow> 'cb money_stream \<Rightarrow> 'cb money_stream" where
  "stream_write chunk callback s = s\<lparr>outgoingData := queue_push chunk callback (outgoingData s)\<rparr>"

text \<open>\<open>_writev\<close>: only the last chunk carries the callback.\<close>

fun stream_writev :: "buffer list \<Rightarrow> 'cb option \<Rightarrow> 'cb money_stream \<Rightarrow> 'cb money_stream" where
  "stream_writev [] callback s = s"
| "stream_writev [c] callback s = stream_write c callback s"
| "stream_writev (c # cs) callback s = stream_writev cs callback (stream_write c None s)"

text \<open>\<open>_read(size)\<close>: the buffers pushed to the consumer.\<close>

function stream_read :: "int \<Rightarrow> offset_sorter \<Rightarrow> buffer list \<times> offset_sorter" where
  "stream_read n s =
     (case sorter_read s of
        (None, _) \<Rightarrow> ([], s)
      | (Some d, s') \<Rightarrow>
          if int (length d) < n
          then (case stream_read (n - int (length d)) s' of (out, s'') \<Rightarrow> (d # out, s''))
          else ([d], s'))"
  by pat_completeness auto
termination
  by (relation "measure (\<lambda>(n, s). length (sorted_entries s))")
    (auto simp: sorter_read_def split: list.splits if_splits)

declare stream_read.simps [simp del]

definition pushIncomingData ::
  "int \<Rightarrow> buffer \<Rightarrow> nat \<Rightarrow> 'cb money_stream \<Rightarrow> buffer list \<times> 'cb money_stream" where
  "pushIncomingData room d off s =
     (case stream_read room (sorter_push d off (incomingData s)) of
        (out, inc) \<Rightarrow> (out, s\<lparr>incomingData := inc\<rparr>))"

definition hasDataToSend :: "'cb money_stream \<Rightarrow> bool" where
  "hasDataToSend s \<longleftrightarrow> \<not> queue_isEmpty (outgoingData s) \<or> outgoingDataToRetry s \<noteq> []"

definition getAvailableDataToSend ::
  "nat \<Rightarrow> 'cb money_stream \<Rightarrow> (buffer option \<times> nat) \<times> 'cb list \<times> 'cb money_stream" where
  "getAvailableDataToSend n s =
     (case outgoingDataToRetry s of
        (d, off) # rest \<Rightarrow>
          if length d > n
          then ((Some (take n d), off), [], s\<lparr>outgoingDataToRetry := (drop n d, off + n) # rest\<rparr>)
          else ((Some d, off), [], s\<lparr>outgoingDataToRetry := rest\<rparr>)
      | [] \<Rightarrow>
          let maxBytes = min (int n) (remoteMaxOffset s - int (outgoingOffset s));
              off = outgoingOffset s
          in case queue_read maxBytes (outgoingData s) of
               (d, cbs, q) \<Rightarrow>
                 ((d, off), cbs, s\<lparr>outgoingData := q,
                    outgoingOffset := off + (case d of None \<Rightarrow> 0 | Some b \<Rightarrow> length b)\<rparr>))"

definition resendOutgoingData :: "buffer \<Rightarrow> nat \<Rightarrow> 'cb money_stream \<Rightarrow> 'cb money_stream" where
  "resendOutgoingData d off s = s\<lparr>outgoingDataToRetry := outgoingDataToRetry s @ [(d, off)]\<rparr>"

definition isDataBlocked :: "'cb money_stream \<Rightarrow> nat option" where
  "isDataBlocked s =
     (let end' = outgoingOffset s + queue_byteLength (outgoingData s)
      in if remoteMaxOffset s < int end' then Some end' else None)"

definition getOutgoingOffsets :: "'cb money_stream \<Rightarrow> nat \<times> nat" where
  "getOutgoingOffsets s =
     (outgoingOffset s, outgoingOffset s + queue_byteLength (outgoingData s))"

definition getIncomingOffsets :: "int \<Rightarrow> int \<Rightarrow> 'cb money_stream \<Rightarrow> nat \<times> nat \<times> int" where
  "getIncomingOffsets highWaterMark readableLength s =
     (maxOffset (incomingData s), readOffset (incomingData s),
      int (readOffset (incomingData s)) + highWaterMark - readableLength)"

definition setReceipt :: "buffer \<Rightarrow> 'cb money_stream \<Rightarrow> 'cb money_stream" where
  "setReceipt r s = s\<lparr>st_receipt := Some r\<rparr>"

section \<open>Closing\<close>

definition final_at_once :: "'cb money_stream \<Rightarrow> bool" where
  "final_at_once s \<longleftrightarrow> remoteSentEnd s \<or> sendMax s \<le> totalSent s"

definition finish :: "'cb money_stream \<Rightarrow> 'cb money_stream" where
  "finish s = s\<lparr>st_closed := True\<rparr>"

definition stream_destroy :: "jsstring option \<Rightarrow> 'cb money_stream \<Rightarrow> 'cb money_stream" where
  "stream_destroy err s =
     s\<lparr>st_closed := True, st_errorMessage := (case err of None \<Rightarrow> st_errorMessage s | Some m \<Rightarrow> Some m)\<rparr>"

definition remoteEnded :: "'cb money_stream \<Rightarrow> 'cb money_stream" where
  "remoteEnded s = s\<lparr>remoteSentEnd := True, remoteClosed := True\<rparr>"

section \<open>Conservation of outgoing money\<close>

definition holds_sum :: "(jsstring \<times> u64) list \<Rightarrow> nat" where
  "holds_sum hs = sum_list (map (unat \<circ> snd) hs)"

definition money_inv :: "nat \<Rightarrow> 'cb money_stream \<Rightarrow> bool" where
  "money_inv M s \<longleftrightarrow>
     unat (outgoingHeldAmount s) = holds_sum (holds s) \<and> distinct (map fst (holds s))
     \<and> unat (totalSent s) + unat (outgoingHeldAmount s) \<le> M \<and> unat (sendMax s) \<le> M"

lemma holds_sum_delete:
  "distinct (map fst hs) \<Longrightarrow> map_of hs k = Some a \<Longrightarrow> holds_sum hs = unat a + holds_sum (AList.delete k hs)"
proof (induction hs)
  case (Cons h hs)
  then show ?case
  proof (cases "fst h = k")
    case True
    then have "k \<notin> fst ` set hs" using Cons.prems(1) by auto
    then have "AList.delete k hs = hs" by (simp add: delete_id)
    with True Cons.prems(2) show ?thesis by (cases h) (simp add: holds_sum_def)
  qed (cases h, simp add: holds_sum_def)
qed simp

lemma holds_sum_update: "k \<notin> fst ` set hs \<Longrightarrow> holds_sum (AList.update k a hs) = holds_sum hs + unat a"
  by (induction hs) (auto simp: holds_sum_def)

lemma unat_truncated_sub:
  "2 * unat b < unat a + 2 ^ 64 \<Longrightarrow> unat (difference (checkedSubtract a b)) = unat a - unat b"
  using checkedSubtract_sat [of b a] by blast

lemma available_exact:
  assumes "money_inv M s" "M < 2 ^ 63"
  shows "unat (getAmountAvailableToSend s) =
    (if st_closed s then 0 else unat (sendMax s) - unat (totalSent s) - unat (outgoingHeldAmount s))"
proof -
  have "unat (totalSent s) < 2 ^ 63" "unat (outgoingHeldAmount s) < 2 ^ 63"
    using assms by (auto simp: money_inv_def)
  then show ?thesis
    using unat_truncated_sub [of "totalSent s" "sendMax s"]
      unat_truncated_sub [of "outgoingHeldAmount s" "difference (checkedSubtract (sendMax s) (totalSent s))"]
    by (simp add: getAmountAvailableToSend_def)
qed

lemma holdOutgoing_inv:
  assumes inv: "money_inv M s" "M < 2 ^ 63" and fresh: "k \<notin> fst ` set (holds s)"
    and step: "holdOutgoing k mx s = (h, s')"
  shows "money_inv M s'" "unat h \<le> unat (sendMax s) - unat (totalSent s) - unat (outgoingHeldAmount s)"
proof -
  define av where "av = unat (sendMax s) - unat (totalSent s) - unat (outgoingHeldAmount s)"
  have "unat (getAmountAvailableToSend s) \<le> av" using available_exact [OF inv] by (simp add: av_def)
  moreover have "unat h \<le> unat (getAmountAvailableToSend s)"
    using step by (auto simp: holdOutgoing_def Let_def unat_minLong split: option.splits if_splits)
  ultimately have h: "unat h \<le> av" by linarith
  then show "unat h \<le> unat (sendMax s) - unat (totalSent s) - unat (outgoingHeldAmount s)" by (simp add: av_def)
  have M: "unat (totalSent s) + unat (outgoingHeldAmount s) \<le> M" "unat (sendMax s) \<le> M"
    using inv(1) by (auto simp: money_inv_def)
  show "money_inv M s'"
  proof (cases "h > 0")
    case False
    then have "s' = s" using step by (auto simp: holdOutgoing_def Let_def split: if_splits)
    with inv show ?thesis by simp
  next
    case True
    then have s': "s' = s\<lparr>outgoingHeldAmount := outgoingHeldAmount s + h, holds := AList.update k h (holds s)\<rparr>"
      using step by (auto simp: holdOutgoing_def Let_def split: if_splits)
    have "0 < unat h" using True by (simp add: word_less_nat_alt)
    then have sum: "unat (totalSent s) + unat (outgoingHeldAmount s) + unat h \<le> M"
      using h M(2) unfolding av_def by linarith
    then have "unat (outgoingHeldAmount s + h) = unat (outgoingHeldAmount s) + unat h"
      using inv(2) by (intro unat_add_u64) simp
    with s' sum inv(1) fresh show ?thesis
      by (simp add: money_inv_def holds_sum_update distinct_update)
  qed
qed

lemma release_inv:
  assumes inv: "money_inv M s" and some: "map_of (holds s) k = Some a"
  shows "unat (outgoingHeldAmount s - a) + unat a = unat (outgoingHeldAmount s)"
    "unat (outgoingHeldAmount s - a) = holds_sum (AList.delete k (holds s))"
    "distinct (map fst (AList.delete k (holds s)))"
proof -
  have d: "distinct (map fst (holds s))" and held: "unat (outgoingHeldAmount s) = holds_sum (holds s)"
    using inv by (auto simp: money_inv_def)
  note sum = holds_sum_delete [OF d some]
  then have le: "a \<le> outgoingHeldAmount s" using held by (simp add: word_le_nat_alt)
  show "unat (outgoingHeldAmount s - a) = holds_sum (AList.delete k (holds s))"
    using unat_sub_u64 [OF le] held sum by simp
  show "unat (outgoingHeldAmount s - a) + unat a = unat (outgoingHeldAmount s)"
    using unat_sub_u64 [OF le] le by (simp add: word_le_nat_alt)
  show "distinct (map fst (AList.delete k (holds s)))" using d by (rule distinct_delete)
qed

lemma executeHold_inv:
  assumes inv: "money_inv M s" "M < 2 ^ 63"
  shows "money_inv M (executeHold k s)"
proof (cases "map_of (holds s) k")
  case None
  with inv show ?thesis by (simp add: executeHold_def)
next
  case (Some a)
  note rel = release_inv [OF inv(1) Some]
  have "unat (totalSent s) + unat (outgoingHeldAmount s) \<le> M" using inv(1) by (simp add: money_inv_def)
  moreover from this have "unat (totalSent s + a) = unat (totalSent s) + unat a"
    using rel(1) inv(2) by (intro unat_add_u64) simp
  ultimately show ?thesis using inv(1) rel Some by (simp add: executeHold_def money_inv_def)
qed

lemma cancelHold_inv:
  assumes inv: "money_inv M s"
  shows "money_inv M (cancelHold k s)"
proof (cases "map_of (holds s) k")
  case None
  with inv show ?thesis by (simp add: cancelHold_def)
next
  case (Some a)
  note rel = release_inv [OF inv Some]
  with inv Some show ?thesis by (simp add: cancelHold_def money_inv_def)
qed

text \<open>
  The stream as the connection drives it. \<open>M\<close> is the largest send limit so far; holds are taken under
  fresh identifiers (the connection uses the packet's own), the other steps do not touch the outgoing money.
\<close>

inductive sreach :: "nat \<Rightarrow> 'cb money_stream \<Rightarrow> bool" where
  start: "sreach 0 new_stream"
| limit: "sreach M s \<Longrightarrow> setSendMax l s = Inr s' \<Longrightarrow> sreach (max M (unat (sendMax s'))) s'"
| receive_limit: "sreach M s \<Longrightarrow> setReceiveMax l s = Inr s' \<Longrightarrow> sreach M s'"
| hold: "sreach M s \<Longrightarrow> k \<notin> fst ` set (holds s) \<Longrightarrow> sreach M (snd (holdOutgoing k mx s))"
| execute: "sreach M s \<Longrightarrow> sreach M (executeHold k s)"
| cancel: "sreach M s \<Longrightarrow> sreach M (cancelHold k s)"
| incoming: "sreach M s \<Longrightarrow> sreach M (addToIncoming am s)"
| written_data: "sreach M s \<Longrightarrow> sreach M (stream_write b cb s)"
| data: "sreach M s \<Longrightarrow> sreach M (snd (snd (getAvailableDataToSend n s)))"
| resend: "sreach M s \<Longrightarrow> sreach M (resendOutgoingData b off s)"
| pushed: "sreach M s \<Longrightarrow> sreach M (snd (pushIncomingData room b off s))"
| close: "sreach M s \<Longrightarrow> sreach M (finish s)"
| destroy: "sreach M s \<Longrightarrow> sreach M (stream_destroy e s)"
| ended: "sreach M s \<Longrightarrow> sreach M (remoteEnded s)"

lemma money_inv_frame:
  "money_inv M s \<Longrightarrow> totalSent s' = totalSent s \<Longrightarrow> sendMax s' = sendMax s
   \<Longrightarrow> outgoingHeldAmount s' = outgoingHeldAmount s \<Longrightarrow> holds s' = holds s \<Longrightarrow> money_inv M s'"
  by (simp add: money_inv_def)

lemma data_frame:
  "totalSent (snd (snd (getAvailableDataToSend n s))) = totalSent s"
  "sendMax (snd (snd (getAvailableDataToSend n s))) = sendMax s"
  "outgoingHeldAmount (snd (snd (getAvailableDataToSend n s))) = outgoingHeldAmount s"
  "holds (snd (snd (getAvailableDataToSend n s))) = holds s"
  by (auto simp: getAvailableDataToSend_def Let_def split: list.splits prod.splits)

lemma pushed_frame:
  "totalSent (snd (pushIncomingData room b off s)) = totalSent s"
  "sendMax (snd (pushIncomingData room b off s)) = sendMax s"
  "outgoingHeldAmount (snd (pushIncomingData room b off s)) = outgoingHeldAmount s"
  "holds (snd (pushIncomingData room b off s)) = holds s"
  by (auto simp: pushIncomingData_def split: prod.splits)

lemmas frame_defs = addToIncoming_def stream_write_def resendOutgoingData_def finish_def
  stream_destroy_def remoteEnded_def data_frame pushed_frame

lemma setSendMax_inv:
  "money_inv M s \<Longrightarrow> setSendMax l s = Inr s' \<Longrightarrow> money_inv (max M (unat (sendMax s'))) s'"
  by (auto simp: setSendMax_def money_inv_def split: if_splits)

lemma setReceiveMax_frame:
  "setReceiveMax l s = Inr s' \<Longrightarrow> totalSent s' = totalSent s \<and> sendMax s' = sendMax s
   \<and> outgoingHeldAmount s' = outgoingHeldAmount s \<and> holds s' = holds s"
  by (auto simp: setReceiveMax_def split: if_splits)

lemma sreach_inv: "sreach M s \<Longrightarrow> M < 2 ^ 63 \<Longrightarrow> money_inv M s"
proof (induction rule: sreach.induct)
  case start
  show ?case by (simp add: money_inv_def new_stream_def holds_sum_def)
next
  case (limit M s l s')
  then show ?case using setSendMax_inv by (metis max.strict_boundedE)
next
  case (receive_limit M s l s')
  then show ?case using setReceiveMax_frame [OF receive_limit(2)] by (auto intro: money_inv_frame)
next
  case (hold M s k mx)
  then show ?case using holdOutgoing_inv(1) [of M s k mx] by (metis prod.collapse)
qed (simp_all add: executeHold_inv cancelHold_inv, (rule money_inv_frame; simp add: frame_defs)+)

text \<open>
  C29. Over any sequence of the stream's operations, the amount sent plus the amount held for
  packets in flight never exceeds the largest send limit ever set, and the held amount is
  exactly the sum of the open holds (for limits below \<open>2\<^sup>6\<^sup>3\<close>).
\<close>

theorem stream_money_conserved:
  assumes "sreach M s" and "M < 2 ^ 63"
  shows "unat (totalSent s) + unat (outgoingHeldAmount s) \<le> M
    \<and> unat (outgoingHeldAmount s) = holds_sum (holds s)"
  using sreach_inv [OF assms] by (simp add: money_inv_def)

lemma sample_stream:
  "sreach 100 (executeHold [1] (snd (holdOutgoing [1] (Some 30) (new_stream\<lparr>sendMax := 100\<rparr>))))"
proof -
  have "setSendMax (LongV (Long 100 True)) (new_stream :: 'a money_stream) = Inr (new_stream\<lparr>sendMax := 100\<rparr>)"
    by (simp add: setSendMax_def new_stream_def)
  from sreach.limit [OF sreach.start this]
  have "sreach 100 (new_stream\<lparr>sendMax := 100\<rparr> :: 'a money_stream)" by simp
  then show ?thesis by (intro sreach.execute sreach.hold) (simp_all add: new_stream_def)
qed

theorem stream_money_conserved_witness:
  "unat (totalSent (executeHold [1] (snd (holdOutgoing [1] (Some 30)
        (new_stream\<lparr>sendMax := 100\<rparr> :: unit money_stream)))))
     + unat (outgoingHeldAmount (executeHold [1] (snd (holdOutgoing [1] (Some 30)
        (new_stream\<lparr>sendMax := 100\<rparr> :: unit money_stream))))) \<le> 100
    \<and> unat (outgoingHeldAmount (executeHold [1] (snd (holdOutgoing [1] (Some 30)
        (new_stream\<lparr>sendMax := 100\<rparr> :: unit money_stream)))))
      = holds_sum (holds (executeHold [1] (snd (holdOutgoing [1] (Some 30)
        (new_stream\<lparr>sendMax := 100\<rparr> :: unit money_stream)))))"
  by (rule stream_money_conserved [OF sample_stream]) simp

text \<open>
  Lowering the send limit while money is held in flight lets the total sent exceed the current
  limit: the new limit is compared with the amount sent only, not with the open holds.
\<close>

theorem lowered_limit_exceeded:
  "\<exists>s'. setSendMax (LongV (Long 10 True)) (snd (holdOutgoing [1] None (new_stream\<lparr>sendMax := 100\<rparr> :: unit money_stream))) = Inr s'
     \<and> sendMax (executeHold [1] s') = 10 \<and> totalSent (executeHold [1] s') = 100"
  by (simp add: holdOutgoing_def getAmountAvailableToSend_def new_stream_def checkedSubtract_def
      setSendMax_def executeHold_def)

text \<open>
  A hold takes at most what is available, and the amount the stream can still receive is
  exactly the distance to its receive limit.
\<close>

theorem stream_amounts_exact:
  assumes "sreach M s" and "M < 2 ^ 63" and "k \<notin> fst ` set (holds s)"
  shows "unat (fst (holdOutgoing k mx s))
      \<le> unat (sendMax s) - unat (totalSent s) - unat (outgoingHeldAmount s)
    \<and> unat (getAmountStreamCanReceive s) = unat (receiveMax s) - unat (totalReceived s)"
proof
  show "unat (fst (holdOutgoing k mx s)) \<le> unat (sendMax s) - unat (totalSent s) - unat (outgoingHeldAmount s)"
    using holdOutgoing_inv(2) [OF sreach_inv [OF assms(1,2)] assms(2,3)] by (metis prod.collapse)
  show "unat (getAmountStreamCanReceive s) = unat (receiveMax s) - unat (totalReceived s)"
    using checkedSubtract_sat [of "totalReceived s" "receiveMax s"]
    by (auto simp: getAmountStreamCanReceive_def word_less_nat_alt word_le_nat_alt)
qed

theorem stream_amounts_exact_witness:
  "unat (fst (holdOutgoing [2] None (new_stream :: unit money_stream)))
      \<le> unat (sendMax (new_stream :: unit money_stream)) - unat (totalSent (new_stream :: unit money_stream))
        - unat (outgoingHeldAmount (new_stream :: unit money_stream))
    \<and> unat (getAmountStreamCanReceive (new_stream :: unit money_stream))
      = unat (receiveMax (new_stream :: unit money_stream)) - unat (totalReceived (new_stream :: unit money_stream))"
  by (rule stream_amounts_exact [OF sreach.start]) (simp_all add: new_stream_def)

section \<open>Outgoing data\<close>

text \<open>\<open>W\<close> is everything written to the stream so far.\<close>

definition is_slice :: "buffer \<Rightarrow> chunk \<Rightarrow> bool" where
  "is_slice W c \<longleftrightarrow> snd c + length (fst c) \<le> length W \<and> fst c = slice (snd c) (length (fst c)) W"

definition data_inv :: "buffer \<Rightarrow> 'cb money_stream \<Rightarrow> bool" where
  "data_inv W s \<longleftrightarrow> queue_inv (outgoingData s) \<and> outgoingOffset s \<le> length W
     \<and> queue_bytes (outgoingData s) = drop (outgoingOffset s) W
     \<and> list_all (is_slice W) (outgoingDataToRetry s)"

lemma is_slice_append: "is_slice W c \<Longrightarrow> is_slice (W @ b) c"
  by (auto simp: is_slice_def slice_def)

lemma is_slice_split:
  assumes "is_slice W (d, off)" "n \<le> length d"
  shows "is_slice W (take n d, off)" "is_slice W (drop n d, off + n)"
proof -
  have le: "off + length d \<le> length W" and d: "d = take (length d) (drop off W)"
    using assms(1) by (auto simp: is_slice_def slice_def)
  have "take n d = take n (drop off W)" using assms(2) by (subst d) (simp add: min_def)
  then show "is_slice W (take n d, off)" using le assms(2) by (simp add: is_slice_def slice_def)
  have "drop n d = take (length d - n) (drop (off + n) W)"
    by (subst d) (simp add: drop_take add.commute)
  then show "is_slice W (drop n d, off + n)" using le assms(2) by (simp add: is_slice_def slice_def)
qed

lemma data_inv_new: "data_inv [] new_stream"
  by (simp add: data_inv_def new_stream_def queue_inv_def queue_bytes_def new_queue_def)

lemma data_inv_write: "data_inv W s \<Longrightarrow> data_inv (W @ b) (stream_write b cb s)"
  using dq.push [of "outgoingData s" b cb]
  by (auto simp: data_inv_def stream_write_def list_all_iff intro: is_slice_append)

lemma data_inv_resend: "data_inv W s \<Longrightarrow> is_slice W (d, off) \<Longrightarrow> data_inv W (resendOutgoingData d off s)"
  by (simp add: data_inv_def resendOutgoingData_def)

lemma new_data:
  assumes inv: "data_inv W s" and r: "queue_read m (outgoingData s) = (d, cbs, q)"
  defines "b \<equiv> (case d of None \<Rightarrow> [] | Some b \<Rightarrow> b)"
  shows "is_slice W (b, outgoingOffset s)" "length b \<le> nat m"
    "data_inv W (s\<lparr>outgoingData := q, outgoingOffset := outgoingOffset s + length b\<rparr>)"
proof -
  let ?o = "outgoingOffset s"
  have q: "queue_inv q" "queue_bytes q = drop (nat m) (drop ?o W)" "b = take (nat m) (drop ?o W)"
    using inv dq.read [OF _ r] by (auto simp: data_inv_def b_def)
  have o: "?o \<le> length W" using inv by (simp add: data_inv_def)
  show "length b \<le> nat m" using q(3) by simp
  have len: "?o + length b \<le> length W" using o q(3) by simp
  have "b = take (length b) (drop ?o W)" unfolding q(3) by (simp add: min_def)
  then show "is_slice W (b, ?o)" using len by (simp add: is_slice_def slice_def)
  have "drop (nat m) (drop ?o W) = drop (length b) (drop ?o W)"
    unfolding q(3) by (cases "nat m \<le> length (drop ?o W)") simp_all
  then show "data_inv W (s\<lparr>outgoingData := q, outgoingOffset := ?o + length b\<rparr>)"
    using inv q(1,2) len by (simp add: data_inv_def add.commute)
qed

text \<open>The positions of bytes that wait to be sent: those of the chunks to retry and those that were not sent yet.\<close>

definition waiting_bytes :: "buffer \<Rightarrow> 'cb money_stream \<Rightarrow> nat set" where
  "waiting_bytes W s = (\<Union>c \<in> set (outgoingDataToRetry s). {snd c..<snd c + length (fst c)}) \<union> {outgoingOffset s..<length W}"

text \<open>
  C32. Every chunk handed to a packet, new or retried, is the part of what the application wrote at the
  offset it is labelled with, fits the packet, and new data stays below the remote's flow-control limit. No byte is
  skipped: the positions that wait to be sent before are those of the chunk and those that wait after, also when only the
  first part of a chunk is retried, and resending the chunk makes all of them wait again.
\<close>

theorem outgoing_data_faithful:
  assumes "data_inv W s" and "getAvailableDataToSend n s = ((Some d, off), cbs, s')"
  shows "d = slice off (length d) W \<and> length d \<le> n \<and> data_inv W s'
    \<and> (outgoingDataToRetry s \<noteq> [] \<or> d = [] \<or> int (off + length d) \<le> remoteMaxOffset s)
    \<and> waiting_bytes W s = {off..<off + length d} \<union> waiting_bytes W s'
    \<and> waiting_bytes W (resendOutgoingData d off s') = waiting_bytes W s"
proof -
  have "d = slice off (length d) W \<and> length d \<le> n \<and> data_inv W s'
    \<and> (outgoingDataToRetry s \<noteq> [] \<or> d = [] \<or> int (off + length d) \<le> remoteMaxOffset s)
    \<and> waiting_bytes W s = {off..<off + length d} \<union> waiting_bytes W s'"
proof (cases "outgoingDataToRetry s")
  case Nil
  let ?m = "min (int n) (remoteMaxOffset s - int (outgoingOffset s))"
  obtain q where r: "queue_read ?m (outgoingData s) = (Some d, cbs, q)" and off: "off = outgoingOffset s"
      and s': "s' = s\<lparr>outgoingData := q, outgoingOffset := outgoingOffset s + length d\<rparr>"
    using assms(2) Nil by (auto simp: getAvailableDataToSend_def Let_def split: prod.splits)
  note nd = new_data [OF assms(1) r, unfolded option.case]
  have "length d \<le> n" "d = [] \<or> int (off + length d) \<le> remoteMaxOffset s"
    using nd(2) off by (cases d; auto simp: min_def split: if_splits)+
  moreover have "waiting_bytes W s = {off..<off + length d} \<union> waiting_bytes W s'"
    using nd(1) Nil off s' by (auto simp: waiting_bytes_def is_slice_def)
  ultimately show ?thesis using nd(1,3) off s' by (simp add: is_slice_def)
next
  case (Cons c rest)
  obtain e o' where c: "c = (e, o')" by fastforce
  have e: "is_slice W (e, o')" and rest: "list_all (is_slice W) rest"
    using assms(1) Cons c by (auto simp: data_inv_def)
  show ?thesis
  proof (cases "length e > n")
    case True
    then have "d = take n e" "off = o'" "s' = s\<lparr>outgoingDataToRetry := (drop n e, o' + n) # rest\<rparr>"
      using assms(2) Cons c by (auto simp: getAvailableDataToSend_def)
    then show ?thesis using is_slice_split [OF e, of n] rest assms(1) True Cons c
      by (auto simp: data_inv_def is_slice_def waiting_bytes_def)
  next
    case False
    then have "d = e" "off = o'" "s' = s\<lparr>outgoingDataToRetry := rest\<rparr>"
      using assms(2) Cons c by (auto simp: getAvailableDataToSend_def)
    then show ?thesis using e rest assms(1) False Cons c by (auto simp: data_inv_def is_slice_def waiting_bytes_def)
  qed
qed
  then show ?thesis by (auto simp: waiting_bytes_def resendOutgoingData_def)
qed

lemma sample_data:
  "data_inv [1, 2, 3] (stream_write [1, 2, 3] None (new_stream :: unit money_stream))"
  using data_inv_write [OF data_inv_new, of "[1, 2, 3]" None] by simp

lemma sample_send:
  "\<exists>cbs s'. getAvailableDataToSend 2 (stream_write [1, 2, 3] None (new_stream :: unit money_stream))
     = ((Some [1, 2], 0), cbs, s')"
  by (simp add: getAvailableDataToSend_def stream_write_def new_stream_def queue_push_def new_queue_def
      queue_read_def read_loop.simps)

theorem outgoing_data_faithful_witness:
  "[1, 2 :: byte] = slice 0 (length [1, 2 :: byte]) [1, 2, 3] \<and> length [1, 2 :: byte] \<le> 2
    \<and> (\<exists>s'. data_inv [1, 2, 3] (s' :: unit money_stream) \<and> {0..<0 + length [1, 2 :: byte]} \<union> waiting_bytes [1, 2, 3] s' = {0..<3})"
proof -
  obtain cbs s' where "getAvailableDataToSend 2 (stream_write [1, 2, 3] None (new_stream :: unit money_stream))
     = ((Some [1, 2], 0), cbs, s')" using sample_send by blast
  moreover have "waiting_bytes [1, 2, 3] (stream_write [1, 2, 3] None (new_stream :: unit money_stream)) = {0..<3}"
    by (auto simp: waiting_bytes_def stream_write_def new_stream_def)
  ultimately show ?thesis using outgoing_data_faithful [OF sample_data, of 2 "[1, 2]" 0 cbs s'] by blast
qed

section \<open>Incoming data\<close>

text \<open>Chunks that arrive, with the room the consumer has, and reads of the consumer: what it gets, and the stream.\<close>

fun incoming_run :: "(int \<times> chunk + int) list \<Rightarrow> 'cb money_stream \<Rightarrow> buffer list \<times> 'cb money_stream" where
  "incoming_run [] s = ([], s)"
| "incoming_run (Inl (room, d, off) # ops) s =
     (case pushIncomingData room d off s of (out, s1) \<Rightarrow> case incoming_run ops s1 of (outs, s2) \<Rightarrow> (out @ outs, s2))"
| "incoming_run (Inr n # ops) s =
     (case stream_read n (incomingData s) of (out, inc) \<Rightarrow>
        case incoming_run ops (s\<lparr>incomingData := inc\<rparr>) of (outs, s2) \<Rightarrow> (out @ outs, s2))"

fun arrivals :: "(int \<times> chunk + int) list \<Rightarrow> chunk list" where
  "arrivals [] = []"
| "arrivals (Inl (room, c) # ops) = c # arrivals ops"
| "arrivals (Inr n # ops) = arrivals ops"

lemma stream_read_ok:
  "sorter_ok bs X es s \<Longrightarrow> stream_read n s = (out, s') \<Longrightarrow>
     (\<exists>es'. sorter_ok bs X es' s') \<and> drop (readOffset s) bs = concat out @ drop (readOffset s') bs
     \<and> (X = {#} \<and> int (length bs - readOffset s) \<le> n \<longrightarrow> readOffset s' = length bs)"
proof (induction n s arbitrary: es out s' rule: stream_read.induct)
  case (1 n s)
  show ?case
  proof (cases "sorter_read s")
    case (Pair o1 s1)
    show ?thesis
    proof (cases o1)
      case None
      then have "out = []" "s' = s" using 1(3) Pair by (simp_all add: stream_read.simps [of n s])
      then show ?thesis using 1(2) complete_read [of bs es s s1] Pair None by auto
    next
      case (Some d)
      note rd = read_ok [OF 1(2) Pair [unfolded Some]]
      have le: "readOffset s1 \<le> length bs" using rd(1) by (auto simp: sorter_ok_def)
      show ?thesis
      proof (cases "int (length d) < n")
        case True
        obtain out1 where r: "stream_read (n - int (length d)) s1 = (out1, s')" "out = d # out1"
          using 1(3) Pair Some True by (auto simp: stream_read.simps [of n s] split: prod.splits)
        obtain es1 where "sorter_ok bs X es1 s1" using rd(1) by blast
        from 1(1) [OF Pair [symmetric] Some True this r(1)] show ?thesis
          using rd(2,3) r(2) le by auto
      next
        case False
        then have "out = [d]" "s' = s1" using 1(3) Pair Some by (simp_all add: stream_read.simps [of n s])
        then show ?thesis using rd False le by auto
      qed
    qed
  qed
qed

lemma incoming_run_ok:
  "sorter_ok bs (mset (arrivals ops) + X) es (incomingData s) \<Longrightarrow> incoming_run ops s = (outs, s') \<Longrightarrow>
     (\<exists>es'. sorter_ok bs X es' (incomingData s'))
     \<and> drop (readOffset (incomingData s)) bs = concat outs @ drop (readOffset (incomingData s')) bs"
proof (induction ops s arbitrary: es outs s' rule: incoming_run.induct)
  case (2 room d off ops s)
  obtain out inc where rd: "stream_read room (sorter_push d off (incomingData s)) = (out, inc)" by fastforce
  obtain outs1 where r: "incoming_run ops (s\<lparr>incomingData := inc\<rparr>) = (outs1, s')" "outs = out @ outs1"
    using 2(3) rd by (auto simp: pushIncomingData_def split: prod.splits)
  have "sorter_ok bs (mset (arrivals ops) + X) es (sorter_push d off (incomingData s))" using 2(2) by (intro push_ok) simp
  from stream_read_ok [OF this rd] obtain es1 where
    "sorter_ok bs (mset (arrivals ops) + X) es1 inc" "drop (readOffset (incomingData s)) bs = concat out @ drop (readOffset inc) bs"
    by (auto simp: sorter_push_def)
  then show ?case using 2(1) [OF _ _ r(1), of out es1] r(2) rd
    by (simp add: pushIncomingData_def)
next
  case (3 n ops s)
  obtain out inc where rd: "stream_read n (incomingData s) = (out, inc)" by fastforce
  obtain outs1 where r: "incoming_run ops (s\<lparr>incomingData := inc\<rparr>) = (outs1, s')" "outs = out @ outs1"
    using 3(3) rd by (auto split: prod.splits)
  from stream_read_ok [OF 3(2) [unfolded arrivals.simps] rd] obtain es1 where
    "sorter_ok bs (mset (arrivals ops) + X) es1 inc" "drop (readOffset (incomingData s)) bs = concat out @ drop (readOffset inc) bs"
    by auto
  then show ?case using 3(1) [OF rd [symmetric] _ r(1), of es1] r(2) by simp
qed auto

text \<open>
  C33. Incoming data is put together again: when the chunks of a byte string, consecutive and not empty, arrive in any order, each once, mixed with
  reads of any size, the consumer has always got the bytes in front of the read offset, in order; and when all chunks have arrived, a
  read with room for the string delivers the rest, ends at its length and leaves nothing behind.
\<close>

theorem stream_reassembles:
  assumes "tiles 0 bs cs" and "mset (arrivals ops) \<subseteq># mset cs" and "incoming_run ops new_stream = (outs, s)"
  shows "concat outs = take (readOffset (incomingData s)) bs
    \<and> (mset (arrivals ops) = mset cs \<and> int (length bs) \<le> n \<longrightarrow>
        concat outs @ concat (fst (stream_read n (incomingData s))) = bs
        \<and> sorted_entries (snd (stream_read n (incomingData s))) = []
        \<and> readOffset (snd (stream_read n (incomingData s))) = length bs)"
proof -
  define X where "X = mset cs - mset (arrivals ops)"
  have X: "mset (arrivals ops) + X = mset cs" using assms(2) by (simp add: X_def)
  then have "sorter_ok bs (mset (arrivals ops) + X) cs (incomingData new_stream)"
    using assms(1) by (simp add: sorter_ok_def new_stream_def new_sorter_def)
  from incoming_run_ok [OF this assms(3)] obtain es where
    es: "sorter_ok bs X es (incomingData s)" and bs: "bs = concat outs @ drop (readOffset (incomingData s)) bs"
    by (auto simp: new_stream_def new_sorter_def)
  have "length bs = length (concat outs) + (length bs - readOffset (incomingData s))"
    using arg_cong [OF bs, of length] by (simp only: length_append length_drop)
  moreover have "readOffset (incomingData s) \<le> length bs" using es by (simp add: sorter_ok_def)
  ultimately have "length (concat outs) = readOffset (incomingData s)" by linarith
  then have pre: "concat outs = take (readOffset (incomingData s)) bs" by (metis append_eq_conv_conj bs)
  obtain out inc where rd: "stream_read n (incomingData s) = (out, inc)" by fastforce
  note r = stream_read_ok [OF es rd]
  have "concat outs @ concat out = bs \<and> sorted_entries inc = [] \<and> readOffset inc = length bs"
    if "mset (arrivals ops) = mset cs" "int (length bs) \<le> n"
  proof -
    have "X = {#}" using X that(1) by simp
    then have "readOffset inc = length bs" using r that(2) by auto
    then show ?thesis using r read_to_end bs by auto
  qed
  then show ?thesis using pre rd by auto
qed

theorem stream_reassembles_witness:
  "concat (fst (incoming_run [Inl (10, [3, 4], 2), Inl (1, [1, 2], 0), Inr 5, Inl (10, [5], 4)] (new_stream :: unit money_stream)))
      = [1, 2, 3, 4, 5]"
proof -
  let ?ops = "[Inl (10, [3, 4], 2), Inl (1, [1, 2], 0), Inr 5, Inl (10, [5], 4)] :: (int \<times> chunk + int) list"
  obtain outs s where r: "incoming_run ?ops (new_stream :: unit money_stream) = (outs, s)" by fastforce
  have "readOffset (incomingData (snd (incoming_run ?ops (new_stream :: unit money_stream)))) = 5"
    by (simp add: pushIncomingData_def new_stream_def new_sorter_def sorter_push_def sorter_read_def stream_read.simps)
  moreover have "concat outs = take (readOffset (incomingData s)) [1, 2, 3, 4, 5]"
    by (rule stream_reassembles [where cs = "[([1, 2], 0), ([3, 4], 2), ([5], 4)]", THEN conjunct1, OF _ _ r]) simp_all
  ultimately show ?thesis using r by simp
qed

end
