(* ===== verification/Pay_Int.thy ===== *)
theory Pay_Int
  imports Ilp_Date
begin

text \<open>
  \<^verbatim>\<open>pay/src/utils.ts\<close>: the non-negative big integers \<open>Int\<close> and the fractions \<open>Ratio\<close> of the
  payment library. An \<open>Int\<close> is a natural number. The lemmas and the property relate the integer
  operations to exact rational arithmetic through \<open>rat_of\<close>; the conversion of a number to a
  \<open>Ratio\<close> is in \<open>Pay_Rate\<close>.
\<close>

type_synonym pint = nat

abbreviation MAX_U64 :: pint where
  "MAX_U64 \<equiv> 18446744073709551615"

section \<open>Integers\<close>

definition Int_fromBigint :: "int \<Rightarrow> pint option" where
  "Int_fromBigint n = (if n \<ge> 0 then Some (nat n) else None)"

text \<open>\<open>BigInt(s)\<close> of a string; \<open>None\<close> is a \<open>SyntaxError\<close>. The empty string is zero.\<close>

definition BigInt_parse :: "jsstring \<Rightarrow> int option" where
  "BigInt_parse str =
     (let s = trim str
      in if s = [] then Some 0
         else if 2 \<le> length s \<and> hd s = 48 \<and> s ! 1 \<in> {120, 88, 111, 79, 98, 66} then
           let base = (if s ! 1 \<in> {120, 88} then 16 else if s ! 1 \<in> {111, 79} then 8 else 2);
               ds = drop 2 s
           in if ds \<noteq> [] \<and> list_all (\<lambda>u. case radix_digit u of None \<Rightarrow> False | Some d \<Rightarrow> d < base) ds
              then Some (int (foldl (\<lambda>a u. a * base + the (radix_digit u)) 0 ds)) else None
         else
           let (neg, ds) = take_sign s
           in if ds \<noteq> [] \<and> list_all is_digit ds
              then Some (if neg then - int (dec_value ds) else int (dec_value ds)) else None)"

definition Int_fromString :: "jsstring \<Rightarrow> pint option" where
  "Int_fromString s = (case BigInt_parse s of None \<Rightarrow> None | Some n \<Rightarrow> Int_fromBigint n)"

fun isNonNegativeInteger :: "jsnum \<Rightarrow> bool" where
  "isNonNegativeInteger (Num r) = (of_int \<lfloor>r\<rfloor> = r \<and> 0 \<le> r)"
| "isNonNegativeInteger _ = False"

fun isNonNegativeRational :: "jsnum \<Rightarrow> bool" where
  "isNonNegativeRational (Num r) = (0 \<le> r)"
| "isNonNegativeRational _ = False"

fun Int_fromNumber :: "jsnum \<Rightarrow> pint option" where
  "Int_fromNumber (Num r) = (if isNonNegativeInteger (Num r) then Some (nat \<lfloor>r\<rfloor>) else None)"
| "Int_fromNumber _ = None"

definition SHIFT_32 :: nat where
  "SHIFT_32 = 4294967296"

definition Int_fromLong :: "u64 \<Rightarrow> pint" where
  "Int_fromLong n =
     (let lsb = unat n mod SHIFT_32; gsb = unat n div SHIFT_32 in lsb + SHIFT_32 * gsb)"

definition saturatingSubtract :: "pint \<Rightarrow> pint \<Rightarrow> pint" where
  "saturatingSubtract a b = (if a \<ge> b then a - b else 0)"

definition divideCeil :: "pint \<Rightarrow> pint \<Rightarrow> pint" where
  "divideCeil n d = (n + d - 1) div d"

fun orLesser :: "pint \<Rightarrow> pint option \<Rightarrow> pint" where
  "orLesser n None = n"
| "orLesser n (Some m) = (if n \<le> m then n else m)"

fun orGreater :: "pint \<Rightarrow> pint option \<Rightarrow> pint" where
  "orGreater n None = n"
| "orGreater n (Some m) = (if n \<ge> m then n else m)"

definition toLong :: "pint \<Rightarrow> u64 option" where
  "toLong n =
     (if n > MAX_U64 then None
      else let lsb = n mod SHIFT_32; gsb = (n - lsb) div SHIFT_32
           in Some (of_nat lsb + of_nat SHIFT_32 * of_nat gsb))"

section \<open>Ratios\<close>

record ratio =
  ratio_a :: pint
  ratio_b :: pint

definition ratio_of :: "pint \<Rightarrow> pint \<Rightarrow> ratio" where
  "ratio_of a b = \<lparr>ratio_a = a, ratio_b = b\<rparr>"

definition multiplyFloor :: "pint \<Rightarrow> ratio \<Rightarrow> pint" where
  "multiplyFloor n r = n * ratio_a r div ratio_b r"

definition multiplyCeil :: "pint \<Rightarrow> ratio \<Rightarrow> pint" where
  "multiplyCeil n r = divideCeil (n * ratio_a r) (ratio_b r)"

definition ratio_reciprocal :: "ratio \<Rightarrow> ratio option" where
  "ratio_reciprocal r = (if ratio_a r > 0 then Some (ratio_of (ratio_b r) (ratio_a r)) else None)"

definition ratio_floor :: "ratio \<Rightarrow> pint" where
  "ratio_floor r = ratio_a r div ratio_b r"

definition ratio_ceil :: "ratio \<Rightarrow> pint" where
  "ratio_ceil r = divideCeil (ratio_a r) (ratio_b r)"

definition ratio_isEqualTo :: "ratio \<Rightarrow> ratio \<Rightarrow> bool" where
  "ratio_isEqualTo r s \<longleftrightarrow> ratio_a r * ratio_b s = ratio_b r * ratio_a s"

definition ratio_isGreaterThan :: "ratio \<Rightarrow> ratio \<Rightarrow> bool" where
  "ratio_isGreaterThan r s \<longleftrightarrow> ratio_a r * ratio_b s > ratio_b r * ratio_a s"

definition ratio_isGreaterThanOrEqualTo :: "ratio \<Rightarrow> ratio \<Rightarrow> bool" where
  "ratio_isGreaterThanOrEqualTo r s \<longleftrightarrow> ratio_a r * ratio_b s \<ge> ratio_b r * ratio_a s"

definition ratio_isLessThan :: "ratio \<Rightarrow> ratio \<Rightarrow> bool" where
  "ratio_isLessThan r s \<longleftrightarrow> ratio_a r * ratio_b s < ratio_b r * ratio_a s"

definition ratio_isLessThanOrEqualTo :: "ratio \<Rightarrow> ratio \<Rightarrow> bool" where
  "ratio_isLessThanOrEqualTo r s \<longleftrightarrow> ratio_a r * ratio_b s \<le> ratio_b r * ratio_a s"

section \<open>Exact arithmetic\<close>

definition ratio_ok :: "ratio \<Rightarrow> bool" where
  "ratio_ok r \<longleftrightarrow> 0 < ratio_b r"

definition rat_of :: "ratio \<Rightarrow> rat" where
  "rat_of r = of_nat (ratio_a r) / of_nat (ratio_b r)"

named_theorems ratio_simps \<open>ratio operations as rational arithmetic\<close>

lemma rat_of_ratio_of [simp]: "rat_of (ratio_of a b) = of_nat a / of_nat b"
  by (simp add: rat_of_def ratio_of_def)

lemma ratio_ok_ratio_of [simp]: "ratio_ok (ratio_of a b) \<longleftrightarrow> 0 < b"
  by (simp add: ratio_ok_def ratio_of_def)

lemma cross_le:
  "0 < b \<Longrightarrow> 0 < d \<Longrightarrow> a * d \<le> b * c \<longleftrightarrow> (of_nat a / of_nat b :: rat) \<le> of_nat c / of_nat d" for a b c d :: nat
proof -
  assume "0 < b" "0 < d"
  then have "(of_nat a / of_nat b :: rat) \<le> of_nat c / of_nat d \<longleftrightarrow> (of_nat (a * d) :: rat) \<le> of_nat (b * c)"
    by (simp add: field_simps)
  then show ?thesis unfolding of_nat_le_iff by blast
qed

lemma ratio_order [ratio_simps]:
  assumes "ratio_ok r" "ratio_ok s"
  shows "ratio_isLessThanOrEqualTo r s \<longleftrightarrow> rat_of r \<le> rat_of s"
    "ratio_isGreaterThanOrEqualTo r s \<longleftrightarrow> rat_of s \<le> rat_of r"
    "ratio_isLessThan r s \<longleftrightarrow> rat_of r < rat_of s"
    "ratio_isGreaterThan r s \<longleftrightarrow> rat_of s < rat_of r"
    "ratio_isEqualTo r s \<longleftrightarrow> rat_of r = rat_of s"
proof -
  have le: "ratio_a r * ratio_b s \<le> ratio_b r * ratio_a s \<longleftrightarrow> rat_of r \<le> rat_of s"
    using assms cross_le [of "ratio_b r" "ratio_b s"] by (simp add: ratio_ok_def rat_of_def)
  have ge: "ratio_b r * ratio_a s \<le> ratio_a r * ratio_b s \<longleftrightarrow> rat_of s \<le> rat_of r"
    using assms cross_le [of "ratio_b s" "ratio_b r" "ratio_a s" "ratio_a r"]
    by (simp add: ratio_ok_def rat_of_def mult.commute)
  show "ratio_isLessThanOrEqualTo r s \<longleftrightarrow> rat_of r \<le> rat_of s"
    "ratio_isGreaterThanOrEqualTo r s \<longleftrightarrow> rat_of s \<le> rat_of r"
    using le ge by (simp_all add: ratio_isLessThanOrEqualTo_def ratio_isGreaterThanOrEqualTo_def)
  show "ratio_isLessThan r s \<longleftrightarrow> rat_of r < rat_of s" "ratio_isGreaterThan r s \<longleftrightarrow> rat_of s < rat_of r"
    using le ge by (simp_all add: ratio_isLessThan_def ratio_isGreaterThan_def flip: not_le)
  show "ratio_isEqualTo r s \<longleftrightarrow> rat_of r = rat_of s"
    using le ge by (auto simp: ratio_isEqualTo_def)
qed

lemma floor_div_rat: "\<lfloor>(of_nat m / of_nat n :: rat)\<rfloor> = int (m div n)"
  using floor_divide_of_int_eq [of "int m" "int n", where 'a = rat] by (simp add: zdiv_int)

lemma multiplyFloor_floor: "int (multiplyFloor n r) = \<lfloor>of_nat n * rat_of r\<rfloor>"
  using floor_div_rat [of "n * ratio_a r" "ratio_b r"] by (simp add: multiplyFloor_def rat_of_def)

lemma divideCeil_ceil:
  assumes "0 < d"
  shows "int (divideCeil n d) = \<lceil>(of_nat n / of_nat d :: rat)\<rceil>"
proof -
  have split: "n = n div d * d + n mod d" by simp
  have q: "(of_nat n / of_nat d :: rat) = of_nat (n div d) + of_nat (n mod d) / of_nat d"
    using assms by (subst split, subst of_nat_add) (simp add: add_divide_distrib)
  have c: "divideCeil n d = n div d + (if n mod d = 0 then 0 else 1)"
    unfolding divideCeil_def by (rule ceil_div_split [OF assms])
  have m: "n mod d < d" using assms by simp
  show ?thesis
  proof (cases "n mod d = 0")
    case False
    then have "\<lceil>(of_nat n / of_nat d :: rat)\<rceil> = int (n div d) + 1"
      unfolding q using m assms by (intro ceiling_unique) (simp_all add: divide_le_eq_1)
    with False c show ?thesis by simp
  qed (use c q in simp)
qed

lemma multiplyCeil_ceil: "ratio_ok r \<Longrightarrow> int (multiplyCeil n r) = \<lceil>of_nat n * rat_of r\<rceil>"
  using divideCeil_ceil [of "ratio_b r" "n * ratio_a r"]
  by (simp add: multiplyCeil_def rat_of_def ratio_ok_def)

lemma multiplyFloor_le: "of_nat (multiplyFloor n r) \<le> of_nat n * rat_of r"
  using of_int_floor_le [of "of_nat n * rat_of r"] unfolding multiplyFloor_floor [symmetric] by simp

lemma multiplyCeil_ge: "ratio_ok r \<Longrightarrow> of_nat n * rat_of r \<le> of_nat (multiplyCeil n r)"
  using le_of_int_ceiling [of "of_nat n * rat_of r"] by (simp add: multiplyCeil_ceil [symmetric])

lemma saturatingSubtract_minus [simp]: "saturatingSubtract a b = a - b"
  by (simp add: saturatingSubtract_def)

lemma orLesser_min [simp]: "orLesser n (Some m) = min n m"
  by simp

lemma orGreater_max [simp]: "orGreater n (Some m) = max n m"
  by simp

lemma Int_fromLong_unat [simp]: "Int_fromLong n = unat n"
  by (simp add: Int_fromLong_def)

text \<open>
  The arithmetic of the payment library is exact: with positive denominators, comparing
  two ratios by cross multiplication is comparing the rationals, and scaling by a ratio is the
  rational product rounded down or up.
\<close>

theorem ratio_arithmetic_exact:
  assumes "0 < ratio_b r" and "0 < ratio_b s"
  shows "ratio_isLessThan r s = (rat_of r < rat_of s) \<and> ratio_isLessThanOrEqualTo r s = (rat_of r \<le> rat_of s)
    \<and> ratio_isEqualTo r s = (rat_of r = rat_of s)
    \<and> int (multiplyFloor n r) = \<lfloor>of_nat n * rat_of r\<rfloor> \<and> int (multiplyCeil n r) = \<lceil>of_nat n * rat_of r\<rceil>"
  using assms by (simp add: ratio_order ratio_ok_def multiplyFloor_floor multiplyCeil_ceil)

theorem ratio_arithmetic_exact_witness:
  "ratio_isLessThan (ratio_of 1 3) (ratio_of 2 5) = (rat_of (ratio_of 1 3) < rat_of (ratio_of 2 5))
    \<and> ratio_isLessThanOrEqualTo (ratio_of 1 3) (ratio_of 2 5) = (rat_of (ratio_of 1 3) \<le> rat_of (ratio_of 2 5))
    \<and> ratio_isEqualTo (ratio_of 1 3) (ratio_of 2 5) = (rat_of (ratio_of 1 3) = rat_of (ratio_of 2 5))
    \<and> int (multiplyFloor 10 (ratio_of 1 3)) = \<lfloor>of_nat 10 * rat_of (ratio_of 1 3)\<rfloor>
    \<and> int (multiplyCeil 10 (ratio_of 1 3)) = \<lceil>of_nat 10 * rat_of (ratio_of 1 3)\<rceil>"
  by (rule ratio_arithmetic_exact) (simp_all add: ratio_of_def)

text \<open>Amounts that fit 64 bits convert to a \<open>Long\<close> and back; larger ones do not convert.\<close>

theorem toLong_roundtrip:
  "toLong n = (if n < 2 ^ 64 then Some (of_nat n) else None) \<and> toLong (Int_fromLong b) = Some b"
proof -
  have "of_nat (n mod SHIFT_32) + of_nat SHIFT_32 * of_nat ((n - n mod SHIFT_32) div SHIFT_32) = (of_nat n :: u64)" for n
  proof -
    have "n mod SHIFT_32 + SHIFT_32 * ((n - n mod SHIFT_32) div SHIFT_32) = n"
      by (simp add: minus_mod_eq_mult_div SHIFT_32_def)
    then show ?thesis by (metis of_nat_add of_nat_mult)
  qed
  then have *: "toLong n = (if n < 2 ^ 64 then Some (of_nat n) else None)" for n
    by (simp add: toLong_def Let_def)
  show ?thesis using * [of n] * [of "unat b"] unat_u64_bound [of b] by simp
qed

end
