(* ===== verification/Pay_Request.thy ===== *)
theory Pay_Request
  imports Ilp_Packet Stream_Packet Long_Util Pay_Int
begin

text \<open>
  \<^verbatim>\<open>pay/src/request.ts\<close> and the errors of \<^verbatim>\<open>pay/src/index.ts\<close>: building a request, sending it as an
  ILP prepare, and classifying what comes back.

  The asynchronous \<open>sendRequest\<close> is cut at its await: \<open>prepare_request\<close> gives the bytes handed to
  the plugin and the fulfillment expected for them, \<open>receive_reply\<close> turns what the plugin did
  (\<open>plugin_outcome\<close>) into the reply the controllers see. The crypto library, the random nonce and
  the random condition are arguments. Logging is left out.
\<close>

section \<open>Payment errors\<close>

datatype PaymentError =
    InvalidPaymentPointer | InvalidCredentials | InvalidSlippage | UnknownSourceAsset
  | UnknownPaymentTarget | InvalidSourceAmount | InvalidDestinationAmount | UnenforceableDelivery
  | InvalidQuote | InvalidDestination | QueryFailed | IncomingPaymentCompleted
  | IncomingPaymentExpired | ConnectorError | EstablishmentFailed | UnknownDestinationAsset
  | DestinationAssetConflict | ExternalRateUnavailable | RateProbeFailed
  | InsufficientExchangeRate | IdleTimeout | ClosedByReceiver | IncompatibleReceiveMax
  | ReceiverProtocolViolation | MaxSafeEncryptionLimit

section \<open>Requests\<close>

record stream_request =
  req_destinationAddress :: jsstring
  req_expiresAt :: date
  req_sequence :: nat
  req_sourceAmount :: pint
  req_minDestinationAmount :: pint
  req_frames :: "frame list"
  isFulfillable :: bool

definition new_request :: "date \<Rightarrow> stream_request" where
  "new_request now =
     \<lparr>req_destinationAddress = js ''private.example'', req_expiresAt = now, req_sequence = 0,
      req_sourceAmount = 0, req_minDestinationAmount = 0, req_frames = [], isFulfillable = False\<rparr>"

definition setDestinationAddress :: "jsstring \<Rightarrow> stream_request \<Rightarrow> stream_request" where
  "setDestinationAddress address r = r\<lparr>req_destinationAddress := address\<rparr>"

definition setExpiry :: "date \<Rightarrow> stream_request \<Rightarrow> stream_request" where
  "setExpiry expiry r = r\<lparr>req_expiresAt := expiry\<rparr>"

definition setSequence :: "nat \<Rightarrow> stream_request \<Rightarrow> stream_request" where
  "setSequence n r = r\<lparr>req_sequence := n\<rparr>"

definition setSourceAmount :: "pint \<Rightarrow> stream_request \<Rightarrow> stream_request" where
  "setSourceAmount n r = r\<lparr>req_sourceAmount := n\<rparr>"

definition setMinDestinationAmount :: "pint \<Rightarrow> stream_request \<Rightarrow> stream_request" where
  "setMinDestinationAmount n r = r\<lparr>req_minDestinationAmount := n\<rparr>"

definition addFrames :: "frame list \<Rightarrow> stream_request \<Rightarrow> stream_request" where
  "addFrames fs r = r\<lparr>req_frames := req_frames r @ fs\<rparr>"

definition enableFulfillment :: "stream_request \<Rightarrow> stream_request" where
  "enableFulfillment r = r\<lparr>isFulfillable := True\<rparr>"

definition generateEncryptionKey :: "crypto_lib \<Rightarrow> buffer \<Rightarrow> buffer" where
  "generateEncryptionKey lib sharedSecret = lib_hmac lib sharedSecret (utf8 ''ilp_stream_encryption'')"

definition pay_generateFulfillmentKey :: "crypto_lib \<Rightarrow> buffer \<Rightarrow> buffer" where
  "pay_generateFulfillmentKey lib sharedSecret = lib_hmac lib sharedSecret (utf8 ''ilp_stream_fulfillment'')"

text \<open>The STREAM packet of a request. A minimum over 64 bits has no \<open>Long\<close>: the amount is then the default 0.\<close>

definition request_packet :: "stream_request \<Rightarrow> stream_packet result" where
  "request_packet r =
     ebind (stream_longFromValue (num (int (req_sequence r))) True) (\<lambda>seq.
       Inr \<lparr>sequence = long_bits seq, ilpPacketType = type_byte Prepare,
            prepareAmount = (case toLong (req_minDestinationAmount r) of None \<Rightarrow> 0 | Some n \<Rightarrow> n),
            frames = req_frames r\<rparr>)"

definition prepare_request ::
  "crypto_lib \<Rightarrow> buffer \<Rightarrow> buffer \<Rightarrow> buffer \<Rightarrow> stream_request \<Rightarrow> (buffer option \<times> buffer) result" where
  "prepare_request lib iv randomCondition sharedSecret r =
     ebind (request_packet r) (\<lambda>p.
     ebind (serializeAndEncrypt lib iv (generateEncryptionKey lib sharedSecret) None p) (\<lambda>data.
     let expected = (if isFulfillable r
                     then Some (lib_hmac lib (pay_generateFulfillmentKey lib sharedSecret) data) else None);
         condition = (case expected of Some f \<Rightarrow> lib_sha256 lib f | None \<Rightarrow> randomCondition)
     in ebind (serializeIlpPrepare
          \<lparr>prep_amount = dec_of_nat (req_sourceAmount r), executionCondition = condition,
           expiresAt = req_expiresAt r, destination = req_destinationAddress r, prep_data = data\<rparr>)
        (\<lambda>bs. Inr (expected, bs))))"

section \<open>Replies\<close>

datatype stream_reply =
    StreamFulfill (reply_frames: "frame list option") (reply_destinationAmount: "pint option")
  | StreamReject (ilpReject: IlpReject) (reply_frames: "frame list option") (reply_destinationAmount: "pint option")

fun isAuthentic :: "stream_reply \<Rightarrow> bool" where
  "isAuthentic (StreamFulfill fs am) = True"
| "isAuthentic (StreamReject r fs am) = (fs \<noteq> None \<and> am \<noteq> None)"

fun reply_rejected :: "stream_reply \<Rightarrow> bool" where
  "reply_rejected (StreamFulfill fs am) = False"
| "reply_rejected (StreamReject r fs am) = True"

fun reply_fulfilled :: "stream_reply \<Rightarrow> bool" where
  "reply_fulfilled (StreamFulfill fs am) = True"
| "reply_fulfilled (StreamReject r fs am) = False"

definition createReject :: "jsstring \<Rightarrow> IlpReject" where
  "createReject code = \<lparr>rej_code = code, triggeredBy = [], rej_message = [], rej_data = []\<rparr>"

datatype plugin_outcome = Replied buffer | SendFailed | TimedOut

text \<open>The type guard \<open>isFulfill\<close> of \<^verbatim>\<open>ilp-packet\<close> on a parsed reply.\<close>

fun ilp_isFulfill :: "IlpReply \<Rightarrow> bool" where
  "ilp_isFulfill (FulfillReply f) = isFulfill f"
| "ilp_isFulfill (RejectReply r) = False"

fun ilp_data :: "IlpReply \<Rightarrow> buffer" where
  "ilp_data (FulfillReply f) = fulfill_data f"
| "ilp_data (RejectReply r) = rej_data r"

fun check_fulfillment :: "buffer option \<Rightarrow> IlpReply \<Rightarrow> IlpReply" where
  "check_fulfillment (Some expected) (FulfillReply f) =
     (if \<not> isFulfill f \<or> fulfillment f = expected then FulfillReply f
      else RejectReply (createReject (js ''F05'')))"
| "check_fulfillment expected reply = reply"

fun ilp_reply :: "buffer option \<Rightarrow> plugin_outcome \<Rightarrow> IlpReply" where
  "ilp_reply expected (Replied data) =
     check_fulfillment expected
       (case deserializeIlpReply data of Inl e \<Rightarrow> RejectReply (createReject (js ''F01'')) | Inr r \<Rightarrow> r)"
| "ilp_reply expected SendFailed = check_fulfillment expected (RejectReply (createReject (js ''T00'')))"
| "ilp_reply expected TimedOut = RejectReply (createReject (js ''R00''))"

definition receive_reply ::
  "crypto_lib \<Rightarrow> buffer \<Rightarrow> stream_request \<Rightarrow> buffer option \<Rightarrow> plugin_outcome \<Rightarrow> stream_reply" where
  "receive_reply lib sharedSecret r expected outcome =
     (let reply = ilp_reply expected outcome;
          (fs, am) =
            (case decryptAndDeserialize lib (generateEncryptionKey lib sharedSecret) (ilp_data reply) of
               Inl e \<Rightarrow> (None, None)
             | Inr p \<Rightarrow>
                 if sequence p \<noteq> of_nat (req_sequence r) then (None, None)
                 else if ilpPacketType p = type_byte Reject \<and> ilp_isFulfill reply then (None, None)
                 else (Some (frames p), Some (Int_fromLong (prepareAmount p))))
      in case reply of
           RejectReply j \<Rightarrow> if isReject j then StreamReject j fs am else StreamFulfill fs am
         | FulfillReply f \<Rightarrow> StreamFulfill fs am)"

section \<open>Authentic replies\<close>

lemma deserializeIlpReply_guard:
  "deserializeIlpReply bs = Inr (FulfillReply f) \<Longrightarrow> isFulfill f"
  "deserializeIlpReply bs = Inr (RejectReply r) \<Longrightarrow> isReject r"
  by (auto simp: deserializeIlpReply_def deserializeIlpFulfill_def deserializeIlpReject_def
      dest!: read_envelope_inner read_fulfill_guard read_reject_guard split: if_splits)

lemma isReject_createReject [simp]: "isReject (createReject c)"
  by (simp add: isReject_def createReject_def)

lemma ilp_reply_guard: "ilp_reply expected outcome = RejectReply j \<Longrightarrow> isReject j"
proof (cases outcome)
  case (Replied data)
  assume "ilp_reply expected outcome = RejectReply j"
  then show ?thesis using Replied
    by (cases "deserializeIlpReply data"; cases expected)
      (auto dest: deserializeIlpReply_guard(2) elim!: check_fulfillment.elims split: if_splits)
qed (auto elim!: check_fulfillment.elims)

lemma ilp_reply_fulfill:
  assumes "ilp_reply (Some expected) outcome = FulfillReply f"
  shows "\<exists>data. outcome = Replied data \<and> deserializeIlpReply data = Inr (FulfillReply f) \<and> fulfillment f = expected"
proof (cases outcome)
  case (Replied data)
  then show ?thesis using assms
    by (cases "deserializeIlpReply data")
      (auto dest: deserializeIlpReply_guard(1) elim!: check_fulfillment.elims split: if_splits)
qed (use assms in auto)

text \<open>
  C30. A payment is only counted as fulfilled, and a delivered amount only believed, on proof: a
  reply to a fulfillable request is a fulfill only if the packet that came back carried the
  expected fulfillment, and a reply has a delivered amount only if its data decrypts under the
  shared key to a packet with the sequence number of the request that does not claim a reject
  for a fulfilled packet.
\<close>

theorem reply_authentic:
  assumes "receive_reply lib secret r (Some expected) outcome = reply"
  shows "(reply_fulfilled reply \<longrightarrow> (\<exists>data f. outcome = Replied data
        \<and> deserializeIlpReply data = Inr (FulfillReply f) \<and> fulfillment f = expected))
    \<and> (\<forall>n. reply_destinationAmount reply = Some n \<longrightarrow> (\<exists>p. decryptAndDeserialize lib (generateEncryptionKey lib secret)
          (ilp_data (ilp_reply (Some expected) outcome)) = Inr p
        \<and> sequence p = of_nat (req_sequence r) \<and> n = unat (prepareAmount p)
        \<and> (reply_fulfilled reply \<longrightarrow> ilpPacketType p \<noteq> type_byte Reject)))"
proof (cases "ilp_reply (Some expected) outcome")
  case (FulfillReply f)
  have g: "isFulfill f" using ilp_reply_fulfill [OF FulfillReply] deserializeIlpReply_guard(1) by blast
  show ?thesis using assms FulfillReply ilp_reply_fulfill [OF FulfillReply] g
    by (auto simp: receive_reply_def split: sum.splits if_splits)
next
  case (RejectReply j)
  have g: "isReject j" using ilp_reply_guard [OF RejectReply] .
  show ?thesis using assms RejectReply g
    by (auto simp: receive_reply_def split: sum.splits if_splits)
qed

lemma receive_reply_fulfilled:
  "ilp_reply expected outcome = FulfillReply f \<Longrightarrow> reply_fulfilled (receive_reply lib secret r expected outcome)"
  by (simp add: receive_reply_def split: prod.splits)

lemma sample_reply:
  "deserializeIlpReply ([13, 33] @ replicate 32 7 @ [0]) = Inr (FulfillReply \<lparr>fulfillment = replicate 32 7, fulfill_data = []\<rparr>)"
  by code_simp

lemma sample_fulfilled:
  "reply_fulfilled (receive_reply null_lib [] (new_request 1) (Some (replicate 32 7))
     (Replied ([13, 33] @ replicate 32 7 @ [0])))"
  by (rule receive_reply_fulfilled [where f = "\<lparr>fulfillment = replicate 32 7, fulfill_data = []\<rparr>"])
    (simp only: ilp_reply.simps sample_reply sum.case check_fulfillment.simps IlpFulfill.simps if_True simp_thms)

theorem reply_authentic_witness:
  "\<exists>data f. Replied ([13, 33] @ replicate 32 7 @ [0]) = Replied data
     \<and> deserializeIlpReply data = Inr (FulfillReply f) \<and> fulfillment f = replicate 32 7"
  by (rule reply_authentic [OF refl, THEN conjunct1, THEN mp, OF sample_fulfilled])

section \<open>An exchange with an honest receiver\<close>

text \<open>The requests that have a faithful encoding.\<close>

definition request_ok :: "stream_request \<Rightarrow> bool" where
  "request_ok r \<longleftrightarrow> isValidIlpAddress (req_destinationAddress r) \<and> four_digit_date (req_expiresAt r)
     \<and> req_expiresAt r \<noteq> 0 \<and> req_sequence r < 2 ^ 53 \<and> req_sourceAmount r \<le> MAX_U64
     \<and> req_minDestinationAmount r \<le> MAX_U64 \<and> length (req_frames r) < 2 ^ 48 \<and> list_all frame_ok (req_frames r)"

definition request_contents :: "stream_request \<Rightarrow> stream_packet" where
  "request_contents r = \<lparr>sequence = of_nat (req_sequence r), ilpPacketType = 12,
     prepareAmount = of_nat (req_minDestinationAmount r), frames = req_frames r\<rparr>"

lemma toLong_of_nat: "n \<le> MAX_U64 \<Longrightarrow> toLong n = Some (of_nat n)"
proof -
  assume n: "n \<le> MAX_U64"
  have "n mod SHIFT_32 + SHIFT_32 * ((n - n mod SHIFT_32) div SHIFT_32) = n"
    by (simp add: minus_mod_eq_mult_div SHIFT_32_def)
  then have "of_nat (n mod SHIFT_32) + of_nat SHIFT_32 * of_nat ((n - n mod SHIFT_32) div SHIFT_32) = (of_nat n :: u64)"
    by (metis of_nat_add of_nat_mult)
  with n show ?thesis by (simp add: toLong_def Let_def)
qed

lemma request_packet_contents: "request_ok r \<Longrightarrow> request_packet r = Inr (request_contents r)"
  by (simp add: request_packet_def request_contents_def request_ok_def num_def toLong_of_nat long_fromInt_def)

lemma dec_of_nat_isUInt64: "n \<le> MAX_U64 \<Longrightarrow> isUInt64 (dec_of_nat n)"
  unfolding isUInt64_iff by (rule exI [of _ n]) simp

definition request_data :: "crypto_lib \<Rightarrow> buffer \<Rightarrow> buffer \<Rightarrow> stream_request \<Rightarrow> buffer" where
  "request_data lib iv secret r =
     encrypt lib iv (generateEncryptionKey lib secret) [packet_bytes (request_contents r)]"

definition request_fulfillment :: "crypto_lib \<Rightarrow> buffer \<Rightarrow> buffer \<Rightarrow> stream_request \<Rightarrow> buffer" where
  "request_fulfillment lib iv secret r =
     lib_hmac lib (pay_generateFulfillmentKey lib secret) (request_data lib iv secret r)"

definition request_prepare :: "crypto_lib \<Rightarrow> buffer \<Rightarrow> buffer \<Rightarrow> stream_request \<Rightarrow> IlpPrepare" where
  "request_prepare lib iv secret r =
     \<lparr>prep_amount = dec_of_nat (req_sourceAmount r),
      executionCondition = lib_sha256 lib (request_fulfillment lib iv secret r),
      expiresAt = req_expiresAt r, destination = req_destinationAddress r, prep_data = request_data lib iv secret r\<rparr>"

lemma request_data_facts:
  assumes "aead lib" "length iv = 12" "request_ok r"
  shows "serializeAndEncrypt lib iv (generateEncryptionKey lib secret) None (request_contents r)
      = Inr (request_data lib iv secret r)"
    and "decryptAndDeserialize lib (generateEncryptionKey lib secret) (request_data lib iv secret r) = Inr (request_contents r)"
    and "length (request_data lib iv secret r) = 28 + length (packet_bytes (request_contents r))"
proof -
  have "packet_ok (request_contents r)"
    using assms(3) by (simp add: request_ok_def packet_ok_def request_contents_def)
  from encrypt_roundtrip [OF assms(1,2) this]
  show "serializeAndEncrypt lib iv (generateEncryptionKey lib secret) None (request_contents r)
      = Inr (request_data lib iv secret r)"
    "decryptAndDeserialize lib (generateEncryptionKey lib secret) (request_data lib iv secret r) = Inr (request_contents r)"
    "length (request_data lib iv secret r) = 28 + length (packet_bytes (request_contents r))"
    by (simp_all add: request_data_def)
qed

lemma prepare_request_encoded:
  assumes "aead lib" and "digests lib" and "length iv = 12" and "request_ok r" and "isFulfillable r"
    and "length (packet_bytes (request_contents r)) < 2 ^ 46"
  shows "\<exists>bs. prepare_request lib iv cond secret r = Inr (Some (request_fulfillment lib iv secret r), bs)
    \<and> deserializeIlpPacket bs = Inr (PreparePacket (request_prepare lib iv secret r))"
proof -
  let ?p = "request_prepare lib iv secret r"
  note e = request_data_facts [OF assms(1,3,4), of secret]
  have "encodable_prepare ?p"
    using assms(2,4,6) e(3)
    by (simp add: encodable_prepare_def isPrepare_def dec_of_nat_isUInt64 request_ok_def digests_def request_prepare_def)
  then obtain bs where bs: "serializeIlpPrepare ?p = Inr bs" "first_byte bs = Some 12" "deserializeIlpPrepare bs = Inr ?p"
    using prepare_packet_roundtrip [of ?p "[]"] by auto
  have "prepare_request lib iv cond secret r = Inr (Some (request_fulfillment lib iv secret r), bs)"
    using assms(5) e(1) bs(1)
    by (simp add: prepare_request_def request_packet_contents [OF assms(4)] request_fulfillment_def request_prepare_def)
  moreover have "deserializeIlpPacket bs = Inr (PreparePacket ?p)" using bs by (simp add: deserializeIlpPacket_def)
  ultimately show ?thesis by blast
qed

text \<open>
  The request reaches the receiver: for a fulfillable request the bytes handed to the plugin
  parse to a prepare with the request's amount, address and expiry; its data decrypts under the
  shared secret to the sequence number, the minimum amount and the frames of the request; the
  fulfillment the receiver derives from it is the one the sender expects and hashes to the condition.
\<close>

theorem request_delivered:
  assumes "aead lib" and "digests lib" and "length iv = 12" and "request_ok r" and "isFulfillable r"
    and "length (packet_bytes (request_contents r)) < 2 ^ 46"
  shows "\<exists>expected bs p. prepare_request lib iv cond secret r = Inr (Some expected, bs)
    \<and> deserializeIlpPacket bs = Inr (PreparePacket p)
    \<and> prep_amount p = dec_of_nat (req_sourceAmount r) \<and> destination p = req_destinationAddress r
    \<and> expiresAt p = req_expiresAt r
    \<and> decryptAndDeserialize lib (generatePskEncryptionKey lib secret) (prep_data p) = Inr (request_contents r)
    \<and> generateFulfillment lib (generateFulfillmentKey lib secret) (prep_data p) = expected
    \<and> lib_sha256 lib expected = executionCondition p"
proof -
  obtain bs where "prepare_request lib iv cond secret r = Inr (Some (request_fulfillment lib iv secret r), bs)"
      "deserializeIlpPacket bs = Inr (PreparePacket (request_prepare lib iv secret r))"
    using prepare_request_encoded [OF assms] by blast
  then show ?thesis using request_data_facts(2) [OF assms(1,3,4), of secret]
    by (intro exI [of _ "request_fulfillment lib iv secret r"] exI [of _ bs] exI [of _ "request_prepare lib iv secret r"])
      (simp add: request_prepare_def request_fulfillment_def generateFulfillment_def generateFulfillmentKey_def
        pay_generateFulfillmentKey_def generateEncryptionKey_def generatePskEncryptionKey_def)
qed

definition sample_request :: stream_request where
  "sample_request = \<lparr>req_destinationAddress = js ''g.bob'', req_expiresAt = 1434412800123, req_sequence = 3,
     req_sourceAmount = 10, req_minDestinationAmount = 5, req_frames = [StreamMoney 1 1], isFulfillable = True\<rparr>"

lemma sample_request_ok: "request_ok sample_request"
  by (simp add: request_ok_def sample_request_def isValidIlpAddress_def ilp_address_regex_def
      ILP_ADDRESS_MAX_LENGTH_def js_def dot_def schemes_def segment_def address_char_def frame_ok_def
      four_digit_date_def getUTCFullYear_def YearFromDay_def msPerDay_def DayFromYear_def year_search.simps)

lemma sample_request_size: "length (packet_bytes ((request_contents sample_request)\<lparr>ilpPacketType := t\<rparr>)) < 2 ^ 46"
  by (simp add: packet_bytes_def request_contents_def sample_request_def var_uint_def var_octet_def
      length_prefix_length uint_size.simps frame_bytes_def contents_bytes_def)

theorem request_delivered_witness:
  "\<exists>expected bs p. prepare_request null_lib (replicate 12 0) [] [] sample_request = Inr (Some expected, bs)
    \<and> deserializeIlpPacket bs = Inr (PreparePacket p)
    \<and> prep_amount p = dec_of_nat (req_sourceAmount sample_request) \<and> destination p = req_destinationAddress sample_request
    \<and> expiresAt p = req_expiresAt sample_request
    \<and> decryptAndDeserialize null_lib (generatePskEncryptionKey null_lib []) (prep_data p) = Inr (request_contents sample_request)
    \<and> generateFulfillment null_lib (generateFulfillmentKey null_lib []) (prep_data p) = expected
    \<and> lib_sha256 null_lib expected = executionCondition p"
proof (rule request_delivered [OF null_lib_ok])
  show "length (packet_bytes (request_contents sample_request)) < 2 ^ 46"
    using sample_request_size [of 12] by (simp add: request_contents_def)
  show "isFulfillable sample_request" by (simp add: sample_request_def)
qed (simp_all add: sample_request_ok)

lemma receive_fulfill:
  fixes lib iv secret expected q
  assumes "aead lib" and "length iv = 12" and "packet_ok q" and "ilpPacketType q = type_byte Fulfill"
    and "sequence q = of_nat (req_sequence r)" and "length (packet_bytes q) < 2 ^ 46" and "length expected = 32"
  defines "f \<equiv> \<lparr>fulfillment = expected, fulfill_data = encrypt lib iv (generateEncryptionKey lib secret) [packet_bytes q]\<rparr>"
  shows "\<exists>bs. serializeIlpReply (FulfillReply f) = Inr bs
    \<and> receive_reply lib secret r (Some expected) (Replied bs) = StreamFulfill (Some (frames q)) (Some (unat (prepareAmount q)))"
proof -
  note e = encrypt_roundtrip [OF assms(1,2,3), of "generateEncryptionKey lib secret"]
  have f: "isFulfill f" using assms(7) by (simp add: isFulfill_def f_def)
  then have "encodable_fulfill f" using assms(6) e(3) by (simp add: encodable_fulfill_def f_def)
  then obtain bs where bs: "serializeIlpFulfill f = Inr bs" "first_byte bs = Some 13" "deserializeIlpFulfill bs = Inr f"
    using fulfill_packet_roundtrip [of f "[]"] by auto
  have "ilp_reply (Some expected) (Replied bs) = FulfillReply f"
    using bs by (simp add: deserializeIlpReply_def f_def)
  then have "receive_reply lib secret r (Some expected) (Replied bs) = StreamFulfill (Some (frames q)) (Some (unat (prepareAmount q)))"
    using e(2) assms(4,5) by (simp add: receive_reply_def f_def del: ilp_reply.simps)
  then show ?thesis using bs(1) f by (intro exI [of _ bs]) simp
qed

text \<open>
  The receiver's answer reaches the sender: a fulfill with the expected fulfillment, whose
  data is a STREAM packet for the same sequence number encrypted under the shared secret, is
  seen as a fulfill with that packet's frames and delivered amount.
\<close>

theorem fulfill_accepted:
  assumes "aead lib" and "length iv = 12" and "packet_ok q" and "ilpPacketType q = type_byte Fulfill"
    and "sequence q = of_nat (req_sequence r)" and "length (packet_bytes q) < 2 ^ 46" and "length expected = 32"
  shows "\<exists>data bs. serializeAndEncrypt lib iv (generatePskEncryptionKey lib secret) None q = Inr data
    \<and> serializeIlpReply (FulfillReply \<lparr>fulfillment = expected, fulfill_data = data\<rparr>) = Inr bs
    \<and> receive_reply lib secret r (Some expected) (Replied bs) = StreamFulfill (Some (frames q)) (Some (unat (prepareAmount q)))"
  using receive_fulfill [OF assms, of secret] encrypt_roundtrip(1) [OF assms(1,2,3), of "generatePskEncryptionKey lib secret"]
  by (simp add: generateEncryptionKey_def generatePskEncryptionKey_def)

theorem fulfill_accepted_witness:
  "\<exists>data bs. serializeAndEncrypt null_lib (replicate 12 0) (generatePskEncryptionKey null_lib []) None
      ((request_contents sample_request)\<lparr>ilpPacketType := 13\<rparr>) = Inr data
    \<and> serializeIlpReply (FulfillReply \<lparr>fulfillment = replicate 32 1, fulfill_data = data\<rparr>) = Inr bs
    \<and> receive_reply null_lib [] sample_request (Some (replicate 32 1)) (Replied bs)
      = StreamFulfill (Some (frames ((request_contents sample_request)\<lparr>ilpPacketType := 13\<rparr>)))
          (Some (unat (prepareAmount ((request_contents sample_request)\<lparr>ilpPacketType := 13\<rparr>))))"
proof (rule fulfill_accepted [OF null_lib_ok(1)])
  show "packet_ok ((request_contents sample_request)\<lparr>ilpPacketType := 13\<rparr>)"
    by (simp add: packet_ok_def request_contents_def sample_request_def frame_ok_def)
  show "length (packet_bytes ((request_contents sample_request)\<lparr>ilpPacketType := 13\<rparr>)) < 2 ^ 46"
    by (rule sample_request_size)
qed (simp_all add: request_contents_def)

end
