(* ===== verification/Max_Packet.thy ===== *)
theory Max_Packet
  imports Pay_Request Congestion
begin

text \<open>
  \<^verbatim>\<open>pay/src/controllers/max-packet.ts\<close>: the controller that limits the amount of a packet. A limit
  is unknown, precise (connectors said it) or imprecise (connectors only rejected an amount); an
  imprecise limit is narrowed by a binary search between the largest amount acknowledged and the
  smallest amount rejected. The main theorem says that the search ends with the exact capacity of the path.
\<close>

datatype max_packet_state =
    UnknownMax
  | PreciseMax (maxPacketAmount: pint)
  | ImpreciseMax (maxPacketAmount: pint)

record max_packet =
  mp_state :: max_packet_state
  verifiedPathCapacity :: pint

definition MAX_PROBE_AMOUNT :: pint where
  "MAX_PROBE_AMOUNT = 1000000000000"

definition new_max_packet :: "pint option \<Rightarrow> max_packet" where
  "new_max_packet preciseMax =
     \<lparr>mp_state = (case preciseMax of Some n \<Rightarrow> PreciseMax n | None \<Rightarrow> UnknownMax), verifiedPathCapacity = 0\<rparr>"

definition getNextMaxPacketAmount :: "max_packet \<Rightarrow> pint option" where
  "getNextMaxPacketAmount c =
     (case mp_state c of
        PreciseMax n \<Rightarrow> Some n
      | ImpreciseMax n \<Rightarrow>
          Some (divideCeil (saturatingSubtract n (verifiedPathCapacity c)) 2 + verifiedPathCapacity c)
      | UnknownMax \<Rightarrow> None)"

definition isProbeComplete :: "max_packet \<Rightarrow> bool" where
  "isProbeComplete c =
     (let verifiedPreciseMax =
            (case mp_state c of PreciseMax n \<Rightarrow> verifiedPathCapacity c = n | _ \<Rightarrow> False);
          verifiedLargeCapacity =
            (mp_state c = UnknownMax \<and> verifiedPathCapacity c \<ge> MAX_PROBE_AMOUNT)
      in verifiedPreciseMax \<or> verifiedLargeCapacity)"

definition getMaxPacketAmountLimit :: "max_packet \<Rightarrow> pint" where
  "getMaxPacketAmountLimit c = (if mp_state c = UnknownMax then MAX_U64 else maxPacketAmount (mp_state c))"

definition adjustPathCapacity :: "pint \<Rightarrow> max_packet \<Rightarrow> max_packet" where
  "adjustPathCapacity ackAmount c =
     (let newPathCapacity = orLesser (orGreater (verifiedPathCapacity c) (Some ackAmount))
                              (Some (getMaxPacketAmountLimit c));
          c1 = c\<lparr>verifiedPathCapacity := newPathCapacity\<rparr>
      in case mp_state c1 of
           ImpreciseMax n \<Rightarrow> if verifiedPathCapacity c1 = n then c1\<lparr>mp_state := PreciseMax n\<rparr> else c1
         | _ \<Rightarrow> c1)"

text \<open>The part after the \<open>try\<close> block, for the maximum inferred and whether it is precise.\<close>

definition lowerMaxPacketAmount :: "pint \<Rightarrow> bool \<Rightarrow> max_packet \<Rightarrow> PaymentError option \<times> max_packet" where
  "lowerMaxPacketAmount newMax isPreciseMax c =
     (if \<not> newMax > 0 then (Some ConnectorError, c)
      else if mp_state c \<noteq> UnknownMax \<and> \<not> newMax < maxPacketAmount (mp_state c) then (None, c)
      else
        let c1 = c\<lparr>mp_state := if isPreciseMax then PreciseMax newMax else ImpreciseMax newMax\<rparr>
        in (None, adjustPathCapacity (verifiedPathCapacity c1) c1))"

definition reduceMaxPacketAmount :: "IlpReject \<Rightarrow> pint \<Rightarrow> max_packet \<Rightarrow> PaymentError option \<times> max_packet" where
  "reduceMaxPacketAmount reject sourceAmount c =
     (case run_reader read_amounts (rej_data reject) of
        Inr (received, maximum) \<Rightarrow>
          let remoteReceived = Int_fromLong received; remoteMaximum = Int_fromLong maximum
          in if \<not> remoteReceived > remoteMaximum then (None, c)
             else lowerMaxPacketAmount
                    (multiplyFloor remoteMaximum (ratio_of sourceAmount remoteReceived)) True c
      | Inl _ \<Rightarrow> lowerMaxPacketAmount (saturatingSubtract sourceAmount 1) False c)"

fun max_packet_reply :: "pint \<Rightarrow> stream_reply \<Rightarrow> max_packet \<Rightarrow> PaymentError option \<times> max_packet" where
  "max_packet_reply sourceAmount (StreamReject reject fs am) c =
     (if rej_code reject = js ''F08'' then reduceMaxPacketAmount reject sourceAmount c
      else if isAuthentic (StreamReject reject fs am) then (None, adjustPathCapacity sourceAmount c)
      else (None, c))"
| "max_packet_reply sourceAmount (StreamFulfill fs am) c = (None, adjustPathCapacity sourceAmount c)"

section \<open>Invariant\<close>

definition max_packet_inv :: "max_packet \<Rightarrow> bool" where
  "max_packet_inv c \<longleftrightarrow> 0 < getMaxPacketAmountLimit c \<and> verifiedPathCapacity c \<le> getMaxPacketAmountLimit c
     \<and> (case mp_state c of ImpreciseMax n \<Rightarrow> verifiedPathCapacity c < n | _ \<Rightarrow> True)"

lemma max_packet_inv_new:
  "max_packet_inv (new_max_packet None)" "0 < n \<Longrightarrow> max_packet_inv (new_max_packet (Some n))"
  by (simp_all add: max_packet_inv_def new_max_packet_def getMaxPacketAmountLimit_def)

lemma adjust_inv:
  "0 < getMaxPacketAmountLimit c \<Longrightarrow> max_packet_inv (adjustPathCapacity n c)"
  by (auto simp: max_packet_inv_def adjustPathCapacity_def getMaxPacketAmountLimit_def Let_def
      split: max_packet_state.splits if_splits)

lemma lower_inv:
  "max_packet_inv c \<Longrightarrow> lowerMaxPacketAmount n p c = (e, c') \<Longrightarrow> max_packet_inv c'"
  by (auto simp: lowerMaxPacketAmount_def Let_def getMaxPacketAmountLimit_def split: if_splits intro!: adjust_inv)

lemma reduce_inv:
  "max_packet_inv c \<Longrightarrow> reduceMaxPacketAmount r n c = (e, c') \<Longrightarrow> max_packet_inv c'"
  by (auto simp: reduceMaxPacketAmount_def Let_def split: sum.splits if_splits dest: lower_inv)

lemma max_packet_reply_inv:
  assumes "max_packet_inv c" and "max_packet_reply n reply c = (e, c')"
  shows "max_packet_inv c'"
proof (cases reply)
  case (StreamFulfill fs am)
  then show ?thesis using assms adjust_inv by (auto simp: max_packet_inv_def)
next
  case (StreamReject r fs am)
  have "max_packet_inv (adjustPathCapacity n c)" using assms(1) by (intro adjust_inv) (simp add: max_packet_inv_def)
  then show ?thesis using assms StreamReject reduce_inv by (auto split: if_splits)
qed

lemma probe_bounds:
  "max_packet_inv c \<Longrightarrow> getNextMaxPacketAmount c = Some p \<Longrightarrow>
   0 < p \<and> verifiedPathCapacity c \<le> p \<and> p \<le> getMaxPacketAmountLimit c"
  by (auto simp: max_packet_inv_def getNextMaxPacketAmount_def getMaxPacketAmountLimit_def divideCeil_def
      split: max_packet_state.splits)

lemma adjust_known [simp]:
  "mp_state (adjustPathCapacity k d) = UnknownMax \<longleftrightarrow> mp_state d = UnknownMax"
  "maxPacketAmount (mp_state (adjustPathCapacity k d)) = maxPacketAmount (mp_state d)"
  "getMaxPacketAmountLimit (adjustPathCapacity k d) = getMaxPacketAmountLimit d"
  by (auto simp: adjustPathCapacity_def getMaxPacketAmountLimit_def Let_def split: max_packet_state.splits)

lemma lower_known:
  assumes "lowerMaxPacketAmount k b c = (f, c')"
  shows "mp_state c \<noteq> UnknownMax \<Longrightarrow> mp_state c' \<noteq> UnknownMax \<and> getMaxPacketAmountLimit c' \<le> getMaxPacketAmountLimit c"
    and "f = None \<Longrightarrow> mp_state c' \<noteq> UnknownMax \<and> getMaxPacketAmountLimit c' \<le> k"
  using assms by (auto simp: lowerMaxPacketAmount_def Let_def getMaxPacketAmountLimit_def split: if_splits)

text \<open>
  Whatever replies arrive, the limit of the controller stays positive and never rises once
  it is known, the amount it hands out for the next packet is positive and at most the limit,
  and the verified capacity never exceeds the limit.
\<close>

theorem max_packet_safe:
  assumes "max_packet_inv c" and "max_packet_reply n reply c = (e, c')"
  shows "max_packet_inv c'
    \<and> (mp_state c \<noteq> UnknownMax \<longrightarrow> mp_state c' \<noteq> UnknownMax \<and> getMaxPacketAmountLimit c' \<le> getMaxPacketAmountLimit c)
    \<and> (\<forall>p. getNextMaxPacketAmount c' = Some p \<longrightarrow> 0 < p \<and> p \<le> getMaxPacketAmountLimit c')"
proof -
  have "mp_state c \<noteq> UnknownMax \<longrightarrow> mp_state c' \<noteq> UnknownMax \<and> getMaxPacketAmountLimit c' \<le> getMaxPacketAmountLimit c"
    using assms(2)
    by (cases reply) (auto simp: reduceMaxPacketAmount_def Let_def split: if_splits sum.splits dest: lower_known(1))
  then show ?thesis using max_packet_reply_inv [OF assms] probe_bounds by blast
qed

lemma no_amounts: "run_reader read_amounts [] = Inl UnderflowError"
  by code_simp

lemma sample_reduce:
  "max_packet_reply 1000 (StreamReject (createReject (js ''F08'')) None None) (new_max_packet (Some 5000)) =
     (None, \<lparr>mp_state = ImpreciseMax 999, verifiedPathCapacity = 0\<rparr>)"
  by (simp add: createReject_def reduceMaxPacketAmount_def no_amounts lowerMaxPacketAmount_def new_max_packet_def
      adjustPathCapacity_def getMaxPacketAmountLimit_def)

theorem max_packet_safe_witness:
  "max_packet_inv \<lparr>mp_state = ImpreciseMax 999, verifiedPathCapacity = 0\<rparr>"
  using max_packet_safe [OF max_packet_inv_new(2) sample_reduce] by simp

text \<open>
  An F08 that does not end the payment leaves the limit below the amount it rejected, whether
  it carries the amounts of the connector or not, unless the amounts contradict it (the
  connector received no more than its maximum), when it changes nothing.
\<close>

theorem f08_lowers_limit:
  assumes "rej_code reject = js ''F08''" and "0 < n" and "max_packet_reply n (StreamReject reject fs am) c = (None, c')"
  shows "case run_reader read_amounts (rej_data reject) of
      Inl _ \<Rightarrow> mp_state c' \<noteq> UnknownMax \<and> getMaxPacketAmountLimit c' < n
    | Inr (received, maximum) \<Rightarrow>
        (if unat maximum < unat received then mp_state c' \<noteq> UnknownMax \<and> getMaxPacketAmountLimit c' < n else c' = c)"
proof (cases "run_reader read_amounts (rej_data reject)")
  case (Inl e)
  then have "lowerMaxPacketAmount (n - 1) False c = (None, c')"
    using assms by (simp add: reduceMaxPacketAmount_def)
  from lower_known(2) [OF this] show ?thesis using Inl assms(2) by auto
next
  case (Inr a)
  obtain received maximum where a: "a = (received, maximum)" by fastforce
  show ?thesis
  proof (cases "unat maximum < unat received")
    case True
    let ?k = "unat maximum * n div unat received"
    have "lowerMaxPacketAmount ?k True c = (None, c')"
      using assms Inr a True by (simp add: reduceMaxPacketAmount_def multiplyFloor_def ratio_of_def)
    moreover have "?k < n" using True assms(2) by (simp add: less_mult_imp_div_less mult.commute)
    ultimately show ?thesis using lower_known(2) Inr a True by fastforce
  next
    case False
    then show ?thesis using assms Inr a by (simp add: reduceMaxPacketAmount_def)
  qed
qed

theorem f08_lowers_limit_witness:
  "getMaxPacketAmountLimit \<lparr>mp_state = ImpreciseMax 999, verifiedPathCapacity = 0\<rparr> < 1000"
  using f08_lowers_limit [OF _ _ sample_reduce] by (simp add: createReject_def no_amounts)

section \<open>Binary search\<close>

text \<open>
  The path as the search sees it: it acknowledges amounts up to its capacity and rejects larger
  ones with an F08 without amounts. \<open>probe_round\<close> sends the amount the controller asks for.
\<close>

definition path_reply :: "pint \<Rightarrow> pint \<Rightarrow> stream_reply" where
  "path_reply cap p =
     (if p \<le> cap then StreamReject (createReject (js ''F99'')) (Some []) (Some 0)
      else StreamReject (createReject (js ''F08'')) None None)"

definition probe_round :: "pint \<Rightarrow> max_packet \<Rightarrow> max_packet" where
  "probe_round cap c =
     (case getNextMaxPacketAmount c of None \<Rightarrow> c | Some p \<Rightarrow> snd (max_packet_reply p (path_reply cap p) c))"

definition searching :: "pint \<Rightarrow> nat \<Rightarrow> max_packet \<Rightarrow> bool" where
  "searching cap gap c \<longleftrightarrow>
     (case mp_state c of
        PreciseMax n \<Rightarrow> n = cap
      | ImpreciseMax n \<Rightarrow> verifiedPathCapacity c < n \<and> verifiedPathCapacity c \<le> cap \<and> cap \<le> n
          \<and> n - verifiedPathCapacity c < gap
      | UnknownMax \<Rightarrow> False)"

lemma path_reply_effect:
  "max_packet_reply p (path_reply cap p) c =
     (if p \<le> cap then (None, adjustPathCapacity p c) else lowerMaxPacketAmount (p - 1) False c)"
  by (simp add: path_reply_def createReject_def reduceMaxPacketAmount_def no_amounts js_def)

lemma probe_halves:
  assumes "searching cap (2 * gap) c" and "0 < cap"
  shows "searching cap gap (probe_round cap c)"
proof (cases "mp_state c")
  case (PreciseMax n)
  then show ?thesis using assms
    by (simp add: searching_def probe_round_def getNextMaxPacketAmount_def path_reply_effect adjustPathCapacity_def Let_def)
next
  case (ImpreciseMax n)
  let ?v = "verifiedPathCapacity c"
  define h where "h = (n - ?v + 1) div 2"
  have v: "?v < n" "?v \<le> cap" "cap \<le> n" "n - ?v < 2 * gap" using assms(1) ImpreciseMax by (auto simp: searching_def)
  have h: "1 \<le> h" "h \<le> n - ?v" "n - ?v - h < gap" "h - 1 < gap" using v unfolding h_def by linarith+
  have next_p: "getNextMaxPacketAmount c = Some (h + ?v)"
    by (simp add: ImpreciseMax getNextMaxPacketAmount_def divideCeil_def h_def)
  show ?thesis
  proof (cases "h + ?v \<le> cap")
    case True
    then have "probe_round cap c = adjustPathCapacity (h + ?v) c" by (simp add: probe_round_def next_p path_reply_effect)
    then show ?thesis using True v h ImpreciseMax
      by (auto simp: searching_def adjustPathCapacity_def getMaxPacketAmountLimit_def Let_def min_def max_def)
  next
    case False
    let ?c = "c\<lparr>mp_state := ImpreciseMax (h + ?v - 1)\<rparr>"
    have "probe_round cap c = adjustPathCapacity ?v ?c"
      using False v h assms(2) ImpreciseMax
      by (simp add: probe_round_def next_p path_reply_effect lowerMaxPacketAmount_def)
    then show ?thesis using False v h
      by (auto simp: searching_def adjustPathCapacity_def getMaxPacketAmountLimit_def Let_def min_def max_def)
  qed
qed (use assms in \<open>simp add: searching_def\<close>)

text \<open>
  C35. Binary search finds the capacity of the path: when connectors reject without saying their
  limit, and the path really carries every amount up to its capacity and no other, then once a
  rejected and an acknowledged amount enclose the capacity with a gap below \<open>2\<^sup>k\<close>, \<open>k\<close> probes later the
  limit is known precisely and equals the capacity.
\<close>

theorem binary_search_exact:
  assumes "mp_state c = ImpreciseMax n" and "verifiedPathCapacity c < n"
    and "verifiedPathCapacity c \<le> cap" and "cap \<le> n" and "0 < cap" and "n - verifiedPathCapacity c < 2 ^ k"
  shows "mp_state ((probe_round cap ^^ k) c) = PreciseMax cap"
proof -
  have "searching cap (2 ^ j) ((probe_round cap ^^ (k - j)) c)" if "j \<le> k" for j
    using that
  proof (induction j rule: inc_induct)
    case base
    then show ?case using assms by (simp add: searching_def)
  next
    case (step j)
    then have "(probe_round cap ^^ (k - j)) c = probe_round cap ((probe_round cap ^^ (k - Suc j)) c)"
      by (simp add: Suc_diff_Suc flip: funpow.simps(2) [unfolded comp_def, THEN fun_cong])
    then show ?case using probe_halves [of cap "2 ^ j"] step.IH assms(5) by simp
  qed
  from this [of 0] show ?thesis
    by (auto simp: searching_def split: max_packet_state.splits)
qed

theorem binary_search_exact_witness:
  "mp_state ((probe_round 700 ^^ 10) \<lparr>mp_state = ImpreciseMax 999, verifiedPathCapacity = 0\<rparr>) = PreciseMax 700"
  by (rule binary_search_exact [where n = 999]) simp_all

end
