(* ===== verification/Exchange_Rate.thy ===== *)
theory Exchange_Rate
  imports Pay_Int
begin

text \<open>
  \<^verbatim>\<open>pay/src/controllers/exchange-rate.ts\<close>: the bounds a sender keeps on the realized exchange
  rate. The state is the pair of bounds; \<open>applyRate\<close> is the reply handler of \<open>applyRequest\<close>.
  The theorems say what the bounds mean: if the path converts at a fixed rate and rounds down,
  the bounds always enclose the rate and the estimates are safe.
\<close>

record exchange_rate =
  lowerBoundRate :: ratio
  upperBoundRate :: ratio

definition new_exchange_rate :: exchange_rate where
  "new_exchange_rate = \<lparr>lowerBoundRate = ratio_of 0 1, upperBoundRate = ratio_of MAX_U64 1\<rparr>"

definition applyRate :: "pint \<Rightarrow> pint option \<Rightarrow> exchange_rate \<Rightarrow> exchange_rate" where
  "applyRate sourceAmount destinationAmount c =
     (if \<not> sourceAmount > 0 then c
      else case destinationAmount of
        None \<Rightarrow> c
      | Some destination \<Rightarrow>
          let packetUpper = ratio_of (destination + 1) sourceAmount;
              packetLower = ratio_of destination sourceAmount;
              shouldReset = ratio_isLessThanOrEqualTo packetUpper (lowerBoundRate c)
                \<or> ratio_isGreaterThanOrEqualTo packetLower (upperBoundRate c)
          in if shouldReset then c\<lparr>upperBoundRate := packetUpper, lowerBoundRate := packetLower\<rparr>
             else
               let c1 = (if ratio_isGreaterThan packetLower (lowerBoundRate c)
                         then c\<lparr>lowerBoundRate := packetLower\<rparr> else c)
               in if ratio_isLessThan packetUpper (upperBoundRate c1)
                  then c1\<lparr>upperBoundRate := packetUpper\<rparr> else c1)"

definition estimateDestinationAmount :: "pint \<Rightarrow> exchange_rate \<Rightarrow> pint \<times> pint" where
  "estimateDestinationAmount sourceAmount c =
     (orLesser (multiplyFloor sourceAmount (lowerBoundRate c)) (Some MAX_U64),
      orLesser (saturatingSubtract (multiplyCeil sourceAmount (upperBoundRate c)) 1) (Some MAX_U64))"

text \<open>The upper bound is positive, so its reciprocal exists.\<close>

definition estimateSourceAmount :: "pint \<Rightarrow> exchange_rate \<Rightarrow> (pint \<times> pint) option" where
  "estimateSourceAmount destinationAmount c =
     (case ratio_reciprocal (lowerBoundRate c) of
        None \<Rightarrow> None
      | Some lower \<Rightarrow>
          Some (multiplyFloor destinationAmount
                  (ratio_of (ratio_b (upperBoundRate c)) (ratio_a (upperBoundRate c))) + 1,
                multiplyCeil destinationAmount lower))"

section \<open>The bounds\<close>

definition rate_inv :: "exchange_rate \<Rightarrow> bool" where
  "rate_inv c \<longleftrightarrow> ratio_ok (lowerBoundRate c) \<and> ratio_ok (upperBoundRate c)
     \<and> rat_of (lowerBoundRate c) < rat_of (upperBoundRate c)"

lemma rate_inv_new: "rate_inv new_exchange_rate"
  by (simp add: rate_inv_def new_exchange_rate_def)

lemma packet_ratios:
  assumes "0 < s"
  shows "rat_of (ratio_of d s) < rat_of (ratio_of (d + 1) s)"
  using assms by (simp add: divide_strict_right_mono)

text \<open>The bounds after a reply, as rationals.\<close>

lemma applyRate_bounds:
  fixes s d :: pint and c :: exchange_rate
  assumes inv: "rate_inv c" and s: "0 < s"
  defines "lo \<equiv> rat_of (lowerBoundRate c)" and "up \<equiv> rat_of (upperBoundRate c)"
    and "plo \<equiv> of_nat d / of_nat s :: rat" and "pup \<equiv> of_nat (d + 1) / of_nat s :: rat"
  shows "rate_inv (applyRate s (Some d) c)"
    and "rat_of (lowerBoundRate (applyRate s (Some d) c)) = (if pup \<le> lo \<or> up \<le> plo then plo else max lo plo)"
    and "rat_of (upperBoundRate (applyRate s (Some d) c)) = (if pup \<le> lo \<or> up \<le> plo then pup else min up pup)"
proof -
  have ok: "ratio_ok (lowerBoundRate c)" "ratio_ok (upperBoundRate c)" "lo < up"
    using inv by (auto simp: rate_inv_def lo_def up_def)
  have p: "plo < pup" using packet_ratios [OF s, of d] by (simp add: plo_def pup_def)
  have cmp: "ratio_isLessThanOrEqualTo (ratio_of (d + 1) s) (lowerBoundRate c) \<longleftrightarrow> pup \<le> lo"
    "ratio_isGreaterThanOrEqualTo (ratio_of d s) (upperBoundRate c) \<longleftrightarrow> up \<le> plo"
    "ratio_isGreaterThan (ratio_of d s) (lowerBoundRate c) \<longleftrightarrow> lo < plo"
    "ratio_isLessThan (ratio_of (d + 1) s) (upperBoundRate c) \<longleftrightarrow> pup < up"
    using ok s by (simp_all only: ratio_order ratio_ok_ratio_of rat_of_ratio_of lo_def up_def plo_def pup_def)
  show "rate_inv (applyRate s (Some d) c)"
    "rat_of (lowerBoundRate (applyRate s (Some d) c)) = (if pup \<le> lo \<or> up \<le> plo then plo else max lo plo)"
    "rat_of (upperBoundRate (applyRate s (Some d) c)) = (if pup \<le> lo \<or> up \<le> plo then pup else min up pup)"
    using s ok p cmp unfolding applyRate_def rate_inv_def Let_def
    by (auto simp: max_def min_def not_le not_less lo_def up_def plo_def pup_def)
qed

lemma applyRate_inv: "rate_inv c \<Longrightarrow> rate_inv (applyRate s d c)"
proof (cases "s > 0 \<and> d \<noteq> None")
  case True
  assume "rate_inv c"
  with True show ?thesis using applyRate_bounds(1) by auto
qed (auto simp: applyRate_def)

text \<open>\<open>honest \<rho> s d\<close>: a path with rate \<open>\<rho>\<close> that rounds down delivered \<open>d\<close> for \<open>s\<close>.\<close>

definition honest :: "rat \<Rightarrow> pint \<Rightarrow> pint \<Rightarrow> bool" where
  "honest \<rho> s d \<longleftrightarrow> int d = \<lfloor>of_nat s * \<rho>\<rfloor>"

definition encloses :: "exchange_rate \<Rightarrow> rat \<Rightarrow> bool" where
  "encloses c \<rho> \<longleftrightarrow> rat_of (lowerBoundRate c) \<le> \<rho> \<and> \<rho> < rat_of (upperBoundRate c)"

lemma honest_bounds:
  assumes "honest \<rho> s d" "0 < s"
  shows "of_nat d / of_nat s \<le> \<rho>" "\<rho> < of_nat (d + 1) / of_nat s"
proof -
  have "rat_of_int (int d) \<le> of_nat s * \<rho>" "of_nat s * \<rho> < rat_of_int (int d) + 1"
    using assms(1) floor_correct [of "of_nat s * \<rho>"] by (auto simp: honest_def)
  then show "of_nat d / of_nat s \<le> \<rho>" "\<rho> < of_nat (d + 1) / of_nat s"
    using assms(2) by (simp_all add: field_simps)
qed

text \<open>
  On a path with a constant rate that rounds each packet down, the bounds enclose the true
  rate after every reply, never widen, and stay ordered; the rate is never reset.
\<close>

theorem exchange_rate_sound:
  assumes "rate_inv c" and "encloses c \<rho>" and "honest \<rho> s d"
  shows "rate_inv (applyRate s (Some d) c) \<and> encloses (applyRate s (Some d) c) \<rho>
    \<and> rat_of (lowerBoundRate c) \<le> rat_of (lowerBoundRate (applyRate s (Some d) c))
    \<and> rat_of (upperBoundRate (applyRate s (Some d) c)) \<le> rat_of (upperBoundRate c)"
proof (cases "0 < s")
  case False
  with assms show ?thesis by (simp add: applyRate_def)
next
  case True
  note b = applyRate_bounds [OF assms(1) True, of d]
  note h = honest_bounds [OF assms(3) True]
  have "\<not> (of_nat (d + 1) / of_nat s \<le> rat_of (lowerBoundRate c) \<or> rat_of (upperBoundRate c) \<le> of_nat d / of_nat s)"
    using h assms(2) unfolding encloses_def by linarith
  then show ?thesis using b h assms(2) by (auto simp: encloses_def max_def min_def)
qed

theorem exchange_rate_sound_witness:
  "rate_inv (applyRate 100 (Some 49) new_exchange_rate) \<and> encloses (applyRate 100 (Some 49) new_exchange_rate) (49 / 100)
    \<and> rat_of (lowerBoundRate new_exchange_rate) \<le> rat_of (lowerBoundRate (applyRate 100 (Some 49) new_exchange_rate))
    \<and> rat_of (upperBoundRate (applyRate 100 (Some 49) new_exchange_rate)) \<le> rat_of (upperBoundRate new_exchange_rate)"
  by (rule exchange_rate_sound [OF rate_inv_new]) (simp_all add: encloses_def new_exchange_rate_def honest_def)

section \<open>Estimates\<close>

text \<open>
  While the bounds enclose the rate, the amount delivered for a source amount lies between the two
  destination estimates (for deliveries that fit a packet).
\<close>

theorem destination_estimate_sound:
  assumes "rate_inv c" and "encloses c \<rho>" and "honest \<rho> s d" and "d \<le> MAX_U64"
  shows "fst (estimateDestinationAmount s c) \<le> d \<and> d \<le> snd (estimateDestinationAmount s c)"
proof
  let ?lo = "rat_of (lowerBoundRate c)" and ?up = "rat_of (upperBoundRate c)"
  have e: "?lo \<le> \<rho>" "\<rho> < ?up" using assms(2) by (auto simp: encloses_def)
  have "of_nat s * ?lo \<le> of_nat s * \<rho>" using e by (simp add: mult_left_mono)
  then have "int (multiplyFloor s (lowerBoundRate c)) \<le> int d"
    unfolding multiplyFloor_floor using assms(3) floor_mono by (simp add: honest_def)
  then show "fst (estimateDestinationAmount s c) \<le> d" by (simp add: estimateDestinationAmount_def)
  have "d \<le> multiplyCeil s (upperBoundRate c) - 1"
  proof (cases "s = 0")
    case True
    then show ?thesis using assms(3) by (simp add: honest_def)
  next
    case False
    then have "of_nat s * \<rho> < of_nat s * ?up" using e by simp
    then have "int d < int (multiplyCeil s (upperBoundRate c))"
      using assms(1,3) by (simp add: multiplyCeil_ceil rate_inv_def honest_def floor_less_iff less_le_trans [OF _ le_of_int_ceiling])
    then show ?thesis by simp
  qed
  then show "d \<le> snd (estimateDestinationAmount s c)" using assms(4) by (simp add: estimateDestinationAmount_def)
qed

theorem destination_estimate_sound_witness:
  "fst (estimateDestinationAmount 100 new_exchange_rate) \<le> 49
   \<and> 49 \<le> snd (estimateDestinationAmount 100 new_exchange_rate)"
  by (rule destination_estimate_sound [OF rate_inv_new, of "49 / 100"])
    (simp_all add: encloses_def new_exchange_rate_def honest_def)

text \<open>
  While the bounds enclose the rate, the high-end source estimate delivers at least the destination
  amount asked for, and no source amount below the low-end estimate can deliver it.
\<close>

theorem source_estimate_sound:
  assumes "rate_inv c" and "encloses c \<rho>" and "0 < d" and "estimateSourceAmount d c = Some (lowEnd, highEnd)"
  shows "int d \<le> \<lfloor>of_nat highEnd * \<rho>\<rfloor> \<and> \<lfloor>of_nat (lowEnd - 1) * \<rho>\<rfloor> < int d"
proof
  let ?l = "lowerBoundRate c" and ?u = "upperBoundRate c"
  have e: "rat_of ?l \<le> \<rho>" "\<rho> < rat_of ?u" using assms(2) by (auto simp: encloses_def)
  have a: "0 < ratio_a ?l" "highEnd = multiplyCeil d (ratio_of (ratio_b ?l) (ratio_a ?l))"
      "lowEnd = multiplyFloor d (ratio_of (ratio_b ?u) (ratio_a ?u)) + 1"
    using assms(4) by (auto simp: estimateSourceAmount_def ratio_reciprocal_def split: if_splits)
  have pos: "0 < rat_of ?l" using a(1) assms(1) by (simp add: rat_of_def rate_inv_def ratio_ok_def)
  have inv: "of_nat (ratio_b r) / of_nat (ratio_a r) = 1 / rat_of r" for r by (simp add: rat_of_def)
  have "of_nat d / rat_of ?l \<le> of_nat highEnd"
    using multiplyCeil_ge [of "ratio_of (ratio_b ?l) (ratio_a ?l)" d] a(1,2) by (simp add: inv)
  then have "of_nat d \<le> of_nat highEnd * rat_of ?l" using pos by (simp add: pos_divide_le_eq)
  also have "\<dots> \<le> of_nat highEnd * \<rho>" using e(1) by (simp add: mult_left_mono)
  finally show "int d \<le> \<lfloor>of_nat highEnd * \<rho>\<rfloor>" by (simp add: le_floor_iff)
  have up: "0 < rat_of ?u" using e pos by linarith
  let ?k = "multiplyFloor d (ratio_of (ratio_b ?u) (ratio_a ?u))"
  have "of_nat ?k \<le> of_nat d / rat_of ?u"
    using multiplyFloor_le [of d "ratio_of (ratio_b ?u) (ratio_a ?u)"] by (simp add: inv)
  then have k: "of_nat ?k * rat_of ?u \<le> of_nat d" using up by (simp add: pos_le_divide_eq)
  have "of_nat ?k * \<rho> < of_nat d"
  proof (cases "?k = 0")
    case False
    then have "of_nat ?k * \<rho> < of_nat ?k * rat_of ?u" using e(2) by simp
    with k show ?thesis by linarith
  qed (use assms(3) in simp)
  then show "\<lfloor>of_nat (lowEnd - 1) * \<rho>\<rfloor> < int d" using a(3) by (simp add: floor_less_iff)
qed

lemma sample_source_estimate:
  "estimateSourceAmount 10 \<lparr>lowerBoundRate = ratio_of 1 2, upperBoundRate = ratio_of 3 5\<rparr> = Some (17, 20)"
  by (simp add: estimateSourceAmount_def ratio_reciprocal_def ratio_of_def multiplyFloor_def multiplyCeil_def divideCeil_def)

theorem source_estimate_sound_witness:
  "int 10 \<le> \<lfloor>of_nat 20 * (1 / 2 :: rat)\<rfloor> \<and> \<lfloor>of_nat (17 - 1) * (1 / 2 :: rat)\<rfloor> < int 10"
  by (rule source_estimate_sound [OF _ _ _ sample_source_estimate]) (simp_all add: rate_inv_def encloses_def)

end
