(* ===== verification/Pay_Controllers.thy ===== *)
theory Pay_Controllers
  imports Max_Packet Exchange_Rate
begin

text \<open>
  \<^verbatim>\<open>pay/src/controllers\<close>: the smaller controllers of the payment library and the interface
  \<open>StreamController\<close> they share with the exchange rate and maximum packet controllers.

  A controller is a record of its three functions over the state of the connection \<open>pay_state\<close>, in
  which each controller keeps its own component: \<open>buildRequest\<close> extends a request without side
  effects, \<open>applyRequest\<close> takes note that it is sent, \<open>applyReply\<close> is the closure \<open>applyRequest\<close>
  returns. Times are milliseconds and \<open>Date.now()\<close> is an argument; the JavaScript numbers of the
  pacing controller are exact rationals here, without the rounding of floating point. The locale
  \<open>stream_controller\<close> is the contract of the interface.
\<close>

type_synonym time = int

datatype request_state = RError PaymentError | RSchedule rat | RYield | RReady

section \<open>State\<close>

record asset_details =
  asset_code :: jsstring
  asset_scale :: nat

record pacer =
  lastPacketSentTime :: time
  averageRoundTrip :: rat
  packetsPerSecond :: rat
  inFlightCount :: int

text \<open>The components of the controllers of one connection.\<close>

record pay_state =
  counter :: nat
  establishment_address :: jsstring
  isConnected :: bool
  deadline :: "time option"
  max_packet_ctl :: max_packet
  destinationAsset :: "asset_details option"
  pacer :: pacer
  rate_ctl :: exchange_rate

record 's controller =
  buildRequest :: "time \<Rightarrow> 's \<Rightarrow> stream_request \<Rightarrow> request_state \<times> stream_request"
  applyRequest :: "time \<Rightarrow> 's \<Rightarrow> 's"
  applyReply :: "time \<Rightarrow> stream_request \<Rightarrow> time \<Rightarrow> stream_reply \<Rightarrow> 's \<Rightarrow> PaymentError option \<times> 's"

text \<open>The optional methods of the interface that a controller leaves out.\<close>

definition no_methods :: "'s controller" where
  "no_methods = \<lparr>buildRequest = (\<lambda>now s r. (RReady, r)), applyRequest = (\<lambda>now s. s),
     applyReply = (\<lambda>sent r now reply s. (None, s))\<rparr>"

section \<open>Sequence numbers\<close>

definition PACKET_LIMIT :: nat where
  "PACKET_LIMIT = 2 ^ 31"

definition Counter_from :: "jsnum \<Rightarrow> nat option" where
  "Counter_from count = Int_fromNumber count"

definition sequence_build :: "nat \<Rightarrow> stream_request \<Rightarrow> request_state \<times> stream_request" where
  "sequence_build count r =
     (if count \<ge> PACKET_LIMIT then (RError MaxSafeEncryptionLimit, r) else (RReady, setSequence count r))"

definition SequenceController :: "'x pay_state_scheme controller" where
  "SequenceController = no_methods
     \<lparr>buildRequest := (\<lambda>now s r. sequence_build (counter s) r),
      applyRequest := (\<lambda>now s. s\<lparr>counter := counter s + 1\<rparr>)\<rparr>"

section \<open>Establishment\<close>

definition DEFAULT_STREAM_ID :: u64 where
  "DEFAULT_STREAM_ID = 1"

definition establishment_build :: "jsstring \<Rightarrow> bool \<Rightarrow> stream_request \<Rightarrow> request_state \<times> stream_request" where
  "establishment_build address didConnect r =
     (let r1 = setDestinationAddress address r
      in (RReady, if \<not> didConnect
                  then addFrames [ConnectionMaxStreamId DEFAULT_STREAM_ID, ConnectionMaxData 0] r1 else r1))"

definition EstablishmentController :: "'x pay_state_scheme controller" where
  "EstablishmentController = no_methods
     \<lparr>buildRequest := (\<lambda>now s r. establishment_build (establishment_address s) (isConnected s) r),
      applyReply := (\<lambda>sent r now reply s. (None, s\<lparr>isConnected := isConnected s \<or> isAuthentic reply\<rparr>))\<rparr>"

section \<open>Expiry\<close>

definition DEFAULT_PACKET_EXPIRY_MS :: int where
  "DEFAULT_PACKET_EXPIRY_MS = 20000"

definition ExpiryController :: "'x pay_state_scheme controller" where
  "ExpiryController = no_methods
     \<lparr>buildRequest := (\<lambda>now s r. (RReady, setExpiry (now + DEFAULT_PACKET_EXPIRY_MS) r))\<rparr>"

section \<open>Failures\<close>

fun close_frame :: "frame \<Rightarrow> bool" where
  "close_frame (ConnectionClose code msg) = True"
| "close_frame (StreamClose streamId code msg) = (streamId = DEFAULT_STREAM_ID)"
| "close_frame _ = False"

definition frames_of :: "stream_reply \<Rightarrow> frame list" where
  "frames_of reply = (case reply_frames reply of None \<Rightarrow> [] | Some fs \<Rightarrow> fs)"

text \<open>\<open>code[0] === 'T'\<close>.\<close>

definition temporary_code :: "jsstring \<Rightarrow> bool" where
  "temporary_code code \<longleftrightarrow> code \<noteq> [] \<and> [hd code] = js ''T''"

definition failure_reply :: "stream_reply \<Rightarrow> PaymentError option" where
  "failure_reply reply =
     (if find close_frame (frames_of reply) \<noteq> None then Some ClosedByReceiver
      else case reply of
        StreamFulfill fs am \<Rightarrow> None
      | StreamReject reject fs am \<Rightarrow>
          let code = rej_code reject
          in if temporary_code code \<or> code = js ''F08'' \<or> code = js ''F99'' \<or> code = js ''R01'' then None
             else Some ConnectorError)"

definition FailureController :: "'x pay_state_scheme controller" where
  "FailureController = no_methods\<lparr>applyReply := (\<lambda>sent r now reply s. (failure_reply reply, s))\<rparr>"

section \<open>Idle timeout\<close>

definition MAX_DURATION_SINCE_LAST_FULFILL :: int where
  "MAX_DURATION_SINCE_LAST_FULFILL = 10000"

definition timeout_build :: "time \<Rightarrow> time option \<Rightarrow> request_state" where
  "timeout_build now dl = (case dl of Some t \<Rightarrow> if now > t then RError IdleTimeout else RReady | None \<Rightarrow> RReady)"

definition resetDeadline :: "time \<Rightarrow> time option" where
  "resetDeadline now = Some (now + MAX_DURATION_SINCE_LAST_FULFILL)"

definition TimeoutController :: "'x pay_state_scheme controller" where
  "TimeoutController = no_methods
     \<lparr>buildRequest := (\<lambda>now s r. (timeout_build now (deadline s), r)),
      applyRequest := (\<lambda>now s. if deadline s = None then s\<lparr>deadline := resetDeadline now\<rparr> else s),
      applyReply := (\<lambda>sent r now reply s.
        (None, if reply_fulfilled reply then s\<lparr>deadline := resetDeadline now\<rparr> else s))\<rparr>"

section \<open>Packet amounts and rates\<close>

definition MaxPacketAmountController :: "'x pay_state_scheme controller" where
  "MaxPacketAmountController = no_methods
     \<lparr>applyReply := (\<lambda>sent r now reply s.
        let (e, c) = max_packet_reply (req_sourceAmount r) reply (max_packet_ctl s)
        in (e, s\<lparr>max_packet_ctl := c\<rparr>))\<rparr>"

definition ExchangeRateController :: "'x pay_state_scheme controller" where
  "ExchangeRateController = no_methods
     \<lparr>applyReply := (\<lambda>sent r now reply s.
        (None, s\<lparr>rate_ctl := applyRate (req_sourceAmount r) (reply_destinationAmount reply) (rate_ctl s)\<rparr>))\<rparr>"

section \<open>Destination asset\<close>

fun asset_frames :: "frame list \<Rightarrow> asset_details list" where
  "asset_frames [] = []"
| "asset_frames (ConnectionAssetDetails code scale # fs) = \<lparr>asset_code = code, asset_scale = scale\<rparr> # asset_frames fs"
| "asset_frames (f # fs) = asset_frames fs"

fun asset_loop :: "asset_details list \<Rightarrow> asset_details option \<Rightarrow> PaymentError option \<times> asset_details option" where
  "asset_loop [] known = (None, known)"
| "asset_loop (a # as) None = asset_loop as (Some a)"
| "asset_loop (a # as) (Some k) =
     (if asset_code k \<noteq> asset_code a \<or> asset_scale k \<noteq> asset_scale a
      then (Some DestinationAssetConflict, Some k) else asset_loop as (Some k))"

definition AssetDetailsController :: "'x pay_state_scheme controller" where
  "AssetDetailsController = no_methods
     \<lparr>applyReply := (\<lambda>sent r now reply s.
        let (e, a) = asset_loop (asset_frames (frames_of reply)) (destinationAsset s)
        in (e, s\<lparr>destinationAsset := a\<rparr>))\<rparr>"

section \<open>Pacing\<close>

definition DEFAULT_PACKETS_PER_SECOND :: rat where "DEFAULT_PACKETS_PER_SECOND = 40"
definition MIN_PACKETS_PER_SECOND :: rat where "MIN_PACKETS_PER_SECOND = 1"
definition MAX_PACKETS_PER_SECOND :: rat where "MAX_PACKETS_PER_SECOND = 200"
definition PACKETS_PER_SECOND_INCREASE_TERM :: rat where "PACKETS_PER_SECOND_INCREASE_TERM = 1 / 2"
definition PACKETS_PER_SECOND_DECREASE_FACTOR :: rat where "PACKETS_PER_SECOND_DECREASE_FACTOR = 1 / 2"
definition DEFAULT_ROUND_TRIP_TIME_MS :: rat where "DEFAULT_ROUND_TRIP_TIME_MS = 200"
definition ROUND_TRIP_AVERAGE_WEIGHT :: rat where "ROUND_TRIP_AVERAGE_WEIGHT = 9 / 10"
definition MAX_INFLIGHT_PACKETS :: int where "MAX_INFLIGHT_PACKETS = 20"

lemmas pacing_constants = DEFAULT_PACKETS_PER_SECOND_def MIN_PACKETS_PER_SECOND_def MAX_PACKETS_PER_SECOND_def
  PACKETS_PER_SECOND_INCREASE_TERM_def PACKETS_PER_SECOND_DECREASE_FACTOR_def DEFAULT_ROUND_TRIP_TIME_MS_def
  ROUND_TRIP_AVERAGE_WEIGHT_def MAX_INFLIGHT_PACKETS_def

definition new_pacer :: pacer where
  "new_pacer = \<lparr>lastPacketSentTime = 0, averageRoundTrip = DEFAULT_ROUND_TRIP_TIME_MS,
     packetsPerSecond = DEFAULT_PACKETS_PER_SECOND, inFlightCount = 0\<rparr>"

definition getPacketFrequency :: "pacer \<Rightarrow> rat" where
  "getPacketFrequency p = max (1000 / packetsPerSecond p) (averageRoundTrip p / of_int MAX_INFLIGHT_PACKETS)"

definition getNextPacketSendTime :: "pacer \<Rightarrow> rat" where
  "getNextPacketSendTime p = of_int (lastPacketSentTime p) + getPacketFrequency p"

definition pacer_build :: "time \<Rightarrow> pacer \<Rightarrow> request_state" where
  "pacer_build now p =
     (let durationUntilNextPacket = getNextPacketSendTime p - of_int now
      in if durationUntilNextPacket > 0 then RSchedule durationUntilNextPacket
         else if inFlightCount p \<ge> MAX_INFLIGHT_PACKETS then RYield else RReady)"

definition pacer_request :: "time \<Rightarrow> pacer \<Rightarrow> pacer" where
  "pacer_request now p = p\<lparr>lastPacketSentTime := now, inFlightCount := inFlightCount p + 1\<rparr>"

definition pacer_reply :: "time \<Rightarrow> time \<Rightarrow> stream_reply \<Rightarrow> pacer \<Rightarrow> pacer" where
  "pacer_reply sentTime now reply p =
     (let p1 = p\<lparr>inFlightCount := inFlightCount p - 1\<rparr>;
          p2 = (if isAuthentic reply
                then p1\<lparr>averageRoundTrip := averageRoundTrip p1 * ROUND_TRIP_AVERAGE_WEIGHT
                         + of_int (max (now - sentTime) 0) * (1 - ROUND_TRIP_AVERAGE_WEIGHT)\<rparr>
                else p1)
      in if reply_rejected reply \<and> temporary_code (rej_code (ilpReject reply))
         then p2\<lparr>packetsPerSecond := max MIN_PACKETS_PER_SECOND
                   (packetsPerSecond p2 * PACKETS_PER_SECOND_DECREASE_FACTOR)\<rparr>
         else if isAuthentic reply
         then p2\<lparr>packetsPerSecond := min MAX_PACKETS_PER_SECOND
                   (packetsPerSecond p2 + PACKETS_PER_SECOND_INCREASE_TERM)\<rparr>
         else p2)"

definition PacingController :: "'x pay_state_scheme controller" where
  "PacingController = no_methods
     \<lparr>buildRequest := (\<lambda>now s r. (pacer_build now (pacer s), r)),
      applyRequest := (\<lambda>now s. s\<lparr>pacer := pacer_request now (pacer s)\<rparr>),
      applyReply := (\<lambda>sent r now reply s. (None, s\<lparr>pacer := pacer_reply sent now reply (pacer s)\<rparr>))\<rparr>"

section \<open>The contract of a controller\<close>

text \<open>What the sender needs of each controller: it keeps an invariant of the connection.\<close>

locale stream_controller =
  fixes ctl :: "'s controller" and inv :: "'s \<Rightarrow> bool"
  assumes request_inv: "inv s \<Longrightarrow> inv (applyRequest ctl now s)"
    and reply_inv: "inv s \<Longrightarrow> inv (snd (applyReply ctl sent r now reply s))"

definition pacer_inv :: "pacer \<Rightarrow> bool" where
  "pacer_inv p \<longleftrightarrow> MIN_PACKETS_PER_SECOND \<le> packetsPerSecond p \<and> packetsPerSecond p \<le> MAX_PACKETS_PER_SECOND
     \<and> 0 \<le> averageRoundTrip p"

definition pay_inv :: "'x pay_state_scheme \<Rightarrow> bool" where
  "pay_inv s \<longleftrightarrow> max_packet_inv (max_packet_ctl s) \<and> rate_inv (rate_ctl s) \<and> pacer_inv (pacer s)"

lemma pacer_inv_new: "pacer_inv new_pacer"
  by (simp add: pacer_inv_def new_pacer_def pacing_constants)

lemma pacer_inv_request: "pacer_inv p \<Longrightarrow> pacer_inv (pacer_request now p)"
  by (simp add: pacer_inv_def pacer_request_def)

lemma pacer_inv_reply: "pacer_inv p \<Longrightarrow> pacer_inv (pacer_reply sent now reply p)"
  by (auto simp: pacer_inv_def pacer_reply_def Let_def pacing_constants min_def max_def)

interpretation sequence_ctl: stream_controller SequenceController pay_inv
  by unfold_locales (simp_all add: SequenceController_def no_methods_def pay_inv_def)

interpretation establishment_ctl: stream_controller EstablishmentController pay_inv
  by unfold_locales (simp_all add: EstablishmentController_def no_methods_def pay_inv_def)

interpretation expiry_ctl: stream_controller ExpiryController pay_inv
  by unfold_locales (simp_all add: ExpiryController_def no_methods_def)

interpretation failure_ctl: stream_controller FailureController pay_inv
  by unfold_locales (simp_all add: FailureController_def no_methods_def)

interpretation timeout_ctl: stream_controller TimeoutController pay_inv
  by unfold_locales (simp_all add: TimeoutController_def no_methods_def pay_inv_def)

interpretation max_packet_ctl: stream_controller MaxPacketAmountController pay_inv
  by unfold_locales
    (auto simp: MaxPacketAmountController_def no_methods_def pay_inv_def split: prod.splits dest: max_packet_reply_inv)

interpretation rate_ctl: stream_controller ExchangeRateController pay_inv
  by unfold_locales (simp_all add: ExchangeRateController_def no_methods_def pay_inv_def applyRate_inv)

interpretation asset_ctl: stream_controller AssetDetailsController pay_inv
  by unfold_locales (auto simp: AssetDetailsController_def no_methods_def pay_inv_def split: prod.splits)

interpretation pacing_ctl: stream_controller PacingController pay_inv
  by unfold_locales (simp_all add: PacingController_def no_methods_def pay_inv_def pacer_inv_request pacer_inv_reply)

lemmas pay_controllers = sequence_ctl.stream_controller_axioms establishment_ctl.stream_controller_axioms
  expiry_ctl.stream_controller_axioms failure_ctl.stream_controller_axioms timeout_ctl.stream_controller_axioms
  max_packet_ctl.stream_controller_axioms rate_ctl.stream_controller_axioms asset_ctl.stream_controller_axioms
  pacing_ctl.stream_controller_axioms

section \<open>Pacing and assets\<close>

lemma pacer_interval:
  assumes "pacer_inv p" and "pacer_build now p = RReady"
  shows "lastPacketSentTime p + 5 \<le> now" and "inFlightCount p < MAX_INFLIGHT_PACKETS"
proof -
  have "5 \<le> 1000 / packetsPerSecond p"
    using assms(1) by (simp add: pacer_inv_def pacing_constants field_simps)
  then have "5 \<le> getPacketFrequency p" by (simp add: getPacketFrequency_def)
  moreover have "of_int (lastPacketSentTime p) + getPacketFrequency p \<le> of_int now"
    using assms(2) by (simp add: pacer_build_def getNextPacketSendTime_def Let_def split: if_splits)
  ultimately have "(of_int (lastPacketSentTime p + 5) :: rat) \<le> of_int now" by simp
  then show "lastPacketSentTime p + 5 \<le> now" by (simp only: of_int_le_iff)
  show "inFlightCount p < MAX_INFLIGHT_PACKETS"
    using assms(2) by (simp add: pacer_build_def Let_def split: if_splits)
qed

text \<open>Once known, the destination asset never changes; an error is raised exactly when a frame disagrees.\<close>

lemma asset_loop_known:
  "asset_loop as (Some k) = (if list_all (\<lambda>a. a = k) as then None else Some DestinationAssetConflict, Some k)"
  by (induction as) auto

lemma asset_loop_unknown:
  "asset_loop as None = (case as of [] \<Rightarrow> (None, None) | a # as' \<Rightarrow> asset_loop as' (Some a))"
  by (cases as) simp_all

end
