(* ===== verification/Stream_Sender.thy ===== *)
theory Stream_Sender
  imports Pay_Controllers
begin

text \<open>
  \<^verbatim>\<open>pay/src/senders/index.ts\<close> and \<^verbatim>\<open>pay/src/controllers/index.ts\<close>: the send loop of the payment
  library. A sender is its list of controllers and the two functions a subclass of \<open>StreamSender\<close> provides; the
  closure \<open>applyReply\<close> that \<open>nextState\<close> returns is the pair of the data it captures and a function.

  The loop state holds the packets in flight (the tasks of the reply scheduler), the number of
  attempts waiting in the request scheduler and the result. A step of \<open>loop_step\<close> is one turn of
  the loop in \<open>start\<close>: an attempt to send, or the reply to any packet in flight, which models every
  order in which the two schedulers can resolve. The clock is arbitrary at each step. When
  there is a result, only outstanding replies are processed, as \<open>complete\<close> does.
\<close>

datatype ('p, 't) send_state =
    SDone 't
  | SError PaymentError
  | SSchedule rat
  | SYield
  | SSend 'p

record 'p flight =
  fl_request :: stream_request
  fl_sentTime :: time
  fl_data :: 'p

record ('s, 'p, 't) sender =
  controllers :: "'s controller list"
  nextState :: "time \<Rightarrow> 's \<Rightarrow> stream_request \<Rightarrow> ('p, 't) send_state \<times> 's \<times> stream_request"
  senderReply :: "'p \<Rightarrow> stream_reply \<Rightarrow> 's \<Rightarrow> ('p, 't) send_state \<times> 's"

fun build_all :: "'s controller list \<Rightarrow> time \<Rightarrow> 's \<Rightarrow> request_state \<times> stream_request \<Rightarrow> request_state \<times> stream_request" where
  "build_all [] now s st = st"
| "build_all (c # cs) now s (st, r) =
     build_all cs now s (if st = RReady then buildRequest c now s r else (st, r))"

fun apply_requests :: "'s controller list \<Rightarrow> time \<Rightarrow> 's \<Rightarrow> 's" where
  "apply_requests [] now s = s"
| "apply_requests (c # cs) now s = apply_requests cs now (applyRequest c now s)"

text \<open>All handlers run; the first error counts.\<close>

fun apply_replies ::
  "'s controller list \<Rightarrow> time \<Rightarrow> stream_request \<Rightarrow> time \<Rightarrow> stream_reply \<Rightarrow> 's \<Rightarrow> PaymentError option \<times> 's" where
  "apply_replies [] sent r now reply s = (None, s)"
| "apply_replies (c # cs) sent r now reply s =
     (let (e, s1) = applyReply c sent r now reply s;
          (e', s2) = apply_replies cs sent r now reply s1
      in (case e of None \<Rightarrow> e' | Some _ \<Rightarrow> e, s2))"

definition trySending :: "('s, 'p, 't) sender \<Rightarrow> time \<Rightarrow> 's \<Rightarrow> ('p, 't) send_state \<times> 'p flight option \<times> 's" where
  "trySending S now s =
     (case build_all (controllers S) now s (RReady, new_request now) of
        (RError e, r) \<Rightarrow> (SError e, None, s)
      | (RSchedule d, r) \<Rightarrow> (SSchedule d, None, s)
      | (RYield, r) \<Rightarrow> (SYield, None, s)
      | (RReady, r) \<Rightarrow>
          (case nextState S now s r of
             (SSend p, s1, r1) \<Rightarrow>
               (SSchedule 0, Some \<lparr>fl_request = r1, fl_sentTime = now, fl_data = p\<rparr>,
                apply_requests (controllers S) now s1)
           | (st, s1, r1) \<Rightarrow> (st, None, s1)))"

definition handleReply ::
  "('s, 'p, 't) sender \<Rightarrow> time \<Rightarrow> 'p flight \<Rightarrow> stream_reply \<Rightarrow> 's \<Rightarrow> ('p, 't) send_state \<times> 's" where
  "handleReply S now f reply s =
     (let (e, s1) = apply_replies (controllers S) (fl_sentTime f) (fl_request f) now reply s;
          (st, s2) = senderReply S (fl_data f) reply s1
      in (case e of Some er \<Rightarrow> SError er | None \<Rightarrow> st, s2))"

section \<open>The send loop\<close>

record ('s, 'p, 't) loop =
  lp_state :: 's
  lp_flight :: "'p flight list"
  lp_attempts :: nat
  lp_result :: "(PaymentError + 't) option"

definition start_loop :: "'s \<Rightarrow> ('s, 'p, 't) loop" where
  "start_loop s = \<lparr>lp_state = s, lp_flight = [], lp_attempts = 1, lp_result = None\<rparr>"

text \<open>The \<open>switch\<close> over the new state.\<close>

fun settle :: "('p, 't) send_state \<Rightarrow> ('s, 'p, 't) loop \<Rightarrow> ('s, 'p, 't) loop" where
  "settle (SDone v) l = l\<lparr>lp_result := Some (Inr v)\<rparr>"
| "settle (SError e) l = l\<lparr>lp_result := Some (Inl e)\<rparr>"
| "settle (SSchedule d) l = l\<lparr>lp_attempts := lp_attempts l + 1\<rparr>"
| "settle _ l = l"

definition remove_at :: "nat \<Rightarrow> 'a list \<Rightarrow> 'a list" where
  "remove_at i xs = take i xs @ drop (Suc i) xs"

definition loop_attempt :: "('s, 'p, 't) sender \<Rightarrow> time \<Rightarrow> ('s, 'p, 't) loop \<Rightarrow> ('s, 'p, 't) loop" where
  "loop_attempt S now l =
     (case trySending S now (lp_state l) of (st, f, s') \<Rightarrow>
        settle st (l\<lparr>lp_state := s', lp_attempts := lp_attempts l - 1,
          lp_flight := lp_flight l @ (case f of None \<Rightarrow> [] | Some p \<Rightarrow> [p])\<rparr>))"

definition loop_reply :: "('s, 'p, 't) sender \<Rightarrow> time \<Rightarrow> nat \<Rightarrow> stream_reply \<Rightarrow> ('s, 'p, 't) loop \<Rightarrow> ('s, 'p, 't) loop" where
  "loop_reply S now i reply l =
     (case handleReply S now (lp_flight l ! i) reply (lp_state l) of (st, s') \<Rightarrow>
        let l' = l\<lparr>lp_state := s', lp_flight := remove_at i (lp_flight l)\<rparr>
        in if lp_result l = None then settle st l' else l')"

inductive loop_step :: "('s, 'p, 't) sender \<Rightarrow> ('s, 'p, 't) loop \<Rightarrow> ('s, 'p, 't) loop \<Rightarrow> bool" for S where
  attempt: "lp_result l = None \<Longrightarrow> 0 < lp_attempts l \<Longrightarrow> loop_step S l (loop_attempt S now l)"
| reply: "i < length (lp_flight l) \<Longrightarrow> loop_step S l (loop_reply S now i rep l)"

inductive loop_reach :: "('s, 'p, 't) sender \<Rightarrow> 's \<Rightarrow> ('s, 'p, 't) loop \<Rightarrow> bool" for S s0 where
  start: "loop_reach S s0 (start_loop s0)"
| step: "loop_reach S s0 l \<Longrightarrow> loop_step S l l' \<Longrightarrow> loop_reach S s0 l'"

inductive_simps loop_step_iff: "loop_step S l l'"

text \<open>Runs as sequences of events, for concrete executions.\<close>

datatype loop_event = Attempt time | Reply time nat stream_reply

fun run_event :: "('s, 'p, 't) sender \<Rightarrow> loop_event \<Rightarrow> ('s, 'p, 't) loop \<Rightarrow> ('s, 'p, 't) loop option" where
  "run_event S (Attempt now) l =
     (if lp_result l = None \<and> 0 < lp_attempts l then Some (loop_attempt S now l) else None)"
| "run_event S (Reply now i rep) l =
     (if i < length (lp_flight l) then Some (loop_reply S now i rep l) else None)"

fun run_events :: "('s, 'p, 't) sender \<Rightarrow> loop_event list \<Rightarrow> ('s, 'p, 't) loop \<Rightarrow> ('s, 'p, 't) loop option" where
  "run_events S [] l = Some l"
| "run_events S (e # es) l = (case run_event S e l of None \<Rightarrow> None | Some l' \<Rightarrow> run_events S es l')"

lemma run_event_step: "run_event S e l = Some l' \<Longrightarrow> loop_step S l l'"
  by (cases e) (auto split: if_splits intro: loop_step.intros)

lemma run_events_reach: "loop_reach S s0 l \<Longrightarrow> run_events S es l = Some l' \<Longrightarrow> loop_reach S s0 l'"
  by (induction es arbitrary: l) (auto split: option.splits dest: run_event_step intro: loop_reach.step)

lemma remove_at_facts:
  fixes h :: "'a \<Rightarrow> nat"
  assumes "i < length xs"
  shows "sum_list (map h xs) = h (xs ! i) + sum_list (map h (remove_at i xs))"
    and "length xs = Suc (length (remove_at i xs))"
    and "list_all P xs \<Longrightarrow> list_all P (remove_at i xs)"
    and "distinct (map k xs) \<Longrightarrow> distinct (map k (remove_at i xs))"
proof -
  obtain as x bs where x: "xs = as @ x # bs" "xs ! i = x" "remove_at i xs = as @ bs"
    using id_take_nth_drop [OF assms] unfolding remove_at_def by blast
  show "sum_list (map h xs) = h (xs ! i) + sum_list (map h (remove_at i xs))"
    "length xs = Suc (length (remove_at i xs))"
    "list_all P xs \<Longrightarrow> list_all P (remove_at i xs)"
    "distinct (map k xs) \<Longrightarrow> distinct (map k (remove_at i xs))"
    unfolding x(2,3) by (simp_all add: x(1))
qed

section \<open>Controllers that keep an invariant\<close>

lemma apply_requests_inv:
  "list_all (\<lambda>c. stream_controller c I) cs \<Longrightarrow> I s \<Longrightarrow> I (apply_requests cs now s)"
  by (induction cs arbitrary: s) (auto simp: stream_controller.request_inv)

lemma apply_replies_inv:
  "list_all (\<lambda>c. stream_controller c I) cs \<Longrightarrow> I s \<Longrightarrow> I (snd (apply_replies cs sent r now reply s))"
proof (induction cs arbitrary: s)
  case (Cons c cs)
  have "I (snd (applyReply c sent r now reply s))"
    using Cons.prems by (simp add: stream_controller.reply_inv)
  then show ?case using Cons by (simp add: split_beta Let_def)
qed simp

section \<open>Senders that keep an invariant\<close>

text \<open>
  An invariant of the connection and the packets in flight that sending a packet and accounting
  for a reply keep holds in every state of the send loop.
\<close>

locale sender_invariant =
  fixes S :: "('s, 'p, 't) sender" and inv :: "'s \<Rightarrow> 'p flight list \<Rightarrow> bool"
  assumes attempt_inv: "inv s fl \<Longrightarrow> trySending S now s = (st, f, s') \<Longrightarrow>
      inv s' (fl @ (case f of None \<Rightarrow> [] | Some p \<Rightarrow> [p]))"
    and reply_inv: "inv s fl \<Longrightarrow> i < length fl \<Longrightarrow> handleReply S now (fl ! i) rep s = (st, s') \<Longrightarrow>
      inv s' (remove_at i fl)"
begin

lemma settle_keeps: "lp_state (settle st l) = lp_state l" "lp_flight (settle st l) = lp_flight l"
  by (cases st; simp)+

lemma step_inv: "loop_step S l l' \<Longrightarrow> inv (lp_state l) (lp_flight l) \<Longrightarrow> inv (lp_state l') (lp_flight l')"
proof (induction rule: loop_step.induct)
  case (attempt l now)
  then show ?case by (auto simp: loop_attempt_def settle_keeps split: prod.splits dest: attempt_inv)
next
  case (reply i l now rep)
  then show ?case by (auto simp: loop_reply_def Let_def settle_keeps split: prod.splits dest: reply_inv)
qed

lemma reach_inv: "loop_reach S s0 l \<Longrightarrow> inv s0 [] \<Longrightarrow> inv (lp_state l) (lp_flight l)"
  by (induction rule: loop_reach.induct) (auto simp: start_loop_def dest: step_inv)

text \<open>What holds of every value the sender finishes with holds of the result of the loop.\<close>

lemma reach_result:
  assumes "loop_reach S s0 l" and "inv s0 []"
    and "\<And>s fl now f s' v. inv s fl \<Longrightarrow> trySending S now s = (SDone v, f, s') \<Longrightarrow> P v"
    and "\<And>s fl now i rep s' v. inv s fl \<Longrightarrow> i < length fl \<Longrightarrow> handleReply S now (fl ! i) rep s = (SDone v, s') \<Longrightarrow> P v"
    and "lp_result l = Some (Inr v)"
  shows "P v"
  using assms(1,5)
proof (induction arbitrary: v rule: loop_reach.induct)
  case (step l l')
  have I: "inv (lp_state l) (lp_flight l)" using reach_inv [OF step(1) assms(2)] .
  from step(2) show ?case
  proof cases
    case (attempt now)
    obtain st f s' where t: "trySending S now (lp_state l) = (st, f, s')" by (metis prod_cases3)
    with step.prems attempt have "st = SDone v" by (cases st) (auto simp: loop_attempt_def)
    with assms(3) [OF I] t show ?thesis by blast
  next
    case (reply i now rep)
    obtain st s' where h: "handleReply S now (lp_flight l ! i) rep (lp_state l) = (st, s')" by fastforce
    show ?thesis
    proof (cases "lp_result l = None")
      case True
      with step.prems reply h have "st = SDone v" by (cases st) (auto simp: loop_reply_def)
      with assms(4) [OF I reply(2)] h show ?thesis by blast
    next
      case False
      with step.prems reply h have "lp_result l = Some (Inr v)" by (simp add: loop_reply_def Let_def)
      then show ?thesis by (rule step.IH)
    qed
  qed
qed (simp add: start_loop_def)

end

end
