(* ===== verification/Payment_Sender.thy ===== *)
theory Payment_Sender
  imports Stream_Sender Receipt
begin

text \<open>
  \<^verbatim>\<open>pay/src/senders/payment.ts\<close>: the sender that executes a payment within the limits of a quote.
  Its state extends that of the controllers; the data a reply handler captures is \<open>packet_data\<close>. The
  progress callback is left out: it only observes.

  The invariant \<open>payment_inv\<close> ties the totals to the packets in flight. It gives the properties of a
  payment: it never spends more than quoted, it accounts for every packet, and it ends
  successfully only when the target was met.
\<close>

datatype PaymentType = FixedSend | FixedDelivery

record quote =
  paymentType :: PaymentType
  maxSourceAmount :: pint
  minDeliveryAmount :: pint
  quote_maxPacketAmount :: pint
  lowEstimatedExchangeRate :: ratio
  highEstimatedExchangeRate :: ratio
  minExchangeRate :: ratio

record payment = pay_state +
  quote :: quote
  amountSent :: pint
  amountDelivered :: pint
  sourceAmountInFlight :: pint
  destinationAmountInFlight :: pint
  appliedRoundingCorrection :: bool
  remoteReceiveMax :: "pint option"
  latestReceipt :: "(pint \<times> buffer) option"

record packet_data =
  pk_source :: pint
  pk_minDestination :: pint
  pk_highEnd :: pint
  pk_correction :: bool

record progress =
  streamReceipt :: "buffer option"
  pr_amountSent :: pint
  pr_amountDelivered :: pint
  pr_sourceAmountInFlight :: pint
  pr_destinationAmountInFlight :: pint

definition getProgress :: "payment \<Rightarrow> progress" where
  "getProgress s =
     \<lparr>streamReceipt = map_option snd (latestReceipt s), pr_amountSent = amountSent s,
      pr_amountDelivered = amountDelivered s, pr_sourceAmountInFlight = sourceAmountInFlight s,
      pr_destinationAmountInFlight = destinationAmountInFlight s\<rparr>"

text \<open>The constructor, for the asset and address of the destination and the request counter it shares.\<close>

definition new_payment :: "quote \<Rightarrow> jsstring \<Rightarrow> asset_details option \<Rightarrow> nat \<Rightarrow> payment" where
  "new_payment q address asset count =
     \<lparr>counter = count, establishment_address = address, isConnected = False, deadline = None,
      max_packet_ctl = new_max_packet (Some (quote_maxPacketAmount q)), destinationAsset = asset, pacer = new_pacer,
      rate_ctl = \<lparr>lowerBoundRate = lowEstimatedExchangeRate q, upperBoundRate = highEstimatedExchangeRate q\<rparr>,
      quote = q, amountSent = 0, amountDelivered = 0, sourceAmountInFlight = 0,
      destinationAmountInFlight = 0, appliedRoundingCorrection = False, remoteReceiveMax = None,
      latestReceipt = None\<rparr>"

section \<open>The next packet\<close>

definition availableToSend :: "payment \<Rightarrow> pint" where
  "availableToSend s =
     saturatingSubtract (saturatingSubtract (maxSourceAmount (quote s)) (amountSent s)) (sourceAmountInFlight s)"

definition remainingToDeliver :: "payment \<Rightarrow> pint" where
  "remainingToDeliver s =
     saturatingSubtract (saturatingSubtract (minDeliveryAmount (quote s)) (amountDelivered s))
       (destinationAmountInFlight s)"

text \<open>
  The amount of the next packet and whether it completes the payment; \<open>Inl\<close> is an early return
  of \<open>nextState\<close>.
\<close>

definition next_amount :: "payment \<Rightarrow> (packet_data, progress) send_state + (pint \<times> bool)" where
  "next_amount s =
     (let available = availableToSend s
      in if \<not> available > 0 then Inl SYield
         else
           let source = orLesser (orLesser available (getNextMaxPacketAmount (max_packet_ctl s))) (Some MAX_U64)
           in if paymentType (quote s) = FixedDelivery then
                let remaining = remainingToDeliver s
                in if \<not> remaining > 0 then Inl SYield
                   else case estimateSourceAmount remaining (rate_ctl s) of
                          None \<Rightarrow> Inl (SError InsufficientExchangeRate)
                        | Some (_, deliveryLimit) \<Rightarrow>
                            let source' = orLesser source (Some deliveryLimit)
                            in Inr (source', source' = deliveryLimit)
              else Inr (source, source = available))"

definition minDestination :: "bool \<Rightarrow> pint \<Rightarrow> ratio \<Rightarrow> pint" where
  "minDestination applyCorrection source rate =
     (if applyCorrection then multiplyCeil (saturatingSubtract source 1) rate else multiplyCeil source rate)"

definition payment_nextState ::
  "time \<Rightarrow> payment \<Rightarrow> stream_request \<Rightarrow> (packet_data, progress) send_state \<times> payment \<times> stream_request" where
  "payment_nextState now s r =
     (case next_amount s of
        Inl st \<Rightarrow> (st, s, r)
      | Inr (source, completesPayment) \<Rightarrow>
          let applyCorrection = (completesPayment \<and> \<not> appliedRoundingCorrection s);
              minDest = minDestination applyCorrection source (minExchangeRate (quote s));
              (projected, highEnd) = estimateDestinationAmount source (rate_ctl s)
          in if projected < minDest then (SError InsufficientExchangeRate, s, r)
             else
               (SSend \<lparr>pk_source = source, pk_minDestination = minDest, pk_highEnd = highEnd,
                       pk_correction = applyCorrection\<rparr>,
                s\<lparr>sourceAmountInFlight := sourceAmountInFlight s + source,
                  destinationAmountInFlight := destinationAmountInFlight s + highEnd,
                  appliedRoundingCorrection := applyCorrection\<rparr>,
                addFrames [StreamMoney DEFAULT_STREAM_ID 1]
                  (enableFulfillment (setMinDestinationAmount minDest (setSourceAmount source r)))))"

section \<open>Replies\<close>

fun receive_max_frame :: "frame \<Rightarrow> pint option" where
  "receive_max_frame (StreamMaxMoney streamId receiveMax totalReceived) =
     (if streamId = DEFAULT_STREAM_ID then Some (Int_fromLong receiveMax) else None)"
| "receive_max_frame _ = None"

definition updateReceiveMax :: "stream_reply \<Rightarrow> pint option" where
  "updateReceiveMax reply =
     (case List.map_filter receive_max_frame (frames_of reply) of [] \<Rightarrow> None | m # _ \<Rightarrow> Some m)"

fun receipt_frame :: "frame \<Rightarrow> buffer option" where
  "receipt_frame (StreamReceipt streamId receipt) = Some receipt"
| "receipt_frame _ = None"

definition updateStreamReceipt :: "stream_reply \<Rightarrow> payment \<Rightarrow> payment" where
  "updateStreamReceipt reply s =
     (case List.map_filter receipt_frame (frames_of reply) of
        [] \<Rightarrow> s
      | receiptBuffer # _ \<Rightarrow>
          (case decodeReceipt receiptBuffer of
             Inl _ \<Rightarrow> s
           | Inr receipt \<Rightarrow>
               let newTotalReceived = Int_fromLong (rc_totalReceived receipt)
               in if (case latestReceipt s of None \<Rightarrow> True | Some (n, _) \<Rightarrow> newTotalReceived > n)
                  then s\<lparr>latestReceipt := Some (newTotalReceived, receiptBuffer)\<rparr> else s))"

text \<open>The accounting at the start of the reply handler.\<close>

definition account_reply :: "packet_data \<Rightarrow> stream_reply \<Rightarrow> payment \<Rightarrow> payment" where
  "account_reply p reply s =
     (let destination = orGreater (pk_minDestination p) (reply_destinationAmount reply);
          s1 = (if reply_fulfilled reply
                then s\<lparr>amountSent := amountSent s + pk_source p,
                       amountDelivered := amountDelivered s + destination\<rparr> else s);
          s2 = s1\<lparr>sourceAmountInFlight := saturatingSubtract (sourceAmountInFlight s1) (pk_source p),
                  destinationAmountInFlight := saturatingSubtract (destinationAmountInFlight s1) (pk_highEnd p)\<rparr>;
          s3 = (if reply_rejected reply \<and> pk_correction p then s2\<lparr>appliedRoundingCorrection := False\<rparr> else s2)
      in updateStreamReceipt reply s3)"

definition paidFixedSend :: "payment \<Rightarrow> bool" where
  "paidFixedSend s \<longleftrightarrow> paymentType (quote s) = FixedSend \<and> amountSent s = maxSourceAmount (quote s)"

definition paidFixedDelivery :: "payment \<Rightarrow> bool" where
  "paidFixedDelivery s \<longleftrightarrow> paymentType (quote s) = FixedDelivery
     \<and> amountDelivered s \<ge> minDeliveryAmount (quote s) \<and> \<not> sourceAmountInFlight s > 0"

definition protocol_violation :: "packet_data \<Rightarrow> stream_reply \<Rightarrow> bool" where
  "protocol_violation p reply \<longleftrightarrow> reply_fulfilled reply
     \<and> (case reply_destinationAmount reply of None \<Rightarrow> True | Some n \<Rightarrow> n < pk_minDestination p)"

definition payment_reply :: "packet_data \<Rightarrow> stream_reply \<Rightarrow> payment \<Rightarrow> (packet_data, progress) send_state \<times> payment" where
  "payment_reply p reply s =
     (let s1 = account_reply p reply s
      in if protocol_violation p reply then (SError ReceiverProtocolViolation, s1)
         else if paidFixedSend s1 then (SDone (getProgress s1), s1)
         else if paidFixedDelivery s1 then (SDone (getProgress s1), s1)
         else
           let receiveMax = (case updateReceiveMax reply of
                               None \<Rightarrow> remoteReceiveMax s1
                             | Some m \<Rightarrow> Some (orGreater m (remoteReceiveMax s1)));
               s2 = s1\<lparr>remoteReceiveMax := receiveMax\<rparr>
           in if (case receiveMax of None \<Rightarrow> False | Some m \<Rightarrow> m < minDeliveryAmount (quote s2))
              then (SError IncompatibleReceiveMax, s2)
              else (SSchedule 0, s2))"

definition PaymentSender :: "(payment, packet_data, progress) sender" where
  "PaymentSender =
     \<lparr>controllers =
        [SequenceController, EstablishmentController, ExpiryController, FailureController, TimeoutController,
         MaxPacketAmountController, AssetDetailsController, PacingController, ExchangeRateController],
      nextState = payment_nextState,
      senderReply = payment_reply\<rparr>"

section \<open>What the controllers contribute\<close>

lemmas payment_defs = PaymentSender_def SequenceController_def EstablishmentController_def ExpiryController_def
  FailureController_def TimeoutController_def MaxPacketAmountController_def AssetDetailsController_def
  PacingController_def ExchangeRateController_def no_methods_def

lemma payment_controllers_inv: "list_all (\<lambda>c. stream_controller c pay_inv) (controllers PaymentSender)"
  by (simp add: PaymentSender_def pay_controllers)

lemma payment_requests:
  "apply_requests (controllers PaymentSender) now s =
     s\<lparr>counter := counter s + 1, deadline := (if deadline s = None then resetDeadline now else deadline s),
       pacer := pacer_request now (pacer s)\<rparr>"
  by (simp add: payment_defs)

lemma payment_replies:
  assumes "apply_replies (controllers PaymentSender) sent r now reply s = (e, s')"
  shows "quote s' = quote s" "amountSent s' = amountSent s" "amountDelivered s' = amountDelivered s"
    "sourceAmountInFlight s' = sourceAmountInFlight s" "destinationAmountInFlight s' = destinationAmountInFlight s"
    "counter s' = counter s" "pacer s' = pacer_reply sent now reply (pacer s)"
    "appliedRoundingCorrection s' = appliedRoundingCorrection s" "pay_inv s \<Longrightarrow> pay_inv s'"
proof -
  have "s' = snd (apply_replies (controllers PaymentSender) sent r now reply s)" using assms by simp
  then show "quote s' = quote s" "amountSent s' = amountSent s" "amountDelivered s' = amountDelivered s"
    "sourceAmountInFlight s' = sourceAmountInFlight s" "destinationAmountInFlight s' = destinationAmountInFlight s"
    "counter s' = counter s" "pacer s' = pacer_reply sent now reply (pacer s)"
    "appliedRoundingCorrection s' = appliedRoundingCorrection s"
    by (simp_all add: payment_defs split_beta Let_def)
  show "pay_inv s \<Longrightarrow> pay_inv s'"
    using apply_replies_inv [OF payment_controllers_inv, of s sent r now reply] assms by simp
qed

lemma payment_build:
  assumes "build_all (controllers PaymentSender) now s (RReady, new_request now) = (RReady, r)"
  shows "counter s < PACKET_LIMIT \<and> req_sequence r = counter s \<and> pacer_build now (pacer s) = RReady
    \<and> req_destinationAddress r = establishment_address s \<and> req_expiresAt r = now + DEFAULT_PACKET_EXPIRY_MS"
  using assms
  by (cases "pacer_build now (pacer s)"; auto simp: payment_defs sequence_build_def establishment_build_def timeout_build_def Let_def
      setSequence_def setDestinationAddress_def setExpiry_def addFrames_def new_request_def
      split: if_splits option.splits request_state.splits)

section \<open>The accounting invariant\<close>

definition quote_ok :: "quote \<Rightarrow> bool" where
  "quote_ok q \<longleftrightarrow> 0 < quote_maxPacketAmount q \<and> ratio_ok (minExchangeRate q)
     \<and> rate_inv \<lparr>lowerBoundRate = lowEstimatedExchangeRate q, upperBoundRate = highEstimatedExchangeRate q\<rparr>"

text \<open>A packet in flight: a positive 64-bit amount, and the minimum the receiver was told.\<close>

definition flight_ok :: "quote \<Rightarrow> nat \<Rightarrow> packet_data flight \<Rightarrow> bool" where
  "flight_ok q count f \<longleftrightarrow>
     0 < pk_source (fl_data f) \<and> pk_source (fl_data f) \<le> MAX_U64
     \<and> pk_minDestination (fl_data f) = minDestination (pk_correction (fl_data f)) (pk_source (fl_data f)) (minExchangeRate q)
     \<and> pk_minDestination (fl_data f) \<le> MAX_U64
     \<and> req_sourceAmount (fl_request f) = pk_source (fl_data f)
     \<and> req_minDestinationAmount (fl_request f) = pk_minDestination (fl_data f)
     \<and> isFulfillable (fl_request f) \<and> req_sequence (fl_request f) < count"

definition payment_inv :: "quote \<Rightarrow> payment \<Rightarrow> packet_data flight list \<Rightarrow> bool" where
  "payment_inv q s fl \<longleftrightarrow>
     quote s = q \<and> pay_inv s \<and> counter s \<le> PACKET_LIMIT
     \<and> sourceAmountInFlight s = sum_list (map (pk_source \<circ> fl_data) fl)
     \<and> destinationAmountInFlight s = sum_list (map (pk_highEnd \<circ> fl_data) fl)
     \<and> amountSent s + sourceAmountInFlight s \<le> maxSourceAmount q
     \<and> inFlightCount (pacer s) = int (length fl) \<and> int (length fl) \<le> MAX_INFLIGHT_PACKETS
     \<and> list_all (flight_ok q (counter s)) fl \<and> distinct (map (req_sequence \<circ> fl_request) fl)"

lemma payment_inv_new:
  assumes "quote_ok q" and "count \<le> PACKET_LIMIT"
  shows "payment_inv q (new_payment q address asset count) []"
  using assms max_packet_inv_new(2) pacer_inv_new
  by (simp add: payment_inv_def new_payment_def quote_ok_def pay_inv_def new_pacer_def MAX_INFLIGHT_PACKETS_def)

lemma multiplyCeil_pos: "0 < n \<Longrightarrow> 0 < ratio_a r \<Longrightarrow> 0 < ratio_b r \<Longrightarrow> 0 < multiplyCeil n r"
proof -
  assume "0 < n" "0 < ratio_a r" "0 < ratio_b r"
  then have "0 < n * ratio_a r" by simp
  then have "ratio_b r \<le> n * ratio_a r + ratio_b r - 1" by linarith
  then show ?thesis using \<open>0 < ratio_b r\<close> by (simp add: multiplyCeil_def divideCeil_def div_greater_zero_iff)
qed

lemma next_amount_bounds:
  assumes "pay_inv s" and "next_amount s = Inr (source, c)"
  shows "0 < source \<and> source \<le> availableToSend s \<and> source \<le> MAX_U64"
proof -
  have mp: "max_packet_inv (max_packet_ctl s)" and lo: "ratio_ok (lowerBoundRate (rate_ctl s))"
    using assms(1) by (auto simp: pay_inv_def rate_inv_def)
  have "0 < limit" if "estimateSourceAmount remaining (rate_ctl s) = Some (low, limit)" "0 < remaining" for remaining low limit
    using that lo by (auto simp: estimateSourceAmount_def ratio_reciprocal_def ratio_of_def ratio_ok_def
        multiplyCeil_pos split: if_splits)
  then show ?thesis using assms(2) probe_bounds [OF mp]
    by (cases "getNextMaxPacketAmount (max_packet_ctl s)")
      (auto simp: next_amount_def Let_def split: if_splits option.splits)
qed

text \<open>Either nothing changes, or exactly one packet is sent.\<close>

lemma payment_attempt:
  assumes "trySending PaymentSender now s = (st, f, s')" and "pay_inv s"
  shows "(f = None \<and> s' = s) \<or>
    (\<exists>r p. f = Some \<lparr>fl_request = r, fl_sentTime = now, fl_data = p\<rparr> \<and> st = SSchedule 0
      \<and> counter s < PACKET_LIMIT \<and> pacer_build now (pacer s) = RReady
      \<and> req_sequence r = counter s \<and> req_sourceAmount r = pk_source p
      \<and> req_minDestinationAmount r = pk_minDestination p \<and> isFulfillable r
      \<and> 0 < pk_source p \<and> pk_source p \<le> availableToSend s \<and> pk_source p \<le> MAX_U64
      \<and> pk_minDestination p = minDestination (pk_correction p) (pk_source p) (minExchangeRate (quote s))
      \<and> pk_minDestination p \<le> MAX_U64
      \<and> s' = apply_requests (controllers PaymentSender) now
          (s\<lparr>sourceAmountInFlight := sourceAmountInFlight s + pk_source p,
             destinationAmountInFlight := destinationAmountInFlight s + pk_highEnd p,
             appliedRoundingCorrection := pk_correction p\<rparr>))"
proof (cases "build_all (controllers PaymentSender) now s (RReady, new_request now)")
  case (Pair rs r)
  show ?thesis
  proof (cases rs)
    case RReady
    note b = payment_build [OF Pair [unfolded RReady]]
    have n: "nextState PaymentSender = payment_nextState" by (simp add: PaymentSender_def)
    show ?thesis
    proof (cases "next_amount s")
      case (Inl x)
      then show ?thesis using assms(1) Pair RReady
        by (cases x) (auto simp: trySending_def n payment_nextState_def next_amount_def Let_def
            split: if_splits option.splits)
    next
      case (Inr y)
      obtain source c where y: "y = (source, c)" by fastforce
      note na = next_amount_bounds [OF assms(2) Inr [unfolded y]]
      show ?thesis using assms(1) Pair RReady Inr y b na
        by (auto simp: trySending_def n payment_nextState_def estimateDestinationAmount_def Let_def
            addFrames_def enableFulfillment_def setMinDestinationAmount_def setSourceAmount_def split: if_splits)
    qed
  qed (use assms(1) Pair in \<open>auto simp: trySending_def\<close>)
qed

lemma updateStreamReceipt_fields [simp]:
  "quote (updateStreamReceipt reply s) = quote s" "counter (updateStreamReceipt reply s) = counter s"
  "pacer (updateStreamReceipt reply s) = pacer s" "pay_inv (updateStreamReceipt reply s) = pay_inv s"
  "sourceAmountInFlight (updateStreamReceipt reply s) = sourceAmountInFlight s"
  "destinationAmountInFlight (updateStreamReceipt reply s) = destinationAmountInFlight s"
  "amountSent (updateStreamReceipt reply s) = amountSent s"
  "amountDelivered (updateStreamReceipt reply s) = amountDelivered s"
  by (simp_all add: updateStreamReceipt_def Let_def pay_inv_def split: list.splits sum.splits)

lemma account_reply_fields:
  "quote (account_reply p reply s) = quote s" "counter (account_reply p reply s) = counter s"
  "pacer (account_reply p reply s) = pacer s" "pay_inv (account_reply p reply s) = pay_inv s"
  "sourceAmountInFlight (account_reply p reply s) = sourceAmountInFlight s - pk_source p"
  "destinationAmountInFlight (account_reply p reply s) = destinationAmountInFlight s - pk_highEnd p"
  "amountSent (account_reply p reply s) = amountSent s + (if reply_fulfilled reply then pk_source p else 0)"
  "amountDelivered (account_reply p reply s) = amountDelivered s
     + (if reply_fulfilled reply then orGreater (pk_minDestination p) (reply_destinationAmount reply) else 0)"
  by (simp_all add: account_reply_def Let_def) (simp_all add: pay_inv_def)

lemma payment_reply_state:
  assumes "payment_reply p reply s = (st, s')"
  shows "\<exists>m. s' = (account_reply p reply s)\<lparr>remoteReceiveMax := m\<rparr>"
proof -
  have same: "\<exists>m. t = t\<lparr>remoteReceiveMax := m\<rparr>" for t :: payment
    by (rule exI [of _ "remoteReceiveMax t"]) simp
  then show ?thesis using assms same [of "account_reply p reply s"]
    unfolding payment_reply_def Let_def by (auto split: if_splits)
qed

lemma payment_handleReply:
  assumes "handleReply PaymentSender now f reply s = (st, s')"
  shows "quote s' = quote s \<and> counter s' = counter s
    \<and> pacer s' = pacer_reply (fl_sentTime f) now reply (pacer s) \<and> (pay_inv s \<longrightarrow> pay_inv s')
    \<and> sourceAmountInFlight s' = sourceAmountInFlight s - pk_source (fl_data f)
    \<and> destinationAmountInFlight s' = destinationAmountInFlight s - pk_highEnd (fl_data f)
    \<and> amountSent s' = amountSent s + (if reply_fulfilled reply then pk_source (fl_data f) else 0)
    \<and> amountDelivered s' = amountDelivered s + (if reply_fulfilled reply
        then orGreater (pk_minDestination (fl_data f)) (reply_destinationAmount reply) else 0)"
proof -
  obtain e s1 where c: "apply_replies (controllers PaymentSender) (fl_sentTime f) (fl_request f) now reply s = (e, s1)"
    by fastforce
  obtain st' where r: "payment_reply (fl_data f) reply s1 = (st', s')"
    using assms c by (auto simp: handleReply_def PaymentSender_def split: prod.splits)
  then obtain m where m: "s' = (account_reply (fl_data f) reply s1)\<lparr>remoteReceiveMax := m\<rparr>"
    using payment_reply_state by blast
  have "pay_inv s' = pay_inv (account_reply (fl_data f) reply s1)" by (simp add: m pay_inv_def)
  then show ?thesis using payment_replies [OF c] account_reply_fields [of "fl_data f" reply s1]
    by (simp add: m)
qed

lemma flight_ok_mono: "flight_ok q n f \<Longrightarrow> n \<le> m \<Longrightarrow> flight_ok q m f"
  by (simp add: flight_ok_def)

lemma payment_attempt_inv:
  assumes inv: "payment_inv q s fl" and t: "trySending PaymentSender now s = (st, f, s')"
  shows "payment_inv q s' (fl @ (case f of None \<Rightarrow> [] | Some p \<Rightarrow> [p]))"
proof -
  have i: "pay_inv s" "quote s = q" using inv by (simp_all add: payment_inv_def)
  consider "f = None" "s' = s"
    | r p where "f = Some \<lparr>fl_request = r, fl_sentTime = now, fl_data = p\<rparr>" "counter s < PACKET_LIMIT"
      "pacer_build now (pacer s) = RReady" "req_sequence r = counter s"
      "flight_ok q (counter s + 1) \<lparr>fl_request = r, fl_sentTime = now, fl_data = p\<rparr>"
      "pk_source p \<le> availableToSend s"
      "s' = apply_requests (controllers PaymentSender) now
          (s\<lparr>sourceAmountInFlight := sourceAmountInFlight s + pk_source p,
             destinationAmountInFlight := destinationAmountInFlight s + pk_highEnd p,
             appliedRoundingCorrection := pk_correction p\<rparr>)"
    using payment_attempt [OF t i(1)] i(2) by (auto simp: flight_ok_def)
  then show ?thesis
  proof cases
    case 2
    have "pay_inv (s\<lparr>sourceAmountInFlight := sourceAmountInFlight s + pk_source p,
        destinationAmountInFlight := destinationAmountInFlight s + pk_highEnd p, appliedRoundingCorrection := pk_correction p\<rparr>)"
      using i(1) by (simp add: pay_inv_def)
    then have "pay_inv s'" unfolding 2(7) by (rule apply_requests_inv [OF payment_controllers_inv])
    moreover have "list_all (flight_ok q (counter s + 1)) fl"
      using inv flight_ok_mono by (auto simp: payment_inv_def list_all_iff)
    moreover have "counter s \<notin> set (map (req_sequence \<circ> fl_request) fl)"
      using inv by (auto simp: payment_inv_def list_all_iff flight_ok_def)
    moreover have "int (length fl) < MAX_INFLIGHT_PACKETS"
      using inv pacer_interval(2) [OF _ 2(3)] by (simp add: payment_inv_def pay_inv_def)
    moreover have "quote s' = quote s" "counter s' = counter s + 1" "amountSent s' = amountSent s"
      "sourceAmountInFlight s' = sourceAmountInFlight s + pk_source p"
      "destinationAmountInFlight s' = destinationAmountInFlight s + pk_highEnd p"
      "inFlightCount (pacer s') = inFlightCount (pacer s) + 1"
      by (simp_all add: 2(7) payment_requests pacer_request_def)
    ultimately show ?thesis using inv 2(1,2,4,5,6) by (auto simp: payment_inv_def availableToSend_def)
  qed (use inv in simp)
qed

lemma payment_reply_inv:
  assumes inv: "payment_inv q s fl" and i: "i < length fl"
    and h: "handleReply PaymentSender now (fl ! i) rep s = (st, s')"
  shows "payment_inv q s' (remove_at i fl)"
proof -
  note p = payment_handleReply [OF h] and r = remove_at_facts [OF i]
  have "sourceAmountInFlight s = pk_source (fl_data (fl ! i)) + sum_list (map (pk_source \<circ> fl_data) (remove_at i fl))"
    "destinationAmountInFlight s = pk_highEnd (fl_data (fl ! i)) + sum_list (map (pk_highEnd \<circ> fl_data) (remove_at i fl))"
    "list_all (flight_ok q (counter s)) (remove_at i fl)" "distinct (map (req_sequence \<circ> fl_request) (remove_at i fl))"
    "inFlightCount (pacer s) = 1 + int (length (remove_at i fl))" "int (length (remove_at i fl)) < MAX_INFLIGHT_PACKETS"
    "amountSent s + sourceAmountInFlight s \<le> maxSourceAmount q"
    using inv r(1) [of "pk_source \<circ> fl_data"] r(1) [of "pk_highEnd \<circ> fl_data"] r(2-4)
    by (auto simp: payment_inv_def)
  moreover have "inFlightCount (pacer s') = inFlightCount (pacer s) - 1"
    using p by (simp add: pacer_reply_def Let_def)
  ultimately show ?thesis using inv p by (auto simp: payment_inv_def)
qed

interpretation payment_loop: sender_invariant PaymentSender "payment_inv q" for q
  by unfold_locales (rule payment_attempt_inv payment_reply_inv; assumption)+

section \<open>Sample runs\<close>

lemmas run_simps = loop_attempt_def trySending_def payment_defs sequence_build_def establishment_build_def
  timeout_build_def pacer_build_def getNextPacketSendTime_def getPacketFrequency_def pacing_constants
  PACKET_LIMIT_def payment_nextState_def next_amount_def availableToSend_def remainingToDeliver_def
  getNextMaxPacketAmount_def estimateDestinationAmount_def minDestination_def multiplyCeil_def multiplyFloor_def
  divideCeil_def ratio_of_def resetDeadline_def MAX_DURATION_SINCE_LAST_FULFILL_def pacer_request_def
  estimateSourceAmount_def ratio_reciprocal_def new_max_packet_def new_pacer_def
  loop_reply_def handleReply_def failure_reply_def frames_of_def payment_reply_def account_reply_def
  updateStreamReceipt_def updateReceiveMax_def protocol_violation_def paidFixedSend_def paidFixedDelivery_def
  adjustPathCapacity_def getMaxPacketAmountLimit_def pacer_reply_def applyRate_def temporary_code_def
  ratio_isLessThanOrEqualTo_def ratio_isGreaterThanOrEqualTo_def ratio_isGreaterThan_def ratio_isLessThan_def
  createReject_def js_def remove_at_def start_loop_def new_payment_def Let_def map_filter_simps
  setSequence_def setDestinationAddress_def addFrames_def setExpiry_def DEFAULT_PACKET_EXPIRY_MS_def new_request_def
  setSourceAmount_def setMinDestinationAmount_def enableFulfillment_def getProgress_def

definition twice_quote :: quote where
  "twice_quote = \<lparr>paymentType = FixedSend, maxSourceAmount = 20, minDeliveryAmount = 19, quote_maxPacketAmount = 10,
     lowEstimatedExchangeRate = ratio_of 1 1, highEstimatedExchangeRate = ratio_of 2 1, minExchangeRate = ratio_of 1 1\<rparr>"

definition temporary_reject :: stream_reply where
  "temporary_reject = StreamReject (createReject (js ''T00'')) None None"

definition twice_events :: "loop_event list" where
  "twice_events = [Attempt 1000, Attempt 2000, Reply 2100 0 temporary_reject, Attempt 3000,
     Reply 3100 1 temporary_reject, Attempt 4000, Reply 4100 0 (StreamFulfill (Some []) (Some 9)),
     Reply 4200 0 (StreamFulfill (Some []) (Some 9))]"

definition twice_progress :: progress where
  "twice_progress = \<lparr>streamReceipt = None, pr_amountSent = 20, pr_amountDelivered = 18,
         pr_sourceAmountInFlight = 0, pr_destinationAmountInFlight = 0\<rparr>"

lemma twice_quote_ok: "quote_ok twice_quote"
  by (simp add: quote_ok_def twice_quote_def rate_inv_def)

lemma twice_run:
  "\<exists>l. run_events PaymentSender twice_events (start_loop (new_payment twice_quote [] None 0)) = Some l
     \<and> lp_result l = Some (Inr twice_progress)"
  by (simp add: run_simps twice_quote_def twice_events_def temporary_reject_def twice_progress_def)

lemma twice_reach:
  "\<exists>l. loop_reach PaymentSender (new_payment twice_quote [] None 0) l
     \<and> lp_result l = Some (Inr twice_progress)"
proof -
  obtain l where l: "run_events PaymentSender twice_events (start_loop (new_payment twice_quote [] None 0)) = Some l"
      "lp_result l = Some (Inr twice_progress)" using twice_run by (elim exE conjE)
  from run_events_reach [OF loop_reach.start l(1)] l(2) show ?thesis by (intro exI conjI)
qed

definition first_packet :: "(payment, packet_data, progress) loop" where
  "first_packet = loop_attempt PaymentSender 1000 (start_loop (new_payment twice_quote [] None 0))"

lemma first_packet_reach: "loop_reach PaymentSender (new_payment twice_quote [] None 0) first_packet"
  unfolding first_packet_def
  by (rule loop_reach.step [OF loop_reach.start]) (rule loop_step.attempt; simp add: start_loop_def)

lemma first_packet_flight:
  "map fl_data (lp_flight first_packet) = [\<lparr>pk_source = 10, pk_minDestination = 10, pk_highEnd = 19, pk_correction = False\<rparr>]"
  by (simp add: first_packet_def run_simps twice_quote_def)

section \<open>Properties of a payment\<close>

lemma payment_reach_inv:
  assumes "quote_ok q" and "count \<le> PACKET_LIMIT" and "loop_reach PaymentSender (new_payment q address asset count) l"
  shows "payment_inv q (lp_state l) (lp_flight l)"
  using payment_loop.reach_inv [OF assms(3) payment_inv_new [OF assms(1,2)]] .

text \<open>
  C3. A payment never spends more than quoted: in every state the send loop can reach, whatever
  replies arrive in whatever order, the amount fulfilled plus the amount of the packets in flight
  is at most the maximum source amount; the in-flight total is the sum over those packets, of
  which there are at most 20, each a positive 64-bit amount with a sequence number of its own
  below \<open>2\<^sup>3\<^sup>1\<close>.
\<close>

theorem payment_never_overpays:
  assumes "quote_ok q" and "count \<le> PACKET_LIMIT" and "loop_reach PaymentSender (new_payment q address asset count) l"
  shows "amountSent (lp_state l) + sum_list (map (pk_source \<circ> fl_data) (lp_flight l)) \<le> maxSourceAmount q
    \<and> sourceAmountInFlight (lp_state l) = sum_list (map (pk_source \<circ> fl_data) (lp_flight l))
    \<and> length (lp_flight l) \<le> 20 \<and> distinct (map (req_sequence \<circ> fl_request) (lp_flight l))
    \<and> list_all (\<lambda>f. 0 < req_sourceAmount (fl_request f) \<and> req_sourceAmount (fl_request f) < 2 ^ 64
         \<and> req_sequence (fl_request f) < 2 ^ 31) (lp_flight l)"
  using payment_reach_inv [OF assms]
  by (auto simp: payment_inv_def MAX_INFLIGHT_PACKETS_def PACKET_LIMIT_def flight_ok_def elim!: list.pred_mono_strong)

theorem payment_never_overpays_witness:
  "amountSent (lp_state first_packet) + sum_list (map (pk_source \<circ> fl_data) (lp_flight first_packet)) \<le> maxSourceAmount twice_quote
    \<and> sourceAmountInFlight (lp_state first_packet) = sum_list (map (pk_source \<circ> fl_data) (lp_flight first_packet))
    \<and> length (lp_flight first_packet) \<le> 20 \<and> distinct (map (req_sequence \<circ> fl_request) (lp_flight first_packet))
    \<and> list_all (\<lambda>f. 0 < req_sourceAmount (fl_request f) \<and> req_sourceAmount (fl_request f) < 2 ^ 64
         \<and> req_sequence (fl_request f) < 2 ^ 31) (lp_flight first_packet)"
  by (rule payment_never_overpays [OF twice_quote_ok _ first_packet_reach]) simp

text \<open>
  C6. The minimum rate is enforced on every packet: when a packet in flight is fulfilled, its
  source amount is counted as sent, and at least that amount at the minimum exchange rate is
  counted as delivered, less one source unit for a packet with the rounding correction. A rejected packet counts for nothing.
\<close>

theorem payment_rate_enforced:
  assumes "quote_ok q" and "count \<le> PACKET_LIMIT" and "loop_reach PaymentSender (new_payment q address asset count) l"
    and "i < length (lp_flight l)" and "handleReply PaymentSender now (lp_flight l ! i) reply (lp_state l) = (st, s')"
  shows "let p = fl_data (lp_flight l ! i)
     in if reply_fulfilled reply
        then amountSent s' = amountSent (lp_state l) + pk_source p
          \<and> of_nat (pk_source p - (if pk_correction p then 1 else 0)) * rat_of (minExchangeRate q)
              \<le> of_nat (amountDelivered s' - amountDelivered (lp_state l))
        else amountSent s' = amountSent (lp_state l) \<and> amountDelivered s' = amountDelivered (lp_state l)"
proof -
  let ?p = "fl_data (lp_flight l ! i)"
  have "flight_ok q (counter (lp_state l)) (lp_flight l ! i)"
    using payment_reach_inv [OF assms(1-3)] assms(4) by (simp add: payment_inv_def list_all_length)
  then have m: "pk_minDestination ?p = multiplyCeil (pk_source ?p - (if pk_correction ?p then 1 else 0)) (minExchangeRate q)"
    by (simp add: flight_ok_def minDestination_def)
  have ok: "ratio_ok (minExchangeRate q)" using assms(1) by (simp add: quote_ok_def)
  have "of_nat (pk_source ?p - (if pk_correction ?p then 1 else 0)) * rat_of (minExchangeRate q) \<le> of_nat (pk_minDestination ?p)"
    unfolding m by (rule multiplyCeil_ge [OF ok])
  moreover have "pk_minDestination ?p \<le> orGreater (pk_minDestination ?p) d" for d by (cases d) auto
  then have "(of_nat (pk_minDestination ?p) :: rat) \<le> of_nat (orGreater (pk_minDestination ?p) (reply_destinationAmount reply))"
    by (simp only: of_nat_le_iff)
  ultimately show ?thesis using payment_handleReply [OF assms(5)] by (simp add: Let_def)
qed

theorem payment_rate_enforced_witness:
  "amountSent (snd (handleReply PaymentSender 1100 (lp_flight first_packet ! 0) (StreamFulfill (Some []) (Some 12)) (lp_state first_packet)))
     = amountSent (lp_state first_packet) + pk_source (fl_data (lp_flight first_packet ! 0))"
proof -
  have "0 < length (lp_flight first_packet)" using first_packet_flight by (metis length_map length_greater_0_conv list.distinct(1))
  from payment_rate_enforced [OF twice_quote_ok _ first_packet_reach this surjective_pairing,
      of "StreamFulfill (Some []) (Some 12)" 1100]
  show ?thesis by (simp add: Let_def)
qed

lemma payment_reply_done:
  "payment_reply p reply s = (SDone v, s') \<Longrightarrow> v = getProgress s' \<and> (paidFixedSend s' \<or> paidFixedDelivery s')"
  by (auto simp: payment_reply_def Let_def split: if_splits)

lemma payment_handleReply_done:
  "handleReply PaymentSender now f reply s = (SDone v, s') \<Longrightarrow> v = getProgress s' \<and> (paidFixedSend s' \<or> paidFixedDelivery s')"
  by (auto simp: handleReply_def PaymentSender_def split: prod.splits option.splits dest!: payment_reply_done)

lemma payment_attempt_not_done:
  assumes "trySending PaymentSender now s = (SDone v, f, s')"
  shows False
proof -
  have "payment_nextState now s r \<noteq> (SDone v, s1, r1)" for r s1 r1
    by (auto simp: payment_nextState_def next_amount_def Let_def split: if_splits option.splits sum.splits prod.splits)
  moreover have "nextState PaymentSender = payment_nextState" by (simp add: PaymentSender_def)
  ultimately show False using assms
    by (auto simp: trySending_def split: prod.splits request_state.splits send_state.splits)
qed

lemma paid_no_flight:
  assumes "payment_inv q s fl" and "paidFixedSend s \<or> paidFixedDelivery s"
  shows "fl = []"
proof (rule ccontr)
  assume "fl \<noteq> []"
  then obtain f fl' where "fl = f # fl'" by (cases fl) auto
  then have "0 < sourceAmountInFlight s" using assms(1) by (simp add: payment_inv_def flight_ok_def)
  then show False using assms by (auto simp: payment_inv_def paidFixedSend_def paidFixedDelivery_def)
qed

lemma payment_done:
  assumes "quote_ok q" and "count \<le> PACKET_LIMIT" and "loop_reach PaymentSender (new_payment q address asset count) l"
    and "lp_result l = Some (Inr pr)"
  shows "lp_flight l = [] \<and> pr = getProgress (lp_state l) \<and> (paidFixedSend (lp_state l) \<or> paidFixedDelivery (lp_state l))"
  using assms(3,4)
proof (induction rule: loop_reach.induct)
  case (step l l')
  from step(2) show ?case
  proof cases
    case (attempt now)
    obtain st f s' where t: "trySending PaymentSender now (lp_state l) = (st, f, s')" by (metis prod_cases3)
    with payment_attempt_not_done have "\<forall>v. st \<noteq> SDone v" by blast
    then show ?thesis using step.prems attempt t by (cases st) (auto simp: loop_attempt_def)
  next
    case (reply i now rep)
    obtain st s' where h: "handleReply PaymentSender now (lp_flight l ! i) rep (lp_state l) = (st, s')" by fastforce
    have none: "lp_result l = None" using step reply h by (auto simp: loop_reply_def Let_def split: if_splits)
    then obtain v where v: "st = SDone v" and pr: "pr = v"
      using step.prems reply h by (cases st) (auto simp: loop_reply_def)
    have d: "v = getProgress s'" "paidFixedSend s' \<or> paidFixedDelivery s'"
      using payment_handleReply_done [OF h [unfolded v]] by auto
    have "remove_at i (lp_flight l) = []"
      using paid_no_flight [OF payment_reply_inv [OF payment_reach_inv [OF assms(1,2) step(1)] reply(2) h] d(2)] .
    then show ?thesis using reply h none v pr d by (simp add: loop_reply_def)
  qed
qed (simp add: start_loop_def)

text \<open>
  Success means what it says: when the loop ends without an error, nothing is in flight any
  more, the progress returned is that of the final state, and the target was met: a fixed-send
  payment has sent exactly its amount, a fixed-delivery payment has delivered at least its amount.
\<close>

theorem payment_success:
  assumes "quote_ok q" and "count \<le> PACKET_LIMIT" and "loop_reach PaymentSender (new_payment q address asset count) l"
    and "lp_result l = Some (Inr pr)"
  shows "lp_flight l = [] \<and> pr = getProgress (lp_state l)
    \<and> (case paymentType q of FixedSend \<Rightarrow> pr_amountSent pr = maxSourceAmount q
       | FixedDelivery \<Rightarrow> minDeliveryAmount q \<le> pr_amountDelivered pr)"
  using payment_done [OF assms] payment_reach_inv [OF assms(1-3)]
  by (auto simp: payment_inv_def paidFixedSend_def paidFixedDelivery_def getProgress_def split: PaymentType.splits)

theorem payment_success_witness:
  "\<exists>l pr. loop_reach PaymentSender (new_payment twice_quote [] None 0) l \<and> lp_flight l = [] \<and> pr = getProgress (lp_state l)
    \<and> pr_amountSent pr = maxSourceAmount twice_quote"
proof -
  obtain l where l: "loop_reach PaymentSender (new_payment twice_quote [] None 0) l"
      "lp_result l = Some (Inr twice_progress)" using twice_reach by (elim exE conjE)
  have "paymentType twice_quote = FixedSend" by (simp add: twice_quote_def)
  with payment_success [OF twice_quote_ok _ l] have "lp_flight l = []"
      "pr_amountSent (getProgress (lp_state l)) = maxSourceAmount twice_quote" by (auto dest: sym)
  with l(1) show ?thesis by (intro exI [of _ l] exI [of _ "getProgress (lp_state l)"]) simp
qed

section \<open>Where the guarantees end\<close>

text \<open>
  The one-unit rounding allowance can be used twice: the flag that remembers it is overwritten by a later packet
  without the correction. A fixed-send payment of 20 units at a minimum rate of one, quoted to
  deliver at least 19, then ends successfully with 18 units delivered although every reply
  respected the minimum of its packet.
\<close>

theorem rounding_correction_twice:
  "quote_ok twice_quote \<and> minDeliveryAmount twice_quote = 19
   \<and> (\<exists>l pr. loop_reach PaymentSender (new_payment twice_quote [] None 0) l
        \<and> lp_result l = Some (Inr pr) \<and> pr_amountSent pr = 20 \<and> pr_amountDelivered pr = 18)"
proof (intro conjI)
  obtain l where l: "loop_reach PaymentSender (new_payment twice_quote [] None 0) l"
      "lp_result l = Some (Inr twice_progress)" using twice_reach by (elim exE conjE)
  then show "\<exists>l pr. loop_reach PaymentSender (new_payment twice_quote [] None 0) l
        \<and> lp_result l = Some (Inr pr) \<and> pr_amountSent pr = 20 \<and> pr_amountDelivered pr = 18"
    by (intro exI [of _ l] exI [of _ twice_progress]) (simp add: twice_progress_def)
qed (simp_all add: twice_quote_ok, simp add: twice_quote_def)

definition stall_quote :: quote where
  "stall_quote = \<lparr>paymentType = FixedDelivery, maxSourceAmount = 7, minDeliveryAmount = 10, quote_maxPacketAmount = 100,
     lowEstimatedExchangeRate = ratio_of 3 2, highEstimatedExchangeRate = ratio_of 2 1, minExchangeRate = ratio_of 3 2\<rparr>"

lemma stall_run:
  "\<exists>l. run_events PaymentSender [Attempt 1000, Reply 1100 0 (StreamFulfill (Some []) (Some 9)), Attempt 2000, Attempt 2000]
        (start_loop (new_payment stall_quote [] None 0)) = Some l
     \<and> lp_result l = None \<and> lp_attempts l = 0 \<and> lp_flight l = [] \<and> amountSent (lp_state l) = 7 \<and> amountDelivered (lp_state l) = 9"
  by (simp add: run_simps stall_quote_def)

text \<open>
  A fixed-delivery payment can hang: its last packet spends the maximum source amount, is
  fulfilled at its minimum, and leaves the delivered amount one unit short. Nothing is in flight, no attempt is
  scheduled, and the loop neither ends nor takes another step.
\<close>

theorem fixed_delivery_can_stall:
  "quote_ok stall_quote \<and> (\<exists>l. loop_reach PaymentSender (new_payment stall_quote [] None 0) l
     \<and> lp_result l = None \<and> amountSent (lp_state l) = 7 \<and> amountDelivered (lp_state l) = 9
     \<and> \<not> (\<exists>l'. loop_step PaymentSender l l'))"
proof -
  obtain l where l: "loop_reach PaymentSender (new_payment stall_quote [] None 0) l" "lp_result l = None" "lp_attempts l = 0"
      "lp_flight l = []" "amountSent (lp_state l) = 7" "amountDelivered (lp_state l) = 9"
    using stall_run by (elim exE conjE) (rule that, rule run_events_reach [OF loop_reach.start])
  then have "\<not> (\<exists>l'. loop_step PaymentSender l l')" by (simp add: loop_step_iff)
  moreover have "quote_ok stall_quote" by (simp add: quote_ok_def stall_quote_def rate_inv_def)
  ultimately show ?thesis using l by blast
qed

end
