(* ===== verification/Pay_Probes.thy ===== *)
theory Pay_Probes
  imports Stream_Sender
begin

text \<open>
  \<^verbatim>\<open>pay/src/senders/rate-probe.ts\<close>, \<^verbatim>\<open>asset-probe.ts\<close> and \<^verbatim>\<open>connection-closer.ts\<close>: the senders that run before
  and after a payment. The rate probe discovers the maximum packet amount and the exchange rate
  with packets that cannot be fulfilled.
\<close>

section \<open>Rate probe\<close>

record ProbeResult =
  probe_maxPacketAmount :: pint
  probe_lowRate :: ratio
  probe_highRate :: ratio

record rate_probe = pay_state +
  remainingTestAmounts :: "pint list"
  inFlightAmounts :: "pint set"
  probe_deadline :: "time option"

definition RATE_PROBE_TIMEOUT :: int where
  "RATE_PROBE_TIMEOUT = 10000"

definition test_amounts :: "pint list" where
  "test_amounts = [0, 10 ^ 12, 10 ^ 11, 10 ^ 10, 10 ^ 9, 10 ^ 8, 10 ^ 7, 10 ^ 6, 10 ^ 5, 10 ^ 4, 10 ^ 3]"

definition new_rate_probe :: "jsstring \<Rightarrow> asset_details option \<Rightarrow> nat \<Rightarrow> rate_probe" where
  "new_rate_probe address asset count =
     \<lparr>counter = count, establishment_address = address, isConnected = False, deadline = None,
      max_packet_ctl = new_max_packet None, destinationAsset = asset, pacer = new_pacer, rate_ctl = new_exchange_rate,
      remainingTestAmounts = test_amounts, inFlightAmounts = {}, probe_deadline = None\<rparr>"

text \<open>The deadline is set at the first attempt. After it is checked, the next test amount is taken off the list even if it is not sent.\<close>

definition rate_probe_nextState ::
  "time \<Rightarrow> rate_probe \<Rightarrow> stream_request \<Rightarrow> (pint, ProbeResult) send_state \<times> rate_probe \<times> stream_request" where
  "rate_probe_nextState now s r =
     (let expired = (case probe_deadline s of None \<Rightarrow> False | Some t \<Rightarrow> now > t);
          s1 = (if probe_deadline s = None then s\<lparr>probe_deadline := Some (now + RATE_PROBE_TIMEOUT)\<rparr> else s)
      in if expired then (SError RateProbeFailed, s1, r)
         else case remainingTestAmounts s1 of
                [] \<Rightarrow> (SYield, s1, r)
              | probeAmount # rest \<Rightarrow>
                  let s2 = s1\<lparr>remainingTestAmounts := rest\<rparr>
                  in if probeAmount \<in> inFlightAmounts s2 then (SYield, s2, r)
                     else (SSend probeAmount,
                           s2\<lparr>inFlightAmounts := insert probeAmount (inFlightAmounts s2)\<rparr>,
                           setSourceAmount probeAmount r))"

definition rate_probe_reply :: "pint \<Rightarrow> stream_reply \<Rightarrow> rate_probe \<Rightarrow> (pint, ProbeResult) send_state \<times> rate_probe" where
  "rate_probe_reply probeAmount reply s =
     (let s1 = s\<lparr>inFlightAmounts := inFlightAmounts s - {probeAmount}\<rparr>;
          nextProbeAmount = (case getNextMaxPacketAmount (max_packet_ctl s1) of None \<Rightarrow> probeAmount | Some n \<Rightarrow> n);
          s2 = (if nextProbeAmount \<notin> set (remainingTestAmounts s1)
                then s1\<lparr>remainingTestAmounts := remainingTestAmounts s1 @ [nextProbeAmount]\<rparr> else s1)
      in (if isProbeComplete (max_packet_ctl s2)
          then SDone \<lparr>probe_maxPacketAmount = getMaxPacketAmountLimit (max_packet_ctl s2),
                      probe_lowRate = lowerBoundRate (rate_ctl s2), probe_highRate = upperBoundRate (rate_ctl s2)\<rparr>
          else SSchedule 0, s2))"

definition RateProbe :: "(rate_probe, pint, ProbeResult) sender" where
  "RateProbe =
     \<lparr>controllers =
        [SequenceController, EstablishmentController, ExpiryController, FailureController,
         MaxPacketAmountController, AssetDetailsController, PacingController, ExchangeRateController],
      nextState = rate_probe_nextState,
      senderReply = rate_probe_reply\<rparr>"

section \<open>Asset probe\<close>

record asset_probe = pay_state +
  requestCount :: nat
  replyCount :: nat

definition new_asset_probe :: "jsstring \<Rightarrow> asset_details option \<Rightarrow> nat \<Rightarrow> asset_probe" where
  "new_asset_probe address asset count =
     \<lparr>counter = count, establishment_address = address, isConnected = False, deadline = None,
      max_packet_ctl = new_max_packet None, destinationAsset = asset, pacer = new_pacer, rate_ctl = new_exchange_rate,
      requestCount = 0, replyCount = 0\<rparr>"

fun join_dots :: "jsstring list \<Rightarrow> jsstring" where
  "join_dots [] = []"
| "join_dots [s] = s"
| "join_dots (s # t # ss) = s @ dot # join_dots (t # ss)"

definition dummy_address :: "jsstring \<Rightarrow> jsstring" where
  "dummy_address address =
     (let segments = split_on dot address
      in take 1023 (join_dots (butlast segments @ [js ''_''] @ [last segments])))"

definition asset_probe_nextState ::
  "time \<Rightarrow> asset_probe \<Rightarrow> stream_request \<Rightarrow> (unit, asset_details) send_state \<times> asset_probe \<times> stream_request" where
  "asset_probe_nextState now s r =
     (case destinationAsset s of
        Some asset \<Rightarrow> (SDone asset, s, r)
      | None \<Rightarrow>
          if requestCount s = 0 then
            (SSend (), s\<lparr>requestCount := requestCount s + 1\<rparr>, addFrames [ConnectionNewAddress []] r)
          else if requestCount s = 1 then
            (SSend (), s\<lparr>requestCount := requestCount s + 1\<rparr>,
             setDestinationAddress (dummy_address (req_destinationAddress r))
               (addFrames [ConnectionNewAddress (js ''private.SEND_ONLY_CLIENT'')] r))
          else (SYield, s, r))"

definition asset_probe_reply :: "unit \<Rightarrow> stream_reply \<Rightarrow> asset_probe \<Rightarrow> (unit, asset_details) send_state \<times> asset_probe" where
  "asset_probe_reply u reply s =
     (let s1 = s\<lparr>replyCount := replyCount s + 1\<rparr>
      in (if replyCount s1 = 1 then SYield
          else if \<not> isConnected s1 then SError EstablishmentFailed
          else case destinationAsset s1 of None \<Rightarrow> SError UnknownDestinationAsset | Some asset \<Rightarrow> SDone asset, s1))"

definition AssetProbe :: "(asset_probe, unit, asset_details) sender" where
  "AssetProbe =
     \<lparr>controllers = [SequenceController, EstablishmentController, ExpiryController, AssetDetailsController],
      nextState = asset_probe_nextState,
      senderReply = asset_probe_reply\<rparr>"

section \<open>Closing a connection\<close>

record closer = pay_state +
  sentCloseFrame :: bool

definition closer_nextState :: "time \<Rightarrow> closer \<Rightarrow> stream_request \<Rightarrow> (unit, unit) send_state \<times> closer \<times> stream_request" where
  "closer_nextState now s r =
     (if sentCloseFrame s then (SYield, s, r)
      else (SSend (), s\<lparr>sentCloseFrame := True\<rparr>, addFrames [ConnectionClose 1 []] r))"

definition ConnectionCloser :: "(closer, unit, unit) sender" where
  "ConnectionCloser =
     \<lparr>controllers = [SequenceController, EstablishmentController, ExpiryController],
      nextState = closer_nextState,
      senderReply = (\<lambda>u reply s. (SDone (), s))\<rparr>"

section \<open>What the rate probe returns\<close>

lemmas probe_defs = RateProbe_def SequenceController_def EstablishmentController_def ExpiryController_def
  FailureController_def MaxPacketAmountController_def AssetDetailsController_def
  PacingController_def ExchangeRateController_def no_methods_def

lemma rate_probe_controllers: "list_all (\<lambda>c. stream_controller c pay_inv) (controllers RateProbe)"
  by (simp add: RateProbe_def pay_controllers)

definition probe_inv :: "rate_probe \<Rightarrow> pint flight list \<Rightarrow> bool" where
  "probe_inv s fl \<longleftrightarrow> pay_inv s
     \<and> list_all (\<lambda>f. req_sourceAmount (fl_request f) = fl_data f \<and> \<not> isFulfillable (fl_request f)) fl"

lemma probe_inv_new: "probe_inv (new_rate_probe address asset count) []"
  using max_packet_inv_new(1) pacer_inv_new rate_inv_new
  by (simp add: probe_inv_def new_rate_probe_def pay_inv_def)

lemma rate_probe_build:
  assumes "build_all (controllers RateProbe) now s (RReady, new_request now) = (RReady, r)"
  shows "\<not> isFulfillable r"
  using assms
  by (cases "pacer_build now (pacer s)"; auto simp: probe_defs sequence_build_def establishment_build_def Let_def
      setSequence_def setDestinationAddress_def setExpiry_def addFrames_def new_request_def
      split: if_splits request_state.splits)

lemma rate_probe_nextState_facts:
  assumes "rate_probe_nextState now s r = (st, s', r')"
  shows "pay_inv s' = pay_inv s \<and> (\<forall>v. st \<noteq> SDone v)
    \<and> (\<forall>n. st = SSend n \<longrightarrow> r' = setSourceAmount n r)"
  using assms
  by (auto simp: rate_probe_nextState_def Let_def pay_inv_def split: if_splits list.splits option.splits)

lemma rate_probe_attempt:
  assumes "trySending RateProbe now s = (st, f, s')" and "pay_inv s"
  shows "pay_inv s' \<and> (\<forall>v. st \<noteq> SDone v)
    \<and> (\<forall>g. f = Some g \<longrightarrow> req_sourceAmount (fl_request g) = fl_data g \<and> \<not> isFulfillable (fl_request g))"
proof (cases "build_all (controllers RateProbe) now s (RReady, new_request now)")
  case (Pair rs r)
  have n: "nextState RateProbe = rate_probe_nextState" by (simp add: RateProbe_def)
  obtain st1 s1 r1 where x: "rate_probe_nextState now s r = (st1, s1, r1)" by (metis prod_cases3)
  show ?thesis using assms Pair x rate_probe_nextState_facts [OF x] rate_probe_build [of now s r]
      apply_requests_inv [OF rate_probe_controllers, of s1 now]
    by (cases rs; cases st1) (auto simp: trySending_def n setSourceAmount_def)
qed

lemma rate_probe_handleReply:
  assumes "handleReply RateProbe now f reply s = (st, s')" and "pay_inv s"
  shows "pay_inv s' \<and> (\<forall>v. st = SDone v \<longrightarrow> isProbeComplete (max_packet_ctl s')
    \<and> v = \<lparr>probe_maxPacketAmount = getMaxPacketAmountLimit (max_packet_ctl s'),
            probe_lowRate = lowerBoundRate (rate_ctl s'), probe_highRate = upperBoundRate (rate_ctl s')\<rparr>)"
proof -
  obtain e s1 where c: "apply_replies (controllers RateProbe) (fl_sentTime f) (fl_request f) now reply s = (e, s1)"
    by fastforce
  have "pay_inv s1" using apply_replies_inv [OF rate_probe_controllers assms(2)] c by (metis snd_conv)
  moreover obtain st' where r: "rate_probe_reply (fl_data f) reply s1 = (st', s')" "st = (case e of Some er \<Rightarrow> SError er | None \<Rightarrow> st')"
    using assms(1) c by (auto simp: handleReply_def RateProbe_def split: prod.splits)
  ultimately show ?thesis
    by (auto simp: rate_probe_reply_def Let_def pay_inv_def split: if_splits option.splits)
qed

interpretation probe_loop: sender_invariant RateProbe probe_inv
proof
  fix s fl now st f s'
  assume "probe_inv s fl" "trySending RateProbe now s = (st, f, s')"
  then show "probe_inv s' (fl @ (case f of None \<Rightarrow> [] | Some p \<Rightarrow> [p]))"
    using rate_probe_attempt [of now s st f s'] by (auto simp: probe_inv_def split: option.splits)
next
  fix s fl i now rep st s'
  assume "probe_inv s fl" "i < length fl" "handleReply RateProbe now (fl ! i) rep s = (st, s')"
  then show "probe_inv s' (remove_at i fl)"
    using rate_probe_handleReply [of now "fl ! i" rep s st s'] remove_at_facts(3) [of i fl] by (auto simp: probe_inv_def)
qed

lemma rate_probe_result:
  assumes "loop_reach RateProbe (new_rate_probe address asset count) l" "lp_result l = Some (Inr pr)"
  shows "0 < probe_maxPacketAmount pr \<and> rate_inv \<lparr>lowerBoundRate = probe_lowRate pr, upperBoundRate = probe_highRate pr\<rparr>"
proof (rule probe_loop.reach_result [OF assms(1) probe_inv_new _ _ assms(2)])
  fix s fl now f s' v
  assume "probe_inv s fl" "trySending RateProbe now s = (SDone v, f, s')"
  then show "0 < probe_maxPacketAmount v \<and> rate_inv \<lparr>lowerBoundRate = probe_lowRate v, upperBoundRate = probe_highRate v\<rparr>"
    using rate_probe_attempt [of now s "SDone v" f s'] by (simp add: probe_inv_def)
next
  fix s fl now i rep s' v
  assume "probe_inv s fl" "handleReply RateProbe now (fl ! i) rep s = (SDone v, s')"
  then show "0 < probe_maxPacketAmount v \<and> rate_inv \<lparr>lowerBoundRate = probe_lowRate v, upperBoundRate = probe_highRate v\<rparr>"
    using rate_probe_handleReply [of now "fl ! i" rep s "SDone v" s']
    by (auto simp: probe_inv_def pay_inv_def max_packet_inv_def rate_inv_def)
qed

text \<open>
  The rate probe is safe and its result usable: no packet it has in flight can be fulfilled,
  so probing moves no money; and the result it finishes with has a positive maximum packet
  amount and an ordered pair of rate bounds with positive denominators, as a payment requires.
\<close>

theorem rate_probe_sound:
  assumes "loop_reach RateProbe (new_rate_probe address asset count) l"
  shows "list_all (\<lambda>f. \<not> isFulfillable (fl_request f)) (lp_flight l)
    \<and> (\<forall>pr. lp_result l = Some (Inr pr) \<longrightarrow> 0 < probe_maxPacketAmount pr
        \<and> rate_inv \<lparr>lowerBoundRate = probe_lowRate pr, upperBoundRate = probe_highRate pr\<rparr>)"
  using probe_loop.reach_inv [OF assms probe_inv_new] rate_probe_result [OF assms]
  by (auto simp: probe_inv_def elim: list.pred_mono_strong)

lemma sample_probe:
  "\<exists>l. run_events RateProbe [Attempt 1000, Attempt 2000,
        Reply 2100 1 (StreamReject (createReject (js ''F99'')) (Some []) (Some 5))]
        (start_loop (new_rate_probe [] None 0)) = Some l
     \<and> lp_result l = Some (Inr \<lparr>probe_maxPacketAmount = MAX_U64, probe_lowRate = ratio_of 5 (10 ^ 12),
         probe_highRate = ratio_of 6 (10 ^ 12)\<rparr>)"
  by (simp add: probe_defs loop_attempt_def loop_reply_def trySending_def handleReply_def start_loop_def
      new_rate_probe_def test_amounts_def sequence_build_def PACKET_LIMIT_def establishment_build_def
      rate_probe_nextState_def rate_probe_reply_def RATE_PROBE_TIMEOUT_def pacer_build_def getNextPacketSendTime_def
      getPacketFrequency_def pacing_constants new_pacer_def pacer_request_def pacer_reply_def temporary_code_def
      createReject_def js_def failure_reply_def frames_of_def adjustPathCapacity_def getMaxPacketAmountLimit_def
      getNextMaxPacketAmount_def isProbeComplete_def MAX_PROBE_AMOUNT_def new_max_packet_def new_exchange_rate_def
      applyRate_def ratio_of_def ratio_isLessThanOrEqualTo_def ratio_isGreaterThanOrEqualTo_def
      ratio_isGreaterThan_def ratio_isLessThan_def new_request_def setSequence_def setDestinationAddress_def
      setExpiry_def addFrames_def setSourceAmount_def Let_def)

theorem rate_probe_sound_witness:
  "\<exists>l pr. loop_reach RateProbe (new_rate_probe [] None 0) l \<and> lp_result l = Some (Inr pr)
     \<and> 0 < probe_maxPacketAmount pr \<and> rate_inv \<lparr>lowerBoundRate = probe_lowRate pr, upperBoundRate = probe_highRate pr\<rparr>"
proof -
  obtain l pr where l: "loop_reach RateProbe (new_rate_probe [] None 0) l" "lp_result l = Some (Inr pr)"
    using sample_probe by (elim exE conjE) (rule that, rule run_events_reach [OF loop_reach.start])
  with rate_probe_sound [OF l(1)] show ?thesis by blast
qed

section \<open>The asset probe ends\<close>

lemma asset_probe_controllers:
  "snd (apply_replies (controllers AssetProbe) sent r now reply s) =
     s\<lparr>isConnected := isConnected s \<or> isAuthentic reply,
       destinationAsset := snd (asset_loop (asset_frames (frames_of reply)) (destinationAsset s))\<rparr>"
  "apply_requests (controllers AssetProbe) now s = s\<lparr>counter := counter s + 1\<rparr>"
  by (simp_all add: AssetProbe_def SequenceController_def EstablishmentController_def ExpiryController_def
      AssetDetailsController_def no_methods_def split_beta Let_def)

lemma asset_probe_build:
  "fst (build_all (controllers AssetProbe) now s (RReady, r)) =
     (if counter s \<ge> PACKET_LIMIT then RError MaxSafeEncryptionLimit else RReady)"
  by (simp add: AssetProbe_def SequenceController_def EstablishmentController_def ExpiryController_def
      AssetDetailsController_def no_methods_def sequence_build_def establishment_build_def Let_def)

text \<open>An attempt ends the loop, sends one of the two requests, or yields once both were sent.\<close>

lemma asset_probe_attempt:
  assumes "trySending AssetProbe now s = (st, f, s')"
  shows "(f = None \<and> s' = s \<and> ((\<exists>e. st = SError e) \<or> (\<exists>v. st = SDone v) \<or> (st = SYield \<and> 2 \<le> requestCount s)))
    \<or> (\<exists>g. f = Some g \<and> st = SSchedule 0 \<and> requestCount s < 2
        \<and> requestCount s' = requestCount s + 1 \<and> replyCount s' = replyCount s)"
proof -
  obtain rs r where b: "build_all (controllers AssetProbe) now s (RReady, new_request now) = (rs, r)" by fastforce
  have rs: "rs = RReady \<or> rs = RError MaxSafeEncryptionLimit"
    using asset_probe_build [of now s "new_request now"] b by (auto split: if_splits)
  have n: "nextState AssetProbe = asset_probe_nextState" by (simp add: AssetProbe_def)
  have rest: "2 \<le> requestCount s" if "requestCount s \<noteq> 0" "requestCount s \<noteq> 1" using that by linarith
  show ?thesis
  proof (cases "rs = RReady")
    case True
    show ?thesis
    proof (cases "destinationAsset s")
      case None
      show ?thesis using assms True b None rest
        by (cases "requestCount s = 0"; cases "requestCount s = 1")
          (simp_all add: trySending_def n asset_probe_nextState_def asset_probe_controllers(2), auto)
    qed (use assms True b in \<open>auto simp: trySending_def n asset_probe_nextState_def\<close>)
  qed (use assms rs b in \<open>auto simp: trySending_def\<close>)
qed

lemma asset_probe_handleReply:
  assumes "handleReply AssetProbe now f reply s = (st, s')"
  shows "requestCount s' = requestCount s \<and> replyCount s' = replyCount s + 1 \<and> (\<forall>d. st \<noteq> SSchedule d)
    \<and> (st = SYield \<longrightarrow> replyCount s = 0) \<and> (\<forall>u. st \<noteq> SSend u)"
proof -
  obtain e s1 where c: "apply_replies (controllers AssetProbe) (fl_sentTime f) (fl_request f) now reply s = (e, s1)"
    by fastforce
  then have s1: "requestCount s1 = requestCount s" "replyCount s1 = replyCount s"
    using asset_probe_controllers(1) [of "fl_sentTime f" "fl_request f" now reply s] by auto
  show ?thesis using assms c s1
    by (auto simp: handleReply_def AssetProbe_def asset_probe_reply_def Let_def split: prod.splits option.splits if_splits)
qed

definition probe_measure :: "(asset_probe, unit, asset_details) loop \<Rightarrow> nat" where
  "probe_measure l = 3 * (2 - requestCount (lp_state l)) + lp_attempts l + length (lp_flight l)"

lemma asset_probe_decreases: "loop_step AssetProbe l l' \<Longrightarrow> probe_measure l' < probe_measure l"
proof (induction rule: loop_step.induct)
  case (attempt l now)
  obtain st f s' where t: "trySending AssetProbe now (lp_state l) = (st, f, s')" by (metis prod_cases3)
  show ?case using asset_probe_attempt [OF t] t attempt
    by (auto simp: loop_attempt_def probe_measure_def)
next
  case (reply i l now rep)
  obtain st s' where h: "handleReply AssetProbe now (lp_flight l ! i) rep (lp_state l) = (st, s')" by fastforce
  have "length (lp_flight l) = Suc (length (remove_at i (lp_flight l)))" using remove_at_facts(2) [OF reply] .
  then show ?case using asset_probe_handleReply [OF h] h
    by (cases st) (auto simp: loop_reply_def probe_measure_def Let_def)
qed

definition asset_probe_live :: "(asset_probe, unit, asset_details) loop \<Rightarrow> bool" where
  "asset_probe_live l \<longleftrightarrow> requestCount (lp_state l) = replyCount (lp_state l) + length (lp_flight l)
     \<and> (lp_result l = None \<longrightarrow> replyCount (lp_state l) < 2 \<and> (0 < lp_attempts l \<or> 2 \<le> requestCount (lp_state l)))"

lemma asset_probe_live_step: "loop_step AssetProbe l l' \<Longrightarrow> asset_probe_live l \<Longrightarrow> asset_probe_live l'"
proof (induction rule: loop_step.induct)
  case (attempt l now)
  obtain st f s' where t: "trySending AssetProbe now (lp_state l) = (st, f, s')" by (metis prod_cases3)
  show ?case using asset_probe_attempt [OF t] t attempt
    by (auto simp: loop_attempt_def asset_probe_live_def)
next
  case (reply i l now rep)
  obtain st s' where h: "handleReply AssetProbe now (lp_flight l ! i) rep (lp_state l) = (st, s')" by fastforce
  have "length (lp_flight l) = Suc (length (remove_at i (lp_flight l)))" using remove_at_facts(2) [OF reply(1)] .
  then show ?case using asset_probe_handleReply [OF h] h reply(2)
    by (cases st) (auto simp: loop_reply_def asset_probe_live_def Let_def)
qed

lemma asset_probe_reach_live: "loop_reach AssetProbe (new_asset_probe address asset count) l \<Longrightarrow> asset_probe_live l"
proof (induction rule: loop_reach.induct)
  case start
  show ?case by (simp add: asset_probe_live_def start_loop_def new_asset_probe_def)
next
  case (step l l')
  then show ?case using asset_probe_live_step by blast
qed

text \<open>
  C36. The asset probe always ends with a result: no run of its send loop is infinite, whatever
  replies arrive, and a reachable state in which the loop cannot take another step has one.
\<close>

theorem asset_probe_terminates:
  "wf {(l', l). loop_step AssetProbe l l'}
   \<and> (loop_reach AssetProbe (new_asset_probe address asset count) l \<and> \<not> (\<exists>l'. loop_step AssetProbe l l')
      \<longrightarrow> lp_result l \<noteq> None)"
proof
  have "{(l', l). loop_step AssetProbe l l'} \<subseteq> measure probe_measure" using asset_probe_decreases by auto
  then show "wf {(l', l). loop_step AssetProbe l l'}" by (rule wf_subset [OF wf_measure])
  show "loop_reach AssetProbe (new_asset_probe address asset count) l \<and> \<not> (\<exists>l'. loop_step AssetProbe l l') \<longrightarrow> lp_result l \<noteq> None"
  proof (intro impI notI)
    assume a: "loop_reach AssetProbe (new_asset_probe address asset count) l \<and> \<not> (\<exists>l'. loop_step AssetProbe l l')"
      and none: "lp_result l = None"
    have "lp_attempts l = 0" "lp_flight l = []"
      using a none loop_step.attempt [of l AssetProbe] loop_step.reply [of 0 l AssetProbe] by (cases "lp_flight l"; auto)+
    then show False using asset_probe_reach_live [of address asset count l] a none by (auto simp: asset_probe_live_def)
  qed
qed

lemma sample_known_asset:
  "\<exists>l. run_events AssetProbe [Attempt 1000] (start_loop (new_asset_probe [] (Some \<lparr>asset_code = [], asset_scale = 2\<rparr>) 0)) = Some l
     \<and> lp_attempts l = 0 \<and> lp_flight l = []"
  by (simp add: loop_attempt_def trySending_def start_loop_def new_asset_probe_def AssetProbe_def SequenceController_def
      EstablishmentController_def ExpiryController_def AssetDetailsController_def no_methods_def sequence_build_def
      establishment_build_def PACKET_LIMIT_def asset_probe_nextState_def Let_def)

theorem asset_probe_terminates_witness:
  "\<exists>l. loop_reach AssetProbe (new_asset_probe [] (Some \<lparr>asset_code = [], asset_scale = 2\<rparr>) 0) l \<and> lp_result l \<noteq> None"
proof -
  obtain l where l: "loop_reach AssetProbe (new_asset_probe [] (Some \<lparr>asset_code = [], asset_scale = 2\<rparr>) 0) l"
      "lp_attempts l = 0" "lp_flight l = []"
    using sample_known_asset by (elim exE conjE) (rule that, rule run_events_reach [OF loop_reach.start])
  then have "\<not> (\<exists>l'. loop_step AssetProbe l l')" by (simp add: loop_step_iff)
  with l(1) asset_probe_terminates show ?thesis by blast
qed

end
