(* ===== verification/Pay_Quote.thy ===== *)
theory Pay_Quote
  imports Payment_Sender Pay_Probes
begin

text \<open>
  \<^verbatim>\<open>pay/src/index.ts\<close>: \<open>startQuote\<close> and \<open>pay\<close>.

  The steps of \<open>startQuote\<close> before the rate probe are \<open>quote_target\<close> (what to pay) and \<open>check_prices\<close>
  (whether a minimum rate can be computed); the step after it is \<open>finish_quote\<close>. The minimum rate
  itself is computed in floating point and turned into a \<open>Ratio\<close> by a decimal search; it is an
  argument here, and \<open>Pay_Rate\<close> computes it. The lookup of the destination
  (\<open>setupPayment\<close>) is in \<open>Open_Payments\<close>.
\<close>

section \<open>The target of a payment\<close>

datatype amount_option = IntAmount pint | BigintAmount int | StringAmount jsstring | NumberAmount jsnum

fun Int_from :: "amount_option \<Rightarrow> pint option" where
  "Int_from (IntAmount n) = Some n"
| "Int_from (BigintAmount n) = Int_fromBigint n"
| "Int_from (StringAmount s) = Int_fromString s"
| "Int_from (NumberAmount n) = Int_fromNumber n"

text \<open>The fields of a resolved Incoming Payment that matter; amounts are unsigned 64-bit values of the receiver.\<close>

record incoming_payment =
  ip_completed :: bool
  ip_expiresAt :: "time option"
  ip_incomingAmount :: "int option"
  ip_receivedAmount :: int

record quote_options =
  destinationPaymentDetails :: "incoming_payment option"
  amountToSend :: "amount_option option"
  amountToDeliver :: "amount_option option"

definition positive_or :: "PaymentError \<Rightarrow> pint option \<Rightarrow> PaymentError + pint" where
  "positive_or e a = (case a of None \<Rightarrow> Inl e | Some n \<Rightarrow> if n > 0 then Inr n else Inl e)"

definition incoming_state :: "time \<Rightarrow> quote_options \<Rightarrow> PaymentError option" where
  "incoming_state now opts =
     (case destinationPaymentDetails opts of
        None \<Rightarrow> None
      | Some d \<Rightarrow>
          if ip_completed d then Some IncomingPaymentCompleted
          else case ip_expiresAt d of
                 Some t \<Rightarrow> if t \<noteq> 0 \<and> t \<le> now then Some IncomingPaymentExpired else None
               | None \<Rightarrow> None)"

definition quote_target :: "time \<Rightarrow> quote_options \<Rightarrow> PaymentError + (PaymentType \<times> pint)" where
  "quote_target now opts =
     (case incoming_state now opts of
        Some e \<Rightarrow> Inl e
      | None \<Rightarrow>
          (case (destinationPaymentDetails opts, Option.bind (destinationPaymentDetails opts) ip_incomingAmount) of
             (Some d, Some incoming) \<Rightarrow>
               ebind (positive_or IncomingPaymentCompleted (Int_fromBigint (incoming - ip_receivedAmount d)))
                 (\<lambda>n. Inr (FixedDelivery, n))
           | _ \<Rightarrow>
               (case amountToDeliver opts of
                  Some a \<Rightarrow> ebind (positive_or InvalidDestinationAmount (Int_from a)) (\<lambda>n. Inr (FixedDelivery, n))
                | None \<Rightarrow>
                    (case amountToSend opts of
                       Some a \<Rightarrow> ebind (positive_or InvalidSourceAmount (Int_from a)) (\<lambda>n. Inr (FixedSend, n))
                     | None \<Rightarrow> Inl UnknownPaymentTarget))))"

section \<open>Prices\<close>

text \<open>\<open>isValidAssetScale\<close> and \<open>isValidAssetDetails\<close> of \<^verbatim>\<open>asset-details.ts\<close>, on an object with a string code.\<close>

fun isValidAssetScale :: "jsnum \<Rightarrow> bool" where
  "isValidAssetScale (Num r) = (0 \<le> r \<and> r \<le> 255 \<and> of_int \<lfloor>r\<rfloor> = r)"
| "isValidAssetScale _ = False"

definition isValidAssetDetails :: "(jsstring \<times> jsnum) option \<Rightarrow> bool" where
  "isValidAssetDetails asset = (case asset of None \<Rightarrow> False | Some (code, scale) \<Rightarrow> isValidAssetScale scale)"

definition price_ok :: "jsnum option \<Rightarrow> bool" where
  "price_ok p = (case p of None \<Rightarrow> False | Some n \<Rightarrow> isNonNegativeRational n)"

text \<open>The checks on slippage, source asset and prices, in their order.\<close>

definition check_prices ::
  "jsnum \<Rightarrow> (jsstring \<times> jsnum) option \<Rightarrow> jsstring \<Rightarrow> (jsstring \<Rightarrow> jsnum option) \<Rightarrow> PaymentError option" where
  "check_prices slippage sourceAsset destinationCode prices =
     (case slippage of
        Num sl \<Rightarrow>
          if \<not> 0 \<le> sl \<or> sl > 1 then Some InvalidSlippage
          else if sl = 1 then None
          else if \<not> isValidAssetDetails sourceAsset then Some UnknownSourceAsset
          else
            let sourceCode = fst (the sourceAsset)
            in if sourceCode = destinationCode then None
               else if \<not> price_ok (prices sourceCode) \<or> \<not> price_ok (prices destinationCode)
                       \<or> prices destinationCode = Some (Num 0)
               then Some ExternalRateUnavailable else None
      | _ \<Rightarrow> Some InvalidSlippage)"

section \<open>The quote\<close>

definition finish_quote :: "PaymentType \<times> pint \<Rightarrow> ratio \<Rightarrow> ProbeResult \<Rightarrow> PaymentError + quote" where
  "finish_quote target minRate pr =
     (let (type, amount) = target
      in if \<not> ratio_isGreaterThanOrEqualTo (probe_lowRate pr) minRate then Inl InsufficientExchangeRate
         else if type = FixedSend then
           Inr \<lparr>paymentType = type, maxSourceAmount = amount,
                minDeliveryAmount = multiplyCeil (saturatingSubtract amount 1) minRate,
                quote_maxPacketAmount = probe_maxPacketAmount pr, lowEstimatedExchangeRate = probe_lowRate pr,
                highEstimatedExchangeRate = probe_highRate pr, minExchangeRate = minRate\<rparr>
         else case ratio_reciprocal minRate of
                None \<Rightarrow> Inl UnenforceableDelivery
              | Some reciprocal \<Rightarrow>
                  Inr \<lparr>paymentType = type, maxSourceAmount = multiplyFloor amount reciprocal + 1,
                       minDeliveryAmount = amount,
                       quote_maxPacketAmount = probe_maxPacketAmount pr, lowEstimatedExchangeRate = probe_lowRate pr,
                       highEstimatedExchangeRate = probe_highRate pr, minExchangeRate = minRate\<rparr>)"

text \<open>\<open>startQuote\<close>, for the outcome of the rate probe.\<close>

definition startQuote ::
  "time \<Rightarrow> quote_options \<Rightarrow> jsnum \<Rightarrow> (jsstring \<times> jsnum) option \<Rightarrow> jsstring \<Rightarrow> (jsstring \<Rightarrow> jsnum option)
   \<Rightarrow> ratio \<Rightarrow> PaymentError + ProbeResult \<Rightarrow> PaymentError + quote" where
  "startQuote now opts slippage sourceAsset destinationCode prices minRate probe =
     ebind (quote_target now opts) (\<lambda>target.
       case check_prices slippage sourceAsset destinationCode prices of
         Some e \<Rightarrow> Inl e
       | None \<Rightarrow> ebind probe (finish_quote target minRate))"

text \<open>The checks of \<open>pay\<close> on the amounts of a quote it is given.\<close>

definition check_quote :: "int \<Rightarrow> int \<Rightarrow> int \<Rightarrow> PaymentError + (pint \<times> pint \<times> pint)" where
  "check_quote maxSource minDelivery maxPacket =
     ebind (positive_or InvalidQuote (Int_fromBigint maxSource)) (\<lambda>s.
       case Int_fromBigint minDelivery of
         None \<Rightarrow> Inl InvalidQuote
       | Some d \<Rightarrow> ebind (positive_or InvalidQuote (Int_fromBigint maxPacket)) (\<lambda>p. Inr (s, d, p)))"

section \<open>What a quote promises\<close>

lemma quote_target_positive: "quote_target now opts = Inr (type, n) \<Longrightarrow> 0 < n"
  by (auto simp: quote_target_def positive_or_def ebind_def split: option.splits if_splits sum.splits)

lemma finish_quote_facts:
  assumes "finish_quote (type, n) minRate pr = Inr q"
  shows "paymentType q = type \<and> minExchangeRate q = minRate \<and> quote_maxPacketAmount q = probe_maxPacketAmount pr
    \<and> lowEstimatedExchangeRate q = probe_lowRate pr \<and> highEstimatedExchangeRate q = probe_highRate pr
    \<and> ratio_isGreaterThanOrEqualTo (probe_lowRate pr) minRate
    \<and> (if type = FixedSend then maxSourceAmount q = n \<and> minDeliveryAmount q = multiplyCeil (n - 1) minRate
       else 0 < ratio_a minRate \<and> maxSourceAmount q = multiplyFloor n (ratio_of (ratio_b minRate) (ratio_a minRate)) + 1
         \<and> minDeliveryAmount q = n)"
  using assms by (auto simp: finish_quote_def ratio_reciprocal_def split: if_splits)

lemma reciprocal_bounds:
  fixes r :: ratio and n :: pint
  assumes "ratio_ok r" and "0 < ratio_a r"
  defines "k \<equiv> multiplyFloor n (ratio_of (ratio_b r) (ratio_a r))"
  shows "of_nat k * rat_of r \<le> of_nat n" "of_nat n < of_nat (k + 1) * rat_of r"
proof -
  have pos: "0 < rat_of r" using assms by (simp add: rat_of_def ratio_ok_def)
  have inv: "of_nat n * rat_of (ratio_of (ratio_b r) (ratio_a r)) = of_nat n / rat_of r" by (simp add: rat_of_def ratio_of_def)
  have k: "int k = \<lfloor>of_nat n / rat_of r\<rfloor>" unfolding k_def multiplyFloor_floor inv ..
  have "of_nat k \<le> of_nat n / rat_of r" "of_nat n / rat_of r < of_nat k + 1"
    using floor_correct [of "of_nat n / rat_of r"] unfolding k [symmetric] by simp_all
  then show "of_nat k * rat_of r \<le> of_nat n" "of_nat n < of_nat (k + 1) * rat_of r"
    using pos by (simp_all add: pos_le_divide_eq pos_divide_less_eq add.commute)
qed

text \<open>
  A quote is enforceable: the bounds and the packet amount it carries are those a payment
  requires, the probed rate is at least the minimum rate, and the two amounts fit each other. A
  fixed-send quote promises the amount less one unit at the minimum rate; for a fixed-delivery quote, the
  maximum source amount converts to more than the target at the minimum rate, and one unit less
  to no more than the target, so at most one source unit is allowed for rounding.
\<close>

lemma startQuote_sound:
  assumes "startQuote now opts slippage sourceAsset destinationCode prices minRate (Inr pr) = Inr q"
    and "ratio_ok minRate" and "0 < probe_maxPacketAmount pr"
    and "rate_inv \<lparr>lowerBoundRate = probe_lowRate pr, upperBoundRate = probe_highRate pr\<rparr>"
  shows "quote_ok q \<and> rat_of (minExchangeRate q) \<le> rat_of (lowEstimatedExchangeRate q) \<and> 0 < maxSourceAmount q
    \<and> (case paymentType q of
         FixedSend \<Rightarrow> int (minDeliveryAmount q) = \<lceil>of_nat (maxSourceAmount q - 1) * rat_of (minExchangeRate q)\<rceil>
       | FixedDelivery \<Rightarrow> of_nat (maxSourceAmount q - 1) * rat_of (minExchangeRate q) \<le> of_nat (minDeliveryAmount q)
           \<and> of_nat (minDeliveryAmount q) < of_nat (maxSourceAmount q) * rat_of (minExchangeRate q))"
proof -
  obtain type n where t: "quote_target now opts = Inr (type, n)" "finish_quote (type, n) minRate pr = Inr q"
    using assms(1) by (auto simp: startQuote_def ebind_def split: sum.splits option.splits)
  note f = finish_quote_facts [OF t(2)] and n = quote_target_positive [OF t(1)]
  have lo: "ratio_ok (probe_lowRate pr)" using assms(4) by (simp add: rate_inv_def)
  have "quote_ok q" using f assms(2-4) by (simp add: quote_ok_def)
  moreover have "rat_of minRate \<le> rat_of (probe_lowRate pr)" using f lo assms(2) by (simp add: ratio_order)
  ultimately show ?thesis
    using f n reciprocal_bounds [OF assms(2)] multiplyCeil_ceil [OF assms(2)]
    by (cases type) (auto split: PaymentType.splits)
qed

definition sample_options :: quote_options where
  "sample_options = \<lparr>destinationPaymentDetails = None, amountToSend = None, amountToDeliver = Some (IntAmount 100)\<rparr>"

definition sample_probe_result :: ProbeResult where
  "sample_probe_result = \<lparr>probe_maxPacketAmount = 1000, probe_lowRate = ratio_of 2 1, probe_highRate = ratio_of 3 1\<rparr>"

definition sample_quote :: quote where
  "sample_quote = \<lparr>paymentType = FixedDelivery, maxSourceAmount = 67, minDeliveryAmount = 100,
     quote_maxPacketAmount = 1000, lowEstimatedExchangeRate = ratio_of 2 1, highEstimatedExchangeRate = ratio_of 3 1,
     minExchangeRate = ratio_of 3 2\<rparr>"

lemma sample_startQuote:
  "startQuote 1000 sample_options (Num 1) None [] (\<lambda>_. None) (ratio_of 3 2) (Inr sample_probe_result) = Inr sample_quote"
  by (simp add: startQuote_def quote_target_def incoming_state_def sample_options_def positive_or_def check_prices_def
      finish_quote_def sample_probe_result_def sample_quote_def ratio_isGreaterThanOrEqualTo_def ratio_of_def
      ratio_reciprocal_def multiplyFloor_def)

theorem startQuote_sound_witness:
  "quote_ok sample_quote \<and> rat_of (minExchangeRate sample_quote) \<le> rat_of (lowEstimatedExchangeRate sample_quote)
    \<and> 0 < maxSourceAmount sample_quote
    \<and> of_nat (minDeliveryAmount sample_quote) < of_nat (maxSourceAmount sample_quote) * rat_of (minExchangeRate sample_quote)"
proof -
  have "paymentType sample_quote = FixedDelivery" by (simp add: sample_quote_def)
  moreover have "0 < probe_maxPacketAmount sample_probe_result"
    "rate_inv \<lparr>lowerBoundRate = probe_lowRate sample_probe_result, upperBoundRate = probe_highRate sample_probe_result\<rparr>"
    by (simp_all add: sample_probe_result_def rate_inv_def)
  ultimately show ?thesis using startQuote_sound [OF sample_startQuote] by simp
qed

end
