(* ===== verification/Connection.thy ===== *)
theory Connection
  imports Ilp_Packet Stream_Packet Receipt Rational Congestion Money_Stream
begin

text \<open>
  \<^verbatim>\<open>ilp-protocol-stream/src/connection.ts\<close>: the state of a \<open>Connection\<close> and the handlers that
  do not send a packet themselves.

  \<open>conn\<close> has the fields of the class. \<open>streams\<close>, a \<open>Map\<close>, is an association list in insertion order;
  the key is \<open>frame.streamId.toNumber()\<close>. A stream is the record of \<open>Money_Stream\<close> with the two facts about its
  \<open>Duplex\<close> side the connection depends on: the bytes pushed and not yet read by the consumer, and
  whether \<open>end()\<close> was called. A stream that was removed from the map moves to \<open>cn_detached\<close>, since a
  packet in flight still refers to the object.

  The events a connection emits are recorded in \<open>cn_events\<close>. \<open>end()\<close> and \<open>destroy()\<close>
  are asynchronous and their callers do not wait for them: here a call runs the code up to the first await, and
  what is left is an entry of \<open>cn_tasks\<close>, run by \<open>send_close\<close>, \<open>end_closed\<close>, \<open>end_finish\<close> and
  \<open>destroy_finish\<close>. Likewise \<open>startSendLoop\<close> sets the flags, and each turn of its loop is a definition of
  \<open>Connection_Send\<close> or \<open>Connection_Rate\<close>.

  Numbers are exact: a byte offset is below \<open>2^53\<close>. Logging is left out.
\<close>

section \<open>Numbers\<close>

text \<open>
  \<open>Long.toNumber()\<close> of an unsigned Long: the nearest double, ties to the even mantissa.
\<close>

definition double_exponent :: "nat \<Rightarrow> nat" where
  "double_exponent n = (case filter (\<lambda>e. n div 2 ^ e < 2 ^ 53) [0..<12] of [] \<Rightarrow> 0 | e # _ \<Rightarrow> e)"

definition toNumber :: "u64 \<Rightarrow> nat" where
  "toNumber x =
     (let n = unat x; e = double_exponent n; q = n div 2 ^ e; r = n mod 2 ^ e
      in (if 2 ^ e < 2 * r \<or> (2 ^ e = 2 * r \<and> 0 < r \<and> odd q) then q + 1 else q) * 2 ^ e)"

lemma toNumber_small: "unat x < 2 ^ 53 \<Longrightarrow> toNumber x = unat x"
proof -
  assume "unat x < 2 ^ 53"
  moreover have "[0..<12] = (0::nat) # [1..<12]" by (subst upt_conv_Cons) simp_all
  ultimately have "double_exponent (unat x) = 0" by (simp add: double_exponent_def)
  then show ?thesis by (simp add: toNumber_def Let_def)
qed

text \<open>\<open>longFromValue\<close> on a number that is not negative.\<close>

definition ulong_of :: "int \<Rightarrow> u64" where
  "ulong_of i = long_bits (long_fromInt i True)"

section \<open>State\<close>

datatype remote_state = RemoteInit | RemoteConnected | RemoteClosed

datatype conn_error = ConnectionError jsstring nat | OtherError jsstring

fun conn_error_message :: "conn_error \<Rightarrow> jsstring" where
  "conn_error_message (ConnectionError m c) = m"
| "conn_error_message (OtherError m) = m"

datatype conn_event =
  EvConnect | EvStream nat | EvError jsstring | EvEnd | EvClose | EvSendLoopFinished

datatype conn_task =
    Destroying "stream_packet option" "nat list"
  | Ending "nat list"

record conn_stream =
  cs_stream :: "unit money_stream"
  cs_readable :: buffer
  cs_ended :: bool

record conn =
  cn_sourceAccount :: jsstring
  cn_sourceAssetCode :: jsstring
  cn_sourceAssetScale :: nat
  cn_destinationAccount :: "jsstring option"
  cn_destinationAsset :: "(jsstring \<times> nat) option"
  cn_sharedSecret :: buffer
  cn_pskKey :: buffer
  cn_fulfillmentKey :: buffer
  cn_isServer :: bool
  cn_slippage :: rational
  cn_allowableReceiveExtra :: rational
  cn_enablePadding :: bool
  cn_connectionTag :: "jsstring option"
  cn_receiptNonce :: "buffer option"
  cn_receiptSecret :: "buffer option"
  cn_maxBufferedData :: nat
  cn_minExchangeRatePrecision :: nat
  cn_idleTimeout :: int
  cn_lastActive :: date
  cn_idleTimer :: "date option"
  cn_nextPacketSequence :: nat
  cn_streams :: "(nat \<times> conn_stream) list"
  cn_closedStreams :: "nat list"
  cn_detached :: "(nat \<times> conn_stream) list"
  cn_nextStreamId :: nat
  cn_maxStreamId :: nat
  cn_sending :: bool
  cn_looping :: bool
  cn_congestion :: congestion
  cn_connected :: bool
  cn_closed :: bool
  cn_done :: bool
  cn_exchangeRate :: "rational option"
  cn_retryDelay :: nat
  cn_queuedFrames :: "frame list"
  cn_remoteState :: remote_state
  cn_remoteMaxStreamId :: nat
  cn_remoteKnowsOurAccount :: bool
  cn_remoteMaxOffset :: nat
  cn_incomingHold :: u64
  cn_totalReceived :: u64
  cn_totalSent :: u64
  cn_totalDelivered :: u64
  cn_lastPacketExchangeRate :: rational
  cn_events :: "conn_event list"
  cn_tasks :: "conn_task list"

definition RETRY_DELAY_START :: nat where "RETRY_DELAY_START = 100"
definition RETRY_DELAY_MAX :: nat where "RETRY_DELAY_MAX = 43200000"
definition DEFAULT_PACKET_TIMEOUT :: int where "DEFAULT_PACKET_TIMEOUT = 30000"
definition DEFAULT_IDLE_TIMEOUT :: int where "DEFAULT_IDLE_TIMEOUT = 60000"
definition MAX_DATA_SIZE :: nat where "MAX_DATA_SIZE = 32767"
definition DEFAULT_MAX_REMOTE_STREAMS :: nat where "DEFAULT_MAX_REMOTE_STREAMS = 10"
definition DEFAULT_MINIMUM_EXCHANGE_RATE_PRECISION :: nat where "DEFAULT_MINIMUM_EXCHANGE_RATE_PRECISION = 3"

text \<open>The high-water mark of a \<open>Duplex\<close> built with the default options.\<close>

definition readableHighWaterMark :: nat where "readableHighWaterMark = 16384"

text \<open>
  \<open>ConnectionOpts\<close>. The fractions that \<open>Rational.fromNumber\<close> makes of the
  numbers \<open>slippage\<close> and \<open>exchangeRate\<close> are given as such; an option that is absent or falsy is \<open>None\<close>
  where the code replaces it by a default.
\<close>

record conn_opts =
  op_sourceAccount :: jsstring
  op_assetCode :: jsstring
  op_assetScale :: nat
  op_destinationAccount :: "jsstring option"
  op_sharedSecret :: buffer
  op_isServer :: bool
  op_slippage :: "rational option"
  op_enablePadding :: bool
  op_connectionTag :: "jsstring option"
  op_receiptNonce :: "buffer option"
  op_receiptSecret :: "buffer option"
  op_maxRemoteStreams :: "nat option"
  op_connectionBufferSize :: "nat option"
  op_minExchangeRatePrecision :: "nat option"
  op_idleTimeout :: "int option"
  op_maximumPacketAmount :: "u64 option"
  op_exchangeRate :: "rational option"

definition or_default :: "'a \<Rightarrow> 'a option \<Rightarrow> 'a" where
  "or_default d x = (case x of None \<Rightarrow> d | Some v \<Rightarrow> v)"

text \<open>The constructor, with the two keys that \<open>build\<close> derives first.\<close>

definition build_connection :: "crypto_lib \<Rightarrow> date \<Rightarrow> conn_opts \<Rightarrow> conn result" where
  "build_connection lib now opts =
     (let slippage = or_default \<lparr>numer = 1, denom = 100\<rparr> (op_slippage opts)
      in if greaterThanOne slippage then Inl (Error ''slippage must be less than one'')
         else if (op_receiptNonce opts = None) \<noteq> (op_receiptSecret opts = None)
         then Inl (Error ''receiptNonce and receiptSecret must accompany each other'')
         else
           let maxBufferedData = or_default (MAX_DATA_SIZE * 2) (op_connectionBufferSize opts)
           in Inr \<lparr>cn_sourceAccount = op_sourceAccount opts, cn_sourceAssetCode = op_assetCode opts,
                cn_sourceAssetScale = op_assetScale opts,
                cn_destinationAccount = op_destinationAccount opts, cn_destinationAsset = None,
                cn_sharedSecret = op_sharedSecret opts,
                cn_pskKey = generatePskEncryptionKey lib (op_sharedSecret opts),
                cn_fulfillmentKey = generateFulfillmentKey lib (op_sharedSecret opts),
                cn_isServer = op_isServer opts, cn_slippage = slippage,
                cn_allowableReceiveExtra = \<lparr>numer = 101, denom = 100\<rparr>,
                cn_enablePadding = op_enablePadding opts, cn_connectionTag = op_connectionTag opts,
                cn_receiptNonce = op_receiptNonce opts, cn_receiptSecret = op_receiptSecret opts,
                cn_maxBufferedData = maxBufferedData,
                cn_minExchangeRatePrecision =
                  or_default DEFAULT_MINIMUM_EXCHANGE_RATE_PRECISION (op_minExchangeRatePrecision opts),
                cn_idleTimeout = or_default DEFAULT_IDLE_TIMEOUT (op_idleTimeout opts),
                cn_lastActive = now, cn_idleTimer = None, cn_nextPacketSequence = 1, cn_streams = [],
                cn_closedStreams = [], cn_detached = [], cn_nextStreamId = (if op_isServer opts then 2 else 1),
                cn_maxStreamId = 2 * or_default DEFAULT_MAX_REMOTE_STREAMS (op_maxRemoteStreams opts),
                cn_sending = False, cn_looping = False,
                cn_congestion = new_congestion (op_maximumPacketAmount opts),
                cn_connected = False, cn_closed = True, cn_done = False,
                cn_exchangeRate = op_exchangeRate opts, cn_retryDelay = RETRY_DELAY_START,
                cn_queuedFrames = [], cn_remoteState = RemoteInit,
                cn_remoteMaxStreamId = DEFAULT_MAX_REMOTE_STREAMS * 2,
                cn_remoteKnowsOurAccount = op_isServer opts, cn_remoteMaxOffset = maxBufferedData,
                cn_incomingHold = 0, cn_totalReceived = 0, cn_totalSent = 0, cn_totalDelivered = 0,
                cn_lastPacketExchangeRate = \<lparr>numer = 0, denom = 1\<rparr>,
                cn_events = [], cn_tasks = []\<rparr>)"

definition new_conn_stream :: conn_stream where
  "new_conn_stream = \<lparr>cs_stream = new_stream, cs_readable = [], cs_ended = False\<rparr>"

definition emit :: "conn_event \<Rightarrow> conn \<Rightarrow> conn" where
  "emit e c = c\<lparr>cn_events := cn_events c @ [e]\<rparr>"

definition queue_frames :: "frame list \<Rightarrow> conn \<Rightarrow> conn" where
  "queue_frames fs c = c\<lparr>cn_queuedFrames := cn_queuedFrames c @ fs\<rparr>"

text \<open>A change of the stream object with an id.\<close>

definition modify_stream :: "nat \<Rightarrow> (conn_stream \<Rightarrow> conn_stream) \<Rightarrow> conn \<Rightarrow> conn" where
  "modify_stream sid f c =
     c\<lparr>cn_streams := map (\<lambda>(i, s). (i, if i = sid then f s else s)) (cn_streams c)\<rparr>"

definition on_money :: "(unit money_stream \<Rightarrow> unit money_stream) \<Rightarrow> conn_stream \<Rightarrow> conn_stream" where
  "on_money f s = s\<lparr>cs_stream := f (cs_stream s)\<rparr>"

definition get_stream :: "nat \<Rightarrow> conn \<Rightarrow> conn_stream option" where
  "get_stream sid c = map_of (cn_streams c) sid"

definition isOpen :: "conn_stream \<Rightarrow> bool" where
  "isOpen s \<longleftrightarrow> \<not> st_closed (cs_stream s)"

text \<open>A change of a stream object that the code has kept a reference to, which may have left the map since.\<close>

definition map_object :: "nat \<Rightarrow> (unit money_stream \<Rightarrow> unit money_stream) \<Rightarrow> conn \<Rightarrow> conn" where
  "map_object sid f c =
     (let upd = map (\<lambda>(i, s). (i, if i = sid then on_money f s else s))
      in c\<lparr>cn_streams := upd (cn_streams c), cn_detached := upd (cn_detached c)\<rparr>)"

definition get_object :: "nat \<Rightarrow> conn \<Rightarrow> conn_stream option" where
  "get_object sid c = map_of (cn_streams c @ cn_detached c) sid"

text \<open>\<^verbatim>\<open>!this._destinationAccount\<close>: an empty address is falsy too.\<close>

definition has_destination :: "conn \<Rightarrow> bool" where
  "has_destination c \<longleftrightarrow> cn_destinationAccount c \<noteq> None \<and> cn_destinationAccount c \<noteq> Some []"

section \<open>Offsets\<close>

definition stream_incoming_offsets :: "conn_stream \<Rightarrow> nat \<times> nat \<times> int" where
  "stream_incoming_offsets s =
     getIncomingOffsets (int readableHighWaterMark) (int (length (cs_readable s))) (cs_stream s)"

text \<open>What a stream can receive, as told to the other side.\<close>

definition limit_frames :: "nat \<Rightarrow> conn_stream \<Rightarrow> frame list" where
  "limit_frames sid s =
     [StreamMaxMoney (ulong_of (int sid)) (receiveMax (cs_stream s)) (totalReceived (cs_stream s)),
      StreamMaxData (ulong_of (int sid)) (ulong_of (snd (snd (stream_incoming_offsets s))))]"

definition conn_getIncomingOffsets :: "conn \<Rightarrow> nat \<times> nat \<times> int" where
  "conn_getIncomingOffsets c =
     (let offs = map (stream_incoming_offsets \<circ> snd) (cn_streams c);
          totalMaxOffset = sum_list (map fst offs);
          totalReadOffset = sum_list (map (fst \<circ> snd) offs);
          totalBufferedData = sum_list (map (length \<circ> cs_readable \<circ> snd) (cn_streams c))
      in (totalReadOffset, totalMaxOffset,
          int totalReadOffset - int totalBufferedData + int (cn_maxBufferedData c)))"

definition conn_getOutgoingOffsets :: "conn \<Rightarrow> nat \<times> nat" where
  "conn_getOutgoingOffsets c =
     (sum_list (map (fst \<circ> getOutgoingOffsets \<circ> cs_stream \<circ> snd) (cn_streams c)),
      sum_list (map (snd \<circ> getOutgoingOffsets \<circ> cs_stream \<circ> snd) (cn_streams c)))"

section \<open>Loop control, closing\<close>

definition startSendLoop :: "conn \<Rightarrow> conn" where
  "startSendLoop c =
     (if cn_looping c then c\<lparr>cn_sending := True\<rparr>
      else if cn_remoteState c = RemoteClosed \<or> \<not> has_destination c then emit EvSendLoopFinished c
      else c\<lparr>cn_looping := True, cn_sending := True\<rparr>)"

fun close_reason :: "conn_error option \<Rightarrow> nat \<times> jsstring" where
  "close_reason (Some (ConnectionError m code)) = (code, m)"
| "close_reason (Some (OtherError m)) = (InternalErrorCode, m)"
| "close_reason None = (NoError, [])"

text \<open>\<open>sendConnectionClose\<close> up to its first await: the packet to be sent, if any.\<close>

definition sendConnectionClose :: "conn_error option \<Rightarrow> conn \<Rightarrow> stream_packet option \<times> conn" where
  "sendConnectionClose err c =
     (if cn_remoteState c = RemoteClosed then (None, c)
      else
        (Some \<lparr>sequence = ulong_of (int (cn_nextPacketSequence c)), ilpPacketType = type_byte Prepare,
               prepareAmount = 0, frames = [case close_reason err of (code, m) \<Rightarrow> ConnectionClose code m]\<rparr>,
         c\<lparr>cn_nextPacketSequence := cn_nextPacketSequence c + 1\<rparr>))"

text \<open>
  The rest of it: the bytes handed to the plugin, and the remote is closed whatever
  happens to them. \<open>iv\<close>, the condition and the expiry are the values the helpers return.
\<close>

definition send_close ::
  "crypto_lib \<Rightarrow> buffer \<Rightarrow> buffer \<Rightarrow> (jsstring \<Rightarrow> date) \<Rightarrow> stream_packet \<Rightarrow> conn \<Rightarrow> buffer result \<times> conn" where
  "send_close lib iv condition expiry packet c =
     (if \<not> has_destination c
      then Inl (Error ''Tried to close connection without having a destination account'')
      else
        let dest = the (cn_destinationAccount c)
        in ebind (serializeAndEncrypt lib iv (cn_pskKey c) None packet) (\<lambda>d.
             serializeIlpPrepare \<lparr>prep_amount = dec_of_nat 0, executionCondition = condition,
               expiresAt = expiry dest, destination = dest, prep_data = d\<rparr>),
      c\<lparr>cn_remoteState := RemoteClosed\<rparr>)"

definition stopTimers :: "conn \<Rightarrow> conn" where
  "stopTimers c = c\<lparr>cn_idleTimer := None, cn_done := True\<rparr>"

definition add_task :: "conn_task \<Rightarrow> conn \<Rightarrow> conn" where
  "add_task t c = c\<lparr>cn_tasks := cn_tasks c @ [t]\<rparr>"

definition destroy :: "conn_error option \<Rightarrow> conn \<Rightarrow> conn" where
  "destroy err c =
     (if cn_done c then c
      else
        let c1 = (case err of None \<Rightarrow> c | Some e \<Rightarrow> emit (EvError (conn_error_message e)) c);
            c2 = c1\<lparr>cn_streams := map (\<lambda>(i, s). (i, on_money (stream_destroy None) s)) (cn_streams c1)\<rparr>;
            (packet, c3) = sendConnectionClose
              (Some (or_default (ConnectionError (js ''Connection destroyed'') ApplicationError) err)) c2
        in add_task (Destroying packet (map fst (cn_streams c))) c3)"

text \<open>After the close frame was sent and every stream has emitted \<open>close\<close>.\<close>

definition destroy_finish :: "conn \<Rightarrow> conn" where
  "destroy_finish c = stopTimers (emit EvClose c)"

definition conn_end :: "conn \<Rightarrow> conn" where
  "conn_end c =
     (let open_ids = map fst (filter (isOpen \<circ> snd) (cn_streams c));
          c1 = c\<lparr>cn_streams := map (\<lambda>(i, s). (i, if isOpen s then s\<lparr>cs_ended := True\<rparr> else s)) (cn_streams c)\<rparr>
      in startSendLoop (add_task (Ending open_ids) c1))"

text \<open>After the send loop has finished and the streams have emitted \<open>end\<close>.\<close>

definition end_closed :: "conn \<Rightarrow> stream_packet option \<times> conn" where
  "end_closed c = sendConnectionClose None (c\<lparr>cn_closed := True\<rparr>)"

definition end_finish :: "conn \<Rightarrow> conn" where
  "end_finish c = stopTimers (emit EvClose (emit EvEnd c))"

text \<open>\<open>connect\<close> starts the loop; the \<open>connect\<close> event it waits for opens the connection.\<close>

definition connect :: "conn \<Rightarrow> conn" where
  "connect c = (if \<not> cn_closed c then c else startSendLoop c)"

definition connect_finish :: "conn \<Rightarrow> conn" where
  "connect_finish c = c\<lparr>cn_closed := False\<rparr>"

text \<open>The timer callback \<open>testIdle\<close> runs when \<open>cn_idleTimer\<close> is due.\<close>

definition startIdleTimer :: "conn \<Rightarrow> conn" where
  "startIdleTimer c =
     (if cn_idleTimeout c = 0 then c else c\<lparr>cn_idleTimer := Some (cn_lastActive c + cn_idleTimeout c)\<rparr>)"

definition testIdle :: "date \<Rightarrow> conn \<Rightarrow> conn" where
  "testIdle now c =
     (if now - cn_lastActive c \<ge> cn_idleTimeout c
      then destroy (Some (OtherError (js ''Connection timed out due to inactivity''))) c
      else startIdleTimer c)"

definition bumpIdle :: "date \<Rightarrow> conn \<Rightarrow> conn" where
  "bumpIdle now c = c\<lparr>cn_lastActive := now\<rparr>"

section \<open>Streams\<close>

definition createStream :: "conn \<Rightarrow> nat result \<times> conn" where
  "createStream c =
     (let sid = cn_nextStreamId c
      in if cn_remoteMaxStreamId c < sid
         then (Inl (Error ''Creating another stream would exceed the remote connection's maximum number of open streams''),
               queue_frames [ConnectionStreamIdBlocked (ulong_of (int sid))] c)
         else (Inr sid, c\<lparr>cn_streams := AList.update sid new_conn_stream (cn_streams c),
                          cn_nextStreamId := sid + 2\<rparr>))"

text \<open>How the other side is told that a stream is closed.\<close>

definition end_frame :: "nat \<Rightarrow> conn_stream \<Rightarrow> frame" where
  "end_frame sid s =
     (case st_errorMessage (cs_stream s) of
        None \<Rightarrow> StreamClose (ulong_of (int sid)) NoError []
      | Some m \<Rightarrow> if m = [] then StreamClose (ulong_of (int sid)) NoError []
                  else StreamClose (ulong_of (int sid)) ApplicationError m)"

text \<open>The handler of the \<open>close\<close> event of a stream. The loop is started by \<open>setImmediate\<close>.\<close>

definition removeStreamRecord :: "nat \<Rightarrow> conn \<Rightarrow> conn" where
  "removeStreamRecord sid c =
     (case get_stream sid c of
        None \<Rightarrow> c
      | Some s \<Rightarrow>
          let c1 = c\<lparr>cn_streams := AList.delete sid (cn_streams c),
                     cn_closedStreams := List.insert sid (cn_closedStreams c),
                     cn_detached := (sid, s\<lparr>cs_stream := cs_stream s\<lparr>sentEnd := True\<rparr>\<rparr>) # cn_detached c\<rparr>
          in if sentEnd (cs_stream s) then c1
             else startSendLoop (queue_frames
                    [end_frame sid s] c1))"

text \<open>
  \<open>handleNewStream\<close>; \<open>False\<close> when it throws, which its only caller turns into a reject.
\<close>

definition close_with :: "nat \<Rightarrow> jsstring \<Rightarrow> conn \<Rightarrow> bool \<times> conn" where
  "close_with code m c = (False, emit (EvError m) (queue_frames [ConnectionClose code m] c))"

definition handleNewStream :: "nat \<Rightarrow> conn \<Rightarrow> bool \<times> conn" where
  "handleNewStream sid c =
     (if get_stream sid c \<noteq> None \<or> sid \<in> set (cn_closedStreams c) then (True, c)
      else if cn_isServer c \<and> sid mod 2 = 0
      then close_with ProtocolViolation (js ''Invalid Stream ID: '' @ dec_of_nat sid
             @ js ''. Client-initiated streams must have odd-numbered IDs'') c
      else if \<not> cn_isServer c \<and> sid mod 2 = 1
      then close_with ProtocolViolation (js ''Invalid Stream ID: '' @ dec_of_nat sid
             @ js ''. Server-initiated streams must have even-numbered IDs'') c
      else if sid > cn_maxStreamId c
      then close_with StreamIdError (js ''Maximum number of open streams exceeded. Got stream: '' @ dec_of_nat sid
             @ js '', current max stream ID: '' @ dec_of_nat (cn_maxStreamId c)) c
      else
        let c1 = (if 3 * cn_maxStreamId c < 4 * sid
                  then queue_frames [ConnectionMaxStreamId (ulong_of (int (cn_maxStreamId c)))] c else c)
        in (True, emit (EvStream sid) (c1\<lparr>cn_streams := AList.update sid new_conn_stream (cn_streams c1)\<rparr>)))"

text \<open>\<open>_sentEnd\<close> is set, then \<open>_remoteEnded\<close> destroys the stream or ends it.\<close>

definition end_by_remote :: "jsstring \<Rightarrow> conn_stream \<Rightarrow> conn_stream" where
  "end_by_remote m s =
     (let st = remoteEnded ((cs_stream s)\<lparr>sentEnd := True\<rparr>)
      in if m \<noteq> [] then s\<lparr>cs_stream := stream_destroy (Some m) st\<rparr>
         else s\<lparr>cs_stream := st, cs_ended := True\<rparr>)"

definition handleStreamClose :: "nat \<Rightarrow> jsstring \<Rightarrow> conn \<Rightarrow> conn" where
  "handleStreamClose sid m c =
     (case get_stream sid c of
        None \<Rightarrow> c
      | Some s \<Rightarrow>
          if \<not> isOpen s \<or> remoteSentEnd (cs_stream s) then c
          else
            let c1 = (modify_stream sid (end_by_remote m) c)\<lparr>cn_maxStreamId := cn_maxStreamId c + 2\<rparr>
            in startSendLoop (queue_frames [ConnectionMaxStreamId (ulong_of (int (cn_maxStreamId c1)))] c1))"

section \<open>Control frames\<close>

definition handle_new_address :: "jsstring \<Rightarrow> conn \<Rightarrow> conn" where
  "handle_new_address account c =
     (let c1 = queue_frames [ConnectionMaxStreamId (ulong_of (int (cn_maxStreamId c))),
                             ConnectionAssetDetails (cn_sourceAssetCode c) (cn_sourceAssetScale c)] c;
          firstConnection = (cn_destinationAccount c = None);
          c2 = c1\<lparr>cn_destinationAccount := Some account\<rparr>
      in if firstConnection then emit EvConnect (c2\<lparr>cn_closed := False\<rparr>) else c2)"

fun ErrorCode_name :: "nat \<Rightarrow> jsstring" where
  "ErrorCode_name n =
     (if n = 1 then js ''NoError'' else if n = 2 then js ''InternalError'' else if n = 3 then js ''EndpointBusy''
      else if n = 4 then js ''FlowControlError'' else if n = 5 then js ''StreamIdError''
      else if n = 6 then js ''StreamStateError'' else if n = 7 then js ''FrameFormatError''
      else if n = 8 then js ''ProtocolViolation'' else if n = 9 then js ''ApplicationError''
      else js ''undefined'')"

definition handle_conn_close :: "nat \<Rightarrow> jsstring \<Rightarrow> conn \<Rightarrow> conn" where
  "handle_conn_close code m c =
     (let c1 = c\<lparr>cn_sending := False, cn_closed := True, cn_remoteState := RemoteClosed\<rparr>
      in if code = NoError then conn_end c1
         else destroy (Some (OtherError (js ''Remote connection error. Code: '' @ ErrorCode_name code
                @ js '', message: '' @ m))) c1)"

definition handle_max_data :: "u64 \<Rightarrow> conn \<Rightarrow> conn" where
  "handle_max_data maxOff c =
     (if maxOff \<noteq> ulong_of (int (cn_maxBufferedData c))
      then c\<lparr>cn_remoteMaxOffset := max (toNumber maxOff) (cn_remoteMaxOffset c)\<rparr>
      else c\<lparr>cn_remoteMaxOffset := toNumber maxOff\<rparr>)"

definition note_max_money :: "u64 \<Rightarrow> u64 \<Rightarrow> 'cb money_stream \<Rightarrow> 'cb money_stream" where
  "note_max_money rmax tot s =
     s\<lparr>remoteReceived := maxLong (remoteReceived s) tot,
       remoteReceiveMax := (if remoteReceiveMax s \<noteq> MAX_UNSIGNED_VALUE
                            then maxLong (remoteReceiveMax s) rmax else rmax)\<rparr>"

definition handle_max_money :: "nat \<Rightarrow> u64 \<Rightarrow> u64 \<Rightarrow> conn \<Rightarrow> conn" where
  "handle_max_money sid rmax tot c =
     (case get_stream sid c of
        None \<Rightarrow> c
      | Some s \<Rightarrow>
          let s' = note_max_money rmax tot (cs_stream s);
              c1 = modify_stream sid (on_money (note_max_money rmax tot)) c
          in if remoteReceiveMax s' > remoteReceived s' \<and> getAmountAvailableToSend s' > 0
             then startSendLoop c1 else c1)"

definition flow_control_error :: "jsstring \<Rightarrow> int \<Rightarrow> jsstring \<Rightarrow> nat \<Rightarrow> conn_error" where
  "flow_control_error what acceptable got mx =
     ConnectionError (js ''Exceeded flow control limits. '' @ what @ dec_of_int acceptable @ got @ dec_of_nat mx)
       FlowControlError"

definition push_data :: "buffer \<Rightarrow> nat \<Rightarrow> conn_stream \<Rightarrow> conn_stream" where
  "push_data d off s =
     (case pushIncomingData (int readableHighWaterMark - int (length (cs_readable s))) d off (cs_stream s) of
        (out, st) \<Rightarrow> s\<lparr>cs_stream := st, cs_readable := cs_readable s @ concat out\<rparr>)"

definition handle_data :: "nat \<Rightarrow> nat \<Rightarrow> buffer \<Rightarrow> conn \<Rightarrow> conn" where
  "handle_data sid off d c =
     (case get_stream sid c of
        None \<Rightarrow> c
      | Some s \<Rightarrow>
          let s' = push_data d off s;
              c1 = modify_stream sid (push_data d off) c;
              (mx, current, acceptable) = stream_incoming_offsets s'
          in if int mx > acceptable
             then destroy (Some (flow_control_error
                    (js ''Stream '' @ dec_of_nat sid @ js '' can accept up to offset: '') acceptable
                    (js '' but got bytes up to offset: '') mx)) c1
             else c1)"

definition handle_stream_max_data :: "nat \<Rightarrow> nat \<Rightarrow> conn \<Rightarrow> conn" where
  "handle_stream_max_data sid newOffset c =
     (case get_stream sid c of
        None \<Rightarrow> c
      | Some s \<Rightarrow>
          if int newOffset > remoteMaxOffset (cs_stream s)
          then startSendLoop (modify_stream sid (on_money (\<lambda>st. st\<lparr>remoteMaxOffset := int newOffset\<rparr>)) c)
          else c)"

fun handle_frame :: "frame \<Rightarrow> conn \<Rightarrow> conn" where
  "handle_frame (ConnectionNewAddress account) c = handle_new_address account c"
| "handle_frame (ConnectionAssetDetails code scale) c = c\<lparr>cn_destinationAsset := Some (code, scale)\<rparr>"
| "handle_frame (ConnectionClose code m) c = handle_conn_close code m c"
| "handle_frame (ConnectionMaxData x) c = handle_max_data x c"
| "handle_frame (ConnectionMaxStreamId x) c = c\<lparr>cn_remoteMaxStreamId := toNumber x\<rparr>"
| "handle_frame (StreamClose i code m) c = handleStreamClose (toNumber i) m c"
| "handle_frame (StreamMaxMoney i rm tr) c = handle_max_money (toNumber i) rm tr c"
| "handle_frame (StreamData i off d) c = handle_data (toNumber i) (toNumber off) d c"
| "handle_frame (StreamMaxData i x) c = handle_stream_max_data (toNumber i) (toNumber x) c"
| "handle_frame f c = c"

definition handleControlFrames :: "frame list \<Rightarrow> conn \<Rightarrow> conn" where
  "handleControlFrames fs c = fold handle_frame fs c"

section \<open>Totals and sequence numbers\<close>

definition total_error :: "string \<Rightarrow> conn_error" where
  "total_error which = OtherError (js (which @ '' exceeded MaxUint64''))"

text \<open>\<open>False\<close>: the connection is destroyed and the error thrown.\<close>

definition addIncomingHold :: "u64 \<Rightarrow> conn \<Rightarrow> bool \<times> conn" where
  "addIncomingHold v c =
     (let r = checkedAdd (add_sum (checkedAdd (cn_totalReceived c) (cn_incomingHold c))) v
      in if add_overflow r then (False, destroy (Some (total_error ''Total received'')) c)
         else (True, c\<lparr>cn_incomingHold := add_sum r\<rparr>))"

definition removeIncomingHold :: "u64 \<Rightarrow> conn \<Rightarrow> conn" where
  "removeIncomingHold v c = c\<lparr>cn_incomingHold := difference (checkedSubtract (cn_incomingHold c) v)\<rparr>"

definition addTotalReceived :: "u64 \<Rightarrow> conn \<Rightarrow> conn" where
  "addTotalReceived v c = c\<lparr>cn_totalReceived := add_sum (checkedAdd (cn_totalReceived c) v)\<rparr>"

definition addTotalSent :: "u64 \<Rightarrow> conn \<Rightarrow> bool \<times> conn" where
  "addTotalSent v c =
     (let r = checkedAdd (cn_totalSent c) v
      in if add_overflow r then (False, destroy (Some (total_error ''Total sent'')) c)
         else (True, c\<lparr>cn_totalSent := add_sum r\<rparr>))"

definition addTotalDelivered :: "u64 \<Rightarrow> conn \<Rightarrow> bool \<times> conn" where
  "addTotalDelivered v c =
     (let r = checkedAdd (cn_totalDelivered c) v
      in if add_overflow r then (False, destroy (Some (total_error ''Total delivered'')) c)
         else (True, c\<lparr>cn_totalDelivered := add_sum r\<rparr>))"

text \<open>\<open>None\<close>: the error \<open>Connection exceeded maximum number of packets\<close>. The counter moves in both cases.\<close>

definition getNextPacketSequence :: "conn \<Rightarrow> nat option \<times> conn" where
  "getNextPacketSequence c =
     (let n = cn_nextPacketSequence c
      in (if n \<ge> 2 ^ 31 then None else Some n, c\<lparr>cn_nextPacketSequence := n + 1\<rparr>))"

definition account_frames :: "conn \<Rightarrow> frame list" where
  "account_frames c =
     (if cn_remoteKnowsOurAccount c then []
      else [ConnectionNewAddress (cn_sourceAccount c),
            ConnectionAssetDetails (cn_sourceAssetCode c) (cn_sourceAssetScale c)])"

definition minimumAcceptableExchangeRate :: "conn \<Rightarrow> jsstring result" where
  "minimumAcceptableExchangeRate c =
     (case cn_exchangeRate c of
        None \<Rightarrow> Inr (dec_of_nat 0)
      | Some rate \<Rightarrow> ebind (complement (cn_slippage c)) (\<lambda>q.
          ebind (multiplyByRational rate q) rational_toString))"

section \<open>What the handlers leave alone\<close>

text \<open>
  \<open>keeps c c'\<close>: the parameters of the connection, its totals, the ids of its streams
  and the money of every stream are the same in both states. Every handler of a control frame,
  starting the loop, ending and destroying keep them.
\<close>

definition conn_config ::
  "conn \<Rightarrow> (buffer \<times> buffer \<times> buffer) \<times> bool \<times> (rational \<times> rational) \<times> (bool \<times> jsstring option \<times> buffer option \<times> buffer option) \<times> nat" where
  "conn_config c =
     ((cn_sharedSecret c, cn_pskKey c, cn_fulfillmentKey c), cn_isServer c,
      (cn_slippage c, cn_allowableReceiveExtra c),
      (cn_enablePadding c, cn_connectionTag c, cn_receiptNonce c, cn_receiptSecret c), cn_maxBufferedData c)"

definition conn_totals :: "conn \<Rightarrow> u64 \<times> u64 \<times> u64 \<times> u64" where
  "conn_totals c = (cn_incomingHold c, cn_totalReceived c, cn_totalSent c, cn_totalDelivered c)"

definition stream_money :: "'cb money_stream \<Rightarrow> (u64 \<times> u64) \<times> (u64 \<times> u64) \<times> u64 \<times> (jsstring \<times> u64) list" where
  "stream_money s = ((totalSent s, totalReceived s), (sendMax s, receiveMax s), outgoingHeldAmount s, holds s)"

definition book :: "(nat \<times> conn_stream) list \<Rightarrow> (nat \<times> (u64 \<times> u64) \<times> (u64 \<times> u64) \<times> u64 \<times> (jsstring \<times> u64) list) list" where
  "book ss = map (\<lambda>(i, s). (i, stream_money (cs_stream s))) ss"

definition keeps :: "conn \<Rightarrow> conn \<Rightarrow> bool" where
  "keeps c c' \<longleftrightarrow> conn_config c' = conn_config c \<and> conn_totals c' = conn_totals c
     \<and> book (cn_streams c') = book (cn_streams c) \<and> cn_detached c' = cn_detached c
     \<and> cn_closedStreams c' = cn_closedStreams c \<and> cn_nextStreamId c' = cn_nextStreamId c
     \<and> cn_maxStreamId c \<le> cn_maxStreamId c' \<and> cn_nextPacketSequence c \<le> cn_nextPacketSequence c'"

named_theorems keeping \<open>operations that keep the books of a connection\<close>

lemma keeps_refl [keeping]: "keeps c c"
  by (simp add: keeps_def)

lemma keeps_trans: "keeps c c' \<Longrightarrow> keeps c' c'' \<Longrightarrow> keeps c c''"
  by (simp add: keeps_def)

lemma keeps_fields:
  assumes "keeps c c'"
  shows "cn_fulfillmentKey c' = cn_fulfillmentKey c" "cn_pskKey c' = cn_pskKey c"
    "cn_sharedSecret c' = cn_sharedSecret c" "cn_isServer c' = cn_isServer c"
    "cn_connectionTag c' = cn_connectionTag c" "cn_allowableReceiveExtra c' = cn_allowableReceiveExtra c"
    "cn_incomingHold c' = cn_incomingHold c" "cn_totalReceived c' = cn_totalReceived c"
    "cn_totalSent c' = cn_totalSent c" "cn_totalDelivered c' = cn_totalDelivered c"
    "cn_enablePadding c' = cn_enablePadding c" "cn_slippage c' = cn_slippage c"
    "cn_maxBufferedData c' = cn_maxBufferedData c"
    "cn_receiptNonce c' = cn_receiptNonce c" "cn_receiptSecret c' = cn_receiptSecret c"
  using assms by (simp_all add: keeps_def conn_config_def conn_totals_def)

lemmas keeps_defs = keeps_def conn_config_def conn_totals_def

lemma stream_money_on [simp]:
  "stream_money (stream_destroy e s) = stream_money s"
  "stream_money (remoteEnded s) = stream_money s"
  "stream_money (s\<lparr>sentEnd := b\<rparr>) = stream_money s"
  "stream_money (s\<lparr>remoteClosed := b\<rparr>) = stream_money s"
  "stream_money (s\<lparr>remoteMaxOffset := x\<rparr>) = stream_money s"
  "stream_money (note_max_money r t s) = stream_money s"
  "stream_money (s\<lparr>incomingData := d\<rparr>) = stream_money s"
  "stream_money (s\<lparr>st_receipt := v\<rparr>) = stream_money s"
  by (simp_all add: stream_money_def stream_destroy_def remoteEnded_def note_max_money_def)

lemma book_map:
  "(\<And>s. stream_money (cs_stream (f s)) = stream_money (cs_stream s))
     \<Longrightarrow> book (map (\<lambda>(i, s). (i, if P i then f s else s)) ss) = book ss"
  "(\<And>s. stream_money (cs_stream (f s)) = stream_money (cs_stream s))
     \<Longrightarrow> book (map (\<lambda>(i, s). (i, f s)) ss) = book ss"
  by (auto simp: book_def)

lemma keeps_modify_stream [keeping]:
  "(\<And>s. stream_money (cs_stream (f s)) = stream_money (cs_stream s)) \<Longrightarrow> keeps c (modify_stream sid f c)"
  by (simp add: keeps_defs modify_stream_def book_map)

lemma keeps_step:
  "keeps c c' \<Longrightarrow> keeps c (emit e c')" "keeps c c' \<Longrightarrow> keeps c (queue_frames fs c')"
  "keeps c c' \<Longrightarrow> keeps c (startSendLoop c')" "keeps c c' \<Longrightarrow> keeps c (add_task t c')"
  "keeps c c' \<Longrightarrow> keeps c (bumpIdle now c')" "keeps c c' \<Longrightarrow> keeps c (stopTimers c')"
  "keeps c c' \<Longrightarrow> keeps c (c'\<lparr>cn_queuedFrames := fs\<rparr>)"
  by (simp_all add: keeps_defs emit_def queue_frames_def startSendLoop_def add_task_def bumpIdle_def stopTimers_def)

lemma keeps_destroy [keeping]: "keeps c (destroy err c)"
  by (auto simp: keeps_defs destroy_def emit_def add_task_def sendConnectionClose_def Let_def book_map on_money_def
      split: option.splits)

lemma keeps_conn_end [keeping]: "keeps c (conn_end c)"
proof -
  let ?c = "c\<lparr>cn_streams := map (\<lambda>(i, s). (i, if isOpen s then s\<lparr>cs_ended := True\<rparr> else s)) (cn_streams c)\<rparr>"
  have "keeps c ?c" by (auto simp: keeps_defs book_def)
  then show ?thesis unfolding conn_end_def Let_def by (intro keeps_step)
qed

lemma stream_money_push: "stream_money (cs_stream (push_data d off s)) = stream_money (cs_stream s)"
  by (simp add: push_data_def pushIncomingData_def split: prod.splits)

lemma stream_money_end_by_remote: "stream_money (cs_stream (end_by_remote m s)) = stream_money (cs_stream s)"
  by (simp add: end_by_remote_def Let_def)

lemma keeps_handleStreamClose [keeping]: "keeps c (handleStreamClose sid m c)"
proof -
  have "keeps c ((modify_stream sid (end_by_remote m) c)\<lparr>cn_maxStreamId := cn_maxStreamId c + 2\<rparr>)"
    using keeps_modify_stream [of "end_by_remote m", OF stream_money_end_by_remote]
    by (simp add: keeps_defs modify_stream_def)
  then show ?thesis
    unfolding handleStreamClose_def Let_def by (auto intro: keeps_step keeps_refl split: option.split)
qed

lemma keeps_handle_data [keeping]: "keeps c (handle_data sid off d c)"
proof -
  have k: "keeps c (modify_stream sid (push_data d off) c)"
    by (rule keeps_modify_stream) (rule stream_money_push)
  show ?thesis
    unfolding handle_data_def Let_def
    by (auto intro: keeps_refl k keeps_trans [OF k keeps_destroy] split: option.split prod.split)
qed

lemma keeps_on_money:
  "(\<And>s :: unit money_stream. stream_money (f s) = stream_money s) \<Longrightarrow> keeps c (modify_stream sid (on_money f) c)"
  by (rule keeps_modify_stream) (simp add: on_money_def)

lemma keeps_handle_max_money [keeping]: "keeps c (handle_max_money sid rmax tot c)"
  unfolding handle_max_money_def Let_def
  by (auto intro!: keeps_step keeps_on_money keeps_refl split: option.split)

lemma keeps_handle_stream_max_data [keeping]: "keeps c (handle_stream_max_data sid n c)"
  unfolding handle_stream_max_data_def
  by (auto intro!: keeps_step keeps_on_money keeps_refl split: option.split)

lemma keeps_handle_conn_close [keeping]: "keeps c (handle_conn_close code m c)"
proof -
  let ?c = "c\<lparr>cn_sending := False, cn_closed := True, cn_remoteState := RemoteClosed\<rparr>"
  have "keeps c ?c" by (simp add: keeps_defs)
  then show ?thesis
    unfolding handle_conn_close_def Let_def by (auto intro: keeps_trans keeps_conn_end keeps_destroy)
qed

lemma keeps_handle_new_address [keeping]: "keeps c (handle_new_address a c)"
  by (simp add: keeps_defs handle_new_address_def queue_frames_def emit_def Let_def)

lemma keeps_handle_max_data [keeping]: "keeps c (handle_max_data x c)"
  by (simp add: keeps_defs handle_max_data_def)

lemma keeps_note_remote [keeping]:
  "keeps c (c\<lparr>cn_destinationAsset := a\<rparr>)" "keeps c (c\<lparr>cn_remoteMaxStreamId := n\<rparr>)"
  by (simp_all add: keeps_defs)

lemma keeps_handle_frame [keeping]: "keeps c (handle_frame f c)"
  by (cases f) (simp_all add: keeping)

lemma keeps_handleControlFrames [keeping]: "keeps c (handleControlFrames fs c)"
proof (induction fs arbitrary: c)
  case (Cons f fs)
  have "keeps (handle_frame f c) (handleControlFrames fs (handle_frame f c))" by (rule Cons)
  with keeps_handle_frame [of c f] show ?case
    unfolding handleControlFrames_def by (auto intro: keeps_trans)
qed (simp add: handleControlFrames_def keeps_refl)

end
