(* ===== verification/Connection_Books.thy ===== *)
theory Connection_Books
  imports Connection
begin

text \<open>
  The identities and the money of the streams of a connection, across everything that opens, closes
  or removes a stream.

  \<open>ids_inv\<close>: a stream object has one id; the ids of the streams that were removed are the closed ones; the ids the
  connection gave out are below the next one and have its parity, the ids the other side opened have the other parity
  and are within the limit told to it. \<open>ledger\<close> sums what the streams received, sent and hold.
\<close>

definition objects :: "conn \<Rightarrow> (nat \<times> conn_stream) list" where
  "objects c = cn_streams c @ cn_detached c"

definition own_id :: "conn \<Rightarrow> nat \<Rightarrow> bool" where
  "own_id c i \<longleftrightarrow> (even i \<longleftrightarrow> cn_isServer c)"

definition ids_inv :: "conn \<Rightarrow> bool" where
  "ids_inv c \<longleftrightarrow> distinct (map fst (objects c)) \<and> set (cn_closedStreams c) = fst ` set (cn_detached c)
     \<and> own_id c (cn_nextStreamId c)
     \<and> (\<forall>i \<in> fst ` set (objects c). if own_id c i then i < cn_nextStreamId c else i \<le> cn_maxStreamId c)"

definition received_in :: "(nat \<times> conn_stream) list \<Rightarrow> nat" where
  "received_in ss = sum_list (map (unat \<circ> totalReceived \<circ> cs_stream \<circ> snd) ss)"

definition sent_in :: "(nat \<times> conn_stream) list \<Rightarrow> nat" where
  "sent_in ss = sum_list (map (unat \<circ> totalSent \<circ> cs_stream \<circ> snd) ss)"

definition held_in :: "(nat \<times> conn_stream) list \<Rightarrow> nat" where
  "held_in ss = sum_list (map (unat \<circ> outgoingHeldAmount \<circ> cs_stream \<circ> snd) ss)"

definition ledger :: "conn \<Rightarrow> nat \<times> nat \<times> nat" where
  "ledger c = (received_in (objects c), sent_in (objects c), held_in (objects c))"

text \<open>The holds of the streams by stream and hold id, and the money of each stream.\<close>

definition holding :: "conn \<Rightarrow> (nat \<times> jsstring \<times> u64) set" where
  "holding c = {(i, k, a). \<exists>m. (i, m) \<in> set (book (objects c)) \<and> map_of (snd (snd (snd m))) k = Some a}"

fun outgoing_money :: "(u64 \<times> u64) \<times> (u64 \<times> u64) \<times> u64 \<times> (jsstring \<times> u64) list \<Rightarrow> u64 \<times> u64 \<times> u64 \<times> (jsstring \<times> u64) list" where
  "outgoing_money ((sent, received), (smax, rmax), held, hs) = (sent, smax, held, hs)"

definition entries_of :: "conn \<Rightarrow> (u64 \<times> u64 \<times> u64 \<times> (jsstring \<times> u64) list) set" where
  "entries_of c = (\<lambda>(i, m). outgoing_money m) ` set (book (objects c))"

section \<open>From the books\<close>

lemma ids_of_book: "book ss = book ss' \<Longrightarrow> map fst ss = map fst ss'"
proof -
  assume "book ss = book ss'"
  then have "map fst (book ss) = map fst (book ss')" by simp
  moreover have "map fst (book xs) = map fst xs" for xs by (auto simp: book_def)
  ultimately show ?thesis by simp
qed

lemma sums_of_book:
  "received_in ss = sum_list (map (\<lambda>(i, (s, r), l, h, hs). unat r) (book ss))"
  "sent_in ss = sum_list (map (\<lambda>(i, (s, r), l, h, hs). unat s) (book ss))"
  "held_in ss = sum_list (map (\<lambda>(i, (s, r), l, h, hs). unat h) (book ss))"
  by (simp_all add: received_in_def sent_in_def held_in_def book_def stream_money_def comp_def case_prod_beta)

lemma book_append: "book (xs @ ys) = book xs @ book ys"
  by (simp add: book_def)

lemma sums_append [simp]:
  "received_in (xs @ ys) = received_in xs + received_in ys"
  "sent_in (xs @ ys) = sent_in xs + sent_in ys"
  "held_in (xs @ ys) = held_in xs + held_in ys"
  by (simp_all add: received_in_def sent_in_def held_in_def)

lemma keeps_ids: "keeps c c' \<Longrightarrow> ids_inv c \<Longrightarrow> ids_inv c'"
proof -
  assume k: "keeps c c'" and inv: "ids_inv c"
  then have "map fst (cn_streams c') = map fst (cn_streams c)" by (intro ids_of_book) (simp add: keeps_def)
  then have "map fst (objects c') = map fst (objects c)" using k by (simp add: objects_def keeps_def)
  moreover from this have "fst ` set (objects c') = fst ` set (objects c)" by (metis list.set_map)
  moreover have "own_id c' = own_id c" using k by (simp add: own_id_def fun_eq_iff keeps_fields)
  ultimately show ?thesis using k inv by (fastforce simp: ids_inv_def keeps_def)
qed

lemma keeps_ledger: "keeps c c' \<Longrightarrow> ledger c' = ledger c"
  by (simp add: keeps_def ledger_def objects_def sums_of_book book_append)

lemma holding_iff:
  "(i, k, a) \<in> holding c \<longleftrightarrow> (\<exists>s. (i, s) \<in> set (objects c) \<and> map_of (holds (cs_stream s)) k = Some a)"
  by (force simp: holding_def book_def stream_money_def)

lemma entries_of_book: "entries_of c = outgoing_money ` snd ` set (book (objects c))"
  by (force simp: entries_of_def)

lemma book_objects: "book (objects c) = book (cn_streams c) @ book (cn_detached c)"
  by (simp add: objects_def book_append)

lemma keeps_holding: "keeps c c' \<Longrightarrow> holding c' = holding c \<and> entries_of c' = entries_of c"
  by (simp add: holding_def entries_of_book book_objects keeps_def)

section \<open>Opening and removing streams\<close>

text \<open>The relation between a state and one in which streams may have been opened or removed.\<close>

definition same_books :: "conn \<Rightarrow> conn \<Rightarrow> bool" where
  "same_books c c' \<longleftrightarrow> conn_config c' = conn_config c \<and> conn_totals c' = conn_totals c
     \<and> ledger c' = ledger c \<and> (ids_inv c \<longrightarrow> ids_inv c') \<and> holding c' = holding c
     \<and> entries_of c' \<subseteq> insert (0, 0, 0, []) (entries_of c)
     \<and> cn_nextPacketSequence c \<le> cn_nextPacketSequence c'"

lemma same_books_refl: "same_books c c"
  by (auto simp: same_books_def)

lemma same_books_trans: "same_books c c' \<Longrightarrow> same_books c' c'' \<Longrightarrow> same_books c c''"
  by (auto simp: same_books_def)

lemma keeps_same_books: "keeps c c' \<Longrightarrow> same_books c c'"
  using keeps_ids keeps_ledger keeps_holding unfolding same_books_def keeps_def by blast

lemma same_books_fields:
  assumes "same_books c c'"
  shows "cn_fulfillmentKey c' = cn_fulfillmentKey c" "cn_pskKey c' = cn_pskKey c"
    "cn_sharedSecret c' = cn_sharedSecret c" "cn_isServer c' = cn_isServer c"
    "cn_connectionTag c' = cn_connectionTag c" "cn_allowableReceiveExtra c' = cn_allowableReceiveExtra c"
    "cn_incomingHold c' = cn_incomingHold c" "cn_totalReceived c' = cn_totalReceived c"
    "cn_totalSent c' = cn_totalSent c" "cn_totalDelivered c' = cn_totalDelivered c"
    "cn_enablePadding c' = cn_enablePadding c" "cn_slippage c' = cn_slippage c"
    "cn_receiptNonce c' = cn_receiptNonce c" "cn_receiptSecret c' = cn_receiptSecret c"
    "ledger c' = ledger c" "holding c' = holding c"
  using assms by (simp_all add: same_books_def conn_config_def conn_totals_def)

lemma update_fresh: "k \<notin> fst ` set xs \<Longrightarrow> AList.update k v xs = xs @ [(k, v)]"
  by (induction xs) auto

lemma new_stream_sums [simp]:
  "received_in ((i, new_conn_stream) # ss) = received_in ss" "sent_in ((i, new_conn_stream) # ss) = sent_in ss"
  "held_in ((i, new_conn_stream) # ss) = held_in ss"
  by (simp_all add: received_in_def sent_in_def held_in_def new_conn_stream_def new_stream_def)

lemma get_stream_None: "get_stream i c = None \<longleftrightarrow> i \<notin> fst ` set (cn_streams c)"
  by (simp add: get_stream_def map_of_eq_None_iff)

lemma fresh_id: "ids_inv c \<Longrightarrow> get_stream i c = None \<Longrightarrow> i \<notin> set (cn_closedStreams c) \<Longrightarrow> i \<notin> fst ` set (objects c)"
  by (auto simp: get_stream_None objects_def ids_inv_def)

text \<open>Adding a stream with a fresh id that obeys the limits.\<close>

lemma add_stream:
  assumes fresh: "i \<notin> fst ` set (cn_streams c)" "i \<notin> set (cn_closedStreams c)"
    and c': "conn_config c' = conn_config c" "conn_totals c' = conn_totals c" "cn_detached c' = cn_detached c"
      "cn_closedStreams c' = cn_closedStreams c" "cn_maxStreamId c' = cn_maxStreamId c" "cn_nextPacketSequence c \<le> cn_nextPacketSequence c'"
      "cn_streams c' = AList.update i new_conn_stream (cn_streams c)"
    and nxt: "cn_nextStreamId c \<le> cn_nextStreamId c'" "own_id c (cn_nextStreamId c) \<Longrightarrow> own_id c (cn_nextStreamId c')"
    and id: "if own_id c i then i < cn_nextStreamId c' else i \<le> cn_maxStreamId c"
  shows "same_books c c'"
proof -
  have s: "cn_streams c' = cn_streams c @ [(i, new_conn_stream)]" using c'(7) fresh(1) by (simp add: update_fresh)
  have "ledger c' = ledger c" using c'(3) by (simp add: ledger_def objects_def s)
  moreover have "set (book (objects c')) = insert (i, stream_money (new_stream :: unit money_stream)) (set (book (objects c)))"
    using c'(3) by (auto simp: book_objects s book_append) (auto simp: book_def new_conn_stream_def)
  then have "holding c' = holding c"
    "entries_of c' \<subseteq> insert (0, 0, 0, []) (entries_of c)"
    unfolding holding_def entries_of_book by (auto simp: stream_money_def new_stream_def) blast+
  moreover have "own_id c' = own_id c" using c'(1) by (simp add: own_id_def fun_eq_iff conn_config_def)
  moreover have "fst ` set (objects c') = insert i (fst ` set (objects c))" using c'(3) by (auto simp: objects_def s)
  moreover have "distinct (map fst (objects c'))" if "ids_inv c"
    using that fresh c'(3) by (auto simp: ids_inv_def objects_def s)
  ultimately show ?thesis using c' nxt id unfolding same_books_def ids_inv_def
    by (auto split: if_splits intro: less_le_trans)
qed

lemma handleNewStream_books:
  assumes "handleNewStream i c = (b, c')"
  shows "same_books c c'"
proof (cases "get_stream i c \<noteq> None \<or> i \<in> set (cn_closedStreams c)")
  case True
  with assms show ?thesis by (auto simp: handleNewStream_def same_books_refl)
next
  case fresh: False
  show ?thesis
  proof (cases b)
    case False
    then have "\<exists>code m. c' = emit (EvError m) (queue_frames [ConnectionClose code m] c)"
      using assms fresh by (auto simp: handleNewStream_def close_with_def Let_def split: if_splits)
    then obtain code m where "c' = emit (EvError m) (queue_frames [ConnectionClose code m] c)" by blast
    then show ?thesis by (auto intro!: keeps_same_books keeps_step keeps_refl)
  next
    case True
    show ?thesis
      using assms fresh True
      by (intro add_stream [where i = i])
        (auto simp: handleNewStream_def close_with_def Let_def get_stream_None conn_config_def conn_totals_def
          own_id_def emit_def queue_frames_def even_iff_mod_2_eq_zero odd_iff_mod_2_eq_one split: if_splits)
  qed
qed

lemma createStream_books:
  assumes inv: "ids_inv c" and step: "createStream c = (r, c')"
  shows "same_books c c'"
proof (cases r)
  case (Inl e)
  then have "c' = queue_frames [ConnectionStreamIdBlocked (ulong_of (int (cn_nextStreamId c)))] c"
    using step by (auto simp: createStream_def Let_def split: if_splits)
  then show ?thesis by (auto intro!: keeps_same_books keeps_step keeps_refl)
next
  case (Inr i)
  have "i \<notin> fst ` set (objects c)" using inv step Inr
    by (auto simp: ids_inv_def createStream_def Let_def split: if_splits)
  moreover have "set (cn_closedStreams c) \<subseteq> fst ` set (objects c)" using inv by (auto simp: ids_inv_def objects_def)
  ultimately show ?thesis
    using inv step Inr
    by (intro add_stream [where i = i])
      (auto simp: createStream_def Let_def conn_config_def conn_totals_def own_id_def objects_def ids_inv_def
        split: if_splits)
qed

lemma same_books_loop: "same_books c c' \<Longrightarrow> same_books c (startSendLoop (queue_frames fs c'))"
  using keeps_step(3) [OF keeps_step(2) [OF keeps_refl], of c' fs] by (blast intro: same_books_trans keeps_same_books)

lemma removeStreamRecord_books: 
  assumes inv: "ids_inv c"
  shows "same_books c (removeStreamRecord i c)"
proof (cases "get_stream i c")
  case None
  then show ?thesis by (simp add: removeStreamRecord_def same_books_refl)
next
  case (Some s)
  define s' where "s' = s\<lparr>cs_stream := (cs_stream s)\<lparr>sentEnd := True\<rparr>\<rparr>"
  define c1 where "c1 = c\<lparr>cn_streams := AList.delete i (cn_streams c),
     cn_closedStreams := List.insert i (cn_closedStreams c), cn_detached := (i, s') # cn_detached c\<rparr>"
  have d: "distinct (map fst (cn_streams c))" using inv by (simp add: ids_inv_def objects_def)
  have sum: "sum_list (map (f \<circ> cs_stream \<circ> snd) xs)
      = f (cs_stream s) + sum_list (map (f \<circ> cs_stream \<circ> snd) (AList.delete i xs))"
    if "distinct (map fst xs)" "map_of xs i = Some s" for f :: "unit money_stream \<Rightarrow> nat" and xs
    using that
  proof (induction xs)
    case (Cons x xs)
    then show ?case by (cases x; cases "fst x = i") (auto simp: delete_id image_iff)
  qed simp
  have m: "map_of (cn_streams c) i = Some s" using Some by (simp add: get_stream_def)
  have "ledger c1 = ledger c"
    using sum [OF d m, of "unat \<circ> totalReceived"] sum [OF d m, of "unat \<circ> totalSent"]
      sum [OF d m, of "unat \<circ> outgoingHeldAmount"]
    by (simp add: ledger_def objects_def c1_def s'_def received_in_def sent_in_def held_in_def comp_def)
  moreover have "set (book (objects c1)) = set (book (objects c))"
  proof -
    have "book (AList.delete i xs) = filter (\<lambda>p. fst p \<noteq> i) (book xs)" for xs
      by (induction xs) (auto simp: book_def)
    moreover have "(i, stream_money (cs_stream s)) \<in> set (book (cn_streams c))"
      using map_of_SomeD [OF m] by (force simp: book_def)
    moreover have "snd p = stream_money (cs_stream s)" if "p \<in> set (book (cn_streams c))" "fst p = i" for p
      using that map_of_is_SomeI [OF d] m by (fastforce simp: book_def)
    moreover have "book ((i, s') # xs) = (i, stream_money (cs_stream s)) # book xs" for xs
      by (simp add: book_def s'_def)
    ultimately show ?thesis by (auto simp: book_objects c1_def)
  qed
  then have "holding c1 = holding c" "entries_of c1 = entries_of c" by (simp_all add: holding_def entries_of_book)
  moreover have "ids_inv c1"
  proof -
    have "i \<in> fst ` set (cn_streams c)" using m by (metis map_of_eq_None_iff option.distinct(1))
    moreover have keys: "map fst (objects c1) = removeAll i (map fst (cn_streams c)) @ i # map fst (cn_detached c)"
      by (simp add: objects_def c1_def AList.delete_keys)
    ultimately have "fst ` set (objects c1) = fst ` set (objects c)"
      unfolding list.set_map [symmetric] keys by (auto simp: objects_def)
    moreover have "distinct (map fst (objects c1))"
      unfolding keys using inv \<open>i \<in> fst ` set (cn_streams c)\<close>
      by (auto simp: ids_inv_def objects_def distinct_removeAll)
    ultimately show ?thesis using inv by (auto simp: ids_inv_def c1_def own_id_def objects_def)
  qed
  ultimately have "same_books c c1"
    unfolding same_books_def by (auto simp: c1_def conn_config_def conn_totals_def)
  then show ?thesis using Some same_books_loop [of c c1]
    by (simp add: removeStreamRecord_def c1_def s'_def Let_def)
qed

section \<open>Crediting the streams\<close>

lemma map_ids: "map fst (map (\<lambda>(i, s). (i, g i s)) ss) = map fst ss"
  by auto

lemma one_changed:
  fixes f g :: "conn_stream \<Rightarrow> nat"
  assumes "distinct (map fst ss)" "\<And>s. f (h s) \<le> f s + n"
  shows "sum_list (map (f \<circ> snd) (map (\<lambda>(i, s). (i, if i = k then h s else s)) ss)) \<le> sum_list (map (f \<circ> snd) ss) + n"
  using assms
proof (induction ss)
  case (Cons p ss)
  obtain i s where p: "p = (i, s)" by (cases p)
  show ?case
  proof (cases "i = k")
    case True
    then have "map (\<lambda>(i, s). (i, if i = k then h s else s)) ss = ss"
      using Cons.prems(1) p by (intro map_idI) force
    with True p Cons.prems(2) [of s] show ?thesis by simp
  qed (use Cons p in simp)
qed simp

lemma one_changed_exactly:
  fixes f :: "conn_stream \<Rightarrow> nat"
  assumes "distinct (map fst ss)" "(k, s) \<in> set ss"
  shows "sum_list (map (f \<circ> snd) (map (\<lambda>(i, s). (i, if i = k then h s else s)) ss)) + f s
    = sum_list (map (f \<circ> snd) ss) + f (h s)"
  using assms
proof (induction ss)
  case (Cons p ss)
  obtain i s' where p: "p = (i, s')" by (cases p)
  show ?case
  proof (cases "i = k")
    case True
    then have "map (\<lambda>(i, s). (i, if i = k then h s else s)) ss = ss"
      using Cons.prems(1) p by (intro map_idI) force
    moreover have "s' = s" using Cons.prems p True by force
    ultimately show ?thesis using True p by simp
  qed (use Cons p in auto)
qed simp

lemma objects_map_object:
  "objects (map_object k f c) = map (\<lambda>(i, s). (i, if i = k then on_money f s else s)) (objects c)"
  by (simp add: objects_def map_object_def Let_def)

lemma map_object_ids: "map fst (objects (map_object k f c)) = map fst (objects c)"
  unfolding objects_map_object by auto

lemma map_object_other:
  "conn_config (map_object k f c) = conn_config c" "conn_totals (map_object k f c) = conn_totals c"
  "cn_nextPacketSequence (map_object k f c) = cn_nextPacketSequence c"
  by (simp_all add: map_object_def conn_config_def conn_totals_def Let_def)

lemma map_object_ids_inv: "ids_inv (map_object k f c) = ids_inv c"
proof -
  have "fst ` set (cn_detached (map_object k f c)) = fst ` set (cn_detached c)"
    by (force simp: map_object_def Let_def image_iff split: prod.split)
  moreover have "fst ` set (objects (map_object k f c)) = fst ` set (objects c)"
    by (metis map_object_ids list.set_map)
  moreover have "own_id (map_object k f c) = own_id c" by (simp add: own_id_def map_object_def Let_def fun_eq_iff)
  ultimately show ?thesis unfolding ids_inv_def map_object_ids by (simp add: map_object_def Let_def)
qed

lemma credit_le:
  assumes "ids_inv c"
  shows "received_in (objects (map_object k (addToIncoming am) c)) \<le> received_in (objects c) + unat am"
proof -
  have le: "unat (totalReceived (cs_stream (on_money (addToIncoming am) s))) \<le> unat (totalReceived (cs_stream s)) + unat am" for s
    using checkedAdd_sat [of "totalReceived (cs_stream s)" am] by (simp add: on_money_def addToIncoming_def)
  show ?thesis
    using one_changed [of "objects c" "unat \<circ> totalReceived \<circ> cs_stream" "on_money (addToIncoming am)" "unat am" k] assms le
    by (simp add: ids_inv_def received_in_def objects_map_object comp_assoc)
qed

lemma received_member: "(k, s) \<in> set ss \<Longrightarrow> unat (totalReceived (cs_stream s)) \<le> received_in ss"
  unfolding received_in_def by (rule member_le_sum_list) (force, simp)

lemma credit_exact:
  assumes inv: "ids_inv c" and k: "k \<in> fst ` set (objects c)" and fits: "received_in (objects c) + unat am < 2 ^ 64"
  shows "received_in (objects (map_object k (addToIncoming am) c)) = received_in (objects c) + unat am"
proof -
  obtain s where s: "(k, s) \<in> set (objects c)" using k by force
  have "unat (totalReceived (cs_stream s)) + unat am < 2 ^ 64" using received_member [OF s] fits by linarith
  then have "unat (totalReceived (cs_stream (on_money (addToIncoming am) s))) = unat (totalReceived (cs_stream s)) + unat am"
    using checkedAdd_sat [of "totalReceived (cs_stream s)" am] by (simp add: on_money_def addToIncoming_def)
  then show ?thesis
    using one_changed_exactly [of "objects c" k s "unat \<circ> totalReceived \<circ> cs_stream" "on_money (addToIncoming am)"] inv s
    by (simp add: ids_inv_def received_in_def objects_map_object comp_assoc)
qed

lemma credit_ledger: "snd (ledger (map_object k (addToIncoming am) c)) = snd (ledger c)"
proof -
  have "sent_in (map (\<lambda>(i, s). (i, if i = k then on_money (addToIncoming am) s else s)) ss) = sent_in ss"
    "held_in (map (\<lambda>(i, s). (i, if i = k then on_money (addToIncoming am) s else s)) ss) = held_in ss" for ss
    by (induction ss) (auto simp: sent_in_def held_in_def on_money_def addToIncoming_def)
  then show ?thesis by (simp add: ledger_def objects_map_object)
qed

lemma credit_outgoing:
  "holding (map_object k (addToIncoming am) c) = holding c"
  "entries_of (map_object k (addToIncoming am) c) = entries_of c"
proof -
  let ?g = "\<lambda>(i, (s, r), lim, h, hs). (i, (s, if i = k then add_sum (checkedAdd r am) else r), lim, h, hs)"
  have b: "book (objects (map_object k (addToIncoming am) c)) = map ?g (book (objects c))"
    by (auto simp: objects_map_object book_def stream_money_def on_money_def addToIncoming_def)
  show "holding (map_object k (addToIncoming am) c) = holding c"
    unfolding holding_def b by (force simp: image_iff)
  show "entries_of (map_object k (addToIncoming am) c) = entries_of c"
    unfolding entries_of_def b by (force simp: image_iff)
qed

section \<open>Outgoing money\<close>

fun entry_ok :: "nat \<Rightarrow> u64 \<times> u64 \<times> u64 \<times> (jsstring \<times> u64) list \<Rightarrow> bool" where
  "entry_ok M (sent, smax, held, hs) \<longleftrightarrow>
     unat held = holds_sum hs \<and> distinct (map fst hs) \<and> unat sent + unat held \<le> M \<and> unat smax \<le> M"

lemma entry_ok_inv: "entry_ok M (outgoing_money (stream_money s)) \<longleftrightarrow> money_inv M s"
  by (simp add: stream_money_def money_inv_def)

text \<open>Every stream keeps the invariant of \<open>Money_Stream\<close> below the limit \<open>M\<close>.\<close>

definition money_ok :: "nat \<Rightarrow> conn \<Rightarrow> bool" where
  "money_ok M c \<longleftrightarrow> (\<forall>e \<in> entries_of c. entry_ok M e)"

lemma entries_of_objects: "entries_of c = (\<lambda>(i, s). outgoing_money (stream_money (cs_stream s))) ` set (objects c)"
  by (force simp: entries_of_def book_def)

lemma money_ok_iff: "money_ok M c \<longleftrightarrow> (\<forall>(i, s) \<in> set (objects c). money_inv M (cs_stream s))"
  by (auto simp: money_ok_def entries_of_objects entry_ok_inv split: prod.splits)

lemma money_ok_insert: "entries_of c' \<subseteq> insert (0, 0, 0, []) (entries_of c) \<Longrightarrow> money_ok M c \<Longrightarrow> money_ok M c'"
  by (auto simp: money_ok_def holds_sum_def dest!: subsetD)

lemma same_books_money_ok: "same_books c c' \<Longrightarrow> money_ok M c \<Longrightarrow> money_ok M c'"
  unfolding same_books_def by (blast intro: money_ok_insert)

text \<open>A change to a stream of the map is a change to the object.\<close>

lemma modify_is_map_object:
  assumes "ids_inv c" "i \<in> fst ` set (cn_streams c)"
  shows "modify_stream i (on_money f) c = map_object i f c"
proof -
  have "i \<notin> fst ` set (cn_detached c)" using assms by (auto simp: ids_inv_def objects_def)
  then have "map (\<lambda>(j, s). (j, if j = i then on_money f s else s)) (cn_detached c) = cn_detached c"
    by (intro map_idI) (auto simp: image_iff)
  then show ?thesis by (simp add: modify_stream_def map_object_def Let_def)
qed

lemma modify_missing:
  "i \<notin> fst ` set (cn_streams c) \<Longrightarrow> modify_stream i f c = c"
proof -
  assume "i \<notin> fst ` set (cn_streams c)"
  then have "map (\<lambda>(j, s). (j, if j = i then f s else s)) (cn_streams c) = cn_streams c"
    by (intro map_idI) (auto simp: image_iff)
  then show ?thesis by (simp add: modify_stream_def)
qed

lemma map_object_holding:
  "(j, k, a) \<in> holding (map_object i f c) \<longleftrightarrow>
     (\<exists>s. (j, s) \<in> set (objects c) \<and> map_of (holds (if j = i then f (cs_stream s) else cs_stream s)) k = Some a)"
  unfolding holding_iff objects_map_object by (force simp: on_money_def)

lemma map_object_money_ok:
  assumes "money_ok M c" "\<And>s. (i, s) \<in> set (objects c) \<Longrightarrow> money_inv M (cs_stream s) \<Longrightarrow> money_inv M (f (cs_stream s))"
  shows "money_ok M (map_object i f c)"
  using assms unfolding money_ok_iff objects_map_object by (fastforce simp: on_money_def)

text \<open>The operations that only give holds back: money that was sent or received stays as it is.\<close>

definition releases :: "conn \<Rightarrow> conn \<Rightarrow> bool" where
  "releases c c' \<longleftrightarrow> conn_config c' = conn_config c \<and> conn_totals c' = conn_totals c
     \<and> received_in (objects c') = received_in (objects c) \<and> sent_in (objects c') = sent_in (objects c)
     \<and> (ids_inv c \<longrightarrow> ids_inv c') \<and> holding c' \<subseteq> holding c \<and> (\<forall>M. money_ok M c \<longrightarrow> money_ok M c')
     \<and> cn_nextPacketSequence c \<le> cn_nextPacketSequence c'"

lemma releases_trans: "releases c c' \<Longrightarrow> releases c' c'' \<Longrightarrow> releases c c''"
  by (auto simp: releases_def)

lemma same_books_releases: "same_books c c' \<Longrightarrow> releases c c'"
  using same_books_money_ok unfolding same_books_def releases_def ledger_def by auto

lemma keeps_releases: "keeps c c' \<Longrightarrow> releases c c'"
  by (intro same_books_releases keeps_same_books)

lemma map_object_sums:
  assumes "\<And>s. totalReceived (f s) = totalReceived s"
  shows "received_in (objects (map_object i f c)) = received_in (objects c)"
proof -
  have "map (unat \<circ> totalReceived \<circ> cs_stream \<circ> snd) (map (\<lambda>(j, s). (j, if j = i then on_money f s else s)) ss)
      = map (unat \<circ> totalReceived \<circ> cs_stream \<circ> snd) ss" for ss
    using assms by (auto simp: on_money_def)
  then show ?thesis by (simp only: received_in_def objects_map_object)
qed

lemma map_object_sent:
  assumes "\<And>s. totalSent (f s) = totalSent s"
  shows "sent_in (objects (map_object i f c)) = sent_in (objects c)"
proof -
  have "map (unat \<circ> totalSent \<circ> cs_stream \<circ> snd) (map (\<lambda>(j, s). (j, if j = i then on_money f s else s)) ss)
      = map (unat \<circ> totalSent \<circ> cs_stream \<circ> snd) ss" for ss
    using assms by (auto simp: on_money_def)
  then show ?thesis by (simp only: sent_in_def objects_map_object)
qed

lemma map_of_delete_sub: "map_of (AList.delete k hs) j = Some a \<Longrightarrow> map_of hs j = Some a"
  by (metis delete_conv' fun_upd_apply option.distinct(1))

lemma releases_cancel:
  assumes "ids_inv c"
  shows "releases c (modify_stream i (on_money (cancelHold k)) c)"
proof (cases "i \<in> fst ` set (cn_streams c)")
  case True
  have sub: "map_of (holds (cancelHold k s)) j = Some a \<Longrightarrow> map_of (holds s) j = Some a" for s :: "unit money_stream" and j a
    by (auto simp: cancelHold_def dest: map_of_delete_sub split: option.splits)
  have frame: "totalReceived (cancelHold k s) = totalReceived s" "totalSent (cancelHold k s) = totalSent s" for s :: "unit money_stream"
    by (simp_all add: cancelHold_def split: option.split)
  have "(j, h, b) \<in> holding (map_object i (cancelHold k) c) \<Longrightarrow> (j, h, b) \<in> holding c" for j h b
    unfolding map_object_holding by (auto simp: holding_iff dest: sub split: if_splits)
  then have "holding (map_object i (cancelHold k) c) \<subseteq> holding c" by auto
  then show ?thesis
    unfolding modify_is_map_object [OF assms True] releases_def
    by (auto simp: map_object_other map_object_ids_inv map_object_sums map_object_sent frame
        intro: map_object_money_ok cancelHold_inv)
qed (simp add: modify_missing keeps_releases keeps_refl)

section \<open>Executing the holds of a packet\<close>

definition executes :: "nat \<Rightarrow> conn \<Rightarrow> conn \<Rightarrow> bool" where
  "executes n c c' \<longleftrightarrow> conn_config c' = conn_config c \<and> conn_totals c' = conn_totals c
     \<and> received_in (objects c') = received_in (objects c) \<and> sent_in (objects c') = sent_in (objects c) + n
     \<and> ids_inv c' \<and> holding c' \<subseteq> holding c \<and> cn_nextPacketSequence c' = cn_nextPacketSequence c"

lemma execute_one:
  assumes inv: "ids_inv c" "money_ok M c" "M < 2 ^ 63" and hold: "(i, k, a) \<in> holding c"
  shows "executes (unat a) c (map_object i (executeHold k) c)"
    and "money_ok M (map_object i (executeHold k) c)"
    and "j \<noteq> i \<Longrightarrow> (j, k', b) \<in> holding c \<Longrightarrow> (j, k', b) \<in> holding (map_object i (executeHold k) c)"
proof -
  obtain s where s: "(i, s) \<in> set (objects c)" "map_of (holds (cs_stream s)) k = Some a"
    using hold by (auto simp: holding_iff)
  have m: "money_inv M (cs_stream s)" using inv(2) s(1) by (auto simp: money_ok_iff)
  have "unat (totalSent (cs_stream s)) + unat (outgoingHeldAmount (cs_stream s)) \<le> M" using m by (simp add: money_inv_def)
  moreover have "unat (outgoingHeldAmount (cs_stream s)) \<ge> unat a"
    using release_inv(1) [OF m s(2)] by linarith
  ultimately have "unat (totalSent (cs_stream s) + a) = unat (totalSent (cs_stream s)) + unat a"
    using inv(3) by (intro unat_add_u64) simp
  then have sent: "unat (totalSent (cs_stream (on_money (executeHold k) s))) = unat (totalSent (cs_stream s)) + unat a"
    using s(2) by (simp add: on_money_def executeHold_def)
  have d: "distinct (map fst (objects c))" using inv(1) by (simp add: ids_inv_def)
  have "sent_in (objects (map_object i (executeHold k) c)) = sent_in (objects c) + unat a"
    using one_changed_exactly [OF d s(1), of "unat \<circ> totalSent \<circ> cs_stream" "on_money (executeHold k)"] sent
    by (simp add: sent_in_def objects_map_object comp_assoc)
  moreover have sub: "map_of (holds (executeHold k s)) j = Some b \<Longrightarrow> map_of (holds s) j = Some b" for s :: "unit money_stream" and j b
    by (auto simp: executeHold_def dest: map_of_delete_sub split: option.splits)
  have "(j, h, b) \<in> holding (map_object i (executeHold k) c) \<Longrightarrow> (j, h, b) \<in> holding c" for j h b
    unfolding map_object_holding by (auto simp: holding_iff dest: sub split: if_splits)
  then have "holding (map_object i (executeHold k) c) \<subseteq> holding c" by auto
  moreover have "totalReceived (executeHold k s) = totalReceived s" for s :: "unit money_stream"
    by (simp add: executeHold_def split: option.split)
  ultimately show "executes (unat a) c (map_object i (executeHold k) c)"
    using inv(1) by (simp add: executes_def map_object_other map_object_ids_inv map_object_sums)
  show "money_ok M (map_object i (executeHold k) c)"
    using inv by (intro map_object_money_ok executeHold_inv)
  show "(j, k', b) \<in> holding (map_object i (executeHold k) c)" if "j \<noteq> i" "(j, k', b) \<in> holding c"
    using that unfolding map_object_holding by (auto simp: holding_iff)
qed

lemma execute_all:
  assumes "list_all2 (\<lambda>i a. (i, k, a) \<in> holding c) ids as" "distinct ids" "ids_inv c" "money_ok M c" "M < 2 ^ 63"
  shows "executes (sum_list (map unat as)) c (fold (\<lambda>i. map_object i (executeHold k)) ids c)
    \<and> money_ok M (fold (\<lambda>i. map_object i (executeHold k)) ids c)"
  using assms
proof (induction ids arbitrary: as c)
  case Nil
  then show ?case by (simp add: executes_def)
next
  case (Cons i ids)
  obtain a as' where as: "as = a # as'" "(i, k, a) \<in> holding c" "list_all2 (\<lambda>i a. (i, k, a) \<in> holding c) ids as'"
    using Cons.prems(1) by (cases as) auto
  let ?c = "map_object i (executeHold k) c"
  note one = execute_one [OF Cons.prems(3-5) as(2)]
  have "list_all2 (\<lambda>i a. (i, k, a) \<in> holding ?c) ids as'"
    using as(3) Cons.prems(2) by (auto simp: list_all2_conv_all_nth intro!: one(3))
  then have "executes (sum_list (map unat as')) ?c (fold (\<lambda>i. map_object i (executeHold k)) ids ?c)
      \<and> money_ok M (fold (\<lambda>i. map_object i (executeHold k)) ids ?c)"
    using Cons.IH [of ?c as'] Cons.prems one(1,2) by (simp add: executes_def)
  then show ?case using one(1) as(1) by (auto simp: executes_def)
qed

end
