(* ===== verification/Connection_Send.thy ===== *)
theory Connection_Send
  imports Connection_Books
begin

text \<open>
  The send loop of \<^verbatim>\<open>ilp-protocol-stream/src/connection.ts\<close>: \<open>loadAndSendPacket\<close>, \<open>sendPacket\<close>,
  \<open>undoRejectedPacket\<close> and \<open>handleConnectorError\<close>.

  \<open>loadAndSendPacket\<close> waits for the reply of the plugin inside \<open>sendPacket\<close>: \<open>load_packet\<close> and
  \<open>packet_prepare\<close> are the code up to there, \<open>handle_response\<close> and \<open>apply_response\<close> the code after it. An exception is
  the \<open>Inl\<close> of a result; the loop turns it into \<open>loop_catch\<close>. There is one packet in flight at a time, but the other handlers of the
  connection may run while it is.
\<close>

section \<open>Loading a packet\<close>

record loading =
  ld_frames :: "frame list"
  ld_amount :: u64
  ld_left :: u64
  ld_from :: "nat list"
  ld_conn :: conn

text \<open>How much one stream may send: what it has, what fits the packet, what the receiver takes.\<close>

definition amount_from_stream :: "rational \<Rightarrow> u64 \<Rightarrow> 'cb money_stream \<Rightarrow> u64 result" where
  "amount_from_stream rate left s =
     (let amountToSend = minLong (getAmountAvailableToSend s) left;
          maxDestinationAmount = difference (checkedSubtract (remoteReceiveMax s) (remoteReceived s))
      in ebind (reciprocal rate) (\<lambda>inv.
         ebind (multiplyByLongCeil inv maxDestinationAmount) (\<lambda>maxSourceAmount.
           Inr (if maxSourceAmount < amountToSend then maxSourceAmount else amountToSend))))"

definition money_blocked :: "rational \<Rightarrow> u64 \<Rightarrow> 'cb money_stream \<Rightarrow> bool result" where
  "money_blocked rate sending s =
     ebind (multiplyByLong rate (sendMax s - totalSent s - sending)) (\<lambda>wanted.
       Inr (wanted > difference (checkedSubtract (remoteReceiveMax s) (remoteReceived s))))"

text \<open>An exception leaves the state as it is when it is thrown.\<close>

definition at_conn :: "conn \<Rightarrow> 'a result \<Rightarrow> js_error \<times> conn + 'a" where
  "at_conn c m = (case m of Inl e \<Rightarrow> Inl (e, c) | Inr a \<Rightarrow> Inr a)"

definition load_stream :: "rational \<Rightarrow> nat \<Rightarrow> nat \<Rightarrow> conn_stream \<Rightarrow> loading \<Rightarrow> js_error \<times> conn + loading" where
  "load_stream rate seq sid cs l =
     ebind (at_conn (ld_conn l) (amount_from_stream rate (ld_left l) (cs_stream cs))) (\<lambda>am.
       let held = on_money (\<lambda>s. snd (holdOutgoing (dec_of_nat seq) (Some am) s));
           l1 = (if am > 0
                 then l\<lparr>ld_frames := ld_frames l @ [StreamMoney (ulong_of (int sid)) am],
                        ld_amount := ld_amount l + am, ld_left := ld_left l - am,
                        ld_from := ld_from l @ [sid], ld_conn := modify_stream sid held (ld_conn l)\<rparr>
                 else l);
           st = cs_stream (if am > 0 then held cs else cs)
       in ebind (at_conn (ld_conn l1) (money_blocked rate am st)) (\<lambda>blocked.
            Inr (if blocked
                 then l1\<lparr>ld_frames := ld_frames l1 @ [StreamMoneyBlocked (ulong_of (int sid)) (sendMax st) (totalSent st)]\<rparr>
                 else l1)))"

text \<open>The loop over the streams, with its \<open>continue\<close> and its \<open>break\<close>.\<close>

fun load_money :: "rational \<Rightarrow> nat \<Rightarrow> (nat \<times> conn_stream) list \<Rightarrow> loading \<Rightarrow> js_error \<times> conn + loading" where
  "load_money rate seq [] l = Inr l"
| "load_money rate seq ((sid, cs) # rest) l =
     (if sentEnd (cs_stream cs) then load_money rate seq rest l
      else ebind (load_stream rate seq sid cs l) (\<lambda>l1.
        if ld_left l1 = 0 then Inr l1 else load_money rate seq rest l1))"

fun load_data :: "(nat \<times> conn_stream) list \<Rightarrow> int \<Rightarrow> frame list \<Rightarrow> conn \<Rightarrow> js_error \<times> conn + frame list \<times> conn" where
  "load_data [] bytesLeft fs c = Inr (fs, c)"
| "load_data ((sid, cs) # rest) bytesLeft fs c =
     (if bytesLeft - 20 \<le> 0 then Inr (fs, c)
      else
        case getAvailableDataToSend (nat (bytesLeft - 20)) (cs_stream cs) of
          ((data, off), callbacks, st) \<Rightarrow>
            let c1 = modify_stream sid (on_money (\<lambda>_. st)) c;
                blocked = (case isDataBlocked st of
                    Some n \<Rightarrow> if n \<noteq> 0 then [StreamDataBlocked (ulong_of (int sid)) (ulong_of (int n))] else []
                  | None \<Rightarrow> [])
            in case data of
                 Some d \<Rightarrow>
                   if d \<noteq> [] then
                     let f = StreamData (ulong_of (int sid)) (ulong_of (int off)) d
                     in ebind (at_conn c1 (frame_byteLength f)) (\<lambda>n.
                          load_data rest (bytesLeft - n) (fs @ f # blocked) c1)
                   else load_data rest bytesLeft (fs @ blocked) c1
               | None \<Rightarrow> load_data rest bytesLeft (fs @ blocked) c1)"

fun must_arrive :: "frame \<Rightarrow> bool" where
  "must_arrive (StreamClose i code m) = True"
| "must_arrive (StreamData i off d) = True"
| "must_arrive (StreamMoney i s) = True"
| "must_arrive _ = False"

record loaded =
  ldd_request :: stream_packet
  ldd_amount :: u64
  ldd_from :: "nat list"

definition max_from_streams :: "rational \<Rightarrow> conn \<Rightarrow> u64 result" where
  "max_from_streams rate c =
     (let test = testMaximumPacketAmount (cn_congestion c)
      in if greaterThanOne rate
         then ebind (reciprocal rate) (\<lambda>inv. ebind (multiplyByLong inv MAX_UNSIGNED_VALUE) (\<lambda>m.
                Inr (minLong test m)))
         else Inr test)"

definition open_limits :: "conn \<Rightarrow> frame list" where
  "open_limits c = concat (map (\<lambda>(i, s). if isOpen s then limit_frames i s else []) (cn_streams c))"

definition request_of :: "nat \<Rightarrow> u64 \<Rightarrow> frame list \<Rightarrow> stream_packet" where
  "request_of seq am fs =
     \<lparr>sequence = ulong_of (int seq), ilpPacketType = type_byte Prepare, prepareAmount = am, frames = fs\<rparr>"

text \<open>The bytes that are left for data under the limits of the packet and of the connection.\<close>

definition data_room :: "nat \<Rightarrow> frame list \<Rightarrow> conn \<Rightarrow> (int \<times> frame list) result" where
  "data_room seq fs c =
     ebind (byteLength (request_of seq 0 fs)) (\<lambda>n.
       let bytesLeft = int MAX_DATA_SIZE - n;
           (current, mx) = conn_getOutgoingOffsets c;
           remoteRoom = int (cn_remoteMaxOffset c) - int current
       in Inr (if bytesLeft > remoteRoom then (remoteRoom, fs @ [ConnectionDataBlocked (ulong_of (int mx))])
               else (bytesLeft, fs)))"

definition minimum_destination :: "rational \<Rightarrow> u64 \<Rightarrow> conn \<Rightarrow> u64 result" where
  "minimum_destination rate am c =
     ebind (complement (cn_slippage c)) (\<lambda>q. ebind (multiplyByLong rate am) (multiplyByLong q))"

text \<open>The frames of a new packet and the streams after it.\<close>

definition load_frames :: "nat \<Rightarrow> conn \<Rightarrow> js_error \<times> conn + rational \<times> loading" where
  "load_frames seq c =
     (let closing = (cn_closed c \<and> cn_remoteState c = RemoteConnected);
          fs = cn_queuedFrames c @ account_frames c @ open_limits c
                 @ (if closing then [ConnectionClose NoError []] else []);
          c1 = c\<lparr>cn_queuedFrames := [], cn_remoteState := (if closing then RemoteClosed else cn_remoteState c)\<rparr>
      in case cn_exchangeRate c1 of
           None \<Rightarrow> Inl (Error ''Tried to send without an exchange rate established'', c1)
         | Some rate \<Rightarrow>
             ebind (at_conn c1 (max_from_streams rate c1)) (\<lambda>mx.
             ebind (load_money rate seq (cn_streams c1)
                      \<lparr>ld_frames = fs, ld_amount = 0, ld_left = mx, ld_from = [], ld_conn = c1\<rparr>) (\<lambda>l.
             ebind (at_conn (ld_conn l) (data_room seq (ld_frames l) (ld_conn l))) (\<lambda>(room, fs1).
             ebind (load_data (cn_streams (ld_conn l)) room fs1 (ld_conn l)) (\<lambda>(fs2, c2).
               Inr (rate, l\<lparr>ld_frames := fs2, ld_conn := c2\<rparr>))))))"

text \<open>\<open>None\<close>: there is nothing to send and the loop stops.\<close>

definition finish_loading :: "nat \<Rightarrow> rational \<Rightarrow> loading \<Rightarrow> js_error \<times> conn + loaded option \<times> conn" where
  "finish_loading seq rate l =
     (let c = ld_conn l; fs = ld_frames l
      in if ld_amount l = 0 \<and> fs = [] then Inr (None, c\<lparr>cn_sending := False\<rparr>)
         else
           let c1 = (if ld_amount l = 0 \<and> \<not> list_ex must_arrive fs then c\<lparr>cn_sending := False\<rparr> else c)
           in ebind (at_conn c1 (minimum_destination rate (ld_amount l) c1)) (\<lambda>m.
                Inr (Some \<lparr>ldd_request = request_of seq m fs, ldd_amount = ld_amount l, ldd_from = ld_from l\<rparr>, c1)))"

definition load_packet :: "conn \<Rightarrow> js_error \<times> conn + loaded option \<times> conn" where
  "load_packet c =
     (case getNextPacketSequence c of
        (None, c1) \<Rightarrow> Inl (Error ''Connection exceeded maximum number of packets'', c1)
      | (Some seq, c1) \<Rightarrow> ebind (load_frames seq c1) (\<lambda>(rate, l). finish_loading seq rate l))"

text \<open>\<open>sendPacket\<close> up to the call of the plugin: the fulfillment that is expected, the condition, the bytes.\<close>

definition packet_prepare ::
  "crypto_lib \<Rightarrow> buffer \<Rightarrow> (jsstring \<Rightarrow> date) \<Rightarrow> stream_packet \<Rightarrow> u64 \<Rightarrow> conn \<Rightarrow> (buffer \<times> buffer \<times> buffer) result" where
  "packet_prepare lib iv expiry packet sourceAmount c =
     ebind (serializeAndEncrypt lib iv (cn_pskKey c)
              (if cn_enablePadding c then Some (int MAX_DATA_SIZE) else None) packet) (\<lambda>d.
       let f = generateFulfillment lib (cn_fulfillmentKey c) d;
           condition = lib_sha256 lib f;
           dest = or_default [] (cn_destinationAccount c)
       in if \<not> has_destination c
          then Inl (Error ''Tried to send a packet without having a destination account'')
          else ebind (serializeIlpPrepare
                 \<lparr>prep_amount = dec_of_nat (unat sourceAmount), executionCondition = condition,
                  expiresAt = expiry dest, destination = dest, prep_data = d\<rparr>) (\<lambda>bs. Inr (f, condition, bs)))"

section \<open>Handling the response\<close>

fun undo_frame :: "jsstring \<Rightarrow> frame \<Rightarrow> conn \<Rightarrow> conn" where
  "undo_frame holdId (StreamMoney i s) c = modify_stream (toNumber i) (on_money (cancelHold holdId)) c"
| "undo_frame holdId (StreamData i off d) c =
     modify_stream (toNumber i) (on_money (resendOutgoingData d (toNumber off))) c"
| "undo_frame holdId (StreamClose i code m) c = queue_frames [StreamClose i code m] c"
| "undo_frame holdId _ c = c"

definition hold_id :: "stream_packet \<Rightarrow> jsstring" where
  "hold_id p = dec_of_nat (unat (sequence p))"

definition undoRejectedPacket :: "stream_packet \<Rightarrow> conn \<Rightarrow> conn" where
  "undoRejectedPacket request c = fold (undo_frame (hold_id request)) (frames request) c"

definition handleConnectorError :: "IlpReject \<Rightarrow> u64 \<Rightarrow> conn \<Rightarrow> unit result \<times> conn" where
  "handleConnectorError reject amountSent c =
     (if rej_code reject = js ''F08'' then
        case onAmountTooLargeError reject amountSent (cn_congestion c) of
          Inl e \<Rightarrow> (Inl e, c)
        | Inr (mx, g) \<Rightarrow>
            (if mx = 0 then Inl (Error ''Cannot send. Path has a Maximum Packet Amount of 0'') else Inr (),
             c\<lparr>cn_congestion := g\<rparr>)
      else if rej_code reject \<noteq> [] \<and> hd (rej_code reject) = hd (js ''T'') then
        let c1 = (if rej_code reject = js ''T04''
                  then c\<lparr>cn_congestion := onInsufficientLiquidityError amountSent (cn_congestion c)\<rparr> else c)
        in (Inr (), c1\<lparr>cn_retryDelay := min (cn_retryDelay c1 * 2) RETRY_DELAY_MAX\<rparr>)
      else (Inl (Error ''Unexpected error while sending packet.''), c))"

definition parse_response :: "buffer \<Rightarrow> IlpReply result" where
  "parse_response data =
     (case (if first_byte data = Some (type_byte Fulfill) then ebind (deserializeIlpFulfill data) (Inr \<circ> FulfillReply)
            else if first_byte data = Some (type_byte Reject) then ebind (deserializeIlpReject data) (Inr \<circ> RejectReply)
            else Inl (Error ''Invalid response packet type'')) of
        Inl e \<Rightarrow> Inl (Error ''Invalid response when sending packet'')
      | Inr r \<Rightarrow> Inr r)"

text \<open>The packet of the receiver inside a response, checked against the request.\<close>

definition parse_reply_packet ::
  "crypto_lib \<Rightarrow> buffer \<Rightarrow> stream_packet \<Rightarrow> buffer \<Rightarrow> nat \<Rightarrow> stream_packet option result" where
  "parse_reply_packet lib key request d type =
     (if d = [] then Inr None
      else case decryptAndDeserialize lib key d of
        Inl e \<Rightarrow> Inl (Error ''Unable to decrypt and parse response data'')
      | Inr p \<Rightarrow>
          if sequence p \<noteq> sequence request
          then Inl (Error ''Response packet sequence does not correspond to the request.'')
          else if ilpPacketType p \<noteq> type
          then Inl (Error ''Response says it should be on an ILP packet of another type'')
          else Inr (Some p))"

definition handle_response ::
  "crypto_lib \<Rightarrow> date \<Rightarrow> stream_packet \<Rightarrow> u64 \<Rightarrow> buffer \<Rightarrow> buffer \<Rightarrow> conn \<Rightarrow> stream_packet option result \<times> conn" where
  "handle_response lib now request sourceAmount condition data c =
     (let c1 = bumpIdle now c
      in case parse_response data of
           Inl e \<Rightarrow> (Inl e, c1)
         | Inr (FulfillReply f) \<Rightarrow>
             if lib_sha256 lib (fulfillment f) \<noteq> condition
             then (Inl (Error ''Got invalid fulfillment for packet''), c1)
             else (parse_reply_packet lib (cn_pskKey c1) request (fulfill_data f) (type_byte Fulfill), c1)
         | Inr (RejectReply r) \<Rightarrow>
             let c2 = undoRejectedPacket request c1
             in if rej_code r \<noteq> js ''F99''
                then (case handleConnectorError r sourceAmount c2 of
                        (Inl e, c3) \<Rightarrow> (Inl e, c3)
                      | (Inr u, c3) \<Rightarrow> (Inr None, c3))
                else (parse_reply_packet lib (cn_pskKey c2) request (rej_data r) (type_byte Reject), c2))"

fun note_receipt :: "frame \<Rightarrow> conn \<Rightarrow> conn" where
  "note_receipt (StreamReceipt i r) c = modify_stream (toNumber i) (on_money (setReceipt r)) c"
| "note_receipt _ c = c"

text \<open>The statistics after a fulfill; the error of an overflow is thrown.\<close>

definition add_stats :: "u64 \<Rightarrow> u64 \<Rightarrow> conn \<Rightarrow> unit result \<times> conn" where
  "add_stats delivered am c =
     (case addTotalDelivered delivered c of
        (False, c1) \<Rightarrow> (Inl (Error ''Total delivered exceeded MaxUint64''), c1)
      | (True, c1) \<Rightarrow>
          case addTotalSent am c1 of
            (False, c2) \<Rightarrow> (Inl (Error ''Total sent exceeded MaxUint64''), c2)
          | (True, c2) \<Rightarrow>
              (Inr (), c2\<lparr>cn_congestion := onFulfill am (cn_congestion c2), cn_retryDelay := RETRY_DELAY_START\<rparr>))"

definition apply_response :: "loaded \<Rightarrow> stream_packet \<Rightarrow> conn \<Rightarrow> unit result \<times> conn" where
  "apply_response ld response c =
     (let c1 = c\<lparr>cn_remoteState := (if cn_remoteState c = RemoteInit then RemoteConnected else cn_remoteState c),
                 cn_remoteKnowsOurAccount := True\<rparr>;
          c2 = handleControlFrames (frames response) c1;
          c3 = (if ldd_amount ld > 0
                then c2\<lparr>cn_lastPacketExchangeRate := \<lparr>numer = prepareAmount response, denom = ldd_amount ld\<rparr>\<rparr> else c2)
      in if ilpPacketType response = type_byte Fulfill
         then
           let c4 = fold note_receipt (frames response) c3;
               c5 = fold (\<lambda>sid. map_object sid (executeHold (hold_id (ldd_request ld)))) (ldd_from ld) c4
           in add_stats (prepareAmount response) (ldd_amount ld) c5
         else (Inr (), c3))"

text \<open>A turn of the loop after the reply came, as a whole.\<close>

definition receive_response ::
  "crypto_lib \<Rightarrow> date \<Rightarrow> loaded \<Rightarrow> buffer \<Rightarrow> buffer \<Rightarrow> conn \<Rightarrow> unit result \<times> conn" where
  "receive_response lib now ld condition data c =
     (case handle_response lib now (ldd_request ld) (ldd_amount ld) condition data c of
        (Inl e, c1) \<Rightarrow> (Inl e, c1)
      | (Inr None, c1) \<Rightarrow> (Inr (), c1)
      | (Inr (Some p), c1) \<Rightarrow> apply_response ld p c1)"

text \<open>The \<open>catch\<close> of the loop, and its end when \<open>sending\<close> is off.\<close>

definition loop_catch :: "conn_error \<Rightarrow> conn \<Rightarrow> conn" where
  "loop_catch err c = destroy (Some err) (c\<lparr>cn_looping := False\<rparr>)"

definition loop_exit :: "conn \<Rightarrow> conn" where
  "loop_exit c = emit EvSendLoopFinished (c\<lparr>cn_looping := False\<rparr>)"

end
