(* ===== verification/Connection_Settle.thy ===== *)
theory Connection_Settle
  imports Connection_Send
begin

text \<open>
  What the send loop does to the money of a connection: \<open>load_packet\<close> takes holds under the id of the new
  packet and \<open>receive_response\<close> gives them back or executes them.
\<close>

section \<open>What loading a packet does to the books\<close>

text \<open>Loading takes holds under one id; it keeps everything else.\<close>

definition loads :: "jsstring \<Rightarrow> nat \<Rightarrow> conn \<Rightarrow> conn \<Rightarrow> bool" where
  "loads k M c c' \<longleftrightarrow> conn_config c' = conn_config c \<and> conn_totals c' = conn_totals c
     \<and> received_in (objects c') = received_in (objects c) \<and> sent_in (objects c') = sent_in (objects c)
     \<and> ids_inv c' \<and> money_ok M c' \<and> cn_nextPacketSequence c \<le> cn_nextPacketSequence c'
     \<and> (\<forall>i h a. (i, h, a) \<in> holding c' \<longrightarrow> h = k \<or> (i, h, a) \<in> holding c)"

lemma loads_trans: "loads k M c c' \<Longrightarrow> loads k M c' c'' \<Longrightarrow> loads k M c c''"
  by (fastforce simp: loads_def)

lemma loads_releases: "releases c c' \<Longrightarrow> ids_inv c \<Longrightarrow> money_ok M c \<Longrightarrow> loads k M c c'"
  by (auto simp: releases_def loads_def)

lemma loads_keeps: "loads k M c c' \<Longrightarrow> keeps c' c'' \<Longrightarrow> loads k M c c''"
  using loads_releases [OF keeps_releases, of c' c'' M k] by (fastforce intro: loads_trans simp: loads_def)

definition load_inv :: "jsstring \<Rightarrow> nat \<Rightarrow> u64 \<Rightarrow> conn \<Rightarrow> loading \<Rightarrow> (nat \<times> conn_stream) list \<Rightarrow> bool" where
  "load_inv k M mx c l rest \<longleftrightarrow> loads k M c (ld_conn l)
     \<and> (\<exists>as. list_all2 (\<lambda>i a. (i, k, a) \<in> holding (ld_conn l)) (ld_from l) as \<and> sum_list (map unat as) = unat (ld_amount l))
     \<and> distinct (ld_from l) \<and> unat (ld_amount l) + unat (ld_left l) = unat mx
     \<and> (\<forall>i a. (i, k, a) \<in> holding (ld_conn l) \<longrightarrow> i \<in> set (ld_from l))
     \<and> set rest \<subseteq> set (cn_streams (ld_conn l)) \<and> distinct (map fst rest) \<and> fst ` set rest \<inter> set (ld_from l) = {}"

lemma amount_from_stream_le:
  "amount_from_stream rate left s = Inr am \<Longrightarrow> am \<le> left \<and> am \<le> getAmountAvailableToSend s"
  by (auto simp: amount_from_stream_def Let_def minLong_def split: if_splits)

lemma hold_exact:
  assumes "am \<le> getAmountAvailableToSend s" "am > 0"
  shows "holdOutgoing k (Some am) s =
    (am, s\<lparr>outgoingHeldAmount := outgoingHeldAmount s + am, holds := AList.update k am (holds s)\<rparr>)"
  using assms by (auto simp: holdOutgoing_def Let_def minLong_def)

lemma hold_loads:
  assumes l: "loads k M c c1" and inv: "M < 2 ^ 63" and s: "(i, s) \<in> set (cn_streams c1)"
    and fresh: "\<And>a. (i, k, a) \<notin> holding c1" and am: "am \<le> getAmountAvailableToSend (cs_stream s)" "am > 0"
  defines "c2 \<equiv> modify_stream i (on_money (\<lambda>s. snd (holdOutgoing k (Some am) s))) c1"
  shows "loads k M c c2" "(i, k, am) \<in> holding c2" "\<And>j a. (j, k, a) \<in> holding c2 \<Longrightarrow> j = i \<or> (j, k, a) \<in> holding c1"
    "\<And>j h a. (j, h, a) \<in> holding c1 \<Longrightarrow> (j, h, a) \<in> holding c2"
    "\<And>j t. j \<noteq> i \<Longrightarrow> (j, t) \<in> set (cn_streams c1) \<Longrightarrow> (j, t) \<in> set (cn_streams c2)"
proof -
  let ?f = "\<lambda>s :: unit money_stream. snd (holdOutgoing k (Some am) s)"
  have ids: "ids_inv c1" and ok: "money_ok M c1" using l by (simp_all add: loads_def)
  have obj: "(i, s) \<in> set (objects c1)" using s by (simp add: objects_def)
  have uniq: "t = s" if "(i, t) \<in> set (objects c1)" for t
    using ids obj that by (auto simp: ids_inv_def dest: eq_key_imp_eq_value)
  have c2: "c2 = map_object i ?f c1"
    unfolding c2_def using s by (intro modify_is_map_object ids) force
  note h = hold_exact [OF am, of k]
  have keys: "k \<notin> fst ` set (holds (cs_stream s))"
    using fresh obj by (auto simp: holding_iff map_of_eq_None_iff [symmetric]) (metis not_Some_eq)
  have "money_inv M (?f (cs_stream t))" if "(i, t) \<in> set (objects c1)" "money_inv M (cs_stream t)" for t
    using holdOutgoing_inv(1) [OF _ inv keys h] that uniq [OF that(1)] h by simp
  then have m: "money_ok M c2"
    unfolding c2 by (intro map_object_money_ok ok)
  have hold: "map_of (holds (?f (cs_stream s))) = (map_of (holds (cs_stream s)))(k \<mapsto> am)"
    by (simp add: h AList.update_conv')
  have frame: "totalReceived (?f t) = totalReceived t" "totalSent (?f t) = totalSent t" for t :: "unit money_stream"
    by (simp_all add: holdOutgoing_def Let_def)
  have one: "(\<exists>t. (i, t) \<in> set (objects c1) \<and> P t) \<longleftrightarrow> P s" for P
    using uniq obj by blast
  have mem: "(j, h, a) \<in> holding c2 \<longleftrightarrow> (if j = i \<and> h = k then a = am else (j, h, a) \<in> holding c1)" for j h a
  proof (cases "j = i")
    case True
    have "(i, h, a) \<in> holding c2 \<longleftrightarrow> map_of (holds (?f (cs_stream s))) h = Some a"
      unfolding c2 map_object_holding if_P [OF refl] by (rule one)
    moreover have "(i, h, a) \<in> holding c1 \<longleftrightarrow> map_of (holds (cs_stream s)) h = Some a"
      unfolding holding_iff by (rule one)
    ultimately show ?thesis using True by (auto simp: hold)
  next
    case False
    then show ?thesis unfolding c2 map_object_holding holding_iff [of j h a c1] by simp
  qed
  show "loads k M c c2"
    unfolding loads_def
  proof (intro conjI allI impI)
    show "h = k \<or> (j, h, a) \<in> holding c" if "(j, h, a) \<in> holding c2" for j h a
      using that l by (auto simp: mem loads_def split: if_splits)
    show "money_ok M c2" by (rule m)
  qed (use l in \<open>simp_all add: loads_def c2 map_object_other map_object_sums map_object_sent frame map_object_ids_inv\<close>)
  show "(i, k, am) \<in> holding c2" "\<And>j a. (j, k, a) \<in> holding c2 \<Longrightarrow> j = i \<or> (j, k, a) \<in> holding c1"
    "\<And>j h a. (j, h, a) \<in> holding c1 \<Longrightarrow> (j, h, a) \<in> holding c2"
    using fresh by (auto simp: mem split: if_splits)
  show "(j, t) \<in> set (cn_streams c2)" if "j \<noteq> i" "(j, t) \<in> set (cn_streams c1)" for j t
    using that by (force simp: c2_def modify_stream_def)
qed

lemma load_inv_loads: "load_inv k M mx c l rest \<Longrightarrow> loads k M c (ld_conn l)"
  by (simp add: load_inv_def)

lemma load_stream_inv:
  assumes step: "load_stream rate seq i s l = r" and inv: "load_inv k M mx c l ((i, s) # rest)" "M < 2 ^ 63"
    and k: "k = dec_of_nat seq"
  shows "r = Inr l1 \<Longrightarrow> load_inv k M mx c l1 rest" and "r = Inl (e, c1) \<Longrightarrow> loads k M c c1"
proof -
  have l: "loads k M c (ld_conn l)" using inv(1) by (simp add: load_inv_def)
  obtain as where as: "list_all2 (\<lambda>i a. (i, k, a) \<in> holding (ld_conn l)) (ld_from l) as" "sum_list (map unat as) = unat (ld_amount l)"
    using inv(1) by (auto simp: load_inv_def)
  have i: "i \<notin> set (ld_from l)" "(i, s) \<in> set (cn_streams (ld_conn l))" using inv(1) by (auto simp: load_inv_def)
  have fresh: "(i, k, a) \<notin> holding (ld_conn l)" for a using inv(1) i(1) by (auto simp: load_inv_def)
  consider (err) e' where "amount_from_stream rate (ld_left l) (cs_stream s) = Inl e'"
    | (am) am where "amount_from_stream rate (ld_left l) (cs_stream s) = Inr am"
    by (cases "amount_from_stream rate (ld_left l) (cs_stream s)")
  then have "(r = Inr l1 \<longrightarrow> load_inv k M mx c l1 rest) \<and> (r = Inl (e, c1) \<longrightarrow> loads k M c c1)"
  proof cases
    case err
    then show ?thesis using step l by (auto simp: load_stream_def at_conn_def)
  next
    case am
    note le = amount_from_stream_le [OF am]
    define l' where "l' = (if am > 0
       then l\<lparr>ld_frames := ld_frames l @ [StreamMoney (ulong_of (int i)) am], ld_amount := ld_amount l + am,
              ld_left := ld_left l - am, ld_from := ld_from l @ [i],
              ld_conn := modify_stream i (on_money (\<lambda>s. snd (holdOutgoing k (Some am) s))) (ld_conn l)\<rparr> else l)"
    have "load_inv k M mx c l' rest"
    proof (cases "am > 0")
      case False
      then show ?thesis using inv(1) by (auto simp: l'_def load_inv_def)
    next
      case True
      note h = hold_loads [OF l inv(2) i(2) fresh conjunct2 [OF le] True]
      have room: "unat (ld_amount l) + unat (ld_left l) = unat mx" using inv(1) by (simp add: load_inv_def)
      have am_le: "unat am \<le> unat (ld_left l)" using le by (simp add: word_le_nat_alt)
      have sum: "unat (ld_amount l + am) = unat (ld_amount l) + unat am"
        using room am_le unat_u64_bound [of mx] by (intro unat_add_u64) simp
      have left: "unat (ld_left l - am) = unat (ld_left l) - unat am" using le by (intro unat_sub_u64) simp
      have as': "list_all2 (\<lambda>i a. (i, k, a) \<in> holding (ld_conn l')) (ld_from l @ [i]) (as @ [am])"
        using True h(2) by (intro list_all2_appendI list_all2_mono [OF as(1)]) (auto simp: l'_def intro: h(4))
      have rest: "set rest \<subseteq> set (cn_streams (ld_conn l'))"
        using inv(1) h(5) True by (force simp: load_inv_def l'_def)
      show ?thesis
        unfolding load_inv_def
      proof (intro conjI exI allI impI)
        show "list_all2 (\<lambda>i a. (i, k, a) \<in> holding (ld_conn l')) (ld_from l') (as @ [am])" using as' True by (simp add: l'_def)
        show "sum_list (map unat (as @ [am])) = unat (ld_amount l')" using as(2) sum True by (simp add: l'_def)
        show "unat (ld_amount l') + unat (ld_left l') = unat mx" using room sum left am_le True by (simp add: l'_def)
        show "loads k M c (ld_conn l')" using h(1) True by (simp add: l'_def)
        show "j \<in> set (ld_from l')" if "(j, k, a) \<in> holding (ld_conn l')" for j a
          using that h(3) inv(1) True by (fastforce simp: l'_def load_inv_def)
        show "set rest \<subseteq> set (cn_streams (ld_conn l'))" by (rule rest)
      qed (use inv(1) i(1) True in \<open>auto simp: l'_def load_inv_def\<close>)
    qed
    moreover have "r = Inr l1 \<Longrightarrow> l1 = l'\<lparr>ld_frames := ld_frames l1\<rparr>" "r = Inl (e, c1) \<Longrightarrow> c1 = ld_conn l'"
      using step am by (auto simp: load_stream_def at_conn_def Let_def l'_def k split: sum.splits if_splits)
    moreover have "load_inv k M mx c (l'\<lparr>ld_frames := fs\<rparr>) rest" for fs
      using calculation(1) by (simp add: load_inv_def)
    ultimately show ?thesis by (metis load_inv_loads)
  qed
  then show "r = Inr l1 \<Longrightarrow> load_inv k M mx c l1 rest" "r = Inl (e, c1) \<Longrightarrow> loads k M c c1" by auto
qed

lemma load_inv_skip: "load_inv k M mx c l (x # rest) \<Longrightarrow> load_inv k M mx c l rest"
  by (auto simp: load_inv_def)

lemma load_inv_done: "load_inv k M mx c l rest \<Longrightarrow> load_inv k M mx c l []"
  by (simp add: load_inv_def)

text \<open>\<open>ends P Q r\<close>: \<open>P\<close> holds of the error and \<open>Q\<close> of the value of a result.\<close>

abbreviation ends :: "(conn \<Rightarrow> bool) \<Rightarrow> ('a \<Rightarrow> bool) \<Rightarrow> js_error \<times> conn + 'a \<Rightarrow> bool" where
  "ends P Q r \<equiv> case_sum (\<lambda>(e, c). P c) Q r"

lemma load_money_inv:
  assumes "load_inv (dec_of_nat seq) M mx c l rest" "M < 2 ^ 63"
  shows "ends (loads (dec_of_nat seq) M c) (\<lambda>l1. load_inv (dec_of_nat seq) M mx c l1 []) (load_money rate seq rest l)"
  using assms(1)
proof (induction rest arbitrary: l)
  case (Cons x rest)
  obtain i s where x: "x = (i, s)" by (cases x)
  note step = load_stream_inv [OF refl Cons.prems [unfolded x] assms(2) refl]
  show ?case
    using Cons.IH [OF load_inv_skip [OF Cons.prems]] Cons.IH step
    by (cases "load_stream rate seq i s l") (auto simp: x intro: load_inv_done)
qed simp

lemma keeps_set_stream:
  assumes "(i, s) \<in> set (cn_streams c)" "distinct (map fst (cn_streams c))" "stream_money st = stream_money (cs_stream s)"
  shows "keeps c (modify_stream i (on_money (\<lambda>_. st)) c)"
proof -
  have "cs_stream s' = cs_stream s" if "(i, s') \<in> set (cn_streams c)" for s'
    using eq_key_imp_eq_value [OF assms(2) that assms(1)] by simp
  then have "book (cn_streams (modify_stream i (on_money (\<lambda>_. st)) c)) = book (cn_streams c)"
    using assms(3) by (auto simp: modify_stream_def book_def on_money_def)
  then show ?thesis by (simp add: keeps_defs) (simp add: modify_stream_def)
qed

lemma available_data_money: "getAvailableDataToSend n s = (d, cbs, st) \<Longrightarrow> stream_money st = stream_money s"
  by (auto simp: getAvailableDataToSend_def stream_money_def Let_def split: list.splits prod.splits if_splits)

lemma modify_stream_fst: "map fst (cn_streams (modify_stream i f c)) = map fst (cn_streams c)"
  by (auto simp: modify_stream_def)

lemma load_data_keeps:
  assumes "set ss \<subseteq> set (cn_streams c)" "distinct (map fst ss)" "distinct (map fst (cn_streams c))"
  shows "ends (keeps c) (\<lambda>(fs', c'). keeps c c') (load_data ss n fs c)"
  using assms
proof (induction ss arbitrary: n fs c)
  case (Cons x rest)
  obtain i s where x: "x = (i, s)" by (cases x)
  obtain d off cbs st where d: "getAvailableDataToSend (nat (n - 20)) (cs_stream s) = ((d, off), cbs, st)"
    by (metis prod.exhaust)
  define c1 where "c1 = modify_stream i (on_money (\<lambda>_. st)) c"
  have turn: "load_data (x # rest) n fs c = Inr (fs, c) \<or> (\<exists>e. load_data (x # rest) n fs c = Inl (e, c1))
      \<or> (\<exists>n1 fs1. load_data (x # rest) n fs c = load_data rest n1 fs1 c1)"
    by (auto simp: x d c1_def at_conn_def Let_def split: option.split sum.split)
  have k: "keeps c c1"
    using Cons.prems(1,3) keeps_set_stream available_data_money [OF d] by (auto simp: c1_def x)
  have sub: "set rest \<subseteq> set (cn_streams c1)"
    using Cons.prems(1,2) by (force simp: c1_def modify_stream_def x)
  have d1: "distinct (map fst rest)" "distinct (map fst (cn_streams c1))"
    using Cons.prems(2,3) by (simp_all add: c1_def modify_stream_fst)
  have "ends (keeps c) (\<lambda>(fs', c'). keeps c c') (load_data rest n1 fs1 c1)" for n1 fs1
    using Cons.IH [OF sub d1, of n1 fs1] keeps_trans [OF k] by (auto split: sum.splits)
  then show ?case using turn k keeps_refl by auto
qed (simp_all add: keeps_refl)

text \<open>The streams that a packet takes money from hold it under the id of the packet.\<close>

definition in_flight :: "loaded \<Rightarrow> conn \<Rightarrow> bool" where
  "in_flight ld c \<longleftrightarrow> distinct (ldd_from ld)
     \<and> (\<exists>as. list_all2 (\<lambda>i a. (i, hold_id (ldd_request ld), a) \<in> holding c) (ldd_from ld) as
          \<and> sum_list (map unat as) = unat (ldd_amount ld))"

lemma load_inv_keeps: "load_inv k M mx c l [] \<Longrightarrow> keeps (ld_conn l) c2 \<Longrightarrow> load_inv k M mx c (l\<lparr>ld_frames := fs, ld_conn := c2\<rparr>) []"
  using keeps_holding [of "ld_conn l" c2] by (auto simp: load_inv_def intro: loads_keeps)

lemma loads_self: "ids_inv c \<Longrightarrow> money_ok M c \<Longrightarrow> loads k M c c"
  by (simp add: loads_def)

lemma load_frames_inv:
  assumes ids: "ids_inv c" and ok: "money_ok M c" "M < 2 ^ 63" and fresh: "\<And>i a. (i, dec_of_nat seq, a) \<notin> holding c"
  shows "ends (loads (dec_of_nat seq) M c)
     (\<lambda>(rate, l). \<exists>mx. max_from_streams rate c = Inr mx \<and> mx \<le> testMaximumPacketAmount (cn_congestion c) \<and> load_inv (dec_of_nat seq) M mx c l []) (load_frames seq c)"
proof -
  define closing where "closing = (cn_closed c \<and> cn_remoteState c = RemoteConnected)"
  define fs where "fs = cn_queuedFrames c @ account_frames c @ open_limits c @ (if closing then [ConnectionClose NoError []] else [])"
  define c1 where "c1 = c\<lparr>cn_queuedFrames := [], cn_remoteState := (if closing then RemoteClosed else cn_remoteState c)\<rparr>"
  have k: "keeps c c1" by (simp add: c1_def keeps_defs)
  note l1 = loads_keeps [OF loads_self [OF ids ok(1)] k]
  have h: "holding c1 = holding c" using keeps_holding [OF k] by simp
  have d: "distinct (map fst (cn_streams c1))" using keeps_ids [OF k ids] by (simp add: ids_inv_def objects_def)
  have load_frames: "load_frames seq c = (case cn_exchangeRate c1 of
           None \<Rightarrow> Inl (Error ''Tried to send without an exchange rate established'', c1)
         | Some rate \<Rightarrow>
             ebind (at_conn c1 (max_from_streams rate c1)) (\<lambda>mx.
             ebind (load_money rate seq (cn_streams c1)
                      \<lparr>ld_frames = fs, ld_amount = 0, ld_left = mx, ld_from = [], ld_conn = c1\<rparr>) (\<lambda>l.
             ebind (at_conn (ld_conn l) (data_room seq (ld_frames l) (ld_conn l))) (\<lambda>(room, fs1).
             ebind (load_data (cn_streams (ld_conn l)) room fs1 (ld_conn l)) (\<lambda>(fs2, c2).
               Inr (rate, l\<lparr>ld_frames := fs2, ld_conn := c2\<rparr>))))))"
    unfolding load_frames_def Let_def closing_def [symmetric] fs_def [symmetric] c1_def [symmetric] ..
  show ?thesis
  proof (cases "cn_exchangeRate c1")
    case None
    then show ?thesis using l1 by (simp add: load_frames)
  next
    case (Some rate)
    show ?thesis
    proof (cases "max_from_streams rate c1")
      case (Inl e)
      then show ?thesis using Some l1 by (simp add: load_frames at_conn_def)
    next
      case (Inr mx)
      have mx: "mx \<le> testMaximumPacketAmount (cn_congestion c)"
        using Inr by (auto simp: max_from_streams_def Let_def minLong_def c1_def split: if_splits)
      have mc: "max_from_streams rate c = Inr mx" using Inr by (simp add: max_from_streams_def c1_def)
      define l0 where "l0 = \<lparr>ld_frames = fs, ld_amount = 0, ld_left = mx, ld_from = [], ld_conn = c1\<rparr>"
      have "load_inv (dec_of_nat seq) M mx c l0 (cn_streams c1)"
        using l1 d fresh h by (auto simp: load_inv_def l0_def)
      note money = load_money_inv [OF this ok(2), of rate]
      show ?thesis
      proof (cases "load_money rate seq (cn_streams c1) l0")
        case (Inl e)
        then show ?thesis using Some Inr money by (simp add: load_frames at_conn_def l0_def)
      next
        case (Inr l)
        then have l: "load_inv (dec_of_nat seq) M mx c l []" using money by simp
        note ll = load_inv_loads [OF l]
        have "distinct (map fst (cn_streams (ld_conn l)))" using ll by (simp add: loads_def ids_inv_def objects_def)
        note data = load_data_keeps [OF subset_refl this this]
        have dataE: "loads (dec_of_nat seq) M c c2"
          if "load_data (cn_streams (ld_conn l)) n fs1 (ld_conn l) = Inl (e, c2)" for n fs1 e c2
          using data [of n fs1] that loads_keeps [OF ll] by simp
        have dataO: "load_inv (dec_of_nat seq) M mx c (l\<lparr>ld_frames := fs2, ld_conn := c2\<rparr>) []"
          if "load_data (cn_streams (ld_conn l)) n fs1 (ld_conn l) = Inr (fs2, c2)" for n fs1 fs2 c2
          using data [of n fs1] that load_inv_keeps [OF l] by simp
        show ?thesis
          using Some \<open>max_from_streams rate c1 = Inr mx\<close> mc Inr ll mx
          by (auto simp: load_frames l0_def at_conn_def ebind_def split: sum.splits dest: dataE dataO)
      qed
    qed
  qed
qed

lemma hold_id_request: "seq < 2 ^ 31 \<Longrightarrow> hold_id (request_of seq m fs) = dec_of_nat seq"
proof -
  assume "seq < 2 ^ 31"
  moreover from this have "unat (ulong_of (int seq)) = seq"
    by (simp add: ulong_of_def long_fromInt_def unat_of_nat_u64)
  ultimately show ?thesis by (simp add: hold_id_def request_of_def)
qed

lemma finish_loading_inv:
  assumes "load_inv (dec_of_nat seq) M mx c l []" "seq < 2 ^ 31"
  shows "ends (loads (dec_of_nat seq) M c)
     (\<lambda>(r, c'). loads (dec_of_nat seq) M c c' \<and> (case r of None \<Rightarrow> True
        | Some ld \<Rightarrow> in_flight ld c' \<and> hold_id (ldd_request ld) = dec_of_nat seq \<and> ldd_amount ld \<le> mx)) (finish_loading seq rate l)"
proof -
  define c1 where "c1 = (if ld_amount l = 0 \<and> \<not> list_ex must_arrive (ld_frames l) then ld_conn l\<lparr>cn_sending := False\<rparr> else ld_conn l)"
  have k: "keeps (ld_conn l) ((ld_conn l)\<lparr>cn_sending := False\<rparr>)" "keeps (ld_conn l) c1" by (simp_all add: keeps_defs c1_def)
  note ll = loads_keeps [OF load_inv_loads [OF assms(1)]]
  note id = hold_id_request [OF assms(2)]
  have "in_flight \<lparr>ldd_request = request_of seq m (ld_frames l), ldd_amount = ld_amount l, ldd_from = ld_from l\<rparr> c1" for m
    using assms(1) keeps_holding [OF k(2)] by (simp add: in_flight_def id load_inv_def)
  moreover have "ld_amount l \<le> mx" using assms(1) by (simp add: load_inv_def word_le_nat_alt)
  ultimately show ?thesis
    using ll k id by (auto simp: finish_loading_def Let_def at_conn_def c1_def [symmetric] ebind_def split: sum.splits)
qed

text \<open>Loading the next packet: its id is not used by a hold yet.\<close>

lemma load_packet_inv:
  assumes ids: "ids_inv c" and ok: "money_ok M c" "M < 2 ^ 63"
    and fresh: "\<And>i a. (i, dec_of_nat (cn_nextPacketSequence c), a) \<notin> holding c"
  defines "k \<equiv> dec_of_nat (cn_nextPacketSequence c)"
  shows "ends (\<lambda>c'. loads k M c c' \<and> cn_nextPacketSequence c < cn_nextPacketSequence c')
     (\<lambda>(r, c'). loads k M c c' \<and> cn_nextPacketSequence c < cn_nextPacketSequence c' \<and> (case r of None \<Rightarrow> True
        | Some ld \<Rightarrow> in_flight ld c' \<and> hold_id (ldd_request ld) = k
            \<and> ldd_amount ld \<le> testMaximumPacketAmount (cn_congestion c))) (load_packet c)"
proof -
  define c1 where "c1 = c\<lparr>cn_nextPacketSequence := cn_nextPacketSequence c + 1\<rparr>"
  have k1: "keeps c c1" by (simp add: c1_def keeps_defs)
  note l1 = loads_keeps [OF loads_self [OF ids ok(1)] k1]
  have h: "holding c1 = holding c" using keeps_holding [OF k1] by simp
  have inv1: "ids_inv c1" "money_ok M c1" using l1 [of k] by (simp_all add: loads_def)
  have sum: "loads k M c c' \<and> cn_nextPacketSequence c < cn_nextPacketSequence c'" if "loads k M c1 c'" for c'
    using loads_trans [OF l1 that] that by (simp add: loads_def c1_def)
  show ?thesis
  proof (cases "cn_nextPacketSequence c \<ge> 2 ^ 31")
    case True
    then show ?thesis using sum [OF loads_self [OF inv1]]
      by (simp add: load_packet_def getNextPacketSequence_def Let_def c1_def)
  next
    case False
    note fr = load_frames_inv [OF inv1 ok(2), of "cn_nextPacketSequence c", unfolded h, OF fresh, folded k_def]
    have lp: "load_packet c = ebind (load_frames (cn_nextPacketSequence c) c1) (\<lambda>(rate, l). finish_loading (cn_nextPacketSequence c) rate l)"
      using False by (simp add: load_packet_def getNextPacketSequence_def Let_def c1_def)
    show ?thesis
    proof (cases "load_frames (cn_nextPacketSequence c) c1")
      case (Inl e)
      then show ?thesis using fr sum by (auto simp: lp)
    next
      case (Inr rl)
      obtain rate l where rl: "rl = (rate, l)" by (cases rl)
      obtain mx where mx: "mx \<le> testMaximumPacketAmount (cn_congestion c1)" "load_inv k M mx c1 l []"
        using fr Inr rl by auto
      have "cn_congestion c1 = cn_congestion c" by (simp add: c1_def)
      then show ?thesis
        using finish_loading_inv [OF mx(2) [unfolded k_def], of rate, folded k_def] False Inr rl mx(1) sum
        by (fastforce simp: lp split: sum.splits option.splits)
    qed
  qed
qed

section \<open>What a response does to the books\<close>

lemma releases_ids: "releases c c' \<Longrightarrow> ids_inv c \<Longrightarrow> ids_inv c'"
  by (simp add: releases_def)

lemma undo_frame_releases: "ids_inv c \<Longrightarrow> releases c (undo_frame h f c)"
proof (cases f)
  case (StreamData i off d)
  then show ?thesis
    by (auto intro!: keeps_releases keeps_modify_stream simp: on_money_def stream_money_def resendOutgoingData_def)
next
  case (StreamMoney i sh)
  assume "ids_inv c"
  then show ?thesis using StreamMoney by (simp add: releases_cancel)
qed (simp_all add: keeps_releases keeps_step(2) keeps_refl)

lemma undo_releases:
  assumes "ids_inv c"
  shows "releases c (undoRejectedPacket request c)"
proof -
  have "releases c (fold (undo_frame h) fs c)" for h fs
    using assms
  proof (induction fs arbitrary: c)
    case (Cons f fs)
    note one = undo_frame_releases [OF Cons.prems, of h f]
    show ?case using releases_trans [OF one Cons.IH [OF releases_ids [OF one Cons.prems]]] by simp
  qed (simp add: keeps_releases keeps_refl)
  then show ?thesis by (simp add: undoRejectedPacket_def)
qed

lemma handleConnectorError_keeps: "handleConnectorError r a c = (x, c') \<Longrightarrow> keeps c c'"
  by (auto simp: handleConnectorError_def Let_def keeps_defs split: if_splits sum.splits prod.splits)

lemma parse_reply_type: "parse_reply_packet lib key request d t = Inr (Some p) \<Longrightarrow> ilpPacketType p = t"
  by (auto simp: parse_reply_packet_def split: if_splits sum.splits)

text \<open>A response only gives holds back; one that ends in a fulfill of the receiver leaves them to be executed.\<close>

lemma handle_response_books:
  assumes "ids_inv c" "handle_response lib now request am cond data c = (r, c')"
  shows "releases c c'" "r = Inr (Some p) \<Longrightarrow> ilpPacketType p = type_byte Fulfill \<Longrightarrow> keeps c c'"
proof -
  define c1 where "c1 = bumpIdle now c"
  define c2 where "c2 = undoRejectedPacket request c1"
  have k: "keeps c c1" unfolding c1_def by (rule keeps_step(5)) (rule keeps_refl)
  note undo = undo_releases [OF keeps_ids [OF k assms(1)], of request, folded c2_def]
  have rel: "releases c c1" "releases c c2" using keeps_releases [OF k] undo releases_trans by blast+
  have err: "releases c c3" if "handleConnectorError e am c2 = (x, c3)" for e x c3
    using releases_trans [OF rel(2) keeps_releases [OF handleConnectorError_keeps [OF that]]] .
  note def = assms(2) [unfolded handle_response_def Let_def, folded c1_def, folded c2_def]
  show "releases c c'"
    using def rel err by (auto split: sum.splits IlpReply.splits if_splits prod.splits)
  show "keeps c c'" if "r = Inr (Some p)" "ilpPacketType p = type_byte Fulfill"
    using def that k by (auto split: sum.splits IlpReply.splits if_splits prod.splits dest!: parse_reply_type)
qed

lemma note_receipts_keep: "keeps c (fold note_receipt fs c)"
proof (induction fs arbitrary: c)
  case (Cons f fs)
  have "keeps c (note_receipt f c)"
    by (cases f) (auto intro!: keeps_modify_stream keeps_refl simp: on_money_def stream_money_def setReceipt_def)
  from keeps_trans [OF this Cons.IH] show ?case by simp
qed (simp add: keeps_refl)

text \<open>The statistics leave the streams alone.\<close>

definition keeps_streams :: "conn \<Rightarrow> conn \<Rightarrow> bool" where
  "keeps_streams c c' \<longleftrightarrow> conn_config c' = conn_config c \<and> ledger c' = ledger c \<and> holding c' = holding c
     \<and> entries_of c' = entries_of c \<and> cn_nextPacketSequence c \<le> cn_nextPacketSequence c'
     \<and> cn_incomingHold c' = cn_incomingHold c \<and> cn_totalReceived c' = cn_totalReceived c \<and> (ids_inv c \<longrightarrow> ids_inv c')"

lemma keeps_streams_trans: "keeps_streams c c' \<Longrightarrow> keeps_streams c' c'' \<Longrightarrow> keeps_streams c c''"
  by (simp add: keeps_streams_def)

lemma keeps_streams_keeps: "keeps c c' \<Longrightarrow> keeps_streams c c'"
  using keeps_ledger [of c c'] keeps_holding [of c c'] keeps_ids [of c c'] keeps_fields(7,8) [of c c']
  by (simp add: keeps_streams_def keeps_def)

lemma keeps_streams_totals:
  "keeps_streams c (c\<lparr>cn_totalSent := s\<rparr>)" "keeps_streams c (c\<lparr>cn_totalDelivered := d\<rparr>)"
  "keeps_streams c (c\<lparr>cn_congestion := g, cn_retryDelay := n\<rparr>)"
  by (simp_all add: keeps_streams_def conn_config_def ledger_def holding_def entries_of_def ids_inv_def objects_def own_id_def)

lemma addTotal_books:
  "addTotalSent v c = (b, c') \<Longrightarrow> keeps_streams c c' \<and> cn_totalDelivered c' = cn_totalDelivered c
     \<and> unat (cn_totalSent c') = unat (cn_totalSent c) + (if b then unat v else 0)"
  "addTotalDelivered v c = (b, c') \<Longrightarrow> keeps_streams c c' \<and> cn_totalSent c' = cn_totalSent c
     \<and> unat (cn_totalDelivered c') = unat (cn_totalDelivered c) + (if b then unat v else 0)"
  using checkedAdd_sat [of "cn_totalSent c" v] checkedAdd_sat [of "cn_totalDelivered c" v] keeps_fields(9,10) [OF keeps_destroy]
  by (auto simp: addTotalSent_def addTotalDelivered_def Let_def keeps_streams_totals min_def
      intro: keeps_streams_keeps keeps_destroy split: if_splits)

text \<open>Without an error both totals grow by the exact amounts; with one the amount sent is not counted.\<close>

lemma add_stats_books:
  assumes "add_stats delivered am c = (r, c')"
  shows "keeps_streams c c'" and "r = Inl e \<Longrightarrow> cn_totalSent c' = cn_totalSent c"
    and "r = Inr u \<Longrightarrow> unat (cn_totalSent c') = unat (cn_totalSent c) + unat am
       \<and> unat (cn_totalDelivered c') = unat (cn_totalDelivered c) + unat delivered"
proof -
  obtain b c1 where d: "addTotalDelivered delivered c = (b, c1)" by (cases "addTotalDelivered delivered c")
  obtain b2 c2 where s: "addTotalSent am c1 = (b2, c2)" by (cases "addTotalSent am c1")
  note D = addTotal_books(2) [OF d] and S = addTotal_books(1) [OF s]
  have k: "keeps_streams c c2" using D S keeps_streams_trans by blast
  show "keeps_streams c c'"
    using assms D k keeps_streams_trans [OF k keeps_streams_totals(3)]
    by (auto simp: add_stats_def d s split: bool.splits)
  show "r = Inl e \<Longrightarrow> cn_totalSent c' = cn_totalSent c"
    using assms D S by (auto simp: add_stats_def d s word_unat_eq_iff split: bool.splits)
  show "r = Inr u \<Longrightarrow> unat (cn_totalSent c') = unat (cn_totalSent c) + unat am
       \<and> unat (cn_totalDelivered c') = unat (cn_totalDelivered c) + unat delivered"
    using assms D S by (auto simp: add_stats_def d s split: bool.splits)
qed

text \<open>The statistics throw exactly when a total would not fit 64 bits; the delivered amount is counted if it fits.\<close>

definition stats_counted :: "u64 \<Rightarrow> u64 \<Rightarrow> conn \<Rightarrow> unit result \<times> conn \<Rightarrow> bool" where
  "stats_counted delivered am c rc \<longleftrightarrow>
     ((\<exists>e. fst rc = Inl e) \<longleftrightarrow> 2 ^ 64 \<le> unat (cn_totalDelivered c) + unat delivered \<or> 2 ^ 64 \<le> unat (cn_totalSent c) + unat am)
     \<and> unat (cn_totalDelivered (snd rc)) = unat (cn_totalDelivered c)
         + (if unat (cn_totalDelivered c) + unat delivered < 2 ^ 64 then unat delivered else 0)"

lemma add_stats_counted: "stats_counted delivered am c (add_stats delivered am c)"
proof -
  obtain b c1 where d: "addTotalDelivered delivered c = (b, c1)" by (cases "addTotalDelivered delivered c")
  obtain b2 c2 where s: "addTotalSent am c1 = (b2, c2)" by (cases "addTotalSent am c1")
  have b: "b \<longleftrightarrow> unat (cn_totalDelivered c) + unat delivered < 2 ^ 64" "b2 \<longleftrightarrow> unat (cn_totalSent c1) + unat am < 2 ^ 64"
    using d s checkedAdd_sat [of "cn_totalDelivered c" delivered] checkedAdd_sat [of "cn_totalSent c1" am]
    by (auto simp: addTotalDelivered_def addTotalSent_def Let_def split: if_splits)
  note D = addTotal_books(2) [OF d] and S = addTotal_books(1) [OF s]
  show ?thesis
    using b D S by (auto simp: stats_counted_def add_stats_def d s not_less split: bool.splits)
qed

text \<open>
  \<open>settles M n lost c c'\<close>: the streams sent \<open>n\<close> more, all but \<open>lost\<close> of it is counted in the total, holds were only given
  back, and nothing else about money changed.
\<close>

definition settles :: "nat \<Rightarrow> nat \<Rightarrow> nat \<Rightarrow> conn \<Rightarrow> conn \<Rightarrow> bool" where
  "settles M n lost c c' \<longleftrightarrow> conn_config c' = conn_config c \<and> cn_incomingHold c' = cn_incomingHold c
     \<and> cn_totalReceived c' = cn_totalReceived c \<and> received_in (objects c') = received_in (objects c)
     \<and> sent_in (objects c') = sent_in (objects c) + n
     \<and> unat (cn_totalSent c') + lost = unat (cn_totalSent c) + n
     \<and> ids_inv c' \<and> money_ok M c' \<and> holding c' \<subseteq> holding c \<and> cn_nextPacketSequence c \<le> cn_nextPacketSequence c'"

lemma settles_releases: "releases c c' \<Longrightarrow> ids_inv c \<Longrightarrow> money_ok M c \<Longrightarrow> settles M 0 0 c c'"
  by (simp add: releases_def settles_def conn_totals_def)

lemma settles_before: "releases c c1 \<Longrightarrow> settles M n l c1 c' \<Longrightarrow> settles M n l c c'"
  by (auto simp: releases_def settles_def conn_totals_def)

lemma in_flight_keeps: "keeps c c' \<Longrightarrow> in_flight ld c' = in_flight ld c"
  using keeps_holding [of c c'] by (simp add: in_flight_def)

lemma apply_response_books:
  assumes inv: "ids_inv c" "money_ok M c" "M < 2 ^ 63" and step: "apply_response ld p c = (r, c')"
  shows "ilpPacketType p \<noteq> type_byte Fulfill \<Longrightarrow> r = Inr () \<and> keeps c c'"
    and "ilpPacketType p = type_byte Fulfill \<Longrightarrow> in_flight ld c
      \<Longrightarrow> settles M (unat (ldd_amount ld)) (case r of Inl e \<Rightarrow> unat (ldd_amount ld) | Inr u \<Rightarrow> 0) c c'"
    and "ilpPacketType p = type_byte Fulfill \<Longrightarrow> in_flight ld c \<Longrightarrow> stats_counted (prepareAmount p) (ldd_amount ld) c (r, c')"
proof -
  define c1 where "c1 = c\<lparr>cn_remoteState := (if cn_remoteState c = RemoteInit then RemoteConnected else cn_remoteState c),
                 cn_remoteKnowsOurAccount := True\<rparr>"
  define c2 where "c2 = handleControlFrames (frames p) c1"
  define c3 where "c3 = (if ldd_amount ld > 0
    then c2\<lparr>cn_lastPacketExchangeRate := \<lparr>numer = prepareAmount p, denom = ldd_amount ld\<rparr>\<rparr> else c2)"
  define c4 where "c4 = fold note_receipt (frames p) c3"
  define c5 where "c5 = fold (\<lambda>sid. map_object sid (executeHold (hold_id (ldd_request ld)))) (ldd_from ld) c4"
  have k2: "keeps c c2"
  proof -
    have "keeps c c1" by (simp add: c1_def keeps_defs)
    with keeps_handleControlFrames show ?thesis unfolding c2_def by (blast intro: keeps_trans)
  qed
  moreover have "keeps c2 c3" by (simp add: c3_def keeps_defs)
  ultimately have k3: "keeps c c3" by (rule keeps_trans)
  have k4: "keeps c c4" unfolding c4_def by (rule keeps_trans [OF k3 note_receipts_keep])
  note def = step [unfolded apply_response_def Let_def, folded c1_def, folded c2_def, folded c3_def, folded c4_def, folded c5_def]
  show "ilpPacketType p \<noteq> type_byte Fulfill \<Longrightarrow> r = Inr () \<and> keeps c c'"
    using def k3 by simp
  assume full: "ilpPacketType p = type_byte Fulfill" and fl: "in_flight ld c"
  obtain as where as: "list_all2 (\<lambda>i a. (i, hold_id (ldd_request ld), a) \<in> holding c4) (ldd_from ld) as"
    "distinct (ldd_from ld)" "sum_list (map unat as) = unat (ldd_amount ld)"
    using fl keeps_holding [OF k4] by (auto simp: in_flight_def)
  have inv4: "ids_inv c4" "money_ok M c4"
    using keeps_ids [OF k4 inv(1)] same_books_money_ok [OF keeps_same_books [OF k4] inv(2)] by auto
  have ex: "executes (unat (ldd_amount ld)) c4 c5" "money_ok M c5"
    using execute_all [OF as(1,2) inv4 inv(3)] by (simp_all add: c5_def as(3))
  have stats: "add_stats (prepareAmount p) (ldd_amount ld) c5 = (r, c')" using def full by simp
  note S = add_stats_books [OF stats]
  have tot: "unat (cn_totalSent c') + (case r of Inl e \<Rightarrow> unat (ldd_amount ld) | Inr u \<Rightarrow> 0)
      = unat (cn_totalSent c5) + unat (ldd_amount ld)"
    using S(2,3) by (cases r) auto
  have "settles M (unat (ldd_amount ld)) (case r of Inl e \<Rightarrow> unat (ldd_amount ld) | Inr u \<Rightarrow> 0) c4 c'"
    using ex S(1) tot unfolding settles_def executes_def keeps_streams_def conn_totals_def ledger_def money_ok_def by auto
  then show "settles M (unat (ldd_amount ld)) (case r of Inl e \<Rightarrow> unat (ldd_amount ld) | Inr u \<Rightarrow> 0) c c'"
    by (rule settles_before [OF keeps_releases [OF k4]])
  have "conn_totals c5 = conn_totals c" using ex(1) k4 by (simp add: executes_def keeps_def)
  then show "stats_counted (prepareAmount p) (ldd_amount ld) c (r, c')"
    using add_stats_counted [of "prepareAmount p" "ldd_amount ld" c5] stats by (simp add: stats_counted_def conn_totals_def)
qed

text \<open>The whole turn.\<close>

lemma receive_response_books:
  assumes inv: "ids_inv c" "money_ok M c" "M < 2 ^ 63" "in_flight ld c"
    and step: "receive_response lib now ld cond data c = (r, c')"
  shows "\<exists>n. settles M n (case r of Inl e \<Rightarrow> n | Inr u \<Rightarrow> 0) c c' \<and> (n = 0 \<or> n = unat (ldd_amount ld))"
proof -
  obtain r1 c1 where h: "handle_response lib now (ldd_request ld) (ldd_amount ld) cond data c = (r1, c1)" by fastforce
  note H = handle_response_books [OF inv(1) h]
  note zero = settles_releases [OF H(1) inv(1,2)]
  show ?thesis
  proof (cases "\<exists>p. r1 = Inr (Some p)")
    case False
    then have "c' = c1" using step by (auto simp: receive_response_def h split: sum.splits option.splits)
    with zero show ?thesis by (intro exI [of _ 0]) (simp split: sum.split)
  next
    case True
    then obtain p where p: "r1 = Inr (Some p)" by blast
    then have a: "apply_response ld p c1 = (r, c')" using step by (simp add: receive_response_def h)
    have inv1: "ids_inv c1" "money_ok M c1" using zero by (simp_all add: settles_def)
    note A = apply_response_books [OF inv1 inv(3) a]
    show ?thesis
    proof (cases "ilpPacketType p = type_byte Fulfill")
      case False
      have "settles M 0 0 c c'"
        using settles_before [OF H(1) settles_releases [OF keeps_releases inv1]] A(1) [OF False] by blast
      then show ?thesis by (intro exI [of _ 0]) (simp split: sum.split)
    next
      case full: True
      have "in_flight ld c1" using inv(4) in_flight_keeps [OF H(2) [OF p full]] by simp
      from settles_before [OF H(1) A(2) [OF full this]] show ?thesis by blast
    qed
  qed
qed

end
