(* ===== verification/Connection_Receive.thy ===== *)
theory Connection_Receive
  imports Connection_Books
begin

text \<open>
  \<open>handlePrepare\<close> of \<^verbatim>\<open>ilp-protocol-stream/src/connection.ts\<close>.

  The method is cut at the call of the application's \<open>shouldFulfill\<close>: \<open>handlePrepare_start\<close> runs every
  check and takes the hold, \<open>handlePrepare_decline\<close> and \<open>handlePrepare_commit\<close> are the two
  continuations, and packets may be started, declined and committed in any order in
  between. \<open>handlePrepare\<close> runs the parts in a row. An exception that leaves the method is a \<open>thrown\<close>.
\<close>

section \<open>Checks\<close>

datatype thrown =
    UnexpectedPaymentThrown
  | FinalApplicationThrown buffer
  | BadRequestThrown jsstring
  | PlainThrown js_error

text \<open>How the checks stop: with \<open>constructFinalApplicationError\<close> on the response frames so far, or another exception.\<close>

datatype abort = RejectWith "frame list" | Throw thrown

definition pad_size :: "conn \<Rightarrow> int option" where
  "pad_size c = (if cn_enablePadding c then Some (int MAX_DATA_SIZE) else None)"

definition constructFinalApplicationError ::
  "crypto_lib \<Rightarrow> buffer \<Rightarrow> IlpPrepare \<Rightarrow> stream_packet \<Rightarrow> frame list \<Rightarrow> conn \<Rightarrow> thrown \<times> conn" where
  "constructFinalApplicationError lib iv prepare request response c =
     (case ebind (stream_longFromValue (StrV (prep_amount prepare)) True) (\<lambda>a.
             serializeAndEncrypt lib iv (cn_pskKey c) (pad_size c)
               \<lparr>sequence = sequence request, ilpPacketType = type_byte Reject,
                prepareAmount = long_bits a, frames = response @ cn_queuedFrames c\<rparr>) of
        Inl e \<Rightarrow> PlainThrown e
      | Inr d \<Rightarrow> FinalApplicationThrown d,
      c\<lparr>cn_queuedFrames := []\<rparr>)"

text \<open>The frames that open a stream, and whether they carry money or data.\<close>

fun opening_frame :: "frame \<Rightarrow> (u64 \<times> bool) option" where
  "opening_frame (StreamMoney i s) = Some (i, True)"
| "opening_frame (StreamData i off d) = Some (i, True)"
| "opening_frame (StreamMaxMoney i r t) = Some (i, False)"
| "opening_frame (StreamMaxData i x) = Some (i, False)"
| "opening_frame _ = None"

fun closes_stream :: "nat \<Rightarrow> frame \<Rightarrow> bool" where
  "closes_stream sid (StreamClose i code m) = (i = ulong_of (int sid))"
| "closes_stream sid _ = False"

definition already_closed :: jsstring where
  "already_closed = js ''Stream is already closed''"

definition open_streams :: "frame \<Rightarrow> frame list \<times> conn \<Rightarrow> (abort \<times> conn) + (frame list \<times> conn)" where
  "open_streams f st =
     (case st of (response, c) \<Rightarrow>
        case opening_frame f of
          None \<Rightarrow> Inr (response, c)
        | Some (i, carries) \<Rightarrow>
            let sid = toNumber i
            in if sid \<in> set (cn_closedStreams c) then
                 if \<not> carries then Inr (response, c)
                 else if list_ex (closes_stream sid) response \<or> list_ex (closes_stream sid) (cn_queuedFrames c)
                 then Inl (RejectWith response, c)
                 else Inl (RejectWith (response @ [StreamClose (ulong_of (int sid)) StreamStateError already_closed]), c)
               else case handleNewStream sid c of
                 (False, c') \<Rightarrow> Inl (RejectWith response, c')
               | (True, c') \<Rightarrow> Inr (response, c'))"

fun add_shares :: "frame \<Rightarrow> u64 \<Rightarrow> u64 result" where
  "add_shares (StreamMoney i shares) acc =
     (let r = checkedAdd acc shares
      in if add_overflow r then Inl (Error ''Total shares exceeded MaxUint64'') else Inr (add_sum r))"
| "add_shares _ acc = Inr acc"

definition total_shares :: "frame list \<Rightarrow> u64 result" where
  "total_shares fs = efold add_shares fs 0"

text \<open>The amount of one frame, the stream it is for, and the three checks of the stream.\<close>

fun receive_frame ::
  "conn \<Rightarrow> frame list \<Rightarrow> u64 \<Rightarrow> u64 \<Rightarrow> frame \<Rightarrow> (nat \<times> u64) list \<Rightarrow> abort + (nat \<times> u64) list" where
  "receive_frame c response incoming totalShares (StreamMoney i shares) amounts =
     (let sid = toNumber i
      in case multiplyDivideFloor incoming shares totalShares of
           Inl e \<Rightarrow> Inl (Throw (PlainThrown e))
         | Inr am \<Rightarrow>
             case get_stream sid c of
               None \<Rightarrow> Inl (RejectWith (response @ [StreamClose (ulong_of (int sid)) StreamIdError (js ''Unknown stream ID'')]))
             | Some s \<Rightarrow>
                 case multiplyByLongCeil (cn_allowableReceiveExtra c) (getAmountStreamCanReceive (cs_stream s)) of
                   Inl e \<Rightarrow> Inl (Throw (PlainThrown e))
                 | Inr maxStreamCanReceive \<Rightarrow>
                     if maxStreamCanReceive < am
                     then Inl (RejectWith (response @ [StreamMaxMoney (ulong_of (int sid))
                                (receiveMax (cs_stream s)) (totalReceived (cs_stream s))]))
                     else if \<not> isOpen s
                     then Inl (RejectWith (response @ [StreamClose (ulong_of (int sid)) StreamStateError already_closed]))
                     else Inr (amounts @ [(sid, am)]))"
| "receive_frame c response incoming totalShares _ amounts = Inr amounts"

record receiving =
  rv_request :: stream_packet
  rv_fulfillment :: buffer
  rv_amount :: u64
  rv_amounts :: "(nat \<times> u64) list"
  rv_response :: "frame list"

definition incoming_amount :: "IlpPrepare \<Rightarrow> u64" where
  "incoming_amount prepare = long_bits (long_fromDecimal (prep_amount prepare) True)"

text \<open>The checks after the control frames were handled, and the hold.\<close>

definition check_money ::
  "crypto_lib \<Rightarrow> IlpPrepare \<Rightarrow> stream_packet \<Rightarrow> frame list \<Rightarrow> conn \<Rightarrow> (abort \<times> conn) + (receiving \<times> conn)" where
  "check_money lib prepare request response c =
     (let incoming = incoming_amount prepare
      in if prepareAmount request > incoming then Inl (RejectWith response, c)
         else
           let f = generateFulfillment lib (cn_fulfillmentKey c) (prep_data prepare)
           in if lib_sha256 lib f \<noteq> executionCondition prepare then Inl (RejectWith response, c)
              else case total_shares (frames request) of
                Inl e \<Rightarrow> Inl (Throw (PlainThrown e), c)
              | Inr totalShares \<Rightarrow>
                  case efold (receive_frame c response incoming totalShares) (frames request) [] of
                    Inl a \<Rightarrow> Inl (a, c)
                  | Inr amounts \<Rightarrow>
                      case addIncomingHold incoming c of
                        (False, c') \<Rightarrow> Inl (Throw (BadRequestThrown (js ''Total received exceeded MaxUint64'')), c')
                      | (True, c') \<Rightarrow>
                          Inr (\<lparr>rv_request = request, rv_fulfillment = f, rv_amount = incoming,
                                rv_amounts = amounts, rv_response = response\<rparr>, c'))"

definition check_packet ::
  "crypto_lib \<Rightarrow> IlpPrepare \<Rightarrow> stream_packet \<Rightarrow> frame list \<Rightarrow> conn \<Rightarrow> (abort \<times> conn) + (receiving \<times> conn)" where
  "check_packet lib prepare request response c =
     ebind (efold open_streams (frames request) (response, c)) (\<lambda>(response, c).
       let c1 = handleControlFrames (frames request) c;
           (current, mx, acceptable) = conn_getIncomingOffsets c1
       in if int mx > acceptable
          then Inl (RejectWith response,
                 destroy (Some (flow_control_error (js ''Max connection byte offset: '') acceptable
                   (js '', received: '') mx)) c1)
          else check_money lib prepare request response c1)"

definition handlePrepare_start ::
  "crypto_lib \<Rightarrow> buffer \<Rightarrow> date \<Rightarrow> IlpPrepare \<Rightarrow> conn \<Rightarrow> (thrown \<times> conn) + (receiving \<times> conn)" where
  "handlePrepare_start lib iv now prepare c =
     (case decryptAndDeserialize lib (cn_pskKey c) (prep_data prepare) of
        Inl e \<Rightarrow> Inl (UnexpectedPaymentThrown, c)
      | Inr request \<Rightarrow>
          if ilpPacketType request \<noteq> type_byte Prepare then Inl (UnexpectedPaymentThrown, c)
          else
            let c1 = bumpIdle now c;
                (current, mx, acceptable) = conn_getIncomingOffsets c1
            in case check_packet lib prepare request [ConnectionMaxData (ulong_of acceptable)] c1 of
                 Inr ok \<Rightarrow> Inr ok
               | Inl (RejectWith response, c2) \<Rightarrow>
                   Inl (constructFinalApplicationError lib iv prepare request response c2)
               | Inl (Throw t, c2) \<Rightarrow> Inl (t, c2))"

section \<open>Declining and fulfilling\<close>

definition handlePrepare_decline ::
  "crypto_lib \<Rightarrow> buffer \<Rightarrow> IlpPrepare \<Rightarrow> receiving \<Rightarrow> conn \<Rightarrow> thrown \<times> conn" where
  "handlePrepare_decline lib iv prepare rv c =
     constructFinalApplicationError lib iv prepare (rv_request rv) (rv_response rv)
       (removeIncomingHold (rv_amount rv) c)"

fun receive_amounts :: "(nat \<times> u64) list \<Rightarrow> (nat \<times> u64) list \<Rightarrow> conn \<Rightarrow> (nat \<times> u64) list \<times> conn" where
  "receive_amounts [] totals c = (totals, c)"
| "receive_amounts ((sid, am) # rest) totals c =
     (let c1 = map_object sid (addToIncoming am) c
      in receive_amounts rest
           (case get_object sid c1 of
              None \<Rightarrow> totals | Some s \<Rightarrow> AList.update sid (totalReceived (cs_stream s)) totals) c1)"

definition must_close :: "conn_stream \<Rightarrow> bool" where
  "must_close s \<longleftrightarrow> \<not> isOpen s \<and> \<not> remoteClosed (cs_stream s)"

definition stream_frames :: "conn \<Rightarrow> frame list \<times> conn" where
  "stream_frames c =
     (if cn_closed c \<or> cn_remoteState c = RemoteClosed then ([], c)
      else
        (concat (map (\<lambda>(i, s). if must_close s then [end_frame i s] else limit_frames i s) (cn_streams c)),
         c\<lparr>cn_streams := map (\<lambda>(i, s). (i, if must_close s
             then on_money (\<lambda>st. st\<lparr>remoteClosed := True\<rparr>) s else s)) (cn_streams c)\<rparr>))"

definition conn_receipt_frame :: "crypto_lib \<Rightarrow> buffer \<Rightarrow> buffer \<Rightarrow> nat \<times> u64 \<Rightarrow> frame list \<Rightarrow> frame list result" where
  "conn_receipt_frame lib nonce secret p fs =
     ebind (createReceipt lib \<lparr>opt_nonce = nonce, opt_streamId = num (int (fst p)),
                               opt_totalReceived = StrV (dec_of_nat (unat (snd p))), opt_secret = secret\<rparr>)
       (\<lambda>r. Inr (fs @ [StreamReceipt (ulong_of (int (fst p))) r]))"

definition receipt_frames :: "crypto_lib \<Rightarrow> (nat \<times> u64) list \<Rightarrow> conn \<Rightarrow> frame list result" where
  "receipt_frames lib totals c =
     (case (cn_receiptNonce c, cn_receiptSecret c) of
        (Some nonce, Some secret) \<Rightarrow> efold (conn_receipt_frame lib nonce secret) totals []
      | _ \<Rightarrow> Inr [])"

definition handlePrepare_commit ::
  "crypto_lib \<Rightarrow> buffer \<Rightarrow> receiving \<Rightarrow> conn \<Rightarrow> (thrown + IlpFulfill) \<times> conn" where
  "handlePrepare_commit lib iv rv c =
     (let (totals, c1) = receive_amounts (rv_amounts rv) [] c;
          (limits, c2) = stream_frames c1
      in case receipt_frames lib totals c2 of
           Inl e \<Rightarrow> (Inl (PlainThrown e), c2)
         | Inr receipts \<Rightarrow>
             let response = rv_response rv @ limits @ receipts @ cn_queuedFrames c2;
                 c3 = addTotalReceived (rv_amount rv)
                        (removeIncomingHold (rv_amount rv) (c2\<lparr>cn_queuedFrames := []\<rparr>))
             in (case serializeAndEncrypt lib iv (cn_pskKey c3) (pad_size c3)
                        \<lparr>sequence = sequence (rv_request rv), ilpPacketType = type_byte Fulfill,
                         prepareAmount = rv_amount rv, frames = response\<rparr> of
                   Inl e \<Rightarrow> Inl (PlainThrown e)
                 | Inr d \<Rightarrow> Inr \<lparr>fulfillment = rv_fulfillment rv, fulfill_data = d\<rparr>, c3))"

text \<open>
  The whole method. \<open>shouldFulfill\<close> gets the amount, the packet id and the connection tag, and is
  not called for a packet without money.
\<close>

definition handlePrepare ::
  "crypto_lib \<Rightarrow> buffer \<Rightarrow> date \<Rightarrow> (u64 \<Rightarrow> buffer \<Rightarrow> jsstring option \<Rightarrow> bool) option \<Rightarrow> IlpPrepare \<Rightarrow> conn
     \<Rightarrow> (thrown + IlpFulfill) \<times> conn" where
  "handlePrepare lib iv now shouldFulfill prepare c =
     (case handlePrepare_start lib iv now prepare c of
        Inl (t, c') \<Rightarrow> (Inl t, c')
      | Inr (rv, c') \<Rightarrow>
          if (case shouldFulfill of
                None \<Rightarrow> False
              | Some app \<Rightarrow> 0 < rv_amount rv \<and>
                  \<not> app (rv_amount rv) (generateIncomingPacketId lib (cn_sharedSecret c') (sequence (rv_request rv)))
                      (cn_connectionTag c'))
          then (case handlePrepare_decline lib iv prepare rv c' of (t, c'') \<Rightarrow> (Inl t, c''))
          else handlePrepare_commit lib iv rv c')"

section \<open>How the amount is split\<close>

fun money_shares :: "frame list \<Rightarrow> (u64 \<times> u64) list" where
  "money_shares [] = []"
| "money_shares (StreamMoney i s # fs) = (i, s) # money_shares fs"
| "money_shares (_ # fs) = money_shares fs"

abbreviation shares_sum :: "frame list \<Rightarrow> nat" where
  "shares_sum fs \<equiv> sum_list (map (unat \<circ> snd) (money_shares fs))"

lemma add_shares_sum: "efold add_shares fs acc = Inr T \<Longrightarrow> unat T = unat acc + shares_sum fs"
proof (induction fs arbitrary: acc rule: money_shares.induct)
  case (2 i s fs)
  then show ?case using checkedAdd_sat [of acc s] by (auto simp: Let_def split: if_splits)
qed simp_all

lemma total_shares_sum: "total_shares fs = Inr T \<Longrightarrow> unat T = shares_sum fs"
  using add_shares_sum [of fs 0] by (simp add: total_shares_def)

text \<open>What \<open>receive_frame\<close> has checked about each amount.\<close>

definition receivable :: "conn \<Rightarrow> u64 \<Rightarrow> u64 \<Rightarrow> u64 \<times> u64 \<Rightarrow> nat \<times> u64 \<Rightarrow> bool" where
  "receivable c incoming T share a \<longleftrightarrow>
     fst a = toNumber (fst share) \<and> multiplyDivideFloor incoming (snd share) T = Inr (snd a)
     \<and> (\<exists>s mx. get_stream (fst a) c = Some s \<and> isOpen s
        \<and> multiplyByLongCeil (cn_allowableReceiveExtra c) (getAmountStreamCanReceive (cs_stream s)) = Inr mx
        \<and> snd a \<le> mx)"

lemma receive_frames:
  "efold (receive_frame c response incoming T) fs acc = Inr amounts
     \<Longrightarrow> \<exists>l. amounts = acc @ l \<and> list_all2 (receivable c incoming T) (money_shares fs) l"
proof (induction fs arbitrary: acc rule: money_shares.induct)
  case (2 i s fs)
  from "2.prems" obtain a where a: "receive_frame c response incoming T (StreamMoney i s) acc = Inr (acc @ [a])"
    "receivable c incoming T (i, s) a" "efold (receive_frame c response incoming T) fs (acc @ [a]) = Inr amounts"
    by (auto simp: Let_def receivable_def not_less split: sum.splits option.splits if_splits)
  from "2.IH" [OF a(3)] obtain l where "amounts = (acc @ [a]) @ l"
    "list_all2 (receivable c incoming T) (money_shares fs) l" by blast
  with a(2) show ?case by (intro exI [of _ "a # l"]) simp
qed auto

abbreviation amounts_sum :: "(nat \<times> u64) list \<Rightarrow> nat" where
  "amounts_sum as \<equiv> sum_list (map (unat \<circ> snd) as)"

lemma split_upper:
  assumes "list_all2 (receivable c v T) shares as" "sum_list (map (unat \<circ> snd) shares) \<le> t" "t \<le> unat T" "0 < unat T"
  shows "amounts_sum as * unat T \<le> unat v * sum_list (map (unat \<circ> snd) shares)"
  using assms(1,2)
proof (induction shares as rule: list_all2_induct)
  case (Cons x xs y ys)
  have "unat (snd y) \<le> unat v * unat (snd x) div unat T"
    using Cons.hyps(1) Cons.prems assms(3) by (intro multiplyDivideFloor_le) (auto simp: receivable_def)
  then have "unat (snd y) * unat T \<le> unat v * unat (snd x)"
    using assms(4) by (simp add: less_eq_div_iff_mult_less_eq)
  with Cons show ?case by (simp add: algebra_simps)
qed simp

lemma split_lower:
  assumes "list_all2 (receivable c v T) shares as" "sum_list (map (unat \<circ> snd) shares) \<le> unat T"
    "0 < unat T" "unat T \<le> 2 ^ 63"
  shows "unat v * sum_list (map (unat \<circ> snd) shares) + length as \<le> (amounts_sum as + length as) * unat T"
  using assms(1,2)
proof (induction shares as rule: list_all2_induct)
  case (Cons x xs y ys)
  have "unat v * unat (snd x) div unat T \<le> unat v * unat T div unat T"
    using Cons.prems by (intro div_le_mono mult_le_mono2) simp
  then have fits: "unat v * unat (snd x) div unat T < 2 ^ 64"
    using assms(3) unat_u64_less [of v] by (simp del: unat_u64_less)
  have "multiplyDivideFloor v (snd x) T = Inr (snd y)" using Cons.hyps(1) by (simp add: receivable_def)
  then have "snd y = of_nat (unat v * unat (snd x) div unat T)"
    using multiplyDivideFloor_exact [OF assms(3,4) fits] by simp
  then have "unat (snd y) = unat v * unat (snd x) div unat T" by (simp only: unat_of_nat_u64 [OF fits])
  then have "unat v * unat (snd x) + 1 \<le> (unat (snd y) + 1) * unat T"
    using assms(3) div_less_iff_less_mult [of "unat T" "unat v * unat (snd x)" "unat (snd y) + 1"] by simp
  with Cons show ?case by (simp add: algebra_simps)
qed simp

section \<open>What a started prepare has passed\<close>

lemma open_streams_books:
  "open_streams f (r, c) = Inr (r', c') \<Longrightarrow> same_books c c'"
  "open_streams f (r, c) = Inl (a, c') \<Longrightarrow> same_books c c'"
  by (auto simp: open_streams_def Let_def same_books_refl dest!: handleNewStream_books
      split: option.splits if_splits prod.splits bool.splits)

lemma open_streams_all:
  "efold open_streams fs (r, c) = Inr (r', c') \<Longrightarrow> same_books c c'"
  "efold open_streams fs (r, c) = Inl (a, c') \<Longrightarrow> same_books c c'"
proof (induction fs arbitrary: r c)
  case (Cons f fs)
  {
    case 1
    then show ?case using Cons.IH(1) open_streams_books(1) by (fastforce intro: same_books_trans)
  next
    case 2
    then show ?case using Cons.IH(2) open_streams_books
      by (cases "open_streams f (r, c)") (fastforce intro: same_books_trans)+
  }
qed (auto simp: same_books_refl)

lemma control_books: "same_books c (handleControlFrames fs c)"
  by (rule keeps_same_books) (rule keeps_handleControlFrames)

lemma destroy_books: "same_books c (destroy e c)"
  by (rule keeps_same_books) (rule keeps_destroy)

lemma bumpIdle_books: "same_books c (bumpIdle now c)"
  by (auto intro: keeps_same_books keeps_step keeps_refl)

lemma construct_books: "same_books c (snd (constructFinalApplicationError lib iv prepare request response c))"
  by (auto simp: constructFinalApplicationError_def intro: keeps_same_books keeps_step keeps_refl)

lemma addIncomingHold_books: "addIncomingHold v c = (False, c') \<Longrightarrow> same_books c c'"
  by (auto simp: addIncomingHold_def Let_def destroy_books split: if_splits)

lemma check_money_abort: "check_money lib prepare request response c = Inl (a, c') \<Longrightarrow> same_books c c'"
  by (auto simp: check_money_def Let_def same_books_refl dest: addIncomingHold_books
      split: sum.splits if_splits prod.splits bool.splits)

lemma check_packet_abort: "check_packet lib prepare request response c = Inl (a, c') \<Longrightarrow> same_books c c'"
proof (cases "efold open_streams (frames request) (response, c)")
  case (Inl e)
  assume "check_packet lib prepare request response c = Inl (a, c')"
  then show ?thesis using Inl open_streams_all(2) by (cases e) (auto simp: check_packet_def)
next
  case (Inr rc)
  obtain r2 c2 where rc: "rc = (r2, c2)" by (cases rc)
  define c3 where "c3 = handleControlFrames (frames request) c2"
  have b: "same_books c c3"
    using open_streams_all(1) [OF Inr [unfolded rc]] control_books
    unfolding c3_def by (blast intro: same_books_trans)
  assume "check_packet lib prepare request response c = Inl (a, c')"
  then have "same_books c3 c'"
    using Inr rc by (auto simp: check_packet_def Let_def destroy_books c3_def [symmetric]
        dest: check_money_abort split: prod.splits if_splits)
  with b show ?thesis by (rule same_books_trans)
qed

text \<open>A prepare that is refused before it is offered to the application changes no money.\<close>

lemma handlePrepare_start_refused:
  assumes "handlePrepare_start lib iv now prepare c = Inl (t, c')"
  shows "same_books c c'"
proof -
  note trans = same_books_trans [OF bumpIdle_books]
  show ?thesis
    using assms
    by (auto simp: handlePrepare_start_def Let_def same_books_refl
        split: sum.splits if_splits prod.splits abort.splits
        dest!: check_packet_abort arg_cong [where f = snd]
        intro: trans same_books_trans [OF same_books_trans [OF bumpIdle_books] construct_books])
qed

definition fulfillable :: "crypto_lib \<Rightarrow> IlpPrepare \<Rightarrow> receiving \<Rightarrow> conn \<Rightarrow> bool" where
  "fulfillable lib prepare rv c \<longleftrightarrow>
     decryptAndDeserialize lib (cn_pskKey c) (prep_data prepare) = Inr (rv_request rv)
     \<and> ilpPacketType (rv_request rv) = type_byte Prepare
     \<and> rv_amount rv = incoming_amount prepare \<and> prepareAmount (rv_request rv) \<le> rv_amount rv
     \<and> rv_fulfillment rv = generateFulfillment lib (cn_fulfillmentKey c) (prep_data prepare)
     \<and> lib_sha256 lib (rv_fulfillment rv) = executionCondition prepare"

text \<open>The state in which the amounts were checked, before the hold is taken.\<close>

definition checked_in :: "receiving \<Rightarrow> conn \<Rightarrow> bool" where
  "checked_in rv c \<longleftrightarrow> (\<exists>T. total_shares (frames (rv_request rv)) = Inr T
     \<and> list_all2 (receivable c (rv_amount rv) T) (money_shares (frames (rv_request rv))) (rv_amounts rv))"

lemma check_money_ok:
  assumes "check_money lib prepare request response c = Inr (rv, c')"
  shows "rv_request rv = request \<and> rv_amount rv = incoming_amount prepare
    \<and> prepareAmount request \<le> rv_amount rv
    \<and> rv_fulfillment rv = generateFulfillment lib (cn_fulfillmentKey c) (prep_data prepare)
    \<and> lib_sha256 lib (rv_fulfillment rv) = executionCondition prepare
    \<and> checked_in rv c \<and> addIncomingHold (rv_amount rv) c = (True, c')"
  using assms receive_frames [of c response "incoming_amount prepare" _ "frames request" "[]"]
  by (fastforce simp: check_money_def Let_def checked_in_def split: sum.splits if_splits prod.splits bool.splits)

lemma handlePrepare_started:
  assumes "handlePrepare_start lib iv now prepare c = Inr (rv, c')"
  obtains c1 where "same_books c c1" "fulfillable lib prepare rv c" "checked_in rv c1"
    "addIncomingHold (rv_amount rv) c1 = (True, c')"
    "fst (snd (conn_getIncomingOffsets c1)) \<le> nat (snd (snd (conn_getIncomingOffsets c1)))"
    "\<exists>r1 r2 c0. efold open_streams (frames (rv_request rv)) (r1, bumpIdle now c) = Inr (r2, c0)
       \<and> c1 = handleControlFrames (frames (rv_request rv)) c0"
proof -
  obtain request response where req: "decryptAndDeserialize lib (cn_pskKey c) (prep_data prepare) = Inr request"
    "ilpPacketType request = type_byte Prepare"
    "check_packet lib prepare request response (bumpIdle now c) = Inr (rv, c')"
    using assms by (auto simp: handlePrepare_start_def Let_def split: sum.splits if_splits prod.splits abort.splits)
  obtain r2 c2 where open_ok: "efold open_streams (frames request) (response, bumpIdle now c) = Inr (r2, c2)"
    using req(3) by (auto simp: check_packet_def)
  define c1 where "c1 = handleControlFrames (frames request) c2"
  have b: "same_books c c1"
    using bumpIdle_books open_streams_all(1) [OF open_ok] control_books
    unfolding c1_def by (blast intro: same_books_trans)
  have m: "check_money lib prepare request r2 c1 = Inr (rv, c')"
    "\<not> int (fst (snd (conn_getIncomingOffsets c1))) > snd (snd (conn_getIncomingOffsets c1))"
    using req(3) open_ok by (auto simp: check_packet_def Let_def c1_def split: prod.splits if_splits)
  show thesis
  proof (rule that [OF b])
    show "fulfillable lib prepare rv c"
      using check_money_ok [OF m(1)] req(1,2) same_books_fields(1) [OF b] unfolding fulfillable_def by metis
    show "checked_in rv c1" "addIncomingHold (rv_amount rv) c1 = (True, c')"
      using check_money_ok [OF m(1)] by blast+
    show "fst (snd (conn_getIncomingOffsets c1)) \<le> nat (snd (snd (conn_getIncomingOffsets c1)))"
      using m(2) by (simp add: le_nat_iff not_less)
    show "\<exists>r1 r2 c0. efold open_streams (frames (rv_request rv)) (r1, bumpIdle now c) = Inr (r2, c0)
       \<and> c1 = handleControlFrames (frames (rv_request rv)) c0"
      using open_ok check_money_ok [OF m(1)] unfolding c1_def by blast
  qed
qed

lemma checked_split:
  assumes "checked_in rv c"
  shows "amounts_sum (rv_amounts rv) \<le> unat (rv_amount rv)"
    and "money_shares (frames (rv_request rv)) \<noteq> [] \<Longrightarrow> shares_sum (frames (rv_request rv)) \<le> 2 ^ 63
      \<Longrightarrow> unat (rv_amount rv) < amounts_sum (rv_amounts rv) + length (rv_amounts rv)"
proof -
  obtain T where T: "total_shares (frames (rv_request rv)) = Inr T"
    and all: "list_all2 (receivable c (rv_amount rv) T) (money_shares (frames (rv_request rv))) (rv_amounts rv)"
    using assms by (auto simp: checked_in_def)
  note t = total_shares_sum [OF T]
  have pos: "0 < unat T" if "money_shares (frames (rv_request rv)) \<noteq> []"
    using that all by (cases "money_shares (frames (rv_request rv))")
      (auto simp: receivable_def multiplyDivideFloor_def multiplyDivide_def unat_gt_0 list_all2_Cons1 split: if_splits)
  show "amounts_sum (rv_amounts rv) \<le> unat (rv_amount rv)"
  proof (cases "money_shares (frames (rv_request rv)) = []")
    case True
    with all show ?thesis by simp
  next
    case False
    with split_upper [OF all, of "unat T"] t pos show ?thesis by simp
  qed
  assume m: "money_shares (frames (rv_request rv)) \<noteq> []" "shares_sum (frames (rv_request rv)) \<le> 2 ^ 63"
  have "unat (rv_amount rv) * unat T + length (rv_amounts rv)
      \<le> (amounts_sum (rv_amounts rv) + length (rv_amounts rv)) * unat T"
    using split_lower [OF all] t pos [OF m(1)] m(2) by simp
  moreover have "0 < length (rv_amounts rv)" using all m(1) by (auto dest: list_all2_lengthD)
  ultimately have "unat (rv_amount rv) * unat T < (amounts_sum (rv_amounts rv) + length (rv_amounts rv)) * unat T"
    by linarith
  then show "unat (rv_amount rv) < amounts_sum (rv_amounts rv) + length (rv_amounts rv)" by simp
qed

section \<open>Committing\<close>

lemma receive_amounts_books:
  assumes "receive_amounts as totals c = (totals', c')" "ids_inv c"
  shows "conn_config c' = conn_config c \<and> conn_totals c' = conn_totals c \<and> ids_inv c'
    \<and> map fst (objects c') = map fst (objects c) \<and> snd (ledger c') = snd (ledger c)
    \<and> holding c' = holding c \<and> entries_of c' = entries_of c \<and> cn_nextPacketSequence c' = cn_nextPacketSequence c
    \<and> received_in (objects c') \<le> received_in (objects c) + amounts_sum as
    \<and> (fst ` set as \<subseteq> fst ` set (objects c) \<longrightarrow> received_in (objects c) + amounts_sum as < 2 ^ 64
         \<longrightarrow> received_in (objects c') = received_in (objects c) + amounts_sum as)"
  using assms
proof (induction as totals c rule: receive_amounts.induct)
  case (2 k am rest totals c)
  define c1 where "c1 = map_object k (addToIncoming am) c"
  have ids1: "ids_inv c1" using "2.prems"(2) by (simp add: c1_def map_object_ids_inv)
  have step: "receive_amounts rest (case get_object k c1 of None \<Rightarrow> totals
      | Some s \<Rightarrow> AList.update k (totalReceived (cs_stream s)) totals) c1 = (totals', c')"
    using "2.prems"(1) by (simp add: c1_def Let_def)
  note IH = "2.IH" [OF c1_def step ids1]
  have keys: "map fst (objects c1) = map fst (objects c)" by (simp add: c1_def map_object_ids)
  then have keys': "fst ` set (objects c1) = fst ` set (objects c)" by (metis list.set_map)
  have le: "received_in (objects c1) \<le> received_in (objects c) + unat am"
    unfolding c1_def by (rule credit_le) (rule "2.prems"(2))
  have eq: "received_in (objects c1) = received_in (objects c) + unat am"
    if "k \<in> fst ` set (objects c)" "received_in (objects c) + unat am < 2 ^ 64"
    unfolding c1_def by (rule credit_exact [OF "2.prems"(2) that])
  show ?case
    using IH keys keys' le eq map_object_other [of k "addToIncoming am" c] credit_ledger [of k am c] credit_outgoing [of k am c]
    by (auto simp: c1_def [symmetric])
qed simp

text \<open>What each stream is credited with.\<close>

definition credited :: "(nat \<times> u64) list \<Rightarrow> nat \<Rightarrow> nat" where
  "credited as i = sum_list (map (\<lambda>(k, a). if k = i then unat a else 0) as)"

definition received_by :: "conn \<Rightarrow> (nat \<times> nat) list" where
  "received_by c = map (\<lambda>(i, s). (i, unat (totalReceived (cs_stream s)))) (objects c)"

definition saturated :: "nat \<Rightarrow> nat" where
  "saturated n = min (2 ^ 64 - 1) n"

lemma saturated_add: "saturated (saturated n + m) = saturated (n + m)"
  by (simp add: saturated_def min_def)

lemma received_by_object:
  "received_by (map_object k (addToIncoming am) c) = map (\<lambda>(i, t). (i, if i = k then saturated (t + unat am) else t)) (received_by c)"
proof -
  have "unat (totalReceived (cs_stream (on_money (addToIncoming am) s))) = saturated (unat (totalReceived (cs_stream s)) + unat am)" for s
    using checkedAdd_sat [of "totalReceived (cs_stream s)" am] by (simp add: on_money_def addToIncoming_def saturated_def)
  then show ?thesis by (simp add: received_by_def objects_map_object comp_def case_prod_beta)
qed

lemma receive_amounts_credited:
  "receive_amounts as totals c = (totals', c') \<Longrightarrow> received_by c' = map (\<lambda>(i, t). (i, saturated (t + credited as i))) (received_by c)"
proof (induction as totals c rule: receive_amounts.induct)
  case (1 totals c)
  have "saturated (unat a) = unat a" for a :: u64 using unat_u64_bound [of a] by (simp add: saturated_def)
  with 1 show ?case by (simp add: received_by_def credited_def comp_def case_prod_beta)
next
  case (2 k am rest totals c)
  define c1 where "c1 = map_object k (addToIncoming am) c"
  have "receive_amounts rest (case get_object k c1 of None \<Rightarrow> totals
      | Some s \<Rightarrow> AList.update k (totalReceived (cs_stream s)) totals) c1 = (totals', c')"
    using "2.prems" by (simp add: c1_def Let_def)
  note "2.IH" [OF c1_def this]
  also have "received_by c1 = map (\<lambda>(i, t). (i, if i = k then saturated (t + unat am) else t)) (received_by c)"
    unfolding c1_def by (rule received_by_object)
  finally show ?case by (auto simp: credited_def saturated_add add.assoc)
qed

lemma keeps_received_by: "keeps c c' \<Longrightarrow> received_by c' = received_by c"
proof -
  assume k: "keeps c c'"
  have r: "received_by x = map (\<lambda>(i, m). (i, unat (snd (fst m)))) (book (objects x))" for x
    by (simp add: received_by_def book_def comp_def case_prod_beta stream_money_def)
  show ?thesis unfolding r using k by (simp add: book_objects keeps_def)
qed

lemma receive_amounts_total: "receive_amounts as totals c = (totals', c') \<Longrightarrow> cn_totalReceived c' = cn_totalReceived c"
proof (induction as totals c rule: receive_amounts.induct)
  case (2 k am rest totals c)
  then show ?case by (auto simp: Let_def map_object_def)
qed simp

lemma stream_frames_keeps: "stream_frames c = (fs, c') \<Longrightarrow> keeps c c'"
  by (auto simp: stream_frames_def keeps_defs book_def on_money_def split: if_splits)

lemma handlePrepare_committed:
  assumes commit: "handlePrepare_commit lib iv rv c = (Inr f, c')" and inv: "ids_inv c"
  shows "fulfillment f = rv_fulfillment rv" "conn_config c' = conn_config c" "ids_inv c'"
    "cn_incomingHold c' = difference (checkedSubtract (cn_incomingHold c) (rv_amount rv))"
    "cn_totalReceived c' = add_sum (checkedAdd (cn_totalReceived c) (rv_amount rv))"
    "cn_totalSent c' = cn_totalSent c" "cn_totalDelivered c' = cn_totalDelivered c"
    "snd (ledger c') = snd (ledger c)" "holding c' = holding c" "entries_of c' = entries_of c"
    "cn_nextPacketSequence c \<le> cn_nextPacketSequence c'"
    "received_in (objects c') \<le> received_in (objects c) + amounts_sum (rv_amounts rv)"
    "fst ` set (rv_amounts rv) \<subseteq> fst ` set (objects c) \<Longrightarrow> received_in (objects c) + amounts_sum (rv_amounts rv) < 2 ^ 64
       \<Longrightarrow> received_in (objects c') = received_in (objects c) + amounts_sum (rv_amounts rv)"
    "received_by c' = map (\<lambda>(i, t). (i, saturated (t + credited (rv_amounts rv) i))) (received_by c)"
proof -
  obtain totals c1 where r: "receive_amounts (rv_amounts rv) [] c = (totals, c1)" by (cases "receive_amounts (rv_amounts rv) [] c")
  obtain limits c2 where l: "stream_frames c1 = (limits, c2)" by (cases "stream_frames c1")
  note k = stream_frames_keeps [OF l]
  note B = receive_amounts_books [OF r inv]
  have c': "c' = addTotalReceived (rv_amount rv) (removeIncomingHold (rv_amount rv) (c2\<lparr>cn_queuedFrames := []\<rparr>))"
    and f: "fulfillment f = rv_fulfillment rv"
    using commit r l by (auto simp: handlePrepare_commit_def Let_def split: sum.splits)
  show "fulfillment f = rv_fulfillment rv" by (rule f)
  have conf: "conn_config c' = conn_config c2"
    by (simp add: c' conn_config_def addTotalReceived_def removeIncomingHold_def)
  then show "conn_config c' = conn_config c" using k B by (simp add: keeps_def)
  have obj: "objects c' = objects c2"
    by (simp add: c' objects_def addTotalReceived_def removeIncomingHold_def)
  show "ids_inv c'" using keeps_ids [OF k] B
    by (simp add: ids_inv_def objects_def own_id_def c' addTotalReceived_def removeIncomingHold_def)
  show "cn_incomingHold c' = difference (checkedSubtract (cn_incomingHold c) (rv_amount rv))"
    "cn_totalReceived c' = add_sum (checkedAdd (cn_totalReceived c) (rv_amount rv))"
    "cn_totalSent c' = cn_totalSent c" "cn_totalDelivered c' = cn_totalDelivered c"
    using keeps_fields [OF k] B by (simp_all add: c' addTotalReceived_def removeIncomingHold_def conn_totals_def)
  have led: "ledger c' = ledger c1" using keeps_ledger [OF k] obj by (simp add: ledger_def)
  then show "snd (ledger c') = snd (ledger c)" using B by simp
  show "holding c' = holding c" "entries_of c' = entries_of c"
    using keeps_holding [OF k] B obj by (simp_all add: holding_def entries_of_def)
  show "cn_nextPacketSequence c \<le> cn_nextPacketSequence c'"
    using k B by (simp add: keeps_def c' addTotalReceived_def removeIncomingHold_def)
  have rec: "received_in (objects c') = received_in (objects c1)" using led by (simp add: ledger_def)
  show "received_in (objects c') \<le> received_in (objects c) + amounts_sum (rv_amounts rv)"
    using B rec by simp
  show "received_in (objects c') = received_in (objects c) + amounts_sum (rv_amounts rv)"
    if "fst ` set (rv_amounts rv) \<subseteq> fst ` set (objects c)" "received_in (objects c) + amounts_sum (rv_amounts rv) < 2 ^ 64"
    using B rec that by simp
  have "received_by c' = received_by c2" by (simp add: received_by_def obj)
  then show "received_by c' = map (\<lambda>(i, t). (i, saturated (t + credited (rv_amounts rv) i))) (received_by c)"
    using keeps_received_by [OF k] receive_amounts_credited [OF r] by simp
qed

lemma construct_thrown: "handlePrepare_decline lib iv prepare rv c = (t, c') \<Longrightarrow> same_books (removeIncomingHold (rv_amount rv) c) c'"
  unfolding handlePrepare_decline_def
  using construct_books [of "removeIncomingHold (rv_amount rv) c" lib iv prepare "rv_request rv" "rv_response rv"] by simp

definition approved ::
  "crypto_lib \<Rightarrow> (u64 \<Rightarrow> buffer \<Rightarrow> jsstring option \<Rightarrow> bool) option \<Rightarrow> receiving \<Rightarrow> conn \<Rightarrow> bool" where
  "approved lib shouldFulfill rv c \<longleftrightarrow>
     (case shouldFulfill of
        None \<Rightarrow> True
      | Some app \<Rightarrow> rv_amount rv = 0 \<or> app (rv_amount rv)
          (generateIncomingPacketId lib (cn_sharedSecret c) (sequence (rv_request rv))) (cn_connectionTag c))"

section \<open>A sample\<close>

definition sample_opts :: conn_opts where
  "sample_opts = \<lparr>op_sourceAccount = js ''g.shop'', op_assetCode = js ''USD'', op_assetScale = 2,
     op_destinationAccount = None, op_sharedSecret = [], op_isServer = True, op_slippage = None,
     op_enablePadding = False, op_connectionTag = None, op_receiptNonce = None, op_receiptSecret = None,
     op_maxRemoteStreams = None, op_connectionBufferSize = None, op_minExchangeRatePrecision = None,
     op_idleTimeout = None, op_maximumPacketAmount = None, op_exchangeRate = None\<rparr>"

definition sample_receiver :: conn where
  "sample_receiver = (case build_connection null_lib 0 sample_opts of
     Inr c \<Rightarrow> c\<lparr>cn_streams := [(1, \<lparr>cs_stream = new_stream\<lparr>receiveMax := 100\<rparr>, cs_readable = [], cs_ended = False\<rparr>)]\<rparr>)"

definition sample_request_packet :: stream_packet where
  "sample_request_packet =
     \<lparr>sequence = 7, ilpPacketType = type_byte Prepare, prepareAmount = 90, frames = [StreamMoney 1 5]\<rparr>"

definition sample_incoming :: IlpPrepare where
  "sample_incoming = \<lparr>prep_amount = dec_of_nat 95, executionCondition = replicate 32 0, expiresAt = 0, destination = [],
     prep_data = encrypt null_lib (replicate 12 0) (replicate 32 0) [packet_bytes sample_request_packet]\<rparr>"

lemma sample_decrypted:
  "decryptAndDeserialize null_lib (replicate 32 0) (prep_data sample_incoming) = Inr sample_request_packet"
proof -
  have "packet_ok sample_request_packet" by (simp add: packet_ok_def sample_request_packet_def frame_ok_def)
  from encrypt_roundtrip(2) [OF null_lib_ok(1) _ this, of "replicate 12 0"] show ?thesis
    by (simp add: sample_incoming_def)
qed

lemma sample_arith: "multiplyDivideFloor 95 5 5 = Inr 95" "multiplyDivideCeil 100 101 100 = Inr 101"
proof -
  show "multiplyDivideFloor 95 5 5 = Inr 95" using multiplyDivideFloor_exact [of 5 95 5] by simp
  obtain v where "multiplyDivideCeil 100 101 100 = Inr v" "unat v = 101"
    using multiplyDivideCeil_exact [of 100 100 101] by auto
  moreover have "v = of_nat (unat v)" by simp
  ultimately show "multiplyDivideCeil 100 101 100 = Inr 101" by simp
qed

lemma toNumber_one: "toNumber 1 = 1" by (subst toNumber_small) simp_all

lemma sample_pskKey: "cn_pskKey sample_receiver = replicate 32 0" 
  by (simp add: sample_receiver_def build_connection_def sample_opts_def Let_def or_default_def greaterThanOne_def
    generatePskEncryptionKey_def null_lib_def)

lemmas sample_defs = sample_receiver_def build_connection_def sample_opts_def Let_def or_default_def greaterThanOne_def

lemma sample_checked:
  "check_packet null_lib sample_incoming sample_request_packet response (bumpIdle 0 sample_receiver) =
     Inr (\<lparr>rv_request = sample_request_packet, rv_fulfillment = replicate 32 0, rv_amount = 95,
           rv_amounts = [(1, 95)], rv_response = response\<rparr>, (bumpIdle 0 sample_receiver)\<lparr>cn_incomingHold := 95\<rparr>)"
proof -
  have c: "get_stream 1 (bumpIdle 0 sample_receiver) = Some \<lparr>cs_stream = new_stream\<lparr>receiveMax := 100\<rparr>, cs_readable = [], cs_ended = False\<rparr>"
    "cn_closedStreams (bumpIdle 0 sample_receiver) = []"
    "cn_allowableReceiveExtra (bumpIdle 0 sample_receiver) = \<lparr>numer = 101, denom = 100\<rparr>"
    "conn_getIncomingOffsets (bumpIdle 0 sample_receiver) = (0, 0, 65534)"
    "cn_totalReceived (bumpIdle 0 sample_receiver) = 0" "cn_incomingHold (bumpIdle 0 sample_receiver) = 0"
    by (simp_all add: sample_defs bumpIdle_def get_stream_def conn_getIncomingOffsets_def stream_incoming_offsets_def
      getIncomingOffsets_def new_stream_def new_sorter_def MAX_DATA_SIZE_def)
  have open_ok: "efold open_streams (frames sample_request_packet) (response, bumpIdle 0 sample_receiver)
      = Inr (response, bumpIdle 0 sample_receiver)"
    using c by (simp add: sample_request_packet_def open_streams_def toNumber_one handleNewStream_def)
  have ctl: "handleControlFrames (frames sample_request_packet) (bumpIdle 0 sample_receiver) = bumpIdle 0 sample_receiver"
    by (simp add: sample_request_packet_def handleControlFrames_def)
  have am: "incoming_amount sample_incoming = 95" by (simp add: incoming_amount_def sample_incoming_def long_fromDecimal_def)
  have key: "generateFulfillment null_lib k d = replicate 32 0" "lib_sha256 null_lib d = replicate 32 0" for k d
    by (simp_all add: generateFulfillment_def null_lib_def)
  have cond: "executionCondition sample_incoming = replicate 32 0" by (simp add: sample_incoming_def)
  have T: "total_shares (frames sample_request_packet) = Inr 5"
    by (simp add: total_shares_def sample_request_packet_def checkedAdd_def)
  have fr: "efold (receive_frame (bumpIdle 0 sample_receiver) response 95 5) (frames sample_request_packet) [] = Inr [(1, 95)]"
    using c by (simp add: sample_request_packet_def toNumber_one sample_arith multiplyByLongCeil_def isOpen_def
        getAmountStreamCanReceive_def checkedSubtract_def new_stream_def Let_def)
  have hold: "addIncomingHold 95 (bumpIdle 0 sample_receiver) = (True, (bumpIdle 0 sample_receiver)\<lparr>cn_incomingHold := 95\<rparr>)"
    using c by (simp add: addIncomingHold_def checkedAdd_def)
  have mn: "prepareAmount sample_request_packet = 90" by (simp add: sample_request_packet_def)
  show ?thesis
    by (simp add: check_packet_def open_ok ctl c(4) check_money_def am key cond T fr hold mn Let_def)
qed

definition sample_started :: "receiving \<times> conn" where
  "sample_started = (\<lparr>rv_request = sample_request_packet, rv_fulfillment = replicate 32 0, rv_amount = 95,
           rv_amounts = [(1, 95)], rv_response = [ConnectionMaxData 65534]\<rparr>, (bumpIdle 0 sample_receiver)\<lparr>cn_incomingHold := 95\<rparr>)"

lemma sample_start: "handlePrepare_start null_lib iv 0 sample_incoming sample_receiver = Inr sample_started"
proof -
  have "conn_getIncomingOffsets (bumpIdle 0 sample_receiver) = (0, 0, 65534)"
    by (simp add: sample_defs bumpIdle_def conn_getIncomingOffsets_def stream_incoming_offsets_def
      getIncomingOffsets_def new_stream_def new_sorter_def MAX_DATA_SIZE_def)
  moreover have "ulong_of 65534 = 65534" by (simp add: ulong_of_def long_fromInt_def)
  moreover have "ilpPacketType sample_request_packet = type_byte Prepare" by (simp add: sample_request_packet_def)
  ultimately show ?thesis
    by (simp add: handlePrepare_start_def sample_pskKey sample_decrypted sample_checked sample_started_def Let_def)
qed

lemma sample_commit: "\<exists>f c'. handlePrepare_commit null_lib (replicate 12 0) (fst sample_started) (snd sample_started) = (Inr f, c')"
proof -
  obtain totals c1 where r: "receive_amounts (rv_amounts (fst sample_started)) [] (snd sample_started) = (totals, c1)"
    by (cases "receive_amounts (rv_amounts (fst sample_started)) [] (snd sample_started)")
  have c1: "cn_closed c1 = True" "cn_queuedFrames c1 = []" "cn_receiptNonce c1 = None" "cn_enablePadding c1 = False"
    using r by (auto simp: sample_started_def bumpIdle_def sample_defs map_object_def)
  have l: "stream_frames c1 = ([], c1)" "receipt_frames null_lib totals c1 = Inr []"
    by (simp_all add: stream_frames_def c1 receipt_frames_def)
  have ok: "packet_ok \<lparr>sequence = 7, ilpPacketType = 13, prepareAmount = 95, frames = [ConnectionMaxData 65534]\<rparr>"
    by (simp add: packet_ok_def frame_ok_def)
  have rv: "rv_response (fst sample_started) = [ConnectionMaxData 65534]" "rv_amount (fst sample_started) = 95"
    "sequence (rv_request (fst sample_started)) = 7"
    by (simp_all add: sample_started_def sample_request_packet_def)
  show ?thesis
    using c1 encrypt_roundtrip(1) [OF null_lib_ok(1) _ ok, of "replicate 12 0"]
    by (simp add: handlePrepare_commit_def r l rv Let_def pad_size_def addTotalReceived_def removeIncomingHold_def)
qed

section \<open>Properties of receiving\<close>

text \<open>
  The money of a packet is split between the streams without creating any: whatever shares the
  peer chose, the amounts credited add up to at most the amount of the packet; and when the shares add up to at most
  \<open>2^63\<close> and there is one, less than one unit for each frame is lost to rounding.
\<close>

theorem received_money_split:
  assumes "handlePrepare_start lib iv now prepare c = Inr (rv, c')"
  shows "rv_amount rv = incoming_amount prepare \<and> amounts_sum (rv_amounts rv) \<le> unat (rv_amount rv)
    \<and> (money_shares (frames (rv_request rv)) \<noteq> [] \<and> shares_sum (frames (rv_request rv)) \<le> 2 ^ 63
        \<longrightarrow> unat (rv_amount rv) < amounts_sum (rv_amounts rv) + length (rv_amounts rv))"
proof -
  obtain c1 where "fulfillable lib prepare rv c" "checked_in rv c1" using handlePrepare_started [OF assms] by blast
  then show ?thesis using checked_split [of rv c1] unfolding fulfillable_def by blast
qed

theorem received_money_split_witness: "amounts_sum (rv_amounts (fst sample_started)) \<le> 95"
proof -
  have "handlePrepare_start null_lib [] 0 sample_incoming sample_receiver = Inr (fst sample_started, snd sample_started)"
    by (simp add: sample_start)
  from received_money_split [OF this] show ?thesis by (simp add: sample_started_def)
qed

section \<open>The hold on incoming money\<close>

text \<open>The accounts of packets that are received one after the other, none pending meanwhile.\<close>

fun receive_totals :: "u64 list \<Rightarrow> conn \<Rightarrow> conn option" where
  "receive_totals [] c = Some c"
| "receive_totals (v # vs) c =
     (case addIncomingHold v c of
        (False, _) \<Rightarrow> None
      | (True, c1) \<Rightarrow> receive_totals vs (addTotalReceived v (removeIncomingHold v c1)))"

lemma addIncomingHold_True:
  assumes "addIncomingHold v c = (True, c')"
  shows "c' = c\<lparr>cn_incomingHold := cn_incomingHold c'\<rparr>"
    "unat (cn_incomingHold c') \<ge> unat (cn_incomingHold c) + unat v"
    "unat (cn_totalReceived c) + unat v \<le> unat (cn_incomingHold c')"
    "v \<noteq> 0 \<Longrightarrow> unat (cn_incomingHold c') = unat (cn_totalReceived c) + unat (cn_incomingHold c) + unat v"
proof -
  let ?s = "add_sum (checkedAdd (cn_totalReceived c) (cn_incomingHold c))"
  have h: "\<not> add_overflow (checkedAdd ?s v)" "cn_incomingHold c' = add_sum (checkedAdd ?s v)"
    "c' = c\<lparr>cn_incomingHold := add_sum (checkedAdd ?s v)\<rparr>"
    using assms by (auto simp: addIncomingHold_def Let_def split: if_splits)
  then show "c' = c\<lparr>cn_incomingHold := cn_incomingHold c'\<rparr>" by simp
  have v: "unat (cn_incomingHold c') = unat ?s + unat v"
    using h checkedAdd_sat [of ?s v] by simp
  note s = checkedAdd_sat [of "cn_totalReceived c" "cn_incomingHold c"]
  show "unat (cn_incomingHold c') \<ge> unat (cn_incomingHold c) + unat v"
    "unat (cn_totalReceived c) + unat v \<le> unat (cn_incomingHold c')"
    using v s unat_u64_bound [of "cn_incomingHold c"] unat_u64_bound [of "cn_totalReceived c"] by (auto simp: min_def)
  assume "v \<noteq> 0"
  then have "0 < unat v" by (simp add: unat_gt_0)
  then have "unat ?s < 2 ^ 64 - 1" using h(1) checkedAdd_sat [of ?s v] by (simp add: not_le)
  then show "unat (cn_incomingHold c') = unat (cn_totalReceived c) + unat (cn_incomingHold c) + unat v"
    using v s by (auto simp: min_def split: if_splits)
qed

text \<open>
  C11. A prepare is fulfilled only if its data decrypts under the key of the connection to a
  STREAM prepare, the amount is at least the minimum the sender asked for, the fulfillment hashes to the
  condition, and the application, if it has a say about money, agreed. Take a call that nothing else interrupts, and let \<open>c2\<close> be the connection after its streams were opened and the control frames handled. There the
  peer's data is within the limit of the connection, and each money frame has a stream that is open and an amount, its share of the packet by \<open>multiplyDivideFloor\<close>,
  which is within what that stream can still receive with the allowance for the rate; the amounts add up to at most the packet. After the call every stream has received
  exactly the sum of its amounts more (at most the largest 64-bit number), and the connection exactly the amount of the packet.
\<close>

theorem handlePrepare_safe:
  assumes "handlePrepare lib iv now shouldFulfill prepare c = (Inr f, c')"
  shows "\<exists>request r0 r1 c1 c2 T amounts.
    decryptAndDeserialize lib (cn_pskKey c) (prep_data prepare) = Inr request \<and> ilpPacketType request = type_byte Prepare
    \<and> prepareAmount request \<le> incoming_amount prepare
    \<and> fulfillment f = generateFulfillment lib (cn_fulfillmentKey c) (prep_data prepare)
    \<and> lib_sha256 lib (fulfillment f) = executionCondition prepare
    \<and> (case shouldFulfill of None \<Rightarrow> True | Some app \<Rightarrow> incoming_amount prepare = 0 \<or> app (incoming_amount prepare)
          (generateIncomingPacketId lib (cn_sharedSecret c) (sequence request)) (cn_connectionTag c))
    \<and> efold open_streams (frames request) (r0, bumpIdle now c) = Inr (r1, c1)
    \<and> c2 = handleControlFrames (frames request) c1
    \<and> fst (snd (conn_getIncomingOffsets c2)) \<le> nat (snd (snd (conn_getIncomingOffsets c2)))
    \<and> unat T = shares_sum (frames request)
    \<and> list_all2 (\<lambda>(sid, share) (i, a). i = toNumber sid \<and> multiplyDivideFloor (incoming_amount prepare) share T = Inr a
        \<and> (\<exists>s mx. get_stream i c2 = Some s \<and> isOpen s \<and> a \<le> mx
             \<and> multiplyByLongCeil (cn_allowableReceiveExtra c2) (getAmountStreamCanReceive (cs_stream s)) = Inr mx))
        (money_shares (frames request)) amounts
    \<and> amounts_sum amounts \<le> unat (incoming_amount prepare)
    \<and> received_by c' = map (\<lambda>(i, t). (i, min (2 ^ 64 - 1) (t + sum_list (map (\<lambda>(k, a). if k = i then unat a else 0) amounts)))) (received_by c2)
    \<and> unat (cn_totalReceived c') = unat (cn_totalReceived c) + unat (incoming_amount prepare)"
proof -
  obtain rv c3 where start: "handlePrepare_start lib iv now prepare c = Inr (rv, c3)"
    using assms by (auto simp: handlePrepare_def split: sum.splits prod.splits)
  from handlePrepare_started [OF start] obtain c2 where c2: "same_books c c2" "fulfillable lib prepare rv c" "checked_in rv c2"
    "addIncomingHold (rv_amount rv) c2 = (True, c3)"
    "fst (snd (conn_getIncomingOffsets c2)) \<le> nat (snd (snd (conn_getIncomingOffsets c2)))"
    "\<exists>r1 r2 c0. efold open_streams (frames (rv_request rv)) (r1, bumpIdle now c) = Inr (r2, c0)
       \<and> c2 = handleControlFrames (frames (rv_request rv)) c0" by blast
  note h = addIncomingHold_True [OF c2(4)]
  have c3: "cn_sharedSecret c3 = cn_sharedSecret c" "cn_connectionTag c3 = cn_connectionTag c" "received_by c3 = received_by c2"
    "cn_totalReceived c3 = cn_totalReceived c"
    using same_books_fields [OF c2(1)] c2(1) by (subst h(1), simp add: received_by_def objects_def same_books_def conn_totals_def)+
  have commit: "handlePrepare_commit lib iv rv c3 = (Inr f, c') \<and> approved lib shouldFulfill rv c"
    using assms start c3 by (auto simp: handlePrepare_def approved_def word_gt_0 split: option.splits if_splits prod.splits)
  have f: "fulfillment f = rv_fulfillment rv"
    using commit by (auto simp: handlePrepare_commit_def Let_def split: prod.splits sum.splits)
  obtain totals c4 where r: "receive_amounts (rv_amounts rv) [] c3 = (totals, c4)" by fastforce
  obtain limits c5 where l: "stream_frames c4 = (limits, c5)" by fastforce
  note k = stream_frames_keeps [OF l]
  have c': "c' = addTotalReceived (rv_amount rv) (removeIncomingHold (rv_amount rv) (c5\<lparr>cn_queuedFrames := []\<rparr>))"
    using commit r l by (auto simp: handlePrepare_commit_def Let_def split: sum.splits)
  have t: "cn_totalReceived c5 = cn_totalReceived c3"
    using keeps_fields(8) [OF k] receive_amounts_total [OF r] by simp
  have "received_by c' = received_by c5" by (simp add: received_by_def c' objects_def addTotalReceived_def removeIncomingHold_def)
  then have rec: "received_by c' = map (\<lambda>(i, t). (i, saturated (t + credited (rv_amounts rv) i))) (received_by c2)"
    using keeps_received_by [OF k] receive_amounts_credited [OF r] c3(3) by simp
  have "unat (cn_totalReceived c3) + unat (rv_amount rv) < 2 ^ 64"
    using h(3) c3(4) same_books_fields [OF c2(1)] c2(1) unat_u64_bound [of "cn_incomingHold c3"] by (simp add: same_books_def conn_totals_def)
  then have tot: "unat (cn_totalReceived c') = unat (cn_totalReceived c) + unat (rv_amount rv)"
    using checkedAdd_sat [of "cn_totalReceived c3" "rv_amount rv"] t c3(4) by (simp add: c' addTotalReceived_def removeIncomingHold_def)
  obtain T where T: "total_shares (frames (rv_request rv)) = Inr T"
    "list_all2 (receivable c2 (rv_amount rv) T) (money_shares (frames (rv_request rv))) (rv_amounts rv)"
    using c2(3) by (auto simp: checked_in_def)
  have each: "list_all2 (\<lambda>(sid, share) (i, a). i = toNumber sid \<and> multiplyDivideFloor (rv_amount rv) share T = Inr a
        \<and> (\<exists>s mx. get_stream i c2 = Some s \<and> isOpen s \<and> a \<le> mx
             \<and> multiplyByLongCeil (cn_allowableReceiveExtra c2) (getAmountStreamCanReceive (cs_stream s)) = Inr mx))
        (money_shares (frames (rv_request rv))) (rv_amounts rv)"
    by (rule list_all2_mono [OF T(2)]) (auto simp: receivable_def)
  have app: "case shouldFulfill of None \<Rightarrow> True | Some app \<Rightarrow> rv_amount rv = 0 \<or> app (rv_amount rv)
          (generateIncomingPacketId lib (cn_sharedSecret c) (sequence (rv_request rv))) (cn_connectionTag c)"
    using commit by (simp add: approved_def)
  note F = c2(2) [unfolded fulfillable_def]
  have am: "rv_amount rv = incoming_amount prepare" using F by blast
  obtain r0 r1 c1 where o: "efold open_streams (frames (rv_request rv)) (r0, bumpIdle now c) = Inr (r1, c1)"
    "c2 = handleControlFrames (frames (rv_request rv)) c1" using c2(6) by blast
  show ?thesis
    using F f app [unfolded am] o c2(5) total_shares_sum [OF T(1)] each [unfolded am] checked_split(1) [OF c2(3), unfolded am]
      rec [unfolded saturated_def credited_def] tot [unfolded am]
    by (intro exI [of _ "rv_request rv"] exI [of _ r0] exI [of _ r1] exI [of _ c1] exI [of _ c2] exI [of _ T] exI [of _ "rv_amounts rv"] conjI)
      auto
qed

theorem handlePrepare_safe_witness:
  "\<exists>f c'. handlePrepare null_lib (replicate 12 0) 0 None sample_incoming sample_receiver = (Inr f, c') \<and> unat (cn_totalReceived c') = 95
     \<and> fulfillment f = replicate 32 0"
proof -
  obtain f c' where "handlePrepare_commit null_lib (replicate 12 0) (fst sample_started) (snd sample_started) = (Inr f, c')"
    using sample_commit by blast
  then have h: "handlePrepare null_lib (replicate 12 0) 0 None sample_incoming sample_receiver = (Inr f, c')"
    by (simp add: handlePrepare_def sample_start case_prod_beta)
  have "unat (incoming_amount sample_incoming) = 95" "unat (cn_totalReceived sample_receiver) = 0"
    by (simp_all add: incoming_amount_def sample_incoming_def long_fromDecimal_def sample_defs)
  moreover have "generateFulfillment null_lib key d = replicate 32 0" for key d by (simp add: generateFulfillment_def null_lib_def)
  ultimately show ?thesis using handlePrepare_safe [OF h] h by auto
qed

lemma removeIncomingHold_exact:
  "v \<le> cn_incomingHold c \<Longrightarrow> unat (cn_incomingHold (removeIncomingHold v c)) = unat (cn_incomingHold c) - unat v"
  using checkedSubtract_sat [of v "cn_incomingHold c"] by (simp add: removeIncomingHold_def)

text \<open>
  The hold on incoming money is never given back in full: after packets that were received
  one after the other, none of them pending any more, the hold is the sum of what the connection had received
  before each packet, not zero. The connection is destroyed when the hold, the total and a new amount
  do not fit 64 bits, long before the total itself would overflow.
\<close>

theorem incoming_hold_accumulates:
  assumes "receive_totals vs c = Some c'" "0 \<notin> set vs"
  shows "unat (cn_totalReceived c') = unat (cn_totalReceived c) + sum_list (map unat vs)
    \<and> unat (cn_incomingHold c') = unat (cn_incomingHold c)
        + (\<Sum>i<length vs. unat (cn_totalReceived c) + sum_list (map unat (take i vs)))"
  using assms
proof (induction vs arbitrary: c)
  case (Cons v vs)
  obtain c1 where add: "addIncomingHold v c = (True, c1)"
    and rest: "receive_totals vs (addTotalReceived v (removeIncomingHold v c1)) = Some c'"
    using Cons.prems(1) by (auto split: prod.splits bool.splits)
  let ?c = "addTotalReceived v (removeIncomingHold v c1)"
  note h = addIncomingHold_True [OF add]
  have "v \<le> cn_incomingHold c1" using h(2) by (simp add: word_le_nat_alt)
  then have H: "unat (cn_incomingHold ?c) = unat (cn_incomingHold c) + unat (cn_totalReceived c)"
    using removeIncomingHold_exact [of v c1] h(4) Cons.prems(2) by (simp add: addTotalReceived_def)
  have "unat (cn_totalReceived c) + unat v < 2 ^ 64" using h(3) unat_u64_bound [of "cn_incomingHold c1"] by simp
  moreover have "cn_totalReceived c1 = cn_totalReceived c" by (subst h(1)) simp
  ultimately have T: "unat (cn_totalReceived ?c) = unat (cn_totalReceived c) + unat v"
    using checkedAdd_sat [of "cn_totalReceived c" v] by (simp add: addTotalReceived_def removeIncomingHold_def)
  from Cons.IH [OF rest] Cons.prems(2) H T show ?case
    by (simp add: sum.lessThan_Suc_shift algebra_simps del: sum.lessThan_Suc)
qed simp

theorem incoming_hold_accumulates_witness:
  "\<exists>c c'. receive_totals [2 ^ 62, 2 ^ 62] sample_receiver = Some c \<and> unat (cn_totalReceived c) = 2 ^ 63
     \<and> unat (cn_incomingHold c) = 2 ^ 62 \<and> addIncomingHold (2 ^ 62) c = (False, c')"
proof -
  have z: "cn_totalReceived sample_receiver = 0" "cn_incomingHold sample_receiver = 0" by (simp_all add: sample_defs)
  obtain c where c: "receive_totals [2 ^ 62, 2 ^ 62] sample_receiver = Some c"
    by (simp add: addIncomingHold_def addTotalReceived_def removeIncomingHold_def checkedAdd_def checkedSubtract_def z)
  have "unat (cn_totalReceived c) = 2 ^ 63" "unat (cn_incomingHold c) = 2 ^ 62"
    using incoming_hold_accumulates [OF c] z by (simp_all add: lessThan_Suc)
  moreover from this have "cn_totalReceived c = 2 ^ 63" "cn_incomingHold c = 2 ^ 62"
    by (auto intro!: word_unat_eq_iff [THEN iffD2])
  ultimately show ?thesis using c by (simp add: addIncomingHold_def checkedAdd_def)
qed

end
