(* ===== verification/Connection_Rate.thy ===== *)
theory Connection_Rate
  imports Connection
begin

text \<open>
  The exchange rate probe of \<^verbatim>\<open>ilp-protocol-stream/src/connection.ts\<close>: \<open>setupExchangeRate\<close>,
  \<open>determineExchangeRate\<close>, \<open>sendTestPacketVolley\<close> and \<open>sendTestPacket\<close>.

  \<open>sendTestPacket\<close> is cut at the call of the plugin into \<open>test_request\<close> and \<open>test_response\<close>. The loop takes
  the sending of a volley as an argument: given the amounts and the state it returns one result
  for each amount, or the error of the test packet that threw, and the state after all replies.
\<close>

section \<open>Test packets\<close>

definition test_request ::
  "crypto_lib \<Rightarrow> buffer \<Rightarrow> buffer \<Rightarrow> (jsstring \<Rightarrow> date) \<Rightarrow> u64 \<Rightarrow> conn \<Rightarrow> (stream_packet \<times> buffer) result \<times> conn" where
  "test_request lib iv condition expiry amount c =
     (case getNextPacketSequence c of
        (None, c1) \<Rightarrow> (Inl (Error ''Connection exceeded maximum number of packets''), c1)
      | (Some seq, c1) \<Rightarrow>
          let request = \<lparr>sequence = ulong_of (int seq), ilpPacketType = type_byte Prepare,
                         prepareAmount = 0, frames = account_frames c1\<rparr>;
              dest = or_default [] (cn_destinationAccount c1)
          in (if \<not> has_destination c1
              then Inl (Error ''Tried to send test packet without having a destination account'')
              else ebind (serializeAndEncrypt lib iv (cn_pskKey c1) None request) (\<lambda>d.
                   ebind (serializeIlpPrepare
                     \<lparr>prep_amount = dec_of_nat (unat amount), executionCondition = condition,
                      expiresAt = expiry dest, destination = dest, prep_data = d\<rparr>) (\<lambda>bs. Inr (request, bs))), c1))"

datatype test_result = TestNone | TestPacket stream_packet | TestReject IlpReject

text \<open>\<open>None\<close> is a timeout.\<close>

definition test_response ::
  "crypto_lib \<Rightarrow> date \<Rightarrow> stream_packet \<Rightarrow> buffer option \<Rightarrow> conn \<Rightarrow> test_result result \<times> conn" where
  "test_response lib now request responseData c =
     (case responseData of
        None \<Rightarrow> (Inr TestNone, c)
      | Some data \<Rightarrow>
          let c1 = bumpIdle now c
          in case deserializeIlpReject data of
               Inl e \<Rightarrow> (Inl e, c1)
             | Inr reject \<Rightarrow>
                 if rej_code reject = js ''F99'' \<and> rej_data reject \<noteq> [] then
                   (case decryptAndDeserialize lib (cn_pskKey c1) (rej_data reject) of
                      Inl e \<Rightarrow> (Inl e, c1)
                    | Inr p \<Rightarrow>
                        if sequence p \<noteq> sequence request
                        then (Inl (Error ''Response packet sequence does not correspond to the request.''), c1)
                        else if Some (ilpPacketType p) \<noteq> first_byte data
                        then (Inl (Error ''Response says it should be on an ILP packet of another type''), c1)
                        else (Inr (TestPacket p),
                              handleControlFrames (frames p) (c1\<lparr>cn_remoteKnowsOurAccount := True\<rparr>)))
                 else (Inr (TestReject reject), c1))"

section \<open>Volleys\<close>

text \<open>The maximum packet amount that an F08 reject reveals; \<open>MAX_UNSIGNED_VALUE\<close> stands for none.\<close>

fun test_maximum :: "u64 \<Rightarrow> test_result \<Rightarrow> u64" where
  "test_maximum sourceAmount (TestReject r) =
     (if rej_code r = js ''F08'' then
        case ebind (run_reader read_amounts (rej_data r)) (\<lambda>(received, maximum).
               multiplyDivideFloor sourceAmount maximum received) of
          Inl e \<Rightarrow> MAX_UNSIGNED_VALUE
        | Inr m \<Rightarrow> m
      else MAX_UNSIGNED_VALUE)"
| "test_maximum sourceAmount _ = MAX_UNSIGNED_VALUE"

record volley =
  maxDigits :: nat
  volleyRate :: rational
  packetErrors :: "(u64 \<times> jsstring) list"

fun note_result :: "u64 \<times> test_result \<Rightarrow> volley \<Rightarrow> volley result" where
  "note_result (sourceAmount, TestNone) v = Inr v"
| "note_result (sourceAmount, TestReject r) v =
     Inr (if rej_code r = [] then v else v\<lparr>packetErrors := packetErrors v @ [(sourceAmount, rej_code r)]\<rparr>)"
| "note_result (sourceAmount, TestPacket p) v =
     ebind (new_rational (prepareAmount p) sourceAmount) (\<lambda>rate.
       Inr (if countDigits (prepareAmount p) \<ge> maxDigits v
            then v\<lparr>maxDigits := countDigits (prepareAmount p), volleyRate := rate\<rparr> else v))"

definition sendTestPacketVolley :: "u64 list \<Rightarrow> test_result list \<Rightarrow> (u64 list \<times> volley) result" where
  "sendTestPacketVolley amounts results =
     (let maxPacketAmounts = map (\<lambda>(a, r). test_maximum a r) (zip amounts results)
      in ebind (efold note_result (zip amounts results)
                  \<lparr>maxDigits = 0, volleyRate = \<lparr>numer = 0, denom = 1\<rparr>, packetErrors = []\<rparr>)
           (\<lambda>v. Inr (maxPacketAmounts, v)))"

section \<open>Determining the rate\<close>

definition TEST_PACKET_MAX_ATTEMPTS :: nat where "TEST_PACKET_MAX_ATTEMPTS = 15"

definition first_amounts :: "u64 list" where
  "first_amounts = [1, 1000, 1000000, 1000000000, 1000000000000]"

text \<open>The elements in the order of their first occurrence, as a \<open>Set\<close> keeps them.\<close>

definition unique :: "'a list \<Rightarrow> 'a list" where
  "unique xs = rev (remdups (rev xs))"

definition is_temporary :: "u64 \<times> jsstring \<Rightarrow> bool" where
  "is_temporary e \<longleftrightarrow> snd e \<noteq> [] \<and> hd (snd e) = hd (js ''T'')"

definition next_amounts :: "u64 list \<Rightarrow> (u64 \<times> jsstring) list \<Rightarrow> u64 list" where
  "next_amounts maxPacketAmounts errors =
     (let amounts = unique (filter (\<lambda>a. a \<noteq> MAX_UNSIGNED_VALUE) maxPacketAmounts)
      in if list_ex is_temporary errors
         then
           let smallest = foldl (\<lambda>m e. minLong m (fst e)) MAX_UNSIGNED_VALUE errors
           in amounts @ [smallest - smallest div 3]
         else amounts)"

text \<open>
  One turn of the loop after a volley: \<open>Inr None\<close> when the rate was found, \<open>Inr (Some amounts)\<close> to
  go on. The pause between volleys fails once the timers are stopped.
\<close>

definition rate_step :: "u64 list \<Rightarrow> test_result list \<Rightarrow> conn \<Rightarrow> u64 list option result \<times> conn" where
  "rate_step amounts results c =
     (case sendTestPacketVolley amounts results of
        Inl e \<Rightarrow> (Inl e, c)
      | Inr (maxPacketAmounts, v) \<Rightarrow>
          let g = setMaximumAmounts
                    (the (minLongs (maxPacketAmounts @ [maximumPacketAmount (cn_congestion c)]))) (cn_congestion c);
              c1 = c\<lparr>cn_congestion := g\<rparr>
          in if maximumPacketAmount g = 0
             then (Inl (Error ''Cannot send. Path has a Maximum Packet Amount of 0''), c1)
             else if maxDigits v \<ge> cn_minExchangeRatePrecision c1
             then (Inr None, c1\<lparr>cn_exchangeRate := Some (volleyRate v)\<rparr>)
             else if list_ex is_temporary (packetErrors v) \<and> cn_done c1
             then (Inl (Error ''Connection terminated before rate could be determined.''), c1)
             else (Inr (Some (next_amounts maxPacketAmounts (packetErrors v))), c1))"

fun rate_loop ::
  "(u64 list \<Rightarrow> conn \<Rightarrow> test_result list result \<times> conn) \<Rightarrow> nat \<Rightarrow> u64 list \<Rightarrow> conn \<Rightarrow> unit result \<times> conn" where
  "rate_loop send_volley 0 amounts c =
     (Inl (Error ''Unable to establish connection, no packets meeting the minimum exchange precision made it through the path.''), c)"
| "rate_loop send_volley (Suc k) amounts c =
     (if amounts = []
      then (Inl (Error ''Unable to establish connection, no packets meeting the minimum exchange precision made it through the path.''), c)
      else case send_volley amounts c of
             (Inl e, c1) \<Rightarrow> (Inl e, c1)
           | (Inr results, c1) \<Rightarrow>
               case rate_step amounts results c1 of
                 (Inl e, c2) \<Rightarrow> (Inl e, c2)
               | (Inr None, c2) \<Rightarrow> (Inr (), c2)
               | (Inr (Some amounts'), c2) \<Rightarrow> rate_loop send_volley k amounts' c2)"

definition determineExchangeRate ::
  "(u64 list \<Rightarrow> conn \<Rightarrow> test_result list result \<times> conn) \<Rightarrow> conn \<Rightarrow> unit result \<times> conn" where
  "determineExchangeRate send_volley c =
     (if \<not> has_destination c
      then (Inl (Error ''Cannot determine exchange rate. Destination account is unknown''), c)
      else rate_loop send_volley TEST_PACKET_MAX_ATTEMPTS first_amounts c)"

text \<open>The first turn of the send loop; \<open>connect\<close> is emitted on the next tick.\<close>

definition setupExchangeRate ::
  "(u64 list \<Rightarrow> conn \<Rightarrow> test_result list result \<times> conn) \<Rightarrow> conn \<Rightarrow> unit result \<times> conn" where
  "setupExchangeRate send_volley c =
     (case cn_exchangeRate c of
        Some rate \<Rightarrow> (Inr (), emit EvConnect (c\<lparr>cn_connected := True\<rparr>))
      | None \<Rightarrow>
          case determineExchangeRate send_volley c of
            (Inl e, c1) \<Rightarrow> (Inl e, c1)
          | (Inr u, c1) \<Rightarrow> (Inr (), emit EvConnect (c1\<lparr>cn_connected := True\<rparr>)))"

section \<open>The rate that is found\<close>

text \<open>The best of a volley is a packet that came back from the receiver.\<close>

definition delivered_by :: "(u64 \<times> test_result) list \<Rightarrow> volley \<Rightarrow> bool" where
  "delivered_by rs v \<longleftrightarrow> (\<exists>a p. (a, TestPacket p) \<in> set rs \<and> maxDigits v = countDigits (prepareAmount p)
     \<and> volleyRate v = \<lparr>numer = prepareAmount p, denom = a\<rparr>)"

lemma note_result_cases:
  "note_result x v = Inr v' \<Longrightarrow> maxDigits v' = maxDigits v \<and> volleyRate v' = volleyRate v
     \<or> (\<exists>a p. x = (a, TestPacket p) \<and> maxDigits v' = countDigits (prepareAmount p)
          \<and> volleyRate v' = \<lparr>numer = prepareAmount p, denom = a\<rparr>)"
  by (cases x; cases "snd x") (auto simp: new_rational_def split: if_splits)

lemma note_results_best:
  "efold note_result rs v = Inr v' \<Longrightarrow> maxDigits v' = maxDigits v \<and> volleyRate v' = volleyRate v \<or> delivered_by rs v'"
proof (induction rs arbitrary: v)
  case (Cons x rs)
  obtain w where w: "note_result x v = Inr w" "efold note_result rs w = Inr v'" using Cons.prems by auto
  show ?case
    using Cons.IH [OF w(2)] note_result_cases [OF w(1)] by (fastforce simp: delivered_by_def)
qed simp

lemma rate_step_found:
  assumes "rate_step amounts results c = (Inr None, c')" "0 < cn_minExchangeRatePrecision c"
  shows "\<exists>a p. (a, TestPacket p) \<in> set (zip amounts results) \<and> cn_minExchangeRatePrecision c \<le> countDigits (prepareAmount p)
    \<and> cn_exchangeRate c' = Some \<lparr>numer = prepareAmount p, denom = a\<rparr>
    \<and> cn_minExchangeRatePrecision c' = cn_minExchangeRatePrecision c \<and> maximumPacketAmount (cn_congestion c') \<noteq> 0"
proof -
  obtain mx v where v: "sendTestPacketVolley amounts results = Inr (mx, v)" "cn_exchangeRate c' = Some (volleyRate v)"
    "cn_minExchangeRatePrecision c \<le> maxDigits v" "cn_minExchangeRatePrecision c' = cn_minExchangeRatePrecision c"
    "maximumPacketAmount (cn_congestion c') \<noteq> 0"
    using assms(1) by (auto simp: rate_step_def Let_def split: sum.splits prod.splits if_splits)
  have "delivered_by (zip amounts results) v"
    using v(1,3) assms(2) note_results_best by (fastforce simp: sendTestPacketVolley_def Let_def)
  with v show ?thesis by (fastforce simp: delivered_by_def)
qed

lemma rate_step_precision: "rate_step amounts results c = (r, c') \<Longrightarrow> cn_minExchangeRatePrecision c' = cn_minExchangeRatePrecision c"
  by (auto simp: rate_step_def Let_def split: sum.splits prod.splits if_splits)

text \<open>The delivered amount of the best test packet has a digit for each digit of precision.\<close>

lemma countDigits_lower: "d \<le> countDigits v \<Longrightarrow> 0 < d \<Longrightarrow> 10 ^ (d - 1) \<le> unat v"
proof -
  assume d: "d \<le> countDigits v" "0 < d"
  then have "v \<noteq> 0" by (auto simp: countDigits_def countDigits_loop.simps)
  then obtain k where k: "countDigits v = Suc k" "10 ^ k \<le> unat v"
    using countDigits_loop_bounds [of v 0] by (auto simp: countDigits_def)
  have "(10 :: nat) ^ (d - 1) \<le> 10 ^ k" using d k by (intro power_increasing) auto
  with k(2) show ?thesis by linarith
qed

definition keeps_precision :: "(u64 list \<Rightarrow> conn \<Rightarrow> test_result list result \<times> conn) \<Rightarrow> bool" where
  "keeps_precision send_volley \<longleftrightarrow>
     (\<forall>amounts c. cn_minExchangeRatePrecision (snd (send_volley amounts c)) = cn_minExchangeRatePrecision c)"

lemma rate_loop_found:
  assumes "rate_loop send_volley n amounts c = (Inr (), c')" "0 < cn_minExchangeRatePrecision c" "keeps_precision send_volley"
  shows "\<exists>as c0 c1 results a p. send_volley as c0 = (Inr results, c1) \<and> (a, TestPacket p) \<in> set (zip as results)
    \<and> cn_exchangeRate c' = Some \<lparr>numer = prepareAmount p, denom = a\<rparr>
    \<and> 10 ^ (cn_minExchangeRatePrecision c - 1) \<le> unat (prepareAmount p) \<and> maximumPacketAmount (cn_congestion c') \<noteq> 0"
  using assms(1,2)
proof (induction n arbitrary: amounts c)
  case (Suc n)
  obtain results c1 where s: "send_volley amounts c = (Inr results, c1)"
    using Suc.prems(1) by (auto split: prod.splits sum.splits if_splits)
  have k: "cn_minExchangeRatePrecision c1 = cn_minExchangeRatePrecision c"
    using assms(3) s by (metis keeps_precision_def snd_conv)
  obtain r c2 where r: "rate_step amounts results c1 = (Inr r, c2)"
    "r = None \<and> c' = c2 \<or> (\<exists>am. r = Some am \<and> rate_loop send_volley n am c2 = (Inr (), c'))"
    using Suc.prems(1) s by (auto split: prod.splits sum.splits if_splits option.splits)
  show ?case
  proof (cases r)
    case None
    have "0 < cn_minExchangeRatePrecision c1" using Suc.prems(2) k by simp
    with rate_step_found [OF r(1) [unfolded None]] obtain a p where
      "(a, TestPacket p) \<in> set (zip amounts results)" "cn_minExchangeRatePrecision c1 \<le> countDigits (prepareAmount p)"
      "cn_exchangeRate c2 = Some \<lparr>numer = prepareAmount p, denom = a\<rparr>" "maximumPacketAmount (cn_congestion c2) \<noteq> 0" by blast
    moreover have "c' = c2" using r(2) None by simp
    moreover have "10 ^ (cn_minExchangeRatePrecision c - 1) \<le> unat (prepareAmount p)"
      using calculation(2) Suc.prems(2) k by (intro countDigits_lower) simp_all
    ultimately show ?thesis using s by blast
  next
    case (Some am)
    then have "rate_loop send_volley n am c2 = (Inr (), c')" using r(2) by simp
    with Suc.IH [OF this] rate_step_precision [OF r(1)] Suc.prems(2) k show ?thesis by simp
  qed
qed simp

text \<open>A path that delivers the amount times a fixed rate, rounded down, as every test packet it lets through shows.\<close>

definition honest_path :: "nat \<Rightarrow> nat \<Rightarrow> (u64 list \<Rightarrow> conn \<Rightarrow> test_result list result \<times> conn) \<Rightarrow> bool" where
  "honest_path up down send_volley \<longleftrightarrow> (\<forall>as c results c' a p. send_volley as c = (Inr results, c')
     \<and> (a, TestPacket p) \<in> set (zip as results) \<longrightarrow> unat (prepareAmount p) = unat a * up div down)"

end
