(* ===== verification/Connection_System.thy ===== *)
theory Connection_System
  imports Connection_Settle Connection_Receive Connection_Rate
begin

text \<open>
  A connection under everything that can happen to it: calls of the application, control frames, packets that are received, offered to the
  application and answered in any order, test packets, the turns of the send loop and its timers.

  The state has the packet whose response the send loop waits for and the received packets that wait for the
  decision of the application. Between any two steps of one activity the others may run.
\<close>

section \<open>Calls of the application on a stream\<close>

datatype stream_call =
    SetSendMax long_value
  | SetReceiveMax long_value
  | Write buffer
  | Read nat int
  | EndStream
  | Finish
  | DestroyStream "jsstring option"

text \<open>
  \<open>Read n want\<close>: the consumer takes \<open>n\<close> bytes and Node.js calls \<open>_read(want)\<close>. \<open>Finish\<close>: the end of \<open>_final\<close>.
  \<open>None\<close>: the call throws.
\<close>

fun do_call :: "stream_call \<Rightarrow> conn_stream \<Rightarrow> conn_stream option" where
  "do_call (SetSendMax l) s =
     (case setSendMax l (cs_stream s) of Inl e \<Rightarrow> None | Inr st \<Rightarrow> Some (s\<lparr>cs_stream := st\<rparr>))"
| "do_call (SetReceiveMax l) s =
     (case setReceiveMax l (cs_stream s) of Inl e \<Rightarrow> None | Inr st \<Rightarrow> Some (s\<lparr>cs_stream := st\<rparr>))"
| "do_call (Write d) s = Some (on_money (stream_write d (Some ())) s)"
| "do_call (Read n want) s =
     (case stream_read want (incomingData (cs_stream s)) of
        (out, q) \<Rightarrow> Some (s\<lparr>cs_readable := drop n (cs_readable s) @ concat out,
                            cs_stream := (cs_stream s)\<lparr>incomingData := q\<rparr>\<rparr>))"
| "do_call EndStream s = Some (s\<lparr>cs_ended := True\<rparr>)"
| "do_call Finish s = Some (on_money finish s)"
| "do_call (DestroyStream e) s = Some (on_money (stream_destroy e) s)"

text \<open>The calls that emit \<open>_maybe_start_send_loop\<close>; the other side always has the loop started for a read.\<close>

fun wakes :: "stream_call \<Rightarrow> bool" where
  "wakes EndStream = False"
| "wakes Finish = False"
| "wakes (DestroyStream e) = False"
| "wakes _ = True"

definition call_stream :: "nat \<Rightarrow> stream_call \<Rightarrow> conn \<Rightarrow> conn" where
  "call_stream sid call c =
     (case get_stream sid c of
        None \<Rightarrow> c
      | Some s \<Rightarrow>
          case do_call call s of
            None \<Rightarrow> c
          | Some s' \<Rightarrow>
              let c1 = modify_stream sid (\<lambda>_. s') c in if wakes call then startSendLoop c1 else c1)"

text \<open>The limits the application sets stay below \<open>M\<close>.\<close>

fun call_within :: "nat \<Rightarrow> stream_call \<Rightarrow> bool" where
  "call_within M (SetSendMax l) = (case stream_longFromValue l True of Inl e \<Rightarrow> True | Inr v \<Rightarrow> unat (long_bits v) \<le> M)"
| "call_within M _ = True"

text \<open>Steps without an effect on money that was sent, received or held.\<close>

definition quiet :: "nat \<Rightarrow> conn \<Rightarrow> conn \<Rightarrow> bool" where
  "quiet M c c' \<longleftrightarrow> conn_totals c' = conn_totals c
     \<and> received_in (objects c') = received_in (objects c) \<and> sent_in (objects c') = sent_in (objects c)
     \<and> holding c' = holding c \<and> ids_inv c' \<and> money_ok M c' \<and> cn_nextPacketSequence c \<le> cn_nextPacketSequence c'"

lemma quiet_books: "same_books c c' \<Longrightarrow> ids_inv c \<Longrightarrow> money_ok M c \<Longrightarrow> quiet M c c'"
  using same_books_money_ok [of c c' M] by (simp add: same_books_def quiet_def ledger_def)

lemma quiet_keeps: "keeps c c' \<Longrightarrow> ids_inv c \<Longrightarrow> money_ok M c \<Longrightarrow> quiet M c c'"
  by (rule quiet_books) (rule keeps_same_books)

lemma quiet_then_keeps: "quiet M c c' \<Longrightarrow> keeps c' c'' \<Longrightarrow> quiet M c c''"
  using quiet_keeps [of c' c'' M] by (simp add: quiet_def)

lemma set_stream_quiet:
  assumes inv: "ids_inv c" "money_ok M c" and s: "(i, s) \<in> set (cn_streams c)"
    and same: "totalReceived (cs_stream s') = totalReceived (cs_stream s)" "totalSent (cs_stream s') = totalSent (cs_stream s)"
      "holds (cs_stream s') = holds (cs_stream s)"
    and ok: "money_inv M (cs_stream s')"
  shows "quiet M c (modify_stream i (\<lambda>_. s') c)"
proof -
  let ?c = "modify_stream i (\<lambda>_. s') c"
  have d: "distinct (map fst (cn_streams c))" using inv(1) by (simp add: ids_inv_def objects_def)
  have digest: "map (\<lambda>(j, t). (j, g t)) (objects ?c) = map (\<lambda>(j, t). (j, g t)) (objects c)" if "g s' = g s" for g :: "conn_stream \<Rightarrow> 'x"
    using that eq_key_imp_eq_value [OF d _ s] by (auto simp: objects_def modify_stream_def)
  have sums: "map (f \<circ> snd) (objects ?c) = map (f \<circ> snd) (objects c)" if "f s' = f s" for f :: "conn_stream \<Rightarrow> 'x"
    using arg_cong [OF digest [OF that], of "map snd"] by (simp add: comp_def case_prod_beta)
  have ids: "map fst (objects ?c) = map fst (objects c)"
    using arg_cong [OF digest [of "\<lambda>_. ()"], of "map fst"] by (simp add: comp_def case_prod_beta)
  have hold: "(j, k, a) \<in> holding ?c \<longleftrightarrow> (j, k, a) \<in> holding c" for j k a
  proof -
    have iff: "(j, k, a) \<in> holding x \<longleftrightarrow> (\<exists>hs. (j, hs) \<in> set (map (\<lambda>(j, t). (j, holds (cs_stream t))) (objects x)) \<and> map_of hs k = Some a)" for x
      by (force simp: holding_iff)
    show ?thesis unfolding iff by (subst digest) (simp_all add: same)
  qed
  have "money_ok M ?c"
    using inv(2) ok unfolding money_ok_iff by (fastforce simp: objects_def modify_stream_def)
  moreover have "ids_inv ?c"
  proof -
    have "fst ` set (objects ?c) = fst ` set (objects c)" using ids by (metis list.set_map)
    moreover have "cn_closedStreams ?c = cn_closedStreams c" "cn_detached ?c = cn_detached c" "cn_nextStreamId ?c = cn_nextStreamId c"
      "cn_maxStreamId ?c = cn_maxStreamId c" "\<And>j. own_id ?c j = own_id c j"
      by (simp_all add: modify_stream_def own_id_def)
    ultimately show ?thesis using inv(1) ids by (simp add: ids_inv_def)
  qed
  moreover have "conn_totals ?c = conn_totals c" "cn_nextPacketSequence ?c = cn_nextPacketSequence c"
    by (simp_all add: modify_stream_def conn_totals_def)
  moreover have "received_in (objects ?c) = received_in (objects c)" "sent_in (objects ?c) = sent_in (objects c)"
    using sums [of "unat \<circ> totalReceived \<circ> cs_stream"] sums [of "unat \<circ> totalSent \<circ> cs_stream"] same
    by (simp_all add: received_in_def sent_in_def comp_assoc)
  ultimately show ?thesis using hold by (auto simp: quiet_def)
qed

lemma do_call_money:
  assumes "do_call call s = Some s'" "money_inv M (cs_stream s)" "call_within M call"
  shows "totalReceived (cs_stream s') = totalReceived (cs_stream s) \<and> totalSent (cs_stream s') = totalSent (cs_stream s)
    \<and> holds (cs_stream s') = holds (cs_stream s) \<and> money_inv M (cs_stream s')"
  using assms
  by (cases call)
    (auto simp: setSendMax_def setReceiveMax_def money_inv_def on_money_def stream_write_def finish_def stream_destroy_def
      split: sum.splits if_splits prod.splits)

lemma call_quiet:
  assumes inv: "ids_inv c" "money_ok M c" and call: "call_within M call"
  shows "quiet M c (call_stream i call c)"
proof (cases "get_stream i c")
  case None
  then show ?thesis using inv by (simp add: call_stream_def quiet_keeps keeps_refl)
next
  case (Some s)
  show ?thesis
  proof (cases "do_call call s")
    case None
    then show ?thesis using inv Some by (simp add: call_stream_def quiet_keeps keeps_refl)
  next
    case s': (Some s')
    have s: "(i, s) \<in> set (cn_streams c)" using Some by (simp add: get_stream_def map_of_SomeD)
    then have "money_inv M (cs_stream s)" using inv(2) by (auto simp: money_ok_iff objects_def)
    note m = do_call_money [OF s' this call]
    have q: "quiet M c (modify_stream i (\<lambda>_. s') c)" using set_stream_quiet [OF inv s] m by blast
    show ?thesis
      using q quiet_then_keeps [OF q keeps_step(3) [OF keeps_refl]] Some s' by (simp add: call_stream_def Let_def)
  qed
qed

section \<open>The other handlers\<close>

datatype handler =
    CreateStream
  | RemoveStream nat
  | Destroy "conn_error option"
  | DestroyFinish
  | End
  | EndClosed
  | EndFinish
  | Connect
  | ConnectFinish
  | Idle date
  | Wake

fun handle :: "handler \<Rightarrow> conn \<Rightarrow> conn" where
  "handle CreateStream c = snd (createStream c)"
| "handle (RemoveStream i) c = removeStreamRecord i c"
| "handle (Destroy e) c = destroy e c"
| "handle DestroyFinish c = destroy_finish c"
| "handle End c = conn_end c"
| "handle EndClosed c = snd (end_closed c)"
| "handle EndFinish c = end_finish c"
| "handle Connect c = connect c"
| "handle ConnectFinish c = connect_finish c"
| "handle (Idle now) c = testIdle now c"
| "handle Wake c = startSendLoop c"

lemma keeps_flags:
  "keeps c (c\<lparr>cn_closed := b\<rparr>)" "keeps c (c\<lparr>cn_remoteState := x\<rparr>)" "keeps c (c\<lparr>cn_looping := b\<rparr>)"
  "keeps c (c\<lparr>cn_connected := b\<rparr>)" "keeps c (c\<lparr>cn_exchangeRate := r\<rparr>)" "keeps c (c\<lparr>cn_congestion := g\<rparr>)"
  "keeps c (c\<lparr>cn_remoteKnowsOurAccount := b\<rparr>)" "keeps c (c\<lparr>cn_idleTimer := t\<rparr>)"
  "keeps c (c\<lparr>cn_congestion := g, cn_exchangeRate := r\<rparr>)" "keeps c (c\<lparr>cn_nextPacketSequence := cn_nextPacketSequence c + 1\<rparr>)"
  by (simp_all add: keeps_defs)

lemma sendConnectionClose_keeps: "keeps c (snd (sendConnectionClose e c))"
  by (auto simp: sendConnectionClose_def Let_def keeps_defs split: prod.splits)

lemma handle_books: "ids_inv c \<Longrightarrow> same_books c (handle h c)"
proof (cases h)
  case CreateStream
  assume "ids_inv c"
  then show ?thesis using CreateStream createStream_books [of c] by (cases "createStream c") simp
next
  case (RemoveStream i)
  assume "ids_inv c"
  then show ?thesis using RemoveStream removeStreamRecord_books by simp
next
  case EndClosed
  show ?thesis
    using keeps_same_books [OF keeps_trans [OF keeps_flags(1) sendConnectionClose_keeps]] EndClosed
    by (simp add: end_closed_def)
qed (auto intro!: keeps_same_books keeps_destroy keeps_conn_end keeps_step keeps_flags keeps_refl
    simp: destroy_finish_def end_finish_def connect_def connect_finish_def testIdle_def startIdleTimer_def)

lemma test_request_keeps: "keeps c (snd (test_request lib iv condition expiry am c))"
  using keeps_flags(10) [of c] by (auto simp: test_request_def getNextPacketSequence_def Let_def)

lemma test_response_keeps: "keeps c (snd (test_response lib now request d c))"
proof (cases d)
  case (Some data)
  have k: "keeps c (bumpIdle now c)" by (rule keeps_step(5)) (rule keeps_refl)
  have "keeps c (handleControlFrames fs ((bumpIdle now c)\<lparr>cn_remoteKnowsOurAccount := True\<rparr>))" for fs
    by (rule keeps_trans [OF keeps_trans [OF k keeps_flags(7)] keeps_handleControlFrames])
  with k Some show ?thesis by (auto simp: test_response_def Let_def split: sum.splits)
qed (simp add: test_response_def keeps_refl)

lemma rate_step_keeps: "keeps c (snd (rate_step amounts results c))"
  by (auto simp: rate_step_def Let_def keeps_refl keeps_flags split: sum.splits prod.splits)

lemma loop_keeps: "keeps c (loop_catch e c)" "keeps c (loop_exit c)"
  using keeps_trans [OF keeps_flags(3) keeps_destroy] by (auto simp: loop_catch_def loop_exit_def intro: keeps_step keeps_flags)

section \<open>Declining and committing a received packet\<close>

text \<open>\<open>receives M n c c'\<close>: the streams were credited with at most \<open>n\<close>; nothing else of the money changed but the totals of receiving.\<close>

definition receives :: "nat \<Rightarrow> nat \<Rightarrow> conn \<Rightarrow> conn \<Rightarrow> bool" where
  "receives M n c c' \<longleftrightarrow> cn_totalSent c' = cn_totalSent c \<and> received_in (objects c') \<le> received_in (objects c) + n
     \<and> sent_in (objects c') = sent_in (objects c) \<and> holding c' = holding c \<and> ids_inv c' \<and> money_ok M c'
     \<and> cn_nextPacketSequence c \<le> cn_nextPacketSequence c'"

text \<open>How a commit changes the hold and the total: it stops before both, or it does both.\<close>

definition moves :: "u64 \<Rightarrow> conn \<Rightarrow> conn \<Rightarrow> bool" where
  "moves v c c' \<longleftrightarrow> cn_incomingHold c' = difference (checkedSubtract (cn_incomingHold c) v)
     \<and> cn_totalReceived c' = add_sum (checkedAdd (cn_totalReceived c) v)"

lemma commit_receives:
  assumes commit: "handlePrepare_commit lib iv rv c = (r, c')" and inv: "ids_inv c" "money_ok M c"
  shows "receives M (amounts_sum (rv_amounts rv)) c c'"
    and "moves (rv_amount rv) c c' \<or> (\<exists>t. r = Inl t) \<and> cn_incomingHold c' = cn_incomingHold c \<and> cn_totalReceived c' = cn_totalReceived c"
proof -
  obtain totals c1 where r: "receive_amounts (rv_amounts rv) [] c = (totals, c1)" by fastforce
  obtain limits c2 where l: "stream_frames c1 = (limits, c2)" by fastforce
  note k = stream_frames_keeps [OF l]
  note B = receive_amounts_books [OF r inv(1)]
  define c3 where "c3 = addTotalReceived (rv_amount rv) (removeIncomingHold (rv_amount rv) (c2\<lparr>cn_queuedFrames := []\<rparr>))"
  have c': "c' = c2 \<and> (\<exists>t. r = Inl t) \<or> c' = c3"
    using commit r l by (auto simp: handlePrepare_commit_def Let_def c3_def split: sum.splits)
  have B2: "conn_totals c2 = conn_totals c" "ids_inv c2" "snd (ledger c2) = snd (ledger c)" "holding c2 = holding c"
    "entries_of c2 = entries_of c" "cn_nextPacketSequence c \<le> cn_nextPacketSequence c2"
    "received_in (objects c2) \<le> received_in (objects c) + amounts_sum (rv_amounts rv)"
    using B keeps_ids [OF k] keeps_ledger [OF k] keeps_holding [OF k] k by (simp_all add: keeps_def ledger_def)
  have r2: "receives M (amounts_sum (rv_amounts rv)) c c2"
    using B2 inv(2) by (simp add: receives_def ledger_def money_ok_def conn_totals_def)
  have frame: "objects c3 = objects c2" "cn_totalSent c3 = cn_totalSent c2" "cn_nextPacketSequence c3 = cn_nextPacketSequence c2"
    by (simp_all add: c3_def objects_def addTotalReceived_def removeIncomingHold_def)
  then have "holding c3 = holding c2" "entries_of c3 = entries_of c2" by (simp_all add: holding_def entries_of_def)
  moreover have "ids_inv c3"
    using B2(2) by (simp add: ids_inv_def objects_def own_id_def c3_def addTotalReceived_def removeIncomingHold_def)
  ultimately have "receives M (amounts_sum (rv_amounts rv)) c c3"
    using r2 frame by (simp add: receives_def money_ok_def)
  with c' r2 show "receives M (amounts_sum (rv_amounts rv)) c c'" by auto
  have "moves (rv_amount rv) c c3"
    using B2(1) by (simp add: moves_def c3_def addTotalReceived_def removeIncomingHold_def conn_totals_def)
  with c' B2(1) show "moves (rv_amount rv) c c' \<or> (\<exists>t. r = Inl t) \<and> cn_incomingHold c' = cn_incomingHold c \<and> cn_totalReceived c' = cn_totalReceived c"
    by (auto simp: conn_totals_def)
qed

section \<open>The system\<close>

text \<open>
  \<open>sy_flight\<close> is the packet whose response the send loop waits for, \<open>sy_pending\<close> the packets that wait for the
  application. The last two fields are not in the code: the money that streams counted in a turn that then threw, so that
  the total of the connection misses it.
\<close>

record system =
  sy_conn :: conn
  sy_flight :: "loaded option"
  sy_pending :: "receiving list"
  sy_lostOut :: nat
  sy_lostIn :: nat

definition new_system :: "conn \<Rightarrow> system" where
  "new_system c = \<lparr>sy_conn = c, sy_flight = None, sy_pending = [], sy_lostOut = 0, sy_lostIn = 0\<rparr>"

text \<open>
  A turn of the loop is about to load a packet: after the turn began, \<open>loadAndSendPacket\<close> waits once and does not look at \<open>sending\<close>
  again, so \<open>sending\<close> may be off by then.
\<close>

definition loop_ready :: "system \<Rightarrow> bool" where
  "loop_ready sy \<longleftrightarrow> sy_flight sy = None \<and> cn_looping (sy_conn sy) \<and> cn_connected (sy_conn sy)"

inductive conn_step :: "nat \<Rightarrow> crypto_lib \<Rightarrow> system \<Rightarrow> system \<Rightarrow> bool" for M lib where
  called: "call_within M call \<Longrightarrow> conn_step M lib sy (sy\<lparr>sy_conn := call_stream i call (sy_conn sy)\<rparr>)"
| handler: "conn_step M lib sy (sy\<lparr>sy_conn := handle h (sy_conn sy)\<rparr>)"
| refused: "handlePrepare_start lib iv now prepare (sy_conn sy) = Inl (t, c') \<Longrightarrow> conn_step M lib sy (sy\<lparr>sy_conn := c'\<rparr>)"
| started: "handlePrepare_start lib iv now prepare (sy_conn sy) = Inr (rv, c')
    \<Longrightarrow> conn_step M lib sy (sy\<lparr>sy_conn := c', sy_pending := sy_pending sy @ [rv]\<rparr>)"
| declined: "sy_pending sy = xs @ rv # ys \<Longrightarrow> handlePrepare_decline lib iv prepare rv (sy_conn sy) = (t, c')
    \<Longrightarrow> conn_step M lib sy (sy\<lparr>sy_conn := c', sy_pending := xs @ ys\<rparr>)"
| committed: "sy_pending sy = xs @ rv # ys \<Longrightarrow> handlePrepare_commit lib iv rv (sy_conn sy) = (Inr f, c')
    \<Longrightarrow> conn_step M lib sy (sy\<lparr>sy_conn := c', sy_pending := xs @ ys\<rparr>)"
| commit_threw: "sy_pending sy = xs @ rv # ys \<Longrightarrow> handlePrepare_commit lib iv rv (sy_conn sy) = (Inl t, c')
    \<Longrightarrow> conn_step M lib sy (sy\<lparr>sy_conn := c', sy_pending := xs @ ys,
           sy_lostIn := sy_lostIn sy + (received_in (objects c') - received_in (objects (sy_conn sy)))\<rparr>)"
| probe_sent: "conn_step M lib sy (sy\<lparr>sy_conn := snd (test_request lib iv condition expiry am (sy_conn sy))\<rparr>)"
| probe_answered: "conn_step M lib sy (sy\<lparr>sy_conn := snd (test_response lib now request d (sy_conn sy))\<rparr>)"
| probe_volley: "conn_step M lib sy (sy\<lparr>sy_conn := snd (rate_step amounts results (sy_conn sy))\<rparr>)"
| loop_connected: "conn_step M lib sy (sy\<lparr>sy_conn := emit EvConnect ((sy_conn sy)\<lparr>cn_connected := True\<rparr>)\<rparr>)"
| load_threw: "loop_ready sy \<Longrightarrow> load_packet (sy_conn sy) = Inl (e, c')
    \<Longrightarrow> conn_step M lib sy (sy\<lparr>sy_conn := loop_catch err c'\<rparr>)"
| nothing_to_send: "loop_ready sy \<Longrightarrow> load_packet (sy_conn sy) = Inr (None, c')
    \<Longrightarrow> conn_step M lib sy (sy\<lparr>sy_conn := c'\<rparr>)"
| loaded: "loop_ready sy \<Longrightarrow> load_packet (sy_conn sy) = Inr (Some ld, c')
    \<Longrightarrow> conn_step M lib sy (sy\<lparr>sy_conn := c', sy_flight := Some ld\<rparr>)"
| answered: "sy_flight sy = Some ld \<Longrightarrow> receive_response lib now ld condition d (sy_conn sy) = (Inr u, c')
    \<Longrightarrow> conn_step M lib sy (sy\<lparr>sy_conn := c', sy_flight := None\<rparr>)"
| answer_threw: "sy_flight sy = Some ld \<Longrightarrow> receive_response lib now ld condition d (sy_conn sy) = (Inl e, c')
    \<Longrightarrow> conn_step M lib sy (sy\<lparr>sy_conn := loop_catch err c', sy_flight := None,
           sy_lostOut := sy_lostOut sy + (sent_in (objects c') - sent_in (objects (sy_conn sy)))\<rparr>)"
| send_threw: "conn_step M lib sy (sy\<lparr>sy_flight := None, sy_conn := loop_catch err (sy_conn sy)\<rparr>)"
| loop_ended: "sy_flight sy = None \<Longrightarrow> \<not> cn_sending (sy_conn sy) \<Longrightarrow> conn_step M lib sy (sy\<lparr>sy_conn := loop_exit (sy_conn sy)\<rparr>)"

inductive conn_reach :: "nat \<Rightarrow> crypto_lib \<Rightarrow> system \<Rightarrow> bool" for M lib where
  start: "build_connection lib now opts = Inr c \<Longrightarrow> conn_reach M lib (new_system c)"
| step: "conn_reach M lib sy \<Longrightarrow> conn_step M lib sy sy' \<Longrightarrow> conn_reach M lib sy'"

section \<open>The invariant\<close>

abbreviation pending_sum :: "receiving list \<Rightarrow> nat" where
  "pending_sum rvs \<equiv> sum_list (map (unat \<circ> rv_amount) rvs)"

definition holds_below :: "conn \<Rightarrow> bool" where
  "holds_below c \<longleftrightarrow> (\<forall>i k a. (i, k, a) \<in> holding c \<longrightarrow> (\<exists>m < cn_nextPacketSequence c. k = dec_of_nat m))"

definition sys_inv :: "nat \<Rightarrow> system \<Rightarrow> bool" where
  "sys_inv M sy \<longleftrightarrow> ids_inv (sy_conn sy) \<and> money_ok M (sy_conn sy) \<and> holds_below (sy_conn sy)
     \<and> unat (cn_totalSent (sy_conn sy)) + sy_lostOut sy = sent_in (objects (sy_conn sy))
     \<and> received_in (objects (sy_conn sy)) \<le> unat (cn_totalReceived (sy_conn sy)) + sy_lostIn sy
     \<and> pending_sum (sy_pending sy) \<le> unat (cn_incomingHold (sy_conn sy))
     \<and> unat (cn_totalReceived (sy_conn sy)) + pending_sum (sy_pending sy) < 2 ^ 64
     \<and> (\<forall>rv \<in> set (sy_pending sy). amounts_sum (rv_amounts rv) \<le> unat (rv_amount rv))
     \<and> (\<forall>ld. sy_flight sy = Some ld \<longrightarrow> in_flight ld (sy_conn sy))"

lemma sys_inv_parts:
  assumes "sys_inv M sy"
  shows "ids_inv (sy_conn sy)" "money_ok M (sy_conn sy)" "holds_below (sy_conn sy)"
    "pending_sum (sy_pending sy) \<le> unat (cn_incomingHold (sy_conn sy))"
    "sy_flight sy = Some ld \<Longrightarrow> in_flight ld (sy_conn sy)"
  using assms by (simp_all add: sys_inv_def)

lemma holds_below_mono: "holds_below c \<Longrightarrow> holding c' \<subseteq> holding c \<Longrightarrow> cn_nextPacketSequence c \<le> cn_nextPacketSequence c' \<Longrightarrow> holds_below c'"
  unfolding holds_below_def by (meson order_less_le_trans subsetD)

lemma inv_quiet: "sys_inv M sy \<Longrightarrow> quiet M (sy_conn sy) c' \<Longrightarrow> sys_inv M (sy\<lparr>sy_conn := c'\<rparr>)"
  using holds_below_mono [of "sy_conn sy" c'] by (auto simp: sys_inv_def quiet_def in_flight_def conn_totals_def)

lemma inv_keeps: "sys_inv M sy \<Longrightarrow> keeps (sy_conn sy) c' \<Longrightarrow> sys_inv M (sy\<lparr>sy_conn := c'\<rparr>)"
  by (rule inv_quiet, assumption, rule quiet_keeps) (simp_all add: sys_inv_def)

lemma inv_books: "sys_inv M sy \<Longrightarrow> same_books (sy_conn sy) c' \<Longrightarrow> sys_inv M (sy\<lparr>sy_conn := c'\<rparr>)"
  by (rule inv_quiet, assumption, rule quiet_books) (simp_all add: sys_inv_def)

lemma inv_settles:
  assumes "sys_inv M sy" "settles M n lost (sy_conn sy) c'"
  shows "sys_inv M (sy\<lparr>sy_conn := c', sy_flight := None, sy_lostOut := sy_lostOut sy + lost\<rparr>)"
  using assms holds_below_mono [of "sy_conn sy" c'] by (simp add: sys_inv_def settles_def)

lemma inv_loads:
  assumes inv: "sys_inv M sy" and l: "loads (dec_of_nat (cn_nextPacketSequence (sy_conn sy))) M (sy_conn sy) c'"
    and seq: "cn_nextPacketSequence (sy_conn sy) < cn_nextPacketSequence c'" and x: "\<And>ld. x = Some ld \<Longrightarrow> in_flight ld c'"
  shows "sys_inv M (sy\<lparr>sy_conn := c', sy_flight := x\<rparr>)"
proof -
  have "holds_below c'"
    unfolding holds_below_def
  proof (intro allI impI)
    fix i k a assume "(i, k, a) \<in> holding c'"
    then consider "k = dec_of_nat (cn_nextPacketSequence (sy_conn sy))" | "(i, k, a) \<in> holding (sy_conn sy)"
      using l unfolding loads_def by blast
    then show "\<exists>m < cn_nextPacketSequence c'. k = dec_of_nat m"
    proof cases
      case 2
      then obtain m where "m < cn_nextPacketSequence (sy_conn sy)" "k = dec_of_nat m"
        using sys_inv_parts(3) [OF inv] by (auto simp: holds_below_def)
      then show ?thesis using seq order_less_trans by blast
    qed (use seq in blast)
  qed
  with inv l x show ?thesis by (simp add: sys_inv_def loads_def conn_totals_def)
qed

lemma inv_loads_none:
  assumes "sys_inv M sy" "loads (dec_of_nat (cn_nextPacketSequence (sy_conn sy))) M (sy_conn sy) c'"
    "cn_nextPacketSequence (sy_conn sy) < cn_nextPacketSequence c'" "loop_ready sy"
  shows "sys_inv M (sy\<lparr>sy_conn := c'\<rparr>)"
  using inv_loads [OF assms(1-3), of None] assms(4) by (cases sy) (simp add: loop_ready_def)

text \<open>The id of the next packet is not used by any hold.\<close>

lemma next_id_fresh: "sys_inv M sy \<Longrightarrow> (i, dec_of_nat (cn_nextPacketSequence (sy_conn sy)), a) \<notin> holding (sy_conn sy)"
  using sys_inv_parts(3) [of M sy] by (auto simp: holds_below_def dest: dec_of_nat_inj [THEN iffD1])

lemma inv_started:
  assumes inv: "sys_inv M sy" and start: "handlePrepare_start lib iv now prepare (sy_conn sy) = Inr (rv, c')"
  shows "sys_inv M (sy\<lparr>sy_conn := c', sy_pending := sy_pending sy @ [rv]\<rparr>)"
proof -
  obtain c1 where c1: "same_books (sy_conn sy) c1" "checked_in rv c1" "addIncomingHold (rv_amount rv) c1 = (True, c')"
    using handlePrepare_started [OF start] by blast
  note h = addIncomingHold_True [OF c1(3)]
  have inv1: "sys_inv M (sy\<lparr>sy_conn := c1\<rparr>)" by (rule inv_books [OF inv c1(1)])
  have same: "objects c' = objects c1" "cn_totalReceived c' = cn_totalReceived c1" "cn_totalSent c' = cn_totalSent c1"
    "cn_nextPacketSequence c' = cn_nextPacketSequence c1" "ids_inv c' = ids_inv c1"
    by (subst h(1), simp add: objects_def ids_inv_def own_id_def)+
  then have "holding c' = holding c1" "entries_of c' = entries_of c1" by (simp_all add: holding_def entries_of_def)
  moreover have "unat (cn_totalReceived c1) + (pending_sum (sy_pending sy) + unat (rv_amount rv)) < 2 ^ 64"
  proof (cases "rv_amount rv = 0")
    case True
    then show ?thesis using inv1 by (simp add: sys_inv_def)
  next
    case False
    then show ?thesis using h(4) inv1 unat_u64_bound [of "cn_incomingHold c'"] by (simp add: sys_inv_def)
  qed
  moreover have "pending_sum (sy_pending sy) + unat (rv_amount rv) \<le> unat (cn_incomingHold c')"
    using h(2) inv1 by (simp add: sys_inv_def)
  moreover have "amounts_sum (rv_amounts rv) \<le> unat (rv_amount rv)" by (rule checked_split(1) [OF c1(2)])
  ultimately show ?thesis
    using inv1 same by (auto simp: sys_inv_def money_ok_def holds_below_def in_flight_def)
qed

text \<open>A packet leaves the pending ones: its hold is given back, its amount joins the total or not.\<close>

lemma pending_remove:
  assumes "sys_inv M sy" "sy_pending sy = xs @ rv # ys"
  shows "pending_sum (xs @ ys) + unat (rv_amount rv) = pending_sum (sy_pending sy)"
    "rv_amount rv \<le> cn_incomingHold (sy_conn sy)" "amounts_sum (rv_amounts rv) \<le> unat (rv_amount rv)"
    "unat (cn_totalReceived (sy_conn sy)) + unat (rv_amount rv) < 2 ^ 64"
  using assms by (auto simp: sys_inv_def word_le_nat_alt)

lemma inv_declined:
  assumes inv: "sys_inv M sy" "sy_pending sy = xs @ rv # ys" and d: "handlePrepare_decline lib iv prepare rv (sy_conn sy) = (t, c')"
  shows "sys_inv M (sy\<lparr>sy_conn := c', sy_pending := xs @ ys\<rparr>)"
proof -
  let ?c = "removeIncomingHold (rv_amount rv) (sy_conn sy)"
  note p = pending_remove [OF inv]
  have same: "objects ?c = objects (sy_conn sy)" "cn_totalReceived ?c = cn_totalReceived (sy_conn sy)" "cn_totalSent ?c = cn_totalSent (sy_conn sy)"
    "cn_nextPacketSequence ?c = cn_nextPacketSequence (sy_conn sy)" "ids_inv ?c = ids_inv (sy_conn sy)"
    by (simp_all add: removeIncomingHold_def objects_def ids_inv_def own_id_def)
  then have "holding ?c = holding (sy_conn sy)" "entries_of ?c = entries_of (sy_conn sy)" by (simp_all add: holding_def entries_of_def)
  moreover have "pending_sum (xs @ ys) \<le> unat (cn_incomingHold ?c)"
    using removeIncomingHold_exact [OF p(2)] p(1) sys_inv_parts(4) [OF inv(1)] by simp
  moreover have "set (xs @ ys) \<subseteq> set (sy_pending sy)" using inv(2) by auto
  ultimately have "sys_inv M (sy\<lparr>sy_conn := ?c, sy_pending := xs @ ys\<rparr>)"
    using inv(1) p(1) same by (auto simp: sys_inv_def money_ok_def holds_below_def in_flight_def)
  from inv_books [OF this, of c'] construct_thrown [OF d] show ?thesis by (cases sy) simp
qed

lemma inv_receives:
  assumes inv: "sys_inv M sy" "sy_pending sy = xs @ rv # ys"
    and rec: "receives M (amounts_sum (rv_amounts rv)) (sy_conn sy) c'"
    and lost: "moves (rv_amount rv) (sy_conn sy) c' \<or>
      cn_incomingHold c' = cn_incomingHold (sy_conn sy) \<and> cn_totalReceived c' = cn_totalReceived (sy_conn sy)
        \<and> received_in (objects c') - received_in (objects (sy_conn sy)) \<le> lost"
  shows "sys_inv M (sy\<lparr>sy_conn := c', sy_pending := xs @ ys, sy_lostIn := sy_lostIn sy + lost\<rparr>)"
proof -
  let ?c = "sy_conn sy"
  note p = pending_remove [OF inv]
  have ps: "set (xs @ ys) \<subseteq> set (sy_pending sy)" using inv(2) by auto
  have "pending_sum (xs @ ys) \<le> unat (cn_incomingHold c') \<and> unat (cn_totalReceived c') + pending_sum (xs @ ys) < 2 ^ 64
      \<and> received_in (objects c') \<le> unat (cn_totalReceived c') + (sy_lostIn sy + lost)"
    using lost
  proof
    assume m: "moves (rv_amount rv) ?c c'"
    then have "unat (cn_incomingHold c') = unat (cn_incomingHold ?c) - unat (rv_amount rv)"
      using removeIncomingHold_exact [OF p(2)] by (simp add: moves_def removeIncomingHold_def)
    moreover have "unat (cn_totalReceived c') = unat (cn_totalReceived ?c) + unat (rv_amount rv)"
      using m checkedAdd_sat [of "cn_totalReceived ?c" "rv_amount rv"] p(4) by (simp add: moves_def)
    moreover have "pending_sum (sy_pending sy) \<le> unat (cn_incomingHold ?c)"
      "unat (cn_totalReceived ?c) + pending_sum (sy_pending sy) < 2 ^ 64"
      "received_in (objects ?c) \<le> unat (cn_totalReceived ?c) + sy_lostIn sy"
      "received_in (objects c') \<le> received_in (objects ?c) + amounts_sum (rv_amounts rv)"
      using inv(1) rec by (simp_all add: sys_inv_def receives_def)
    ultimately show ?thesis using p(1,3) by simp
  next
    assume "cn_incomingHold c' = cn_incomingHold ?c \<and> cn_totalReceived c' = cn_totalReceived ?c
        \<and> received_in (objects c') - received_in (objects ?c) \<le> lost"
    moreover have "pending_sum (sy_pending sy) \<le> unat (cn_incomingHold ?c)"
      "unat (cn_totalReceived ?c) + pending_sum (sy_pending sy) < 2 ^ 64"
      "received_in (objects ?c) \<le> unat (cn_totalReceived ?c) + sy_lostIn sy"
      using inv(1) by (simp_all add: sys_inv_def)
    moreover from calculation(1) have "received_in (objects c') \<le> received_in (objects ?c) + lost" by linarith
    ultimately show ?thesis using p(1) by simp
  qed
  then show ?thesis
    using inv(1) rec ps holds_below_mono [of ?c c'] by (auto simp: sys_inv_def receives_def in_flight_def)
qed

lemma build_inv:
  assumes "build_connection lib now opts = Inr c"
  shows "sys_inv M (new_system c)"
proof -
  have c: "cn_streams c = []" "cn_detached c = []" "cn_closedStreams c = []" "cn_totalSent c = 0"
    "cn_totalReceived c = 0" "cn_incomingHold c = 0" "cn_nextStreamId c = (if cn_isServer c then 2 else 1)"
    using assms by (auto simp: build_connection_def Let_def split: if_splits)
  then have "ids_inv c" by (simp add: ids_inv_def objects_def own_id_def)
  moreover have "holding c = {}" "money_ok M c" using c by (simp_all add: holding_def objects_def book_def money_ok_def entries_of_def)
  ultimately show ?thesis
    using c by (simp add: sys_inv_def new_system_def holds_below_def sent_in_def received_in_def objects_def)
qed

lemma conn_step_inv:
  assumes "conn_step M lib sy sy'" "sys_inv M sy" "M < 2 ^ 63"
  shows "sys_inv M sy'"
  using assms
proof (induction rule: conn_step.induct)
  case (called call sy i)
  then show ?case using inv_quiet call_quiet sys_inv_parts(1,2) by blast
next
  case (handler sy h)
  then show ?case using inv_books handle_books sys_inv_parts(1) by blast
next
  case (refused iv now prepare sy t c')
  then show ?case using inv_books handlePrepare_start_refused by blast
next
  case (started iv now prepare sy rv c')
  then show ?case using inv_started by blast
next
  case (declined sy xs rv ys iv prepare t c')
  then show ?case using inv_declined by blast
next
  case (committed sy xs rv ys iv f c')
  note R = commit_receives [OF committed(2) sys_inv_parts(1,2) [OF committed(3)]]
  have "moves (rv_amount rv) (sy_conn sy) c'" using R(2) by blast
  from inv_receives [OF committed(3,1) R(1), of 0] this show ?case by simp
next
  case (commit_threw sy xs rv ys iv t c')
  note R = commit_receives [OF commit_threw(2) sys_inv_parts(1,2) [OF commit_threw(3)]]
  from inv_receives [OF commit_threw(3,1) R(1)] R(2) show ?case by blast
next
  case (probe_sent sy iv condition expiry am)
  then show ?case using inv_keeps test_request_keeps by blast
next
  case (probe_answered sy now request d)
  then show ?case using inv_keeps test_response_keeps by blast
next
  case (probe_volley sy amounts results)
  then show ?case using inv_keeps rate_step_keeps by blast
next
  case (loop_connected sy)
  then show ?case using inv_keeps keeps_step(1) [OF keeps_flags(4)] by blast
next
  case (load_threw sy e c' err)
  note inv = sys_inv_parts(1,2) [OF load_threw(3)]
  have l: "loads (dec_of_nat (cn_nextPacketSequence (sy_conn sy))) M (sy_conn sy) c'"
    "cn_nextPacketSequence (sy_conn sy) < cn_nextPacketSequence c'"
    using load_packet_inv [OF inv load_threw(4) next_id_fresh [OF load_threw(3)]] load_threw(2) by simp_all
  from inv_keeps [OF inv_loads_none [OF load_threw(3) l load_threw(1)]] loop_keeps(1) show ?case by simp
next
  case (nothing_to_send sy c')
  note inv = sys_inv_parts(1,2) [OF nothing_to_send(3)]
  have l: "loads (dec_of_nat (cn_nextPacketSequence (sy_conn sy))) M (sy_conn sy) c'"
    "cn_nextPacketSequence (sy_conn sy) < cn_nextPacketSequence c'"
    using load_packet_inv [OF inv nothing_to_send(4) next_id_fresh [OF nothing_to_send(3)]] nothing_to_send(2) by simp_all
  show ?case by (rule inv_loads_none [OF nothing_to_send(3) l nothing_to_send(1)])
next
  case (loaded sy ld c')
  note inv = sys_inv_parts(1,2) [OF loaded(3)]
  have l: "loads (dec_of_nat (cn_nextPacketSequence (sy_conn sy))) M (sy_conn sy) c'"
    "cn_nextPacketSequence (sy_conn sy) < cn_nextPacketSequence c'" "in_flight ld c'"
    using load_packet_inv [OF inv loaded(4) next_id_fresh [OF loaded(3)]] loaded(2) by simp_all
  from inv_loads [OF loaded(3) l(1,2), of "Some ld"] l(3) show ?case by simp
next
  case (answered sy ld now condition d u c')
  note inv = sys_inv_parts(1,2,5) [OF answered(3)]
  obtain n where "settles M n 0 (sy_conn sy) c'"
    using receive_response_books [OF inv(1,2) answered(4) inv(3) [OF answered(1)] answered(2)] by auto
  from inv_settles [OF answered(3) this] show ?case by simp
next
  case (answer_threw sy ld now condition d e c' err)
  note inv = sys_inv_parts(1,2,5) [OF answer_threw(3)]
  obtain n where s: "settles M n n (sy_conn sy) c'"
    using receive_response_books [OF inv(1,2) answer_threw(4) inv(3) [OF answer_threw(1)] answer_threw(2)] by auto
  then have n: "n = sent_in (objects c') - sent_in (objects (sy_conn sy))" by (simp add: settles_def)
  have move: "sy\<lparr>sy_conn := a, sy_flight := None, sy_lostOut := x\<rparr>\<lparr>sy_conn := b\<rparr> = sy\<lparr>sy_conn := b, sy_flight := None, sy_lostOut := x\<rparr>" for a b x
    by simp
  have "keeps (sy_conn (sy\<lparr>sy_conn := c', sy_flight := None, sy_lostOut := sy_lostOut sy + n\<rparr>)) (loop_catch err c')"
    using loop_keeps(1) by simp
  from inv_keeps [OF inv_settles [OF answer_threw(3) s] this] show ?case
    unfolding move n .
next
  case (send_threw sy err)
  then have "sys_inv M (sy\<lparr>sy_flight := None\<rparr>)" by (simp add: sys_inv_def)
  from inv_keeps [OF this] loop_keeps(1) [of "sy_conn sy" err] show ?case by simp
next
  case (loop_ended sy)
  then show ?case using inv_keeps loop_keeps(2) by blast
qed

lemma conn_reach_inv: "conn_reach M lib sy \<Longrightarrow> M < 2 ^ 63 \<Longrightarrow> sys_inv M sy"
  by (induction rule: conn_reach.induct) (auto intro: build_inv conn_step_inv)

end
