(* ===== verification/Connection_Safety.thy ===== *)
theory Connection_Safety
  imports Connection_System
begin

text \<open>The safety properties of a connection over every sequence of steps, and a run that loads a packet.\<close>

section \<open>A run\<close>

text \<open>A server that knows the address of its client and the rate creates stream 2 and sets its limit to 10.\<close>

definition sender_opts :: conn_opts where
  "sender_opts = sample_opts\<lparr>op_destinationAccount := Some (js ''g.client''), op_slippage := Some \<lparr>numer = 0, denom = 1\<rparr>,
     op_exchangeRate := Some \<lparr>numer = 1, denom = 1\<rparr>\<rparr>"

definition limit_10 :: stream_call where
  "limit_10 = SetSendMax (LongV (Long 10 True))"

definition sample_sender :: conn where
  "sample_sender = (case build_connection null_lib 0 sender_opts of
     Inr c \<Rightarrow> call_stream 2 limit_10 (handle CreateStream (emit EvConnect ((handle Connect c)\<lparr>cn_connected := True\<rparr>))))"

lemma sample_sender_reached: "conn_reach 10 null_lib (new_system sample_sender)"
proof -
  obtain c where c: "build_connection null_lib 0 sender_opts = Inr c"
    by (simp add: sender_opts_def sample_defs)
  define s0 where "s0 = new_system c"
  have r0: "conn_reach 10 null_lib s0" unfolding s0_def by (rule conn_reach.start [OF c])
  note r1 = conn_reach.step [OF r0 conn_step.handler [of 10 null_lib s0 Connect]]
  note r2 = conn_reach.step [OF r1 conn_step.loop_connected]
  note r3 = conn_reach.step [OF r2 conn_step.handler [of 10 null_lib _ CreateStream]]
  have w: "call_within 10 limit_10" by (simp add: limit_10_def)
  note r4 = conn_reach.step [OF r3 conn_step.called [OF w, of null_lib _ 2]]
  have "new_system sample_sender = s0\<lparr>sy_conn := sample_sender\<rparr>" by (simp add: new_system_def s0_def)
  with r4 show ?thesis by (simp add: s0_def sample_sender_def c new_system_def)
qed

definition stream_limit_10 :: conn_stream where
  "stream_limit_10 = \<lparr>cs_stream = new_stream\<lparr>sendMax := 10\<rparr>, cs_readable = [], cs_ended = False\<rparr>"

lemma sample_sender_fields:
  "cn_streams sample_sender = [(2, stream_limit_10)]" "cn_queuedFrames sample_sender = []"
  "cn_remoteKnowsOurAccount sample_sender = True" "cn_closed sample_sender = True" "cn_remoteState sample_sender = RemoteInit"
  "cn_exchangeRate sample_sender = Some \<lparr>numer = 1, denom = 1\<rparr>" "cn_slippage sample_sender = \<lparr>numer = 0, denom = 1\<rparr>"
  "cn_nextPacketSequence sample_sender = 1" "cn_sending sample_sender = True" "cn_looping sample_sender = True"
  "cn_connected sample_sender = True" "testMaximumPacketAmount (cn_congestion sample_sender) = MAX_UNSIGNED_VALUE"
  "cn_pskKey sample_sender = replicate 32 0" "cn_totalSent sample_sender = 0" "cn_totalDelivered sample_sender = 0"
  "cn_remoteMaxOffset sample_sender = 65534" "cn_detached sample_sender = []"
  by (simp_all add: sample_sender_def sender_opts_def sample_defs handle.simps connect_def startSendLoop_def has_destination_def
      emit_def createStream_def DEFAULT_MAX_REMOTE_STREAMS_def call_stream_def get_stream_def new_conn_stream_def limit_10_def
      setSendMax_def new_stream_def modify_stream_def stream_limit_10_def new_congestion_def js_def
      generatePskEncryptionKey_def null_lib_def MAX_DATA_SIZE_def)

definition sample_held :: conn where
  "sample_held = modify_stream 2 (on_money (\<lambda>s. snd (holdOutgoing (dec_of_nat 1) (Some 10) s)))
     (sample_sender\<lparr>cn_nextPacketSequence := 2\<rparr>)"

definition sample_loaded :: loaded where
  "sample_loaded = \<lparr>ldd_request = request_of 1 10 [StreamMaxMoney 2 0 0, StreamMaxData 2 16384, StreamMoney 2 10],
     ldd_amount = 10, ldd_from = [2]\<rparr>"

lemma sample_numbers:
  "multiplyDivideCeil MAX_UNSIGNED_VALUE 1 1 = Inr MAX_UNSIGNED_VALUE" "multiplyDivideFloor 0 1 1 = Inr 0"
  "multiplyDivideFloor 10 1 1 = Inr 10"
proof -
  obtain v where "multiplyDivideCeil MAX_UNSIGNED_VALUE 1 1 = Inr v" "unat v = unat MAX_UNSIGNED_VALUE"
    using multiplyDivideCeil_exact [of 1 MAX_UNSIGNED_VALUE 1] unat_u64_bound [of MAX_UNSIGNED_VALUE] by auto
  then show "multiplyDivideCeil MAX_UNSIGNED_VALUE 1 1 = Inr MAX_UNSIGNED_VALUE" by (simp add: word_unat_eq_iff)
  show "multiplyDivideFloor 0 1 1 = Inr 0" "multiplyDivideFloor 10 1 1 = Inr 10"
    using multiplyDivideFloor_exact [of 1 0 1] multiplyDivideFloor_exact [of 1 10 1] by simp_all
qed

lemma sample_load: "load_packet sample_sender = Inr (Some sample_loaded, sample_held)"
proof -
  note f = sample_sender_fields
  let ?c = "sample_sender\<lparr>cn_nextPacketSequence := 2\<rparr>"
  let ?fs = "[StreamMaxMoney 2 0 0, StreamMaxData 2 16384]"
  let ?rate = "\<lparr>numer = 1, denom = 1\<rparr> :: rational"
  have u: "ulong_of 2 = 2" "ulong_of 16384 = 16384" "ulong_of 1 = 1" by (simp_all add: ulong_of_def long_fromInt_def)
  have open1: "open_limits ?c = ?fs"
    by (simp add: open_limits_def f stream_limit_10_def isOpen_def new_stream_def limit_frames_def stream_incoming_offsets_def
      getIncomingOffsets_def new_sorter_def readableHighWaterMark_def u)
  have mx: "max_from_streams ?rate ?c = Inr MAX_UNSIGNED_VALUE"
    by (simp add: max_from_streams_def greaterThanOne_def f)
  have recip: "reciprocal ?rate = Inr ?rate" by (simp add: reciprocal_def new_rational_def)
  have am: "amount_from_stream ?rate MAX_UNSIGNED_VALUE (cs_stream stream_limit_10) = Inr 10"
    by (simp add: amount_from_stream_def recip multiplyByLongCeil_def sample_numbers stream_limit_10_def new_stream_def
      getAmountAvailableToSend_def checkedSubtract_def minLong_def)
  have mb: "money_blocked ?rate 10 (cs_stream (on_money (\<lambda>s. snd (holdOutgoing (dec_of_nat 1) (Some 10) s)) stream_limit_10)) = Inr False"
    by (simp add: money_blocked_def multiplyByLong_def sample_numbers stream_limit_10_def new_stream_def on_money_def
       holdOutgoing_def Let_def getAmountAvailableToSend_def checkedSubtract_def minLong_def)
  define l1 where "l1 = \<lparr>ld_frames = ?fs @ [StreamMoney 2 10], ld_amount = 10, ld_left = MAX_UNSIGNED_VALUE - 10, ld_from = [2],
    ld_conn = sample_held\<rparr>"
  have ls: "load_stream ?rate 1 2 stream_limit_10 \<lparr>ld_frames = ?fs, ld_amount = 0, ld_left = MAX_UNSIGNED_VALUE, ld_from = [], ld_conn = ?c\<rparr>
      = Inr l1"
    by (simp add: load_stream_def am at_conn_def mb l1_def sample_held_def Let_def u del: One_nat_def)
  have lm: "load_money ?rate 1 (cn_streams ?c) \<lparr>ld_frames = ?fs, ld_amount = 0, ld_left = MAX_UNSIGNED_VALUE, ld_from = [], ld_conn = ?c\<rparr> = Inr l1"
    using ls by (simp add: f) (simp add: stream_limit_10_def new_stream_def l1_def)
  have ok: "packet_ok (request_of 1 0 (?fs @ [StreamMoney 2 10]))"
    by (simp add: packet_ok_def request_of_def frame_ok_def)
  define h where "h = stream_limit_10\<lparr>cs_stream := (cs_stream stream_limit_10)\<lparr>outgoingHeldAmount := 10, holds := [(dec_of_nat 1, 10)]\<rparr>\<rparr>"
  have held: "on_money (\<lambda>s. snd (holdOutgoing (dec_of_nat 1) (Some 10) s)) stream_limit_10 = h"
    by (simp add: h_def stream_limit_10_def new_stream_def on_money_def holdOutgoing_def Let_def getAmountAvailableToSend_def
      checkedSubtract_def minLong_def del: One_nat_def)
  have hs: "cn_streams sample_held = [(2, h)]" "cn_remoteMaxOffset sample_held = 65534" "cn_slippage sample_held = \<lparr>numer = 0, denom = 1\<rparr>"
    using held by (simp_all add: sample_held_def modify_stream_def f del: One_nat_def)
  have off: "conn_getOutgoingOffsets sample_held = (0, 0)"
    by (simp add: conn_getOutgoingOffsets_def hs h_def stream_limit_10_def new_stream_def getOutgoingOffsets_def queue_byteLength_def new_queue_def)
  have "data_room 1 (?fs @ [StreamMoney 2 10]) sample_held = Inr (32767 - (int (length (packet_bytes (request_of 1 0 (?fs @ [StreamMoney 2 10])))) + 28), ?fs @ [StreamMoney 2 10])"
    using byteLength_bytes [OF ok] by (simp add: data_room_def off hs MAX_DATA_SIZE_def Let_def)
  then obtain room where dr: "data_room 1 (?fs @ [StreamMoney 2 10]) sample_held = Inr (room, ?fs @ [StreamMoney 2 10])" by blast
  have av: "getAvailableDataToSend n (cs_stream h) = ((None, 0), [], cs_stream h)" for n
    by (simp add: getAvailableDataToSend_def h_def stream_limit_10_def new_stream_def queue_read_def new_queue_def Let_def)
  have same: "modify_stream 2 (on_money (\<lambda>_. cs_stream h)) sample_held = sample_held"
    by (simp add: modify_stream_def hs on_money_def)
  have bl: "isDataBlocked (cs_stream h) = None"
    by (simp add: isDataBlocked_def h_def stream_limit_10_def new_stream_def queue_byteLength_def new_queue_def)
  have ld: "load_data (cn_streams sample_held) room (?fs @ [StreamMoney 2 10]) sample_held = Inr (?fs @ [StreamMoney 2 10], sample_held)"
    by (simp add: hs av same bl)
  have c1: "?c\<lparr>cn_queuedFrames := [], cn_remoteState := RemoteInit\<rparr> = ?c"
    using f(2,5) by (cases sample_sender) simp
  have "load_frames 1 ?c = Inr (?rate, l1)"
    using mx lm dr ld
    by (simp add: c1 load_frames_def f open1 account_frames_def at_conn_def l1_def Let_def del: One_nat_def load_money.simps load_data.simps)
  moreover have "finish_loading 1 ?rate l1 = Inr (Some sample_loaded, sample_held)"
    using multiplyDivideFloor_exact [of 1 10 1]
    by (simp add: finish_loading_def l1_def minimum_destination_def hs complement_def new_rational_def multiplyByLong_def sample_numbers
      at_conn_def sample_loaded_def Let_def)
  ultimately show ?thesis by (simp add: load_packet_def getNextPacketSequence_def f Let_def del: One_nat_def)
qed

lemma sample_flight_reached:
  "conn_reach 10 null_lib (new_system sample_held\<lparr>sy_flight := Some sample_loaded\<rparr>)"
proof -
  have "loop_ready (new_system sample_sender)" by (simp add: loop_ready_def new_system_def sample_sender_fields)
  moreover have "load_packet (sy_conn (new_system sample_sender)) = Inr (Some sample_loaded, sample_held)"
    by (simp add: new_system_def sample_load)
  ultimately have "conn_step 10 null_lib (new_system sample_sender)
      (new_system sample_sender\<lparr>sy_conn := sample_held, sy_flight := Some sample_loaded\<rparr>)"
    by (rule conn_step.loaded)
  from conn_reach.step [OF sample_sender_reached this] show ?thesis by (simp add: new_system_def)
qed

text \<open>The receiver fulfills and says that 9 arrived.\<close>

definition sample_answer :: stream_packet where
  "sample_answer = \<lparr>sequence = 1, ilpPacketType = type_byte Fulfill, prepareAmount = 9, frames = []\<rparr>"

lemma sample_answered:
  "\<exists>bs. handle_response null_lib 0 (ldd_request sample_loaded) 10 (replicate 32 0) bs sample_held
     = (Inr (Some sample_answer), bumpIdle 0 sample_held)"
proof -
  have ok: "packet_ok sample_answer" by (simp add: packet_ok_def sample_answer_def)
  define d where "d = encrypt null_lib (replicate 12 0) (replicate 32 0) [packet_bytes sample_answer]"
  note enc = encrypt_roundtrip [OF null_lib_ok(1) _ ok, of "replicate 12 0" "replicate 32 0", folded d_def]
  define f :: IlpFulfill where "f = \<lparr>fulfillment = replicate 32 0, fulfill_data = d\<rparr>"
  have "length (packet_bytes sample_answer) < 100"
    by code_simp
  then have len: "length d < 2 ^ 47" using enc(3) by simp
  then have enc_f: "encodable_fulfill f" by (simp add: encodable_fulfill_def isFulfill_def f_def)
  obtain bs where bs: "first_byte bs = Some 13" "deserializeIlpFulfill bs = Inr f"
    using fulfill_packet_roundtrip [OF enc_f, of "[]"] by auto
  have ne: "d \<noteq> []" using enc(3) by (cases d) simp_all
  have "parse_reply_packet null_lib (replicate 32 0) (ldd_request sample_loaded) d (type_byte Fulfill) = Inr (Some sample_answer)"
    using enc(2) ne by (simp add: parse_reply_packet_def) (simp add: sample_answer_def sample_loaded_def request_of_def ulong_of_def long_fromInt_def)
  moreover have "cn_pskKey (bumpIdle 0 sample_held) = replicate 32 0"
    by (simp add: bumpIdle_def sample_held_def modify_stream_def sample_sender_fields)
  ultimately have "handle_response null_lib 0 (ldd_request sample_loaded) 10 (replicate 32 0) bs sample_held
     = (Inr (Some sample_answer), bumpIdle 0 sample_held)"
    using bs by (simp add: handle_response_def parse_response_def Let_def f_def null_lib_def)
  then show ?thesis by blast
qed

section \<open>Properties\<close>

text \<open>
  C7. Over every sequence of calls, frames, received packets and turns of the send loop, in any interleaving, the
  money of a connection is conserved: its total sent is what its streams sent, less what was fulfilled in a turn that then threw;
  the streams never received more than the total, up to turns that threw; the packets that wait for the
  application fit beside the total in 64 bits; and no stream sends or holds more than the largest limit set. All send limits are taken to be at most \<open>M\<close>,
  below \<open>2\<^sup>6\<^sup>3\<close>: above it \<open>checkedSubtract\<close> misses underflows, and a stream whose limit was lowered can send too much.
\<close>

theorem connection_money_conserved:
  assumes "conn_reach M lib sy" "M < 2 ^ 63"
  shows "unat (cn_totalSent (sy_conn sy)) + sy_lostOut sy = sent_in (objects (sy_conn sy))
    \<and> received_in (objects (sy_conn sy)) \<le> unat (cn_totalReceived (sy_conn sy)) + sy_lostIn sy
    \<and> unat (cn_totalReceived (sy_conn sy)) + pending_sum (sy_pending sy) < 2 ^ 64
    \<and> (\<forall>(i, s) \<in> set (objects (sy_conn sy)).
          unat (totalSent (cs_stream s)) + unat (outgoingHeldAmount (cs_stream s)) \<le> M)"
  using conn_reach_inv [OF assms] by (fastforce simp: sys_inv_def money_ok_iff money_inv_def)

theorem connection_money_conserved_witness:
  "unat (cn_totalSent sample_held) = sent_in (objects sample_held)"
  using connection_money_conserved [OF sample_flight_reached] by (simp add: new_system_def)

text \<open>
  C9. When the receiver proves that it fulfilled the packet in flight, the streams it took money from have sent exactly its amount more, out of
  the holds taken when it was loaded, whatever ran in between. The turn throws exactly when the total delivered with the amount the receiver claims, or the total
  sent with the amount of the packet, does not fit 64 bits. If it does not throw, the totals grow by these two amounts; if it
  throws, the amount is missing in the total sent, and the total delivered has grown only if it fits. All send limits are below
  \<open>2\<^sup>6\<^sup>3\<close>.
\<close>

theorem fulfilled_packet_counted:
  assumes "conn_reach M lib sy" "M < 2 ^ 63" "sy_flight sy = Some ld"
    and "handle_response lib now (ldd_request ld) (ldd_amount ld) condition d (sy_conn sy) = (Inr (Some p), c1)"
    and "ilpPacketType p = type_byte Fulfill" and "apply_response ld p c1 = (r, c')"
  shows "sent_in (objects c') = sent_in (objects (sy_conn sy)) + unat (ldd_amount ld)
    \<and> ((\<exists>e. r = Inl e) \<longleftrightarrow> 2 ^ 64 \<le> unat (cn_totalDelivered (sy_conn sy)) + unat (prepareAmount p)
         \<or> 2 ^ 64 \<le> unat (cn_totalSent (sy_conn sy)) + unat (ldd_amount ld))
    \<and> unat (cn_totalSent c') = unat (cn_totalSent (sy_conn sy)) + (case r of Inl e \<Rightarrow> 0 | Inr u \<Rightarrow> unat (ldd_amount ld))
    \<and> unat (cn_totalDelivered c') = unat (cn_totalDelivered (sy_conn sy))
         + (if unat (cn_totalDelivered (sy_conn sy)) + unat (prepareAmount p) < 2 ^ 64 then unat (prepareAmount p) else 0)
    \<and> holding c' \<subseteq> holding (sy_conn sy)"
proof -
  note inv = sys_inv_parts(1,2,5) [OF conn_reach_inv [OF assms(1,2)]]
  note k = handle_response_books(2) [OF inv(1) assms(4) refl assms(5)]
  have inv1: "ids_inv c1" "money_ok M c1" using quiet_keeps [OF k inv(1,2)] by (simp_all add: quiet_def)
  have "in_flight ld c1" using inv(3) [OF assms(3)] in_flight_keeps [OF k] by simp
  note A = settles_before [OF keeps_releases [OF k] apply_response_books(2) [OF inv1 assms(2,6,5) this]]
  have "stats_counted (prepareAmount p) (ldd_amount ld) c1 (r, c')" by (rule apply_response_books(3) [OF inv1 assms(2,6,5)]) fact
  then show ?thesis using A keeps_fields(9,10) [OF k] by (simp add: settles_def stats_counted_def split: sum.splits)
qed

theorem fulfilled_packet_counted_witness:
  "\<exists>c'. apply_response sample_loaded sample_answer (bumpIdle 0 sample_held) = (Inr (), c')
     \<and> sent_in (objects c') = 10 \<and> unat (cn_totalSent c') = 10 \<and> unat (cn_totalDelivered c') = 9"
proof -
  obtain r c' where a: "apply_response sample_loaded sample_answer (bumpIdle 0 sample_held) = (r, c')" by fastforce
  obtain bs where "handle_response null_lib 0 (ldd_request sample_loaded) 10 (replicate 32 0) bs sample_held
     = (Inr (Some sample_answer), bumpIdle 0 sample_held)" using sample_answered by blast
  then have h: "handle_response null_lib 0 (ldd_request sample_loaded) (ldd_amount sample_loaded) (replicate 32 0) bs
      (sy_conn (new_system sample_held\<lparr>sy_flight := Some sample_loaded\<rparr>)) = (Inr (Some sample_answer), bumpIdle 0 sample_held)"
    by (simp add: new_system_def) (simp add: sample_loaded_def)
  have "10 < (2 :: nat) ^ 63" "sy_flight (new_system sample_held\<lparr>sy_flight := Some sample_loaded\<rparr>) = Some sample_loaded"
    "ilpPacketType sample_answer = type_byte Fulfill" by (simp_all add: sample_answer_def)
  note F = fulfilled_packet_counted [OF sample_flight_reached this(1,2) h this(3) a]
  have z: "cn_totalSent sample_held = 0" "cn_totalDelivered sample_held = 0"
    by (simp_all add: sample_held_def modify_stream_def sample_sender_fields)
  moreover have "sent_in (objects sample_held) = 0"
    by (simp add: sample_held_def modify_stream_def sample_sender_fields sent_in_def objects_def on_money_def stream_limit_10_def
      new_stream_def holdOutgoing_def Let_def)
  moreover from F z have "r = Inr ()" by (cases r) (simp_all add: new_system_def sample_loaded_def sample_answer_def)
  ultimately show ?thesis using F a by (simp add: new_system_def sample_loaded_def sample_answer_def)
qed

text \<open>The minimum amount of a loaded packet comes from the rate and the slippage of the connection.\<close>

lemma at_conn_Inr: "at_conn c m = Inr a \<longleftrightarrow> m = Inr a"
  by (simp add: at_conn_def split: sum.split)

lemma load_frames_rate: "load_frames seq c = Inr (rate, l) \<Longrightarrow> cn_exchangeRate c = Some rate"
  by (auto simp: load_frames_def Let_def at_conn_Inr split: option.splits)

lemma finish_loading_minimum:
  assumes "finish_loading seq rate l = Inr (Some ld, c')" "conn_config (ld_conn l) = conn_config c"
  shows "minimum_destination rate (ldd_amount ld) c = Inr (prepareAmount (ldd_request ld))"
  using assms by (auto simp: finish_loading_def Let_def at_conn_def minimum_destination_def request_of_def conn_config_def
      split: sum.splits if_splits)

text \<open>The limit from the rate keeps the amount at the rate within 64 bits.\<close>

lemma max_from_streams_fits:
  assumes "max_from_streams rate c = Inr mx" "a \<le> mx"
  shows "unat a * unat (numer rate) div unat (denom rate) < 2 ^ 64"
proof (cases "greaterThanOne rate")
  case False
  then have "unat (numer rate) \<le> unat (denom rate)" by (simp add: greaterThanOne_def word_less_nat_alt not_less)
  from scaled_down [OF this, of "unat a"] show ?thesis using unat_u64_less [of a] by linarith
next
  case True
  then have gt: "unat (denom rate) < unat (numer rate)" by (simp add: greaterThanOne_def word_less_nat_alt)
  then have "numer rate \<noteq> 0" by auto
  then obtain m where m: "multiplyDivideFloor MAX_UNSIGNED_VALUE (denom rate) (numer rate) = Inr m" "mx \<le> m"
    using assms(1) True
    by (auto simp: max_from_streams_def Let_def reciprocal_def new_rational_def multiplyByLong_def minLong_def split: if_splits)
  let ?n = "unat (numer rate)" and ?d = "unat (denom rate)"
  have "unat m \<le> (2 ^ 64 - 1) * ?d div ?n"
    using multiplyDivideFloor_le [OF m(1)] gt unfolding unat_max_unsigned by simp
  moreover have "unat a \<le> unat m" using assms(2) m(2) by (simp add: word_le_nat_alt)
  ultimately have "unat a * ?n \<le> (2 ^ 64 - 1) * ?d div ?n * ?n" by (intro mult_le_mono1) linarith
  also have "\<dots> \<le> (2 ^ 64 - 1) * ?d" by (rule div_times_less_eq_dividend)
  finally have "unat a * ?n div ?d \<le> (2 ^ 64 - 1) * ?d div ?d" by (rule div_le_mono)
  then show ?thesis by (cases "?d = 0") simp_all
qed

lemma minimum_destination_exact:
  assumes "minimum_destination rate a c = Inr m" "unat a * unat (numer rate) div unat (denom rate) < 2 ^ 64"
    and "unat (denom rate) \<le> 2 ^ 63" "unat (denom (cn_slippage c)) \<le> 2 ^ 63"
  shows "unat m = unat a * unat (numer rate) div unat (denom rate)
      * (unat (denom (cn_slippage c)) - unat (numer (cn_slippage c))) div unat (denom (cn_slippage c))"
proof -
  let ?s = "cn_slippage c"
  obtain x where s: "numer ?s \<le> denom ?s" "denom ?s \<noteq> 0" and x: "multiplyDivideFloor a (numer rate) (denom rate) = Inr x"
    and m: "multiplyDivideFloor x (denom ?s - numer ?s) (denom ?s) = Inr m"
    using assms(1) by (auto simp: minimum_destination_def complement_def new_rational_def multiplyByLong_def not_less split: if_splits)
  have "denom rate \<noteq> 0" using x by (auto simp: multiplyDivideFloor_def multiplyDivide_def split: if_splits)
  then have "x = of_nat (unat a * unat (numer rate) div unat (denom rate))"
    using multiplyDivideFloor_exact [OF _ assms(3,2)] x by (simp add: unat_gt_0)
  then have ux: "unat x = unat a * unat (numer rate) div unat (denom rate)" by (simp only: unat_of_nat_u64 [OF assms(2)])
  have d: "unat (denom ?s - numer ?s) = unat (denom ?s) - unat (numer ?s)" by (rule unat_sub_u64 [OF s(1)])
  have "unat x * unat (denom ?s - numer ?s) div unat (denom ?s) \<le> unat x" by (rule scaled_down) (simp add: d)
  then have fits: "unat x * unat (denom ?s - numer ?s) div unat (denom ?s) < 2 ^ 64" using unat_u64_less [of x] by linarith
  have "m = of_nat (unat x * unat (denom ?s - numer ?s) div unat (denom ?s))"
    using multiplyDivideFloor_exact [OF _ assms(4) fits] m s(2) by (simp add: unat_gt_0)
  then have "unat m = unat x * unat (denom ?s - numer ?s) div unat (denom ?s)" by (simp only: unat_of_nat_u64 [OF fits])
  then show ?thesis unfolding ux d .
qed

text \<open>
  C10. A packet that the loop loads takes no more than the congestion controller lets it test, each stream it
  takes money from holds its part under the number of the packet and the parts add up to its amount, and the minimum that the receiver
  is told to take is the amount times the exchange rate, rounded down, times one less the slippage, rounded down again, when the denominators of rate and slippage are
  at most \<open>2\<^sup>6\<^sup>3\<close>. All send limits are below \<open>2\<^sup>6\<^sup>3\<close>.
\<close>

theorem loaded_packet_sound:
  assumes "conn_reach M lib sy" "M < 2 ^ 63" "load_packet (sy_conn sy) = Inr (Some ld, c')"
    and "cn_slippage (sy_conn sy) = \<lparr>numer = sn, denom = sd\<rparr>" "unat sd \<le> 2 ^ 63"
  shows "in_flight ld c' \<and> ldd_amount ld \<le> testMaximumPacketAmount (cn_congestion (sy_conn sy))
    \<and> (\<exists>n d. cn_exchangeRate (sy_conn sy) = Some \<lparr>numer = n, denom = d\<rparr>
         \<and> (unat d \<le> 2 ^ 63 \<longrightarrow>
              unat (prepareAmount (ldd_request ld)) = unat (ldd_amount ld) * unat n div unat d * (unat sd - unat sn) div unat sd))"
proof -
  let ?c = "sy_conn sy" and ?n = "cn_nextPacketSequence (sy_conn sy)"
  note I = conn_reach_inv [OF assms(1,2)]
  note inv = sys_inv_parts(1,2) [OF I]
  have fl: "in_flight ld c'" "ldd_amount ld \<le> testMaximumPacketAmount (cn_congestion ?c)"
    using load_packet_inv [OF inv assms(2) next_id_fresh [OF I]] assms(3) by simp_all
  define c1 where "c1 = ?c\<lparr>cn_nextPacketSequence := ?n + 1\<rparr>"
  obtain rate l where rl: "load_frames ?n c1 = Inr (rate, l)" "finish_loading ?n rate l = Inr (Some ld, c')"
    using assms(3) by (auto simp: load_packet_def getNextPacketSequence_def Let_def c1_def split: option.splits if_splits)
  have k: "keeps ?c c1" unfolding c1_def by (rule keeps_flags)
  have inv1: "ids_inv c1" "money_ok M c1" using quiet_keeps [OF k inv] by (simp_all add: quiet_def)
  have "holding c1 = holding ?c" using keeps_holding [OF k] by simp
  then obtain mx where mx: "max_from_streams rate c1 = Inr mx" "load_inv (dec_of_nat ?n) M mx c1 l []"
    using load_frames_inv [OF inv1 assms(2), of ?n] next_id_fresh [OF I] rl(1) by auto
  then have "conn_config (ld_conn l) = conn_config ?c" using k by (auto simp: load_inv_def loads_def keeps_def)
  then have m: "minimum_destination rate (ldd_amount ld) ?c = Inr (prepareAmount (ldd_request ld))"
    by (rule finish_loading_minimum [OF rl(2)])
  have "ldd_amount ld = ld_amount l" using rl(2) by (auto simp: finish_loading_def Let_def at_conn_def split: if_splits sum.splits)
  then have "ldd_amount ld \<le> mx" using mx(2) by (simp add: load_inv_def word_le_nat_alt)
  note fits = max_from_streams_fits [OF mx(1) this]
  have "cn_exchangeRate ?c = Some \<lparr>numer = numer rate, denom = denom rate\<rparr>" using load_frames_rate [OF rl(1)] by (simp add: c1_def)
  then show ?thesis using fl minimum_destination_exact [OF m fits] assms(4,5) by (simp del: One_nat_def)
qed

theorem loaded_packet_sound_witness:
  "in_flight sample_loaded sample_held \<and> unat (prepareAmount (ldd_request sample_loaded)) = 10 * 1 div 1 * (1 - 0) div 1"
proof -
  have "10 < (2 :: nat) ^ 63" "load_packet (sy_conn (new_system sample_sender)) = Inr (Some sample_loaded, sample_held)"
    "cn_slippage (sy_conn (new_system sample_sender)) = \<lparr>numer = 0, denom = 1\<rparr>" "unat (1 :: u64) \<le> 2 ^ 63"
    by (simp_all add: new_system_def sample_load sample_sender_fields)
  from loaded_packet_sound [OF sample_sender_reached this] show ?thesis
    by (simp add: new_system_def sample_sender_fields) (simp add: sample_loaded_def)
qed

text \<open>
  C25. A stream number is never used twice, also not after its stream was removed; the numbers the
  connection gives out have its parity and grow, the other side can only use the other parity, and only up to the limit it was told.
\<close>

theorem stream_ids_unique:
  assumes "conn_reach M lib sy" "M < 2 ^ 63"
  shows "distinct (map fst (objects (sy_conn sy)))
    \<and> set (cn_closedStreams (sy_conn sy)) \<inter> fst ` set (cn_streams (sy_conn sy)) = {}
    \<and> (\<forall>i \<in> fst ` set (objects (sy_conn sy)).
         (even i = cn_isServer (sy_conn sy) \<longrightarrow> i < cn_nextStreamId (sy_conn sy))
       \<and> (even i \<noteq> cn_isServer (sy_conn sy) \<longrightarrow> i \<le> cn_maxStreamId (sy_conn sy)))"
proof -
  have I: "ids_inv (sy_conn sy)" by (rule sys_inv_parts(1) [OF conn_reach_inv [OF assms]])
  then have "set (cn_closedStreams (sy_conn sy)) \<inter> fst ` set (cn_streams (sy_conn sy)) = {}"
    by (auto simp: ids_inv_def objects_def)
  with I show ?thesis by (auto simp: ids_inv_def own_id_def)
qed

theorem stream_ids_unique_witness: "map fst (objects sample_sender) = [2] \<and> distinct (map fst (objects sample_sender))"
proof -
  have "10 < (2 :: nat) ^ 63" by simp
  from stream_ids_unique [OF sample_sender_reached this] show ?thesis
    by (simp add: new_system_def objects_def sample_sender_fields)
qed

section \<open>The exchange rate\<close>

text \<open>
  C24. If the exchange rate is determined, it is the amount that a test packet of one of the volleys delivered over the amount the packet was sent with; the
  delivered amount has at least the configured digits; so on a path with a fixed rate that rounds down, the rate is
  never above the true one and below it by at most one part in \<open>10^(precision - 1)\<close>. A path over which no
  packet can be sent is refused. The precision is at least one digit and no volley changes it.
\<close>

theorem exchange_rate_precise:
  assumes "determineExchangeRate send_volley c = (Inr (), c')" "0 < cn_minExchangeRatePrecision c" "keeps_precision send_volley"
    and "honest_path up down send_volley" "0 < down"
  shows "\<exists>amounts c0 results c1 a p. send_volley amounts c0 = (Inr results, c1) \<and> (a, TestPacket p) \<in> set (zip amounts results)
    \<and> cn_exchangeRate c' = Some \<lparr>numer = prepareAmount p, denom = a\<rparr>
    \<and> 10 ^ (cn_minExchangeRatePrecision c - 1) \<le> unat (prepareAmount p)
    \<and> unat (prepareAmount p) * down \<le> unat a * up
    \<and> (unat a * up - unat (prepareAmount p) * down) * 10 ^ (cn_minExchangeRatePrecision c - 1) \<le> unat a * up
    \<and> maximumPacketAmount (cn_congestion c') \<noteq> 0"
proof -
  have "rate_loop send_volley TEST_PACKET_MAX_ATTEMPTS first_amounts c = (Inr (), c')"
    using assms(1) by (simp add: determineExchangeRate_def split: if_splits)
  from rate_loop_found [OF this assms(2,3)] obtain as c0 c1 results a p where
    f: "send_volley as c0 = (Inr results, c1)" "(a, TestPacket p) \<in> set (zip as results)"
      "cn_exchangeRate c' = Some \<lparr>numer = prepareAmount p, denom = a\<rparr>"
      "10 ^ (cn_minExchangeRatePrecision c - 1) \<le> unat (prepareAmount p)" "maximumPacketAmount (cn_congestion c') \<noteq> 0" by blast
  have n: "unat (prepareAmount p) = unat a * up div down" using assms(4) f(1,2) unfolding honest_path_def by blast
  let ?x = "unat a * up" and ?P = "10 ^ (cn_minExchangeRatePrecision c - 1) :: nat"
  have le: "unat (prepareAmount p) * down \<le> ?x" using n by simp
  have rest: "?x - unat (prepareAmount p) * down < down"
    using n assms(5) by (simp add: minus_div_mult_eq_mod)
  have "(?x - unat (prepareAmount p) * down) * ?P \<le> (?x - unat (prepareAmount p) * down) * unat (prepareAmount p)"
    by (rule mult_le_mono2) (rule f(4))
  also have "\<dots> \<le> down * unat (prepareAmount p)" using rest by (intro mult_le_mono1) simp
  also have "\<dots> \<le> ?x" using le by (simp add: mult.commute)
  finally show ?thesis using le f by blast
qed


definition unit_path :: "u64 list \<Rightarrow> conn \<Rightarrow> test_result list result \<times> conn" where
  "unit_path amounts c =
     (Inr (map (\<lambda>a. TestPacket \<lparr>sequence = 1, ilpPacketType = type_byte Reject, prepareAmount = a, frames = []\<rparr>) amounts), c)"

definition sample_prober :: conn where
  "sample_prober = (case build_connection null_lib 0 (sender_opts\<lparr>op_exchangeRate := None\<rparr>) of Inr c \<Rightarrow> c)"

lemma sample_digits: "map countDigits first_amounts = [1, 4, 7, 10, 13]"
  by code_simp

lemma sample_rate_probe: "\<exists>c'. determineExchangeRate unit_path sample_prober = (Inr (), c')"
proof -
  have c: "has_destination sample_prober" "cn_minExchangeRatePrecision sample_prober = 3"
    "fixedPacketAmount (cn_congestion sample_prober) = MAX_UNSIGNED_VALUE" "c_maximumPacketAmount (cn_congestion sample_prober) = MAX_UNSIGNED_VALUE"
    by (simp_all add: sample_prober_def sender_opts_def sample_defs has_destination_def js_def
      DEFAULT_MINIMUM_EXCHANGE_RATE_PRECISION_def new_congestion_def maximumPacketAmount_def minLong_def)
  obtain results where r: "unit_path first_amounts sample_prober = (Inr results, sample_prober)"
    and results: "results = map (\<lambda>a. TestPacket \<lparr>sequence = 1, ilpPacketType = type_byte Reject, prepareAmount = a, frames = []\<rparr>) first_amounts"
    by (simp add: unit_path_def)
  have d: "countDigits 1 = 1" "countDigits 1000 = 4" "countDigits 1000000 = 7" "countDigits 1000000000 = 10" "countDigits 1000000000000 = 13"
    using sample_digits by (simp_all add: first_amounts_def)
  obtain v where v: "sendTestPacketVolley first_amounts results = Inr ([-1, -1, -1, -1, -1], v)" "maxDigits v = 13"
    using d by (simp add: sendTestPacketVolley_def results first_amounts_def new_rational_def)
  have "\<exists>c'. rate_step first_amounts results sample_prober = (Inr None, c')"
    using c v by (simp add: rate_step_def Let_def minLongs_def minLong_def setMaximumAmounts_def maximumPacketAmount_def)
  then obtain c' where s: "rate_step first_amounts results sample_prober = (Inr None, c')" ..
  have ne: "first_amounts \<noteq> []" and n: "TEST_PACKET_MAX_ATTEMPTS = Suc 14"
    by (simp_all add: first_amounts_def TEST_PACKET_MAX_ATTEMPTS_def)
  have "rate_loop unit_path TEST_PACKET_MAX_ATTEMPTS first_amounts sample_prober = (Inr (), c')"
    unfolding n rate_loop.simps(2) by (simp add: ne r s)
  then show ?thesis using c(1) by (simp add: determineExchangeRate_def)
qed

theorem exchange_rate_precise_witness:
  "\<exists>n a c'. determineExchangeRate unit_path sample_prober = (Inr (), c') \<and> cn_exchangeRate c' = Some \<lparr>numer = n, denom = a\<rparr>
     \<and> (unat a * 1 - unat n * 1) * 100 \<le> unat a * 1"
proof -
  obtain c' where c': "determineExchangeRate unit_path sample_prober = (Inr (), c')" using sample_rate_probe by blast
  have p: "cn_minExchangeRatePrecision sample_prober = 3"
    by (simp add: sample_prober_def sender_opts_def sample_defs DEFAULT_MINIMUM_EXCHANGE_RATE_PRECISION_def)
  have "keeps_precision unit_path" "honest_path 1 1 unit_path"
    by (auto simp: keeps_precision_def honest_path_def unit_path_def zip_map2 set_zip)
  from exchange_rate_precise [OF c' _ this] c' p show ?thesis by (simp del: mult_1_right) blast
qed

end
