(* ===== verification/Connection_Config.thy ===== *)
theory Connection_Config
  imports Connection_System
begin

text \<open>
  The parameters of a connection (its secret and keys, its side, slippage, tag, receipt details and limits) are set when it
  is built and changed by none of its steps, whatever state they start from.
\<close>

abbreviation same_config :: "conn \<Rightarrow> conn \<Rightarrow> bool" where
  "same_config c c' \<equiv> conn_config c' = conn_config c"

named_theorems configs \<open>operations that leave the parameters alone\<close>

lemma keeps_config: "keeps c c' \<Longrightarrow> same_config c c'"
  by (simp add: keeps_def)

lemma modify_config [configs]: "conn_config (modify_stream i f c) = conn_config c"
  by (simp add: modify_stream_def conn_config_def)

lemma loop_config [configs]: "conn_config (startSendLoop c) = conn_config c" "conn_config (queue_frames fs c) = conn_config c"
  "conn_config (emit e c) = conn_config c"
  using keeps_step(1-3) [OF keeps_refl, THEN keeps_config] by blast+

lemma field_config [configs]:
  "conn_config (c\<lparr>cn_sending := b\<rparr>) = conn_config c" "conn_config (c\<lparr>cn_connected := b\<rparr>) = conn_config c"
  "conn_config (c\<lparr>cn_looping := b\<rparr>) = conn_config c" "conn_config (c\<lparr>cn_lastPacketExchangeRate := r\<rparr>) = conn_config c"
  "conn_config (c\<lparr>cn_queuedFrames := fs, cn_remoteState := x\<rparr>) = conn_config c"
  "conn_config (c\<lparr>cn_remoteState := x, cn_remoteKnowsOurAccount := b\<rparr>) = conn_config c"
  "conn_config (c\<lparr>cn_congestion := g, cn_retryDelay := n\<rparr>) = conn_config c"
  by (simp_all add: conn_config_def)

section \<open>Calls and handlers\<close>

lemma call_stream_config: "conn_config (call_stream i call c) = conn_config c"
  by (simp add: call_stream_def configs Let_def split: option.split)

lemma stream_record_config:
  "conn_config (snd (createStream c)) = conn_config c" "conn_config (removeStreamRecord i c) = conn_config c"
  by (auto simp: createStream_def removeStreamRecord_def Let_def configs split: option.split)
    (simp_all add: conn_config_def)

lemma handle_config: "conn_config (handle h c) = conn_config c"
proof (cases h)
  case EndClosed
  show ?thesis
    using keeps_config [OF keeps_trans [OF keeps_flags(1) sendConnectionClose_keeps]] EndClosed by (simp add: end_closed_def)
qed (auto intro!: keeps_config keeps_destroy keeps_conn_end keeps_step keeps_flags keeps_refl
    simp: destroy_finish_def end_finish_def connect_def connect_finish_def testIdle_def startIdleTimer_def stream_record_config)

section \<open>Receiving\<close>

lemma receive_amounts_config: "conn_config (snd (receive_amounts as totals c)) = conn_config c"
  by (induction as totals c rule: receive_amounts.induct) (simp_all add: Let_def map_object_other)

lemma commit_config: "conn_config (snd (handlePrepare_commit lib iv rv c)) = conn_config c"
proof -
  obtain totals c1 where r: "receive_amounts (rv_amounts rv) [] c = (totals, c1)" by fastforce
  obtain limits c2 where l: "stream_frames c1 = (limits, c2)" by fastforce
  have "conn_config c2 = conn_config c"
    using receive_amounts_config [of "rv_amounts rv" "[]" c] stream_frames_keeps [OF l] r by (simp add: keeps_def)
  then show ?thesis
    by (auto simp: handlePrepare_commit_def Let_def r l conn_config_def addTotalReceived_def removeIncomingHold_def split: sum.splits)
qed

lemma started_config: "handlePrepare_start lib iv now prepare c = Inr (rv, c') \<Longrightarrow> conn_config c' = conn_config c"
proof -
  assume "handlePrepare_start lib iv now prepare c = Inr (rv, c')"
  from handlePrepare_started [OF this] obtain c1 where c1: "same_books c c1" "addIncomingHold (rv_amount rv) c1 = (True, c')" by blast
  have "conn_config c' = conn_config c1" by (subst addIncomingHold_True(1) [OF c1(2)]) (simp add: conn_config_def)
  with c1(1) show ?thesis by (simp add: same_books_def)
qed

lemma declined_config: "conn_config (snd (handlePrepare_decline lib iv prepare rv c)) = conn_config c"
proof -
  obtain t c' where d: "handlePrepare_decline lib iv prepare rv c = (t, c')" by fastforce
  show ?thesis using construct_thrown [OF d] d by (simp add: same_books_def conn_config_def removeIncomingHold_def)
qed

lemma handlePrepare_config: "conn_config (snd (handlePrepare lib iv now app prepare c)) = conn_config c"
  by (auto simp: handlePrepare_def started_config commit_config declined_config [THEN sym] case_prod_beta
      dest!: handlePrepare_start_refused started_config simp: same_books_def declined_config split: sum.splits)

section \<open>Loading a packet\<close>

lemma ends_mono: "ends P Q r \<Longrightarrow> (\<And>c. P c \<Longrightarrow> P' c) \<Longrightarrow> (\<And>x. Q x \<Longrightarrow> Q' x) \<Longrightarrow> ends P' Q' r"
  by (auto split: sum.splits)

lemma ends_bind: "ends P Q r \<Longrightarrow> (\<And>x. Q x \<Longrightarrow> ends P Q' (f x)) \<Longrightarrow> ends P Q' (ebind r f)"
  by (cases r) simp_all

lemma ends_at_conn: "P c \<Longrightarrow> ends P (\<lambda>_. True) (at_conn c m)"
  by (auto simp: at_conn_def split: sum.splits)

lemma load_stream_config:
  "ends (same_config (ld_conn l)) (\<lambda>l1. same_config (ld_conn l) (ld_conn l1)) (load_stream rate seq i cs l)"
  by (auto simp: load_stream_def at_conn_def Let_def ebind_def configs split: sum.splits)

lemma load_money_config: "ends (same_config (ld_conn l)) (\<lambda>l1. same_config (ld_conn l) (ld_conn l1)) (load_money rate seq ss l)"
proof (induction ss arbitrary: l)
  case (Cons x rest)
  obtain i cs where x: "x = (i, cs)" by (cases x)
  show ?case
  proof (cases "load_stream rate seq i cs l")
    case (Inr l1)
    with load_stream_config [of l rate seq i cs] have "same_config (ld_conn l) (ld_conn l1)" by simp
    then show ?thesis using Cons.IH [of l] Cons.IH [of l1] Inr by (auto simp: x split: sum.splits)
  next
    case (Inl e)
    then show ?thesis using load_stream_config [of l rate seq i cs] Cons.IH [of l] by (auto simp: x split: prod.splits)
  qed
qed simp

lemma load_data_config: "ends (same_config c) (\<lambda>(fs', c'). same_config c c') (load_data ss n fs c)"
proof (induction ss arbitrary: n fs c)
  case (Cons x rest)
  obtain i s where x: "x = (i, s)" by (cases x)
  obtain d off cbs st where d: "getAvailableDataToSend (nat (n - 20)) (cs_stream s) = ((d, off), cbs, st)"
    by (metis prod.exhaust)
  define c1 where "c1 = modify_stream i (on_money (\<lambda>_. st)) c"
  have turn: "load_data (x # rest) n fs c = Inr (fs, c) \<or> (\<exists>e. load_data (x # rest) n fs c = Inl (e, c1))
      \<or> (\<exists>n1 fs1. load_data (x # rest) n fs c = load_data rest n1 fs1 c1)"
    by (auto simp: x d c1_def at_conn_def Let_def split: option.split sum.split)
  have "conn_config c1 = conn_config c" by (simp add: c1_def configs)
  then have "ends (same_config c) (\<lambda>(fs', c'). same_config c c') (load_data rest n1 fs1 c1)" for n1 fs1
    by (intro ends_mono [OF Cons.IH]) auto
  then show ?case using turn \<open>conn_config c1 = conn_config c\<close> by auto
qed simp

lemma load_frames_config: "ends (same_config c) (\<lambda>(rate, l). same_config c (ld_conn l)) (load_frames seq c)"
proof -
  define closing where "closing = (cn_closed c \<and> cn_remoteState c = RemoteConnected)"
  define fs where "fs = cn_queuedFrames c @ account_frames c @ open_limits c @ (if closing then [ConnectionClose NoError []] else [])"
  define c1 where "c1 = c\<lparr>cn_queuedFrames := [], cn_remoteState := (if closing then RemoteClosed else cn_remoteState c)\<rparr>"
  have c1: "conn_config c1 = conn_config c" by (simp add: c1_def configs)
  have load_frames: "load_frames seq c = (case cn_exchangeRate c1 of
           None \<Rightarrow> Inl (Error ''Tried to send without an exchange rate established'', c1)
         | Some rate \<Rightarrow>
             ebind (at_conn c1 (max_from_streams rate c1)) (\<lambda>mx.
             ebind (load_money rate seq (cn_streams c1)
                      \<lparr>ld_frames = fs, ld_amount = 0, ld_left = mx, ld_from = [], ld_conn = c1\<rparr>) (\<lambda>l.
             ebind (at_conn (ld_conn l) (data_room seq (ld_frames l) (ld_conn l))) (\<lambda>(room, fs1).
             ebind (load_data (cn_streams (ld_conn l)) room fs1 (ld_conn l)) (\<lambda>(fs2, c2).
               Inr (rate, l\<lparr>ld_frames := fs2, ld_conn := c2\<rparr>))))))"
    by (simp only: load_frames_def Let_def closing_def [symmetric] fs_def [symmetric] c1_def [symmetric])
  have money: "ends (same_config c) (\<lambda>l1. same_config c (ld_conn l1))
      (load_money rate seq ss \<lparr>ld_frames = fs, ld_amount = 0, ld_left = mx, ld_from = [], ld_conn = c1\<rparr>)" for rate ss mx
    by (rule ends_mono [OF load_money_config]) (simp_all add: c1)
  show ?thesis
  proof (cases "cn_exchangeRate c1")
    case (Some rate)
    have rest: "ends (same_config c) (\<lambda>(rate, l'). same_config c (ld_conn l'))
        (ebind (at_conn (ld_conn l) (data_room seq (ld_frames l) (ld_conn l))) (\<lambda>(room, fs1).
           ebind (load_data (cn_streams (ld_conn l)) room fs1 (ld_conn l)) (\<lambda>(fs2, c2). Inr (rate, l\<lparr>ld_frames := fs2, ld_conn := c2\<rparr>))))"
      if l: "same_config c (ld_conn l)" for l
    proof (rule ends_bind [OF ends_at_conn])
      fix x :: "int \<times> frame list"
      have "ends (same_config c) (\<lambda>(fs', c'). same_config c c') (load_data ss n fs1 (ld_conn l))" for ss n fs1
        by (rule ends_mono [OF load_data_config]) (use l in auto)
      then show "ends (same_config c) (\<lambda>(rate, l'). same_config c (ld_conn l'))
          (case x of (room, fs1) \<Rightarrow> ebind (load_data (cn_streams (ld_conn l)) room fs1 (ld_conn l))
            (\<lambda>(fs2, c2). Inr (rate, l\<lparr>ld_frames := fs2, ld_conn := c2\<rparr>)))"
        by (cases x) (auto intro!: ends_bind [where Q = "\<lambda>(fs', c'). same_config c c'"])
    qed (rule l)
    show ?thesis unfolding load_frames Some option.case
      by (rule ends_bind [OF ends_at_conn], rule c1, rule ends_bind [OF money], erule rest)
  qed (simp add: load_frames c1)
qed

lemma load_packet_config:
  "load_packet c = Inl (e, c') \<Longrightarrow> conn_config c' = conn_config c" "load_packet c = Inr (x, c') \<Longrightarrow> conn_config c' = conn_config c"
proof -
  have n: "conn_config (snd (getNextPacketSequence c)) = conn_config c"
    by (simp add: getNextPacketSequence_def Let_def conn_config_def)
  have f: "ends (same_config (ld_conn l)) (\<lambda>(x, c'). same_config (ld_conn l) c') (finish_loading seq rate l)" for seq rate l
    by (auto simp: finish_loading_def Let_def at_conn_def configs ebind_def split: sum.splits)
  have "ends (same_config c) (\<lambda>(x, c'). same_config c c') (load_packet c)"
  proof (cases "getNextPacketSequence c")
    case (Pair s c1)
    with n have c1: "conn_config c1 = conn_config c" by simp
    show ?thesis
    proof (cases s)
      case (Some seq)
      show ?thesis
      proof (cases "load_frames seq c1")
        case (Inr y)
        obtain rate l where y: "y = (rate, l)" by (cases y)
        have "same_config c (ld_conn l)" using load_frames_config [of c1 seq] c1 Inr y by simp
        then have "ends (same_config c) (\<lambda>(x, c'). same_config c c') (finish_loading seq rate l)"
          by (intro ends_mono [OF f]) auto
        then show ?thesis using Inr Some Pair y by (simp add: load_packet_def)
      qed (use load_frames_config [of c1 seq] c1 Some Pair in \<open>auto simp: load_packet_def\<close>)
    qed (use c1 Pair in \<open>simp add: load_packet_def\<close>)
  qed
  then show "load_packet c = Inl (e, c') \<Longrightarrow> conn_config c' = conn_config c" "load_packet c = Inr (x, c') \<Longrightarrow> conn_config c' = conn_config c"
    by simp_all
qed

section \<open>Responses\<close>

lemma undo_config: "conn_config (undoRejectedPacket request c) = conn_config c"
proof -
  have "conn_config (fold (undo_frame h) fs c) = conn_config c" for h fs
  proof (induction fs arbitrary: c)
    case (Cons f fs)
    have "conn_config (undo_frame h f c) = conn_config c" by (cases f) (simp_all add: configs)
    with Cons.IH show ?case by simp
  qed simp
  then show ?thesis by (simp add: undoRejectedPacket_def)
qed

lemma handle_response_config: "conn_config (snd (handle_response lib now request am cond data c)) = conn_config c"
proof -
  have "conn_config (bumpIdle now c) = conn_config c" using keeps_config [OF keeps_step(5) [OF keeps_refl]] .
  moreover have "conn_config (snd (handleConnectorError r am c2)) = conn_config c2" for r c2
    using keeps_config [OF handleConnectorError_keeps, OF prod.collapse [symmetric]] .
  ultimately show ?thesis
    by (auto simp: handle_response_def Let_def undo_config split: sum.splits IlpReply.splits prod.splits) (metis snd_conv undo_config)+
qed

lemma add_stats_config: "conn_config (snd (add_stats d am c)) = conn_config c"
  by (auto simp: add_stats_def configs split: prod.splits bool.splits dest!: addTotal_books simp: keeps_streams_def)

lemma apply_response_config: "conn_config (snd (apply_response ld response c)) = conn_config c"
proof -
  have frames: "conn_config (handleControlFrames fs c) = conn_config c" for fs c by (rule keeps_config [OF keeps_handleControlFrames])
  have receipts: "conn_config (fold note_receipt fs c) = conn_config c" for fs c by (rule keeps_config [OF note_receipts_keep])
  have holds: "conn_config (fold (\<lambda>i. map_object i (executeHold k)) ids c) = conn_config c" for k ids c
    by (induction ids arbitrary: c) (simp_all add: map_object_other)
  show ?thesis
    unfolding apply_response_def Let_def
    by (simp add: add_stats_config frames receipts holds configs)
qed

lemma receive_response_config: "conn_config (snd (receive_response lib now ld cond data c)) = conn_config c"
proof -
  obtain r c1 where h: "handle_response lib now (ldd_request ld) (ldd_amount ld) cond data c = (r, c1)" by fastforce
  with handle_response_config [of lib now "ldd_request ld" "ldd_amount ld" cond data c] have "conn_config c1 = conn_config c" by simp
  then show ?thesis using h by (auto simp: receive_response_def apply_response_config split: sum.splits option.splits)
qed

section \<open>Every step\<close>

lemma conn_step_config: "conn_step M lib sy sy' \<Longrightarrow> conn_config (sy_conn sy') = conn_config (sy_conn sy)"
proof (induction rule: conn_step.induct)
  case (refused iv now prepare sy t c')
  then show ?case using handlePrepare_start_refused by (auto simp: same_books_def)
next
  case (declined sy xs rv ys iv prepare t c')
  then show ?case using declined_config [of lib iv prepare rv "sy_conn sy"] by simp
next
  case (committed sy xs rv ys iv f c')
  then show ?case using commit_config [of lib iv rv "sy_conn sy"] by simp
next
  case (commit_threw sy xs rv ys iv t c')
  then show ?case using commit_config [of lib iv rv "sy_conn sy"] by simp
next
  case (load_threw sy e c' err)
  then show ?case using load_packet_config(1) keeps_config [OF loop_keeps(1)] by simp
next
  case (answered sy ld now condition d u c')
  then show ?case using receive_response_config [of lib now ld condition d "sy_conn sy"] by simp
next
  case (answer_threw sy ld now condition d e c' err)
  then show ?case using receive_response_config [of lib now ld condition d "sy_conn sy"] keeps_config [OF loop_keeps(1)] by simp
qed (auto simp: call_stream_config handle_config started_config configs load_packet_config(2)
    intro!: keeps_config test_request_keeps test_response_keeps rate_step_keeps loop_keeps)

end
