(* ===== verification/Base64.thy ===== *)
theory Base64
  imports Ilp_Address
begin

text \<open>
  Base64 as \<open>Buffer.toString('base64')\<close> and \<open>Buffer.from(s, 'base64')\<close> compute it, and the
  URL-safe variant of \<^verbatim>\<open>ilp-packet/src/utils/base64url.ts\<close> and
  \<^verbatim>\<open>stream-receiver/src/utils.ts\<close>.

  Base64 decoding accepts both alphabets, ends at the first padding character and skips every other character; up to five
  bits left over at the end are dropped. Hexadecimal decoding stops at the first pair of
  characters that are not both hexadecimal digits.
\<close>

section \<open>Six-bit groups\<close>

fun sextets :: "buffer \<Rightarrow> nat list" where
  "sextets [] = []"
| "sextets [x] = [unat x div 4, unat x mod 4 * 16]"
| "sextets [x, y] = [unat x div 4, unat x mod 4 * 16 + unat y div 16, unat y mod 16 * 4]"
| "sextets (x # y # z # r) =
     unat x div 4 # (unat x mod 4 * 16 + unat y div 16) # (unat y mod 16 * 4 + unat z div 64)
     # unat z mod 64 # sextets r"

fun octets :: "nat list \<Rightarrow> buffer" where
  "octets (a # b # c # d # r) =
     of_nat (a * 4 + b div 16) # of_nat (b mod 16 * 16 + c div 4) # of_nat (c mod 4 * 64 + d) # octets r"
| "octets [a, b, c] = [of_nat (a * 4 + b div 16), of_nat (b mod 16 * 16 + c div 4)]"
| "octets [a, b] = [of_nat (a * 4 + b div 16)]"
| "octets _ = []"

lemma of_nat_unat_byte: "n = unat b \<Longrightarrow> of_nat n = (b :: byte)"
  by simp

lemma byte_div:
  "unat (b :: byte) div 4 < 64" "unat (b :: byte) div 16 < 16" "unat (b :: byte) div 64 < 4"
  using unat_byte_less [of b] by (simp_all add: less_mult_imp_div_less)

lemma octets_sextets: "octets (sextets bs) = bs"
proof (induction bs rule: sextets.induct)
  case (2 x)
  show ?case by (simp add: of_nat_unat_byte)
next
  case (3 x y)
  show ?case using byte_div(2) [of y] by (simp add: of_nat_unat_byte)
next
  case (4 x y z r)
  with byte_div(2) [of y] byte_div(3) [of z] show ?case by (simp add: of_nat_unat_byte)
qed simp

lemma sextet_bounds:
  "a < 16 \<Longrightarrow> n mod 4 * 16 + a < (64 :: nat)" "a < 4 \<Longrightarrow> n mod 16 * 4 + a < (64 :: nat)"
  using mod_less_divisor [of 4 n] mod_less_divisor [of 16 n] by linarith+

lemma sextets_less: "n \<in> set (sextets bs) \<Longrightarrow> n < 64"
  by (induction bs rule: sextets.induct)
    (auto simp: byte_div sextet_bounds sextet_bounds [where a = 0, simplified])

section \<open>Alphabets\<close>

definition base64_char :: "nat \<Rightarrow> code_unit" where
  "base64_char n = of_nat
     (if n < 26 then 65 + n else if n < 52 then 71 + n else if n < 62 then n - 4
      else if n = 62 then 43 else 47)"

definition base64_value :: "code_unit \<Rightarrow> nat option" where
  "base64_value u =
     (let n = unat u
      in if 65 \<le> n \<and> n \<le> 90 then Some (n - 65)
         else if 97 \<le> n \<and> n \<le> 122 then Some (n - 71)
         else if 48 \<le> n \<and> n \<le> 57 then Some (n + 4)
         else if n = 43 \<or> n = 45 then Some 62
         else if n = 47 \<or> n = 95 then Some 63
         else None)"

definition equals_sign :: code_unit where "equals_sign = 61"

definition base64_encode :: "buffer \<Rightarrow> jsstring" where
  "base64_encode bs = map base64_char (sextets bs)
     @ replicate ((3 - length bs mod 3) mod 3) equals_sign"

definition base64_decode :: "jsstring \<Rightarrow> buffer" where
  "base64_decode s = octets (List.map_filter base64_value (takeWhile (\<lambda>u. u \<noteq> equals_sign) s))"

text \<open>\<open>replace(/\+/g, '-').replace(/\//g, '_')\<close> on one character.\<close>

definition url_char :: "code_unit \<Rightarrow> code_unit" where
  "url_char u = (if u = 43 then 45 else if u = 47 then 95 else u)"

definition base64ToBase64Url :: "jsstring \<Rightarrow> jsstring" where
  "base64ToBase64Url s = map url_char (filter (\<lambda>u. u \<noteq> equals_sign) s)"

definition bufferToBase64url :: "buffer \<Rightarrow> jsstring" where
  "bufferToBase64url bs = base64ToBase64Url (base64_encode bs)"

text \<open>The receiver's variant removes the padding with \<open>/=+$/\<close>.\<close>

definition strip_padding :: "jsstring \<Rightarrow> jsstring" where
  "strip_padding s = rev (dropWhile (\<lambda>u. u = equals_sign) (rev s))"

definition base64url :: "buffer \<Rightarrow> jsstring" where
  "base64url bs = map url_char (strip_padding (base64_encode bs))"

section \<open>Round trip\<close>

lemma unat_base64_char:
  "n < 64 \<Longrightarrow> unat (base64_char n) =
     (if n < 26 then 65 + n else if n < 52 then 71 + n else if n < 62 then n - 4
      else if n = 62 then 43 else 47)"
  unfolding base64_char_def by (subst unat_of_nat) simp

lemma base64_value_char: "n < 64 \<Longrightarrow> base64_value (base64_char n) = Some n"
  unfolding base64_value_def Let_def unat_base64_char by (auto split: if_splits)

lemma base64_value_url: "n < 64 \<Longrightarrow> base64_value (url_char (base64_char n)) = Some n"
proof (cases "n < 62")
  case True
  then have "base64_char n \<noteq> 43" "base64_char n \<noteq> 47"
    using unat_base64_char [of n] by (auto split: if_splits dest: arg_cong [of _ _ unat])
  with True show ?thesis by (simp add: url_char_def base64_value_char)
next
  case False
  assume "n < 64"
  with False have "n = 62 \<or> n = 63" by auto
  then show ?thesis by (auto simp: base64_char_def url_char_def base64_value_def)
qed

lemma base64_char_not_equals: "n < 64 \<Longrightarrow> base64_char n \<noteq> equals_sign"
  using unat_base64_char [of n] by (auto simp: equals_sign_def split: if_splits)

lemma map_filter_values:
  assumes "\<And>n. n \<in> set ns \<Longrightarrow> base64_value (f n) = Some n"
  shows "List.map_filter base64_value (map f ns) = ns"
  using assms by (induction ns) (auto simp: List.map_filter_simps)

text \<open>Decoding characters of the alphabet, up to padding.\<close>

lemma decode_chars:
  assumes "\<And>n. n \<in> set ns \<Longrightarrow> base64_value (f n) = Some n \<and> f n \<noteq> equals_sign"
  shows "base64_decode (map f ns @ replicate k equals_sign) = octets ns"
proof -
  have "takeWhile (\<lambda>u. u \<noteq> equals_sign) (replicate k equals_sign) = []" by (cases k) simp_all
  then have "takeWhile (\<lambda>u. u \<noteq> equals_sign) (map f ns @ replicate k equals_sign) = map f ns"
    using assms by (subst takeWhile_append2) auto
  then show ?thesis using map_filter_values [of ns f] assms by (simp add: base64_decode_def)
qed

lemma base64_roundtrip: "base64_decode (base64_encode bs) = bs"
  unfolding base64_encode_def
  by (subst decode_chars) (simp_all add: base64_value_char base64_char_not_equals sextets_less octets_sextets)

lemma strip_padding_encode: "strip_padding (base64_encode bs) = map base64_char (sextets bs)"
proof -
  have tail: "dropWhile (\<lambda>u. u = equals_sign) (replicate k equals_sign @ s) = dropWhile (\<lambda>u. u = equals_sign) s" for k s
    by (induction k) simp_all
  have "dropWhile (\<lambda>u. u = equals_sign) (rev (map base64_char (sextets bs))) = rev (map base64_char (sextets bs))"
    using base64_char_not_equals [of "last (sextets bs)"] sextets_less [of "last (sextets bs)" bs]
    by (cases "sextets bs" rule: rev_cases) auto
  then show ?thesis by (simp add: strip_padding_def base64_encode_def tail)
qed

lemma filter_padding_encode: "filter (\<lambda>u. u \<noteq> equals_sign) (base64_encode bs) = map base64_char (sextets bs)"
  using base64_char_not_equals sextets_less by (auto simp: base64_encode_def filter_map intro!: filter_True)

lemma base64url_variants: "base64url bs = bufferToBase64url bs"
  by (simp add: base64url_def bufferToBase64url_def base64ToBase64Url_def strip_padding_encode filter_padding_encode)

lemma base64url_roundtrip: "base64_decode (base64url bs) = bs"
proof -
  have "base64_value equals_sign = None" by (simp add: base64_value_def equals_sign_def)
  then have "url_char (base64_char n) \<noteq> equals_sign" if "n < 64" for n using base64_value_url [OF that] by auto
  then have "base64_decode (map (url_char \<circ> base64_char) (sextets bs) @ replicate 0 equals_sign) = bs"
    by (subst decode_chars) (simp_all add: base64_value_url sextets_less octets_sextets)
  then show ?thesis by (simp add: base64url_def strip_padding_encode)
qed

text \<open>The URL-safe characters are those an ILP address segment may have.\<close>

lemma url_char_address: "n < 64 \<Longrightarrow> address_char (url_char (base64_char n))"
proof (cases "n < 62")
  case True
  then have "base64_char n \<noteq> 43" "base64_char n \<noteq> 47"
    using unat_base64_char [of n] by (auto split: if_splits dest: arg_cong [of _ _ unat])
  with True show ?thesis using unat_base64_char [of n] by (auto simp: url_char_def address_char_def Let_def split: if_splits)
next
  case False
  assume "n < 64"
  with False have "n = 62 \<or> n = 63" by auto
  then show ?thesis by (auto simp: base64_char_def url_char_def address_char_def)
qed

lemma base64url_segment: "bs \<noteq> [] \<Longrightarrow> segment (base64url bs)"
proof -
  assume "bs \<noteq> []"
  then have "sextets bs \<noteq> []" by (cases bs rule: sextets.cases) auto
  then show ?thesis
    by (auto simp: segment_def base64url_def strip_padding_encode list_all_iff url_char_address sextets_less)
qed

lemma base64url_length: "3 * length (base64url bs) \<le> 4 * length bs + 2"
proof -
  have "3 * length (sextets bs) \<le> 4 * length bs + 2" by (induction bs rule: sextets.induct) simp_all
  then show ?thesis by (simp add: base64url_def strip_padding_encode)
qed

section \<open>Hexadecimal\<close>

definition hex_char :: "nat \<Rightarrow> code_unit" where
  "hex_char n = of_nat (if n < 10 then 48 + n else 87 + n)"

definition hex_value :: "code_unit \<Rightarrow> nat option" where
  "hex_value u =
     (let n = unat u
      in if 48 \<le> n \<and> n \<le> 57 then Some (n - 48)
         else if 97 \<le> n \<and> n \<le> 102 then Some (n - 87)
         else if 65 \<le> n \<and> n \<le> 70 then Some (n - 55)
         else None)"

definition hex_encode :: "buffer \<Rightarrow> jsstring" where
  "hex_encode bs = concat (map (\<lambda>b. [hex_char (unat b div 16), hex_char (unat b mod 16)]) bs)"

fun hex_decode :: "jsstring \<Rightarrow> buffer" where
  "hex_decode (a # b # s) =
     (case (hex_value a, hex_value b) of
        (Some x, Some y) \<Rightarrow> of_nat (16 * x + y) # hex_decode s
      | _ \<Rightarrow> [])"
| "hex_decode _ = []"

lemma unat_hex_char: "n < 16 \<Longrightarrow> unat (hex_char n) = (if n < 10 then 48 + n else 87 + n)"
  unfolding hex_char_def by (subst unat_of_nat) simp

lemma hex_value_char: "n < 16 \<Longrightarrow> hex_value (hex_char n) = Some n"
  unfolding hex_value_def Let_def unat_hex_char by (auto split: if_splits)

lemma hex_roundtrip: "hex_decode (hex_encode bs) = bs"
  by (induction bs) (simp_all add: hex_encode_def hex_value_char byte_div)

lemma length_hex_encode [simp]: "length (hex_encode bs) = 2 * length bs"
  by (induction bs) (simp_all add: hex_encode_def)

lemma hex_encode_alphabet: "u \<in> set (hex_encode bs) \<Longrightarrow> \<exists>n < 16. u = hex_char n"
  by (auto simp: hex_encode_def) (metis byte_div(2), metis mod_less_divisor zero_less_numeral)

end
