(* ===== verification/Stream_Server.thy ===== *)
theory Stream_Server
  imports Connection_Config Base64
begin

text \<open>
  \<^verbatim>\<open>ilp-protocol-stream/src/server.ts\<close>, \<^verbatim>\<open>ilp-protocol-stream/src/pool.ts\<close> and the data handler of the client
  in \<^verbatim>\<open>ilp-protocol-stream/src/index.ts\<close>.

  The server hands out addresses whose last segment is an encrypted token; the first packet to such an address opens a
  connection, the pool keeps the open connections by that segment. A packet whose connection is being opened by another one
  waits for it: \<open>pool_start\<close>, \<open>pool_opened\<close> and \<open>deliver\<close> are the parts between which other packets
  may arrive, \<open>handleData\<close> runs them in a row (then no identifier is pending when the next packet comes).
\<close>

section \<open>State\<close>

record pool =
  pl_serverSecret :: buffer
  pl_opts :: conn_opts
  pl_active :: "(jsstring \<times> conn) list"
  pl_pending :: "jsstring list"
  pl_connections :: "jsstring list"

datatype data_handler = NoHandler | Serving | ShuttingDown

record server =
  sv_serverSecret :: buffer
  sv_opts :: conn_opts
  sv_account :: jsstring
  sv_assetCode :: jsstring
  sv_assetScale :: nat
  sv_connected :: bool
  sv_handler :: data_handler
  sv_pool :: pool

definition new_pool :: "buffer \<Rightarrow> conn_opts \<Rightarrow> pool" where
  "new_pool secret opts = \<lparr>pl_serverSecret = secret, pl_opts = opts, pl_active = [], pl_pending = [], pl_connections = []\<rparr>"

text \<open>The constructor: the secret given, or random bytes.\<close>

definition build_server :: "buffer option \<Rightarrow> buffer \<Rightarrow> conn_opts \<Rightarrow> server" where
  "build_server secret random opts =
     \<lparr>sv_serverSecret = or_default random secret, sv_opts = opts, sv_account = [], sv_assetCode = [], sv_assetScale = 0,
      sv_connected = False, sv_handler = NoHandler, sv_pool = new_pool [] opts\<rparr>"

text \<open>\<open>listen\<close>, with the answer of \<open>ILDCP.fetch\<close>; the handler is registered before it is known.\<close>

definition listen :: "bool \<Rightarrow> jsstring \<times> jsstring \<times> nat \<Rightarrow> server \<Rightarrow> server" where
  "listen plugin_connected fetched s =
     (if sv_connected s \<and> plugin_connected then s
      else
        case fetched of (clientAddress, code, scale) \<Rightarrow>
          s\<lparr>sv_account := clientAddress, sv_assetCode := code, sv_assetScale := scale, sv_connected := True,
            sv_handler := Serving,
            sv_pool := new_pool (sv_serverSecret s)
              ((sv_opts s)\<lparr>op_isServer := True, op_sourceAccount := clientAddress, op_assetCode := code, op_assetScale := scale\<rparr>)\<rparr>)"

definition createServer :: "buffer option \<Rightarrow> buffer \<Rightarrow> conn_opts \<Rightarrow> jsstring \<times> jsstring \<times> nat \<Rightarrow> server" where
  "createServer secret random opts fetched = listen False fetched (build_server secret random opts)"

text \<open>\<open>close\<close>: first every new packet gets T99, then the connections end, then the plugin is disconnected.\<close>

definition close_start :: "server \<Rightarrow> server" where
  "close_start s = s\<lparr>sv_handler := ShuttingDown\<rparr>"

definition pool_close :: "pool \<Rightarrow> pool" where
  "pool_close p = p\<lparr>pl_active := map (\<lambda>(i, c). (i, conn_end c)) (pl_active p)\<rparr>"

definition close_pool :: "server \<Rightarrow> server" where
  "close_pool s = s\<lparr>sv_pool := pool_close (sv_pool s)\<rparr>"

definition close_finish :: "server \<Rightarrow> server" where
  "close_finish s = s\<lparr>sv_handler := NoHandler, sv_connected := False\<rparr>"

definition getAssetCode :: "server \<Rightarrow> jsstring result" where
  "getAssetCode s = (if \<not> sv_connected s then Inl (Error ''Server must be connected to get asset code.'') else Inr (sv_assetCode s))"

definition getAssetScale :: "server \<Rightarrow> nat result" where
  "getAssetScale s = (if \<not> sv_connected s then Inl (Error ''Server must be connected to get asset scale.'') else Inr (sv_assetScale s))"

section \<open>Addresses\<close>

definition TOKEN_NONCE_LENGTH :: nat where "TOKEN_NONCE_LENGTH = 18"

record address_opts =
  ao_connectionTag :: "jsstring option"
  ao_receiptNonce :: "buffer option"
  ao_receiptSecret :: "buffer option"

datatype address_arg = NoOpts | TagOpt jsstring | AddressOpts address_opts

text \<open>The tag, the nonce and the secret, empty when absent, and whether receipts are enabled.\<close>

fun address_parts :: "address_arg \<Rightarrow> (buffer \<times> buffer \<times> buffer \<times> bool) result" where
  "address_parts NoOpts = Inr ([], [], [], False)"
| "address_parts (TagOpt t) = Inr (ascii_encode t, [], [], False)"
| "address_parts (AddressOpts opts) =
     (if (ao_receiptNonce opts = None) \<noteq> (ao_receiptSecret opts = None)
      then Inl (Error ''receiptNonce and receiptSecret must accompany each other'')
      else if length (or_default (replicate 16 0) (ao_receiptNonce opts)) \<noteq> 16
      then Inl (Error ''receiptNonce must be 16 bytes'')
      else if length (or_default (replicate 32 0) (ao_receiptSecret opts)) \<noteq> 32
      then Inl (Error ''receiptSecret must be 32 bytes'')
      else Inr (ascii_encode (or_default [] (ao_connectionTag opts)), or_default [] (ao_receiptNonce opts),
                or_default [] (ao_receiptSecret opts), ao_receiptNonce opts \<noteq> None))"

definition write_address_token :: "'w writer_ops \<Rightarrow> buffer \<Rightarrow> buffer \<Rightarrow> buffer \<Rightarrow> buffer \<Rightarrow> 'w \<Rightarrow> 'w result" where
  "write_address_token ops tokenNonce tag nonce secret w =
     ebind (op_writeOctetString ops tokenNonce (int TOKEN_NONCE_LENGTH) w) (\<lambda>w.
     ebind (op_writeVarOctetString ops tag w) (\<lambda>w.
     ebind (op_writeVarOctetString ops nonce w) (op_writeVarOctetString ops secret)))"

record address_secret =
  as_destinationAccount :: jsstring
  as_sharedSecret :: buffer
  as_receiptsEnabled :: bool

definition generateAddressAndSecret ::
  "crypto_lib \<Rightarrow> buffer \<Rightarrow> buffer \<Rightarrow> address_arg \<Rightarrow> server \<Rightarrow> address_secret result" where
  "generateAddressAndSecret lib iv tokenNonce opts s =
     (if \<not> sv_connected s then Inl (Error ''Server must be connected to generate address and secret'')
      else
        ebind (address_parts opts) (\<lambda>(tag, nonce, secret, enabled).
        ebind (predict (write_address_token Predictor tokenNonce tag nonce secret)) (\<lambda>len.
        ebind (written (write_address_token Writer tokenNonce tag nonce secret) (new_writer_capacity (nat len))) (\<lambda>plain.
          let token = encryptConnectionAddressToken lib iv (sv_serverSecret s) plain
          in Inr \<lparr>as_destinationAccount = sv_account s @ dot # base64url token,
                  as_sharedSecret = generateSharedSecretFromToken lib (sv_serverSecret s) token,
                  as_receiptsEnabled = enabled\<rparr>))))"

section \<open>The pool\<close>

definition getSharedSecret :: "crypto_lib \<Rightarrow> buffer \<Rightarrow> buffer \<Rightarrow> IlpPrepare \<Rightarrow> buffer result" where
  "getSharedSecret lib serverSecret token prepare =
     (let secret = generateSharedSecretFromToken lib serverSecret token
      in ebind (decrypt lib (generatePskEncryptionKey lib secret) (prep_data prepare)) (\<lambda>_. Inr secret))"

definition read_sized :: "nat \<Rightarrow> js_error \<Rightarrow> buffer option rd" where
  "read_sized n e =
     rbind peekVarOctetString (\<lambda>b.
       if length b = 0 then rbind skipVarOctetString (\<lambda>_. rret None)
       else if length b = n then rbind readVarOctetString (\<lambda>b. rret (Some b))
       else rthrow e)"

definition read_address_token :: "(jsstring option \<times> buffer option \<times> buffer option) rd" where
  "read_address_token =
     rbind (skipOctetString TOKEN_NONCE_LENGTH) (\<lambda>_.
     rbind (rbind peekVarOctetString (\<lambda>b.
              if length b \<noteq> 0 then rbind readVarOctetString (\<lambda>b. rret (Some (ascii_decode b)))
              else rbind skipVarOctetString (\<lambda>_. rret None))) (\<lambda>tag.
     rbind (read_sized 16 (Error ''receiptNonce must be 16 bytes'')) (\<lambda>nonce.
     rbind (read_sized 32 (Error ''receiptSecret must be 32 bytes'')) (\<lambda>secret.
       rret (tag, nonce, secret)))))"

definition token_opts :: "conn_opts \<Rightarrow> buffer \<Rightarrow> jsstring option \<times> buffer option \<times> buffer option \<Rightarrow> conn_opts" where
  "token_opts opts sharedSecret details =
     (case details of (tag, nonce, secret) \<Rightarrow>
        opts\<lparr>op_sharedSecret := sharedSecret, op_connectionTag := tag, op_receiptNonce := nonce, op_receiptSecret := secret\<rparr>)"

definition open_connection :: "crypto_lib \<Rightarrow> date \<Rightarrow> jsstring \<Rightarrow> IlpPrepare \<Rightarrow> pool \<Rightarrow> conn result" where
  "open_connection lib now i prepare p =
     (let token = base64_decode i
      in ebind (getSharedSecret lib (pl_serverSecret p) token prepare) (\<lambda>sharedSecret.
         ebind (decryptConnectionAddressToken lib (pl_serverSecret p) token) (\<lambda>plain.
         ebind (run_reader read_address_token plain) (\<lambda>details.
           build_connection lib now (token_opts (pl_opts p) sharedSecret details)))))"

text \<open>The two tables are objects: reading a property they inherit finds something that is not a connection.\<close>

datatype lookup_result = Active conn | Inherited | Pending | Unknown

definition pool_lookup :: "jsstring \<Rightarrow> pool \<Rightarrow> lookup_result" where
  "pool_lookup i p =
     (case map_of (pl_active p) i of
        Some c \<Rightarrow> Active c
      | None \<Rightarrow> if i \<in> set object_members then Inherited
                else if i \<in> set (pl_pending p) then Pending else Unknown)"

definition pool_start :: "jsstring \<Rightarrow> pool \<Rightarrow> pool" where
  "pool_start i p = p\<lparr>pl_pending := List.insert i (pl_pending p)\<rparr>"

definition pool_opened :: "jsstring \<Rightarrow> conn result \<Rightarrow> pool \<Rightarrow> pool" where
  "pool_opened i r p =
     (case r of
        Inl e \<Rightarrow> p\<lparr>pl_pending := removeAll i (pl_pending p)\<rparr>
      | Inr c \<Rightarrow> p\<lparr>pl_connections := pl_connections p @ [i], pl_active := AList.update i c (pl_active p),
                   pl_pending := removeAll i (pl_pending p)\<rparr>)"

text \<open>The listener of the \<open>close\<close> event of a connection.\<close>

definition pool_closed :: "jsstring \<Rightarrow> pool \<Rightarrow> pool" where
  "pool_closed i p = p\<lparr>pl_pending := removeAll i (pl_pending p), pl_active := AList.delete i (pl_active p)\<rparr>"

definition pool_update :: "jsstring \<Rightarrow> conn \<Rightarrow> pool \<Rightarrow> pool" where
  "pool_update i c p = p\<lparr>pl_active := map (\<lambda>(j, d). (j, if j = i then c else d)) (pl_active p)\<rparr>"

section \<open>Packets\<close>

definition expected_prepare :: "buffer \<Rightarrow> jsstring" where
  "expected_prepare data =
     js ''Expected an ILP Prepare packet (type 12), but got packet with type: ''
       @ (case data of [] \<Rightarrow> js ''undefined'' | b # _ \<Rightarrow> dec_of_nat (unat b))"

definition not_a_prepare :: "jsstring \<Rightarrow> buffer \<Rightarrow> IlpReject" where
  "not_a_prepare account data =
     \<lparr>rej_code = js ''F00'', triggeredBy = account, rej_message = expected_prepare data, rej_data = []\<rparr>"

text \<open>The reject for an exception; only the errors of the totals have an \<open>ilpErrorMessage\<close>.\<close>

fun thrown_reject :: "jsstring \<Rightarrow> thrown \<Rightarrow> IlpReject" where
  "thrown_reject account UnexpectedPaymentThrown =
     \<lparr>rej_code = js ''F06'', triggeredBy = account, rej_message = [], rej_data = []\<rparr>"
| "thrown_reject account (FinalApplicationThrown d) =
     \<lparr>rej_code = js ''F99'', triggeredBy = account, rej_message = [], rej_data = d\<rparr>"
| "thrown_reject account (BadRequestThrown m) =
     \<lparr>rej_code = js ''F00'', triggeredBy = account, rej_message = m, rej_data = []\<rparr>"
| "thrown_reject account (PlainThrown e) =
     \<lparr>rej_code = js ''F00'', triggeredBy = account, rej_message = [], rej_data = []\<rparr>"

definition unreachable :: "jsstring \<Rightarrow> IlpReject" where
  "unreachable account = \<lparr>rej_code = js ''F02'', triggeredBy = account, rej_message = [], rej_data = []\<rparr>"

text \<open>An exception of \<open>serializeIlpFulfill\<close> is caught as well.\<close>

definition answer :: "jsstring \<Rightarrow> thrown + IlpFulfill \<Rightarrow> buffer result" where
  "answer account r =
     (case r of
        Inl t \<Rightarrow> serializeIlpReject (thrown_reject account t)
      | Inr f \<Rightarrow>
          (case serializeIlpFulfill f of
             Inl e \<Rightarrow> serializeIlpReject (thrown_reject account (PlainThrown e))
           | Inr bs \<Rightarrow> Inr bs))"

text \<open>\<open>replace\<close> with a string removes its first occurrence, wherever it is.\<close>

fun remove_first :: "jsstring \<Rightarrow> jsstring \<Rightarrow> jsstring" where
  "remove_first p [] = []"
| "remove_first p (u # s) = (if take (length p) (u # s) = p then drop (length p) (u # s) else u # remove_first p s)"

definition connection_id :: "jsstring \<Rightarrow> jsstring \<Rightarrow> jsstring" where
  "connection_id account dest = hd (split_on dot (remove_first (account @ [dot]) dest))"

type_synonym should_fulfill = "(u64 \<Rightarrow> buffer \<Rightarrow> jsstring option \<Rightarrow> bool) option"

text \<open>What happens when the connection of a packet is there, or could not be opened.\<close>

definition deliver ::
  "crypto_lib \<Rightarrow> buffer \<Rightarrow> date \<Rightarrow> should_fulfill \<Rightarrow> jsstring \<Rightarrow> jsstring \<Rightarrow> IlpPrepare \<Rightarrow> conn result \<Rightarrow> pool \<Rightarrow> buffer result \<times> pool" where
  "deliver lib iv now app account i prepare r p =
     (case r of
        Inl e \<Rightarrow> (serializeIlpReject (unreachable account), p)
      | Inr c \<Rightarrow>
          (case handlePrepare lib iv now app prepare c of
             (x, c') \<Rightarrow> (answer account x, pool_update i c' p)))"

definition handleData ::
  "crypto_lib \<Rightarrow> buffer \<Rightarrow> date \<Rightarrow> should_fulfill \<Rightarrow> buffer \<Rightarrow> server \<Rightarrow> buffer result \<times> server" where
  "handleData lib iv now app data s =
     (let account = sv_account s; p = sv_pool s
      in case deserializeIlpPrepare data of
           Inl e \<Rightarrow> (serializeIlpReject (not_a_prepare account data), s)
         | Inr prepare \<Rightarrow>
             let i = connection_id account (destination prepare)
             in if i = [] then (serializeIlpReject (unreachable account), s)
                else
                  (case pool_lookup i p of
                     Inherited \<Rightarrow> (serializeIlpReject (thrown_reject account (PlainThrown (TypeError ''connection.handlePrepare is not a function''))), s)
                   | Active c \<Rightarrow>
                       (case deliver lib iv now app account i prepare (Inr c) p of (bs, p2) \<Rightarrow> (bs, s\<lparr>sv_pool := p2\<rparr>))
                   | _ \<Rightarrow>
                       let r = open_connection lib now i prepare p
                       in case deliver lib iv now app account i prepare r (pool_opened i r (pool_start i p)) of
                            (bs, p2) \<Rightarrow> (bs, s\<lparr>sv_pool := p2\<rparr>)))"

text \<open>The handler that is registered.\<close>

definition server_data ::
  "crypto_lib \<Rightarrow> buffer \<Rightarrow> date \<Rightarrow> should_fulfill \<Rightarrow> buffer \<Rightarrow> server \<Rightarrow> buffer result option \<times> server" where
  "server_data lib iv now app data s =
     (case sv_handler s of
        NoHandler \<Rightarrow> (None, s)
      | Serving \<Rightarrow> (case handleData lib iv now app data s of (r, s') \<Rightarrow> (Some r, s'))
      | ShuttingDown \<Rightarrow>
          (Some (serializeIlpReject \<lparr>rej_code = js ''T99'', triggeredBy = sv_account s,
                   rej_message = js ''Shutting down server'', rej_data = []\<rparr>), s))"

section \<open>The client\<close>

text \<open>\<open>createConnection\<close>, with the answer of \<open>ILDCP.fetch\<close>, and the data handler it registers.\<close>

definition createConnection :: "crypto_lib \<Rightarrow> date \<Rightarrow> jsstring \<times> jsstring \<times> nat \<Rightarrow> conn_opts \<Rightarrow> conn result" where
  "createConnection lib now fetched opts =
     (case fetched of (clientAddress, code, scale) \<Rightarrow>
        ebind (build_connection lib now
                 (opts\<lparr>op_sourceAccount := clientAddress, op_assetCode := code, op_assetScale := scale, op_isServer := False\<rparr>))
          (\<lambda>c. Inr (connect c)))"

definition client_data ::
  "crypto_lib \<Rightarrow> buffer \<Rightarrow> date \<Rightarrow> should_fulfill \<Rightarrow> jsstring \<Rightarrow> buffer \<Rightarrow> conn \<Rightarrow> buffer result \<times> conn" where
  "client_data lib iv now app clientAddress data c =
     (case deserializeIlpPrepare data of
        Inl e \<Rightarrow> (serializeIlpReject (not_a_prepare clientAddress data), c)
      | Inr prepare \<Rightarrow>
          (case handlePrepare lib iv now app prepare c of (r, c') \<Rightarrow> (answer clientAddress r, c')))"

section \<open>Addresses and the connections they open\<close>

definition address_token_bytes :: "buffer \<Rightarrow> buffer \<Rightarrow> buffer \<Rightarrow> buffer \<Rightarrow> buffer" where
  "address_token_bytes tokenNonce tag nonce secret = tokenNonce @ var_octet tag @ var_octet nonce @ var_octet secret"

context writer_interface
begin

lemma emits_address_token:
  assumes "length tokenNonce = TOKEN_NONCE_LENGTH" "length tag < 2 ^ 48" "length nonce < 2 ^ 48" "length secret < 2 ^ 48"
  shows "emits (write_address_token ops tokenNonce tag nonce secret) (address_token_bytes tokenNonce tag nonce secret)"
  unfolding write_address_token_def address_token_bytes_def
  by (intro emits_seq emits_OctetString emits_VarOctetString assms) (simp add: assms(1))

end

text \<open>What the options say, as the connection will have it.\<close>

fun address_details :: "address_arg \<Rightarrow> jsstring option \<times> buffer option \<times> buffer option" where
  "address_details NoOpts = (None, None, None)"
| "address_details (TagOpt t) = (if t = [] then None else Some t, None, None)"
| "address_details (AddressOpts opts) =
     (case ao_connectionTag opts of None \<Rightarrow> None | Some t \<Rightarrow> if t = [] then None else Some t,
      ao_receiptNonce opts, ao_receiptSecret opts)"

fun address_tag :: "address_arg \<Rightarrow> jsstring" where
  "address_tag NoOpts = []"
| "address_tag (TagOpt t) = t"
| "address_tag (AddressOpts opts) = or_default [] (ao_connectionTag opts)"

lemma reads_skip_var_octet: "length d < 2 ^ 48 \<Longrightarrow> reads skipVarOctetString (var_octet d) ()"
  unfolding skipVarOctetString_def var_octet_def by (intro reads_bind [OF reads_length_prefix] reads_skip)

lemma reads_peek_var_octet:
  assumes "length d < 2 ^ 48" "reads (k d) (var_octet d) v"
  shows "reads (rbind peekVarOctetString k) (var_octet d) v"
  using reads_peek [OF reads_var_octet [OF assms(1)], of k "[]" v] assms(2) by (simp add: peekVarOctetString_def)

lemma reads_tag:
  assumes "length b < 2 ^ 48"
  shows "reads (rbind peekVarOctetString (\<lambda>b. if length b \<noteq> 0 then rbind readVarOctetString (\<lambda>b. rret (Some (ascii_decode b)))
     else rbind skipVarOctetString (\<lambda>_. rret None))) (var_octet b) (if b = [] then None else Some (ascii_decode b))"
  by (rule reads_peek_var_octet [OF assms])
    (auto intro: reads_bind_last [OF reads_var_octet [OF assms]] reads_bind_last [OF reads_skip_var_octet [of "[]"]])

lemma reads_sized:
  assumes "length b = 0 \<or> length b = n" "0 < n" "n < 2 ^ 48"
  shows "reads (read_sized n e) (var_octet b) (if b = [] then None else Some b)"
proof -
  have l: "length b < 2 ^ 48" using assms by auto
  show ?thesis
    unfolding read_sized_def
    by (rule reads_peek_var_octet [OF l])
      (use assms(1,2) in \<open>auto intro: reads_bind_last [OF reads_var_octet [OF l]] reads_bind_last [OF reads_skip_var_octet [of "[]"]]\<close>)
qed

lemma reads_address_token:
  assumes "length tokenNonce = TOKEN_NONCE_LENGTH" "length tag < 2 ^ 48"
    "length nonce = 0 \<or> length nonce = 16" "length secret = 0 \<or> length secret = 32"
  shows "reads read_address_token (address_token_bytes tokenNonce tag nonce secret)
    (if tag = [] then None else Some (ascii_decode tag), if nonce = [] then None else Some nonce, if secret = [] then None else Some secret)"
proof -
  have s: "reads (skipOctetString TOKEN_NONCE_LENGTH) tokenNonce ()"
    using reads_skip [of tokenNonce] assms(1) by (simp add: skipOctetString_def)
  show ?thesis
    unfolding read_address_token_def address_token_bytes_def
    by (intro reads_bind [OF s] reads_bind [OF reads_tag [OF assms(2)]] reads_bind [OF reads_sized [OF assms(3)]]
        reads_bind_last [OF reads_sized [OF assms(4)]]) simp_all
qed

lemma address_parts_details:
  assumes "address_parts arg = Inr (tag, nonce, secret, enabled)" "is_ascii (address_tag arg)" "length (address_tag arg) < 2 ^ 40"
  shows "length tag < 2 ^ 48" "length nonce = 0 \<or> length nonce = 16" "length secret = 0 \<or> length secret = 32"
    "(if tag = [] then None else Some (ascii_decode tag), if nonce = [] then None else Some nonce, if secret = [] then None else Some secret)
       = address_details arg"
proof -
  have "length tag < 2 ^ 48 \<and> (length nonce = 0 \<or> length nonce = 16) \<and> (length secret = 0 \<or> length secret = 32)
    \<and> (if tag = [] then None else Some (ascii_decode tag), if nonce = [] then None else Some nonce, if secret = [] then None else Some secret)
       = address_details arg"
    using assms
    by (cases arg) (auto simp: or_default_def ascii_decode_encode [unfolded ascii_encode_def] ascii_encode_def split: option.splits if_splits)
  then show "length tag < 2 ^ 48" "length nonce = 0 \<or> length nonce = 16" "length secret = 0 \<or> length secret = 32"
    "(if tag = [] then None else Some (ascii_decode tag), if nonce = [] then None else Some nonce, if secret = [] then None else Some secret)
       = address_details arg" by blast+
qed

text \<open>The segment of an address of the server is the identifier of its connection.\<close>

lemma connection_id_own:
  assumes "segment seg"
  shows "connection_id account (account @ dot # seg) = seg"
proof -
  have "remove_first (account @ [dot]) (account @ dot # seg) = seg"
    by (cases account) simp_all
  then show ?thesis using assms by (simp add: connection_id_def split_on_no_dot segment_no_dot)
qed

lemma generated_address:
  fixes lib :: crypto_lib and iv :: buffer
  assumes "address_parts arg = Inr (tag, nonce, secret, enabled)" "is_ascii (address_tag arg)" "length (address_tag arg) < 2 ^ 40"
    and "length tokenNonce = TOKEN_NONCE_LENGTH" "sv_connected s"
  defines "token \<equiv> encryptConnectionAddressToken lib iv (sv_serverSecret s) (address_token_bytes tokenNonce tag nonce secret)"
  shows "generateAddressAndSecret lib iv tokenNonce arg s =
    Inr \<lparr>as_destinationAccount = sv_account s @ dot # base64url token,
         as_sharedSecret = generateSharedSecretFromToken lib (sv_serverSecret s) token, as_receiptsEnabled = enabled\<rparr>"
proof -
  note P = address_parts_details [OF assms(1-3)]
  have l: "length nonce < 2 ^ 48" "length secret < 2 ^ 48" using P(2,3) by auto
  define plain where "plain = address_token_bytes tokenNonce tag nonce secret"
  have "predict (write_address_token Predictor tokenNonce tag nonce secret) = Inr (int (length plain))"
    unfolding plain_def by (rule predict_emits [OF pr.emits_address_token [OF assms(4) P(1) l]])
  moreover have "written (write_address_token Writer tokenNonce tag nonce secret) (new_writer_capacity (length plain)) = Inr plain"
    unfolding plain_def by (rule written_emits_capacity [OF wr.emits_address_token [OF assms(4) P(1) l]])
  ultimately show ?thesis
    using assms(1,5) by (simp add: generateAddressAndSecret_def token_def Let_def plain_def [symmetric])
qed

lemma token_opens:
  fixes lib :: crypto_lib and iv :: buffer and serverSecret :: buffer
  assumes "address_parts arg = Inr (tag, nonce, secret, enabled)" "is_ascii (address_tag arg)" "length (address_tag arg) < 2 ^ 40"
    and "length tokenNonce = TOKEN_NONCE_LENGTH" "aead lib" "length iv = 12"
  defines "token \<equiv> encryptConnectionAddressToken lib iv serverSecret (address_token_bytes tokenNonce tag nonce secret)"
  assumes "pl_serverSecret p = serverSecret"
    and "decrypt lib (generatePskEncryptionKey lib (generateSharedSecretFromToken lib serverSecret token)) (prep_data prepare) = Inr m"
  shows "token \<noteq> []" "open_connection lib now (base64url token) prepare p =
    build_connection lib now (token_opts (pl_opts p) (generateSharedSecretFromToken lib serverSecret token) (address_details arg))"
proof -
  define plain where "plain = address_token_bytes tokenNonce tag nonce secret"
  have tok: "decryptConnectionAddressToken lib serverSecret token = Inr plain" "token \<noteq> []"
    using encrypt_facts [OF assms(5,6), of serverSecret "[plain]"]
    by (auto simp: token_def plain_def encryptConnectionAddressToken_def decryptConnectionAddressToken_def)
  note P = address_parts_details [OF assms(1-3)]
  have "run_reader read_address_token plain = Inr (address_details arg)"
    using reads_run [OF reads_address_token [OF assms(4) P(1,2,3)], of "[]"] P(4) by (simp add: plain_def)
  then show "token \<noteq> []" "open_connection lib now (base64url token) prepare p =
      build_connection lib now (token_opts (pl_opts p) (generateSharedSecretFromToken lib serverSecret token) (address_details arg))"
    using assms(8,9) tok by (simp_all add: open_connection_def base64url_roundtrip getSharedSecret_def)
qed

text \<open>
  C22. An address opens exactly the connection it was made for: when a packet encrypted for the shared secret of an address arrives, the
  server builds a connection with that secret and with the tag, the receipt nonce and the receipt secret that were given when the address was made,
  all of it from the last segment of the address.
\<close>

theorem address_opens_connection:
  assumes "generateAddressAndSecret lib iv tokenNonce arg s = Inr a"
    and "aead lib" "length iv = 12" "length tokenNonce = 18"
    and "is_ascii (address_tag arg)" "length (address_tag arg) < 2 ^ 40"
    and "pl_serverSecret (sv_pool s) = sv_serverSecret s"
    and "destination prepare = as_destinationAccount a"
    and "decrypt lib (generatePskEncryptionKey lib (as_sharedSecret a)) (prep_data prepare) = Inr m"
  shows "open_connection lib now (connection_id (sv_account s) (destination prepare)) prepare (sv_pool s)
    = build_connection lib now (token_opts (pl_opts (sv_pool s)) (as_sharedSecret a) (address_details arg))"
proof -
  obtain tag nonce secret enabled where parts: "address_parts arg = Inr (tag, nonce, secret, enabled)"
    using assms(1) by (auto simp: generateAddressAndSecret_def split: if_splits)
  have n: "length tokenNonce = TOKEN_NONCE_LENGTH" using assms(4) by (simp add: TOKEN_NONCE_LENGTH_def)
  have "sv_connected s" using assms(1) by (auto simp: generateAddressAndSecret_def split: if_splits)
  note G = generated_address [OF parts assms(5,6) n this, of lib iv]
  note O = token_opens [OF parts assms(5,6) n assms(2,3) assms(7)]
  show ?thesis
    using assms(1,8,9) O connection_id_own [OF base64url_segment] by (auto simp: G)
qed

text \<open>
  A packet for an identifier that every object inherits is answered with F00 and not with the F02 of an unknown connection.
\<close>

lemma inherited_identifier:
  assumes "deserializeIlpPrepare data = Inr prepare" "connection_id (sv_account s) (destination prepare) \<in> set object_members"
    and "connection_id (sv_account s) (destination prepare) \<notin> fst ` set (pl_active (sv_pool s))"
  shows "handleData lib iv now app data s =
    (serializeIlpReject \<lparr>rej_code = js ''F00'', triggeredBy = sv_account s, rej_message = [], rej_data = []\<rparr>, s)"
proof -
  let ?i = "connection_id (sv_account s) (destination prepare)"
  have "?i \<noteq> []" using assms(2) by (auto simp: object_members_def js_def)
  moreover have "pool_lookup ?i (sv_pool s) = Inherited"
    using assms(2,3) by (simp add: pool_lookup_def map_of_eq_None_iff [THEN iffD2])
  ultimately show ?thesis using assms(1) by (simp add: handleData_def Let_def)
qed

section \<open>Every connection belongs to its address\<close>

lemma build_connection_fields:
  assumes "build_connection lib now opts = Inr c"
  shows "cn_sharedSecret c = op_sharedSecret opts" "cn_pskKey c = generatePskEncryptionKey lib (op_sharedSecret opts)"
    "cn_fulfillmentKey c = generateFulfillmentKey lib (op_sharedSecret opts)" "cn_isServer c = op_isServer opts"
    "cn_connectionTag c = op_connectionTag opts" "cn_receiptNonce c = op_receiptNonce opts" "cn_receiptSecret c = op_receiptSecret opts"
  using assms by (auto simp: build_connection_def Let_def split: if_splits)

text \<open>The keys of the connection, and the details of the token in the identifier.\<close>

definition belongs :: "crypto_lib \<Rightarrow> buffer \<Rightarrow> jsstring \<Rightarrow> conn \<Rightarrow> bool" where
  "belongs lib serverSecret i c \<longleftrightarrow>
     (let token = base64_decode i; secret = generateSharedSecretFromToken lib serverSecret token
      in cn_sharedSecret c = secret \<and> cn_pskKey c = generatePskEncryptionKey lib secret
         \<and> cn_fulfillmentKey c = generateFulfillmentKey lib secret
         \<and> ebind (decryptConnectionAddressToken lib serverSecret token) (run_reader read_address_token)
             = Inr (cn_connectionTag c, cn_receiptNonce c, cn_receiptSecret c))"

lemma open_connection_belongs: "open_connection lib now i prepare p = Inr c \<Longrightarrow> belongs lib (pl_serverSecret p) i c"
  by (auto simp: open_connection_def belongs_def Let_def getSharedSecret_def token_opts_def build_connection_fields
      split: prod.splits)

lemma belongs_config: "conn_config c' = conn_config c \<Longrightarrow> belongs lib secret i c' = belongs lib secret i c"
  by (simp add: belongs_def conn_config_def Let_def)

text \<open>
  The pool in any interleaving. Its state has, beside the tables, the openings that run: a packet with an unknown identifier starts one,
  with its own prepare, and it ends with a connection or an exception. \<open>delivered\<close> is a packet for an open connection that is handled
  in one go, \<open>used\<close> is any step of an open connection: calls, control frames, the parts of handling a packet, the send loop. The
  \<open>close\<close> event of a connection comes after it was stored: its handlers first wait for a packet to be sent.
\<close>

type_synonym pool_state = "pool \<times> (jsstring \<times> IlpPrepare) list"

inductive pool_step :: "crypto_lib \<Rightarrow> pool_state \<Rightarrow> pool_state \<Rightarrow> bool" for lib where
  arrived: "pool_lookup i p = Unknown \<Longrightarrow> pool_step lib (p, os) (pool_start i p, os @ [(i, prepare)])"
| opened: "os = xs @ (i, prepare) # ys \<Longrightarrow> pool_step lib (p, os) (pool_opened i (open_connection lib now i prepare p) p, xs @ ys)"
| closed: "pool_lookup i p = Active c \<Longrightarrow> pool_step lib (p, os) (pool_closed i p, os)"
| delivered: "pool_lookup i p = Active c \<Longrightarrow> deliver lib iv now app account i prepare (Inr c) p = (bs, p') \<Longrightarrow> pool_step lib (p, os) (p', os)"
| used: "pool_lookup i p = Active (sy_conn sy) \<Longrightarrow> conn_step M lib sy sy' \<Longrightarrow> pool_step lib (p, os) (pool_update i (sy_conn sy') p, os)"
| ended: "pool_step lib (p, os) (pool_close p, os)"

inductive pool_reach :: "crypto_lib \<Rightarrow> buffer \<Rightarrow> conn_opts \<Rightarrow> pool_state \<Rightarrow> bool" for lib secret opts where
  start: "pool_reach lib secret opts (new_pool secret opts, [])"
| step: "pool_reach lib secret opts p \<Longrightarrow> pool_step lib p p' \<Longrightarrow> pool_reach lib secret opts p'"

text \<open>An identifier is in neither table, is being opened once, or has one connection.\<close>

definition one_each :: "pool_state \<Rightarrow> bool" where
  "one_each ps \<longleftrightarrow> (case ps of (p, os) \<Rightarrow>
     distinct (map fst (pl_active p)) \<and> distinct (map fst os) \<and> set (pl_pending p) = fst ` set os
     \<and> fst ` set (pl_active p) \<inter> fst ` set os = {})"

definition pool_inv :: "crypto_lib \<Rightarrow> buffer \<Rightarrow> pool_state \<Rightarrow> bool" where
  "pool_inv lib secret ps \<longleftrightarrow> pl_serverSecret (fst ps) = secret \<and> one_each ps
     \<and> list_all (\<lambda>(i, c). belongs lib secret i c) (pl_active (fst ps))"

lemma lookup_active: "pool_lookup i p = Active c \<longleftrightarrow> map_of (pl_active p) i = Some c"
  by (auto simp: pool_lookup_def split: option.splits)

lemma lookup_unknown: "pool_lookup i p = Unknown \<Longrightarrow> i \<notin> fst ` set (pl_active p) \<and> i \<notin> set (pl_pending p)"
  by (auto simp: pool_lookup_def map_of_eq_None_iff split: option.splits if_splits)

lemma pool_update_inv:
  assumes "pool_inv lib secret (p, os)" "pool_lookup i p = Active c" "conn_config c' = conn_config c"
  shows "pool_inv lib secret (pool_update i c' p, os)"
proof -
  have "belongs lib secret i c" using assms(1,2) by (auto simp: pool_inv_def list_all_iff lookup_active dest!: map_of_SomeD)
  then have b: "belongs lib secret i c'" using belongs_config [OF assms(3)] by simp
  have f: "map fst (pl_active (pool_update i c' p)) = map fst (pl_active p)" by (simp add: pool_update_def case_prod_beta comp_def)
  then have "fst ` set (pl_active (pool_update i c' p)) = fst ` set (pl_active p)" by (metis list.set_map)
  then show ?thesis
    using assms(1) b f by (simp add: pool_inv_def one_each_def) (auto simp: pool_update_def list_all_iff split: if_splits)
qed

lemma pool_close_inv:
  assumes "pool_inv lib secret (p, os)"
  shows "pool_inv lib secret (pool_close p, os)"
proof -
  have "belongs lib secret i (conn_end c) = belongs lib secret i c" for i c
    using keeps_conn_end [of c] by (intro belongs_config) (simp add: keeps_def)
  with assms show ?thesis by (auto simp: pool_inv_def one_each_def pool_close_def list_all_iff case_prod_beta comp_def image_image)
qed

lemma pool_opened_inv:
  assumes inv: "pool_inv lib secret (p, os)" and os: "os = xs @ (i, prepare) # ys"
  shows "pool_inv lib secret (pool_opened i (open_connection lib now i prepare p) p, xs @ ys)"
proof -
  have one: "distinct (map fst (pl_active p))" "distinct (map fst os)" "set (pl_pending p) = fst ` set os"
    "fst ` set (pl_active p) \<inter> fst ` set os = {}" and secret: "pl_serverSecret p = secret"
    and bel: "list_all (\<lambda>(i, c). belongs lib secret i c) (pl_active p)"
    using inv by (simp_all add: pool_inv_def one_each_def)
  have i: "i \<notin> fst ` set (xs @ ys)" "distinct (map fst (xs @ ys))" using one(2) unfolding os by auto
  have rest: "fst ` set os - {i} = fst ` set (xs @ ys)" using i(1) unfolding os by auto
  have new: "i \<notin> fst ` set (pl_active p)" using one(4) unfolding os by auto
  show ?thesis
  proof (cases "open_connection lib now i prepare p")
    case (Inr c)
    have "AList.update i c (pl_active p) = pl_active p @ [(i, c)]" using new by (rule update_fresh)
    moreover have "belongs lib secret i c" using open_connection_belongs [OF Inr] secret by simp
    moreover have "fst ` set (pl_active p) \<inter> fst ` set (xs @ ys) = {}" using one(4) rest by blast
    ultimately show ?thesis using one(1,3) bel secret i new rest
      unfolding Inr by (simp add: pool_inv_def one_each_def pool_opened_def)
  next
    case (Inl e)
    have "fst ` set (pl_active p) \<inter> fst ` set (xs @ ys) = {}" using one(4) rest by blast
    then show ?thesis using one(1,3) bel secret i rest
      unfolding Inl by (simp add: pool_inv_def one_each_def pool_opened_def)
  qed
qed

lemma pool_closed_inv:
  assumes inv: "pool_inv lib secret (p, os)" and i: "pool_lookup i p = Active c"
  shows "pool_inv lib secret (pool_closed i p, os)"
proof -
  have "i \<in> fst ` set (pl_active p)" using i map_of_SomeD by (force simp: lookup_active)
  then have "i \<notin> fst ` set os" using inv by (auto simp: pool_inv_def one_each_def)
  then have "set (removeAll i (pl_pending p)) = fst ` set os" using inv by (auto simp: pool_inv_def one_each_def)
  moreover have sub: "set (AList.delete i (pl_active p)) \<subseteq> set (pl_active p)" by (auto simp: AList.delete_eq)
  moreover have "fst ` set (AList.delete i (pl_active p)) \<inter> fst ` set os = {}"
    using inv image_mono [OF sub, of fst] by (auto simp: pool_inv_def one_each_def)
  ultimately show ?thesis using inv
    by (auto simp: pool_inv_def one_each_def list_all_iff pool_closed_def distinct_delete)
qed

lemma pool_step_inv: "pool_step lib ps ps' \<Longrightarrow> pool_inv lib secret ps \<Longrightarrow> pool_inv lib secret ps'"
proof (induction rule: pool_step.induct)
  case (arrived i p os prepare)
  then show ?case using lookup_unknown [OF arrived(1)] by (auto simp: pool_inv_def one_each_def pool_start_def)
next
  case (opened os xs i prepare ys p now)
  then show ?case by (intro pool_opened_inv)
next
  case (closed i p c os)
  then show ?case by (intro pool_closed_inv)
next
  case (delivered i p c iv now app account prepare bs p' os)
  then show ?case using pool_update_inv [OF _ delivered(1) handlePrepare_config] by (auto simp: deliver_def case_prod_beta)
next
  case (used i p sy M sy' os)
  show ?case by (rule pool_update_inv [OF used(3,1) conn_step_config [OF used(2)]])
next
  case (ended p os)
  then show ?case by (rule pool_close_inv)
qed

text \<open>
  C23. In any interleaving of packets, openings, closings and steps of its connections, the pool never opens a second connection for an
  address: while one is open no other is being opened, only one opening of an address runs at a time, and exactly the addresses
  that are being opened are pending. And each connection has the keys, the tag and the receipt details of the token in
  its address: a packet is never decrypted, credited or fulfilled under those of another.
\<close>

theorem pool_connections_belong:
  assumes "pool_reach lib secret opts (p, os)"
  shows "distinct (map fst (pl_active p)) \<and> distinct (map fst os) \<and> fst ` set (pl_active p) \<inter> fst ` set os = {}
    \<and> set (pl_pending p) = fst ` set os \<and> list_all (\<lambda>(i, c). belongs lib secret i c) (pl_active p)"
proof -
  have "pool_inv lib secret ps" if "pool_reach lib secret opts ps" for ps
    using that
  proof (induction rule: pool_reach.induct)
    case start
    then show ?case by (simp add: pool_inv_def one_each_def new_pool_def)
  next
    case (step p p')
    then show ?case using pool_step_inv by blast
  qed
  from this [OF assms] show ?thesis by (simp add: pool_inv_def one_each_def)
qed

section \<open>A sample\<close>

definition sample_shop :: server where
  "sample_shop = createServer (Some (replicate 32 7)) [] sample_opts (js ''g.shop'', js ''USD'', 2)"

definition sample_arg :: address_arg where
  "sample_arg = AddressOpts \<lparr>ao_connectionTag = Some (js ''order''), ao_receiptNonce = Some (replicate 16 1),
     ao_receiptSecret = Some (replicate 32 2)\<rparr>"

definition sample_secret :: address_secret where
  "sample_secret = (case generateAddressAndSecret null_lib (replicate 12 0) (replicate 18 3) sample_arg sample_shop of Inr a \<Rightarrow> a)"

definition sample_first :: IlpPrepare where
  "sample_first = sample_incoming\<lparr>destination := as_destinationAccount sample_secret\<rparr>"

lemma sample_generated:
  "generateAddressAndSecret null_lib (replicate 12 0) (replicate 18 3) sample_arg sample_shop = Inr sample_secret"
proof -
  have "sv_connected sample_shop" by (simp add: sample_shop_def createServer_def listen_def build_server_def or_default_def)
  with generated_address [of sample_arg "ascii_encode (js ''order'')" "replicate 16 1" "replicate 32 2" True "replicate 18 3"
      sample_shop null_lib "replicate 12 0"]
  show ?thesis
    by (simp add: sample_secret_def sample_arg_def or_default_def is_ascii_def TOKEN_NONCE_LENGTH_def js_def)
qed

lemma sample_first_opens:
  "\<exists>m. decrypt null_lib (generatePskEncryptionKey null_lib (as_sharedSecret sample_secret)) (prep_data sample_first) = Inr m"
  by (simp add: sample_first_def sample_incoming_def generatePskEncryptionKey_def null_lib_def encrypt_def decrypt_def)

theorem address_opens_connection_witness:
  "open_connection null_lib 0 (connection_id (js ''g.shop'') (destination sample_first)) sample_first (sv_pool sample_shop)
    = build_connection null_lib 0 (token_opts (pl_opts (sv_pool sample_shop)) (as_sharedSecret sample_secret)
        (Some (js ''order''), Some (replicate 16 1), Some (replicate 32 2)))"
proof -
  obtain m where m: "decrypt null_lib (generatePskEncryptionKey null_lib (as_sharedSecret sample_secret)) (prep_data sample_first) = Inr m"
    using sample_first_opens by blast
  have s: "sv_account sample_shop = js ''g.shop''" "pl_serverSecret (sv_pool sample_shop) = sv_serverSecret sample_shop"
    by (simp_all add: sample_shop_def createServer_def listen_def build_server_def or_default_def new_pool_def)
  have t: "is_ascii (address_tag sample_arg)" "length (address_tag sample_arg) < 2 ^ 40"
    "address_details sample_arg = (Some (js ''order''), Some (replicate 16 1), Some (replicate 32 2))"
    by (simp_all add: sample_arg_def or_default_def is_ascii_def js_def)
  show ?thesis
    using address_opens_connection [OF sample_generated null_lib_ok(1) _ _ t(1,2) s(2) _ m, of 0] s(1) t(3)
    by (simp add: sample_first_def)
qed

definition sample_id :: jsstring where
  "sample_id = connection_id (js ''g.shop'') (destination sample_first)"

definition sample_token :: buffer where
  "sample_token = encryptConnectionAddressToken null_lib (replicate 12 0) (sv_serverSecret sample_shop)
    (address_token_bytes (replicate 18 3) (ascii_encode (js ''order'')) (replicate 16 1) (replicate 32 2))"

definition sample_pool :: pool where
  "sample_pool = (let p = pool_start sample_id (sv_pool sample_shop)
     in pool_opened sample_id (open_connection null_lib 0 sample_id sample_first p) p)"

lemma sample_shop_fields:
  "sv_connected sample_shop" "pl_serverSecret (sv_pool sample_shop) = sv_serverSecret sample_shop"
  "sv_account sample_shop = js ''g.shop''" "pl_active (sv_pool sample_shop) = []" "pl_pending (sv_pool sample_shop) = []"
  by (simp_all add: sample_shop_def createServer_def listen_def build_server_def or_default_def new_pool_def)

lemma sample_parts:
  "address_parts sample_arg = Inr (ascii_encode (js ''order''), replicate 16 1, replicate 32 2, True)"
  "is_ascii (address_tag sample_arg)" "length (address_tag sample_arg) < 2 ^ 40" "length (replicate 18 3 :: buffer) = TOKEN_NONCE_LENGTH"
  by (simp_all add: sample_arg_def or_default_def is_ascii_def js_def TOKEN_NONCE_LENGTH_def)

lemma sample_secret_fields:
  "sample_secret = \<lparr>as_destinationAccount = js ''g.shop'' @ dot # base64url sample_token,
     as_sharedSecret = generateSharedSecretFromToken null_lib (sv_serverSecret sample_shop) sample_token, as_receiptsEnabled = True\<rparr>"
  using generated_address [OF sample_parts sample_shop_fields(1), of null_lib "replicate 12 0"] sample_shop_fields(3)
  by (simp add: sample_secret_def sample_token_def)

lemma sample_token_start: "\<exists>rest. sample_token = 0 # 0 # 0 # rest"
  by (simp add: sample_token_def encryptConnectionAddressToken_def encrypt_def null_lib_def eval_nat_numeral)

lemma sample_id_token: "sample_id = base64url sample_token"
proof -
  have "sample_token \<noteq> []" using sample_token_start by fastforce
  from connection_id_own [OF base64url_segment [OF this], of "js ''g.shop''"] show ?thesis
    by (simp add: sample_id_def sample_first_def sample_secret_fields)
qed

lemma sample_id_unknown: "pool_lookup sample_id (sv_pool sample_shop) = Unknown"
proof -
  obtain rest where r: "sample_token = 0 # 0 # 0 # rest" using sample_token_start by blast
  have "hd sample_id = 65"
    unfolding sample_id_token r by (simp add: base64url_def strip_padding_encode base64_char_def url_char_def)
  moreover have "hd i = 65 \<Longrightarrow> i \<notin> set object_members" for i :: jsstring by (auto simp: object_members_def js_def)
  ultimately have "sample_id \<notin> set object_members" by blast
  then show ?thesis by (simp add: pool_lookup_def sample_shop_fields)
qed

lemma sample_opened: "map fst (pl_active sample_pool) = [sample_id]"
proof -
  obtain m where m: "decrypt null_lib (generatePskEncryptionKey null_lib (as_sharedSecret sample_secret)) (prep_data sample_first) = Inr m"
    using sample_first_opens by blast
  note O = token_opens [OF sample_parts null_lib_ok(1) _ sample_shop_fields(2), where iv = "replicate 12 0" and prepare = sample_first and m = m,
      folded sample_token_def]
  have o: "\<exists>c. open_connection null_lib 0 sample_id sample_first (sv_pool sample_shop) = Inr c"
    using O(2) [of 0] m by (simp add: sample_id_token sample_secret_fields build_connection_def Let_def token_opts_def sample_shop_def
        createServer_def listen_def build_server_def or_default_def new_pool_def sample_opts_def greaterThanOne_def sample_arg_def)
  have "open_connection null_lib 0 sample_id sample_first (pool_start sample_id (sv_pool sample_shop))
      = open_connection null_lib 0 sample_id sample_first (sv_pool sample_shop)"
    by (simp add: open_connection_def pool_start_def)
  with o show ?thesis by (auto simp: sample_pool_def pool_opened_def pool_start_def Let_def sample_shop_fields)
qed

theorem pool_connections_belong_witness:
  "map fst (pl_active sample_pool) = [sample_id] \<and> set (pl_pending sample_pool) = {}
     \<and> list_all (\<lambda>(i, c). belongs null_lib (replicate 32 7) i c) (pl_active sample_pool)"
proof -
  let ?p = "sv_pool sample_shop"
  have "?p = new_pool (replicate 32 7) (pl_opts ?p)"
    by (simp add: sample_shop_def createServer_def listen_def build_server_def or_default_def new_pool_def)
  then have "pool_reach null_lib (replicate 32 7) (pl_opts ?p) (?p, [])"
    using pool_reach.start by metis
  then have "pool_reach null_lib (replicate 32 7) (pl_opts ?p) (pool_start sample_id ?p, [] @ [(sample_id, sample_first)])"
    by (rule pool_reach.step) (rule pool_step.arrived [OF sample_id_unknown])
  then have "pool_reach null_lib (replicate 32 7) (pl_opts ?p) (sample_pool, [] @ [])"
    unfolding sample_pool_def Let_def by (rule pool_reach.step) (rule pool_step.opened, simp)
  from pool_connections_belong [OF this] show ?thesis using sample_opened by simp
qed

end
