(* ===== verification/Stream_Exchange.thy ===== *)
theory Stream_Exchange
  imports Connection_Safety Stream_Server
begin

text \<open>
  A packet from one connection to the other and back: \<open>handleSentPacket\<close> and \<open>sendPacket\<close> at the sender,
  the network, \<open>handlePrepare\<close> at the receiver. The definitions here only describe the situation; the code is in
  \<open>Connection_Send\<close> and \<open>Connection_Receive\<close>.
\<close>

section \<open>What fits\<close>

definition fits :: "conn \<Rightarrow> stream_packet \<Rightarrow> bool" where
  "fits c p \<longleftrightarrow> packet_ok p \<and> length (packet_bytes p) < 2 ^ 40
     \<and> (cn_enablePadding c \<longrightarrow> length (packet_bytes p) + 28 \<le> MAX_DATA_SIZE)"

lemma fits_encrypt:
  assumes "aead lib" "length iv = 12" "fits c p"
  obtains d where "serializeAndEncrypt lib iv key (pad_size c) p = Inr d" "decryptAndDeserialize lib key d = Inr p"
    "d \<noteq> []" "length d < 2 ^ 47"
proof (cases "cn_enablePadding c")
  case False
  have ok: "packet_ok p" "length (packet_bytes p) < 2 ^ 40" using assms(3) by (simp_all add: fits_def)
  note enc = encrypt_roundtrip [OF assms(1,2) ok(1), of key]
  show ?thesis
    by (rule that [of "encrypt lib iv key [packet_bytes p]"]) (use enc ok(2) False in \<open>auto simp: pad_size_def\<close>)
next
  case True
  have ok: "packet_ok p" "length (packet_bytes p) + 28 \<le> MAX_DATA_SIZE" using assms(3) True by (simp_all add: fits_def)
  let ?ps = "int MAX_DATA_SIZE - 28 - int (length (packet_bytes p))"
  let ?bs = "encrypt lib iv key (packet_bytes p # padding ?ps)"
  have len: "int (length ?bs) = int MAX_DATA_SIZE"
    using encrypt_facts(1) [OF assms(1,2)] padding_length [of ?ps] ok(2) by simp
  show ?thesis
  proof (rule that [of ?bs])
    show "serializeAndEncrypt lib iv key (pad_size c) p = Inr ?bs"
      using serialize_bytes [OF ok(1)] by (simp add: serializeAndEncrypt_def ENCRYPTION_OVERHEAD_def pad_size_def True)
    show "decryptAndDeserialize lib key ?bs = Inr p"
      using encrypt_facts(2) [OF assms(1,2)] reads_run [OF reads_packet [OF ok(1)]]
      by (simp add: decryptAndDeserialize_def deserializeUnencrypted_def)
    show "?bs \<noteq> []" "length ?bs < 2 ^ 47" using len by (auto simp: MAX_DATA_SIZE_def)
  qed
qed

section \<open>Sender and network\<close>

text \<open>Both ends of a connection derive the same keys.\<close>

definition paired :: "conn \<Rightarrow> conn \<Rightarrow> bool" where
  "paired s r \<longleftrightarrow> cn_pskKey s = cn_pskKey r \<and> cn_fulfillmentKey s = cn_fulfillmentKey r"

text \<open>Connectors change the amount, the expiry and nothing that the receiver relies on.\<close>

definition carries :: "IlpPrepare \<Rightarrow> IlpPrepare \<Rightarrow> bool" where
  "carries sent got \<longleftrightarrow> prep_data got = prep_data sent \<and> executionCondition got = executionCondition sent"

lemma packet_prepare_sent:
  assumes "packet_prepare lib iv expiry p am s = Inr (f, condition, bs)" "aead lib" "digests lib" "length iv = 12" "fits s p"
    and "cn_destinationAccount s = Some dest" "isValidIlpAddress dest" "four_digit_date (expiry dest)" "expiry dest \<noteq> 0"
    and "deserializeIlpPrepare bs = Inr sent"
  shows "decryptAndDeserialize lib (cn_pskKey s) (prep_data sent) = Inr p" "executionCondition sent = condition"
    "condition = lib_sha256 lib (generateFulfillment lib (cn_fulfillmentKey s) (prep_data sent))"
    "destination sent = dest" "prep_amount sent = dec_of_nat (unat am)"
proof -
  obtain d where d: "serializeAndEncrypt lib iv (cn_pskKey s) (pad_size s) p = Inr d"
    "decryptAndDeserialize lib (cn_pskKey s) d = Inr p" "length d < 2 ^ 47"
    using fits_encrypt [OF assms(2,4,5)] by metis
  define q where "q = \<lparr>prep_amount = dec_of_nat (unat am), executionCondition = condition, expiresAt = expiry dest,
    destination = dest, prep_data = d\<rparr>"
  have c: "condition = lib_sha256 lib (generateFulfillment lib (cn_fulfillmentKey s) d)" and q: "serializeIlpPrepare q = Inr bs"
    using assms(1,6) d(1) by (auto simp: packet_prepare_def pad_size_def Let_def q_def or_default_def split: if_splits)
  have "length condition = 32" using assms(3) c by (simp add: digests_def)
  then have "encodable_prepare q"
    using assms(7-9) d(3) unat_u64_less [of am] by (auto simp: encodable_prepare_def isPrepare_def isUInt64_iff q_def)
  from prepare_packet_roundtrip [OF this, of "[]"] have "deserializeIlpPrepare bs = Inr q" using q by simp
  then have "sent = q" using assms(10) by simp
  then show "decryptAndDeserialize lib (cn_pskKey s) (prep_data sent) = Inr p" "executionCondition sent = condition"
    "condition = lib_sha256 lib (generateFulfillment lib (cn_fulfillmentKey s) (prep_data sent))"
    "destination sent = dest" "prep_amount sent = dec_of_nat (unat am)"
    using d(2) c by (simp_all add: q_def)
qed

section \<open>Receiver\<close>

text \<open>The packet that \<open>handlePrepare_commit\<close> encrypts.\<close>

definition reply_packet :: "crypto_lib \<Rightarrow> receiving \<Rightarrow> conn \<Rightarrow> stream_packet result" where
  "reply_packet lib rv c =
     (let (totals, c1) = receive_amounts (rv_amounts rv) [] c;
          (limits, c2) = stream_frames c1
      in ebind (receipt_frames lib totals c2) (\<lambda>receipts.
           Inr \<lparr>sequence = sequence (rv_request rv), ilpPacketType = type_byte Fulfill, prepareAmount = rv_amount rv,
                frames = rv_response rv @ limits @ receipts @ cn_queuedFrames c2\<rparr>))"

lemma commit_replies:
  assumes "handlePrepare_commit lib iv rv c = (Inr ful, c')" "reply_packet lib rv c = Inr p"
  shows "serializeAndEncrypt lib iv (cn_pskKey c) (pad_size c) p = Inr (fulfill_data ful)" "fulfillment ful = rv_fulfillment rv"
    "sequence p = sequence (rv_request rv)" "ilpPacketType p = type_byte Fulfill" "prepareAmount p = rv_amount rv"
proof -
  obtain totals c1 where r: "receive_amounts (rv_amounts rv) [] c = (totals, c1)" by (cases "receive_amounts (rv_amounts rv) [] c")
  obtain limits c2 where l: "stream_frames c1 = (limits, c2)" by (cases "stream_frames c1")
  have c2: "conn_config c2 = conn_config c"
    using receive_amounts_config [of "rv_amounts rv" "[]" c] stream_frames_keeps [OF l] r by (simp add: keeps_def)
  obtain receipts where f: "receipt_frames lib totals c2 = Inr receipts"
    using assms(2) by (auto simp: reply_packet_def r l)
  have "pad_size c2 = pad_size c" "cn_pskKey c2 = cn_pskKey c" using c2 by (simp_all add: pad_size_def conn_config_def)
  then show "serializeAndEncrypt lib iv (cn_pskKey c) (pad_size c) p = Inr (fulfill_data ful)" "fulfillment ful = rv_fulfillment rv"
    "sequence p = sequence (rv_request rv)" "ilpPacketType p = type_byte Fulfill" "prepareAmount p = rv_amount rv"
    using assms
    by (auto simp: reply_packet_def handlePrepare_commit_def r l f Let_def addTotalReceived_def removeIncomingHold_def pad_size_def
        split: sum.splits)
qed

text \<open>
  C8. A packet that a connection sends and the other end accepts is settled on both sides: whatever amount and expiry the
  connectors made of the packet and whatever either end did in the meantime, the fulfill that the receiver returns passes every check of the
  sender, which learns the amount that arrived, and that amount is at least the minimum it asked for.
\<close>

theorem packet_exchange:
  assumes "aead lib" "digests lib" "length iv = 12" "length iv' = 12" "paired s r"
    and "packet_prepare lib iv expiry request am s = Inr (f, condition, bs)" "fits s request"
    and "cn_destinationAccount s = Some dest" "isValidIlpAddress dest" "four_digit_date (expiry dest)" "expiry dest \<noteq> 0"
    and "deserializeIlpPrepare bs = Inr sent" "carries sent got"
    and "handlePrepare_start lib iv'' now got r = Inr (rv, r1)" "conn_config r2 = conn_config r1"
    and "handlePrepare_commit lib iv' rv r2 = (Inr ful, r3)" "reply_packet lib rv r2 = Inr reply" "fits r2 reply"
    and "conn_config s' = conn_config s"
  shows "\<exists>answer. serializeIlpFulfill ful = Inr answer
    \<and> handle_response lib now' request am condition answer s' = (Inr (Some reply), bumpIdle now' s')
    \<and> ilpPacketType reply = type_byte Fulfill \<and> prepareAmount reply = incoming_amount got
    \<and> prepareAmount request \<le> incoming_amount got"
proof -
  note S = packet_prepare_sent [OF assms(6,1,2,3,7-12)]
  have r: "conn_config r1 = conn_config r" by (rule started_config [OF assms(14)])
  then have keys: "cn_pskKey r = cn_pskKey s" "cn_fulfillmentKey r = cn_fulfillmentKey s" "cn_pskKey r2 = cn_pskKey s" "cn_pskKey s' = cn_pskKey s"
    using assms(5,15,19) by (simp_all add: paired_def conn_config_def)
  have F: "fulfillable lib got rv r" by (rule handlePrepare_started [OF assms(14)])
  then have rv: "rv_request rv = request" "rv_amount rv = incoming_amount got" "prepareAmount request \<le> rv_amount rv"
    "lib_sha256 lib (rv_fulfillment rv) = condition" "length (rv_fulfillment rv) = 32"
    using S(1-3) assms(2,13) keys(1,2) by (auto simp: fulfillable_def carries_def generateFulfillment_def digests_def)
  note C = commit_replies [OF assms(16,17)]
  obtain d where d: "serializeAndEncrypt lib iv' (cn_pskKey s) (pad_size r2) reply = Inr d"
    "decryptAndDeserialize lib (cn_pskKey s) d = Inr reply" "d \<noteq> []" "length d < 2 ^ 47"
    using fits_encrypt [OF assms(1,4,18)] by metis
  have ful: "fulfill_data ful = d" "fulfillment ful = rv_fulfillment rv" using C(1,2) d(1) keys(3) by simp_all
  then have "encodable_fulfill ful" using rv(5) d(4) by (simp add: encodable_fulfill_def isFulfill_def)
  from fulfill_packet_roundtrip [OF this, of "[]"] obtain answer where a: "serializeIlpFulfill ful = Inr answer"
    "first_byte answer = Some 13" "deserializeIlpFulfill answer = Inr ful" by auto
  have "cn_pskKey (bumpIdle now' s') = cn_pskKey s" using keys(4) by (simp add: bumpIdle_def)
  then have "handle_response lib now' request am condition answer s' = (Inr (Some reply), bumpIdle now' s')"
    using a rv(1,4) ful d C(3,4) by (simp add: handle_response_def parse_response_def parse_reply_packet_def Let_def)
  with a(1) C(4,5) rv(2,3) show ?thesis by auto
qed

section \<open>A sample\<close>

text \<open>The sender asks for at least 90 of 100, 95 arrive.\<close>

lemma sample_sender_config:
  "cn_enablePadding sample_sender = False" "cn_destinationAccount sample_sender = Some (js ''g.client'')"
  "cn_fulfillmentKey sample_sender = replicate 32 0"
  by (simp_all add: sample_sender_def sender_opts_def sample_defs handle.simps connect_def startSendLoop_def has_destination_def
      emit_def createStream_def DEFAULT_MAX_REMOTE_STREAMS_def call_stream_def get_stream_def new_conn_stream_def limit_10_def
      setSendMax_def new_stream_def modify_stream_def stream_limit_10_def new_congestion_def js_def
      generateFulfillmentKey_def null_lib_def)

lemma sample_destination: "isValidIlpAddress (js ''g.client'')" "four_digit_date 1434412800123"
proof -
  show "isValidIlpAddress (js ''g.client'')"
    by (simp add: isValidIlpAddress_def ilp_address_regex_def ILP_ADDRESS_MAX_LENGTH_def js_def dot_def
        schemes_def segment_def address_char_def)
  show "four_digit_date 1434412800123"
    by (simp add: four_digit_date_def getUTCFullYear_def YearFromDay_def msPerDay_def DayFromYear_def
        year_search.simps)
qed

lemma sample_sent:
  "\<exists>bs sent. packet_prepare null_lib (replicate 12 0) (\<lambda>_. 1434412800123) sample_request_packet 100 sample_sender
       = Inr (replicate 32 0, replicate 32 0, bs)
     \<and> deserializeIlpPrepare bs = Inr sent \<and> carries sent sample_incoming"
proof -
  have ok: "packet_ok sample_request_packet" by (simp add: packet_ok_def sample_request_packet_def frame_ok_def)
  define d where "d = encrypt null_lib (replicate 12 0) (replicate 32 0) [packet_bytes sample_request_packet]"
  note enc = encrypt_roundtrip [OF null_lib_ok(1) _ ok, of "replicate 12 0" "replicate 32 0", folded d_def]
  have "length (packet_bytes sample_request_packet) < 100" by code_simp
  then have len: "length d < 2 ^ 47" using enc(3) by simp
  define q where "q = \<lparr>prep_amount = dec_of_nat 100, executionCondition = replicate 32 0, expiresAt = 1434412800123,
    destination = js ''g.client'', prep_data = d\<rparr>"
  have "isUInt64 (dec_of_nat 100)" unfolding isUInt64_iff by (intro exI [of _ 100]) simp
  then have "encodable_prepare q" using len sample_destination by (simp add: encodable_prepare_def isPrepare_def q_def)
  from prepare_packet_roundtrip [OF this, of "[]"] obtain bs where bs: "serializeIlpPrepare q = Inr bs" "deserializeIlpPrepare bs = Inr q"
    by auto
  have "packet_prepare null_lib (replicate 12 0) (\<lambda>_. 1434412800123) sample_request_packet 100 sample_sender
       = Inr (replicate 32 0, replicate 32 0, bs)"
    using enc(1) bs(1) by (simp add: packet_prepare_def sample_sender_fields has_destination_def generateFulfillment_def null_lib_def
        or_default_def q_def Let_def sample_sender_config) (simp add: js_def)
  moreover have "carries q sample_incoming" by (simp add: carries_def sample_incoming_def q_def d_def)
  ultimately show ?thesis using bs(2) by blast
qed

definition sample_fulfill :: stream_packet where
  "sample_fulfill = \<lparr>sequence = 7, ilpPacketType = type_byte Fulfill, prepareAmount = 95, frames = [ConnectionMaxData 65534]\<rparr>"

lemma sample_fulfill_packet: "reply_packet null_lib (fst sample_started) (snd sample_started) = Inr sample_fulfill"
proof -
  obtain totals c1 where r: "receive_amounts (rv_amounts (fst sample_started)) [] (snd sample_started) = (totals, c1)"
    by (cases "receive_amounts (rv_amounts (fst sample_started)) [] (snd sample_started)")
  have c1: "cn_closed c1 = True" "cn_queuedFrames c1 = []" "cn_receiptNonce c1 = None"
    using r by (auto simp: sample_started_def bumpIdle_def sample_defs map_object_def)
  have "stream_frames c1 = ([], c1)" "receipt_frames null_lib totals c1 = Inr []"
    by (simp_all add: stream_frames_def c1 receipt_frames_def)
  then show ?thesis
    using c1(2) by (simp add: reply_packet_def r sample_fulfill_def) (simp add: sample_started_def sample_request_packet_def)
qed

lemma sample_fits: "fits sample_sender sample_request_packet" "fits (snd sample_started) sample_fulfill"
proof -
  have "cn_enablePadding (snd sample_started) = False" by (simp add: sample_started_def bumpIdle_def sample_defs)
  moreover have "length (packet_bytes sample_request_packet) < 100" by code_simp
  moreover have "length (packet_bytes sample_fulfill) < 100"
    by (simp add: packet_bytes_def sample_fulfill_def frame_bytes_def contents_bytes_def var_uint_def var_octet_def length_prefix_length
        uint_size.simps)
  moreover have "packet_ok sample_request_packet" "packet_ok sample_fulfill"
    by (simp_all add: packet_ok_def sample_request_packet_def sample_fulfill_def frame_ok_def)
  ultimately show "fits sample_sender sample_request_packet" "fits (snd sample_started) sample_fulfill"
    by (simp_all add: fits_def sample_sender_config)
qed

theorem packet_exchange_witness:
  "\<exists>(ful :: IlpFulfill) answer r3. handlePrepare_commit null_lib (replicate 12 0) (fst sample_started) (snd sample_started) = (Inr ful, r3)
     \<and> serializeIlpFulfill ful = Inr answer
     \<and> handle_response null_lib 0 sample_request_packet 100 (replicate 32 0) answer sample_sender = (Inr (Some sample_fulfill), bumpIdle 0 sample_sender)
     \<and> incoming_amount sample_incoming = 95"
proof -
  obtain bs sent where s: "packet_prepare null_lib (replicate 12 0) (\<lambda>_. 1434412800123) sample_request_packet 100 sample_sender
       = Inr (replicate 32 0, replicate 32 0, bs)" "deserializeIlpPrepare bs = Inr sent" "carries sent sample_incoming"
    using sample_sent by blast
  obtain ful r3 where c: "handlePrepare_commit null_lib (replicate 12 0) (fst sample_started) (snd sample_started) = (Inr ful, r3)"
    using sample_commit by blast
  have p: "paired sample_sender sample_receiver"
    by (simp add: paired_def sample_pskKey sample_sender_fields sample_sender_config)
      (simp add: sample_defs generateFulfillmentKey_def null_lib_def)
  have start: "handlePrepare_start null_lib [] 0 sample_incoming sample_receiver = Inr (fst sample_started, snd sample_started)"
    by (simp add: sample_start)
  have am: "incoming_amount sample_incoming = 95" by (simp add: incoming_amount_def sample_incoming_def long_fromDecimal_def)
  have iv: "length (replicate 12 0 :: buffer) = 12" and t: "(1434412800123 :: date) \<noteq> 0" by simp_all
  from packet_exchange [OF null_lib_ok(1,2) iv iv p s(1) sample_fits(1) sample_sender_config(2) sample_destination t s(2,3) start refl c
      sample_fulfill_packet sample_fits(2) refl, of 0]
  show ?thesis using c am by blast
qed

end
