(* ===== verification/Peer_Protocol.thy ===== *)
theory Peer_Protocol
  imports Base64 Ilp_Packet
begin

text \<open>
  What the two peer protocols, \<^verbatim>\<open>ilp-protocol-ildcp\<close> and \<^verbatim>\<open>ilp-protocol-ccp\<close>, have in common: the
  fixed condition and fulfillment, the duration of a request and the three tests a receiver makes.
  The locale \<open>peer_request\<close> is the contract of a request with a payload: what is constructed is
  read again, in canonical form, while it has not expired. It is interpreted for both CCP requests.
\<close>

definition PEER_PROTOCOL_FULFILLMENT :: buffer where
  "PEER_PROTOCOL_FULFILLMENT = replicate 32 0"

definition PEER_PROTOCOL_CONDITION :: buffer where
  "PEER_PROTOCOL_CONDITION = base64_decode (js ''Zmh6rfhivXdsj8GLjp+OIAiXFIVu4jOzkCpZHQ1fKSU='')"

definition PEER_PROTOCOL_EXPIRY_DURATION :: int where
  "PEER_PROTOCOL_EXPIRY_DURATION = 60000"

definition peer_prepare :: "jsstring \<Rightarrow> date \<Rightarrow> buffer \<Rightarrow> IlpPrepare" where
  "peer_prepare dest expires d =
     \<lparr>prep_amount = js ''0'', executionCondition = PEER_PROTOCOL_CONDITION, expiresAt = expires,
      destination = dest, prep_data = d\<rparr>"

definition check_peer_request ::
  "string \<Rightarrow> string \<Rightarrow> jsstring \<Rightarrow> date \<Rightarrow> IlpPrepare \<Rightarrow> IlpPrepare result" where
  "check_peer_request other expired dest now packet =
     (if destination packet \<noteq> dest then Inl (TypeError other)
      else if executionCondition packet \<noteq> PEER_PROTOCOL_CONDITION
      then Inl (Error ''packet does not contain correct condition for a peer protocol request.'')
      else if now > expiresAt packet then Inl (Error expired)
      else Inr packet)"

lemma peer_condition_length: "length PEER_PROTOCOL_CONDITION = 32"
  by code_simp

lemma peer_prepare_fields [simp]:
  "destination (peer_prepare dest e d) = dest" "expiresAt (peer_prepare dest e d) = e"
  "prep_data (peer_prepare dest e d) = d"
  "executionCondition (peer_prepare dest e d) = PEER_PROTOCOL_CONDITION"
  by (simp_all add: peer_prepare_def)

lemma check_peer_prepare [simp]:
  "check_peer_request other expired dest now (peer_prepare dest e d) =
     (if now > e then Inl (Error expired) else Inr (peer_prepare dest e d))"
  by (simp add: check_peer_request_def)

lemma peer_prepare_encodable:
  assumes "isValidIlpAddress dest" "four_digit_date e" "e \<noteq> 0" "length d < 2 ^ 47"
  shows "encodable_prepare (peer_prepare dest e d)"
proof -
  have "js ''0'' = dec_of_nat 0" by (simp add: js_def dec_of_nat.simps digit_def)
  then have "isUInt64 (js ''0'')" unfolding isUInt64_iff by (intro exI [of _ 0]) simp
  with assms show ?thesis
    by (simp add: encodable_prepare_def isPrepare_def peer_prepare_def peer_condition_length)
qed

lemma peer_request_delivered:
  assumes "isValidIlpAddress dest" "four_digit_date e" "e \<noteq> 0" "length d < 2 ^ 47"
  shows "\<exists>bs. serializeIlpPrepare (peer_prepare dest e d) = Inr bs
    \<and> deserializeIlpPrepare bs = Inr (peer_prepare dest e d)"
  using prepare_packet_roundtrip [OF peer_prepare_encodable [OF assms], of "[]"] by auto

lemma peer_fulfillment_encodable:
  "length d < 2 ^ 47 \<Longrightarrow> encodable_fulfill \<lparr>fulfillment = PEER_PROTOCOL_FULFILLMENT, fulfill_data = d\<rparr>"
  by (simp add: encodable_fulfill_def isFulfill_def PEER_PROTOCOL_FULFILLMENT_def)

locale peer_request =
  fixes dest :: jsstring
    and expired :: string
    and construct :: "date \<Rightarrow> 'a \<Rightarrow> IlpPrepare result"
    and unpack :: "date \<Rightarrow> IlpPrepare \<Rightarrow> 'a result"
    and ok :: "'a \<Rightarrow> bool"
    and canonical :: "'a \<Rightarrow> 'a"
  assumes valid_dest: "isValidIlpAddress dest"
    and payload_law: "ok x \<Longrightarrow> \<exists>d. length d < 2 ^ 47
      \<and> construct now x = Inr (peer_prepare dest (now + PEER_PROTOCOL_EXPIRY_DURATION) d)
      \<and> (\<forall>now' e. unpack now' (peer_prepare dest e d) =
           (if now' > e then Inl (Error expired) else Inr (canonical x)))"
begin

lemma delivered:
  assumes "ok x" "four_digit_date (now + PEER_PROTOCOL_EXPIRY_DURATION)"
    "now + PEER_PROTOCOL_EXPIRY_DURATION \<noteq> 0"
  shows "\<exists>bs. ebind (construct now x) serializeIlpPrepare = Inr bs
    \<and> (\<forall>now'. ebind (deserializeIlpPrepare bs) (unpack now') =
         (if now' > now + PEER_PROTOCOL_EXPIRY_DURATION then Inl (Error expired) else Inr (canonical x)))"
proof -
  obtain d where d: "length d < 2 ^ 47"
    "construct now x = Inr (peer_prepare dest (now + PEER_PROTOCOL_EXPIRY_DURATION) d)"
    "\<And>now' e. unpack now' (peer_prepare dest e d) = (if now' > e then Inl (Error expired) else Inr (canonical x))"
    using payload_law [OF assms(1)] by blast
  then show ?thesis using peer_request_delivered [OF valid_dest assms(2,3) d(1)] by auto
qed

end

end
