(* ===== verification/Ildcp.thy ===== *)
theory Ildcp
  imports Peer_Protocol
begin

text \<open>
  \<^verbatim>\<open>ilp-protocol-ildcp/src/index.ts\<close>: a client asks its parent connector for its address and
  asset (\<open>fetch\<close>), the connector answers (\<open>serve\<close>).

  The clock, the transport \<open>sendData\<close>, the \<open>handler\<close> of the server and the texts of caught
  exceptions (\<open>err.message\<close>) are arguments. Logging is left out.
\<close>

definition ILDCP_DESTINATION :: jsstring where
  "ILDCP_DESTINATION = js ''peer.config''"

record IldcpRequest =
  ildcp_expiresAt :: "date option"
  ildcp_data :: "buffer option"

record IldcpResponse =
  clientAddress :: jsstring
  assetScale :: jsnum
  assetCode :: jsstring

definition no_request :: IldcpRequest where
  "no_request = \<lparr>ildcp_expiresAt = None, ildcp_data = None\<rparr>"

definition deserializeIldcpRequest :: "date \<Rightarrow> buffer \<Rightarrow> IldcpRequest result" where
  "deserializeIldcpRequest now request =
     ebind (deserializeIlpPrepare request) (\<lambda>ilp.
     ebind (check_peer_request ''packet is not an IL-DCP request.'' ''IL-DCP request packet is expired.''
              ILDCP_DESTINATION now ilp) (\<lambda>ilp.
       Inr \<lparr>ildcp_expiresAt = Some (expiresAt ilp), ildcp_data = Some (prep_data ilp)\<rparr>))"

definition serializeIldcpRequest :: "date \<Rightarrow> IldcpRequest \<Rightarrow> buffer result" where
  "serializeIldcpRequest now request =
     serializeIlpPrepare (peer_prepare ILDCP_DESTINATION
       (case ildcp_expiresAt request of Some e \<Rightarrow> e | None \<Rightarrow> now + PEER_PROTOCOL_EXPIRY_DURATION)
       (case ildcp_data request of Some d \<Rightarrow> d | None \<Rightarrow> []))"

definition read_response :: "IldcpResponse rd" where
  "read_response =
     rbind readVarOctetString (\<lambda>address.
     if \<not> isValidIlpAddress (ascii_decode address) then rthrow (Error ''Invalid ILP address'')
     else rbind readUInt8Number (\<lambda>scale.
          rbind readVarOctetString (\<lambda>code.
            rret \<lparr>clientAddress = ascii_decode address, assetScale = Num (of_nat scale),
                  assetCode = utf8_decode code\<rparr>)))"

definition deserializeIldcpResponse :: "buffer \<Rightarrow> IldcpResponse result" where
  "deserializeIldcpResponse response =
     ebind (deserializeIlpFulfill response) (\<lambda>f.
       if PEER_PROTOCOL_FULFILLMENT \<noteq> fulfillment f
       then Inl (Error ''IL-DCP response does not contain the expected fulfillment.'')
       else run_reader read_response (fulfill_data f))"

definition writeIldcpResponse :: "'w writer_ops \<Rightarrow> buffer \<Rightarrow> jsnum \<Rightarrow> buffer \<Rightarrow> 'w \<Rightarrow> 'w result" where
  "writeIldcpResponse ops address scale code w =
     ebind (op_writeVarOctetString ops address w) (\<lambda>w.
     ebind (op_writeUInt ops (NumV scale) 1 w)
       (op_writeVarOctetString ops code))"

definition serializeIldcpResponse :: "IldcpResponse \<Rightarrow> buffer result" where
  "serializeIldcpResponse response =
     (let address = ascii_encode (clientAddress response);
          code = utf8_encode (assetCode response)
      in ebind (predict (writeIldcpResponse Predictor address (assetScale response) code)) (\<lambda>size.
         ebind (written (writeIldcpResponse Writer address (assetScale response) code)
                  (new_writer_capacity (nat size))) (\<lambda>d.
           serializeIlpFulfill \<lparr>fulfillment = PEER_PROTOCOL_FULFILLMENT, fulfill_data = d\<rparr>)))"

definition fetch :: "(buffer \<Rightarrow> buffer result) \<Rightarrow> date \<Rightarrow> IldcpRequest option \<Rightarrow> IldcpResponse result" where
  "fetch sendData now request =
     ebind (serializeIldcpRequest now (case request of Some r \<Rightarrow> r | None \<Rightarrow> no_request)) (\<lambda>bs.
     ebind (sendData bs) (\<lambda>data.
       if first_byte data = Some (type_byte Reject)
       then ebind (deserializeIlpReject data) (\<lambda>r. Inl (Error ''IL-DCP failed: ''))
       else if first_byte data \<noteq> Some (type_byte Fulfill)
       then Inl (Error ''IL-DCP error, unable to retrieve client configuration.'')
       else deserializeIldcpResponse data))"

definition serve ::
  "(js_error \<Rightarrow> jsstring) \<Rightarrow> (IldcpRequest \<Rightarrow> IldcpResponse result) \<Rightarrow> jsstring \<Rightarrow> date \<Rightarrow> buffer \<Rightarrow> buffer result" where
  "serve text handler serverAddress now requestPacket =
     (case ebind (deserializeIldcpRequest now requestPacket) (\<lambda>_.
           ebind (handler no_request) serializeIldcpResponse) of
        Inr reply \<Rightarrow> Inr reply
      | Inl err \<Rightarrow> serializeIlpReject
          \<lparr>rej_code = js ''F00'', triggeredBy = serverAddress,
           rej_message = (if text err = [] then js ''unexpected error.'' else text err),
           rej_data = []\<rparr>)"

definition ildcp_isValidAssetScale :: "jsnum \<Rightarrow> bool" where
  "ildcp_isValidAssetScale n =
     (case n of Num r \<Rightarrow> 0 \<le> r \<and> r \<le> 255 \<and> of_int \<lfloor>r\<rfloor> = r | _ \<Rightarrow> False)"

section \<open>Responses\<close>

text \<open>The responses that have a faithful encoding.\<close>

definition response_ok :: "IldcpResponse \<Rightarrow> bool" where
  "response_ok i \<longleftrightarrow> isValidIlpAddress (clientAddress i) \<and> ildcp_isValidAssetScale (assetScale i)
     \<and> well_formed (assetCode i) \<and> length (utf8_encode (assetCode i)) < 2 ^ 40"

lemma valid_scale: "ildcp_isValidAssetScale s \<longleftrightarrow> (\<exists>n < 256. s = Num (of_nat n))"
proof (cases s)
  case (Num r)
  have "\<exists>n < 256. r = of_nat n" if "0 \<le> r" "r \<le> 255" "of_int \<lfloor>r\<rfloor> = r"
  proof (intro exI conjI)
    show "nat \<lfloor>r\<rfloor> < 256" using that by linarith
    show "r = of_nat (nat \<lfloor>r\<rfloor>)" using that by (metis of_nat_nat zero_le_floor)
  qed
  moreover have "of_nat n \<le> (255 :: rat)" if "n < 256" for n
    using that of_nat_le_iff [of n 255, where ?'a = rat] by simp
  moreover have "of_int \<lfloor>of_nat n :: rat\<rfloor> = (of_nat n :: rat)" for n by (simp only: floor_of_nat of_int_of_nat_eq)
  ultimately show ?thesis using Num unfolding ildcp_isValidAssetScale_def
    by (auto simp del: of_int_floor_cancel)
qed (auto simp: ildcp_isValidAssetScale_def)

context writer_interface
begin

lemma emits_response:
  assumes "length address < 2 ^ 48" "n < 256" "length code < 2 ^ 48"
  shows "emits (writeIldcpResponse ops address (Num (of_nat n)) code)
    (var_octet address @ [of_nat n] @ var_octet code)"
proof -
  have "uint_value (NumV (Num (of_nat n))) = Some n"
    using assms(2) by (simp add: MAX_SAFE_INTEGER_def)
  then show ?thesis unfolding writeIldcpResponse_def
    by (intro emits_seq emits_UInt8 emits_VarOctetString assms)
qed

end

lemma response_roundtrip:
  assumes "response_ok i"
  shows "\<exists>bs. serializeIldcpResponse i = Inr bs \<and> first_byte bs = Some 13
    \<and> deserializeIldcpResponse bs = Inr i"
proof -
  let ?a = "ascii_encode (clientAddress i)" and ?c = "utf8_encode (assetCode i)"
  obtain n where n: "n < 256" "assetScale i = Num (of_nat n)"
    using assms valid_scale by (auto simp: response_ok_def)
  let ?d = "var_octet ?a @ [of_nat n] @ var_octet ?c"
  have len: "length ?a < 2 ^ 48" "length ?c < 2 ^ 48" "length (clientAddress i) \<le> 1023"
    using assms valid_address_length [of "clientAddress i"] by (auto simp: response_ok_def)
  have d: "length ?d < 2 ^ 47"
    using assms len var_octet_length_le [OF len(1)] var_octet_length_le [OF len(2)] by (simp add: response_ok_def)
  obtain bs where bs: "serializeIlpFulfill \<lparr>fulfillment = PEER_PROTOCOL_FULFILLMENT, fulfill_data = ?d\<rparr> = Inr bs"
      "first_byte bs = Some 13"
      "deserializeIlpFulfill bs = Inr \<lparr>fulfillment = PEER_PROTOCOL_FULFILLMENT, fulfill_data = ?d\<rparr>"
    using fulfill_packet_roundtrip [OF peer_fulfillment_encodable [OF d], of "[]"] by auto
  have "predict (writeIldcpResponse Predictor ?a (assetScale i) ?c) = Inr (int (length ?d))"
    "written (writeIldcpResponse Writer ?a (assetScale i) ?c) (new_writer_capacity (length ?d)) = Inr ?d"
    unfolding n(2) by (intro predict_emits written_emits_capacity pr.emits_response wr.emits_response len n(1))+
  then have ser: "serializeIldcpResponse i = Inr bs"
    using bs(1) by (simp add: serializeIldcpResponse_def Let_def del: length_append append.simps)
  have dec: "ascii_decode ?a = clientAddress i" "utf8_decode ?c = assetCode i" "isValidIlpAddress (clientAddress i)"
    using assms valid_address_ascii by (auto simp: response_ok_def ascii_decode_encode utf8_decode_encode)
  have "reads (rbind readUInt8Number (\<lambda>scale. rbind readVarOctetString (\<lambda>code.
      rret \<lparr>clientAddress = clientAddress i, assetScale = Num (of_nat scale), assetCode = utf8_decode code\<rparr>)))
      ([of_nat n] @ var_octet ?c) i"
    by (intro reads_bind [OF reads_readUInt8Number [OF n(1)]] reads_bind_last [OF reads_var_octet [OF len(2)]])
      (use n(2) dec in \<open>cases i; simp\<close>)
  then have "reads read_response ?d i" unfolding read_response_def
    by (intro reads_bind [OF reads_var_octet [OF len(1)]]) (simp add: dec)
  then have "run_reader read_response ?d = Inr i" using reads_run [of read_response ?d i "[]"] by simp
  then show ?thesis using bs ser by (simp add: deserializeIldcpResponse_def)
qed

section \<open>A whole exchange\<close>

lemma ildcp_destination_valid: "isValidIlpAddress ILDCP_DESTINATION"
  by (simp add: isValidIlpAddress_def ilp_address_regex_def ILP_ADDRESS_MAX_LENGTH_def js_def dot_def
      schemes_def segment_def address_char_def ILDCP_DESTINATION_def)

text \<open>When a request expires, and the data it carries: a minute after \<open>now\<close> and nothing, unless the client says otherwise.\<close>

definition request_expiry :: "date \<Rightarrow> IldcpRequest option \<Rightarrow> date" where
  "request_expiry now request =
     (case request of
        None \<Rightarrow> now + 60000
      | Some r \<Rightarrow> (case ildcp_expiresAt r of None \<Rightarrow> now + 60000 | Some e \<Rightarrow> e))"

definition request_payload :: "IldcpRequest option \<Rightarrow> buffer" where
  "request_payload request = (case Option.bind request ildcp_data of None \<Rightarrow> [] | Some d \<Rightarrow> d)"

text \<open>
  C39. A client that asks a server which handles the request before it expires obtains exactly
  the configuration the server's handler returned, whatever data the request carries. This covers the call without a request, and requests with or
  without an expiry: by default a request is good for a minute from \<open>now\<close>. The configuration has a valid ILP address, a
  scale from 0 to 255 and a code of less than \<open>2\<^sup>4\<^sup>0\<close> bytes without lone surrogates (\<open>response_ok\<close>), the expiry is in a year of four digits and not the
  epoch, and the data has less than \<open>2\<^sup>4\<^sup>7\<close> bytes.
\<close>

theorem ildcp_exchange:
  assumes "handler no_request = Inr info" and "response_ok info"
    and "four_digit_date (request_expiry now request)" and "request_expiry now request \<noteq> 0"
    and "length (request_payload request) < 2 ^ 47" and "now' \<le> request_expiry now request"
  shows "fetch (serve text handler serverAddress now') now request = Inr info"
proof -
  let ?p = "peer_prepare ILDCP_DESTINATION (request_expiry now request) (request_payload request)"
  obtain bs where bs: "serializeIlpPrepare ?p = Inr bs" "deserializeIlpPrepare bs = Inr ?p"
    using peer_request_delivered [OF ildcp_destination_valid assms(3-5)] by blast
  obtain rs where rs: "serializeIldcpResponse info = Inr rs" "first_byte rs = Some 13"
      "deserializeIldcpResponse rs = Inr info"
    using response_roundtrip [OF assms(2)] by blast
  have "serve text handler serverAddress now' bs = Inr rs"
    using bs(2) rs(1) assms(1,6) by (simp add: serve_def deserializeIldcpRequest_def)
  moreover have "serializeIldcpRequest now (case request of Some r \<Rightarrow> r | None \<Rightarrow> no_request) = Inr bs"
    using bs(1) unfolding serializeIldcpRequest_def request_expiry_def request_payload_def PEER_PROTOCOL_EXPIRY_DURATION_def
    by (cases request) (simp_all add: no_request_def)
  ultimately show ?thesis using rs by (simp add: fetch_def)
qed

definition sample_info :: IldcpResponse where
  "sample_info = \<lparr>clientAddress = js ''example.client'', assetScale = Num 9, assetCode = js ''XRP''\<rparr>"

lemma sample_info_ok: "response_ok sample_info"
proof -
  have "isValidIlpAddress (js ''example.client'')"
    by (simp add: isValidIlpAddress_def ilp_address_regex_def ILP_ADDRESS_MAX_LENGTH_def js_def dot_def
        schemes_def segment_def address_char_def)
  moreover have "well_formed (js ''XRP'')" "length (utf8_encode (js ''XRP'')) < 2 ^ 40"
    by (simp_all add: js_def is_high_def is_low_def utf8_encode_def utf8_bytes_def scalar_of_unit_def)
  ultimately show ?thesis by (simp add: response_ok_def sample_info_def ildcp_isValidAssetScale_def)
qed

text \<open>The plain call, answered ten seconds later.\<close>

theorem ildcp_exchange_witness:
  "fetch (serve (\<lambda>_. []) (\<lambda>_. Inr sample_info) (js ''example.server'') 1434412800000) 1434412790000 None = Inr sample_info"
proof (rule ildcp_exchange)
  show "four_digit_date (request_expiry 1434412790000 None)"
    by (simp add: four_digit_date_def getUTCFullYear_def YearFromDay_def msPerDay_def DayFromYear_def
        year_search.simps request_expiry_def)
qed (simp_all add: sample_info_ok request_expiry_def request_payload_def)

text \<open>
  \<open>serve\<close> always answers: whatever bytes arrive and whatever the handler does, the reply is an ILP
  packet, and it is a Fulfill only when a request that names the IL-DCP destination, has the condition of
  peer protocols and has not expired was parsed and the handler returned; otherwise it is
  an F00 Reject.
\<close>

theorem serve_answers:
  assumes "isValidIlpAddress serverAddress"
    and "\<And>e. well_formed (text e) \<and> length (utf8_encode (text e)) < 2 ^ 46"
    and "\<And>i. handler no_request = Inr i \<Longrightarrow> response_ok i"
  shows "\<exists>reply rs. serve text handler serverAddress now bs = Inr rs \<and> deserializeIlpReply rs = Inr reply
    \<and> (case reply of
         FulfillReply f \<Rightarrow> \<exists>p i. deserializeIlpPrepare bs = Inr p \<and> destination p = ILDCP_DESTINATION
           \<and> executionCondition p = PEER_PROTOCOL_CONDITION \<and> now \<le> expiresAt p
           \<and> handler no_request = Inr i \<and> deserializeIldcpResponse rs = Inr i
       | RejectReply r \<Rightarrow> rej_code r = js ''F00'' \<and> triggeredBy r = serverAddress)"
proof (cases "ebind (deserializeIldcpRequest now bs) (\<lambda>_. ebind (handler no_request) serializeIldcpResponse)")
  case (Inr rs)
  then obtain q p i where h: "deserializeIldcpRequest now bs = Inr q" "handler no_request = Inr i"
      "serializeIldcpResponse i = Inr rs" "deserializeIlpPrepare bs = Inr p"
    by (auto simp: deserializeIldcpRequest_def)
  then have "first_byte rs = Some 13" "deserializeIldcpResponse rs = Inr i"
    using response_roundtrip [OF assms(3)] by fastforce+
  moreover from this obtain f where "deserializeIlpFulfill rs = Inr f"
    by (auto simp: deserializeIldcpResponse_def)
  moreover have "destination p = ILDCP_DESTINATION" "executionCondition p = PEER_PROTOCOL_CONDITION" "now \<le> expiresAt p"
    using h by (auto simp: deserializeIldcpRequest_def check_peer_request_def split: if_splits)
  ultimately show ?thesis using h Inr
    by (intro exI [of _ "FulfillReply f"] exI [of _ rs]) (simp add: serve_def deserializeIlpReply_def)
next
  case (Inl e)
  let ?m = "if text e = [] then js ''unexpected error.'' else text e"
  let ?r = "\<lparr>rej_code = js ''F00'', triggeredBy = serverAddress, rej_message = ?m, rej_data = []\<rparr>"
  have "well_formed (js ''unexpected error.'')" "length (utf8_encode (js ''unexpected error.'')) < 2 ^ 46"
    by (simp_all add: js_def is_high_def is_low_def utf8_encode_def utf8_bytes_def scalar_of_unit_def)
  then have "well_formed ?m \<and> length (utf8_encode ?m) < 2 ^ 46" using assms(2) [of e] by (simp only: if_split) simp
  moreover have "length (js ''F00'') = 3" "is_ascii (js ''F00'')" by (simp_all add: js_def is_ascii_def)
  ultimately have "encodable_reject ?r"
    using assms(1) by (simp only: encodable_reject_def isReject_def IlpReject.select_convs) simp
  then obtain rs where "serializeIlpReject ?r = Inr rs" "first_byte rs = Some 14" "deserializeIlpReject rs = Inr ?r"
    using reject_packet_roundtrip [of ?r "[]"] by auto
  then show ?thesis using Inl
    by (intro exI [of _ "RejectReply ?r"] exI [of _ rs]) (simp add: serve_def deserializeIlpReply_def)
qed

theorem serve_answers_witness:
  "\<exists>reply rs. serve (\<lambda>_. []) (\<lambda>_. Inr sample_info) (js ''example.server'') 0 [1, 2] = Inr rs
    \<and> deserializeIlpReply rs = Inr reply
    \<and> (case reply of
         FulfillReply f \<Rightarrow> \<exists>p i. deserializeIlpPrepare [1, 2] = Inr p \<and> destination p = ILDCP_DESTINATION
           \<and> executionCondition p = PEER_PROTOCOL_CONDITION \<and> 0 \<le> expiresAt p
           \<and> Inr sample_info = (Inr i :: IldcpResponse result) \<and> deserializeIldcpResponse rs = Inr i
       | RejectReply r \<Rightarrow> rej_code r = js ''F00'' \<and> triggeredBy r = js ''example.server'')"
proof (rule serve_answers [where handler = "\<lambda>_. Inr sample_info"])
  show "isValidIlpAddress (js ''example.server'')"
    by (simp add: isValidIlpAddress_def ilp_address_regex_def ILP_ADDRESS_MAX_LENGTH_def js_def dot_def
        schemes_def segment_def address_char_def)
qed (simp_all add: sample_info_ok utf8_encode_def)

end
