(* ===== verification/Ccp.thy ===== *)
theory Ccp
  imports Peer_Protocol
begin

text \<open>
  \<^verbatim>\<open>ilp-protocol-ccp/src/index.ts\<close> and \<^verbatim>\<open>ilp-protocol-ccp/src/uuid.ts\<close>: the route control and route
  update requests connectors exchange, carried by ILP Prepare packets of the peer protocol.

  Numbers of the interfaces are integers (the writer throws on negative ones); the type
  restriction of \<open>mode\<close> to 0 and 1 is not checked by the code and not by the model. The clock is an
  argument. Both requests are interpretations of the locale \<open>peer_request\<close>.
\<close>

unbundle bit_operations_syntax

definition CCP_CONTROL_DESTINATION :: jsstring where
  "CCP_CONTROL_DESTINATION = js ''peer.route.control''"

definition CCP_UPDATE_DESTINATION :: jsstring where
  "CCP_UPDATE_DESTINATION = js ''peer.route.update''"

record CcpRouteControlRequest =
  mode :: int
  lastKnownRoutingTableId :: jsstring
  lastKnownEpoch :: int
  features :: "jsstring list"

datatype prop_value = BufferValue buffer | Utf8Value jsstring

record CcpRouteProp =
  isOptional :: bool
  isTransitive :: bool
  isPartial :: bool
  prop_id :: int
  prop_value :: prop_value

record CcpRoute =
  route_prefix :: jsstring
  path :: "jsstring list"
  auth :: buffer
  props :: "CcpRouteProp list"

record CcpRouteUpdateRequest =
  routingTableId :: jsstring
  currentEpochIndex :: int
  fromEpochIndex :: int
  toEpochIndex :: int
  holdDownTime :: int
  speaker :: jsstring
  newRoutes :: "CcpRoute list"
  withdrawnRoutes :: "jsstring list"

section \<open>UUIDs\<close>

definition hyphen :: code_unit where "hyphen = 45"

text \<open>\<open>replace(/^(.{8})(.{4})(.{4})(.{4})(.{12})$/, '$1-$2-$3-$4-$5')\<close>: only 32 characters match.\<close>

definition format_uuid :: "jsstring \<Rightarrow> jsstring" where
  "format_uuid s =
     (if length s = 32
      then take 8 s @ hyphen # slice 8 4 s @ hyphen # slice 12 4 s @ hyphen # slice 16 4 s @ hyphen # drop 20 s
      else s)"

definition readUuid :: "jsstring rd" where
  "readUuid = rbind (read 16) (\<lambda>bs. rret (format_uuid (hex_encode bs)))"

definition writeUuid :: "jsstring \<Rightarrow> writer \<Rightarrow> writer result" where
  "writeUuid uuid w =
     (let uuidBuffer = hex_decode (filter (\<lambda>u. u \<noteq> hyphen) uuid)
      in if length uuidBuffer \<noteq> 16 then Inl (Error ''tried to write invalid UUID. value='')
         else write_bytes uuidBuffer w)"

section \<open>Route control requests\<close>

definition read_control :: "CcpRouteControlRequest rd" where
  "read_control =
     rbind readUInt8Number (\<lambda>m.
     rbind readUuid (\<lambda>table.
     rbind readUInt32Number (\<lambda>epoch.
     rbind readVarUIntNumber (\<lambda>featureCount.
     rbind (rrepeat featureCount (rbind readVarOctetString (\<lambda>f. rret (utf8_decode f)))) (\<lambda>fs.
       rret \<lparr>mode = int m, lastKnownRoutingTableId = table, lastKnownEpoch = int epoch, features = fs\<rparr>)))))"

definition deserializeCcpRouteControlRequestPayload :: "buffer \<Rightarrow> CcpRouteControlRequest result" where
  "deserializeCcpRouteControlRequestPayload data = run_reader read_control data"

definition extractCcpRouteControlRequest :: "date \<Rightarrow> IlpPrepare \<Rightarrow> CcpRouteControlRequest result" where
  "extractCcpRouteControlRequest now packet =
     ebind (check_peer_request ''packet is not a CCP route control request.''
              ''CCP route control request packet is expired.'' CCP_CONTROL_DESTINATION now packet)
       (\<lambda>packet. deserializeCcpRouteControlRequestPayload (prep_data packet))"

definition deserializeCcpRouteControlRequest :: "date \<Rightarrow> buffer \<Rightarrow> CcpRouteControlRequest result" where
  "deserializeCcpRouteControlRequest now request =
     ebind (deserializeIlpPrepare request) (extractCcpRouteControlRequest now)"

definition write_feature :: "jsstring \<Rightarrow> writer \<Rightarrow> writer result" where
  "write_feature f = writeVarOctetString (utf8_encode f)"

definition write_control :: "CcpRouteControlRequest \<Rightarrow> writer \<Rightarrow> writer result" where
  "write_control request w =
     ebind (writeUInt (num (mode request)) 1 w) (\<lambda>w.
     ebind (writeUuid (lastKnownRoutingTableId request) w) (\<lambda>w.
     ebind (writeUInt (num (lastKnownEpoch request)) 4 w) (\<lambda>w.
     ebind (writeVarUInt (num (int (length (features request)))) w)
       (efold write_feature (features request)))))"

definition serializeCcpRouteControlRequestPayload :: "CcpRouteControlRequest \<Rightarrow> buffer result" where
  "serializeCcpRouteControlRequestPayload request = written (write_control request) new_writer"

definition constructCcpRouteControlRequest :: "date \<Rightarrow> CcpRouteControlRequest \<Rightarrow> IlpPrepare result" where
  "constructCcpRouteControlRequest now request =
     ebind (serializeCcpRouteControlRequestPayload request) (\<lambda>data.
       Inr (peer_prepare CCP_CONTROL_DESTINATION (now + PEER_PROTOCOL_EXPIRY_DURATION) data))"

definition serializeCcpRouteControlRequest :: "date \<Rightarrow> CcpRouteControlRequest \<Rightarrow> buffer result" where
  "serializeCcpRouteControlRequest now request =
     ebind (constructCcpRouteControlRequest now request) serializeIlpPrepare"

section \<open>Route update requests\<close>

definition read_prop :: "CcpRouteProp rd" where
  "read_prop =
     rbind readUInt8Number (\<lambda>meta.
     rbind readUInt16Number (\<lambda>i.
     rbind readVarOctetString (\<lambda>value.
       rret \<lparr>isOptional = meta AND 0x80 \<noteq> 0, isTransitive = meta AND 0x40 \<noteq> 0,
             isPartial = meta AND 0x20 \<noteq> 0, prop_id = int i,
             prop_value = (if meta AND 0x10 \<noteq> 0 then Utf8Value (utf8_decode value) else BufferValue value)\<rparr>)))"

definition read_ascii :: "jsstring rd" where
  "read_ascii = rbind readVarOctetString (\<lambda>s. rret (ascii_decode s))"

definition read_route :: "CcpRoute rd" where
  "read_route =
     rbind read_ascii (\<lambda>pre.
     rbind readVarUIntNumber (\<lambda>pathLength.
     rbind (rrepeat pathLength read_ascii) (\<lambda>hops.
     rbind (read 32) (\<lambda>a.
     rbind readVarUIntNumber (\<lambda>propCount.
     rbind (rrepeat propCount read_prop) (\<lambda>ps.
       rret \<lparr>route_prefix = pre, path = hops, auth = a, props = ps\<rparr>))))))"

definition read_update :: "CcpRouteUpdateRequest rd" where
  "read_update =
     rbind readUuid (\<lambda>table.
     rbind readUInt32Number (\<lambda>current.
     rbind readUInt32Number (\<lambda>start.
     rbind readUInt32Number (\<lambda>stop.
     rbind readUInt32Number (\<lambda>hold.
     rbind read_ascii (\<lambda>speak.
     rbind readVarUIntNumber (\<lambda>newRoutesCount.
     rbind (rrepeat newRoutesCount read_route) (\<lambda>new.
     rbind readVarUIntNumber (\<lambda>withdrawnRoutesCount.
     rbind (rrepeat withdrawnRoutesCount (rbind readVarOctetString (\<lambda>s. rret (utf8_decode s)))) (\<lambda>gone.
       rret \<lparr>routingTableId = table, currentEpochIndex = int current, fromEpochIndex = int start,
             toEpochIndex = int stop, holdDownTime = int hold, speaker = speak,
             newRoutes = new, withdrawnRoutes = gone\<rparr>))))))))))"

definition deserializeCcpRouteUpdateRequestPayload :: "buffer \<Rightarrow> CcpRouteUpdateRequest result" where
  "deserializeCcpRouteUpdateRequestPayload payload = run_reader read_update payload"

definition extractCcpRouteUpdateRequest :: "date \<Rightarrow> IlpPrepare \<Rightarrow> CcpRouteUpdateRequest result" where
  "extractCcpRouteUpdateRequest now packet =
     ebind (check_peer_request ''packet is not a CCP route update request.''
              ''CCP route update request packet is expired.'' CCP_UPDATE_DESTINATION now packet)
       (\<lambda>packet. deserializeCcpRouteUpdateRequestPayload (prep_data packet))"

definition deserializeCcpRouteUpdateRequest :: "date \<Rightarrow> buffer \<Rightarrow> CcpRouteUpdateRequest result" where
  "deserializeCcpRouteUpdateRequest now request =
     ebind (deserializeIlpPrepare request) (extractCcpRouteUpdateRequest now)"

text \<open>The transitive bit is always set for well-known (not optional) properties.\<close>

definition prop_meta :: "CcpRouteProp \<Rightarrow> nat" where
  "prop_meta p =
     (if isOptional p then 0x80 else 0)
     OR (if isOptional p
         then (if isTransitive p then 0x40 OR (if isPartial p then 0x20 else 0) else 0)
         else 0x40)
     OR (case prop_value p of Utf8Value _ \<Rightarrow> 0x10 | BufferValue _ \<Rightarrow> 0)"

definition prop_bytes :: "CcpRouteProp \<Rightarrow> buffer" where
  "prop_bytes p = (case prop_value p of Utf8Value s \<Rightarrow> utf8_encode s | BufferValue b \<Rightarrow> b)"

definition write_prop :: "CcpRouteProp \<Rightarrow> writer \<Rightarrow> writer result" where
  "write_prop p w =
     ebind (writeUInt (num (int (prop_meta p))) 1 w) (\<lambda>w.
     ebind (writeUInt (num (prop_id p)) 2 w)
       (writeVarOctetString (prop_bytes p)))"

definition write_ascii :: "jsstring \<Rightarrow> writer \<Rightarrow> writer result" where
  "write_ascii s = writeVarOctetString (ascii_encode s)"

definition write_route :: "CcpRoute \<Rightarrow> writer \<Rightarrow> writer result" where
  "write_route route w =
     ebind (write_ascii (route_prefix route) w) (\<lambda>w.
     ebind (writeVarUInt (num (int (length (path route)))) w) (\<lambda>w.
     ebind (efold write_ascii (path route) w) (\<lambda>w.
     if length (auth route) \<noteq> 32 then Inl (Error ''route auth must be 32 bytes. prefix='')
     else
       ebind (write_bytes (auth route) w) (\<lambda>w.
       ebind (writeVarUInt (num (int (length (props route)))) w)
         (efold write_prop (props route))))))"

definition write_update :: "CcpRouteUpdateRequest \<Rightarrow> writer \<Rightarrow> writer result" where
  "write_update request w =
     ebind (writeUuid (routingTableId request) w) (\<lambda>w.
     ebind (writeUInt (num (currentEpochIndex request)) 4 w) (\<lambda>w.
     ebind (writeUInt (num (fromEpochIndex request)) 4 w) (\<lambda>w.
     ebind (writeUInt (num (toEpochIndex request)) 4 w) (\<lambda>w.
     ebind (writeUInt (num (holdDownTime request)) 4 w) (\<lambda>w.
     ebind (write_ascii (speaker request) w) (\<lambda>w.
     ebind (writeVarUInt (num (int (length (newRoutes request)))) w) (\<lambda>w.
     ebind (efold write_route (newRoutes request) w) (\<lambda>w.
     ebind (writeVarUInt (num (int (length (withdrawnRoutes request)))) w)
       (efold write_ascii (withdrawnRoutes request))))))))))"

definition serializeCcpRouteUpdateRequestPayload :: "CcpRouteUpdateRequest \<Rightarrow> buffer result" where
  "serializeCcpRouteUpdateRequestPayload request = written (write_update request) new_writer"

definition constructCcpRouteUpdateRequest :: "date \<Rightarrow> CcpRouteUpdateRequest \<Rightarrow> IlpPrepare result" where
  "constructCcpRouteUpdateRequest now request =
     ebind (serializeCcpRouteUpdateRequestPayload request) (\<lambda>data.
       Inr (peer_prepare CCP_UPDATE_DESTINATION (now + PEER_PROTOCOL_EXPIRY_DURATION) data))"

definition serializeCcpRouteUpdateRequest :: "date \<Rightarrow> CcpRouteUpdateRequest \<Rightarrow> buffer result" where
  "serializeCcpRouteUpdateRequest now request =
     ebind (constructCcpRouteUpdateRequest now request) serializeIlpPrepare"

section \<open>Responses\<close>

definition deserializeCcpResponse :: "buffer \<Rightarrow> unit result" where
  "deserializeCcpResponse response =
     ebind (deserializeIlpFulfill response) (\<lambda>f.
       if PEER_PROTOCOL_FULFILLMENT \<noteq> fulfillment f
       then Inl (Error ''CCP response does not contain the expected fulfillment.'') else Inr ())"

definition constructCcpResponse :: IlpFulfill where
  "constructCcpResponse = \<lparr>fulfillment = PEER_PROTOCOL_FULFILLMENT, fulfill_data = []\<rparr>"

definition serializeCcpResponse :: "buffer result" where
  "serializeCcpResponse = serializeIlpFulfill constructCcpResponse"

lemma ccp_response_accepted: "\<exists>bs. serializeCcpResponse = Inr bs \<and> deserializeCcpResponse bs = Inr ()"
proof -
  obtain bs where "serializeIlpFulfill constructCcpResponse = Inr bs"
      "deserializeIlpFulfill bs = Inr constructCcpResponse"
    using fulfill_packet_roundtrip [OF peer_fulfillment_encodable [of "[]"], of "[]"]
    by (auto simp: constructCcpResponse_def)
  then show ?thesis by (simp add: serializeCcpResponse_def deserializeCcpResponse_def constructCcpResponse_def)
qed

section \<open>Faithful encodings\<close>

definition uuid_bytes :: "jsstring \<Rightarrow> buffer" where
  "uuid_bytes u = hex_decode (filter (\<lambda>c. c \<noteq> hyphen) u)"

definition uuid_ok :: "jsstring \<Rightarrow> bool" where
  "uuid_ok u \<longleftrightarrow> length (uuid_bytes u) = 16 \<and> format_uuid (hex_encode (uuid_bytes u)) = u"

definition u32_ok :: "int \<Rightarrow> bool" where
  "u32_ok n \<longleftrightarrow> 0 \<le> n \<and> n < 2 ^ 32"

definition ascii_ok :: "jsstring \<Rightarrow> bool" where
  "ascii_ok s \<longleftrightarrow> is_ascii s \<and> length s < 2 ^ 46"

definition feature_ok :: "jsstring \<Rightarrow> bool" where
  "feature_ok f \<longleftrightarrow> well_formed f \<and> length (utf8_encode f) < 2 ^ 46"

definition control_bytes :: "CcpRouteControlRequest \<Rightarrow> buffer" where
  "control_bytes r = [of_nat (nat (mode r))] @ uuid_bytes (lastKnownRoutingTableId r)
     @ nat_to_be 4 (nat (lastKnownEpoch r)) @ var_uint (length (features r))
     @ concat (map (\<lambda>f. var_octet (utf8_encode f)) (features r))"

definition control_ok :: "CcpRouteControlRequest \<Rightarrow> bool" where
  "control_ok r \<longleftrightarrow> 0 \<le> mode r \<and> mode r < 256 \<and> uuid_ok (lastKnownRoutingTableId r)
     \<and> u32_ok (lastKnownEpoch r) \<and> length (features r) < 2 ^ 46 \<and> list_all feature_ok (features r)
     \<and> length (control_bytes r) < 2 ^ 47"

definition prop_ok :: "CcpRouteProp \<Rightarrow> bool" where
  "prop_ok p \<longleftrightarrow> 0 \<le> prop_id p \<and> prop_id p < 2 ^ 16 \<and> length (prop_bytes p) < 2 ^ 46
     \<and> (case prop_value p of Utf8Value s \<Rightarrow> well_formed s | BufferValue b \<Rightarrow> True)"

definition canonical_prop :: "CcpRouteProp \<Rightarrow> CcpRouteProp" where
  "canonical_prop p = p\<lparr>isTransitive := \<not> isOptional p \<or> isTransitive p,
     isPartial := isOptional p \<and> isTransitive p \<and> isPartial p\<rparr>"

definition prop_encoding :: "CcpRouteProp \<Rightarrow> buffer" where
  "prop_encoding p = [of_nat (prop_meta p)] @ nat_to_be 2 (nat (prop_id p)) @ var_octet (prop_bytes p)"

definition ascii_encoding :: "jsstring \<Rightarrow> buffer" where
  "ascii_encoding s = var_octet (ascii_encode s)"

definition route_bytes :: "CcpRoute \<Rightarrow> buffer" where
  "route_bytes r = ascii_encoding (route_prefix r) @ var_uint (length (path r))
     @ concat (map ascii_encoding (path r)) @ auth r @ var_uint (length (props r))
     @ concat (map prop_encoding (props r))"

definition route_ok :: "CcpRoute \<Rightarrow> bool" where
  "route_ok r \<longleftrightarrow> ascii_ok (route_prefix r) \<and> length (path r) < 2 ^ 46 \<and> list_all ascii_ok (path r)
     \<and> length (auth r) = 32 \<and> length (props r) < 2 ^ 46 \<and> list_all prop_ok (props r)"

definition canonical_route :: "CcpRoute \<Rightarrow> CcpRoute" where
  "canonical_route r = r\<lparr>props := map canonical_prop (props r)\<rparr>"

definition update_bytes :: "CcpRouteUpdateRequest \<Rightarrow> buffer" where
  "update_bytes r = uuid_bytes (routingTableId r) @ nat_to_be 4 (nat (currentEpochIndex r))
     @ nat_to_be 4 (nat (fromEpochIndex r)) @ nat_to_be 4 (nat (toEpochIndex r))
     @ nat_to_be 4 (nat (holdDownTime r)) @ ascii_encoding (speaker r)
     @ var_uint (length (newRoutes r)) @ concat (map route_bytes (newRoutes r))
     @ var_uint (length (withdrawnRoutes r)) @ concat (map ascii_encoding (withdrawnRoutes r))"

definition update_ok :: "CcpRouteUpdateRequest \<Rightarrow> bool" where
  "update_ok r \<longleftrightarrow> uuid_ok (routingTableId r) \<and> u32_ok (currentEpochIndex r) \<and> u32_ok (fromEpochIndex r)
     \<and> u32_ok (toEpochIndex r) \<and> u32_ok (holdDownTime r) \<and> ascii_ok (speaker r)
     \<and> length (newRoutes r) < 2 ^ 46 \<and> list_all route_ok (newRoutes r)
     \<and> length (withdrawnRoutes r) < 2 ^ 46 \<and> list_all ascii_ok (withdrawnRoutes r)
     \<and> length (update_bytes r) < 2 ^ 47"

definition canonical_update :: "CcpRouteUpdateRequest \<Rightarrow> CcpRouteUpdateRequest" where
  "canonical_update r = r\<lparr>newRoutes := map canonical_route (newRoutes r)\<rparr>"

section \<open>UUID round trip\<close>

lemma filter_hyphen_hex: "filter (\<lambda>c. c \<noteq> hyphen) (hex_encode bs) = hex_encode bs"
proof (rule filter_True, rule ballI)
  fix u assume "u \<in> set (hex_encode bs)"
  then obtain n where "n < 16" "u = hex_char n" using hex_encode_alphabet by blast
  then have "unat u \<noteq> unat hyphen" by (simp add: unat_hex_char hyphen_def)
  then show "u \<noteq> hyphen" by auto
qed

lemma slice_take_drop: "take 8 s @ slice 8 4 s @ slice 12 4 s @ slice 16 4 s @ drop 20 s = s"
proof -
  have "take (n + 4) s = take n s @ slice n 4 s" for n by (simp add: take_add slice_def)
  from this [of 8] this [of 12] this [of 16] append_take_drop_id [of 20 s] show ?thesis by simp
qed

lemma format_uuid_bytes: "uuid_bytes (format_uuid (hex_encode bs)) = bs"
proof -
  have "filter (\<lambda>c. c \<noteq> hyphen) (format_uuid s) = filter (\<lambda>c. c \<noteq> hyphen) s" for s
  proof (cases "length s = 32")
    case True
    have "filter (\<lambda>c. c \<noteq> hyphen) (take 8 s @ slice 8 4 s @ slice 12 4 s @ slice 16 4 s @ drop 20 s)
        = filter (\<lambda>c. c \<noteq> hyphen) s" by (simp only: slice_take_drop)
    with True show ?thesis by (simp add: format_uuid_def)
  qed (simp add: format_uuid_def)
  then show ?thesis by (simp add: uuid_bytes_def filter_hyphen_hex hex_roundtrip)
qed

lemma emits_uuid: "uuid_ok u \<Longrightarrow> wr.emits (writeUuid u) (uuid_bytes u)"
proof -
  assume "uuid_ok u"
  then have "writeUuid u = write_bytes (uuid_bytes u)"
    by (simp add: fun_eq_iff uuid_ok_def writeUuid_def uuid_bytes_def)
  then show ?thesis using emits_writer(2) by simp
qed

lemma reads_uuid: "uuid_ok u \<Longrightarrow> reads readUuid (uuid_bytes u) u"
  unfolding readUuid_def using reads_read [of "uuid_bytes u"]
  by (intro reads_bind_last [where v = "uuid_bytes u"]) (simp_all add: uuid_ok_def)

text \<open>Whatever identifier is read can be written again.\<close>

lemma readUuid_ok: "readUuid r = Inr (u, r') \<Longrightarrow> uuid_ok u"
  by (auto simp: readUuid_def uuid_ok_def format_uuid_bytes dest!: read_length)

section \<open>Round trips of the parts\<close>

lemma emits_u32: "u32_ok n \<Longrightarrow> wr.emits (writeUInt (num n) 4) (nat_to_be 4 (nat n))"
  using emits_writer(3) [of "num n" "nat n" 4] by (simp add: u32_ok_def MAX_SAFE_INTEGER_def nat_less_iff)

lemma reads_u32: "u32_ok n \<Longrightarrow> reads readUInt32Number (nat_to_be 4 (nat n)) (nat n)"
  using reads_UIntNumber_be [of 4 "nat n"] by (simp add: u32_ok_def readUInt32Number_def nat_less_iff)

lemma emits_count: "n < 2 ^ 46 \<Longrightarrow> wr.emits (writeVarUInt (num (int n))) (var_uint n)"
  by (intro emits_writer(4)) (simp add: MAX_SAFE_INTEGER_def)

lemma reads_count: "n < 2 ^ 46 \<Longrightarrow> reads readVarUIntNumber (var_uint n) n"
  by (intro reads_var_uint_number) simp

lemma emits_ascii: "ascii_ok s \<Longrightarrow> wr.emits (write_ascii s) (ascii_encoding s)"
  unfolding write_ascii_def ascii_encoding_def by (intro emits_writer(5)) (simp add: ascii_ok_def)

lemma reads_ascii: "ascii_ok s \<Longrightarrow> reads read_ascii (ascii_encoding s) s"
  unfolding read_ascii_def ascii_encoding_def
  by (intro reads_bind_last [OF reads_var_octet]) (simp_all add: ascii_ok_def ascii_decode_encode)

lemma reads_withdrawn:
  "ascii_ok s \<Longrightarrow> reads (rbind readVarOctetString (\<lambda>s. rret (utf8_decode s))) (ascii_encoding s) s"
  unfolding ascii_encoding_def
  by (intro reads_bind_last [OF reads_var_octet]) (simp_all add: ascii_ok_def utf8_decode_ascii)

lemma prop_meta_bits:
  "prop_meta p < 256" "prop_meta p AND 0x80 \<noteq> 0 \<longleftrightarrow> isOptional p"
  "prop_meta p AND 0x40 \<noteq> 0 \<longleftrightarrow> isTransitive (canonical_prop p)"
  "prop_meta p AND 0x20 \<noteq> 0 \<longleftrightarrow> isPartial (canonical_prop p)"
  "prop_meta p AND 0x10 \<noteq> 0 \<longleftrightarrow> (\<exists>s. prop_value p = Utf8Value s)"
  by (auto simp: prop_meta_def canonical_prop_def split: prop_value.split)

lemma emits_prop:
  assumes "prop_ok p"
  shows "wr.emits (write_prop p) (prop_encoding p)"
proof -
  have "wr.emits (writeUInt (num (int (prop_meta p))) 1) [of_nat (prop_meta p)]"
    using wr.emits_UInt8 [of "num (int (prop_meta p))" "prop_meta p"] prop_meta_bits(1) [of p]
    by (simp add: MAX_SAFE_INTEGER_def)
  moreover have "wr.emits (writeUInt (num (prop_id p)) 2) (nat_to_be 2 (nat (prop_id p)))"
    using assms emits_writer(3) [of "num (prop_id p)" "nat (prop_id p)" 2]
    by (simp add: prop_ok_def MAX_SAFE_INTEGER_def nat_less_iff)
  moreover have "length (prop_bytes p) < 2 ^ 48" using assms by (simp add: prop_ok_def)
  ultimately show ?thesis unfolding write_prop_def prop_encoding_def by (intro emits_writer)
qed

lemma reads_prop:
  assumes "prop_ok p"
  shows "reads read_prop (prop_encoding p) (canonical_prop p)"
proof -
  have i: "reads readUInt16Number (nat_to_be 2 (nat (prop_id p))) (nat (prop_id p))"
    using assms reads_UIntNumber_be [of 2 "nat (prop_id p)"]
    by (simp add: readUInt16Number_def prop_ok_def nat_less_iff)
  have l: "length (prop_bytes p) < 2 ^ 48" using assms by (simp add: prop_ok_def)
  have v: "(if \<exists>s. prop_value p = Utf8Value s then Utf8Value (utf8_decode (prop_bytes p)) else BufferValue (prop_bytes p))
      = prop_value p"
    using assms by (cases "prop_value p") (simp_all add: prop_ok_def prop_bytes_def utf8_decode_encode)
  show ?thesis unfolding read_prop_def prop_encoding_def
    by (intro reads_bind [OF reads_readUInt8Number [OF prop_meta_bits(1)]] reads_bind [OF i]
        reads_bind_last [OF reads_var_octet [OF l]])
      (unfold prop_meta_bits v, use assms in \<open>cases p; simp add: canonical_prop_def prop_ok_def\<close>)
qed

lemma reads_repeat_map:
  assumes "list_all ok xs" "\<And>x. ok x \<Longrightarrow> reads p (enc x) (g x)"
  shows "reads (rrepeat (length xs) p) (concat (map enc xs)) (map g xs)"
  using assms(1)
proof (induction xs)
  case (Cons x xs)
  then have "reads (rbind p (\<lambda>x. rbind (rrepeat (length xs) p) (\<lambda>ys. rret (x # ys))))
      (enc x @ concat (map enc xs)) (g x # map g xs)"
    by (intro reads_bind [OF assms(2)] reads_bind_last) simp_all
  then show ?case by simp
qed (simp add: reads_ret)

lemma emits_all:
  "list_all ok xs \<Longrightarrow> (\<And>x. ok x \<Longrightarrow> wr.emits (f x) (enc x)) \<Longrightarrow> wr.emits (efold f xs) (concat (map enc xs))"
  by (intro wr.emits_fold) (simp add: list_all_iff)

lemma emits_route:
  assumes "route_ok r"
  shows "wr.emits (write_route r) (route_bytes r)"
proof -
  note ok = assms [unfolded route_ok_def]
  have "write_route r = (\<lambda>w. ebind (write_ascii (route_prefix r) w) (\<lambda>w.
     ebind (writeVarUInt (num (int (length (path r)))) w) (\<lambda>w.
     ebind (efold write_ascii (path r) w) (\<lambda>w.
       ebind (write_bytes (auth r) w) (\<lambda>w.
       ebind (writeVarUInt (num (int (length (props r)))) w)
         (efold write_prop (props r)))))))"
    using ok by (simp add: write_route_def fun_eq_iff)
  then show ?thesis unfolding route_bytes_def using ok
    by (simp only:) (intro emits_writer(1,2) emits_ascii emits_count
        emits_all [where ok = ascii_ok] emits_all [where ok = prop_ok] emits_prop; simp)
qed

lemma reads_route:
  assumes "route_ok r"
  shows "reads read_route (route_bytes r) (canonical_route r)"
proof -
  note ok = assms [unfolded route_ok_def]
  have a: "reads (read 32) (auth r) (auth r)" using reads_read [of "auth r"] ok by simp
  have hops: "reads (rrepeat (length (path r)) read_ascii) (concat (map ascii_encoding (path r))) (path r)"
    using reads_repeat_map [of ascii_ok "path r" read_ascii ascii_encoding "\<lambda>s. s"] ok reads_ascii by simp
  have ps: "reads (rrepeat (length (props r)) read_prop) (concat (map prop_encoding (props r)))
      (map canonical_prop (props r))"
    using ok reads_prop by (intro reads_repeat_map [of prop_ok]) simp_all
  show ?thesis unfolding read_route_def route_bytes_def using ok
    by (intro reads_bind [OF reads_ascii] reads_bind [OF reads_count] reads_bind [OF hops] reads_bind [OF a]
        reads_bind_last [OF ps]) (simp_all, cases r, simp add: canonical_route_def)
qed

section \<open>The requests\<close>

lemma control_roundtrip:
  assumes "control_ok r"
  shows "serializeCcpRouteControlRequestPayload r = Inr (control_bytes r)"
    and "deserializeCcpRouteControlRequestPayload (control_bytes r) = Inr r"
proof -
  note ok = assms [unfolded control_ok_def]
  have m: "wr.emits (writeUInt (num (mode r)) 1) [of_nat (nat (mode r))]"
    using ok wr.emits_UInt8 [of "num (mode r)" "nat (mode r)"] by (simp add: MAX_SAFE_INTEGER_def nat_less_iff)
  have f: "wr.emits (efold write_feature (features r)) (concat (map (\<lambda>f. var_octet (utf8_encode f)) (features r)))"
    using ok by (intro emits_all [of feature_ok]) (auto simp: write_feature_def feature_ok_def intro!: emits_writer(5))
  have "wr.emits (write_control r) (control_bytes r)"
    unfolding write_control_def control_bytes_def using ok
    by (intro emits_writer(1) m f emits_uuid emits_u32 emits_count; simp)
  from written_emits [OF this]
  show "serializeCcpRouteControlRequestPayload r = Inr (control_bytes r)"
    by (simp add: serializeCcpRouteControlRequestPayload_def)
  have fs: "reads (rrepeat (length (features r)) (rbind readVarOctetString (\<lambda>f. rret (utf8_decode f))))
      (concat (map (\<lambda>f. var_octet (utf8_encode f)) (features r))) (map (\<lambda>f. f) (features r))"
    using ok by (intro reads_repeat_map [of feature_ok] reads_bind_last [OF reads_var_octet])
      (simp_all add: feature_ok_def utf8_decode_encode)
  have "reads read_control (control_bytes r) r"
    unfolding read_control_def control_bytes_def using ok
    by (intro reads_bind [OF reads_readUInt8Number] reads_bind [OF reads_uuid] reads_bind [OF reads_u32]
        reads_bind [OF reads_count] reads_bind_last [OF fs]) (simp_all add: nat_less_iff u32_ok_def, cases r, simp)
  from reads_run [OF this, of "[]"]
  show "deserializeCcpRouteControlRequestPayload (control_bytes r) = Inr r"
    by (simp add: deserializeCcpRouteControlRequestPayload_def)
qed

lemma update_roundtrip:
  assumes "update_ok r"
  shows "serializeCcpRouteUpdateRequestPayload r = Inr (update_bytes r)"
    and "deserializeCcpRouteUpdateRequestPayload (update_bytes r) = Inr (canonical_update r)"
proof -
  note ok = assms [unfolded update_ok_def]
  have "wr.emits (write_update r) (update_bytes r)"
    unfolding write_update_def update_bytes_def using ok
    by (intro emits_writer(1) emits_uuid emits_u32 emits_ascii emits_count
        emits_all [where ok = route_ok] emits_all [where ok = ascii_ok] emits_route; simp)
  from written_emits [OF this]
  show "serializeCcpRouteUpdateRequestPayload r = Inr (update_bytes r)"
    by (simp add: serializeCcpRouteUpdateRequestPayload_def)
  have rs: "reads (rrepeat (length (newRoutes r)) read_route) (concat (map route_bytes (newRoutes r)))
      (map canonical_route (newRoutes r))"
    using ok reads_route by (intro reads_repeat_map [of route_ok]) simp_all
  have ws: "reads (rrepeat (length (withdrawnRoutes r)) (rbind readVarOctetString (\<lambda>s. rret (utf8_decode s))))
      (concat (map ascii_encoding (withdrawnRoutes r))) (map (\<lambda>s. s) (withdrawnRoutes r))"
    using ok reads_withdrawn by (intro reads_repeat_map [of ascii_ok]) simp_all
  have "reads read_update (update_bytes r) (canonical_update r)"
    unfolding read_update_def update_bytes_def using ok
    by (intro reads_bind [OF reads_uuid] reads_bind [OF reads_u32] reads_bind [OF reads_ascii]
        reads_bind [OF reads_count] reads_bind [OF rs] reads_bind_last [OF ws])
      (simp_all, cases r, simp add: canonical_update_def u32_ok_def)
  from reads_run [OF this, of "[]"]
  show "deserializeCcpRouteUpdateRequestPayload (update_bytes r) = Inr (canonical_update r)"
    by (simp add: deserializeCcpRouteUpdateRequestPayload_def)
qed

lemma ccp_destinations_valid:
  "isValidIlpAddress CCP_CONTROL_DESTINATION" "isValidIlpAddress CCP_UPDATE_DESTINATION"
  by (simp_all add: isValidIlpAddress_def ilp_address_regex_def ILP_ADDRESS_MAX_LENGTH_def js_def dot_def
      schemes_def segment_def address_char_def CCP_CONTROL_DESTINATION_def CCP_UPDATE_DESTINATION_def)

interpretation route_control: peer_request CCP_CONTROL_DESTINATION
  "''CCP route control request packet is expired.''" constructCcpRouteControlRequest
  extractCcpRouteControlRequest control_ok "\<lambda>r. r"
proof
  fix r now assume "control_ok r"
  then show "\<exists>d. length d < 2 ^ 47
      \<and> constructCcpRouteControlRequest now r
        = Inr (peer_prepare CCP_CONTROL_DESTINATION (now + PEER_PROTOCOL_EXPIRY_DURATION) d)
      \<and> (\<forall>now' e. extractCcpRouteControlRequest now' (peer_prepare CCP_CONTROL_DESTINATION e d) =
           (if now' > e then Inl (Error ''CCP route control request packet is expired.'') else Inr r))"
    using control_roundtrip [of r]
    by (intro exI [of _ "control_bytes r"])
      (simp add: control_ok_def constructCcpRouteControlRequest_def extractCcpRouteControlRequest_def)
qed (rule ccp_destinations_valid)

interpretation route_update: peer_request CCP_UPDATE_DESTINATION
  "''CCP route update request packet is expired.''" constructCcpRouteUpdateRequest
  extractCcpRouteUpdateRequest update_ok canonical_update
proof
  fix r now assume "update_ok r"
  then show "\<exists>d. length d < 2 ^ 47
      \<and> constructCcpRouteUpdateRequest now r
        = Inr (peer_prepare CCP_UPDATE_DESTINATION (now + PEER_PROTOCOL_EXPIRY_DURATION) d)
      \<and> (\<forall>now' e. extractCcpRouteUpdateRequest now' (peer_prepare CCP_UPDATE_DESTINATION e d) =
           (if now' > e then Inl (Error ''CCP route update request packet is expired.'')
            else Inr (canonical_update r)))"
    using update_roundtrip [of r]
    by (intro exI [of _ "update_bytes r"])
      (simp add: update_ok_def constructCcpRouteUpdateRequest_def extractCcpRouteUpdateRequest_def)
qed (rule ccp_destinations_valid)

text \<open>
  C38. A route update sent at time \<open>now\<close> and received before it expires, a minute later, arrives unchanged: all routes
  with their paths, authentication codes and properties, and all withdrawn routes. Only the flags of a property are made
  canonical: a well-known property is transitive, and only an optional transitive one can be partial. Received later it is refused.
  The update is one that the format can carry as it is (\<open>update_ok\<close>): the table identifier is a UUID in its canonical lower-case form, the epoch
  indexes and the hold-down time are unsigned 32-bit numbers, the speaker, the prefixes, the paths and the withdrawn routes are ASCII, an authentication code has 32 bytes, property
  identifiers and values are in the range of their encodings, and the lists and the whole payload are shorter than \<open>2\<^sup>4\<^sup>6\<close> and \<open>2\<^sup>4\<^sup>7\<close>; the expiry is in a year of four digits and
  not the epoch. Other updates can arrive changed: an upper-case UUID arrives in lower case (\<open>upper_case_uuid_lowered\<close>), a withdrawn prefix that is not ASCII arrives with
  replacement characters (\<open>withdrawn_not_ascii\<close>).
\<close>

theorem route_update_delivered:
  assumes "update_ok r" and "four_digit_date (now + PEER_PROTOCOL_EXPIRY_DURATION)"
    and "now + PEER_PROTOCOL_EXPIRY_DURATION \<noteq> 0"
  shows "\<exists>bs. serializeCcpRouteUpdateRequest now r = Inr bs
    \<and> deserializeCcpRouteUpdateRequest now' bs =
        (if now' > now + PEER_PROTOCOL_EXPIRY_DURATION
         then Inl (Error ''CCP route update request packet is expired.'')
         else Inr (canonical_update r))"
  unfolding serializeCcpRouteUpdateRequest_def deserializeCcpRouteUpdateRequest_def
  using route_update.delivered [OF assms] by blast

definition sample_uuid :: jsstring where
  "sample_uuid = js ''21e55f8e-abcd-4e97-9ab9-bf0ff00a224c''"

definition sample_update :: CcpRouteUpdateRequest where
  "sample_update = \<lparr>routingTableId = sample_uuid, currentEpochIndex = 52, fromEpochIndex = 46, toEpochIndex = 50,
     holdDownTime = 30000, speaker = js ''example.alice'',
     newRoutes = [\<lparr>route_prefix = js ''example.prefix1'', path = [js ''example.prefix1''], auth = replicate 32 7,
       props = [\<lparr>isOptional = False, isTransitive = True, isPartial = False, prop_id = 0,
                 prop_value = Utf8Value (js ''hello'')\<rparr>,
                \<lparr>isOptional = True, isTransitive = False, isPartial = True, prop_id = 16256,
                 prop_value = BufferValue [1, 2]\<rparr>]\<rparr>],
     withdrawnRoutes = [js ''example.prefix3'']\<rparr>"

lemma sample_uuid_ok: "uuid_ok sample_uuid"
  by code_simp

lemma sample_uuid_length: "length (uuid_bytes sample_uuid) = 16"
  using sample_uuid_ok by (simp add: uuid_ok_def)

lemmas sample_length_simps = var_octet_def var_uint_def length_prefix_length uint_size.simps
  js_def utf8_encode_def utf8_bytes_def scalar_of_unit_def is_high_def is_low_def

lemma sample_update_length: "length (update_bytes sample_update) < 2 ^ 47"
  by (simp add: sample_update_def update_bytes_def route_bytes_def prop_encoding_def ascii_encoding_def
      prop_bytes_def sample_uuid_length sample_length_simps)

lemma sample_update_ok: "update_ok sample_update"
  using sample_update_length unfolding update_ok_def
  by (simp add: sample_update_def sample_uuid_ok u32_ok_def ascii_ok_def route_ok_def prop_ok_def prop_bytes_def
      js_def is_ascii_def is_high_def is_low_def utf8_encode_def utf8_bytes_def scalar_of_unit_def)

text \<open>What the format does not carry: an upper-case UUID, and a withdrawn prefix that is not ASCII.\<close>

lemma upper_case_uuid_lowered:
  "run_reader readUuid (uuid_bytes (js ''21E55F8E-ABCD-4E97-9AB9-BF0FF00A224C'')) = Inr sample_uuid"
  by code_simp

lemma withdrawn_not_ascii: "utf8_decode (ascii_encode [0xE9]) = [0xFFFD]"
  by (simp add: ascii_encode_def utf8_decode_def utf8_points.simps utf16_units_def)

theorem route_update_delivered_witness:
  "\<exists>bs. serializeCcpRouteUpdateRequest 1434412740123 sample_update = Inr bs
    \<and> deserializeCcpRouteUpdateRequest 1434412750000 bs =
        (if 1434412750000 > 1434412740123 + PEER_PROTOCOL_EXPIRY_DURATION
         then Inl (Error ''CCP route update request packet is expired.'')
         else Inr (canonical_update sample_update))"
proof (rule route_update_delivered [OF sample_update_ok])
  show "four_digit_date (1434412740123 + PEER_PROTOCOL_EXPIRY_DURATION)"
    by (simp add: four_digit_date_def getUTCFullYear_def YearFromDay_def msPerDay_def DayFromYear_def
        year_search.simps PEER_PROTOCOL_EXPIRY_DURATION_def)
qed (simp add: PEER_PROTOCOL_EXPIRY_DURATION_def)

text \<open>
  A route control request sent at time \<open>now\<close> and received before it expires arrives unchanged: its mode, the
  identifier and epoch of the last known routing table and its features. Received later it is refused.
\<close>

theorem route_control_delivered:
  assumes "control_ok r" and "four_digit_date (now + PEER_PROTOCOL_EXPIRY_DURATION)"
    and "now + PEER_PROTOCOL_EXPIRY_DURATION \<noteq> 0"
  shows "\<exists>bs. serializeCcpRouteControlRequest now r = Inr bs
    \<and> deserializeCcpRouteControlRequest now' bs =
        (if now' > now + PEER_PROTOCOL_EXPIRY_DURATION
         then Inl (Error ''CCP route control request packet is expired.'') else Inr r)"
  unfolding serializeCcpRouteControlRequest_def deserializeCcpRouteControlRequest_def
  using route_control.delivered [OF assms] by blast

definition sample_control :: CcpRouteControlRequest where
  "sample_control = \<lparr>mode = 1, lastKnownRoutingTableId = sample_uuid, lastKnownEpoch = 32,
     features = [js ''foo'', js ''bar'']\<rparr>"

lemma sample_control_length: "length (control_bytes sample_control) < 2 ^ 47"
  by (simp add: sample_control_def control_bytes_def sample_uuid_length sample_length_simps)

lemma sample_control_ok: "control_ok sample_control"
  using sample_control_length unfolding control_ok_def
  by (simp add: sample_control_def sample_uuid_ok u32_ok_def feature_ok_def js_def is_high_def is_low_def
      utf8_encode_def utf8_bytes_def scalar_of_unit_def)

theorem route_control_delivered_witness:
  "\<exists>bs. serializeCcpRouteControlRequest 1434412740123 sample_control = Inr bs
    \<and> deserializeCcpRouteControlRequest 1434412810000 bs =
        (if 1434412810000 > 1434412740123 + PEER_PROTOCOL_EXPIRY_DURATION
         then Inl (Error ''CCP route control request packet is expired.'') else Inr sample_control)"
proof (rule route_control_delivered [OF sample_control_ok])
  show "four_digit_date (1434412740123 + PEER_PROTOCOL_EXPIRY_DURATION)"
    by (simp add: four_digit_date_def getUTCFullYear_def YearFromDay_def msPerDay_def DayFromYear_def
        year_search.simps PEER_PROTOCOL_EXPIRY_DURATION_def)
qed (simp add: PEER_PROTOCOL_EXPIRY_DURATION_def)

end
