(* ===== verification/Connection_Tag.thy ===== *)
theory Connection_Tag
  imports Base64 Stream_Crypto
begin

text \<open>
  \<^verbatim>\<open>connection-tag-utils/src/index.ts\<close>: the tag of a connection, encrypted into characters that an ILP address
  may have. The function of the \<open>base64url\<close> package is an argument; the code relies on its output being
  decoded by \<open>Buffer.from(s, 'base64')\<close>.
\<close>

definition encode :: "crypto_lib \<Rightarrow> (buffer \<Rightarrow> jsstring) \<Rightarrow> buffer \<Rightarrow> buffer \<Rightarrow> jsstring \<Rightarrow> jsstring" where
  "encode lib base64url_package iv key data =
     (let (encrypted, tag) = lib_gcm_encrypt lib key iv (utf8_encode data)
      in base64url_package (tag @ iv @ encrypted))"

definition decode :: "crypto_lib \<Rightarrow> buffer \<Rightarrow> jsstring \<Rightarrow> jsstring result" where
  "decode lib key completeEncoded =
     (let complete = base64_decode completeEncoded;
          tag = take 16 complete;
          iv = slice 16 12 complete;
          encrypted = drop (16 + 12) complete
      in case lib_gcm_decrypt lib key iv tag encrypted of
           None \<Rightarrow> Inl (Error ''Unsupported state or unable to authenticate data'')
         | Some d \<Rightarrow> Inr (utf8_decode d))"

text \<open>
  Decoding a connection tag under the key it was encoded with returns the tag, for every string without lone
  surrogates and every base64url implementation whose output Node decodes.
\<close>

theorem connection_tag_roundtrip:
  assumes "aead lib" and "length iv = 12" and "well_formed tag" and "\<And>bs. base64_decode (pkg bs) = bs"
  shows "decode lib key (encode lib pkg iv key tag) = Inr tag"
proof -
  obtain c t where ct: "lib_gcm_encrypt lib key iv (utf8_encode tag) = (c, t)" by fastforce
  have "case lib_gcm_encrypt lib key iv (utf8_encode tag) of (c, t) \<Rightarrow> length t = 16
      \<and> length c = length (utf8_encode tag) \<and> lib_gcm_decrypt lib key iv t c = Some (utf8_encode tag)"
    using assms(1) [unfolded aead_def, rule_format, OF assms(2)] .
  with ct assms show ?thesis by (simp add: encode_def decode_def slice_def utf8_decode_encode)
qed

theorem connection_tag_roundtrip_witness:
  "decode null_lib [] (encode null_lib base64url (replicate 12 3) [] (js ''invoice 12'')) = Inr (js ''invoice 12'')"
  by (rule connection_tag_roundtrip)
    (simp_all add: null_lib_ok base64url_roundtrip js_def is_high_def is_low_def)

end
