(* ===== verification/Stream_Receiver.thy ===== *)
theory Stream_Receiver
  imports Ildcp Receipt Pay_Request
begin

text \<open>
  \<^verbatim>\<open>stream-receiver/src/index.ts\<close> and \<^verbatim>\<open>stream-receiver/src/utils.ts\<close>: the stateless STREAM receiver. It
  encodes what it has to know about a connection in an encrypted token, the last segment of the
  connection's address, and answers each incoming prepare from its contents alone.

  The random bytes of an encryption are arguments, and so are the contents earlier calls left in the buffer that
  \<open>generateCredentials\<close> reuses. The methods of an \<open>IncomingMoney\<close> object are functions of the record
  \<open>incoming_money\<close>. Logging is left out.
\<close>

unbundle bit_operations_syntax

section \<open>utils.ts\<close>

definition receiver_encrypt :: "crypto_lib \<Rightarrow> buffer \<Rightarrow> buffer \<Rightarrow> buffer \<Rightarrow> buffer" where
  "receiver_encrypt lib iv key plaintext =
     (let (ciphertext, tag) = lib_gcm_encrypt lib key iv plaintext in iv @ tag @ ciphertext)"

definition receiver_decrypt :: "crypto_lib \<Rightarrow> buffer \<Rightarrow> buffer \<Rightarrow> buffer result" where
  "receiver_decrypt lib key ciphertext =
     (let nonce = take IV_LENGTH ciphertext;
          tag = overwrite 0 (slice IV_LENGTH AUTH_TAG_LENGTH ciphertext) (replicate AUTH_TAG_LENGTH 0);
          encrypted = drop (IV_LENGTH + AUTH_TAG_LENGTH) ciphertext
      in case lib_gcm_decrypt lib key nonce tag encrypted of
           None \<Rightarrow> Inl (Error ''Unsupported state or unable to authenticate data'')
         | Some m \<Rightarrow> Inr m)"

record reply_builder =
  encryptionKey :: "buffer option"
  rb_sequence :: u64
  receivedAmount :: u64
  rb_frames :: "frame list"
  rb_ilpAddress :: jsstring

definition new_reply_builder :: reply_builder where
  "new_reply_builder = \<lparr>encryptionKey = None, rb_sequence = 0, receivedAmount = 0, rb_frames = [], rb_ilpAddress = []\<rparr>"

definition setIlpAddress :: "jsstring \<Rightarrow> reply_builder \<Rightarrow> reply_builder" where
  "setIlpAddress a b = b\<lparr>rb_ilpAddress := a\<rparr>"

definition setEncryptionKey :: "buffer \<Rightarrow> reply_builder \<Rightarrow> reply_builder" where
  "setEncryptionKey key b = b\<lparr>encryptionKey := Some key\<rparr>"

definition reply_setSequence :: "u64 \<Rightarrow> reply_builder \<Rightarrow> reply_builder" where
  "reply_setSequence n b = b\<lparr>rb_sequence := n\<rparr>"

definition setReceivedAmount :: "long_value \<Rightarrow> reply_builder \<Rightarrow> reply_builder result" where
  "setReceivedAmount v b = ebind (stream_longFromValue v True) (\<lambda>l. Inr (b\<lparr>receivedAmount := long_bits l\<rparr>))"

definition reply_addFrames :: "frame list \<Rightarrow> reply_builder \<Rightarrow> reply_builder" where
  "reply_addFrames fs b = b\<lparr>rb_frames := rb_frames b @ fs\<rparr>"

definition buildData :: "crypto_lib \<Rightarrow> buffer \<Rightarrow> IlpPacketType \<Rightarrow> reply_builder \<Rightarrow> buffer result" where
  "buildData lib iv type b =
     (case encryptionKey b of
        None \<Rightarrow> Inr []
      | Some key \<Rightarrow>
          ebind (serialize \<lparr>sequence = rb_sequence b, ilpPacketType = type_byte type,
                            prepareAmount = receivedAmount b, frames = rb_frames b\<rparr>)
            (\<lambda>bs. Inr (receiver_encrypt lib iv key bs)))"

definition buildFulfill :: "crypto_lib \<Rightarrow> buffer \<Rightarrow> buffer \<Rightarrow> reply_builder \<Rightarrow> IlpFulfill result" where
  "buildFulfill lib iv f b = ebind (buildData lib iv Fulfill b) (\<lambda>d. Inr \<lparr>fulfillment = f, fulfill_data = d\<rparr>)"

definition buildReject :: "crypto_lib \<Rightarrow> buffer \<Rightarrow> string \<Rightarrow> reply_builder \<Rightarrow> IlpReject result" where
  "buildReject lib iv code b = ebind (buildData lib iv Reject b) (\<lambda>d.
     Inr \<lparr>rej_code = js code, triggeredBy = rb_ilpAddress b, rej_message = [], rej_data = d\<rparr>)"

section \<open>Servers and credentials\<close>

record stream_server =
  serverAddress :: jsstring
  sharedSecretKeyGen :: buffer
  connectionTokenKeyGen :: buffer

record StreamCredentials =
  ilpAddress :: jsstring
  sharedSecret :: buffer

record ConnectionDetails =
  paymentTag :: "jsstring option"
  receiptSetup :: "(buffer \<times> buffer) option"
  details_asset :: "(jsstring \<times> jsnum) option"

text \<open>\<open>receiptSetup\<close> is the pair of nonce and secret, the asset the pair of code and scale.\<close>

definition new_server :: "crypto_lib \<Rightarrow> buffer \<Rightarrow> jsstring \<Rightarrow> stream_server result" where
  "new_server lib serverSecret address =
     (if length serverSecret \<noteq> 32 then Inl (Error ''Server secret must be 32 bytes'')
      else if \<not> isValidIlpAddress address then Inl (Error ''Invalid server base ILP address'')
      else Inr \<lparr>serverAddress = address,
        sharedSecretKeyGen = lib_hmac lib serverSecret (utf8 ''ilp_stream_shared_secret''),
        connectionTokenKeyGen = lib_hmac lib serverSecret (utf8 ''ilp_stream_connection_token'')\<rparr>)"

definition TOKEN_GENERATION_LENGTH :: nat where
  "TOKEN_GENERATION_LENGTH = 767"

text \<open>The three flag bits.\<close>

definition PAYMENT_TAG :: nat where "PAYMENT_TAG = 1"
definition RECEIPTS :: nat where "RECEIPTS = 2"
definition ASSET_DETAILS :: nat where "ASSET_DETAILS = 4"

text \<open>An empty payment tag counts as none.\<close>

definition tag_buffer :: "ConnectionDetails \<Rightarrow> buffer option" where
  "tag_buffer d =
     (case paymentTag d of
        None \<Rightarrow> None
      | Some t \<Rightarrow> if t = [] then None else Some (ascii_encode t))"

definition token_flags :: "ConnectionDetails \<Rightarrow> nat" where
  "token_flags d =
     (if tag_buffer d \<noteq> None then PAYMENT_TAG else 0)
     OR (if receiptSetup d \<noteq> None then RECEIPTS else 0)
     OR (if details_asset d \<noteq> None then ASSET_DETAILS else 0)"

fun write_opt :: "('a \<Rightarrow> 'w \<Rightarrow> 'w result) \<Rightarrow> 'a option \<Rightarrow> 'w \<Rightarrow> 'w result" where
  "write_opt f None = Inr"
| "write_opt f (Some x) = f x"

definition write_token :: "ConnectionDetails \<Rightarrow> writer \<Rightarrow> writer result" where
  "write_token d w =
     ebind (writeUInt (num (int (token_flags d))) 1 w) (\<lambda>w.
     ebind (write_opt writeVarOctetString (tag_buffer d) w) (\<lambda>w.
     ebind (write_opt (\<lambda>(nonce, secret) w. ebind (write_bytes nonce w) (write_bytes secret)) (receiptSetup d) w)
       (write_opt (\<lambda>(code, scale) w.
          ebind (writeVarOctetString (utf8_encode code) w) (writeUInt (NumV scale) 1)) (details_asset d))))"

definition generateCredentials ::
  "crypto_lib \<Rightarrow> buffer \<Rightarrow> buffer \<Rightarrow> stream_server \<Rightarrow> ConnectionDetails \<Rightarrow> StreamCredentials result" where
  "generateCredentials lib iv scratch server options =
     ebind (case receiptSetup options of
              None \<Rightarrow> Inr ()
            | Some (nonce, secret) \<Rightarrow>
                if length nonce \<noteq> 16
                then Inl (Error ''Failed to generate credentials: receipt nonce must be 16 bytes'')
                else require (length secret = 32)
                  (Error ''Failed to generate credentials: receipt secret must be 32 bytes'')) (\<lambda>_.
     ebind (case details_asset options of
              None \<Rightarrow> Inr ()
            | Some (code, scale) \<Rightarrow> require (ildcp_isValidAssetScale scale)
                (Error ''Failed to generate credentials: invalid asset scale'')) (\<lambda>_.
     ebind (written (write_token options) (new_writer_buffer scratch)) (\<lambda>plain.
     let token = receiver_encrypt lib iv (connectionTokenKeyGen server) plain;
         destinationAddress = serverAddress server @ dot # base64url token
     in if \<not> isValidIlpAddress destinationAddress
        then Inl (Error ''Failed to generate credentials: too much data to encode within an ILP address'')
        else Inr \<lparr>ilpAddress = destinationAddress,
                  sharedSecret = lib_hmac lib (sharedSecretKeyGen server) token\<rparr>)))"

definition extractLocalAddressSegment :: "stream_server \<Rightarrow> jsstring \<Rightarrow> jsstring option" where
  "extractLocalAddressSegment server destinationAddress =
     (let localAddressParts = split_on dot (drop (length (serverAddress server) + 1) destinationAddress);
          start = serverAddress server @ [dot]
      in if take (length start) destinationAddress = start \<and> hd localAddressParts \<noteq> []
         then Some (hd localAddressParts) else None)"

definition read_opt :: "bool \<Rightarrow> 'a rd \<Rightarrow> 'a option rd" where
  "read_opt c m = (if c then rbind m (\<lambda>x. rret (Some x)) else rret None)"

definition read_token :: "ConnectionDetails rd" where
  "read_token =
     rbind readUInt8Number (\<lambda>flags.
     rbind (read_opt (flags AND PAYMENT_TAG \<noteq> 0)
              (rbind readVarOctetString (\<lambda>t. rret (ascii_decode t)))) (\<lambda>tag.
     rbind (read_opt (flags AND RECEIPTS \<noteq> 0)
              (rbind (read 16) (\<lambda>nonce. rbind (read 32) (\<lambda>secret. rret (nonce, secret))))) (\<lambda>receipts.
     rbind (read_opt (flags AND ASSET_DETAILS \<noteq> 0)
              (rbind readVarOctetString (\<lambda>code. rbind readUInt8Number (\<lambda>scale.
                 rret (utf8_decode code, Num (of_nat scale)))))) (\<lambda>asset.
       rret \<lparr>paymentTag = tag, receiptSetup = receipts, details_asset = asset\<rparr>))))"

definition decryptToken :: "crypto_lib \<Rightarrow> stream_server \<Rightarrow> buffer \<Rightarrow> ConnectionDetails option" where
  "decryptToken lib server token =
     (case ebind (receiver_decrypt lib (connectionTokenKeyGen server) token) (run_reader read_token) of
        Inl _ \<Rightarrow> None | Inr details \<Rightarrow> Some details)"

definition decodePaymentTag :: "crypto_lib \<Rightarrow> stream_server \<Rightarrow> jsstring \<Rightarrow> jsstring option" where
  "decodePaymentTag lib server destinationAddress =
     (case extractLocalAddressSegment server destinationAddress of
        None \<Rightarrow> None
      | Some token \<Rightarrow>
          (case decryptToken lib server (base64_decode token) of
             None \<Rightarrow> None | Some details \<Rightarrow> paymentTag details))"

section \<open>Replies\<close>

record incoming_money =
  connectionId :: jsstring
  im_paymentTag :: "jsstring option"
  im_receiptSetup :: "(buffer \<times> buffer) option"
  im_fulfillment :: buffer
  im_reply :: reply_builder

datatype receiver_reply = Finished IlpReply | Money incoming_money

fun is_close :: "frame \<Rightarrow> bool" where
  "is_close (ConnectionClose _ _) = True"
| "is_close _ = False"

fun is_new_address :: "frame \<Rightarrow> bool" where
  "is_new_address (ConnectionNewAddress _) = True"
| "is_new_address _ = False"

fun asset_frame :: "jsstring \<times> jsnum \<Rightarrow> frame" where
  "asset_frame (code, Num scale) = ConnectionAssetDetails code (nat \<lfloor>scale\<rfloor>)"
| "asset_frame (code, _) = ConnectionAssetDetails code 0"

definition finish_reject :: "IlpReject result \<Rightarrow> receiver_reply result" where
  "finish_reject r = ebind r (\<lambda>r. Inr (Finished (RejectReply r)))"

definition createReply :: "crypto_lib \<Rightarrow> buffer \<Rightarrow> stream_server \<Rightarrow> IlpPrepare \<Rightarrow> receiver_reply result" where
  "createReply lib iv server prepare =
     (let reply = setIlpAddress (serverAddress server) new_reply_builder
      in case extractLocalAddressSegment server (destination prepare) of
           None \<Rightarrow> finish_reject (buildReject lib iv ''F02'' reply)
         | Some localSegment \<Rightarrow>
             let token = base64_decode localSegment
             in case decryptToken lib server token of
                  None \<Rightarrow> finish_reject (buildReject lib iv ''F06'' reply)
                | Some details \<Rightarrow>
                    let secret = lib_hmac lib (sharedSecretKeyGen server) token;
                        key = lib_hmac lib secret (utf8 ''ilp_stream_encryption'')
                    in case ebind (receiver_decrypt lib key (prep_data prepare)) deserializeUnencrypted of
                         Inl _ \<Rightarrow> finish_reject (buildReject lib iv ''F06'' reply)
                       | Inr streamRequest \<Rightarrow>
                           if ilpPacketType streamRequest \<noteq> type_byte Prepare
                           then finish_reject (buildReject lib iv ''F00'' reply)
                           else
                             ebind (setReceivedAmount (StrV (prep_amount prepare))
                                      (reply_setSequence (sequence streamRequest) (setEncryptionKey key reply))) (\<lambda>reply.
                             if list_ex is_close (frames streamRequest)
                             then finish_reject (buildReject lib iv ''F99''
                                    (reply_addFrames [ConnectionClose NoError []] reply))
                             else
                               let reply = (case details_asset details of
                                      Some asset \<Rightarrow>
                                        if list_ex is_new_address (frames streamRequest)
                                        then reply_addFrames [asset_frame asset] reply else reply
                                    | None \<Rightarrow> reply);
                                   received = long_bits (long_fromDecimal (prep_amount prepare) True)
                               in if received < prepareAmount streamRequest
                                  then finish_reject (buildReject lib iv ''F99'' reply)
                                  else
                                    let fulfillmentKey = lib_hmac lib secret (utf8 ''ilp_stream_fulfillment'');
                                        f = lib_hmac lib fulfillmentKey (prep_data prepare)
                                    in if lib_sha256 lib f \<noteq> executionCondition prepare
                                       then finish_reject (buildReject lib iv ''F99'' reply)
                                       else if received = 0
                                       then ebind (buildFulfill lib iv f reply) (\<lambda>f. Inr (Finished (FulfillReply f)))
                                       else Inr (Money
                                         \<lparr>connectionId = hex_encode (lib_sha256 lib (ascii_encode (destination prepare))),
                                          im_paymentTag = paymentTag details, im_receiptSetup = receiptSetup details,
                                          im_fulfillment = f, im_reply = reply\<rparr>)))"

definition setTotalReceived :: "crypto_lib \<Rightarrow> long_value \<Rightarrow> incoming_money \<Rightarrow> incoming_money result" where
  "setTotalReceived lib totalReceived m =
     (case im_receiptSetup m of
        None \<Rightarrow> Inr m
      | Some (nonce, secret) \<Rightarrow>
          ebind (createReceipt lib \<lparr>opt_nonce = nonce, opt_streamId = num 1,
                   opt_totalReceived = totalReceived, opt_secret = secret\<rparr>) (\<lambda>receipt.
            Inr (m\<lparr>im_reply := reply_addFrames [StreamReceipt 1 receipt] (im_reply m)\<rparr>)))"

definition accept :: "crypto_lib \<Rightarrow> buffer \<Rightarrow> incoming_money \<Rightarrow> IlpFulfill result" where
  "accept lib iv m = buildFulfill lib iv (im_fulfillment m) (im_reply m)"

definition temporaryDecline :: "crypto_lib \<Rightarrow> buffer \<Rightarrow> incoming_money \<Rightarrow> IlpReject result" where
  "temporaryDecline lib iv m = buildReject lib iv ''T00'' (im_reply m)"

definition finalDecline :: "crypto_lib \<Rightarrow> buffer \<Rightarrow> incoming_money \<Rightarrow> IlpReject result" where
  "finalDecline lib iv m =
     buildReject lib iv ''F99'' (reply_addFrames [ConnectionClose NoError []] (im_reply m))"

section \<open>Tokens\<close>

lemma receiver_encrypt_eq: "receiver_encrypt lib iv key m = encrypt lib iv key [m]"
  by (simp add: receiver_encrypt_def encrypt_def)

lemma receiver_decrypt_encrypt:
  assumes "aead lib" "length iv = 12"
  shows "receiver_decrypt lib key (encrypt lib iv key bs) = Inr (concat bs)"
proof -
  obtain c tag where ct: "lib_gcm_encrypt lib key iv (concat bs) = (c, tag)" by fastforce
  have "case lib_gcm_encrypt lib key iv (concat bs) of (c, tag) \<Rightarrow> length tag = 16
      \<and> length c = length (concat bs) \<and> lib_gcm_decrypt lib key iv tag c = Some (concat bs)"
    using assms(1) [unfolded aead_def, rule_format, OF assms(2)] .
  with ct assms(2) show ?thesis
    by (auto simp: encrypt_def receiver_decrypt_def IV_LENGTH_def AUTH_TAG_LENGTH_def slice_def overwrite_def)
qed

fun scale_nat :: "jsnum \<Rightarrow> nat" where
  "scale_nat (Num r) = nat \<lfloor>r\<rfloor>"
| "scale_nat _ = 0"

definition opt_bytes :: "('a \<Rightarrow> buffer) \<Rightarrow> 'a option \<Rightarrow> buffer" where
  "opt_bytes enc x = (case x of None \<Rightarrow> [] | Some a \<Rightarrow> enc a)"

definition token_bytes :: "ConnectionDetails \<Rightarrow> buffer" where
  "token_bytes d = [of_nat (token_flags d)] @ opt_bytes var_octet (tag_buffer d)
     @ opt_bytes (\<lambda>(nonce, secret). nonce @ secret) (receiptSetup d)
     @ opt_bytes (\<lambda>(code, scale). var_octet (utf8_encode code) @ [of_nat (scale_nat scale)]) (details_asset d)"

text \<open>The details a token represents faithfully.\<close>

definition details_ok :: "ConnectionDetails \<Rightarrow> bool" where
  "details_ok d \<longleftrightarrow>
     (case paymentTag d of None \<Rightarrow> True | Some t \<Rightarrow> t \<noteq> [] \<and> is_ascii t \<and> length t < 2 ^ 40)
     \<and> (case receiptSetup d of None \<Rightarrow> True | Some (nonce, secret) \<Rightarrow> length nonce = 16 \<and> length secret = 32)
     \<and> (case details_asset d of None \<Rightarrow> True
        | Some (code, scale) \<Rightarrow> ildcp_isValidAssetScale scale \<and> well_formed code \<and> length (utf8_encode code) < 2 ^ 40)
     \<and> length (token_bytes d) \<le> TOKEN_GENERATION_LENGTH"

lemma token_flag_bits:
  "token_flags d < 256" "token_flags d AND PAYMENT_TAG \<noteq> 0 \<longleftrightarrow> tag_buffer d \<noteq> None"
  "token_flags d AND RECEIPTS \<noteq> 0 \<longleftrightarrow> receiptSetup d \<noteq> None"
  "token_flags d AND ASSET_DETAILS \<noteq> 0 \<longleftrightarrow> details_asset d \<noteq> None"
  by (auto simp: token_flags_def PAYMENT_TAG_def RECEIPTS_def ASSET_DETAILS_def)

lemma emits_opt:
  "(\<And>x. opt = Some x \<Longrightarrow> wr.emits (f x) (enc x)) \<Longrightarrow> wr.emits (write_opt f opt) (opt_bytes enc opt)"
  using wr.emits_skip by (cases opt) (simp_all add: opt_bytes_def)

lemma reads_opt:
  assumes "\<And>x. opt = Some x \<Longrightarrow> reads m (enc x) (g x)" "c \<longleftrightarrow> opt \<noteq> None"
  shows "reads (read_opt c m) (opt_bytes enc opt) (map_option g opt)"
  using assms by (cases opt) (auto simp: read_opt_def opt_bytes_def reads_ret intro!: reads_bind_last)

lemma written_emits_buffer:
  assumes "wr.emits f bs" "length bs \<le> length b"
  shows "written f (new_writer_buffer b) = Inr bs"
proof -
  have "wok (new_writer_buffer b)" "wroom (new_writer_buffer b) (length bs)"
    using assms(2) by (simp_all add: wok_def wroom_def new_writer_buffer_def)
  then obtain w where "f (new_writer_buffer b) = Inr w" "wadds (new_writer_buffer b) bs w"
    using wr.emitsD [OF assms(1)] by blast
  then show ?thesis by (simp add: written_def wadds_def new_writer_buffer_def getBuffer_def)
qed

lemma scale_of_nat: "ildcp_isValidAssetScale s \<Longrightarrow> s = Num (of_nat (scale_nat s)) \<and> scale_nat s < 256"
  by (auto simp: valid_scale)

lemma emits_asset:
  assumes "ildcp_isValidAssetScale scale" "length (utf8_encode code) < 2 ^ 48"
  shows "wr.emits (\<lambda>w. ebind (writeVarOctetString (utf8_encode code) w) (writeUInt (NumV scale) 1))
    (var_octet (utf8_encode code) @ [of_nat (scale_nat scale)])"
proof -
  have "uint_value (NumV scale) = Some (scale_nat scale)"
    using assms(1) by (auto simp: valid_scale MAX_SAFE_INTEGER_def)
  then have "wr.emits (writeUInt (NumV scale) 1) [of_nat (scale_nat scale)]"
    using wr.emits_UInt8 scale_of_nat [OF assms(1)] by simp
  then show ?thesis by (intro emits_writer assms(2))
qed

lemma emits_token:
  assumes "details_ok d"
  shows "wr.emits (write_token d) (token_bytes d)"
proof -
  note ok = assms [unfolded details_ok_def]
  have fl: "wr.emits (writeUInt (num (int (token_flags d))) 1) [of_nat (token_flags d)]"
    using wr.emits_UInt8 [of "num (int (token_flags d))" "token_flags d"] token_flag_bits(1) [of d]
    by (simp add: MAX_SAFE_INTEGER_def)
  have t: "wr.emits (write_opt writeVarOctetString (tag_buffer d)) (opt_bytes var_octet (tag_buffer d))"
    using ok by (intro emits_opt emits_writer(5)) (auto simp: tag_buffer_def split: option.splits if_splits)
  have r: "wr.emits (write_opt (\<lambda>(nonce, secret) w. ebind (write_bytes nonce w) (write_bytes secret)) (receiptSetup d))
      (opt_bytes (\<lambda>(nonce, secret). nonce @ secret) (receiptSetup d))"
    by (intro emits_opt) (auto intro!: emits_writer(1,2))
  have a: "wr.emits (write_opt (\<lambda>(code, scale) w.
          ebind (writeVarOctetString (utf8_encode code) w) (writeUInt (NumV scale) 1)) (details_asset d))
      (opt_bytes (\<lambda>(code, scale). var_octet (utf8_encode code) @ [of_nat (scale_nat scale)]) (details_asset d))"
    using ok by (intro emits_opt) (auto intro!: emits_asset)
  show ?thesis unfolding write_token_def token_bytes_def by (intro emits_writer(1) fl t r a)
qed

lemma reads_pair:
  assumes "length nonce = 16" "length secret = 32"
  shows "reads (rbind (read 16) (\<lambda>nonce. rbind (read 32) (\<lambda>secret. rret (nonce, secret)))) (nonce @ secret) (nonce, secret)"
proof -
  have "reads (read 16) nonce nonce" "reads (read 32) secret secret"
    using reads_read [of nonce] reads_read [of secret] assms by simp_all
  then show ?thesis by (intro reads_bind [where v = nonce] reads_bind_last [where v = secret]) simp_all
qed

lemma reads_token:
  assumes "details_ok d"
  shows "reads read_token (token_bytes d) d"
proof -
  note ok = assms [unfolded details_ok_def]
  have "reads (read_opt (token_flags d AND PAYMENT_TAG \<noteq> 0) (rbind readVarOctetString (\<lambda>t. rret (ascii_decode t))))
      (opt_bytes var_octet (tag_buffer d)) (map_option ascii_decode (tag_buffer d))"
    using ok by (intro reads_opt token_flag_bits(2) reads_bind_last [OF reads_var_octet])
      (auto simp: tag_buffer_def split: option.splits if_splits)
  moreover have "map_option ascii_decode (tag_buffer d) = paymentTag d"
    using ok by (auto simp: tag_buffer_def ascii_decode_encode split: option.splits)
  ultimately have t: "reads (read_opt (token_flags d AND PAYMENT_TAG \<noteq> 0) (rbind readVarOctetString (\<lambda>t. rret (ascii_decode t))))
      (opt_bytes var_octet (tag_buffer d)) (paymentTag d)" by simp
  have "reads (rbind (read 16) (\<lambda>nonce. rbind (read 32) (\<lambda>secret. rret (nonce, secret))))
      (case x of (nonce, secret) \<Rightarrow> nonce @ secret) (id x)" if "receiptSetup d = Some x" for x
    using that ok by (cases x) (auto intro!: reads_pair)
  from reads_opt [where opt = "receiptSetup d" and g = id, OF this token_flag_bits(3)]
  have r: "reads (read_opt (token_flags d AND RECEIPTS \<noteq> 0) (rbind (read 16) (\<lambda>nonce. rbind (read 32) (\<lambda>secret. rret (nonce, secret)))))
      (opt_bytes (\<lambda>(nonce, secret). nonce @ secret) (receiptSetup d)) (receiptSetup d)"
    by (simp add: option.map_id)
  have "reads (rbind readVarOctetString (\<lambda>code. rbind readUInt8Number (\<lambda>scale. rret (utf8_decode code, Num (of_nat scale)))))
      (case x of (code, scale) \<Rightarrow> var_octet (utf8_encode code) @ [of_nat (scale_nat scale)]) (id x)"
    if x: "details_asset d = Some x" for x
  proof -
    obtain code scale where cs: "x = (code, scale)" by force
    with ok x have l: "length (utf8_encode code) < 2 ^ 48" "well_formed code" "ildcp_isValidAssetScale scale" by auto
    from scale_of_nat [OF l(3)] have n: "Num (of_nat (scale_nat scale)) = scale" "scale_nat scale < 256" by auto
    show ?thesis unfolding cs prod.case id_apply
      by (intro reads_bind [OF reads_var_octet [OF l(1)]] reads_bind_last [OF reads_readUInt8Number [OF n(2)]])
        (simp add: n(1) utf8_decode_encode l(2))
  qed
  from reads_opt [where opt = "details_asset d" and g = id, OF this token_flag_bits(4)]
  have a: "reads (read_opt (token_flags d AND ASSET_DETAILS \<noteq> 0) (rbind readVarOctetString (\<lambda>code. rbind readUInt8Number (\<lambda>scale.
                 rret (utf8_decode code, Num (of_nat scale))))))
      (opt_bytes (\<lambda>(code, scale). var_octet (utf8_encode code) @ [of_nat (scale_nat scale)]) (details_asset d)) (details_asset d)"
    by (simp add: option.map_id)
  show ?thesis unfolding read_token_def token_bytes_def
    by (intro reads_bind [OF reads_readUInt8Number [OF token_flag_bits(1)]] reads_bind [OF t] reads_bind [OF r]
        reads_bind_last [OF a]) (cases d, simp)
qed

section \<open>Credentials\<close>

lemma server_address_valid:
  assumes "isValidIlpAddress address" "segment seg"
  shows "isValidIlpAddress (address @ dot # seg) \<longleftrightarrow> length address + 1 + length seg \<le> ILP_ADDRESS_MAX_LENGTH"
proof -
  have "split_on dot (address @ dot # seg) = split_on dot address @ [seg]"
    by (simp add: split_on_append split_on_no_dot segment_no_dot assms(2))
  then have "ilp_address_regex (address @ dot # seg)"
    using assms by (auto simp: isValidIlpAddress_def ilp_address_regex_def split: list.splits)
  then show ?thesis by (auto simp: isValidIlpAddress_def)
qed

lemma extractLocalAddressSegment_own:
  "segment seg \<Longrightarrow> extractLocalAddressSegment server (serverAddress server @ dot # seg) = Some seg"
  by (auto simp: extractLocalAddressSegment_def split_on_no_dot segment_no_dot segment_def)

definition connection_token :: "crypto_lib \<Rightarrow> buffer \<Rightarrow> stream_server \<Rightarrow> ConnectionDetails \<Rightarrow> buffer" where
  "connection_token lib iv server d = encrypt lib iv (connectionTokenKeyGen server) [token_bytes d]"

lemma connection_token_segment:
  "aead lib \<Longrightarrow> length iv = 12 \<Longrightarrow> segment (base64url (connection_token lib iv server d))"
  using encrypt_facts(1) [of lib iv "connectionTokenKeyGen server" "[token_bytes d]"]
  by (intro base64url_segment) (auto simp: connection_token_def)

lemma decryptToken_own:
  assumes "aead lib" "length iv = 12" "details_ok d"
  shows "decryptToken lib server (connection_token lib iv server d) = Some d"
  using receiver_decrypt_encrypt [OF assms(1,2)] reads_run [OF reads_token [OF assms(3)], of "[]"]
  by (simp add: decryptToken_def connection_token_def)

lemma generateCredentials_value:
  assumes "aead lib" "length iv = 12" "length scratch = TOKEN_GENERATION_LENGTH" "details_ok d"
    "isValidIlpAddress (serverAddress server)"
  shows "generateCredentials lib iv scratch server d =
    (let token = connection_token lib iv server d
     in if length (serverAddress server) + 1 + length (base64url token) \<le> ILP_ADDRESS_MAX_LENGTH
        then Inr \<lparr>ilpAddress = serverAddress server @ dot # base64url token,
                  sharedSecret = lib_hmac lib (sharedSecretKeyGen server) token\<rparr>
        else Inl (Error ''Failed to generate credentials: too much data to encode within an ILP address''))"
proof -
  note ok = assms(4) [unfolded details_ok_def]
  have "written (write_token d) (new_writer_buffer scratch) = Inr (token_bytes d)"
    using ok assms(3) by (intro written_emits_buffer emits_token assms(4)) simp
  moreover have "receiver_encrypt lib iv (connectionTokenKeyGen server) (token_bytes d) = connection_token lib iv server d"
    by (simp add: receiver_encrypt_eq connection_token_def)
  ultimately show ?thesis
    using ok server_address_valid [OF assms(5) connection_token_segment [OF assms(1,2)]]
    by (auto simp: generateCredentials_def Let_def split: option.splits prod.splits)
qed

text \<open>The characters of the base64 encoding of \<open>n\<close> bytes without padding, and the size of a token.\<close>

definition base64_size :: "nat \<Rightarrow> nat" where
  "base64_size n = (4 * n + 2) div 3"

lemma base64url_size: "length (base64url bs) = base64_size (length bs)"
proof -
  have "length (sextets bs) = (4 * length bs + 2) div 3" 
  proof (induction bs rule: sextets.induct)
    case (4 x y z r)
    have l: "length (x # y # z # r) = length r + 3" by simp
    have "length (sextets (x # y # z # r)) = (4 * length r + 2) div 3 + 4" using 4 by simp
    also have "\<dots> = (4 * (length r + 3) + 2) div 3" by presburger
    finally show ?case by (simp only: l)
  qed simp_all
  then show ?thesis by (simp add: base64url_def strip_padding_encode base64_size_def)
qed

lemma connection_token_size:
  assumes "aead lib" "length iv = 12"
  shows "length (connection_token lib iv server d) = 28 + length (token_bytes d)"
  using encrypt_facts(1) [OF assms, of "connectionTokenKeyGen server" "[token_bytes d]"] by (simp add: connection_token_def)

text \<open>
  C37. Credentials are self-contained: for details the server can represent, \<open>generateCredentials\<close> succeeds exactly when the server's address, a dot and
  the base64 text of the token, 28 bytes and the encoded details, have at most 1023 characters together, and is refused with an error otherwise. It then returns a valid address
  below the server's own from which the same server
  recovers the details (payment tag, receipt secret and nonce, asset) and the shared secret it gave to the client, without
  any stored state.
\<close>

theorem credentials_decode:
  assumes "aead lib" and "length iv = 12" and "length scratch = TOKEN_GENERATION_LENGTH" and "details_ok d"
    and "new_server lib serverSecret address = Inr server"
  shows "if length address + 1 + base64_size (28 + length (token_bytes d)) \<le> 1023
    then \<exists>cred seg. generateCredentials lib iv scratch server d = Inr cred \<and> isValidIlpAddress (ilpAddress cred)
        \<and> ilpAddress cred = address @ dot # seg
        \<and> extractLocalAddressSegment server (ilpAddress cred) = Some seg
        \<and> decryptToken lib server (base64_decode seg) = Some d
        \<and> sharedSecret cred = lib_hmac lib (sharedSecretKeyGen server) (base64_decode seg)
        \<and> decodePaymentTag lib server (ilpAddress cred) = paymentTag d
    else generateCredentials lib iv scratch server d
        = Inl (Error ''Failed to generate credentials: too much data to encode within an ILP address'')"
proof -
  have s: "serverAddress server = address" "isValidIlpAddress address"
    using assms(5) by (auto simp: new_server_def split: if_splits)
  let ?t = "connection_token lib iv server d"
  note seg = connection_token_segment [OF assms(1,2), of server d]
  have ex: "extractLocalAddressSegment server (address @ dot # base64url ?t) = Some (base64url ?t)"
    using extractLocalAddressSegment_own [OF seg, of server] s by simp
  have dec: "decryptToken lib server (base64_decode (base64url ?t)) = Some d"
    using decryptToken_own [OF assms(1,2,4)] by (simp add: base64url_roundtrip)
  have size': "length (base64url ?t) = base64_size (28 + length (token_bytes d))"
    using connection_token_size [OF assms(1,2)] by (simp add: base64url_size)
  show ?thesis
  proof (cases "length address + 1 + length (base64url ?t) \<le> ILP_ADDRESS_MAX_LENGTH")
    case True
    then have "generateCredentials lib iv scratch server d = Inr \<lparr>ilpAddress = address @ dot # base64url ?t,
        sharedSecret = lib_hmac lib (sharedSecretKeyGen server) ?t\<rparr>"
      using generateCredentials_value [OF assms(1-4), of server] s by (simp add: Let_def)
    moreover have "isValidIlpAddress (address @ dot # base64url ?t)"
      using True server_address_valid [OF s(2) seg] by simp
    moreover have "length address + 1 + base64_size (28 + length (token_bytes d)) \<le> 1023"
      using True by (simp add: size' ILP_ADDRESS_MAX_LENGTH_def)
    ultimately show ?thesis using ex dec by (simp add: decodePaymentTag_def base64url_roundtrip)
  next
    case False
    then have "\<not> length address + 1 + base64_size (28 + length (token_bytes d)) \<le> 1023"
      by (simp add: size' ILP_ADDRESS_MAX_LENGTH_def)
    then show ?thesis using False generateCredentials_value [OF assms(1-4), of server] s by (simp add: Let_def)
  qed
qed

definition sample_details :: ConnectionDetails where
  "sample_details = \<lparr>paymentTag = Some (js ''invoice-7''), receiptSetup = Some (replicate 16 1, replicate 32 2),
     details_asset = Some (js ''USD'', Num 2)\<rparr>"

lemma sample_details_ok: "details_ok sample_details"
proof -
  have "ildcp_isValidAssetScale (Num 2)" by (simp add: ildcp_isValidAssetScale_def)
  then show ?thesis
    by (simp add: sample_details_def details_ok_def TOKEN_GENERATION_LENGTH_def token_bytes_def opt_bytes_def
        tag_buffer_def js_def is_ascii_def is_high_def is_low_def var_octet_def length_prefix_length
        utf8_encode_def utf8_bytes_def scalar_of_unit_def)
qed

definition sample_server :: stream_server where
  "sample_server = \<lparr>serverAddress = js ''g.shop'', sharedSecretKeyGen = replicate 32 0,
     connectionTokenKeyGen = replicate 32 0\<rparr>"

lemma sample_new_server: "new_server null_lib (replicate 32 9) (js ''g.shop'') = Inr sample_server"
proof -
  have "isValidIlpAddress (js ''g.shop'')"
    by (simp add: isValidIlpAddress_def ilp_address_regex_def ILP_ADDRESS_MAX_LENGTH_def js_def dot_def
        schemes_def segment_def address_char_def)
  then show ?thesis by (simp add: new_server_def sample_server_def null_lib_def)
qed

theorem credentials_decode_witness:
  "\<exists>cred seg. generateCredentials null_lib (replicate 12 0) (replicate 767 0) sample_server sample_details = Inr cred
     \<and> isValidIlpAddress (ilpAddress cred) \<and> ilpAddress cred = js ''g.shop'' @ dot # seg
     \<and> decryptToken null_lib sample_server (base64_decode seg) = Some sample_details
     \<and> decodePaymentTag null_lib sample_server (ilpAddress cred) = Some (js ''invoice-7'')"
proof -
  have "length (js ''g.shop'') + 1 + base64_size (28 + length (token_bytes sample_details)) \<le> 1023"
    by (simp add: base64_size_def sample_details_def token_bytes_def opt_bytes_def
        tag_buffer_def js_def is_ascii_def is_high_def is_low_def var_octet_def length_prefix_length
        utf8_encode_def utf8_bytes_def scalar_of_unit_def)
  moreover have "paymentTag sample_details = Some (js ''invoice-7'')" by (simp add: sample_details_def)
  ultimately show ?thesis
    using credentials_decode [OF null_lib_ok(1) _ _ sample_details_ok sample_new_server, of "replicate 12 0" "replicate 767 0"]
    by (simp add: TOKEN_GENERATION_LENGTH_def) blast
qed

section \<open>What the receiver fulfills\<close>

lemma finish_reject_cases: "finish_reject r = Inr x \<Longrightarrow> \<exists>j. x = Finished (RejectReply j)"
  by (auto simp: finish_reject_def)

text \<open>The STREAM request of a prepare, as the server of its connection sees it.\<close>

definition server_request ::
  "crypto_lib \<Rightarrow> stream_server \<Rightarrow> IlpPrepare \<Rightarrow> ConnectionDetails \<Rightarrow> buffer \<Rightarrow> stream_packet \<Rightarrow> bool" where
  "server_request lib server p details secret q \<longleftrightarrow>
     (\<exists>seg. extractLocalAddressSegment server (destination p) = Some seg
        \<and> decryptToken lib server (base64_decode seg) = Some details
        \<and> secret = lib_hmac lib (sharedSecretKeyGen server) (base64_decode seg)
        \<and> ebind (receiver_decrypt lib (lib_hmac lib secret (utf8 ''ilp_stream_encryption'')) (prep_data p))
            deserializeUnencrypted = Inr q)"

definition expected_fulfillment :: "crypto_lib \<Rightarrow> buffer \<Rightarrow> IlpPrepare \<Rightarrow> buffer" where
  "expected_fulfillment lib secret p = lib_hmac lib (lib_hmac lib secret (utf8 ''ilp_stream_fulfillment'')) (prep_data p)"

definition received_amount :: "IlpPrepare \<Rightarrow> u64" where
  "received_amount p = long_bits (long_fromDecimal (prep_amount p) True)"

text \<open>The part of \<open>createReply\<close> after the request was authenticated.\<close>

definition base_reply :: "crypto_lib \<Rightarrow> stream_server \<Rightarrow> buffer \<Rightarrow> stream_packet \<Rightarrow> u64 \<Rightarrow> reply_builder" where
  "base_reply lib server secret q amt =
     \<lparr>encryptionKey = Some (lib_hmac lib secret (utf8 ''ilp_stream_encryption'')), rb_sequence = sequence q,
      receivedAmount = amt, rb_frames = [], rb_ilpAddress = serverAddress server\<rparr>"

definition reply_frames_for :: "ConnectionDetails \<Rightarrow> stream_packet \<Rightarrow> frame list" where
  "reply_frames_for details q =
     (case details_asset details of
        Some asset \<Rightarrow> if list_ex is_new_address (frames q) then [asset_frame asset] else []
      | None \<Rightarrow> [])"

lemma createReply_authentic:
  assumes "server_request lib server p details secret q" "ilpPacketType q = type_byte Prepare"
    "isUInt64 (prep_amount p)"
  defines "b \<equiv> base_reply lib server secret q (received_amount p)"
    and "b' \<equiv> (base_reply lib server secret q (received_amount p))\<lparr>rb_frames := reply_frames_for details q\<rparr>"
  shows "createReply lib iv server p =
    (if list_ex is_close (frames q)
     then finish_reject (buildReject lib iv ''F99'' (reply_addFrames [ConnectionClose NoError []] b))
     else if received_amount p < prepareAmount q \<or> lib_sha256 lib (expected_fulfillment lib secret p) \<noteq> executionCondition p
     then finish_reject (buildReject lib iv ''F99'' b')
     else if received_amount p = 0
     then ebind (buildFulfill lib iv (expected_fulfillment lib secret p) b') (\<lambda>f. Inr (Finished (FulfillReply f)))
     else Inr (Money \<lparr>connectionId = hex_encode (lib_sha256 lib (ascii_encode (destination p))),
        im_paymentTag = paymentTag details, im_receiptSetup = receiptSetup details,
        im_fulfillment = expected_fulfillment lib secret p, im_reply = b'\<rparr>))"
proof -
  obtain seg where seg: "extractLocalAddressSegment server (destination p) = Some seg"
      "decryptToken lib server (base64_decode seg) = Some details"
      "secret = lib_hmac lib (sharedSecretKeyGen server) (base64_decode seg)"
      "ebind (receiver_decrypt lib (lib_hmac lib secret (utf8 ''ilp_stream_encryption'')) (prep_data p))
         deserializeUnencrypted = Inr q"
    using assms(1) unfolding server_request_def by blast
  obtain n where n: "n < 2 ^ 64" "prep_amount p = dec_of_nat n" using assms(3) isUInt64_iff by blast
  have hd: "hd (dec_of_nat n) \<noteq> minus_sign" using dec_of_nat_Cons [of n] by (metis list.sel(1))
  have "stream_longFromValue (StrV (prep_amount p)) True = Inr (long_fromDecimal (prep_amount p) True)"
    using n hd assms(3) by (simp add: isUInt64_def)
  then have r: "setReceivedAmount (StrV (prep_amount p)) (reply_setSequence (sequence q)
      (setEncryptionKey (lib_hmac lib secret (utf8 ''ilp_stream_encryption''))
        (setIlpAddress (serverAddress server) new_reply_builder))) = Inr b"
    by (simp add: setReceivedAmount_def b_def base_reply_def reply_setSequence_def setEncryptionKey_def
        setIlpAddress_def new_reply_builder_def received_amount_def)
  have fr: "(case details_asset details of
        Some asset \<Rightarrow> if list_ex is_new_address (frames q) then reply_addFrames [asset_frame asset] b else b
      | None \<Rightarrow> b) = b'"
    by (simp add: b_def b'_def base_reply_def reply_frames_for_def reply_addFrames_def split: option.splits)
  show ?thesis
    unfolding createReply_def Let_def seg(1) option.case seg(2) seg(3) [symmetric] seg(4) sum.case
    by (simp add: assms(2) r fr expected_fulfillment_def received_amount_def del: type_byte.simps)
qed

lemma createReply_inauthentic:
  assumes "\<nexists>details secret q. server_request lib server p details secret q \<and> ilpPacketType q = type_byte Prepare"
  shows "\<exists>code \<in> {''F00'', ''F02'', ''F06''}.
    createReply lib iv server p = Inr (Finished (RejectReply
      \<lparr>rej_code = js code, triggeredBy = serverAddress server, rej_message = [], rej_data = []\<rparr>))"
proof (cases "extractLocalAddressSegment server (destination p)")
  case None
  then show ?thesis
    by (simp add: createReply_def finish_reject_def buildReject_def buildData_def new_reply_builder_def setIlpAddress_def)
next
  case (Some seg)
  show ?thesis
  proof (cases "decryptToken lib server (base64_decode seg)")
    case None
    with Some show ?thesis
      by (simp add: createReply_def finish_reject_def buildReject_def buildData_def new_reply_builder_def setIlpAddress_def)
  next
    case (Some details)
    let ?secret = "lib_hmac lib (sharedSecretKeyGen server) (base64_decode seg)"
    let ?q = "ebind (receiver_decrypt lib (lib_hmac lib ?secret (utf8 ''ilp_stream_encryption'')) (prep_data p))
        deserializeUnencrypted"
    note seg = \<open>extractLocalAddressSegment server (destination p) = Some seg\<close>
    have "\<And>q. ?q = Inr q \<Longrightarrow> ilpPacketType q \<noteq> type_byte Prepare"
      using assms seg Some unfolding server_request_def by blast
    then show ?thesis
      by (cases ?q) (simp_all add: createReply_def Let_def seg Some finish_reject_def buildReject_def buildData_def
          new_reply_builder_def setIlpAddress_def del: type_byte.simps ebind_eq_Inr)
  qed
qed

definition authentic_request ::
  "crypto_lib \<Rightarrow> stream_server \<Rightarrow> IlpPrepare \<Rightarrow> ConnectionDetails \<Rightarrow> stream_packet \<Rightarrow> buffer \<Rightarrow> bool" where
  "authentic_request lib server p details q f \<longleftrightarrow>
     (\<exists>secret. server_request lib server p details secret q \<and> ilpPacketType q = type_byte Prepare
        \<and> f = expected_fulfillment lib secret p \<and> lib_sha256 lib f = executionCondition p
        \<and> prepareAmount q \<le> received_amount p \<and> \<not> list_ex is_close (frames q))"

text \<open>The request of a prepare is determined by the prepare, so whether it may be fulfilled is, too.\<close>

lemma server_request_unique:
  "server_request lib server p d s q \<Longrightarrow> server_request lib server p d' s' q' \<Longrightarrow> d' = d \<and> s' = s \<and> q' = q"
  unfolding server_request_def by (metis Inr_inject option.inject)

lemma authentic_iff:
  assumes "server_request lib server p d s q" "ilpPacketType q = type_byte Prepare"
  shows "(\<exists>d q f. authentic_request lib server p d q f) \<longleftrightarrow>
    lib_sha256 lib (expected_fulfillment lib s p) = executionCondition p \<and> prepareAmount q \<le> received_amount p \<and> \<not> list_ex is_close (frames q)"
  using assms(2) server_request_unique [OF assms(1)] assms(1) unfolding authentic_request_def by blast

text \<open>For details that a token of the server can hold, the STREAM packet of the reply can be written.\<close>

lemma asset_code_short: "details_ok d \<Longrightarrow> details_asset d = Some (code, scale) \<Longrightarrow> length (utf8_encode code) \<le> 767"
  by (simp add: details_ok_def token_bytes_def opt_bytes_def var_octet_def TOKEN_GENERATION_LENGTH_def)

lemma reply_frames_ok:
  assumes "details_ok d"
  shows "list_all frame_ok (reply_frames_for d q)" "length (reply_frames_for d q) \<le> 1"
    "length (concat (map frame_bytes (reply_frames_for d q))) \<le> 1000"
proof -
  have "frame_ok (asset_frame x) \<and> length (frame_bytes (asset_frame x)) \<le> 1000" if x: "details_asset d = Some x" for x
  proof -
    obtain code scale where cs: "x = (code, scale)" by force
    have l: "length (utf8_encode code) \<le> 767" using asset_code_short [OF assms] x cs by simp
    have v: "ildcp_isValidAssetScale scale" "well_formed code" using assms x cs by (auto simp: details_ok_def)
    from scale_of_nat [OF v(1)] have f: "asset_frame x = ConnectionAssetDetails code (scale_nat scale)" "scale_nat scale < 256"
      using cs by (metis asset_frame.simps(1) scale_nat.simps(1), simp)
    have "length (var_octet (utf8_encode code)) \<le> 774" using l var_octet_length_le [of "utf8_encode code"] by simp
    then have "length (contents_bytes (asset_frame x)) \<le> 775" by (simp add: f contents_bytes_def)
    then show ?thesis using var_octet_length_le [of "contents_bytes (asset_frame x)"] f(2) l v(2)
      by (simp add: f(1) frame_ok_def frame_bytes_def)
  qed
  then show "list_all frame_ok (reply_frames_for d q)" "length (reply_frames_for d q) \<le> 1"
    "length (concat (map frame_bytes (reply_frames_for d q))) \<le> 1000"
    by (auto simp: reply_frames_for_def split: option.splits)
qed

lemma close_packet_ok: "packet_ok \<lparr>sequence = n, ilpPacketType = type_byte Reject, prepareAmount = amt, frames = [ConnectionClose NoError []]\<rparr>"
  by (simp add: packet_ok_def frame_ok_def NoError_def utf8_encode_def)

lemma replies_written:
  assumes "details_ok d"
  shows "\<exists>j. finish_reject (buildReject lib iv code ((base_reply lib server s q amt)\<lparr>rb_frames := reply_frames_for d q\<rparr>)) = Inr j"
    "\<exists>j. finish_reject (buildReject lib iv code (reply_addFrames [ConnectionClose NoError []] (base_reply lib server s q amt))) = Inr j"
    "\<exists>f'. buildFulfill lib iv f ((base_reply lib server s q amt)\<lparr>rb_frames := reply_frames_for d q\<rparr>) = Inr f'"
proof -
  have ok: "packet_ok \<lparr>sequence = sequence q, ilpPacketType = t, prepareAmount = amt, frames = reply_frames_for d q\<rparr>" if "t < 256" for t
    using reply_frames_ok [OF assms, of q] that by (simp add: packet_ok_def)
  have t: "type_byte Reject < 256" "type_byte Fulfill < 256" by simp_all
  note bytes = serialize_bytes [OF ok [OF t(1)]] serialize_bytes [OF ok [OF t(2)]] serialize_bytes [OF close_packet_ok]
  show "\<exists>j. finish_reject (buildReject lib iv code ((base_reply lib server s q amt)\<lparr>rb_frames := reply_frames_for d q\<rparr>)) = Inr j"
    "\<exists>j. finish_reject (buildReject lib iv code (reply_addFrames [ConnectionClose NoError []] (base_reply lib server s q amt))) = Inr j"
    "\<exists>f'. buildFulfill lib iv f ((base_reply lib server s q amt)\<lparr>rb_frames := reply_frames_for d q\<rparr>) = Inr f'"
    using bytes by (simp_all add: finish_reject_def buildReject_def buildFulfill_def buildData_def base_reply_def reply_addFrames_def del: type_byte.simps)
qed

text \<open>
  C5. The receiver fulfills what it should and nothing else. Money is offered to the application, or a packet of amount zero
  fulfilled, only when the address carries a token of this server, the data decrypts under the
  connection's secret to a STREAM Prepare without a connection close, the amount that arrived is at least the minimum the sender asked for,
  and the fulfillment derived from the data hashes to the condition; the payment tag and receipt setup handed to the application are the token's.
  Every other prepare gets a reject in the server's name, whatever its address and data are, and only such a prepare does. No prepare makes the
  call throw, except when the token is authentic and holds details that no token of the server holds (\<open>details_ok\<close>). The amount of
  the prepare is the text of an unsigned 64-bit number, as in every decoded packet.
\<close>

theorem createReply_safe:
  assumes "isUInt64 (prep_amount p)"
  shows "case createReply lib iv server p of
      Inr (Money m) \<Rightarrow> received_amount p \<noteq> 0 \<and> (\<exists>details q. authentic_request lib server p details q (im_fulfillment m)
        \<and> im_paymentTag m = paymentTag details \<and> im_receiptSetup m = receiptSetup details)
    | Inr (Finished (FulfillReply f)) \<Rightarrow> received_amount p = 0 \<and> (\<exists>details q. authentic_request lib server p details q (fulfillment f))
    | Inr (Finished (RejectReply j)) \<Rightarrow> \<not> (\<exists>details q f. authentic_request lib server p details q f)
        \<and> triggeredBy j = serverAddress server \<and> rej_code j \<in> {js ''F00'', js ''F02'', js ''F06'', js ''F99''}
    | Inl e \<Rightarrow> \<exists>details secret q. server_request lib server p details secret q \<and> \<not> details_ok details"
proof (cases "\<exists>details secret q. server_request lib server p details secret q \<and> ilpPacketType q = type_byte Prepare")
  case True
  then obtain details secret q where q: "server_request lib server p details secret q" "ilpPacketType q = type_byte Prepare"
    by blast
  define f where "f = expected_fulfillment lib secret p"
  define good where "good \<longleftrightarrow> lib_sha256 lib f = executionCondition p \<and> prepareAmount q \<le> received_amount p \<and> \<not> list_ex is_close (frames q)"
  have auth: "authentic_request lib server p details q f" if good
    using q that unfolding authentic_request_def good_def f_def by blast
  have iff: "(\<exists>d q f. authentic_request lib server p d q f) \<longleftrightarrow> good"
    unfolding good_def f_def by (rule authentic_iff [OF q])
  define rb where "rb = (if list_ex is_close (frames q)
    then reply_addFrames [ConnectionClose NoError []] (base_reply lib server secret q (received_amount p))
    else (base_reply lib server secret q (received_amount p))\<lparr>rb_frames := reply_frames_for details q\<rparr>)"
  have name: "rb_ilpAddress rb = serverAddress server" by (simp add: rb_def reply_addFrames_def base_reply_def)
  have c: "createReply lib iv server p =
    (if \<not> good then finish_reject (buildReject lib iv ''F99'' rb)
     else if received_amount p = 0 then ebind (buildFulfill lib iv f rb) (\<lambda>f. Inr (Finished (FulfillReply f)))
     else Inr (Money \<lparr>connectionId = hex_encode (lib_sha256 lib (ascii_encode (destination p))),
        im_paymentTag = paymentTag details, im_receiptSetup = receiptSetup details, im_fulfillment = f, im_reply = rb\<rparr>))"
    unfolding createReply_authentic [OF q assms] good_def f_def rb_def by (auto simp: not_less)
  have thrown: "\<exists>d s q. server_request lib server p d s q \<and> \<not> details_ok d" if "createReply lib iv server p = Inl e" for e
  proof -
    have "\<not> details_ok details"
    proof
      assume ok: "details_ok details"
      have "\<exists>j. finish_reject (buildReject lib iv ''F99'' rb) = Inr j" by (simp add: rb_def replies_written [OF ok])
      moreover have "\<exists>f'. buildFulfill lib iv f rb = Inr f'" if good using that by (simp add: rb_def good_def replies_written [OF ok])
      ultimately show False using that by (auto simp: c split: if_splits)
    qed
    with q(1) show ?thesis by blast
  qed
  show ?thesis
  proof (cases "createReply lib iv server p")
    case (Inl e)
    with thrown show ?thesis by simp
  next
    case (Inr reply)
    show ?thesis
    proof (cases "\<not> good")
      case True
      then obtain j where "reply = Finished (RejectReply j)" "triggeredBy j = serverAddress server" "rej_code j = js ''F99''"
        using Inr name by (auto simp: c finish_reject_def buildReject_def)
      then show ?thesis using Inr iff True by simp
    next
      case False
      then show ?thesis
        using Inr auth iff by (auto simp: c buildFulfill_def split: if_splits intro!: exI [of _ details] exI [of _ q])
    qed
  qed
next
  case False
  then have "\<not> (\<exists>details q f. authentic_request lib server p details q f)" unfolding authentic_request_def by blast
  then show ?thesis using createReply_inauthentic [OF False, of iv] by auto
qed

section \<open>A sender and a receiver\<close>

lemma received_amount_dec: "a \<le> MAX_U64 \<Longrightarrow> received_amount (p\<lparr>prep_amount := dec_of_nat a\<rparr>) = of_nat a"
  by (simp add: received_amount_def long_fromDecimal_def)

lemma unat_amount: "a \<le> MAX_U64 \<Longrightarrow> unat (of_nat a :: u64) = a"
  by (intro unat_of_nat_u64) simp

lemma credentials_request:
  assumes "aead lib" "length iv = 12" "length iv1 = 12" "details_ok d" "length scratch = TOKEN_GENERATION_LENGTH"
    "isValidIlpAddress (serverAddress server)" "generateCredentials lib iv scratch server d = Inr cred"
    "request_ok r" "req_destinationAddress r = ilpAddress cred"
  shows "server_request lib server ((request_prepare lib iv1 (sharedSecret cred) r)\<lparr>prep_amount := am\<rparr>) d
      (sharedSecret cred) (request_contents r)"
proof -
  let ?t = "connection_token lib iv server d" and ?s = "sharedSecret cred"
  have cred: "ilpAddress cred = serverAddress server @ dot # base64url ?t" "?s = lib_hmac lib (sharedSecretKeyGen server) ?t"
    using generateCredentials_value [OF assms(1,2,5,4,6)] assms(7) by (auto simp: Let_def split: if_splits)
  have "packet_ok (request_contents r)"
    using assms(8) by (simp add: request_ok_def packet_ok_def request_contents_def)
  from reads_run [OF reads_packet [OF this], of "[]"]
  have "ebind (receiver_decrypt lib (lib_hmac lib ?s (utf8 ''ilp_stream_encryption'')) (request_data lib iv1 ?s r))
      deserializeUnencrypted = Inr (request_contents r)"
    using receiver_decrypt_encrypt [OF assms(1,3)]
    by (simp add: request_data_def generateEncryptionKey_def deserializeUnencrypted_def)
  then show ?thesis unfolding server_request_def
    using extractLocalAddressSegment_own [OF connection_token_segment [OF assms(1,2)], of server server d]
      decryptToken_own [OF assms(1,2,4), of server] cred assms(9)
    by (intro exI [of _ "base64url ?t"]) (simp add: request_prepare_def base64url_roundtrip)
qed

lemma reply_packet_ok:
  fixes d q n amt t
  assumes "details_ok d" "t < 256"
  defines "q' \<equiv> \<lparr>sequence = n, ilpPacketType = t, prepareAmount = amt, frames = reply_frames_for d q\<rparr>"
  shows "packet_ok q'" "length (packet_bytes q') < 2 ^ 46"
proof -
  note fs = reply_frames_ok [OF assms(1), of q]
  show "packet_ok q'" using fs assms(2) by (simp add: packet_ok_def q'_def)
  have "length (var_uint (length (reply_frames_for d q))) \<le> 9" by (rule var_uint_length_le) (use fs(2) in simp)
  then show "length (packet_bytes q') < 2 ^ 46"
    using fs(3) var_uint_length_le [OF unat_u64_less, of n] var_uint_length_le [OF unat_u64_less, of amt]
    by (simp add: packet_bytes_def q'_def)
qed

definition offered_money ::
  "crypto_lib \<Rightarrow> buffer \<Rightarrow> stream_server \<Rightarrow> ConnectionDetails \<Rightarrow> buffer \<Rightarrow> stream_request \<Rightarrow> nat \<Rightarrow> incoming_money" where
  "offered_money lib iv1 server d secret r a =
     \<lparr>connectionId = hex_encode (lib_sha256 lib (ascii_encode (req_destinationAddress r))),
      im_paymentTag = paymentTag d, im_receiptSetup = receiptSetup d,
      im_fulfillment = request_fulfillment lib iv1 secret r,
      im_reply = (base_reply lib server secret (request_contents r) (of_nat a))
        \<lparr>rb_frames := reply_frames_for d (request_contents r)\<rparr>\<rparr>"

lemma createReply_offers:
  assumes "aead lib" "length iv = 12" "length iv1 = 12" "details_ok d" "length scratch = TOKEN_GENERATION_LENGTH"
    "isValidIlpAddress (serverAddress server)" "generateCredentials lib iv scratch server d = Inr cred"
    "request_ok r" "req_destinationAddress r = ilpAddress cred" "\<not> list_ex is_close (req_frames r)"
    "req_minDestinationAmount r \<le> a" "0 < a" "a \<le> MAX_U64"
  shows "createReply lib iv2 server ((request_prepare lib iv1 (sharedSecret cred) r)\<lparr>prep_amount := dec_of_nat a\<rparr>)
    = Inr (Money (offered_money lib iv1 server d (sharedSecret cred) r a))"
proof -
  let ?s = "sharedSecret cred" and ?q = "request_contents r"
  let ?p' = "(request_prepare lib iv1 ?s r)\<lparr>prep_amount := dec_of_nat a\<rparr>"
  have sr: "server_request lib server ?p' d ?s ?q" by (rule credentials_request [OF assms(1-9)])
  have am: "received_amount ?p' = of_nat a" "isUInt64 (prep_amount ?p')"
    using assms(13) by (simp_all add: received_amount_dec dec_of_nat_isUInt64)
  have nonzero: "(of_nat a :: u64) \<noteq> 0" using assms(12,13) unat_amount [of a] by (metis less_irrefl unat_0)
  have enough: "\<not> of_nat a < prepareAmount ?q"
    using assms(8,11,13) by (simp add: request_contents_def word_less_nat_alt unat_amount request_ok_def)
  have ef: "expected_fulfillment lib ?s ?p' = request_fulfillment lib iv1 ?s r"
    by (simp add: expected_fulfillment_def request_fulfillment_def request_prepare_def pay_generateFulfillmentKey_def)
  show ?thesis
    using createReply_authentic [OF sr _ am(2), of iv2] am(1) nonzero enough assms(10)
    unfolding ef by (simp add: request_contents_def request_prepare_def offered_money_def)
qed

text \<open>
  C4. The two ends agree. A sender that uses credentials of the server sends a fulfillable request; connectors deliver
  the packet with the amount \<open>a\<close>, at least the minimum of the request. Then the receiver offers the
  money with the payment tag of the credentials; if the application accepts it, the sender verifies the fulfillment,
  authenticates the STREAM reply and learns that exactly \<open>a\<close> was delivered.
\<close>

theorem payment_packet_fulfilled:
  assumes "aead lib" and "digests lib" and "length iv = 12" and "length iv1 = 12" and "length iv2 = 12"
    and "new_server lib serverSecret address = Inr server" and "details_ok d"
    and "length scratch = TOKEN_GENERATION_LENGTH"
    and "generateCredentials lib iv scratch server d = Inr cred"
    and "request_ok r" and "isFulfillable r" and "req_destinationAddress r = ilpAddress cred"
    and "length (packet_bytes (request_contents r)) < 2 ^ 46" and "\<not> list_ex is_close (req_frames r)"
    and "req_minDestinationAmount r \<le> a" and "0 < a" and "a \<le> MAX_U64"
  shows "\<exists>expected bs p m f bs'.
    prepare_request lib iv1 cond (sharedSecret cred) r = Inr (Some expected, bs)
    \<and> deserializeIlpPacket bs = Inr (PreparePacket p)
    \<and> createReply lib iv2 server (p\<lparr>prep_amount := dec_of_nat a\<rparr>) = Inr (Money m)
    \<and> im_paymentTag m = paymentTag d
    \<and> accept lib iv2 m = Inr f \<and> serializeIlpReply (FulfillReply f) = Inr bs'
    \<and> receive_reply lib (sharedSecret cred) r (Some expected) (Replied bs')
        = StreamFulfill (Some (reply_frames_for d (request_contents r))) (Some a)"
proof -
  let ?s = "sharedSecret cred" and ?q = "request_contents r"
  let ?p = "request_prepare lib iv1 ?s r" and ?e = "request_fulfillment lib iv1 ?s r"
  let ?p' = "?p\<lparr>prep_amount := dec_of_nat a\<rparr>"
  have server: "isValidIlpAddress (serverAddress server)" using assms(6) by (auto simp: new_server_def split: if_splits)
  obtain bs where bs: "prepare_request lib iv1 cond ?s r = Inr (Some ?e, bs)" "deserializeIlpPacket bs = Inr (PreparePacket ?p)"
    using prepare_request_encoded [OF assms(1,2,4,10,11,13)] by blast
  let ?m = "offered_money lib iv1 server d ?s r a"
  have m: "createReply lib iv2 server ?p' = Inr (Money ?m)"
    by (rule createReply_offers [OF assms(1,3,4,7,8) server assms(9,10,12,14-17)])
  let ?q' = "\<lparr>sequence = of_nat (req_sequence r), ilpPacketType = 13, prepareAmount = of_nat a, frames = reply_frames_for d ?q\<rparr>"
  note ok = reply_packet_ok [OF assms(7), of 13 "of_nat (req_sequence r)" "of_nat a" ?q]
  let ?f = "\<lparr>fulfillment = ?e, fulfill_data = encrypt lib iv2 (generateEncryptionKey lib ?s) [packet_bytes ?q']\<rparr>"
  have acc: "accept lib iv2 ?m = Inr ?f"
    using serialize_bytes [OF ok(1)]
    by (simp add: accept_def buildFulfill_def buildData_def base_reply_def request_contents_def
        receiver_encrypt_eq generateEncryptionKey_def offered_money_def)
  have e32: "length ?e = 32" using assms(2) by (simp add: request_fulfillment_def digests_def)
  obtain bs' where "serializeIlpReply (FulfillReply ?f) = Inr bs'"
      "receive_reply lib ?s r (Some ?e) (Replied bs') = StreamFulfill (Some (reply_frames_for d ?q)) (Some a)"
    using receive_fulfill [OF assms(1,5) ok(1) _ _ ok(2) e32, of r ?s] unat_amount [OF assms(17)] by auto
  with bs m acc show ?thesis
    by (intro exI [of _ ?e] exI [of _ bs] exI [of _ ?p] exI [of _ ?m] exI [of _ ?f] exI [of _ bs'])
      (simp add: offered_money_def)
qed

text \<open>Credentials without details, and a request that uses them.\<close>

definition no_details :: ConnectionDetails where
  "no_details = \<lparr>paymentTag = None, receiptSetup = None, details_asset = None\<rparr>"

definition sample_credentials :: StreamCredentials where
  "sample_credentials = \<lparr>ilpAddress = js ''g.shop'' @ dot # base64url (replicate 29 0), sharedSecret = replicate 32 0\<rparr>"

definition shop_request :: stream_request where
  "shop_request = sample_request\<lparr>req_destinationAddress := ilpAddress sample_credentials\<rparr>"

lemma no_details_ok: "details_ok no_details"
  by (simp add: no_details_def details_ok_def token_bytes_def opt_bytes_def TOKEN_GENERATION_LENGTH_def tag_buffer_def)

lemma sample_server_valid: "isValidIlpAddress (serverAddress sample_server)"
  by (simp add: isValidIlpAddress_def ilp_address_regex_def ILP_ADDRESS_MAX_LENGTH_def js_def dot_def
      schemes_def segment_def address_char_def sample_server_def)

lemma sample_token: "connection_token null_lib (replicate 12 0) sample_server no_details = replicate 29 0"
  by (simp add: connection_token_def encrypt_def null_lib_def token_bytes_def no_details_def opt_bytes_def
      tag_buffer_def token_flags_def) (simp add: numeral_eq_Suc)

lemma sample_address_length: "length (serverAddress sample_server) + 1 + length (base64url (replicate 29 0)) \<le> ILP_ADDRESS_MAX_LENGTH"
  using base64url_length [of "replicate 29 0"] by (simp add: ILP_ADDRESS_MAX_LENGTH_def sample_server_def js_def)

lemma sample_generate:
  "generateCredentials null_lib (replicate 12 0) (replicate 767 0) sample_server no_details = Inr sample_credentials"
  using generateCredentials_value [OF null_lib_ok(1) _ _ no_details_ok sample_server_valid, of "replicate 12 0" "replicate 767 0"]
    sample_token sample_address_length
  by (simp add: TOKEN_GENERATION_LENGTH_def sample_credentials_def Let_def) (simp add: sample_server_def null_lib_def)

lemma shop_request_ok: "request_ok shop_request"
proof -
  have "isValidIlpAddress (ilpAddress sample_credentials)"
    using server_address_valid [OF sample_server_valid base64url_segment] sample_address_length
    by (simp add: sample_credentials_def sample_server_def)
  with sample_request_ok show ?thesis by (simp add: request_ok_def shop_request_def)
qed

lemma shop_request_facts:
  "req_destinationAddress shop_request = ilpAddress sample_credentials" "isFulfillable shop_request"
  "\<not> list_ex is_close (req_frames shop_request)" "req_minDestinationAmount shop_request = 5"
  "length (packet_bytes (request_contents shop_request)) < 2 ^ 46"
  using sample_request_size [of 12] by (simp_all add: shop_request_def sample_request_def request_contents_def)

theorem createReply_safe_witness:
  "\<exists>details q. authentic_request null_lib sample_server
       ((request_prepare null_lib (replicate 12 0) (sharedSecret sample_credentials) shop_request)\<lparr>prep_amount := dec_of_nat 7\<rparr>)
       details q (im_fulfillment (offered_money null_lib (replicate 12 0) sample_server no_details
         (sharedSecret sample_credentials) shop_request 7))"
proof -
  let ?p = "(request_prepare null_lib (replicate 12 0) (sharedSecret sample_credentials) shop_request)\<lparr>prep_amount := dec_of_nat 7\<rparr>"
  have "createReply null_lib (replicate 12 0) sample_server ?p = Inr (Money (offered_money null_lib (replicate 12 0)
      sample_server no_details (sharedSecret sample_credentials) shop_request 7))"
    by (rule createReply_offers [OF null_lib_ok(1) _ _ no_details_ok _ sample_server_valid sample_generate shop_request_ok
          shop_request_facts(1,3)]) (simp_all add: TOKEN_GENERATION_LENGTH_def shop_request_facts(4))
  with createReply_safe [where p = ?p and lib = null_lib and iv = "replicate 12 0" and server = sample_server] show ?thesis by (auto simp: dec_of_nat_isUInt64)
qed

theorem payment_packet_fulfilled_witness:
  "\<exists>expected bs p m f bs'.
    prepare_request null_lib (replicate 12 0) [] (sharedSecret sample_credentials) shop_request = Inr (Some expected, bs)
    \<and> deserializeIlpPacket bs = Inr (PreparePacket p)
    \<and> createReply null_lib (replicate 12 0) sample_server (p\<lparr>prep_amount := dec_of_nat 7\<rparr>) = Inr (Money m)
    \<and> im_paymentTag m = paymentTag no_details
    \<and> accept null_lib (replicate 12 0) m = Inr f \<and> serializeIlpReply (FulfillReply f) = Inr bs'
    \<and> receive_reply null_lib (sharedSecret sample_credentials) shop_request (Some expected) (Replied bs')
        = StreamFulfill (Some (reply_frames_for no_details (request_contents shop_request))) (Some 7)"
  by (rule payment_packet_fulfilled [OF null_lib_ok _ _ _ sample_new_server no_details_ok _ sample_generate shop_request_ok
        shop_request_facts(2,1,5,3)]) (simp_all add: TOKEN_GENERATION_LENGTH_def shop_request_facts(4))

end
