(* ===== verification/Payment_Pointer.thy ===== *)
theory Payment_Pointer
  imports Ilp_Address
begin

text \<open>
  \<^verbatim>\<open>pay/src/payment-pointer.ts\<close>, and \<open>resolvePaymentPointer\<close> of \<^verbatim>\<open>ilp-spsp-payout/src/lib/PayoutConnection.ts\<close>.

  The parser of the \<open>URL\<close> class is an argument: \<open>None\<close> when the constructor throws, otherwise the components it
  reports. \<open>url_laws\<close> is what the URL standard says of it: the protocol is the scheme of the string, and putting together
  the components of an HTTP URL without credentials and port, with its own path, its path without the last slash, the default
  path or no path, and parsing the result gives these components back, an empty path as \<open>/\<close>.
\<close>

section \<open>URLs\<close>

record url =
  ur_protocol :: jsstring
  ur_username :: jsstring
  ur_password :: jsstring
  ur_hostname :: jsstring
  ur_port :: jsstring
  ur_pathname :: jsstring
  ur_search :: jsstring
  ur_hash :: jsstring

type_synonym url_parser = "jsstring \<Rightarrow> url option"

definition createHttpUrl :: "url_parser \<Rightarrow> jsstring \<Rightarrow> url option" where
  "createHttpUrl parse rawUrl =
     (case parse rawUrl of
        None \<Rightarrow> None
      | Some u \<Rightarrow> if ur_protocol u = js ''https:'' \<or> ur_protocol u = js ''http:'' then Some u else None)"

section \<open>Accounts\<close>

definition DEFAULT_PATH :: jsstring where "DEFAULT_PATH = js ''/.well-known/pay''"

record account_url =
  au_protocol :: jsstring
  au_hostname :: jsstring
  au_path :: "jsstring option"
  au_suffix :: jsstring

definition slash :: code_unit where "slash = 47"

definition strip_slash :: "jsstring \<Rightarrow> jsstring" where
  "strip_slash s = (if s \<noteq> [] \<and> last s = slash then butlast s else s)"

definition AccountUrl :: "url \<Rightarrow> account_url" where
  "AccountUrl u =
     (let pathname = strip_slash (ur_pathname u)
      in \<lparr>au_protocol = ur_protocol u, au_hostname = ur_hostname u,
          au_path = (if \<not> (pathname = [] \<or> pathname = DEFAULT_PATH) then Some pathname else None),
          au_suffix = ur_search u @ ur_hash u\<rparr>)"

definition fromPaymentPointer :: "url_parser \<Rightarrow> jsstring \<Rightarrow> account_url option" where
  "fromPaymentPointer parse paymentPointer =
     (if take 1 paymentPointer \<noteq> js ''$'' then None
      else case createHttpUrl parse (js ''https://'' @ drop 1 paymentPointer) of
             None \<Rightarrow> None
           | Some u \<Rightarrow>
               if ur_username u \<noteq> [] \<or> ur_password u \<noteq> [] \<or> ur_port u \<noteq> [] \<or> ur_search u \<noteq> [] \<or> ur_hash u \<noteq> []
               then None else Some (AccountUrl u))"

definition fromUrl :: "url_parser \<Rightarrow> jsstring \<Rightarrow> account_url option" where
  "fromUrl parse rawUrl =
     (case createHttpUrl parse rawUrl of
        None \<Rightarrow> None
      | Some u \<Rightarrow> if ur_username u \<noteq> [] \<or> ur_password u \<noteq> [] \<or> ur_port u \<noteq> [] then None else Some (AccountUrl u))"

fun path_or :: "jsstring \<Rightarrow> jsstring option \<Rightarrow> jsstring" where
  "path_or d None = d"
| "path_or d (Some p) = p"

definition toEndpointUrl :: "account_url \<Rightarrow> jsstring" where
  "toEndpointUrl a = au_protocol a @ js ''//'' @ au_hostname a @ path_or DEFAULT_PATH (au_path a) @ au_suffix a"

definition toBaseUrl :: "account_url \<Rightarrow> jsstring" where
  "toBaseUrl a = au_protocol a @ js ''//'' @ au_hostname a @ path_or DEFAULT_PATH (au_path a)"

definition account_toString :: "account_url \<Rightarrow> jsstring" where
  "account_toString a = toEndpointUrl a"

definition toPaymentPointer :: "account_url \<Rightarrow> jsstring option" where
  "toPaymentPointer a =
     (if au_protocol a \<noteq> js ''https:'' \<or> au_suffix a \<noteq> [] then None
      else Some (js ''$'' @ au_hostname a @ path_or [] (au_path a)))"

section \<open>The resolver of the payout package\<close>

definition href :: "url \<Rightarrow> jsstring" where
  "href u =
     ur_protocol u @ js ''//''
       @ (if ur_username u = [] \<and> ur_password u = [] then []
          else ur_username u @ (if ur_password u = [] then [] else js '':'' @ ur_password u) @ js ''@'')
       @ ur_hostname u @ (if ur_port u = [] then [] else js '':'' @ ur_port u)
       @ ur_pathname u @ ur_search u @ ur_hash u"

definition resolvePaymentPointer :: "url_parser \<Rightarrow> jsstring \<Rightarrow> jsstring option" where
  "resolvePaymentPointer parse pointer =
     (if take 1 pointer \<noteq> js ''$'' then Some pointer
      else case parse (js ''https://'' @ drop 1 pointer) of
             None \<Rightarrow> None
           | Some u \<Rightarrow> Some (href (if ur_pathname u = [slash] then u\<lparr>ur_pathname := DEFAULT_PATH\<rparr> else u)))"

section \<open>Identity of accounts\<close>

definition account_url_parts :: "url \<Rightarrow> bool" where
  "account_url_parts u \<longleftrightarrow> (ur_protocol u = js ''https:'' \<or> ur_protocol u = js ''http:'')
     \<and> ur_username u = [] \<and> ur_password u = [] \<and> ur_port u = []"

definition plain_paths :: "url \<Rightarrow> jsstring set" where
  "plain_paths u = {ur_pathname u, strip_slash (ur_pathname u), DEFAULT_PATH, []}"

definition url_laws :: "url_parser \<Rightarrow> bool" where
  "url_laws parse \<longleftrightarrow>
     (\<forall>s u. parse (js ''https://'' @ s) = Some u \<longrightarrow> ur_protocol u = js ''https:'') \<and>
     (\<forall>s u. parse s = Some u \<longrightarrow> account_url_parts u \<longrightarrow> (\<forall>p \<in> plain_paths u.
        parse (ur_protocol u @ js ''//'' @ ur_hostname u @ p @ ur_search u @ ur_hash u)
          = Some (u\<lparr>ur_pathname := (if p = [] then [slash] else p)\<rparr>)))"

lemma url_laws_D:
  assumes "url_laws parse"
  shows "parse (js ''https://'' @ r) = Some u \<Longrightarrow> ur_protocol u = js ''https:''"
    and "parse s = Some u \<Longrightarrow> account_url_parts u \<Longrightarrow> p \<in> plain_paths u \<Longrightarrow>
      parse (ur_protocol u @ js ''//'' @ ur_hostname u @ p @ ur_search u @ ur_hash u)
        = Some (u\<lparr>ur_pathname := (if p = [] then [slash] else p)\<rparr>)"
  using assms unfolding url_laws_def by blast+

lemma fromUrl_parts:
  assumes "fromUrl parse r = Some a"
  obtains u where "parse r = Some u" "account_url_parts u" "a = AccountUrl u"
  using assms by (auto simp: fromUrl_def createHttpUrl_def account_url_parts_def split: option.splits if_splits)

lemma fromPaymentPointer_parts:
  assumes "fromPaymentPointer parse r = Some a"
  obtains u where "parse (js ''https://'' @ drop 1 r) = Some u" "account_url_parts u" "a = AccountUrl u" "ur_search u = []" "ur_hash u = []"
  using assms by (auto simp: fromPaymentPointer_def createHttpUrl_def account_url_parts_def split: option.splits if_splits)

definition end_path :: "url \<Rightarrow> jsstring" where
  "end_path u = path_or DEFAULT_PATH (au_path (AccountUrl u))"

lemma default_path: "DEFAULT_PATH \<noteq> []" "strip_slash DEFAULT_PATH = DEFAULT_PATH" "strip_slash [slash] = []"
  by (simp_all add: DEFAULT_PATH_def strip_slash_def slash_def js_def)

lemma end_path_facts: "end_path u \<in> plain_paths u" "end_path u \<noteq> []"
  using default_path(1) by (auto simp: end_path_def AccountUrl_def Let_def plain_paths_def)

lemma parse_endpoint:
  assumes "url_laws parse" "parse s = Some u" "account_url_parts u"
  shows "parse (toEndpointUrl (AccountUrl u)) = Some (u\<lparr>ur_pathname := end_path u\<rparr>)"
proof -
  have "toEndpointUrl (AccountUrl u) = ur_protocol u @ js ''//'' @ ur_hostname u @ end_path u @ ur_search u @ ur_hash u"
    by (simp add: toEndpointUrl_def end_path_def) (simp add: AccountUrl_def Let_def)
  then show ?thesis
    using url_laws_D(2) [OF assms end_path_facts(1)] end_path_facts(2) [of u] by (simp only: if_False)
qed

lemma path_of_end: "au_path (AccountUrl u) = (if end_path u = DEFAULT_PATH then None else Some (end_path u))"
  by (simp add: end_path_def AccountUrl_def Let_def)

lemma AccountUrl_path:
  "strip_slash p = p \<Longrightarrow> AccountUrl (u\<lparr>ur_pathname := p\<rparr>)
     = (AccountUrl u)\<lparr>au_path := (if p = [] \<or> p = DEFAULT_PATH then None else Some p)\<rparr>"
  by (simp add: AccountUrl_def Let_def)

lemma strip_slash_id: "s = [] \<or> last s \<noteq> slash \<Longrightarrow> strip_slash s = s"
  by (auto simp: strip_slash_def)

lemma AccountUrl_end_path:
  assumes "\<And>p. au_path (AccountUrl u) = Some p \<Longrightarrow> last p \<noteq> slash"
  shows "AccountUrl (u\<lparr>ur_pathname := end_path u\<rparr>) = AccountUrl u"
proof -
  have "strip_slash (end_path u) = end_path u"
  proof (cases "au_path (AccountUrl u)")
    case None
    then show ?thesis by (simp add: end_path_def default_path(2))
  next
    case (Some p)
    with assms [OF Some] show ?thesis by (simp add: end_path_def strip_slash_id)
  qed
  then have "AccountUrl (u\<lparr>ur_pathname := end_path u\<rparr>) = (AccountUrl u)\<lparr>au_path := au_path (AccountUrl u)\<rparr>"
    using end_path_facts(2) [of u] path_of_end [of u] by (simp add: AccountUrl_path)
  then show ?thesis by (cases "AccountUrl u") simp
qed

text \<open>
  The URL of an account identifies it: two accounts, however their URLs were written (with or without a trailing slash, with the
  default path or with none), are the same account exactly when their canonical URLs are the same string.
\<close>

theorem account_identity:
  assumes "url_laws parse" "fromUrl parse r = Some a" "fromUrl parse r' = Some b"
  shows "account_toString a = account_toString b \<longleftrightarrow> a = b"
proof
  assume eq: "account_toString a = account_toString b"
  obtain u where u: "parse r = Some u" "account_url_parts u" "a = AccountUrl u" using assms(2) by (rule fromUrl_parts)
  obtain v where v: "parse r' = Some v" "account_url_parts v" "b = AccountUrl v" using assms(3) by (rule fromUrl_parts)
  have "u\<lparr>ur_pathname := end_path u\<rparr> = v\<lparr>ur_pathname := end_path v\<rparr>"
    using parse_endpoint [OF assms(1) u(1,2)] parse_endpoint [OF assms(1) v(1,2)] eq by (simp add: account_toString_def u(3) v(3))
  then have e: "end_path u = end_path v" "ur_protocol u = ur_protocol v" "ur_hostname u = ur_hostname v"
    "ur_search u = ur_search v" "ur_hash u = ur_hash v" by (cases u; cases v; simp)+
  then show "a = b" using path_of_end [of u] path_of_end [of v] by (simp add: u(3) v(3)) (simp add: AccountUrl_def Let_def)
qed simp

text \<open>
  C21. A payment pointer and the URL it stands for are two names of one account: when a pointer resolves to an account, the
  account's own pointer and its endpoint URL resolve to the same account again. The trailing slash is stripped once only, so
  this needs a path that does not end in two of them (\<open>double_slash_account\<close>).
\<close>

theorem pointer_roundtrip:
  assumes laws: "url_laws parse" and "fromPaymentPointer parse pp = Some a"
    and path: "au_path a \<noteq> None \<Longrightarrow> last (the (au_path a)) \<noteq> slash"
  shows "\<exists>pp'. toPaymentPointer a = Some pp' \<and> fromPaymentPointer parse pp' = Some a \<and> fromUrl parse (toEndpointUrl a) = Some a"
proof -
  obtain u where u: "parse (js ''https://'' @ drop 1 pp) = Some u" "account_url_parts u" "a = AccountUrl u"
    "ur_search u = []" "ur_hash u = []"
    using assms(2) by (rule fromPaymentPointer_parts)
  have https: "ur_protocol u = js ''https:''" using url_laws_D(1) [OF laws u(1)] .
  have same: "AccountUrl (u\<lparr>ur_pathname := end_path u\<rparr>) = a"
    unfolding u(3) by (rule AccountUrl_end_path) (use path u(3) in simp)
  have url: "fromUrl parse (toEndpointUrl a) = Some a"
    using parse_endpoint [OF laws u(1,2)] same u(2) by (simp add: fromUrl_def createHttpUrl_def account_url_parts_def u(3))
  let ?p = "path_or [] (au_path a)"
  have pp: "toPaymentPointer a = Some (js ''$'' @ ur_hostname u @ ?p)"
    using u(4,5) https by (simp add: toPaymentPointer_def u(3)) (simp add: AccountUrl_def Let_def)
  have mem: "?p \<in> plain_paths u" by (auto simp: u(3) AccountUrl_def Let_def plain_paths_def)
  have "parse (js ''https://'' @ ur_hostname u @ ?p) = Some (u\<lparr>ur_pathname := (if ?p = [] then [slash] else ?p)\<rparr>)"
    using url_laws_D(2) [OF laws u(1,2) mem] https u(4,5) by (simp add: js_def)
  moreover have "AccountUrl (u\<lparr>ur_pathname := (if ?p = [] then [slash] else ?p)\<rparr>) = a"
  proof (cases "au_path a")
    case None
    then show ?thesis by (simp add: u(3)) (simp add: AccountUrl_def Let_def default_path split: if_splits)
  next
    case (Some p)
    then have "end_path u = p" "p \<noteq> []" using end_path_facts(2) [of u] by (simp_all add: end_path_def u(3))
    then show ?thesis using same Some by simp
  qed
  ultimately have "fromPaymentPointer parse (js ''$'' @ ur_hostname u @ ?p) = Some a"
    using u(2,4,5) https by (simp add: fromPaymentPointer_def createHttpUrl_def account_url_parts_def js_def)
  then show ?thesis using pp url by blast
qed

section \<open>Examples\<close>

definition sample_url :: url where
  "sample_url = \<lparr>ur_protocol = js ''https:'', ur_username = [], ur_password = [], ur_hostname = js ''a.example'', ur_port = [],
     ur_pathname = js ''/'', ur_search = [], ur_hash = []\<rparr>"

definition sample_parser :: url_parser where
  "sample_parser s =
     (if s = js ''https://a.example'' \<or> s = js ''https://a.example/'' then Some sample_url
      else if s = js ''https://a.example/.well-known/pay'' then Some (sample_url\<lparr>ur_pathname := DEFAULT_PATH\<rparr>) else None)"

lemma sample_parser_values:
  "sample_parser s = Some u \<Longrightarrow> u = sample_url \<or> u = sample_url\<lparr>ur_pathname := DEFAULT_PATH\<rparr>"
  by (auto simp: sample_parser_def split: if_splits)

lemma sample_parser_laws: "url_laws sample_parser"
proof -
  have "ur_protocol u = js ''https:''" if "sample_parser s = Some u" for s u
    using sample_parser_values [OF that] by (auto simp: sample_url_def)
  moreover have "list_all (\<lambda>u. list_all (\<lambda>p.
      sample_parser (ur_protocol u @ js ''//'' @ ur_hostname u @ p @ ur_search u @ ur_hash u)
        = Some (u\<lparr>ur_pathname := (if p = [] then [slash] else p)\<rparr>))
      [ur_pathname u, strip_slash (ur_pathname u), DEFAULT_PATH, []]) [sample_url, sample_url\<lparr>ur_pathname := DEFAULT_PATH\<rparr>]"
    by code_simp
  ultimately show ?thesis using sample_parser_values unfolding url_laws_def plain_paths_def list_all_iff by fastforce
qed

theorem account_identity_witness:
  "account_toString (AccountUrl sample_url) = account_toString (AccountUrl (sample_url\<lparr>ur_pathname := DEFAULT_PATH\<rparr>))
     \<longleftrightarrow> AccountUrl sample_url = AccountUrl (sample_url\<lparr>ur_pathname := DEFAULT_PATH\<rparr>)"
  by (rule account_identity [OF sample_parser_laws, of "js ''https://a.example/''" _ "js ''https://a.example/.well-known/pay''"])
    (code_simp, code_simp)

theorem pointer_roundtrip_witness:
  "\<exists>pp'. toPaymentPointer (AccountUrl sample_url) = Some pp' \<and> fromPaymentPointer sample_parser pp' = Some (AccountUrl sample_url)
     \<and> fromUrl sample_parser (toEndpointUrl (AccountUrl sample_url)) = Some (AccountUrl sample_url)"
proof (rule pointer_roundtrip [OF sample_parser_laws, of "js ''$a.example''"])
  show "fromPaymentPointer sample_parser (js ''$a.example'') = Some (AccountUrl sample_url)" by code_simp
  have "au_path (AccountUrl sample_url) = None" by code_simp
  then show "au_path (AccountUrl sample_url) \<noteq> None \<Longrightarrow> last (the (au_path (AccountUrl sample_url))) \<noteq> slash" by simp
qed

text \<open>
  One slash of the path \<open>/x//\<close> is stripped: the account's path still ends in a slash, and the account of its canonical URL is
  a different one.
\<close>

lemma double_slash_account:
  "au_path (AccountUrl (sample_url\<lparr>ur_pathname := js ''/x//''\<rparr>)) = Some (js ''/x/'')
     \<and> account_toString (AccountUrl (sample_url\<lparr>ur_pathname := js ''/x//''\<rparr>)) = js ''https://a.example/x/''
     \<and> account_toString (AccountUrl (sample_url\<lparr>ur_pathname := js ''/x/''\<rparr>)) = js ''https://a.example/x''"
  by code_simp

text \<open>
  The resolver of the payout package keeps what the one of the payment library refuses or strips: a trailing slash, a port and
  a query.
\<close>

lemma resolvers_differ:
  assumes "parse (js ''https://a.example:8080/x/'') = Some (sample_url\<lparr>ur_port := js ''8080'', ur_pathname := js ''/x/''\<rparr>)"
  shows "resolvePaymentPointer parse (js ''$a.example:8080/x/'') = Some (js ''https://a.example:8080/x/'')
    \<and> fromPaymentPointer parse (js ''$a.example:8080/x/'') = None"
proof -
  have arg: "js ''https://'' @ drop 1 (js ''$a.example:8080/x/'') = js ''https://a.example:8080/x/''"
    "take 1 (js ''$a.example:8080/x/'') = js ''$''" by code_simp+
  have "href (sample_url\<lparr>ur_port := js ''8080'', ur_pathname := js ''/x/''\<rparr>) = js ''https://a.example:8080/x/''"
    "js ''/x/'' \<noteq> [slash]" "ur_protocol sample_url = js ''https:''" "js ''8080'' \<noteq> []" by code_simp+
  then show ?thesis using assms by (simp add: resolvePaymentPointer_def fromPaymentPointer_def createHttpUrl_def arg [unfolded One_nat_def])
qed

end
