(* ===== verification/Payout.thy ===== *)
theory Payout
  imports Money_Stream Payment_Pointer
begin

text \<open>
  \<^verbatim>\<open>ilp-spsp-payout/src/lib/PayoutConnection.ts\<close> and \<^verbatim>\<open>ilp-spsp-payout/src/index.ts\<close>.

  A \<open>PayoutConnection\<close> keeps a target and what was sent, and opens connections until the target is reached. Its state
  here includes what JavaScript keeps in closures and queues: the attempts that wait for the SPSP server, every
  stream that was opened with the variables of its listeners, the clean-ups that wait in \<open>setImmediate\<close>, and the timers.
  The stream is the model of \<open>DataAndMoneyStream\<close>. Numbers are integers; the code is exact for them below \<open>2 ^ 53\<close>.
\<close>

section \<open>State\<close>

datatype payout_state = DISCONNECTED | CONNECTING | IDLE | SENDING | ABORTED

record session =
  se_stream :: "unit money_stream"
  se_amount :: int
  se_applied :: bool
  se_listening :: bool
  se_cleanups :: nat

record payout_connection =
  pc_state :: payout_state
  pc_closing :: bool
  pc_timers :: "nat list"
  pc_safeSendTimer :: "nat option"
  pc_nextTimer :: nat
  pc_retries :: nat
  pc_maxRetries :: nat
  pc_target :: int
  pc_sent :: int
  pc_stream :: "nat option"
  pc_sessions :: "session list"
  pc_attempts :: nat

definition new_payout_connection :: "nat \<Rightarrow> payout_connection" where
  "new_payout_connection maxRetries =
     \<lparr>pc_state = DISCONNECTED, pc_closing = False, pc_timers = [], pc_safeSendTimer = None, pc_nextTimer = 0,
      pc_retries = 0, pc_maxRetries = maxRetries, pc_target = 0, pc_sent = 0, pc_stream = None, pc_sessions = [],
      pc_attempts = 0\<rparr>"

definition getSendMax :: "payout_connection \<Rightarrow> int" where
  "getSendMax p = pc_target p - pc_sent p"

definition isIdle :: "payout_connection \<Rightarrow> bool" where
  "isIdle p \<longleftrightarrow> pc_state p = IDLE \<or> pc_state p = ABORTED"

definition at_session :: "nat \<Rightarrow> (session \<Rightarrow> session) \<Rightarrow> payout_connection \<Rightarrow> payout_connection" where
  "at_session i f p = p\<lparr>pc_sessions := (pc_sessions p)[i := f (pc_sessions p ! i)]\<rparr>"

section \<open>Attempts\<close>

text \<open>\<open>trySending\<close> up to its first await.\<close>

definition payout_trySending :: "payout_connection \<Rightarrow> payout_connection" where
  "payout_trySending p =
     (if pc_state p \<noteq> DISCONNECTED then p
      else p\<lparr>pc_state := CONNECTING, pc_attempts := pc_attempts p + 1\<rparr>)"

definition safeTrySending :: "payout_connection \<Rightarrow> payout_connection" where
  "safeTrySending p =
     (let p1 = p\<lparr>pc_retries := pc_retries p + 1\<rparr>
      in if pc_retries p \<ge> pc_maxRetries p then p1\<lparr>pc_state := ABORTED\<rparr> else payout_trySending p1)"

text \<open>The \<open>catch\<close> of an attempt.\<close>

definition attempt_failed :: "payout_connection \<Rightarrow> payout_connection" where
  "attempt_failed p =
     (if pc_closing p then p
      else p\<lparr>pc_state := DISCONNECTED, pc_timers := pc_timers p @ [pc_nextTimer p],
             pc_safeSendTimer := Some (pc_nextTimer p), pc_nextTimer := pc_nextTimer p + 1\<rparr>)"

definition send_max_value :: "payout_connection \<Rightarrow> long_value" where
  "send_max_value p = NumV (Num (of_int (getSendMax p)))"

definition new_session :: "bool \<Rightarrow> unit money_stream \<Rightarrow> session" where
  "new_session listening s = \<lparr>se_stream = s, se_amount = 0, se_applied = False, se_listening = listening, se_cleanups = 0\<rparr>"

text \<open>The rest of an attempt whose connection is there: if setting the limit throws, no listener is registered.\<close>

definition payout_connected :: "payout_connection \<Rightarrow> payout_connection" where
  "payout_connected p =
     (let p1 = p\<lparr>pc_attempts := pc_attempts p - 1, pc_stream := Some (length (pc_sessions p))\<rparr>
      in if getSendMax p > 0
         then (case setSendMax (send_max_value p) new_stream of
                 Inl e \<Rightarrow> attempt_failed (p1\<lparr>pc_state := SENDING, pc_sessions := pc_sessions p @ [new_session False new_stream]\<rparr>)
               | Inr s \<Rightarrow> p1\<lparr>pc_state := SENDING, pc_sessions := pc_sessions p @ [new_session True s]\<rparr>)
         else p1\<lparr>pc_state := IDLE, pc_sessions := pc_sessions p @ [new_session True new_stream]\<rparr>)"

definition timer_fired :: "nat \<Rightarrow> payout_connection \<Rightarrow> payout_connection" where
  "timer_fired t p = safeTrySending (p\<lparr>pc_timers := removeAll t (pc_timers p)\<rparr>)"

section \<open>Listeners\<close>

text \<open>\<open>cleanUp\<close> queues the function, \<open>run_cleanup\<close> is the function.\<close>

definition cleanUp :: "nat \<Rightarrow> payout_connection \<Rightarrow> payout_connection" where
  "cleanUp i = at_session i (\<lambda>s. s\<lparr>se_cleanups := se_cleanups s + 1\<rparr>)"

definition run_cleanup :: "nat \<Rightarrow> payout_connection \<Rightarrow> payout_connection" where
  "run_cleanup i p =
     (let s = pc_sessions p ! i;
          p1 = at_session i (\<lambda>s. s\<lparr>se_cleanups := se_cleanups s - 1, se_listening := False, se_applied := True\<rparr>)
                 (p\<lparr>pc_state := DISCONNECTED, pc_sent := (if se_applied s then pc_sent p else pc_sent p + se_amount s)\<rparr>)
      in if getSendMax p1 > 0 then safeTrySending p1 else p1)"

definition onOutgoingMoney :: "nat \<Rightarrow> u64 \<Rightarrow> payout_connection \<Rightarrow> payout_connection" where
  "onOutgoingMoney i am p =
     (let p1 = at_session i (\<lambda>s. s\<lparr>se_amount := se_amount s + uint am\<rparr>) (p\<lparr>pc_retries := 0\<rparr>)
      in if se_amount (pc_sessions p1 ! i) + pc_sent p1 \<ge> pc_target p1 then p1\<lparr>pc_state := IDLE\<rparr> else p1)"

text \<open>A fulfilled packet of a stream, with its event.\<close>

definition payout_fulfilled :: "nat \<Rightarrow> jsstring \<Rightarrow> payout_connection \<Rightarrow> payout_connection" where
  "payout_fulfilled i k p =
     (let s = pc_sessions p ! i;
          p1 = at_session i (\<lambda>s. s\<lparr>se_stream := executeHold k (se_stream s)\<rparr>) p
      in case map_of (holds (se_stream s)) k of
           None \<Rightarrow> p1
         | Some am \<Rightarrow> if se_listening s then onOutgoingMoney i am p1 else p1)"

section \<open>Calls\<close>

definition payout_send :: "int \<Rightarrow> payout_connection \<Rightarrow> unit result \<times> payout_connection" where
  "payout_send amount p =
     (if pc_closing p then (Inl (Error ''payout connection is closing''), p)
      else
        let p1 = p\<lparr>pc_target := pc_target p + amount\<rparr>
        in case (pc_state p1 = SENDING \<or> pc_state p1 = IDLE, pc_stream p1) of
             (True, Some i) \<Rightarrow>
               let p2 = p1\<lparr>pc_state := SENDING\<rparr>
               in (case setSendMax (send_max_value p2) (se_stream (pc_sessions p2 ! i)) of
                     Inl e \<Rightarrow> (Inl e, p2)
                   | Inr s \<Rightarrow> (Inr (), at_session i (\<lambda>se. se\<lparr>se_stream := s\<rparr>) p2))
           | _ \<Rightarrow> (Inr (), safeTrySending p1))"

text \<open>\<open>close\<close>; destroying the connection and disconnecting the plugin is left to the environment.\<close>

definition payout_close :: "payout_connection \<Rightarrow> payout_connection" where
  "payout_close p =
     p\<lparr>pc_closing := True,
       pc_timers := (case pc_safeSendTimer p of None \<Rightarrow> pc_timers p | Some t \<Rightarrow> removeAll t (pc_timers p))\<rparr>"

section \<open>Steps\<close>

text \<open>
  Everything that can happen, in any order: calls, answers of the server, timers, any number of \<open>close\<close> and \<open>error\<close> events of a session
  that still listens, queued clean-ups, and the packets of every stream, also of one that was cleaned up.
\<close>

definition waiting :: "nat \<Rightarrow> payout_connection \<Rightarrow> bool" where
  "waiting i p \<longleftrightarrow> i < length (pc_sessions p) \<and> se_listening (pc_sessions p ! i)"

abbreviation on_stream :: "nat \<Rightarrow> (unit money_stream \<Rightarrow> unit money_stream) \<Rightarrow> payout_connection \<Rightarrow> payout_connection" where
  "on_stream i f \<equiv> at_session i (\<lambda>s. s\<lparr>se_stream := f (se_stream s)\<rparr>)"

inductive payout_step :: "payout_connection \<Rightarrow> payout_connection \<Rightarrow> bool" where
  send: "payout_send amount p = (r, p') \<Longrightarrow> payout_step p p'"
| close: "payout_step p (payout_close p)"
| connect: "0 < pc_attempts p \<Longrightarrow> payout_step p (payout_connected p)"
| fail: "0 < pc_attempts p \<Longrightarrow> payout_step p (attempt_failed (p\<lparr>pc_attempts := pc_attempts p - 1\<rparr>))"
| timer: "t \<in> set (pc_timers p) \<Longrightarrow> payout_step p (timer_fired t p)"
| event: "waiting i p \<Longrightarrow> payout_step p (cleanUp i p)"
| cleanup: "i < length (pc_sessions p) \<Longrightarrow> 0 < se_cleanups (pc_sessions p ! i) \<Longrightarrow> payout_step p (run_cleanup i p)"
| hold: "i < length (pc_sessions p) \<Longrightarrow> k \<notin> fst ` set (holds (se_stream (pc_sessions p ! i)))
    \<Longrightarrow> payout_step p (on_stream i (\<lambda>s. snd (holdOutgoing k mx s)) p)"
| reject: "i < length (pc_sessions p) \<Longrightarrow> payout_step p (on_stream i (cancelHold k) p)"
| fulfill: "i < length (pc_sessions p) \<Longrightarrow> payout_step p (payout_fulfilled i k p)"
| finish: "i < length (pc_sessions p) \<Longrightarrow> payout_step p (on_stream i finish p)"
| destroy: "i < length (pc_sessions p) \<Longrightarrow> payout_step p (on_stream i (stream_destroy e) p)"

text \<open>\<open>payout_reach m T p\<close>: \<open>p\<close> is reached from a new connection with \<open>m\<close> retries, and \<open>T\<close> is the largest target on the way.\<close>

inductive payout_reach :: "nat \<Rightarrow> int \<Rightarrow> payout_connection \<Rightarrow> bool" for m where
  start: "payout_reach m 0 (new_payout_connection m)"
| step: "payout_reach m T p \<Longrightarrow> payout_step p p' \<Longrightarrow> payout_reach m (max T (pc_target p')) p'"

section \<open>The books\<close>

definition total_of :: "(session \<Rightarrow> int) \<Rightarrow> payout_connection \<Rightarrow> int" where
  "total_of f p = sum_list (map f (pc_sessions p))"

text \<open>What a stream has sent, as its receiver sees it, and what the payout counted for a session that is over.\<close>

definition sent_by :: "session \<Rightarrow> int" where
  "sent_by s = uint (totalSent (se_stream s))"

definition applied_by :: "session \<Rightarrow> int" where
  "applied_by s = (if se_applied s then se_amount s else 0)"

definition paid :: "payout_connection \<Rightarrow> int" where
  "paid p = total_of sent_by p"

definition session_ok :: "int \<Rightarrow> session \<Rightarrow> bool" where
  "session_ok T s \<longleftrightarrow> (\<exists>M. int M \<le> T \<and> money_inv M (se_stream s)) \<and> 0 \<le> se_amount s \<and> se_amount s \<le> sent_by s
     \<and> (se_listening s \<longrightarrow> se_amount s = sent_by s \<and> \<not> se_applied s)"

definition payout_inv :: "int \<Rightarrow> payout_connection \<Rightarrow> bool" where
  "payout_inv T p \<longleftrightarrow> pc_target p \<le> T \<and> 0 \<le> T \<and> list_all (session_ok T) (pc_sessions p)
     \<and> pc_sent p = total_of applied_by p \<and> (\<forall>i. pc_stream p = Some i \<longrightarrow> i < length (pc_sessions p))"

lemma total_of_update [simp]:
  "i < length (pc_sessions p) \<Longrightarrow>
     total_of f (at_session i h p) = total_of f p - f (pc_sessions p ! i) + f (h (pc_sessions p ! i))"
proof -
  have "i < length ss \<Longrightarrow> sum_list (map f (ss[i := y])) = sum_list (map f ss) - f (ss ! i) + f y" for ss i y
    by (induction ss arbitrary: i) (auto simp: nth_Cons split: nat.splits)
  then show "i < length (pc_sessions p) \<Longrightarrow> ?thesis" by (simp add: total_of_def at_session_def)
qed

lemma total_of_frame [simp]:
  "total_of f (p\<lparr>pc_state := x\<rparr>) = total_of f p" "total_of f (p\<lparr>pc_closing := b\<rparr>) = total_of f p"
  "total_of f (p\<lparr>pc_timers := ts\<rparr>) = total_of f p" "total_of f (p\<lparr>pc_safeSendTimer := t\<rparr>) = total_of f p"
  "total_of f (p\<lparr>pc_nextTimer := n\<rparr>) = total_of f p" "total_of f (p\<lparr>pc_retries := n\<rparr>) = total_of f p"
  "total_of f (p\<lparr>pc_target := k\<rparr>) = total_of f p" "total_of f (p\<lparr>pc_sent := k\<rparr>) = total_of f p"
  "total_of f (p\<lparr>pc_stream := o'\<rparr>) = total_of f p" "total_of f (p\<lparr>pc_attempts := n\<rparr>) = total_of f p"
  "total_of f (p\<lparr>pc_sessions := pc_sessions p @ [s]\<rparr>) = total_of f p + f s"
  by (simp_all add: total_of_def)

lemma session_ok_mono: "session_ok T s \<Longrightarrow> T \<le> T' \<Longrightarrow> session_ok T' s"
  by (force simp: session_ok_def)

lemma payout_inv_mono: "payout_inv T p \<Longrightarrow> T \<le> T' \<Longrightarrow> payout_inv T' p"
  by (auto simp: payout_inv_def list_all_iff intro: session_ok_mono)

lemma sessions_update: "list_all (session_ok T) ss \<Longrightarrow> session_ok T y \<Longrightarrow> list_all (session_ok T) (ss[i := y])"
  by (auto simp: list_all_iff dest!: set_update_subset_insert [THEN subsetD])

lemma at_session_fields [simp]:
  "pc_state (at_session i h p) = pc_state p" "pc_closing (at_session i h p) = pc_closing p" "pc_attempts (at_session i h p) = pc_attempts p"
  "pc_sent (at_session i h p) = pc_sent p" "pc_target (at_session i h p) = pc_target p" "pc_stream (at_session i h p) = pc_stream p"
  "pc_retries (at_session i h p) = pc_retries p" "pc_maxRetries (at_session i h p) = pc_maxRetries p" "pc_timers (at_session i h p) = pc_timers p"
  "length (pc_sessions (at_session i h p)) = length (pc_sessions p)"
  "i < length (pc_sessions p) \<Longrightarrow> pc_sessions (at_session i h p) ! i = h (pc_sessions p ! i)"
  by (simp_all add: at_session_def)

lemma safeTrySending_fields [simp]:
  "pc_target (safeTrySending p) = pc_target p" "pc_sent (safeTrySending p) = pc_sent p" "pc_closing (safeTrySending p) = pc_closing p"
  "pc_maxRetries (safeTrySending p) = pc_maxRetries p" "pc_sessions (safeTrySending p) = pc_sessions p" "pc_timers (safeTrySending p) = pc_timers p"
  "pc_stream (safeTrySending p) = pc_stream p"
  by (simp_all add: safeTrySending_def payout_trySending_def Let_def)

lemma attempt_failed_fields [simp]:
  "pc_target (attempt_failed p) = pc_target p" "pc_sent (attempt_failed p) = pc_sent p" "pc_closing (attempt_failed p) = pc_closing p"
  "pc_maxRetries (attempt_failed p) = pc_maxRetries p" "pc_sessions (attempt_failed p) = pc_sessions p" "pc_retries (attempt_failed p) = pc_retries p"
  "pc_attempts (attempt_failed p) = pc_attempts p" "pc_stream (attempt_failed p) = pc_stream p"
  by (simp_all add: attempt_failed_def)

text \<open>The invariant looks at the target, what is counted, the sessions and the current stream only.\<close>

lemma payout_inv_frame:
  "payout_inv T p \<Longrightarrow> pc_target q = pc_target p \<Longrightarrow> pc_sent q = pc_sent p \<Longrightarrow> pc_sessions q = pc_sessions p \<Longrightarrow> pc_stream q = pc_stream p
   \<Longrightarrow> payout_inv T q"
  by (simp add: payout_inv_def total_of_def)

text \<open>One session changes, keeping what is counted for it.\<close>

lemma at_session_inv:
  assumes "payout_inv T p" "session_ok T (h (pc_sessions p ! i))" "applied_by (h (pc_sessions p ! i)) = applied_by (pc_sessions p ! i)"
    and "i < length (pc_sessions p)"
  shows "payout_inv T (at_session i h p)"
proof -
  have "list_all (session_ok T) (pc_sessions (at_session i h p))"
    using assms(1,2) by (auto simp: at_session_def payout_inv_def intro: sessions_update)
  with assms show ?thesis by (simp add: payout_inv_def)
qed

lemma session_at: "payout_inv T p \<Longrightarrow> i < length (pc_sessions p) \<Longrightarrow> session_ok T (pc_sessions p ! i)"
  by (simp add: payout_inv_def list_all_iff)

lemma setSendMax_value:
  assumes "setSendMax (send_max_value p) s = Inr s'"
  shows "int (unat (sendMax s')) \<le> getSendMax p" "totalSent s' = totalSent s"
proof -
  have v: "sendMax s' = long_bits (long_fromInt (getSendMax p) True)" "totalSent s' = totalSent s" "0 \<le> getSendMax p"
    using assms by (auto simp: setSendMax_def send_max_value_def split: if_splits)
  show "totalSent s' = totalSent s" by (rule v(2))
  show "int (unat (sendMax s')) \<le> getSendMax p"
    using v(3) by (auto simp: v(1) long_fromInt_def uint_word_of_int zmod_le_nonneg_dividend)
qed

lemma money_inv_sent: "money_inv M s \<Longrightarrow> uint (totalSent s) \<le> int M"
proof -
  assume "money_inv M s"
  then have "unat (totalSent s) \<le> M" by (simp add: money_inv_def)
  then have "int (unat (totalSent s)) \<le> int M" by (simp only: of_nat_le_iff)
  then show ?thesis by simp
qed

lemma executeHold_total:
  assumes "money_inv M s" "M < 2 ^ 63" "map_of (holds s) k = Some am"
  shows "uint (totalSent (executeHold k s)) = uint (totalSent s) + uint am"
proof -
  have "unat (totalSent s) + unat (outgoingHeldAmount s) \<le> M" using assms(1) by (simp add: money_inv_def)
  then have "unat (totalSent s + am) = unat (totalSent s) + unat am"
    using release_inv(1) [OF assms(1,3)] assms(2) by (intro unat_add_u64) simp
  then have "int (unat (totalSent s + am)) = int (unat (totalSent s)) + int (unat am)" by linarith
  then show ?thesis using assms(3) by (simp add: executeHold_def)
qed

lemma new_stream_money: "money_inv 0 (new_stream :: unit money_stream)"
  by (simp add: new_stream_def money_inv_def holds_sum_def)

lemma new_session_ok: "totalSent s = 0 \<Longrightarrow> money_inv M s \<Longrightarrow> int M \<le> T \<Longrightarrow> session_ok T (new_session b s)"
  by (auto simp: session_ok_def new_session_def sent_by_def)

text \<open>Nothing was sent that was not counted, so what is counted is not negative and the limit of a stream is at most the target.\<close>

lemma sent_nonneg: "payout_inv T p \<Longrightarrow> 0 \<le> pc_sent p"
proof -
  assume inv: "payout_inv T p"
  then have "0 \<le> total_of applied_by p"
    unfolding total_of_def by (intro sum_list_nonneg) (auto simp: payout_inv_def list_all_iff session_ok_def applied_by_def)
  then show ?thesis using inv by (simp add: payout_inv_def)
qed

lemma limit_le: "payout_inv T p \<Longrightarrow> getSendMax p \<le> T"
  using sent_nonneg [of T p] by (simp add: payout_inv_def getSendMax_def)

lemma add_session_inv:
  assumes "payout_inv T p" "session_ok T (new_session b s)"
  shows "payout_inv T (p\<lparr>pc_attempts := n, pc_stream := Some (length (pc_sessions p)), pc_state := x, pc_sessions := pc_sessions p @ [new_session b s]\<rparr>)"
  using assms by (simp add: payout_inv_def total_of_def applied_by_def) (simp add: new_session_def)

lemma connected_inv:
  assumes "payout_inv T p"
  shows "payout_inv T (payout_connected p)"
proof -
  have T: "0 \<le> T" using assms by (simp add: payout_inv_def)
  have add: "payout_inv T (p\<lparr>pc_attempts := n, pc_stream := Some (length (pc_sessions p)), pc_state := x, pc_sessions := pc_sessions p @ [new_session b s]\<rparr>)"
    if "totalSent s = 0" "money_inv M s" "int M \<le> T" for n x b s M
    using add_session_inv [OF assms] new_session_ok [OF that] by blast
  note new = new_stream_money
  have fresh: "totalSent (new_stream :: unit money_stream) = 0" by (simp add: new_stream_def)
  show ?thesis
  proof (cases "setSendMax (send_max_value p) (new_stream :: unit money_stream)")
    case (Inl e)
    then show ?thesis
      using add [OF fresh new, where n = "pc_attempts p - 1" and x = SENDING and b = False] add [OF fresh new, where n = "pc_attempts p - 1" and x = IDLE and b = True] T
      by (auto simp: payout_connected_def Let_def intro: payout_inv_frame)
  next
    case (Inr s)
    note v = setSendMax_value [OF Inr]
    have "int (unat (sendMax s)) \<le> T" using v(1) limit_le [OF assms] by simp
    moreover have "money_inv (unat (sendMax s)) s" using setSendMax_inv [OF new Inr] by simp
    ultimately show ?thesis
      using Inr v(2) fresh add [where s = s and M = "unat (sendMax s)" and n = "pc_attempts p - 1" and x = SENDING and b = True]
        add [OF fresh new, where n = "pc_attempts p - 1" and x = IDLE and b = True] T
      by (simp add: payout_connected_def Let_def)
  qed
qed

lemma run_cleanup_inv:
  assumes "payout_inv T p" "i < length (pc_sessions p)"
  shows "payout_inv T (run_cleanup i p)"
proof -
  let ?s = "pc_sessions p ! i"
  define h where "h = (\<lambda>s. s\<lparr>se_cleanups := se_cleanups s - 1, se_listening := False, se_applied := True\<rparr> :: session)"
  define p1 where "p1 = at_session i h (p\<lparr>pc_state := DISCONNECTED,
    pc_sent := (if se_applied ?s then pc_sent p else pc_sent p + se_amount ?s)\<rparr>)"
  have "session_ok T (h ?s)" using session_at [OF assms] by (auto simp: session_ok_def h_def sent_by_def)
  then have "list_all (session_ok T) (pc_sessions p1)"
    using assms(1) by (auto simp: p1_def at_session_def payout_inv_def intro: sessions_update)
  moreover have "pc_sent p1 = total_of applied_by p1"
    using assms by (simp add: p1_def payout_inv_def applied_by_def h_def)
  ultimately have "payout_inv T p1" using assms(1) by (simp add: payout_inv_def p1_def)
  then show ?thesis
    by (auto simp: run_cleanup_def p1_def h_def Let_def intro: payout_inv_frame)
qed

lemma stream_inv:
  assumes "payout_inv T p" "i < length (pc_sessions p)" "totalSent (f (se_stream (pc_sessions p ! i))) = totalSent (se_stream (pc_sessions p ! i))"
    and "\<And>M. int M \<le> T \<Longrightarrow> money_inv M (se_stream (pc_sessions p ! i)) \<Longrightarrow> \<exists>M'. int M' \<le> T \<and> money_inv M' (f (se_stream (pc_sessions p ! i)))"
  shows "payout_inv T (on_stream i f p)"
  using assms session_at [OF assms(1,2)]
  by (intro at_session_inv) (auto simp: session_ok_def sent_by_def applied_by_def)

lemma stream_frame_inv:
  assumes "payout_inv T p" "i < length (pc_sessions p)" "totalSent (f (se_stream (pc_sessions p ! i))) = totalSent (se_stream (pc_sessions p ! i))"
    and "\<And>M. money_inv M (se_stream (pc_sessions p ! i)) \<Longrightarrow> money_inv M (f (se_stream (pc_sessions p ! i)))"
  shows "payout_inv T (on_stream i f p)"
  using assms by (intro stream_inv) blast+

lemma fulfilled_inv:
  assumes "payout_inv T p" "T < 2 ^ 63" "i < length (pc_sessions p)"
  shows "payout_inv T (payout_fulfilled i k p)"
proof -
  let ?s = "pc_sessions p ! i"
  note ok = session_at [OF assms(1,3)]
  then obtain M where M: "int M \<le> T" "money_inv M (se_stream ?s)" by (auto simp: session_ok_def)
  have M63: "M < 2 ^ 63" using M(1) assms(2) by simp
  note ex = executeHold_inv [OF M(2) M63, of k]
  show ?thesis
  proof (cases "map_of (holds (se_stream ?s)) k")
    case None
    then show ?thesis
      using at_session_inv [OF assms(1) _ _ assms(3), of "\<lambda>s. s\<lparr>se_stream := executeHold k (se_stream s)\<rparr>"] ok
      by (simp add: payout_fulfilled_def executeHold_def)
  next
    case (Some am)
    define h where "h = (\<lambda>s. s\<lparr>se_stream := executeHold k (se_stream s),
      se_amount := (if se_listening s then se_amount s + uint am else se_amount s)\<rparr> :: session)"
    have "sent_by (h ?s) = sent_by ?s + uint am" "0 \<le> uint am"
      using executeHold_total [OF M(2) M63 Some] by (simp_all add: sent_by_def h_def)
    moreover from this have "se_amount ?s \<le> sent_by (h ?s)" using ok unfolding session_ok_def by linarith
    ultimately have "session_ok T (h ?s)"
      using M(1) ex ok by (auto simp: session_ok_def h_def)
    moreover have "applied_by (h ?s) = applied_by ?s" using ok by (auto simp: applied_by_def h_def session_ok_def)
    ultimately have inv: "payout_inv T (at_session i h p)" using at_session_inv assms(1,3) by blast
    have "pc_sessions (payout_fulfilled i k p) = pc_sessions (at_session i h p)"
      using Some assms(3) by (auto simp: payout_fulfilled_def onOutgoingMoney_def at_session_def h_def Let_def)
    then show ?thesis
      using Some by (intro payout_inv_frame [OF inv]) (auto simp: payout_fulfilled_def onOutgoingMoney_def Let_def)
  qed
qed

lemma send_inv:
  assumes "payout_inv T p" "payout_send amount p = (r, p')" "pc_target p' \<le> T"
  shows "payout_inv T p'"
proof -
  define p1 where "p1 = p\<lparr>pc_target := pc_target p + amount\<rparr>"
  have t: "pc_closing p \<or> pc_target p' = pc_target p + amount"
    using assms(2) by (auto simp: payout_send_def Let_def split: if_splits option.splits bool.splits sum.splits)
  show ?thesis
  proof (cases "pc_closing p")
    case True
    with assms show ?thesis by (simp add: payout_send_def)
  next
    case open': False
    have p1: "payout_inv T p1" using assms(1,3) t open' by (simp add: payout_inv_def p1_def)
    show ?thesis
    proof (cases "pc_stream p = None \<or> pc_state p \<notin> {SENDING, IDLE}")
      case True
      then have "p' = safeTrySending p1"
        using assms(2) open' by (auto simp: payout_send_def p1_def Let_def split: option.splits bool.splits)
      then show ?thesis by (simp add: payout_inv_frame [OF p1])
    next
      case False
      then obtain i where i: "pc_stream p = Some i" by auto
      let ?p2 = "p1\<lparr>pc_state := SENDING\<rparr>"
      have p2: "payout_inv T ?p2" by (rule payout_inv_frame [OF p1]) simp_all
      have il: "i < length (pc_sessions ?p2)" using assms(1) i by (simp add: payout_inv_def p1_def)
      show ?thesis
      proof (cases "setSendMax (send_max_value ?p2) (se_stream (pc_sessions ?p2 ! i))")
        case (Inl e)
        then show ?thesis using assms(2) False open' i p2 by (auto simp: payout_send_def Let_def p1_def)
      next
        case (Inr st)
        note v = setSendMax_value [OF Inr]
        have "int (max M (unat (sendMax st))) \<le> T" if "int M \<le> T" for M using v(1) limit_le [OF p2] that by (cases "M \<le> unat (sendMax st)") (simp_all add: max_def)
        then have "payout_inv T (on_stream i (\<lambda>_. st) ?p2)"
          using setSendMax_inv [OF _ Inr] v(2) by (intro stream_inv [OF p2 il]) blast+
        moreover have "p' = on_stream i (\<lambda>_. st) ?p2"
          using assms(2) False open' i Inr by (auto simp: payout_send_def Let_def p1_def)
        ultimately show ?thesis by simp
      qed
    qed
  qed
qed

lemma fulfilled_fields [simp]:
  "pc_target (payout_fulfilled i k p) = pc_target p" "pc_sent (payout_fulfilled i k p) = pc_sent p"
  "pc_closing (payout_fulfilled i k p) = pc_closing p" "pc_maxRetries (payout_fulfilled i k p) = pc_maxRetries p"
  "pc_attempts (payout_fulfilled i k p) = pc_attempts p" "pc_timers (payout_fulfilled i k p) = pc_timers p"
  by (auto simp: payout_fulfilled_def onOutgoingMoney_def Let_def split: option.splits)

lemma payout_step_inv:
  assumes "payout_step p p'" "payout_inv T0 p" "T = max T0 (pc_target p')" "T < 2 ^ 63"
  shows "payout_inv T p'"
proof -
  have inv: "payout_inv T p" "pc_target p' \<le> T" using payout_inv_mono [OF assms(2)] assms(3) by simp_all
  show ?thesis
    using assms(1)
  proof cases
    case (send amount r)
    then show ?thesis using send_inv [OF inv(1)] inv(2) by simp
  next
    case connect
    then show ?thesis using connected_inv [OF inv(1)] by simp
  next
    case (cleanup i)
    then show ?thesis using run_cleanup_inv [OF inv(1)] by simp
  next
    case (event i)
    then show ?thesis
      using at_session_inv [OF inv(1), of "\<lambda>s. s\<lparr>se_cleanups := se_cleanups s + 1\<rparr>"] session_at [OF inv(1), of i]
      by (auto simp: cleanUp_def waiting_def session_ok_def sent_by_def applied_by_def)
  next
    case (hold i k mx)
    have "money_inv M (snd (holdOutgoing k mx (se_stream (pc_sessions p ! i))))"
      if "int M \<le> T" "money_inv M (se_stream (pc_sessions p ! i))" for M
      using holdOutgoing_inv(1) [OF that(2) _ hold(3), of mx] that(1) assms(4) by (metis prod.collapse of_nat_less_numeral_power_cancel_iff order_le_less_trans)
    then show ?thesis
      unfolding hold(1) by (intro stream_inv [OF inv(1) hold(2)]) (simp add: holdOutgoing_def Let_def, blast)
  next
    case (reject i k)
    have "totalSent (cancelHold k (se_stream (pc_sessions p ! i))) = totalSent (se_stream (pc_sessions p ! i))"
      by (simp add: cancelHold_def split: option.split)
    then show ?thesis unfolding reject(1) by (intro stream_frame_inv [OF inv(1) reject(2)] cancelHold_inv)
  next
    case (fulfill i k)
    then show ?thesis using fulfilled_inv [OF inv(1) assms(4)] by simp
  next
    case (finish i)
    then show ?thesis
      using stream_frame_inv [OF inv(1) finish(2), of finish] by (simp add: finish_def money_inv_def)
  next
    case (destroy i e)
    then show ?thesis
      using stream_frame_inv [OF inv(1) destroy(2), of "stream_destroy e"] by (simp add: stream_destroy_def money_inv_def)
  qed (rule payout_inv_frame [OF inv(1)]; simp add: payout_close_def timer_fired_def)+
qed

lemma payout_reach_inv: "payout_reach m T p \<Longrightarrow> T < 2 ^ 63 \<Longrightarrow> payout_inv T p"
proof (induction rule: payout_reach.induct)
  case start
  then show ?case by (simp add: payout_inv_def new_payout_connection_def total_of_def)
next
  case (step T p p')
  then show ?case using payout_step_inv [OF step(2)] by simp
qed

section \<open>A payout that owes money keeps trying\<close>

definition listening :: "payout_connection \<Rightarrow> bool" where
  "listening p \<longleftrightarrow> (\<exists>s \<in> set (pc_sessions p). se_listening s)"

definition trying :: "payout_connection \<Rightarrow> bool" where
  "trying p \<longleftrightarrow>
     (pc_state p = DISCONNECTED \<and> 0 < getSendMax p \<longrightarrow> pc_timers p \<noteq> [])
     \<and> (pc_state p = CONNECTING \<longrightarrow> 0 < pc_attempts p)
     \<and> (pc_state p = IDLE \<or> pc_state p = SENDING \<longrightarrow> listening p)
     \<and> (pc_state p = ABORTED \<and> \<not> listening p \<and> pc_attempts p = 0 \<longrightarrow> pc_maxRetries p \<le> pc_retries p)"

lemma listening_at: "(\<And>s. se_listening (h s) = se_listening s) \<Longrightarrow> listening (at_session i h p) = listening p"
proof -
  assume h: "\<And>s. se_listening (h s) = se_listening s"
  have "map se_listening (pc_sessions p) = (map se_listening (pc_sessions p))[i := se_listening (pc_sessions p ! i)]"
    by (metis list_update_id map_update)
  then have "map se_listening (pc_sessions (at_session i h p)) = map se_listening (pc_sessions p)"
    by (simp add: at_session_def map_update h)
  moreover have "listening q \<longleftrightarrow> True \<in> set (map se_listening (pc_sessions q))" for q by (auto simp: listening_def)
  ultimately show ?thesis by presburger
qed

lemma listening_frame:
  "pc_sessions q = pc_sessions p \<Longrightarrow> listening q = listening p"
  by (simp add: listening_def)

lemma trying_session: "trying p \<Longrightarrow> (\<And>s. se_listening (h s) = se_listening s) \<Longrightarrow> trying (at_session i h p)"
  by (simp add: trying_def listening_at getSendMax_def)

text \<open>Whatever the state, a call of \<open>safeTrySending\<close> ends with an attempt under way, or aborted.\<close>

lemma trying_safe:
  assumes "pc_state p = DISCONNECTED \<or> trying p"
  shows "trying (safeTrySending p)"
  using assms by (auto simp: trying_def safeTrySending_def payout_trySending_def getSendMax_def listening_def Let_def)

lemma trying_connected: "pc_closing p \<or> trying (payout_connected p)"
proof -
  have "setSendMax (send_max_value p) (new_stream :: unit money_stream) \<noteq> Inl e" if "getSendMax p > 0" for e
    using that by (simp add: setSendMax_def send_max_value_def new_stream_def)
  then show ?thesis
    by (auto simp: payout_connected_def trying_def listening_def Let_def new_session_def split: sum.splits)
qed

lemma trying_send:
  assumes "trying p" "payout_send amount p = (r, p')" "\<not> pc_closing p"
  shows "trying p'"
proof -
  define p1 where "p1 = p\<lparr>pc_target := pc_target p + amount\<rparr>"
  show ?thesis
  proof (cases "pc_stream p = None \<or> pc_state p \<notin> {SENDING, IDLE}")
    case True
    then have "p' = safeTrySending p1"
      using assms(2,3) by (auto simp: payout_send_def p1_def Let_def split: option.splits bool.splits)
    moreover have "pc_state p1 = DISCONNECTED \<or> trying p1"
      using assms(1) by (auto simp: p1_def trying_def listening_def)
    ultimately show ?thesis using trying_safe by simp
  next
    case False
    then obtain i where i: "pc_stream p = Some i" by auto
    let ?q = "p1\<lparr>pc_state := SENDING\<rparr>"
    have q: "trying ?q" using assms(1) False by (auto simp: trying_def listening_def p1_def)
    have "p' = ?q \<or> (\<exists>st. p' = at_session i (\<lambda>se. se\<lparr>se_stream := st\<rparr>) ?q)"
      using assms(2,3) False i by (auto simp: payout_send_def Let_def p1_def split: sum.splits)
    then show ?thesis using q trying_session by auto
  qed
qed

lemma trying_fulfilled: "trying p \<Longrightarrow> i < length (pc_sessions p) \<Longrightarrow> trying (payout_fulfilled i k p)"
proof -
  assume t: "trying p" and i: "i < length (pc_sessions p)"
  have l: "listening p" if "se_listening (pc_sessions p ! i)" using that i by (auto simp: listening_def)
  have ls: "listening (payout_fulfilled i k p) = listening p"
    unfolding payout_fulfilled_def onOutgoingMoney_def Let_def
    by (auto simp: listening_at listening_frame [of "_\<lparr>pc_state := _\<rparr>"] listening_frame [of "_\<lparr>pc_retries := _\<rparr>"] split: option.splits)
  show ?thesis
    using t l by (auto simp: trying_def ls getSendMax_def) (auto simp: payout_fulfilled_def onOutgoingMoney_def Let_def split: option.splits if_splits)
qed

lemma trying_step:
  assumes "payout_step p p'" "pc_closing p \<or> trying p"
  shows "pc_closing p' \<or> trying p'"
  using assms(1)
proof cases
  case (send amount r)
  then show ?thesis using assms(2) trying_send by (cases "pc_closing p") (auto simp: payout_send_def)
next
  case connect
  then show ?thesis using trying_connected [of p]
    by (auto simp: payout_connected_def Let_def split: sum.splits)
next
  case fail
  then show ?thesis by (auto simp: attempt_failed_def trying_def)
next
  case (timer t)
  have "pc_state p = DISCONNECTED \<or> trying (p\<lparr>pc_timers := removeAll t (pc_timers p)\<rparr>)" if "trying p"
    using that by (auto simp: trying_def listening_def)
  then show ?thesis using assms(2) timer(1) trying_safe [of "p\<lparr>pc_timers := removeAll t (pc_timers p)\<rparr>"] by (auto simp: timer_fired_def)
next
  case (cleanup i)
  define p1 where "p1 = at_session i (\<lambda>s. s\<lparr>se_cleanups := se_cleanups s - 1, se_listening := False, se_applied := True\<rparr>)
    (p\<lparr>pc_state := DISCONNECTED, pc_sent := (if se_applied (pc_sessions p ! i) then pc_sent p else pc_sent p + se_amount (pc_sessions p ! i))\<rparr>)"
  have "p' = (if getSendMax p1 > 0 then safeTrySending p1 else p1)"
    by (simp only: cleanup(1) run_cleanup_def p1_def Let_def)
  moreover have "trying (safeTrySending p1)" by (rule trying_safe) (simp add: p1_def)
  moreover have "getSendMax p1 \<le> 0 \<Longrightarrow> trying p1" by (simp add: trying_def) (simp add: p1_def)
  ultimately show ?thesis by simp
next
  case (fulfill i k)
  then show ?thesis using assms(2) trying_fulfilled by auto
qed (use assms(2) trying_session in \<open>auto simp: payout_close_def cleanUp_def\<close>)

lemma payout_reach_trying: "payout_reach m T p \<Longrightarrow> pc_closing p \<or> trying p"
proof (induction rule: payout_reach.induct)
  case start
  show ?case by (simp add: trying_def new_payout_connection_def getSendMax_def)
qed (rule trying_step)

section \<open>Properties\<close>

definition sample_payout :: payout_connection where
  "sample_payout = snd (payout_send 10 (new_payout_connection 20))"

lemma sample_payout_eq:
  "sample_payout = (new_payout_connection 20)\<lparr>pc_state := CONNECTING, pc_retries := 1, pc_target := 10, pc_attempts := 1\<rparr>"
  by (simp add: sample_payout_def payout_send_def new_payout_connection_def safeTrySending_def payout_trySending_def)

lemma sample_payout_reach: "payout_reach 20 10 sample_payout"
proof -
  have "payout_step (new_payout_connection 20) sample_payout"
    unfolding sample_payout_def by (rule payout_step.send) (rule prod.collapse [symmetric])
  from payout_reach.step [OF payout_reach.start this] show ?thesis by (simp add: sample_payout_eq)
qed

text \<open>A step that keeps the target.\<close>

lemma reach_step: "payout_reach m T p \<Longrightarrow> payout_step p q \<Longrightarrow> pc_target q \<le> T \<Longrightarrow> payout_reach m T q"
  using payout_reach.step [of m T p q] by (simp add: max_def split: if_splits)

text \<open>A session whose stream sends its whole limit in one packet.\<close>

lemma fresh_limit:
  assumes "0 < getSendMax p" "getSendMax p < 2 ^ 63"
  shows "setSendMax (send_max_value p) new_stream = Inr (new_stream\<lparr>sendMax := word_of_int (getSendMax p)\<rparr>)"
  using assms by (simp add: setSendMax_def send_max_value_def new_stream_def long_fromInt_def)

lemma fresh_sends:
  assumes "0 < v" "v < (2 :: int) ^ 63"
  defines "s \<equiv> (new_stream :: unit money_stream)\<lparr>sendMax := word_of_int v\<rparr>"
  shows "uint (totalSent (executeHold [1] (snd (holdOutgoing [1] None s)))) = v" "map_of (holds (snd (holdOutgoing [1] None s))) [1] = Some (word_of_int v)"
proof -
  have w: "(0 :: u64) < word_of_int v" "uint (word_of_int v :: u64) = v"
    using assms(1,2) by (auto simp: word_less_def uint_word_of_int)
  have "getAmountAvailableToSend s = word_of_int v"
    by (simp add: getAmountAvailableToSend_def s_def new_stream_def checkedSubtract_def)
  then have h: "holdOutgoing [1] None s = (word_of_int v, s\<lparr>outgoingHeldAmount := word_of_int v, holds := [([1], word_of_int v)]\<rparr>)"
    using w(1) by (simp add: holdOutgoing_def s_def new_stream_def Let_def)
  show "uint (totalSent (executeHold [1] (snd (holdOutgoing [1] None s)))) = v" "map_of (holds (snd (holdOutgoing [1] None s))) [1] = Some (word_of_int v)"
    using w(2) by (simp_all add: h executeHold_def) (simp add: s_def new_stream_def)
qed

lemma limit_is_paid:
  assumes "i < length (pc_sessions p)" "pc_sessions p ! i = new_session True (new_stream\<lparr>sendMax := word_of_int v\<rparr>)" "0 < v" "v < 2 ^ 63"
    and "payout_reach m T p" "pc_target p \<le> T"
  obtains q where "payout_reach m T q" "paid q = paid p + v" "pc_target q = pc_target p" "length (pc_sessions q) = length (pc_sessions p)"
    "\<And>j. j \<noteq> i \<Longrightarrow> pc_sessions q ! j = pc_sessions p ! j"
proof -
  let ?s0 = "(new_stream :: unit money_stream)\<lparr>sendMax := word_of_int v\<rparr>"
  define p2 where "p2 = on_stream i (\<lambda>s. snd (holdOutgoing [1] None s)) p"
  have p2: "pc_sessions p2 ! i = new_session True (snd (holdOutgoing [1] None ?s0))" "i < length (pc_sessions p2)"
    using assms(1,2) by (simp_all add: p2_def new_session_def)
  define p3 where "p3 = payout_fulfilled i [1] p2"
  note f = fresh_sends [OF assms(3,4)]
  have z: "sent_by (new_session True (snd (holdOutgoing [1] None ?s0))) = 0" "sent_by (new_session True ?s0) = 0"
    by (simp_all add: sent_by_def new_session_def holdOutgoing_def Let_def) (simp_all add: new_stream_def)
  have "payout_step p p2"
    unfolding p2_def by (rule payout_step.hold) (use assms(1,2) in \<open>simp_all add: new_session_def new_stream_def\<close>)
  moreover have "payout_step p2 p3"
    unfolding p3_def using p2 by (intro payout_step.fulfill) simp
  moreover have "pc_target p2 \<le> T" "pc_target p3 \<le> T" using assms(6) by (simp_all add: p3_def p2_def)
  ultimately have "payout_reach m T p3" using assms(5) by (blast intro: reach_step)
  moreover have "paid p2 = paid p"
    using assms(1,2) z by (simp add: paid_def p2_def new_session_def)
  moreover have "paid p3 = paid p2 + v"
    using p2(2) f z by (simp add: p3_def payout_fulfilled_def Let_def onOutgoingMoney_def paid_def p2(1) sent_by_def new_session_def)
  moreover have "length (pc_sessions p3) = length (pc_sessions p)" "\<And>j. j \<noteq> i \<Longrightarrow> pc_sessions p3 ! j = pc_sessions p ! j"
    by (auto simp: p3_def p2_def payout_fulfilled_def onOutgoingMoney_def at_session_def Let_def split: option.splits)
  ultimately show thesis by (intro that [of p3]) (simp_all add: p3_def p2_def)
qed


text \<open>
  A payout can pay twice: when a connection fails before it sent anything and its stream reports \<open>error\<close> and
  then \<open>close\<close>, both clean-ups start a connection, and both connections pay the whole target.
\<close>

lemma payout_pays_twice: "\<exists>p. payout_reach 20 10 p \<and> pc_target p = 10 \<and> paid p = 20"
proof -
  define q1 where "q1 = payout_connected sample_payout"
  define q2 where "q2 = cleanUp 0 q1"
  define q3 where "q3 = cleanUp 0 q2"
  define q4 where "q4 = run_cleanup 0 q3"
  define q5 where "q5 = run_cleanup 0 q4"
  define q6 where "q6 = payout_connected q5"
  define q7 where "q7 = payout_connected q6"
  let ?lim = "(new_stream :: unit money_stream)\<lparr>sendMax := 10\<rparr>"
  have lim: "setSendMax (NumV (Num 10)) (new_stream :: unit money_stream) = Inr ?lim"
    using fresh_limit [of sample_payout] by (simp add: send_max_value_def sample_payout_eq getSendMax_def new_payout_connection_def)
  have e1: "q1 = sample_payout\<lparr>pc_attempts := 0, pc_stream := Some 0, pc_state := SENDING, pc_sessions := [new_session True ?lim]\<rparr>"
    by (simp add: q1_def payout_connected_def sample_payout_eq new_payout_connection_def getSendMax_def send_max_value_def lim)
  have e3: "q3 = q1\<lparr>pc_sessions := [(new_session True ?lim)\<lparr>se_cleanups := 2\<rparr>]\<rparr>"
    by (simp add: q3_def q2_def e1 cleanUp_def at_session_def new_session_def)
  have e5: "q5 = q1\<lparr>pc_state := CONNECTING, pc_attempts := 2, pc_retries := 3, pc_sessions := [(new_session False ?lim)\<lparr>se_applied := True\<rparr>]\<rparr>"
    by (simp add: q5_def q4_def e3 e1 run_cleanup_def at_session_def new_session_def Let_def getSendMax_def safeTrySending_def
      payout_trySending_def sample_payout_eq new_payout_connection_def)
  have f5: "pc_sessions q5 = [(new_session False ?lim)\<lparr>se_applied := True\<rparr>]" "pc_attempts q5 = 2" "getSendMax q5 = 10" "pc_target q5 = 10"
    by (simp_all add: e5 e1 sample_payout_eq new_payout_connection_def getSendMax_def)
  have f6: "pc_sessions q6 = pc_sessions q5 @ [new_session True ?lim]" "pc_attempts q6 = 1" "getSendMax q6 = 10" "pc_target q6 = 10"
    using f5 by (simp_all add: q6_def payout_connected_def send_max_value_def Let_def lim) (simp add: getSendMax_def)
  have e7: "pc_sessions q7 = [(new_session False ?lim)\<lparr>se_applied := True\<rparr>, new_session True ?lim, new_session True ?lim]" "pc_target q7 = 10"
    using f6 f5(1) by (simp_all add: q7_def payout_connected_def send_max_value_def Let_def lim)
  have t: "pc_target q1 \<le> 10" "pc_target q2 \<le> 10" "pc_target q3 \<le> 10" "pc_target q4 \<le> 10"
    by (simp_all add: q4_def e3 q2_def e1 cleanUp_def run_cleanup_def Let_def sample_payout_eq)
  have st1: "payout_step sample_payout q1" unfolding q1_def by (rule payout_step.connect) (simp add: sample_payout_eq)
  have st2: "payout_step q1 q2" unfolding q2_def by (rule payout_step.event) (simp_all add: waiting_def e1 new_session_def)
  have st3: "payout_step q2 q3" unfolding q3_def
    by (rule payout_step.event) (simp_all add: waiting_def q2_def cleanUp_def e1 new_session_def)
  have st4: "payout_step q3 q4" unfolding q4_def by (rule payout_step.cleanup) (simp_all add: e3 new_session_def)
  have st5: "payout_step q4 q5" unfolding q5_def
    by (rule payout_step.cleanup) (simp_all add: q4_def run_cleanup_def at_session_def safeTrySending_def payout_trySending_def Let_def e3 new_session_def)
  have st6: "payout_step q5 q6" unfolding q6_def by (rule payout_step.connect) (simp add: f5)
  have st7: "payout_step q6 q7" unfolding q7_def by (rule payout_step.connect) (simp add: f6)
  note r = reach_step [OF reach_step [OF reach_step [OF reach_step [OF sample_payout_reach st1 t(1)] st2 t(2)] st3 t(3)] st4 t(4)]
  have r7: "payout_reach 20 10 q7"
    by (rule reach_step [OF reach_step [OF reach_step [OF r st5] st6] st7]) (simp_all add: f5 f6 e7)
  have n: "0 < (10 :: int)" "(10 :: int) < 2 ^ 63" by simp_all
  have s1: "1 < length (pc_sessions q7)" "pc_sessions q7 ! 1 = new_session True (new_stream\<lparr>sendMax := word_of_int 10\<rparr>)"
    by (simp_all add: e7)
  from limit_is_paid [OF s1 n r7] e7(2) obtain q8 where q8: "payout_reach 20 10 q8" "paid q8 = paid q7 + 10" "pc_target q8 = pc_target q7"
    "length (pc_sessions q8) = length (pc_sessions q7)" "\<And>j. j \<noteq> 1 \<Longrightarrow> pc_sessions q8 ! j = pc_sessions q7 ! j" by auto
  have s2: "2 < length (pc_sessions q8)" "pc_sessions q8 ! 2 = new_session True (new_stream\<lparr>sendMax := word_of_int 10\<rparr>)"
    using q8(4) q8(5) [of 2] by (simp_all add: e7)
  from limit_is_paid [OF s2 n q8(1)] q8(3) e7(2) obtain q9 where q9: "payout_reach 20 10 q9" "paid q9 = paid q8 + 10" "pc_target q9 = pc_target q8" by auto
  have "paid q7 = 0" by (simp add: paid_def total_of_def e7 sent_by_def new_session_def new_stream_def)
  then have "pc_target q9 = 10" "paid q9 = 20" using q8 q9 e7(2) by simp_all
  with q9(1) show ?thesis by blast
qed


text \<open>
  C12. A payout that is owed money keeps trying: in every state it can reach, whatever happens in whatever order, as long as it was not closed and less was counted
  than asked for, a timer for the next attempt is set when it is disconnected, an attempt is under way when it is connecting, a connection
  is listened to when it is sending or idle, and it is aborted for good only after the allowed retries or as long as an attempt or a connection can still bring it back.
\<close>

theorem payout_keeps_trying:
  assumes "payout_reach m T p" "\<not> pc_closing p" "pc_sent p < pc_target p"
  shows "case pc_state p of
      DISCONNECTED \<Rightarrow> pc_timers p \<noteq> []
    | CONNECTING \<Rightarrow> 0 < pc_attempts p
    | IDLE \<Rightarrow> \<exists>s \<in> set (pc_sessions p). se_listening s
    | SENDING \<Rightarrow> \<exists>s \<in> set (pc_sessions p). se_listening s
    | ABORTED \<Rightarrow> pc_maxRetries p \<le> pc_retries p \<or> 0 < pc_attempts p \<or> (\<exists>s \<in> set (pc_sessions p). se_listening s)"
  using payout_reach_trying [OF assms(1)] assms(2,3)
  by (auto simp: trying_def listening_def getSendMax_def split: payout_state.split)

theorem payout_keeps_trying_witness:
  "pc_timers (attempt_failed (sample_payout\<lparr>pc_attempts := 0\<rparr>)) \<noteq> []"
proof -
  let ?q = "attempt_failed (sample_payout\<lparr>pc_attempts := 0\<rparr>)"
  have "payout_step sample_payout (attempt_failed (sample_payout\<lparr>pc_attempts := pc_attempts sample_payout - 1\<rparr>))"
    by (rule payout_step.fail) (simp add: sample_payout_eq)
  then have "payout_step sample_payout ?q" by (simp add: sample_payout_eq)
  then have "payout_reach 20 10 ?q" by (rule reach_step [OF sample_payout_reach]) (simp add: sample_payout_eq)
  from payout_keeps_trying [OF this] show ?thesis
    by (simp add: attempt_failed_def sample_payout_eq new_payout_connection_def)
qed

text \<open>
  A closed payout with money left to send starts over: the clean-up of the connection that \<open>close\<close> destroys does not look at \<open>closing\<close>.
\<close>

lemma closed_payout_reconnects:
  assumes "pc_state p = SENDING" "i < length (pc_sessions p)" "se_applied (pc_sessions p ! i) = False"
    and "pc_sent p + se_amount (pc_sessions p ! i) < pc_target p" "pc_retries p < pc_maxRetries p" "pc_attempts p = 0"
  shows "pc_closing (run_cleanup i (cleanUp i (payout_close p))) \<and> pc_attempts (run_cleanup i (cleanUp i (payout_close p))) = 1"
  using assms by (simp add: run_cleanup_def cleanUp_def payout_close_def safeTrySending_def payout_trySending_def getSendMax_def Let_def)

section \<open>The payouts of a sender\<close>

text \<open>\<open>Payout\<close>: the table of connections, with the timers that close those that are not used.\<close>

definition CLEANUP_TIMEOUT :: int where "CLEANUP_TIMEOUT = 30 * 1000"

record payout_entry =
  pe_connection :: payout_connection
  pe_lastSent :: int

record payout_table =
  po_payouts :: "(jsstring \<times> payout_entry) list"
  po_timers :: "jsstring list"
  po_maxRetries :: nat

definition new_payout :: "nat option \<Rightarrow> payout_table" where
  "new_payout maxRetries =
     \<lparr>po_payouts = [], po_timers = [],
      po_maxRetries = (case maxRetries of None \<Rightarrow> 20 | Some n \<Rightarrow> if n = 0 then 20 else n)\<rparr>"

definition getPayout :: "jsstring \<Rightarrow> payout_table \<Rightarrow> payout_entry option" where
  "getPayout pointer t = map_of (po_payouts t) pointer"

definition is_new :: "jsstring \<Rightarrow> payout_table \<Rightarrow> bool" where
  "is_new pointer t \<longleftrightarrow> getPayout pointer t = None \<and> pointer \<notin> set object_members"

text \<open>
  \<open>send\<close>. The constructor of the connection throws when the pointer is no URL; a pointer that names an inherited property finds an
  object without a connection.
\<close>

definition table_send :: "url_parser \<Rightarrow> int \<Rightarrow> jsstring \<Rightarrow> int \<Rightarrow> payout_table \<Rightarrow> unit result \<times> payout_table" where
  "table_send parse now pointer amount t =
     (if is_new pointer t \<and> resolvePaymentPointer parse pointer = None then (Inl (TypeError ''Invalid URL''), t) else
      let t1 = (if is_new pointer t
                then t\<lparr>po_payouts := AList.update pointer
                          \<lparr>pe_connection = new_payout_connection (po_maxRetries t), pe_lastSent = now\<rparr> (po_payouts t),
                       po_timers := po_timers t @ [pointer]\<rparr>
                else t)
      in case getPayout pointer t1 of
           None \<Rightarrow> (Inl (TypeError ''this.payouts[paymentPointer].connection is undefined''), t1)
         | Some e \<Rightarrow>
             (case payout_send amount (pe_connection e) of
                (r, c) \<Rightarrow> (r, t1\<lparr>po_payouts := AList.update pointer \<lparr>pe_connection = c, pe_lastSent = now\<rparr> (po_payouts t1)\<rparr>)))"

text \<open>\<open>expirePaymentPointer\<close>, run by a timer of the pointer: the connection that is closed, if any.\<close>

definition expirePaymentPointer :: "int \<Rightarrow> jsstring \<Rightarrow> payout_table \<Rightarrow> payout_connection option \<times> payout_table" where
  "expirePaymentPointer now pointer t =
     (let t1 = t\<lparr>po_timers := remove1 pointer (po_timers t)\<rparr>
      in case getPayout pointer t of
           None \<Rightarrow> (None, t1)
         | Some e \<Rightarrow>
             if now - pe_lastSent e > CLEANUP_TIMEOUT
             then (Some (payout_close (pe_connection e)), t1\<lparr>po_payouts := AList.delete pointer (po_payouts t1)\<rparr>)
             else (None, t1\<lparr>po_timers := po_timers t1 @ [pointer]\<rparr>))"

inductive table_step :: "url_parser \<Rightarrow> payout_table \<Rightarrow> payout_table \<Rightarrow> bool" for parse where
  send: "table_send parse now pointer amount t = (r, t') \<Longrightarrow> table_step parse t t'"
| expire: "pointer \<in> set (po_timers t) \<Longrightarrow> expirePaymentPointer now pointer t = (gone, t') \<Longrightarrow> table_step parse t t'"
| moved: "getPayout pointer t = Some e \<Longrightarrow> payout_step (pe_connection e) c
    \<Longrightarrow> table_step parse t (t\<lparr>po_payouts := AList.update pointer (e\<lparr>pe_connection := c\<rparr>) (po_payouts t)\<rparr>)"

inductive table_reach :: "url_parser \<Rightarrow> nat option \<Rightarrow> payout_table \<Rightarrow> bool" for parse m where
  start: "table_reach parse m (new_payout m)"
| step: "table_reach parse m t \<Longrightarrow> table_step parse t t' \<Longrightarrow> table_reach parse m t'"

definition reached :: "nat \<Rightarrow> payout_connection \<Rightarrow> bool" where
  "reached m p \<longleftrightarrow> (\<exists>T. payout_reach m T p)"

lemma reached_new: "reached m (new_payout_connection m)"
  unfolding reached_def using payout_reach.start by blast

lemma reached_step: "reached m p \<Longrightarrow> payout_step p q \<Longrightarrow> reached m q"
  unfolding reached_def by (blast intro: payout_reach.step)

definition all_reached :: "nat \<Rightarrow> (jsstring \<times> payout_entry) list \<Rightarrow> bool" where
  "all_reached m es \<longleftrightarrow> (\<forall>k e. (k, e) \<in> set es \<longrightarrow> reached m (pe_connection e))"

definition table_inv :: "payout_table \<Rightarrow> bool" where
  "table_inv t \<longleftrightarrow> distinct (map fst (po_payouts t)) \<and> distinct (po_timers t) \<and> set (po_timers t) = fst ` set (po_payouts t)
     \<and> all_reached (po_maxRetries t) (po_payouts t)"

lemma getPayout_Some: "getPayout pointer t = Some e \<Longrightarrow> (pointer, e) \<in> set (po_payouts t)"
  by (simp add: getPayout_def map_of_SomeD)

lemma getPayout_None: "getPayout pointer t = None \<longleftrightarrow> pointer \<notin> fst ` set (po_payouts t)"
  by (simp add: getPayout_def map_of_eq_None_iff)

lemma delete_dom: "fst ` set (AList.delete k xs) = fst ` set xs - {k}"
  by (force simp: AList.delete_eq)

lemma reached_update:
  assumes "all_reached m es" "reached m (pe_connection e)"
  shows "all_reached m (AList.update k e es)"
proof -
  have "set (AList.update k e es) \<subseteq> insert (k, e) (set es)" by (induction es) auto
  with assms show ?thesis by (auto simp: all_reached_def)
qed

lemma reached_delete: "all_reached m es \<Longrightarrow> all_reached m (AList.delete k es)"
  by (auto simp: all_reached_def AList.delete_eq)

lemma reached_entry: "table_inv t \<Longrightarrow> getPayout k t = Some e \<Longrightarrow> reached (po_maxRetries t) (pe_connection e)"
  using getPayout_Some by (simp add: table_inv_def all_reached_def) blast

text \<open>An entry is replaced by one whose connection is reached as well.\<close>

lemma table_update_inv:
  assumes "table_inv t" "pointer \<in> fst ` set (po_payouts t)" "reached (po_maxRetries t) (pe_connection e)"
  shows "table_inv (t\<lparr>po_payouts := AList.update pointer e (po_payouts t)\<rparr>)"
  using assms by (simp add: table_inv_def distinct_update dom_update reached_update insert_absorb)

lemma table_add_inv:
  assumes "table_inv t" "pointer \<notin> fst ` set (po_payouts t)" "pe_connection e = new_payout_connection (po_maxRetries t)"
  shows "table_inv (t\<lparr>po_payouts := AList.update pointer e (po_payouts t), po_timers := po_timers t @ [pointer]\<rparr>)"
  using assms by (simp add: table_inv_def distinct_update dom_update reached_update reached_new)

lemma table_step_inv: "table_step parse t t' \<Longrightarrow> table_inv t \<Longrightarrow> table_inv t'"
proof (induction rule: table_step.induct)
  case (send now pointer amount t r t')
  define e0 where "e0 = \<lparr>pe_connection = new_payout_connection (po_maxRetries t), pe_lastSent = now\<rparr>"
  show ?case
  proof (cases "is_new pointer t \<and> resolvePaymentPointer parse pointer = None")
    case True
    then show ?thesis using send by (simp add: table_send_def)
  next
  case resolves: False
  define t1 where "t1 = (if is_new pointer t
    then t\<lparr>po_payouts := AList.update pointer e0 (po_payouts t), po_timers := po_timers t @ [pointer]\<rparr> else t)"
  have t1: "table_inv t1" using send.prems table_add_inv [of t pointer e0] by (simp add: t1_def is_new_def getPayout_None e0_def)
  show ?thesis
  proof (cases "getPayout pointer t1")
    case None
    then show ?thesis using send.hyps t1 resolves by (simp add: table_send_def t1_def e0_def Let_def split: if_splits)
  next
    case (Some e)
    obtain r' c where c: "payout_send amount (pe_connection e) = (r', c)" by fastforce
    have "t' = t1\<lparr>po_payouts := AList.update pointer \<lparr>pe_connection = c, pe_lastSent = now\<rparr> (po_payouts t1)\<rparr>"
      using send.hyps resolves Some c unfolding table_send_def e0_def [symmetric] t1_def [symmetric] by (simp add: Let_def)
    moreover have "reached (po_maxRetries t1) (pe_connection e)"
      by (rule reached_entry [OF t1 Some])
    then have "reached (po_maxRetries t1) c"
      by (rule reached_step [OF _ payout_step.send [OF c]])
    ultimately show ?thesis
      using table_update_inv [OF t1, of pointer] getPayout_Some [OF Some] by force
  qed
  qed
next
  case (expire pointer t now gone t')
  show ?case
  proof (cases "getPayout pointer t")
    case None
    then show ?thesis using expire by (auto simp: table_inv_def getPayout_None)
  next
    case (Some e)
    have d: "distinct (po_timers t)" "set (po_timers t) = fst ` set (po_payouts t)" using expire.prems by (simp_all add: table_inv_def)
    have "t' = t\<lparr>po_timers := remove1 pointer (po_timers t), po_payouts := AList.delete pointer (po_payouts t)\<rparr>
        \<or> t' = t\<lparr>po_timers := remove1 pointer (po_timers t) @ [pointer]\<rparr>"
      using expire.hyps(2) Some by (auto simp: expirePaymentPointer_def Let_def split: if_splits)
    then show ?thesis
    proof
      assume "t' = t\<lparr>po_timers := remove1 pointer (po_timers t), po_payouts := AList.delete pointer (po_payouts t)\<rparr>"
      moreover have "set (remove1 pointer (po_timers t)) = fst ` set (AList.delete pointer (po_payouts t))"
        by (simp only: set_remove1_eq [OF d(1)] delete_dom d(2))
      ultimately show ?thesis
        using expire.prems by (simp add: table_inv_def distinct_delete reached_delete)
    next
      assume "t' = t\<lparr>po_timers := remove1 pointer (po_timers t) @ [pointer]\<rparr>"
      moreover have "set (remove1 pointer (po_timers t) @ [pointer]) = fst ` set (po_payouts t)"
        using expire.hyps(1) d by auto
      ultimately show ?thesis using expire.prems d(1) by (simp add: table_inv_def)
    qed
  qed
next
  case (moved pointer t e c)
  have "reached (po_maxRetries t) (pe_connection e)"
    by (rule reached_entry [OF moved.prems moved.hyps(1)])
  then have "reached (po_maxRetries t) c" using moved.hyps(2) by (rule reached_step)
  then show ?case
    using table_update_inv [OF moved.prems, of pointer "e\<lparr>pe_connection := c\<rparr>"] getPayout_Some [OF moved.hyps(1)] by force
qed

lemma table_reach_inv: "table_reach parse m t \<Longrightarrow> table_inv t"
proof (induction rule: table_reach.induct)
  case start
  then show ?case by (simp add: table_inv_def new_payout_def all_reached_def)
qed (rule table_step_inv)

text \<open>
  A sender has one connection for a pointer, and exactly one timer waits for each of them: whatever is sent and
  whichever timers fire, every connection is looked at again until it was not used for 30 seconds.
\<close>

theorem payout_table_tracked:
  assumes "table_reach parse m t"
  shows "distinct (map fst (po_payouts t)) \<and> distinct (po_timers t) \<and> set (po_timers t) = fst ` set (po_payouts t)"
  using table_reach_inv [OF assms] by (simp add: table_inv_def)

theorem payout_table_tracked_witness:
  "po_timers (snd (table_send sample_parser 0 (js ''$a.example'') 5 (new_payout None))) = [js ''$a.example'']
   \<and> fst ` set (po_payouts (snd (table_send sample_parser 0 (js ''$a.example'') 5 (new_payout None)))) = {js ''$a.example''}"
proof -
  have n: "js ''$a.example'' \<notin> set object_members" by (simp add: object_members_def js_def)
  have "resolvePaymentPointer sample_parser (js ''$a.example'') \<noteq> None" by code_simp
  then have t: "po_timers (snd (table_send sample_parser 0 (js ''$a.example'') 5 (new_payout None))) = [js ''$a.example'']"
    using n by (simp add: table_send_def is_new_def getPayout_def new_payout_def Let_def split: prod.split)
  have "table_reach sample_parser None (snd (table_send sample_parser 0 (js ''$a.example'') 5 (new_payout None)))"
    by (rule table_reach.step [OF table_reach.start table_step.send]) (rule prod.collapse [symmetric])
  from payout_table_tracked [OF this] show ?thesis by (simp add: t)
qed

end
