(* ===== verification/Open_Payments.thy ===== *)
theory Open_Payments
  imports Pay_Quote Base64 Payment_Pointer
begin

text \<open>
  \<^verbatim>\<open>pay/src/open-payments.ts\<close> and \<open>setupPayment\<close> of \<^verbatim>\<open>pay/src/index.ts\<close>: the queries that resolve what the user gives
  (an Incoming Payment, a connection, an account or STREAM credentials) to the details of a payment, and the validation of
  what servers answer.

  A parsed JSON document is a \<open>json\<close>, a JavaScript value that may be \<open>undefined\<close> a \<open>json option\<close>. \<open>fetch\<close> is an argument: what the
  last request is answered with, given all requests and delays so far; a request that is aborted by its timer is one that fails
  with \<open>AbortError\<close>. \<open>URL\<close> and \<open>Date.parse\<close> are arguments too. The reason of a rejected promise is only logged; it is kept as
  a \<open>js_error\<close>.
\<close>

section \<open>JSON values\<close>

datatype json =
    JNull
  | JBool bool
  | JNum jsnum
  | JStr jsstring
  | JArr "json list"
  | JObj "(jsstring \<times> json) list"

text \<open>Destructuring one property of a value: \<open>null\<close> and \<open>undefined\<close> throw, the last binding of a name counts.\<close>

fun prop_of :: "jsstring \<Rightarrow> json option \<Rightarrow> json option result" where
  "prop_of k None = Inl (TypeError ''Cannot destructure undefined'')"
| "prop_of k (Some JNull) = Inl (TypeError ''Cannot destructure null'')"
| "prop_of k (Some (JObj kvs)) = Inr (map_of (rev kvs) k)"
| "prop_of k (Some _) = Inr None"

definition isNonNullObject :: "json \<Rightarrow> bool" where
  "isNonNullObject v = (case v of JArr _ \<Rightarrow> True | JObj _ \<Rightarrow> True | _ \<Rightarrow> False)"

text \<open>A property of a value that is known to be an object.\<close>

definition field_of :: "jsstring \<Rightarrow> json \<Rightarrow> json option" where
  "field_of k v = (case v of JObj kvs \<Rightarrow> map_of (rev kvs) k | _ \<Rightarrow> None)"

fun truthy :: "json option \<Rightarrow> bool" where
  "truthy None = False"
| "truthy (Some JNull) = False"
| "truthy (Some (JBool b)) = b"
| "truthy (Some (JNum n)) = (n \<noteq> NaN \<and> n \<noteq> Num 0)"
| "truthy (Some (JStr s)) = (s \<noteq> [])"
| "truthy (Some _) = True"

fun string_value :: "json option \<Rightarrow> jsstring option" where
  "string_value (Some (JStr s)) = Some s"
| "string_value _ = None"

text \<open>\<open>typeof x === 'string' || x === undefined\<close>, with the value.\<close>

fun optional_string :: "json option \<Rightarrow> jsstring option option" where
  "optional_string None = Some None"
| "optional_string (Some (JStr s)) = Some (Some s)"
| "optional_string (Some _) = None"

fun scale_value :: "json option \<Rightarrow> nat option" where
  "scale_value (Some (JNum (Num r))) = (if isValidAssetScale (Num r) then Some (nat \<lfloor>r\<rfloor>) else None)"
| "scale_value _ = None"

section \<open>Validation\<close>

definition SHARED_SECRET_BYTE_LENGTH :: nat where "SHARED_SECRET_BYTE_LENGTH = 32"

fun validateSharedSecretBase64 :: "json option \<Rightarrow> buffer option" where
  "validateSharedSecretBase64 (Some (JStr s)) =
     (let sharedSecret = base64_decode s
      in if length sharedSecret = SHARED_SECRET_BYTE_LENGTH then Some sharedSecret else None)"
| "validateSharedSecretBase64 _ = None"

definition below_u64 :: "pint option \<Rightarrow> pint option" where
  "below_u64 n = (case n of Some m \<Rightarrow> if m \<le> MAX_U64 then Some m else None | None \<Rightarrow> None)"

fun validateUInt64 :: "json option \<Rightarrow> pint option" where
  "validateUInt64 (Some (JStr s)) = below_u64 (Int_from (StringAmount s))"
| "validateUInt64 (Some (JNum n)) = below_u64 (Int_from (NumberAmount n))"
| "validateUInt64 _ = None"

record amount =
  am_value :: pint
  am_assetCode :: jsstring
  am_assetScale :: nat

text \<open>\<open>undefined\<close>, \<open>null\<close> and an amount.\<close>

datatype amount_check = NoAmount | BadAmount | GoodAmount amount

definition validateOpenPaymentsAmount :: "json option \<Rightarrow> amount_check result" where
  "validateOpenPaymentsAmount v =
     (if v = None then Inr NoAmount
      else ebind (prop_of (js ''value'') v) (\<lambda>val.
           ebind (prop_of (js ''assetScale'') v) (\<lambda>assetScale.
           ebind (prop_of (js ''assetCode'') v) (\<lambda>assetCode.
             case (validateUInt64 val, scale_value assetScale, string_value assetCode) of
               (Some n, Some sc, Some code) \<Rightarrow> Inr (GoodAmount \<lparr>am_value = n, am_assetCode = code, am_assetScale = sc\<rparr>)
             | _ \<Rightarrow> Inr BadAmount))))"

record account =
  acc_id :: jsstring
  acc_publicName :: "jsstring option"
  acc_assetCode :: jsstring
  acc_assetScale :: nat
  acc_authServer :: jsstring

definition validateOpenPaymentsAccount :: "url_parser \<Rightarrow> json \<Rightarrow> account option" where
  "validateOpenPaymentsAccount parse v =
     (if \<not> isNonNullObject v then None
      else case (string_value (field_of (js ''id'') v), optional_string (field_of (js ''publicName'') v),
                 string_value (field_of (js ''assetCode'') v), scale_value (field_of (js ''assetScale'') v),
                 string_value (field_of (js ''authServer'') v)) of
             (Some ident, Some publicName, Some assetCode, Some assetScale, Some authServer) \<Rightarrow>
               if fromUrl parse ident = None then None
               else Some \<lparr>acc_id = ident, acc_publicName = publicName, acc_assetCode = assetCode, acc_assetScale = assetScale,
                          acc_authServer = authServer\<rparr>
           | _ \<Rightarrow> None)"

record incoming =
  in_id :: jsstring
  in_accountId :: jsstring
  in_completed :: bool
  in_expiresAt :: "time option"
  in_description :: "jsstring option"
  in_externalRef :: "jsstring option"
  in_incomingAmount :: "amount option"
  in_receivedAmount :: amount

type_synonym date_parser = "json \<Rightarrow> time option result"

text \<open>
  The outer option of \<open>expiry_time\<close> is \<open>None\<close> when the expiry is refused: \<open>NaN\<close> (\<open>None\<close> of the parser) or negative.
\<close>

definition expiry_time :: "date_parser \<Rightarrow> json option \<Rightarrow> time option option result" where
  "expiry_time dateParse v =
     (case v of
        Some w \<Rightarrow>
          if truthy v then
            ebind (dateParse w) (\<lambda>t. Inr (case t of None \<Rightarrow> None | Some ms \<Rightarrow> if 0 \<le> ms then Some (Some ms) else None))
          else Inr (Some None)
      | None \<Rightarrow> Inr (Some None))"

fun completed_flag :: "json option \<Rightarrow> bool option" where
  "completed_flag (Some (JBool b)) = Some b"
| "completed_flag _ = None"

fun checked_amount :: "amount_check \<Rightarrow> amount option" where
  "checked_amount (GoodAmount a) = Some a"
| "checked_amount _ = None"

definition as_expected :: "amount option \<Rightarrow> amount option \<Rightarrow> bool" where
  "as_expected expectedAmount incomingAmount =
     (case expectedAmount of None \<Rightarrow> True | Some e \<Rightarrow> incomingAmount = Some e)"

definition validateOpenPaymentsIncomingPayment ::
  "url_parser \<Rightarrow> date_parser \<Rightarrow> amount option \<Rightarrow> json \<Rightarrow> incoming option result" where
  "validateOpenPaymentsIncomingPayment parse dateParse expectedAmount v =
     (if \<not> isNonNullObject v then Inr None
      else ebind (expiry_time dateParse (field_of (js ''expiresAt'') v)) (\<lambda>expires.
           ebind (validateOpenPaymentsAmount (field_of (js ''incomingAmount'') v)) (\<lambda>incomingAmount.
           ebind (validateOpenPaymentsAmount (field_of (js ''receivedAmount'') v)) (\<lambda>receivedAmount.
             case (string_value (field_of (js ''id'') v), string_value (field_of (js ''accountId'') v),
                   completed_flag (field_of (js ''completed'') v), optional_string (field_of (js ''description'') v),
                   optional_string (field_of (js ''externalRef'') v), expires, checked_amount receivedAmount) of
               (Some ident, Some accountId, Some completed, Some description, Some externalRef, Some expiry, Some received) \<Rightarrow>
                 if incomingAmount = BadAmount \<or> \<not> as_expected expectedAmount (checked_amount incomingAmount) then Inr None
                 else if fromUrl parse ident = None \<or> fromUrl parse accountId = None then Inr None
                 else Inr (Some \<lparr>in_id = ident, in_accountId = accountId, in_completed = completed, in_expiresAt = expiry,
                                 in_description = description, in_externalRef = externalRef,
                                 in_incomingAmount = checked_amount incomingAmount, in_receivedAmount = received\<rparr>)
             | _ \<Rightarrow> Inr None))))"

section \<open>Credentials\<close>

record payment_destination =
  pd_sharedSecret :: buffer
  pd_destinationAddress :: jsstring
  pd_destinationAsset :: "asset_details option"
  pd_paymentDetails :: "incoming option"
  pd_accountUrl :: "jsstring option"
  pd_destinationAccount :: "jsstring option"

definition plain_destination :: "buffer \<Rightarrow> jsstring \<Rightarrow> asset_details option \<Rightarrow> payment_destination" where
  "plain_destination secret address asset =
     \<lparr>pd_sharedSecret = secret, pd_destinationAddress = address, pd_destinationAsset = asset, pd_paymentDetails = None,
      pd_accountUrl = None, pd_destinationAccount = None\<rparr>"

fun valid_address :: "json option \<Rightarrow> jsstring option" where
  "valid_address (Some (JStr s)) = (if isValidIlpAddress s then Some s else None)"
| "valid_address _ = None"

definition credentials :: "json option \<Rightarrow> json option \<Rightarrow> payment_destination option" where
  "credentials address secret =
     (case (validateSharedSecretBase64 secret, valid_address address) of
        (Some sharedSecret, Some destinationAddress) \<Rightarrow> Some (plain_destination sharedSecret destinationAddress None)
      | _ \<Rightarrow> None)"

definition validateSpspCredentials :: "json \<Rightarrow> payment_destination option" where
  "validateSpspCredentials v =
     (if \<not> isNonNullObject v then None
      else credentials (field_of (js ''destination_account'') v) (field_of (js ''shared_secret'') v))"

definition validateConnectionCredentials :: "json \<Rightarrow> payment_destination option" where
  "validateConnectionCredentials v =
     (if \<not> isNonNullObject v then None
      else credentials (field_of (js ''ilpAddress'') v) (field_of (js ''sharedSecret'') v))"

section \<open>HTTP\<close>

datatype http_event = Requested jsstring jsstring | Slept nat

record http_response =
  resp_status :: nat
  resp_json :: "json result"

text \<open>A failed request carries the name of its error.\<close>

datatype fetch_outcome = Responded http_response | Failed jsstring

type_synonym network = "http_event list \<Rightarrow> fetch_outcome"

definition OPEN_PAYMENT_QUERY_ACCEPT_HEADER :: jsstring where
  "OPEN_PAYMENT_QUERY_ACCEPT_HEADER = js ''application/json''"

definition ACCOUNT_QUERY_ACCEPT_HEADER :: jsstring where
  "ACCOUNT_QUERY_ACCEPT_HEADER = OPEN_PAYMENT_QUERY_ACCEPT_HEADER @ js '', application/spsp4+json''"

fun retryable :: "fetch_outcome \<Rightarrow> bool" where
  "retryable (Responded res) = (resp_status res \<ge> 500 \<or> resp_status res = 429)"
| "retryable (Failed errName) = (errName \<noteq> js ''AbortError'')"

fun settled :: "fetch_outcome \<Rightarrow> json result" where
  "settled (Responded res) =
     (if 200 \<le> resp_status res \<and> resp_status res \<le> 299 then resp_json res else Inl (Error ''rejected''))"
| "settled (Failed errName) = Inl (Error ''fetch failed'')"

text \<open>\<open>remainingRetries.shift()\<close> is the first element, and the recursion is on the others.\<close>

fun fetchJson :: "network \<Rightarrow> jsstring \<Rightarrow> jsstring \<Rightarrow> nat list \<Rightarrow> http_event list \<Rightarrow> json result \<times> http_event list" where
  "fetchJson net url acceptHeader [] tr =
     (let tr1 = tr @ [Requested url acceptHeader] in (settled (net tr1), tr1))"
| "fetchJson net url acceptHeader (retryDelay # remainingRetries) tr =
     (let tr1 = tr @ [Requested url acceptHeader]
      in if retryable (net tr1) \<and> retryDelay \<noteq> 0
         then fetchJson net url acceptHeader remainingRetries (tr1 @ [Slept retryDelay])
         else (settled (net tr1), tr1))"

definition RETRIES :: "nat list" where "RETRIES = [10, 500, 2500]"

section \<open>Queries\<close>

record web =
  web_fetch :: network
  web_url :: url_parser
  web_date :: date_parser

definition connection_details :: "web \<Rightarrow> json option \<Rightarrow> http_event list \<Rightarrow> json option result \<times> http_event list" where
  "connection_details w ilpStreamConnection tr =
     (case ilpStreamConnection of
        Some (JStr url) \<Rightarrow>
          (let (res, tr1) = fetchJson (web_fetch w) url OPEN_PAYMENT_QUERY_ACCEPT_HEADER RETRIES tr
           in (ebind res (\<lambda>v. Inr (Some v)), tr1))
      | v \<Rightarrow> (Inr v, tr))"

definition validateOpenPaymentsCredentials ::
  "web \<Rightarrow> json \<Rightarrow> http_event list \<Rightarrow> payment_destination option result \<times> http_event list" where
  "validateOpenPaymentsCredentials w v tr =
     (if \<not> isNonNullObject v then (Inr None, tr)
      else
        let receivedAmount = field_of (js ''receivedAmount'') v
        in if \<not> truthy receivedAmount then (Inr None, tr)
           else
             let (details, tr1) = connection_details w (field_of (js ''ilpStreamConnection'') v) tr
             in (ebind details (\<lambda>d.
                 ebind (prop_of (js ''ilpAddress'') d) (\<lambda>destinationAddress.
                 ebind (prop_of (js ''sharedSecret'') d) (\<lambda>sharedSecretBase64.
                 ebind (validateOpenPaymentsAmount receivedAmount) (\<lambda>destinationAmount.
                   Inr (case (checked_amount destinationAmount, credentials destinationAddress sharedSecretBase64) of
                          (Some a, Some c) \<Rightarrow>
                            Some (c\<lparr>pd_destinationAsset := Some \<lparr>asset_code = am_assetCode a, asset_scale = am_assetScale a\<rparr>\<rparr>)
                        | _ \<Rightarrow> None))))), tr1))"

text \<open>The tail of the three queries: an exception or no result is \<open>QueryFailed\<close>.\<close>

definition query_result :: "'a option result \<Rightarrow> PaymentError + 'a" where
  "query_result r = (case r of Inr (Some v) \<Rightarrow> Inr v | _ \<Rightarrow> Inl QueryFailed)"

definition queryIncomingPayment :: "web \<Rightarrow> jsstring \<Rightarrow> http_event list \<Rightarrow> (PaymentError + payment_destination) \<times> http_event list" where
  "queryIncomingPayment w url tr =
     (if createHttpUrl (web_url w) url = None then (Inl QueryFailed, tr)
      else
        let (res, tr1) = fetchJson (web_fetch w) url OPEN_PAYMENT_QUERY_ACCEPT_HEADER RETRIES tr
        in case res of
             Inl e \<Rightarrow> (Inl QueryFailed, tr1)
           | Inr v \<Rightarrow>
               (let (creds, tr2) = validateOpenPaymentsCredentials w v tr1
                in (query_result (ebind creds (\<lambda>c.
                      ebind (validateOpenPaymentsIncomingPayment (web_url w) (web_date w) None v) (\<lambda>ip.
                        Inr (case (ip, c) of
                               (Some incomingPayment, Some d) \<Rightarrow>
                                 Some (d\<lparr>pd_paymentDetails := Some incomingPayment, pd_accountUrl := Some (in_accountId incomingPayment)\<rparr>)
                             | _ \<Rightarrow> None)))), tr2)))"

datatype queried = AnAccount account | ADestination payment_destination

fun isAccount :: "url_parser \<Rightarrow> queried \<Rightarrow> bool" where
  "isAccount parse (AnAccount a) = (acc_assetScale a \<le> 255 \<and> fromUrl parse (acc_id a) \<noteq> None)"
| "isAccount parse (ADestination d) = False"

definition account_of :: "url_parser \<Rightarrow> jsstring \<Rightarrow> account_url option" where
  "account_of parse destinationAccount =
     (case fromPaymentPointer parse destinationAccount of Some a \<Rightarrow> Some a | None \<Rightarrow> fromUrl parse destinationAccount)"

definition account_answer :: "url_parser \<Rightarrow> json \<Rightarrow> queried option" where
  "account_answer parse v =
     (case validateOpenPaymentsAccount parse v of
        Some a \<Rightarrow> Some (AnAccount a)
      | None \<Rightarrow> map_option ADestination (validateSpspCredentials v))"

definition with_account :: "url_parser \<Rightarrow> account_url \<Rightarrow> queried \<Rightarrow> queried" where
  "with_account parse accountUrl res =
     (if isAccount parse res then res
      else case res of
             ADestination d \<Rightarrow>
               ADestination (d\<lparr>pd_accountUrl := Some (account_toString accountUrl),
                               pd_destinationAccount := toPaymentPointer accountUrl\<rparr>)
           | _ \<Rightarrow> res)"

definition queryAccount :: "web \<Rightarrow> jsstring \<Rightarrow> http_event list \<Rightarrow> (PaymentError + queried) \<times> http_event list" where
  "queryAccount w destinationAccount tr =
     (case account_of (web_url w) destinationAccount of
        None \<Rightarrow> (Inl InvalidPaymentPointer, tr)
      | Some accountUrl \<Rightarrow>
          let (res, tr1) = fetchJson (web_fetch w) (toEndpointUrl accountUrl) ACCOUNT_QUERY_ACCEPT_HEADER RETRIES tr
          in (ebind (query_result (ebind res (\<lambda>v. Inr (account_answer (web_url w) v))))
                (\<lambda>q. Inr (with_account (web_url w) accountUrl q)), tr1))"

definition queryConnection :: "web \<Rightarrow> jsstring \<Rightarrow> http_event list \<Rightarrow> (PaymentError + payment_destination) \<times> http_event list" where
  "queryConnection w url tr =
     (if createHttpUrl (web_url w) url = None then (Inl QueryFailed, tr)
      else
        let (res, tr1) = fetchJson (web_fetch w) url OPEN_PAYMENT_QUERY_ACCEPT_HEADER RETRIES tr
        in (query_result (ebind res (\<lambda>v. Inr (validateConnectionCredentials v))), tr1))"

section \<open>Setting up a payment\<close>

text \<open>The \<open>sharedSecret\<close> option is typed \<open>Uint8Array\<close>; only a \<open>Buffer\<close> is accepted.\<close>

datatype secret_arg = ABuffer buffer | AUint8Array buffer

fun isSharedSecretBuffer :: "secret_arg option \<Rightarrow> buffer option" where
  "isSharedSecretBuffer (Some (ABuffer b)) = (if length b = SHARED_SECRET_BYTE_LENGTH then Some b else None)"
| "isSharedSecretBuffer _ = None"

record setup_options =
  so_destinationPayment :: "jsstring option"
  so_destinationConnection :: "jsstring option"
  so_destinationAccount :: "jsstring option"
  so_sharedSecret :: "secret_arg option"
  so_destinationAddress :: "jsstring option"
  so_destinationAsset :: "(jsstring \<times> jsnum) option"

definition asset_option :: "(jsstring \<times> jsnum) option \<Rightarrow> asset_details option option" where
  "asset_option asset =
     (case asset of
        None \<Rightarrow> Some None
      | Some (code, scale) \<Rightarrow>
          if isValidAssetDetails asset
          then Some (Some \<lparr>asset_code = code, asset_scale = (case scale of Num r \<Rightarrow> nat \<lfloor>r\<rfloor> | _ \<Rightarrow> 0)\<rparr>) else None)"

definition given_destination :: "setup_options \<Rightarrow> PaymentError + payment_destination" where
  "given_destination opts =
     (case (isSharedSecretBuffer (so_sharedSecret opts), so_destinationAddress opts, asset_option (so_destinationAsset opts)) of
        (Some secret, Some address, Some asset) \<Rightarrow>
          if isValidIlpAddress address then Inr (plain_destination secret address asset) else Inl InvalidCredentials
      | _ \<Rightarrow> Inl InvalidCredentials)"

definition destinations :: "setup_options \<Rightarrow> jsstring list" where
  "destinations opts =
     List.map_filter (\<lambda>v. v)
       [so_destinationPayment opts, so_destinationConnection opts, so_destinationAccount opts, so_destinationAddress opts]"

definition given :: "jsstring option \<Rightarrow> bool" where
  "given v \<longleftrightarrow> v \<noteq> None \<and> v \<noteq> Some []"

definition fetchPaymentDetails :: "web \<Rightarrow> setup_options \<Rightarrow> http_event list \<Rightarrow> (PaymentError + payment_destination) \<times> http_event list" where
  "fetchPaymentDetails w opts tr =
     (if length (destinations opts) > 1 then (Inl InvalidDestination, tr)
      else if given (so_destinationPayment opts) then queryIncomingPayment w (the (so_destinationPayment opts)) tr
      else if given (so_destinationConnection opts) then queryConnection w (the (so_destinationConnection opts)) tr
      else if given (so_destinationAccount opts) then
        (let (res, tr1) = queryAccount w (the (so_destinationAccount opts)) tr
         in (ebind res (\<lambda>q. if isAccount (web_url w) q then Inl InvalidDestination
                            else case q of ADestination d \<Rightarrow> Inr d | AnAccount a \<Rightarrow> Inl InvalidDestination), tr1))
      else (given_destination opts, tr))"

record resolved =
  rs_destination :: payment_destination
  rs_asset :: asset_details
  rs_counter :: nat

text \<open>\<open>setupPayment\<close>, for the outcome of the asset probe from its initial state.\<close>

definition setupPayment ::
  "web \<Rightarrow> (asset_probe \<Rightarrow> PaymentError + asset_details) \<Rightarrow> setup_options \<Rightarrow> http_event list
   \<Rightarrow> (PaymentError + resolved) \<times> http_event list" where
  "setupPayment w probe opts tr =
     (let (res, tr1) = fetchPaymentDetails w opts tr
      in (ebind res (\<lambda>d.
          ebind (probe (new_asset_probe (pd_destinationAddress d) (pd_destinationAsset d) 0)) (\<lambda>asset.
            Inr \<lparr>rs_destination = d\<lparr>pd_destinationAsset := Some asset\<rparr>, rs_asset = asset, rs_counter = 0\<rparr>)), tr1))"

text \<open>The part of a resolved Incoming Payment that a quote reads.\<close>

definition quote_details :: "incoming \<Rightarrow> incoming_payment" where
  "quote_details ip =
     \<lparr>ip_completed = in_completed ip, ip_expiresAt = in_expiresAt ip,
      ip_incomingAmount = map_option (\<lambda>a. int (am_value a)) (in_incomingAmount ip),
      ip_receivedAmount = int (am_value (in_receivedAmount ip))\<rparr>"

section \<open>Requests\<close>

fun attempts :: "jsstring \<Rightarrow> jsstring \<Rightarrow> nat list \<Rightarrow> http_event list" where
  "attempts url h [] = [Requested url h]"
| "attempts url h (d # ds) = Requested url h # Slept d # attempts url h ds"

lemma fetchJson_attempts:
  "\<exists>k \<le> length ds. fetchJson net url h ds tr = (settled (net (tr @ attempts url h (take k ds))), tr @ attempts url h (take k ds))
     \<and> list_all (\<lambda>i. retryable (net (tr @ attempts url h (take i ds)))) [0..<k]
     \<and> (k = length ds \<or> ds ! k = 0 \<or> \<not> retryable (net (tr @ attempts url h (take k ds))))"
proof (induction ds arbitrary: tr)
  case (Cons d ds)
  show ?case
  proof (cases "retryable (net (tr @ [Requested url h])) \<and> d \<noteq> 0")
    case True
    obtain k where k: "k \<le> length ds"
      "fetchJson net url h ds (tr @ [Requested url h, Slept d])
         = (settled (net ((tr @ [Requested url h, Slept d]) @ attempts url h (take k ds))), (tr @ [Requested url h, Slept d]) @ attempts url h (take k ds))"
      "list_all (\<lambda>i. retryable (net ((tr @ [Requested url h, Slept d]) @ attempts url h (take i ds)))) [0..<k]"
      "k = length ds \<or> ds ! k = 0 \<or> \<not> retryable (net ((tr @ [Requested url h, Slept d]) @ attempts url h (take k ds)))"
      using Cons.IH [of "tr @ [Requested url h, Slept d]"] by blast
    have "[0..<Suc k] = 0 # map Suc [0..<k]" by (simp add: map_Suc_upt upt_conv_Cons del: upt_Suc)
    then have "list_all (\<lambda>i. retryable (net (tr @ attempts url h (take i (d # ds))))) [0..<Suc k]"
      using True k(3) by (simp add: list.pred_map comp_def del: upt_Suc)
    then show ?thesis using True k(1,2,4) by (intro exI [of _ "Suc k"]) (simp add: Let_def del: upt_Suc)
  next
    case False
    then show ?thesis by (intro exI [of _ 0]) (auto simp: Let_def)
  qed
qed (simp add: Let_def)

lemma length_attempts: "length (filter (\<lambda>e. e = Requested url h) (attempts url h ds)) = Suc (length ds)"
  by (induction ds) simp_all

text \<open>
  A query makes at most four requests, all to the same URL, with the delays of the list between them, and is decided by the
  answer to the last: every answer before it was a server error, a rate limit or a failure other than the time-out, and after the
  last one there is no delay left or it is none of these.
\<close>

lemma fetchJson_retries:
  "\<exists>k \<le> 3. fetchJson net url h RETRIES tr
      = (settled (net (tr @ attempts url h (take k RETRIES))), tr @ attempts url h (take k RETRIES))
    \<and> list_all (\<lambda>i. retryable (net (tr @ attempts url h (take i RETRIES)))) [0..<k]
    \<and> (k = 3 \<or> \<not> retryable (net (tr @ attempts url h (take k RETRIES))))"
proof -
  obtain k where k: "k \<le> length RETRIES"
    "fetchJson net url h RETRIES tr = (settled (net (tr @ attempts url h (take k RETRIES))), tr @ attempts url h (take k RETRIES))"
    "list_all (\<lambda>i. retryable (net (tr @ attempts url h (take i RETRIES)))) [0..<k]"
    "k = length RETRIES \<or> RETRIES ! k = 0 \<or> \<not> retryable (net (tr @ attempts url h (take k RETRIES)))"
    using fetchJson_attempts [of RETRIES net url h tr] by blast
  have len: "length RETRIES = 3" by (simp add: RETRIES_def)
  have "0 \<notin> set RETRIES" by (simp add: RETRIES_def)
  then have "k < 3 \<Longrightarrow> RETRIES ! k \<noteq> 0" by (metis len nth_mem)
  then show ?thesis using k len by (intro exI [of _ k]) auto
qed

lemma fetchJson_settles:
  assumes "k \<le> 3" "list_all (\<lambda>i. retryable (net (tr @ attempts url h (take i RETRIES)))) [0..<k]"
    "\<not> retryable (net (tr @ attempts url h (take k RETRIES)))"
  shows "fetchJson net url h RETRIES tr = (settled (net (tr @ attempts url h (take k RETRIES))), tr @ attempts url h (take k RETRIES))"
proof -
  obtain m where m: "m \<le> length RETRIES"
    "fetchJson net url h RETRIES tr = (settled (net (tr @ attempts url h (take m RETRIES))), tr @ attempts url h (take m RETRIES))"
    "list_all (\<lambda>i. retryable (net (tr @ attempts url h (take i RETRIES)))) [0..<m]"
    "m = length RETRIES \<or> RETRIES ! m = 0 \<or> \<not> retryable (net (tr @ attempts url h (take m RETRIES)))"
    using fetchJson_attempts [of RETRIES net url h tr] by blast
  have pos: "m < length RETRIES \<Longrightarrow> RETRIES ! m \<noteq> 0"
    using nth_mem [of m RETRIES] by (auto simp: RETRIES_def)
  have len: "length RETRIES = 3" by (simp add: RETRIES_def)
  have "m = k"
  proof (rule ccontr)
    assume "m \<noteq> k"
    then consider "m < k" | "k < m" by linarith
    then show False
    proof cases
      case 1
      then have "retryable (net (tr @ attempts url h (take m RETRIES)))" using assms(2) by (simp add: list_all_iff)
      then show ?thesis using 1 assms(1) m(4) pos len by auto
    next
      case 2
      then show ?thesis using m(3) assms(3) by (simp add: list_all_iff)
    qed
  qed
  then show ?thesis using m(2) by simp
qed

section \<open>Validated values\<close>

lemma validated_secret: "validateSharedSecretBase64 v = Some b \<Longrightarrow> length b = 32"
  by (cases v rule: validateSharedSecretBase64.cases) (auto simp: Let_def SHARED_SECRET_BYTE_LENGTH_def split: if_splits)

lemma validated_u64: "validateUInt64 v = Some n \<Longrightarrow> n \<le> MAX_U64"
  by (cases v rule: validateUInt64.cases) (auto simp: below_u64_def split: option.splits if_splits)

lemma scale_range: "scale_value v = Some n \<Longrightarrow> n \<le> 255"
  by (cases v rule: scale_value.cases) (auto simp: floor_le_iff nat_le_iff split: if_splits)

lemma address_valid: "valid_address v = Some a \<Longrightarrow> isValidIlpAddress a"
  by (cases v rule: valid_address.cases) (auto split: if_splits)

definition amount_ok :: "amount \<Rightarrow> bool" where
  "amount_ok a \<longleftrightarrow> am_value a \<le> MAX_U64 \<and> am_assetScale a \<le> 255"

lemma validated_amount: "validateOpenPaymentsAmount v = Inr (GoodAmount a) \<Longrightarrow> amount_ok a"
  unfolding validateOpenPaymentsAmount_def amount_ok_def ebind_def
  by (auto simp: validated_u64 scale_range split: if_split_asm option.split_asm sum.split_asm)

lemma checked_amount_Some [simp]: "checked_amount c = Some a \<longleftrightarrow> c = GoodAmount a"
  by (cases c) simp_all

definition asset_ok :: "asset_details option \<Rightarrow> bool" where
  "asset_ok v = (case v of None \<Rightarrow> True | Some a \<Rightarrow> asset_scale a \<le> 255)"

definition incoming_ok :: "url_parser \<Rightarrow> incoming \<Rightarrow> bool" where
  "incoming_ok parse ip \<longleftrightarrow>
     fromUrl parse (in_id ip) \<noteq> None \<and> fromUrl parse (in_accountId ip) \<noteq> None
     \<and> amount_ok (in_receivedAmount ip) \<and> pred_option amount_ok (in_incomingAmount ip)
     \<and> pred_option (\<lambda>t. 0 \<le> t) (in_expiresAt ip)"

lemma expiry_range: "expiry_time dateParse v = Inr (Some t) \<Longrightarrow> pred_option (\<lambda>t. 0 \<le> t) t"
  by (auto simp: expiry_time_def split: option.splits if_splits)

lemma checked_amount_ok: "validateOpenPaymentsAmount v = Inr c \<Longrightarrow> pred_option amount_ok (checked_amount c)"
  by (cases c) (auto simp: validated_amount)

lemma validated_incoming:
  "validateOpenPaymentsIncomingPayment parse dateParse e v = Inr (Some ip) \<Longrightarrow> incoming_ok parse ip"
  unfolding validateOpenPaymentsIncomingPayment_def incoming_ok_def ebind_def
  by (auto split: if_split_asm option.split_asm sum.split_asm simp: validated_amount expiry_range checked_amount_ok)

definition destination_ok :: "url_parser \<Rightarrow> payment_destination \<Rightarrow> bool" where
  "destination_ok parse d \<longleftrightarrow>
     length (pd_sharedSecret d) = 32 \<and> isValidIlpAddress (pd_destinationAddress d) \<and> asset_ok (pd_destinationAsset d)
     \<and> (case pd_paymentDetails d of None \<Rightarrow> True | Some ip \<Rightarrow> incoming_ok parse ip \<and> pd_accountUrl d = Some (in_accountId ip))"

lemma credentials_ok: "credentials a s = Some d \<Longrightarrow> destination_ok parse d \<and> pd_paymentDetails d = None \<and> pd_destinationAsset d = None"
  by (auto simp: credentials_def destination_ok_def plain_destination_def asset_ok_def validated_secret address_valid split: option.splits)

lemma open_payments_credentials_ok:
  "validateOpenPaymentsCredentials w v tr = (Inr (Some d), tr1) \<Longrightarrow> destination_ok parse d \<and> pd_paymentDetails d = None"
  unfolding validateOpenPaymentsCredentials_def Let_def ebind_def
  by (clarsimp split: if_split_asm prod.split_asm option.split_asm sum.split_asm)
    (drule credentials_ok [where parse = parse], drule validated_amount, simp add: destination_ok_def asset_ok_def amount_ok_def)

lemma query_result_Inr [simp]: "query_result r = Inr v \<longleftrightarrow> r = Inr (Some v)"
  by (auto simp: query_result_def split: sum.splits option.splits)

lemma queryIncomingPayment_ok:
  assumes "queryIncomingPayment w url tr = (Inr d, tr1)"
  shows "destination_ok (web_url w) d"
proof -
  from assms obtain v tr2 c ip tr3 where v: "validateOpenPaymentsCredentials w v tr2 = (Inr (Some c), tr3)"
    "validateOpenPaymentsIncomingPayment (web_url w) (web_date w) None v = Inr (Some ip)"
    "d = c\<lparr>pd_paymentDetails := Some ip, pd_accountUrl := Some (in_accountId ip)\<rparr>"
    unfolding queryIncomingPayment_def Let_def
    by (auto simp: ebind_def split: if_split_asm prod.split_asm sum.split_asm option.split_asm)
  then show ?thesis
    using open_payments_credentials_ok [OF v(1), of "web_url w"] validated_incoming [OF v(2)] by (auto simp: destination_ok_def)
qed

lemma queryConnection_ok: "queryConnection w url tr = (Inr d, tr1) \<Longrightarrow> destination_ok (web_url w) d"
  unfolding queryConnection_def Let_def validateConnectionCredentials_def
  by (auto dest!: credentials_ok [where parse = "web_url w"] split: if_split_asm prod.split_asm)

lemma queryAccount_ok:
  assumes "queryAccount w a tr = (Inr (ADestination d), tr1)"
  shows "destination_ok (web_url w) d"
proof -
  from assms obtain v u e where v: "validateSpspCredentials v = Some e"
    "d = e\<lparr>pd_accountUrl := Some (account_toString u), pd_destinationAccount := toPaymentPointer u\<rparr>"
    unfolding queryAccount_def account_answer_def with_account_def Let_def
    by (auto split: if_split_asm prod.split_asm option.split_asm queried.split_asm)
  then show ?thesis
    by (auto simp: validateSpspCredentials_def destination_ok_def dest!: credentials_ok [where parse = "web_url w"] split: if_split_asm)
qed

lemma given_destination_ok: "given_destination opts = Inr d \<Longrightarrow> destination_ok parse d"
  unfolding given_destination_def
  by (auto simp: destination_ok_def plain_destination_def asset_ok_def asset_option_def isValidAssetDetails_def
      floor_le_iff nat_le_iff SHARED_SECRET_BYTE_LENGTH_def elim!: isSharedSecretBuffer.elims isValidAssetScale.elims
      split: option.split_asm if_split_asm)

lemma fetchPaymentDetails_ok: "fetchPaymentDetails w opts tr = (Inr d, tr') \<Longrightarrow> destination_ok (web_url w) d"
  using queryIncomingPayment_ok queryConnection_ok queryAccount_ok given_destination_ok
  unfolding fetchPaymentDetails_def Let_def
  by (auto split: if_split_asm prod.split_asm queried.split_asm)

text \<open>
  C14. Whatever servers answer, resolved details are well-formed: a secret of 32 bytes, a valid ILP address, a scale of one byte, and
  for an Incoming Payment amounts of 64 bits, an expiry that is not negative, and an account URL that is the one of the payment
  and is valid.
\<close>

theorem fetchPaymentDetails_sound:
  assumes "fetchPaymentDetails w opts tr = (Inr d, tr')"
  shows "destination_ok (web_url w) d"
  using assms by (rule fetchPaymentDetails_ok)

text \<open>What a query of an account answers, an account or a destination, is told apart by \<open>isAccount\<close>.\<close>

lemma validated_account: "validateOpenPaymentsAccount parse v = Some a \<Longrightarrow> isAccount parse (AnAccount a)"
  unfolding validateOpenPaymentsAccount_def by (auto simp: scale_range split: if_split_asm option.split_asm)

lemma isAccount_exact:
  assumes "queryAccount w a tr = (Inr q, tr1)"
  shows "isAccount (web_url w) q \<longleftrightarrow> (\<exists>acc. q = AnAccount acc)"
proof (cases q)
  case (AnAccount acc)
  with assms obtain v where "account_answer (web_url w) v = Some (AnAccount acc)"
    unfolding queryAccount_def with_account_def Let_def
    by (auto split: if_split_asm prod.split_asm option.split_asm queried.split_asm)
  then have "isAccount (web_url w) (AnAccount acc)"
    unfolding account_answer_def by (auto simp del: isAccount.simps dest!: validated_account split: option.split_asm)
  with AnAccount show ?thesis by blast
qed simp

section \<open>From setup to quote\<close>

text \<open>The outcomes of the asset probe are the results of runs of its send loop.\<close>

definition probe_runs :: "(asset_probe \<Rightarrow> PaymentError + asset_details) \<Rightarrow> bool" where
  "probe_runs probe \<longleftrightarrow> (\<forall>address known asset. probe (new_asset_probe address known 0) = Inr asset
     \<longrightarrow> (\<exists>l. loop_reach AssetProbe (new_asset_probe address known 0) l \<and> lp_result l = Some (Inr asset)))"

definition asset_of :: "amount \<Rightarrow> asset_details" where
  "asset_of a = \<lparr>asset_code = am_assetCode a, asset_scale = am_assetScale a\<rparr>"

text \<open>A known asset is the result at once, unless the connection has no packet left.\<close>

lemma known_asset_attempt:
  assumes "trySending AssetProbe now s = (st, f, s')" "destinationAsset s = Some asset"
  shows "f = None \<and> s' = s \<and> (st = SDone asset \<or> st = SError MaxSafeEncryptionLimit)"
proof -
  obtain rs r where b: "build_all (controllers AssetProbe) now s (RReady, new_request now) = (rs, r)" by fastforce
  have rs: "rs = RReady \<or> rs = RError MaxSafeEncryptionLimit"
    using asset_probe_build [of now s "new_request now"] b by (auto split: if_splits)
  have n: "nextState AssetProbe = asset_probe_nextState" by (simp add: AssetProbe_def)
  show ?thesis using assms rs b by (auto simp: trySending_def n asset_probe_nextState_def)
qed

lemma known_asset_kept:
  "loop_reach AssetProbe (new_asset_probe address (Some asset) count) l \<Longrightarrow>
     destinationAsset (lp_state l) = Some asset \<and> lp_flight l = []
     \<and> (lp_result l = None \<or> lp_result l = Some (Inr asset) \<or> lp_result l = Some (Inl MaxSafeEncryptionLimit))"
proof (induction rule: loop_reach.induct)
  case start
  show ?case by (simp add: start_loop_def new_asset_probe_def)
next
  case (step l l')
  from step(2) consider now where "lp_result l = None" "l' = loop_attempt AssetProbe now l"
    | i where "i < length (lp_flight l)" unfolding loop_step_iff by blast
  then show ?case
  proof cases
    case (1 now)
    obtain st f s' where t: "trySending AssetProbe now (lp_state l) = (st, f, s')" by (metis prod_cases3)
    show ?thesis using known_asset_attempt [OF t, of asset] t step.IH 1 by (auto simp: loop_attempt_def)
  qed (use step.IH in simp)
qed

text \<open>The destination asset of an Incoming Payment is that of its received amount, and the asset probe keeps it.\<close>

lemma open_payments_asset:
  assumes "validateOpenPaymentsCredentials w v tr = (Inr (Some c), tr1)"
    and "validateOpenPaymentsIncomingPayment parse dateParse e v = Inr (Some ip)"
  shows "pd_destinationAsset c = Some (asset_of (in_receivedAmount ip))"
proof -
  from assms(2) have "validateOpenPaymentsAmount (field_of (js ''receivedAmount'') v) = Inr (GoodAmount (in_receivedAmount ip))"
    unfolding validateOpenPaymentsIncomingPayment_def ebind_def
    by (auto split: if_split_asm option.split_asm sum.split_asm)
  then show ?thesis using assms(1) unfolding validateOpenPaymentsCredentials_def Let_def ebind_def
    by (auto simp: asset_of_def split: if_split_asm prod.split_asm option.split_asm sum.split_asm)
qed

lemma credentials_plain: "credentials a s = Some d \<Longrightarrow> pd_paymentDetails d = None"
  using credentials_ok by blast

lemma fetched_asset:
  assumes "fetchPaymentDetails w opts tr = (Inr d, tr')" "pd_paymentDetails d = Some ip"
  shows "pd_destinationAsset d = Some (asset_of (in_receivedAmount ip))"
proof -
  have payment: ?thesis if q: "queryIncomingPayment w url tr = (Inr d, tr')" for url
  proof -
    from q obtain v tr2 c ip' tr3 where v: "validateOpenPaymentsCredentials w v tr2 = (Inr (Some c), tr3)"
      "validateOpenPaymentsIncomingPayment (web_url w) (web_date w) None v = Inr (Some ip')"
      "d = c\<lparr>pd_paymentDetails := Some ip', pd_accountUrl := Some (in_accountId ip')\<rparr>"
      unfolding queryIncomingPayment_def Let_def
      by (auto simp: ebind_def split: if_split_asm prod.split_asm sum.split_asm option.split_asm)
    then show ?thesis using open_payments_asset [OF v(1,2)] assms(2) by simp
  qed
  have connection: False if "queryConnection w url tr = (Inr d, tr')" for url
    using that assms(2) unfolding queryConnection_def Let_def validateConnectionCredentials_def
    by (auto dest!: credentials_plain split: if_split_asm prod.split_asm)
  have account: False if "queryAccount w url tr = (Inr (ADestination d), tr1)" for url tr1
    using that assms(2) unfolding queryAccount_def account_answer_def with_account_def Let_def validateSpspCredentials_def
    by (auto dest!: credentials_plain split: if_split_asm prod.split_asm option.split_asm queried.split_asm)
  have chosen: False if "given_destination opts = Inr d"
    using that assms(2) unfolding given_destination_def
    by (auto simp: plain_destination_def split: option.split_asm if_split_asm)
  show ?thesis using assms(1) payment connection account chosen unfolding fetchPaymentDetails_def Let_def
    by (auto split: if_split_asm prod.split_asm queried.split_asm)
qed

lemma setup_asset:
  assumes "setupPayment w probe opts tr = (Inr r, tr')" "probe_runs probe"
    and "pd_paymentDetails (rs_destination r) = Some ip"
  shows "rs_asset r = asset_of (in_receivedAmount ip)"
proof -
  from assms(1) obtain d tr1 where d: "fetchPaymentDetails w opts tr = (Inr d, tr1)"
    "rs_destination r = d\<lparr>pd_destinationAsset := Some (rs_asset r)\<rparr>"
    "probe (new_asset_probe (pd_destinationAddress d) (pd_destinationAsset d) 0) = Inr (rs_asset r)"
    unfolding setupPayment_def Let_def by (auto split: prod.split_asm)
  have known: "pd_destinationAsset d = Some (asset_of (in_receivedAmount ip))"
    using fetched_asset [OF d(1)] assms(3) d(2) by simp
  obtain l where l: "loop_reach AssetProbe (new_asset_probe (pd_destinationAddress d) (pd_destinationAsset d) 0) l"
    "lp_result l = Some (Inr (rs_asset r))"
    using assms(2) d(3) unfolding probe_runs_def by blast
  show ?thesis using known_asset_kept [OF l(1) [unfolded known]] l(2) by simp
qed

lemma setup_target:
  assumes resolves: "setupPayment w probe opts tr = (Inr r, tr')"
    and details: "pd_paymentDetails (rs_destination r) = Some ip" "in_incomingAmount ip = Some a"
    and target: "quote_target now \<lparr>destinationPaymentDetails = Some (quote_details ip), amountToSend = s, amountToDeliver = t\<rparr>
      = Inr (type, n)"
  shows "type = FixedDelivery \<and> n + am_value (in_receivedAmount ip) = am_value a \<and> 0 < n \<and> toLong n \<noteq> None
    \<and> \<not> in_completed ip \<and> (in_expiresAt ip = None \<or> in_expiresAt ip = Some 0 \<or> now < the (in_expiresAt ip))"
proof -
  from resolves obtain d tr1 asset where d: "fetchPaymentDetails w opts tr = (Inr d, tr1)"
    "rs_destination r = d\<lparr>pd_destinationAsset := Some asset\<rparr>"
    unfolding setupPayment_def Let_def by (auto split: prod.split_asm)
  have "incoming_ok (web_url w) ip"
    using fetchPaymentDetails_ok [OF d(1)] details(1) d(2) by (simp add: destination_ok_def)
  then have "am_value a \<le> MAX_U64" using details(2) by (simp add: incoming_ok_def amount_ok_def)
  moreover have "type = FixedDelivery \<and> n + am_value (in_receivedAmount ip) = am_value a \<and> 0 < n
    \<and> \<not> in_completed ip \<and> (in_expiresAt ip = None \<or> in_expiresAt ip = Some 0 \<or> now < the (in_expiresAt ip))"
    using target details(2) unfolding quote_target_def incoming_state_def quote_details_def positive_or_def Int_fromBigint_def
    by (auto split: if_split_asm option.split_asm)
  ultimately show ?thesis by (simp add: toLong_def Let_def)
qed

text \<open>
  C15. A quote for a payment that was set up from an Incoming Payment with an amount has the right target, whatever amounts the
  options name. When the amount and what was received are of one asset code and scale (the code does not compare them), then this is
  the destination asset of the resolved payment, and the quote delivers in it exactly what is missing, at least one unit and at most
  64 bits, and only when the payment is not completed and has no expiry, the expiry 0 that the code treats as none, or one in the future.
\<close>

theorem setup_quote_target:
  assumes resolves: "setupPayment w probe opts tr = (Inr r, tr')" and probe: "probe_runs probe"
    and details: "pd_paymentDetails (rs_destination r) = Some ip" "in_incomingAmount ip = Some a"
    and units: "asset_of a = asset_of (in_receivedAmount ip)"
    and target: "quote_target now \<lparr>destinationPaymentDetails = Some (quote_details ip), amountToSend = s, amountToDeliver = t\<rparr>
      = Inr (type, n)"
  shows "type = FixedDelivery \<and> n + am_value (in_receivedAmount ip) = am_value a \<and> rs_asset r = asset_of a \<and> 0 < n \<and> toLong n \<noteq> None
    \<and> \<not> in_completed ip \<and> (in_expiresAt ip = None \<or> in_expiresAt ip = Some 0 \<or> now < the (in_expiresAt ip))"
  using setup_target [OF resolves details target] setup_asset [OF resolves probe details(1)] units by simp

section \<open>An honest server\<close>

text \<open>The document an SPSP server serves for an account.\<close>

definition spsp_answer :: "jsstring \<Rightarrow> buffer \<Rightarrow> json" where
  "spsp_answer address secret =
     JObj [(js ''destination_account'', JStr address), (js ''shared_secret'', JStr (base64_encode secret))]"

definition pay_account :: "jsstring \<Rightarrow> setup_options" where
  "pay_account pp = \<lparr>so_destinationPayment = None, so_destinationConnection = None, so_destinationAccount = Some pp,
     so_sharedSecret = None, so_destinationAddress = None, so_destinationAsset = None\<rparr>"

lemma spsp_answer_valid:
  assumes "length secret = 32" "isValidIlpAddress address"
  shows "account_answer parse (spsp_answer address secret) = Some (ADestination (plain_destination secret address None))"
proof -
  have "js ''destination_account'' \<noteq> js ''shared_secret''" "js ''id'' \<noteq> js ''destination_account''" "js ''id'' \<noteq> js ''shared_secret''"
    by (simp_all add: js_def)
  then show ?thesis using assms
    by (simp add: account_answer_def validateOpenPaymentsAccount_def validateSpspCredentials_def spsp_answer_def field_of_def
        isNonNullObject_def credentials_def base64_roundtrip SHARED_SECRET_BYTE_LENGTH_def)
qed


section \<open>Examples\<close>

definition pointer_network :: network where
  "pointer_network tr =
     (if length tr = 1 then Failed (js ''FetchError'')
      else Responded \<lparr>resp_status = 200, resp_json = Inr (spsp_answer (js ''g.alice'') (replicate 32 7))\<rparr>)"

definition pointer_web :: web where
  "pointer_web = \<lparr>web_fetch = pointer_network, web_url = sample_parser, web_date = (\<lambda>v. Inr None)\<rparr>"


lemma fetchJson_retry_example:
  "fetchJson pointer_network (js ''u'') (js ''h'') RETRIES []
     = (Inr (spsp_answer (js ''g.alice'') (replicate 32 7)), [Requested (js ''u'') (js ''h''), Slept 10, Requested (js ''u'') (js ''h'')])"
proof -
  let ?u = "js ''u''" and ?h = "js ''h''"
  let ?net = "\<lambda>i. pointer_network ([] @ attempts ?u ?h (take i RETRIES))"
  obtain k where k: "k \<le> 3" "fetchJson pointer_network ?u ?h RETRIES [] = (settled (?net k), [] @ attempts ?u ?h (take k RETRIES))"
    "list_all (\<lambda>i. retryable (?net i)) [0..<k]" "k = 3 \<or> \<not> retryable (?net k)"
    using fetchJson_retries [of pointer_network ?u ?h "[]"] by blast
  have "js ''FetchError'' \<noteq> js ''AbortError''" by code_simp
  then have n: "retryable (?net 0)" "\<not> retryable (?net 1)" "settled (?net 1) = Inr (spsp_answer (js ''g.alice'') (replicate 32 7))"
    by (simp_all add: pointer_network_def RETRIES_def)
  have "\<not> 1 < k" using k(3) n(2) by (auto simp: list_all_iff)
  moreover have "k \<noteq> 0" using k(4) n(1) by (cases k) simp_all
  ultimately have "k = 1" by linarith
  then show ?thesis using k(2) n(3) by (simp add: RETRIES_def)
qed

theorem fetchPaymentDetails_sound_witness:
  "destination_ok sample_parser ((plain_destination (replicate 32 7) (js ''g.alice'') None)
     \<lparr>pd_accountUrl := Some (account_toString (AccountUrl sample_url)), pd_destinationAccount := toPaymentPointer (AccountUrl sample_url)\<rparr>)"
proof -
  have "web_url pointer_web = sample_parser" by (simp add: pointer_web_def)
  moreover have "fetchPaymentDetails pointer_web (pay_account (js ''$a.example'')) []
    = (Inr ((plain_destination (replicate 32 7) (js ''g.alice'') None)
         \<lparr>pd_accountUrl := Some (account_toString (AccountUrl sample_url)), pd_destinationAccount := toPaymentPointer (AccountUrl sample_url)\<rparr>),
       [] @ attempts (toEndpointUrl (AccountUrl sample_url)) ACCOUNT_QUERY_ACCEPT_HEADER (take 1 RETRIES))"
    by code_simp
  ultimately show ?thesis using fetchPaymentDetails_sound by metis
qed

text \<open>An Incoming Payment of 100 units of the asset of an argument, with 30 cents of USD received.\<close>

definition amount_json :: "amount \<Rightarrow> json" where
  "amount_json a = JObj [(js ''value'', JNum (Num (of_nat (am_value a)))), (js ''assetScale'', JNum (Num (of_nat (am_assetScale a)))),
     (js ''assetCode'', JStr (am_assetCode a))]"

definition hundred :: "asset_details \<Rightarrow> amount" where
  "hundred asset = \<lparr>am_value = 100, am_assetCode = asset_code asset, am_assetScale = asset_scale asset\<rparr>"

definition thirty_cents :: amount where
  "thirty_cents = \<lparr>am_value = 30, am_assetCode = js ''USD'', am_assetScale = 2\<rparr>"

definition dollars :: asset_details where
  "dollars = \<lparr>asset_code = js ''USD'', asset_scale = 2\<rparr>"

definition euros :: asset_details where
  "euros = \<lparr>asset_code = js ''EUR'', asset_scale = 4\<rparr>"

definition incoming_json :: "asset_details \<Rightarrow> json" where
  "incoming_json asset = JObj
     [(js ''id'', JStr (js ''https://a.example/'')), (js ''accountId'', JStr (js ''https://a.example/'')), (js ''completed'', JBool False),
      (js ''incomingAmount'', amount_json (hundred asset)), (js ''receivedAmount'', amount_json thirty_cents),
      (js ''ilpStreamConnection'', JObj [(js ''ilpAddress'', JStr (js ''g.alice'')),
         (js ''sharedSecret'', JStr (base64_encode (replicate 32 7)))])]"

definition incoming_web :: "asset_details \<Rightarrow> web" where
  "incoming_web asset = \<lparr>web_fetch = (\<lambda>tr. Responded \<lparr>resp_status = 200, resp_json = Inr (incoming_json asset)\<rparr>), web_url = sample_parser,
     web_date = (\<lambda>v. Inr None)\<rparr>"

definition incoming_details :: "asset_details \<Rightarrow> incoming" where
  "incoming_details asset = \<lparr>in_id = js ''https://a.example/'', in_accountId = js ''https://a.example/'', in_completed = False,
     in_expiresAt = None, in_description = None, in_externalRef = None,
     in_incomingAmount = Some (hundred asset), in_receivedAmount = thirty_cents\<rparr>"

definition incoming_destination :: "asset_details \<Rightarrow> payment_destination" where
  "incoming_destination asset = \<lparr>pd_sharedSecret = replicate 32 7, pd_destinationAddress = js ''g.alice'',
     pd_destinationAsset = Some dollars, pd_paymentDetails = Some (incoming_details asset),
     pd_accountUrl = Some (js ''https://a.example/''), pd_destinationAccount = None\<rparr>"

definition pay_incoming :: "jsstring \<Rightarrow> setup_options" where
  "pay_incoming url = \<lparr>so_destinationPayment = Some url, so_destinationConnection = None, so_destinationAccount = None,
     so_sharedSecret = None, so_destinationAddress = None, so_destinationAsset = None\<rparr>"

lemma field_names:
  "js ''value'' \<noteq> js ''assetScale''" "js ''value'' \<noteq> js ''assetCode''" "js ''assetScale'' \<noteq> js ''assetCode''"
  by (simp_all add: js_def)
lemma amount_examples:
  assumes "am_value a \<le> 100" "am_assetScale a \<le> 255"
  shows "validateOpenPaymentsAmount (Some (amount_json a)) = Inr (GoodAmount a)"
  using field_names assms by (simp add: validateOpenPaymentsAmount_def amount_json_def below_u64_def)
lemma incoming_fields:
  "field_of (js ''id'') (incoming_json asset) = Some (JStr (js ''https://a.example/''))"
  "field_of (js ''accountId'') (incoming_json asset) = Some (JStr (js ''https://a.example/''))"
  "field_of (js ''completed'') (incoming_json asset) = Some (JBool False)"
  "field_of (js ''description'') (incoming_json asset) = None"
  "field_of (js ''externalRef'') (incoming_json asset) = None"
  "field_of (js ''expiresAt'') (incoming_json asset) = None"
  "field_of (js ''incomingAmount'') (incoming_json asset) = Some (amount_json (hundred asset))"
  "field_of (js ''receivedAmount'') (incoming_json asset) = Some (amount_json thirty_cents)"
  "field_of (js ''ilpStreamConnection'') (incoming_json asset) = Some (JObj [(js ''ilpAddress'', JStr (js ''g.alice'')),
         (js ''sharedSecret'', JStr (base64_encode (replicate 32 7)))])"
  by (simp_all add: field_of_def incoming_json_def js_def)
lemma incoming_account: "fromUrl sample_parser (js ''https://a.example/'') = Some (AccountUrl sample_url)"
  "createHttpUrl sample_parser (js ''https://a.example/'') = Some sample_url" by code_simp+
lemma incoming_creds: "credentials (Some (JStr (js ''g.alice''))) (Some (JStr (base64_encode (replicate 32 7)))) = Some (plain_destination (replicate 32 7) (js ''g.alice'') None)"
  by code_simp
lemma incoming_conn: "prop_of (js ''ilpAddress'') (Some (JObj [(js ''ilpAddress'', JStr x), (js ''sharedSecret'', y)])) = Inr (Some (JStr x))"
  "prop_of (js ''sharedSecret'') (Some (JObj [(js ''ilpAddress'', JStr x), (js ''sharedSecret'', y)])) = Inr (Some y)"
  by (simp_all add: js_def)
lemma incoming_example:
  assumes "asset_scale asset \<le> 255"
  shows "fetchPaymentDetails (incoming_web asset) (pay_incoming (js ''https://a.example/'')) []
     = (Inr (incoming_destination asset), [Requested (js ''https://a.example/'') OPEN_PAYMENT_QUERY_ACCEPT_HEADER])"
proof -
  have obj: "isNonNullObject (incoming_json asset)" by (simp add: isNonNullObject_def incoming_json_def)
  have tru: "truthy (Some (amount_json a))" for a by (simp add: amount_json_def)
  have amounts: "validateOpenPaymentsAmount (Some (amount_json (hundred asset))) = Inr (GoodAmount (hundred asset))"
    "validateOpenPaymentsAmount (Some (amount_json thirty_cents)) = Inr (GoodAmount thirty_cents)"
    by (rule amount_examples; simp add: hundred_def thirty_cents_def assms)+
  have thirty: "\<lparr>asset_code = am_assetCode thirty_cents, asset_scale = am_assetScale thirty_cents\<rparr> = dollars"
    by (simp add: thirty_cents_def dollars_def)
  have fetched: "fetchJson (web_fetch (incoming_web asset)) url h RETRIES tr = (Inr (incoming_json asset), tr @ [Requested url h])" for url h tr
    by (simp add: RETRIES_def incoming_web_def)
  have creds: "validateOpenPaymentsCredentials (incoming_web asset) (incoming_json asset) tr
    = (Inr (Some ((incoming_destination asset)\<lparr>pd_paymentDetails := None, pd_accountUrl := None\<rparr>)), tr)" for tr
    using obj by (simp add: validateOpenPaymentsCredentials_def tru incoming_fields connection_details_def incoming_conn incoming_creds
        amounts thirty plain_destination_def incoming_destination_def del: prop_of.simps truthy.simps)
  have ip: "validateOpenPaymentsIncomingPayment sample_parser (web_date (incoming_web asset)) None (incoming_json asset) = Inr (Some (incoming_details asset))"
    using obj by (simp add: validateOpenPaymentsIncomingPayment_def incoming_fields amounts incoming_account expiry_time_def
        as_expected_def incoming_details_def)
  have "js ''https://a.example/'' \<noteq> []" by (simp add: js_def)
  then show ?thesis
    using creds ip by (simp add: fetchPaymentDetails_def pay_incoming_def destinations_def given_def List.map_filter_def
        queryIncomingPayment_def fetched incoming_web_def [THEN arg_cong, of web_url, simplified] incoming_account)
      (simp add: incoming_destination_def incoming_details_def)
qed

definition known_asset :: "asset_probe \<Rightarrow> PaymentError + asset_details" where
  "known_asset s = (case destinationAsset s of Some a \<Rightarrow> Inr a | None \<Rightarrow> Inl UnknownDestinationAsset)"

lemma known_asset_runs: "probe_runs known_asset"
  unfolding probe_runs_def
proof (intro allI impI)
  fix address known asset
  assume "known_asset (new_asset_probe address known 0) = Inr asset"
  then have known: "known = Some asset" by (cases known) (simp_all add: known_asset_def new_asset_probe_def)
  have "\<exists>l. run_events AssetProbe [Attempt 1000] (start_loop (new_asset_probe address (Some asset) 0)) = Some l
    \<and> lp_result l = Some (Inr asset)"
    by (simp add: loop_attempt_def trySending_def start_loop_def new_asset_probe_def AssetProbe_def SequenceController_def
        EstablishmentController_def ExpiryController_def AssetDetailsController_def no_methods_def sequence_build_def
        establishment_build_def PACKET_LIMIT_def asset_probe_nextState_def Let_def)
  then show "\<exists>l. loop_reach AssetProbe (new_asset_probe address known 0) l \<and> lp_result l = Some (Inr asset)"
    unfolding known by (elim exE conjE) (intro exI conjI, rule run_events_reach [OF loop_reach.start])
qed

definition incoming_resolved :: "asset_details \<Rightarrow> resolved" where
  "incoming_resolved asset = \<lparr>rs_destination = incoming_destination asset, rs_asset = dollars, rs_counter = 0\<rparr>"

lemma incoming_setup:
  "asset_scale asset \<le> 255 \<Longrightarrow> setupPayment (incoming_web asset) known_asset (pay_incoming (js ''https://a.example/'')) []
     = (Inr (incoming_resolved asset), [Requested (js ''https://a.example/'') OPEN_PAYMENT_QUERY_ACCEPT_HEADER])"
  by (simp add: setupPayment_def incoming_example known_asset_def incoming_resolved_def incoming_destination_def new_asset_probe_def)

lemma incoming_resolved_details:
  "pd_paymentDetails (rs_destination (incoming_resolved asset)) = Some (incoming_details asset)"
  "in_incomingAmount (incoming_details asset) = Some (hundred asset)" "in_receivedAmount (incoming_details asset) = thirty_cents"
  "rs_asset (incoming_resolved asset) = dollars"
  by (simp_all add: incoming_resolved_def incoming_destination_def incoming_details_def)

definition incoming_quote :: "asset_details \<Rightarrow> quote_options" where
  "incoming_quote asset = \<lparr>destinationPaymentDetails = Some (quote_details (incoming_details asset)), amountToSend = None, amountToDeliver = None\<rparr>"

lemma incoming_target: "quote_target 0 (incoming_quote asset) = Inr (FixedDelivery, 70)"
  by (simp add: quote_target_def incoming_quote_def incoming_state_def quote_details_def incoming_details_def positive_or_def Int_fromBigint_def
      hundred_def thirty_cents_def)

lemma dollars_of: "asset_scale dollars \<le> 255" "asset_of (hundred dollars) = asset_of thirty_cents"
  by (simp_all add: dollars_def asset_of_def hundred_def thirty_cents_def)

theorem setup_quote_target_witness:
  "quote_target 0 (incoming_quote dollars) = Inr (FixedDelivery, 70) \<and> 70 + am_value thirty_cents = am_value (hundred dollars)
     \<and> rs_asset (incoming_resolved dollars) = asset_of (hundred dollars)"
  using setup_quote_target [OF incoming_setup [OF dollars_of(1)] known_asset_runs incoming_resolved_details(1,2)
      dollars_of(2) [folded incoming_resolved_details(3) [of dollars]] incoming_target [unfolded incoming_quote_def]]
    incoming_target [of dollars] by (simp add: incoming_resolved_details)

text \<open>
  The two amounts of an Incoming Payment may be of different assets and scales: the validation accepts them, and the quote subtracts
  one value from the other.
\<close>

lemma incoming_units_mixed:
  "setupPayment (incoming_web euros) known_asset (pay_incoming (js ''https://a.example/'')) []
     = (Inr (incoming_resolved euros), [Requested (js ''https://a.example/'') OPEN_PAYMENT_QUERY_ACCEPT_HEADER])
   \<and> pd_paymentDetails (rs_destination (incoming_resolved euros)) = Some (incoming_details euros)
   \<and> map_option asset_of (in_incomingAmount (incoming_details euros)) = Some euros
   \<and> asset_of (in_receivedAmount (incoming_details euros)) = dollars
   \<and> quote_target 0 (incoming_quote euros) = Inr (FixedDelivery, 70)"
  using incoming_setup [of euros] incoming_target
  by (simp add: incoming_resolved_details) (simp add: euros_def dollars_def asset_of_def hundred_def thirty_cents_def)

text \<open>A secret of the documented type that is not a \<open>Buffer\<close> is refused.\<close>

lemma uint8array_secret_refused:
  "so_sharedSecret opts = Some (AUint8Array b) \<Longrightarrow> given_destination opts = Inl InvalidCredentials"
  by (simp add: given_destination_def)

end
