(* ===== verification/Crypto_Browser.thy ===== *)
theory Crypto_Browser
  imports Stream_Crypto
begin

text \<open>
  \<^verbatim>\<open>ilp-protocol-stream/src/util/crypto-browser.ts\<close>, which takes the place of \<^verbatim>\<open>crypto-node.ts\<close> in the browser.

  WebCrypto is an argument, the record \<open>webcrypto\<close> over its type of imported keys. The caches are keyed by the identity of a
  \<open>Buffer\<close>, so key buffers are references here and \<open>contents\<close> gives their bytes, which the program never changes.
\<close>

section \<open>WebCrypto\<close>

datatype key_algorithm = AES_GCM | HMAC_SHA256

text \<open>
  \<open>wc_encrypt\<close> returns the ciphertext with the tag after it and \<open>wc_decrypt\<close> takes it so; \<open>None\<close> is a rejected promise.
\<close>

record 'k webcrypto =
  wc_importKey :: "key_algorithm \<Rightarrow> buffer \<Rightarrow> 'k option"
  wc_encrypt :: "'k \<Rightarrow> buffer \<Rightarrow> buffer \<Rightarrow> buffer"
  wc_decrypt :: "'k \<Rightarrow> buffer \<Rightarrow> buffer \<Rightarrow> buffer option"
  wc_sign :: "'k \<Rightarrow> buffer \<Rightarrow> buffer"
  wc_digest :: "buffer \<Rightarrow> buffer"

definition AUTH_TAG_BYTES :: nat where "AUTH_TAG_BYTES = 16"
definition CACHE_EXPIRY :: int where "CACHE_EXPIRY = 30000"

section \<open>The key cache\<close>

type_synonym 'k key_cache = "nat \<Rightarrow> ('k \<times> int) option"

definition cleanup :: "int \<Rightarrow> 'k key_cache \<Rightarrow> 'k key_cache" where
  "cleanup now cache =
     (\<lambda>r. case cache r of
            None \<Rightarrow> None
          | Some (keyObject, accessTime) \<Rightarrow> if now - accessTime > CACHE_EXPIRY then None else Some (keyObject, accessTime))"

definition importKey ::
  "'k webcrypto \<Rightarrow> key_algorithm \<Rightarrow> (nat \<Rightarrow> buffer) \<Rightarrow> int \<Rightarrow> nat \<Rightarrow> 'k key_cache \<Rightarrow> 'k result \<times> 'k key_cache" where
  "importKey wc alg contents now keyData cache =
     (case cache keyData of
        Some (keyObject, accessTime) \<Rightarrow> (Inr keyObject, cache(keyData \<mapsto> (keyObject, now)))
      | None \<Rightarrow>
          (case wc_importKey wc alg (contents keyData) of
             None \<Rightarrow> (Inl (Error ''importKey''), cache)
           | Some keyObject \<Rightarrow> (Inr keyObject, cache(keyData \<mapsto> (keyObject, now)))))"

section \<open>Operations\<close>

record 'k browser =
  hmacKeyCache :: "'k key_cache"
  aesKeyCache :: "'k key_cache"

definition new_browser :: "'k browser" where
  "new_browser = \<lparr>hmacKeyCache = Map.empty, aesKeyCache = Map.empty\<rparr>"

definition browser_cleanup :: "int \<Rightarrow> 'k browser \<Rightarrow> 'k browser" where
  "browser_cleanup now b = b\<lparr>hmacKeyCache := cleanup now (hmacKeyCache b), aesKeyCache := cleanup now (aesKeyCache b)\<rparr>"

definition browser_hash :: "'k webcrypto \<Rightarrow> buffer \<Rightarrow> buffer" where
  "browser_hash wc preimage = wc_digest wc preimage"

text \<open>
  \<open>ciphertext.slice(tagStart)\<close> and \<open>ciphertext.slice(0, tagStart)\<close> for \<open>tagStart = byteLength - AUTH_TAG_BYTES\<close>: a negative
  position counts from the end.
\<close>

definition tag_start :: "buffer \<Rightarrow> nat" where
  "tag_start ciphertext =
     (if length ciphertext \<ge> AUTH_TAG_BYTES then length ciphertext - AUTH_TAG_BYTES
      else 2 * length ciphertext - AUTH_TAG_BYTES)"

definition browser_encrypt ::
  "'k webcrypto \<Rightarrow> (nat \<Rightarrow> buffer) \<Rightarrow> int \<Rightarrow> buffer \<Rightarrow> nat \<Rightarrow> buffer list \<Rightarrow> 'k browser \<Rightarrow> buffer result \<times> 'k browser" where
  "browser_encrypt wc contents now iv pskEncryptionKey buffers b =
     (let (key, cache) = importKey wc AES_GCM contents now pskEncryptionKey (aesKeyCache b)
      in (ebind key (\<lambda>k.
            let ciphertext = wc_encrypt wc k iv (concat buffers);
                tag = drop (tag_start ciphertext) ciphertext;
                data = take (tag_start ciphertext) ciphertext
            in Inr (concat [iv, tag, data])), b\<lparr>aesKeyCache := cache\<rparr>))"

definition browser_decrypt ::
  "'k webcrypto \<Rightarrow> (nat \<Rightarrow> buffer) \<Rightarrow> int \<Rightarrow> nat \<Rightarrow> buffer \<Rightarrow> 'k browser \<Rightarrow> buffer result \<times> 'k browser" where
  "browser_decrypt wc contents now pskEncryptionKey data b =
     (let nonce = take IV_LENGTH data;
          tag = slice IV_LENGTH AUTH_TAG_BYTES data;
          cipherdata = drop (IV_LENGTH + AUTH_TAG_BYTES) data;
          (key, cache) = importKey wc AES_GCM contents now pskEncryptionKey (aesKeyCache b)
      in (ebind key (\<lambda>k.
            case wc_decrypt wc k nonce (concat [cipherdata, tag]) of
              None \<Rightarrow> Inl (Error ''OperationError'')
            | Some m \<Rightarrow> Inr m), b\<lparr>aesKeyCache := cache\<rparr>))"

definition browser_hmac ::
  "'k webcrypto \<Rightarrow> (nat \<Rightarrow> buffer) \<Rightarrow> int \<Rightarrow> nat \<Rightarrow> buffer \<Rightarrow> 'k browser \<Rightarrow> buffer result \<times> 'k browser" where
  "browser_hmac wc contents now key message b =
     (let (hmacKey, cache) = importKey wc HMAC_SHA256 contents now key (hmacKeyCache b)
      in (ebind hmacKey (\<lambda>k. Inr (wc_sign wc k message)), b\<lparr>hmacKeyCache := cache\<rparr>))"

definition unreachable_in_browser :: "buffer \<Rightarrow> buffer \<Rightarrow> buffer result" where
  "unreachable_in_browser seed token = Inl (Error ''unreachable in browser'')"

section \<open>Sequences of calls\<close>

text \<open>What the package calls, with the time of each call; the interval runs the clean-up.\<close>

datatype crypto_call =
    Hash buffer
  | Encrypt int buffer nat "buffer list"
  | Decrypt int nat buffer
  | Hmac int nat buffer
  | Interval int

fun browser_call :: "'k webcrypto \<Rightarrow> (nat \<Rightarrow> buffer) \<Rightarrow> crypto_call \<Rightarrow> 'k browser \<Rightarrow> buffer result option \<times> 'k browser" where
  "browser_call wc contents (Hash m) b = (Some (Inr (browser_hash wc m)), b)"
| "browser_call wc contents (Encrypt now iv key bs) b = map_prod Some id (browser_encrypt wc contents now iv key bs b)"
| "browser_call wc contents (Decrypt now key data) b = map_prod Some id (browser_decrypt wc contents now key data b)"
| "browser_call wc contents (Hmac now key m) b = map_prod Some id (browser_hmac wc contents now key m b)"
| "browser_call wc contents (Interval now) b = (None, browser_cleanup now b)"

fun node_call :: "crypto_lib \<Rightarrow> (nat \<Rightarrow> buffer) \<Rightarrow> crypto_call \<Rightarrow> buffer result option" where
  "node_call lib contents (Hash m) = Some (Inr (lib_sha256 lib m))"
| "node_call lib contents (Encrypt now iv key bs) = Some (Inr (encrypt lib iv (contents key) bs))"
| "node_call lib contents (Decrypt now key data) = Some (decrypt lib (contents key) data)"
| "node_call lib contents (Hmac now key m) = Some (Inr (lib_hmac lib (contents key) m))"
| "node_call lib contents (Interval now) = None"

fun browser_run :: "'k webcrypto \<Rightarrow> (nat \<Rightarrow> buffer) \<Rightarrow> crypto_call list \<Rightarrow> 'k browser \<Rightarrow> buffer result option list" where
  "browser_run wc contents [] b = []"
| "browser_run wc contents (c # cs) b =
     (let (r, b') = browser_call wc contents c b in r # browser_run wc contents cs b')"

section \<open>Agreement with Node\<close>

text \<open>The two libraries implement the same algorithms, and keys of 32 bytes can be imported.\<close>

definition same_primitives :: "crypto_lib \<Rightarrow> 'k webcrypto \<Rightarrow> bool" where
  "same_primitives lib wc \<longleftrightarrow>
     (\<forall>m. wc_digest wc m = lib_sha256 lib m) \<and>
     (\<forall>alg key. length key = 32 \<longrightarrow> wc_importKey wc alg key \<noteq> None) \<and>
     (\<forall>key k m. wc_importKey wc HMAC_SHA256 key = Some k \<longrightarrow> wc_sign wc k m = lib_hmac lib key m) \<and>
     (\<forall>key k iv m. wc_importKey wc AES_GCM key = Some k \<longrightarrow>
        wc_encrypt wc k iv m = fst (lib_gcm_encrypt lib key iv m) @ snd (lib_gcm_encrypt lib key iv m)) \<and>
     (\<forall>key k iv c tag. wc_importKey wc AES_GCM key = Some k \<longrightarrow> length tag = 16 \<longrightarrow>
        wc_decrypt wc k iv (c @ tag) = lib_gcm_decrypt lib key iv tag c)"

fun call_ok :: "(nat \<Rightarrow> buffer) \<Rightarrow> crypto_call \<Rightarrow> bool" where
  "call_ok contents (Hash m) = True"
| "call_ok contents (Encrypt now iv key bs) = (length (contents key) = 32 \<and> length iv = 12)"
| "call_ok contents (Decrypt now key data) = (length (contents key) = 32 \<and> 28 \<le> length data)"
| "call_ok contents (Hmac now key m) = (length (contents key) = 32)"
| "call_ok contents (Interval now) = True"

text \<open>The value of a call that succeeds.\<close>

fun value_of :: "buffer result option \<Rightarrow> buffer option option" where
  "value_of None = None"
| "value_of (Some (Inl e)) = Some None"
| "value_of (Some (Inr v)) = Some (Some v)"

definition cache_ok :: "'k webcrypto \<Rightarrow> key_algorithm \<Rightarrow> (nat \<Rightarrow> buffer) \<Rightarrow> 'k key_cache \<Rightarrow> bool" where
  "cache_ok wc alg contents cache \<longleftrightarrow> (\<forall>r k t. cache r = Some (k, t) \<longrightarrow> wc_importKey wc alg (contents r) = Some k)"

lemma cache_ok_cleanup: "cache_ok wc alg contents cache \<Longrightarrow> cache_ok wc alg contents (cleanup now cache)"
  by (auto simp: cache_ok_def cleanup_def split: option.splits if_splits)

lemma importKey_exact:
  assumes "cache_ok wc alg contents cache" "wc_importKey wc alg (contents r) = Some k"
  shows "importKey wc alg contents now r cache = (Inr k, cache(r \<mapsto> (k, now)))" "cache_ok wc alg contents (cache(r \<mapsto> (k, now)))"
  using assms by (auto simp: importKey_def cache_ok_def split: option.splits)

definition browser_ok :: "'k webcrypto \<Rightarrow> (nat \<Rightarrow> buffer) \<Rightarrow> 'k browser \<Rightarrow> bool" where
  "browser_ok wc contents b \<longleftrightarrow>
     cache_ok wc HMAC_SHA256 contents (hmacKeyCache b) \<and> cache_ok wc AES_GCM contents (aesKeyCache b)"

lemma new_browser_ok: "browser_ok wc contents new_browser"
  by (simp add: browser_ok_def new_browser_def cache_ok_def)

lemma importable:
  assumes "same_primitives lib wc" "length key = 32"
  obtains k where "wc_importKey wc alg key = Some k"
  using assms unfolding same_primitives_def by blast

lemma encrypt_agrees:
  assumes "same_primitives lib wc" "aead lib" "browser_ok wc contents b" "length (contents key) = 32" "length iv = 12"
  shows "\<exists>b'. browser_encrypt wc contents now iv key bs b = (Inr (encrypt lib iv (contents key) bs), b') \<and> browser_ok wc contents b'"
proof -
  obtain k where k: "wc_importKey wc AES_GCM (contents key) = Some k" using importable [OF assms(1,4)] .
  have cache: "cache_ok wc AES_GCM contents (aesKeyCache b)" using assms(3) by (simp add: browser_ok_def)
  obtain c tag where ct: "lib_gcm_encrypt lib (contents key) iv (concat bs) = (c, tag)" by fastforce
  have "case lib_gcm_encrypt lib (contents key) iv (concat bs) of (c, tag) \<Rightarrow> length tag = 16
      \<and> length c = length (concat bs) \<and> lib_gcm_decrypt lib (contents key) iv tag c = Some (concat bs)"
    using assms(2) [unfolded aead_def, rule_format, OF assms(5)] .
  then have tag: "length tag = 16" using ct by simp
  have ciphertext: "wc_encrypt wc k iv (concat bs) = c @ tag"
    using assms(1) k ct unfolding same_primitives_def by fastforce
  show ?thesis using importKey_exact [OF cache k, of now] assms(3) tag
    by (simp add: browser_encrypt_def ciphertext tag_start_def AUTH_TAG_BYTES_def encrypt_def ct browser_ok_def)
qed

lemma decrypt_agrees:
  assumes "same_primitives lib wc" "browser_ok wc contents b" "length (contents key) = 32" "28 \<le> length data"
  shows "\<exists>r b'. browser_decrypt wc contents now key data b = (r, b') \<and> browser_ok wc contents b'
    \<and> value_of (Some r) = value_of (Some (decrypt lib (contents key) data))"
proof -
  obtain k where k: "wc_importKey wc AES_GCM (contents key) = Some k" using importable [OF assms(1,3)] .
  have cache: "cache_ok wc AES_GCM contents (aesKeyCache b)" using assms(2) by (simp add: browser_ok_def)
  let ?tag = "slice IV_LENGTH AUTH_TAG_BYTES data"
  have "length ?tag = 16" using assms(4) by (simp add: slice_def IV_LENGTH_def AUTH_TAG_BYTES_def)
  then have "wc_decrypt wc k (take IV_LENGTH data) (drop (IV_LENGTH + AUTH_TAG_BYTES) data @ ?tag)
      = lib_gcm_decrypt lib (contents key) (take IV_LENGTH data) ?tag (drop (IV_LENGTH + AUTH_TAG_BYTES) data)"
    using assms(1) k unfolding same_primitives_def by blast
  moreover have "AUTH_TAG_LENGTH = AUTH_TAG_BYTES" "data \<noteq> []"
    using assms(4) by (auto simp: AUTH_TAG_LENGTH_def AUTH_TAG_BYTES_def)
  ultimately show ?thesis using importKey_exact [OF cache k, of now] assms(2)
    by (simp add: browser_decrypt_def decrypt_def browser_ok_def split: option.split)
qed

lemma hmac_agrees:
  assumes "same_primitives lib wc" "browser_ok wc contents b" "length (contents key) = 32"
  shows "\<exists>b'. browser_hmac wc contents now key m b = (Inr (lib_hmac lib (contents key) m), b') \<and> browser_ok wc contents b'"
proof -
  obtain k where k: "wc_importKey wc HMAC_SHA256 (contents key) = Some k" using importable [OF assms(1,3)] .
  have cache: "cache_ok wc HMAC_SHA256 contents (hmacKeyCache b)" using assms(2) by (simp add: browser_ok_def)
  have "wc_sign wc k m = lib_hmac lib (contents key) m" using assms(1) k unfolding same_primitives_def by blast
  then show ?thesis using importKey_exact [OF cache k, of now] assms(2) by (simp add: browser_hmac_def browser_ok_def)
qed

lemma call_agrees:
  assumes "same_primitives lib wc" "aead lib" "browser_ok wc contents b" "call_ok contents c"
  shows "\<exists>r b'. browser_call wc contents c b = (r, b') \<and> browser_ok wc contents b' \<and> value_of r = value_of (node_call lib contents c)"
proof (cases c)
  case (Hash m)
  have "wc_digest wc m = lib_sha256 lib m" using assms(1) unfolding same_primitives_def by blast
  with Hash assms(3) show ?thesis by (simp add: browser_hash_def)
next
  case (Encrypt now iv key bs)
  with encrypt_agrees [OF assms(1-3), of key iv now bs] assms(4) show ?thesis by auto
next
  case (Decrypt now key data)
  with decrypt_agrees [OF assms(1,3), of key data now] assms(4) show ?thesis by auto
next
  case (Hmac now key m)
  with hmac_agrees [OF assms(1,3), of key now m] assms(4) show ?thesis by auto
next
  case (Interval now)
  with assms(3) show ?thesis by (simp add: browser_ok_def browser_cleanup_def cache_ok_cleanup)
qed

lemma run_agrees:
  assumes "same_primitives lib wc" "aead lib"
  shows "browser_ok wc contents b \<Longrightarrow> list_all (call_ok contents) cs \<Longrightarrow>
    map value_of (browser_run wc contents cs b) = map (value_of \<circ> node_call lib contents) cs"
proof (induction cs arbitrary: b)
  case (Cons c cs)
  obtain r b' where "browser_call wc contents c b = (r, b')" "browser_ok wc contents b'" "value_of r = value_of (node_call lib contents c)"
    using call_agrees [OF assms Cons.prems(1), of c] Cons.prems(2) by auto
  then show ?case using Cons.IH [of b'] Cons.prems(2) by simp
qed simp

text \<open>
  C20. The browser build computes what the Node build does for keys of 32 bytes (an HMAC or a secret of that size), IVs of 12 bytes
  (as \<open>encrypt\<close> draws them) and at least 28 bytes, an IV and a tag, to decrypt: over any sequence of hashes of any bytes and such
  encryptions, decryptions and HMACs, with the keys imported, cached by buffer identity, and dropped by the clean-up at any times in
  between, each call returns the bytes that Node's returns or fails when Node's fails, when the two libraries implement the same
  algorithms and import such keys. What a platform does with a shorter key, IV or tag is its own affair and not compared.
\<close>

theorem browser_equals_node:
  assumes "same_primitives lib wc" "aead lib" "list_all (call_ok contents) cs"
  shows "map value_of (browser_run wc contents cs new_browser) = map (value_of \<circ> node_call lib contents) cs"
  using run_agrees [OF assms(1,2) new_browser_ok assms(3)] .

section \<open>Example\<close>

definition null_web :: "buffer webcrypto" where
  "null_web = \<lparr>wc_importKey = (\<lambda>alg key. Some key), wc_encrypt = (\<lambda>k iv m. m @ replicate 16 0),
     wc_decrypt = (\<lambda>k iv d. Some (take (length d - 16) d)), wc_sign = (\<lambda>k m. replicate 32 0), wc_digest = (\<lambda>m. replicate 32 0)\<rparr>"

lemma null_web_same: "same_primitives null_lib null_web"
  by (simp add: same_primitives_def null_lib_def null_web_def)

theorem browser_equals_node_witness:
  "map value_of (browser_run null_web (\<lambda>r. replicate 32 5)
       [Encrypt 0 (replicate 12 1) 0 [[1, 2], [3]], Interval 40000, Decrypt 40001 0 (replicate 28 9 @ [4]), Hmac 40002 1 [5]] new_browser)
     = map (value_of \<circ> node_call null_lib (\<lambda>r. replicate 32 5))
         [Encrypt 0 (replicate 12 1) 0 [[1, 2], [3]], Interval 40000, Decrypt 40001 0 (replicate 28 9 @ [4]), Hmac 40002 1 [5]]"
  by (rule browser_equals_node [OF null_web_same null_lib_ok(1)]) simp

end
