(* ===== verification/Js_Float.thy ===== *)
theory Js_Float
  imports Oer_Util
begin

text \<open>
  Floating-point operations of JavaScript numbers. The result of an operation is the exact result, rounded: the rounding is an
  argument, \<open>fl r\<close> for the number nearest to \<open>r\<close> (\<open>Infinity\<close> on overflow). \<open>ieee\<close> states what is used of rounding; \<open>Num\<close> is exact
  arithmetic. The sign of zero is not kept.
\<close>

section \<open>Arithmetic\<close>

type_synonym rounding = "rat \<Rightarrow> jsnum"

fun js_sign :: "jsnum \<Rightarrow> rat" where
  "js_sign (Num a) = sgn a"
| "js_sign Infinity = 1"
| "js_sign NegInfinity = -1"
| "js_sign NaN = 0"

definition signed_infinity :: "rat \<Rightarrow> jsnum" where
  "signed_infinity s = (if s > 0 then Infinity else if s < 0 then NegInfinity else NaN)"

definition js_times :: "rounding \<Rightarrow> jsnum \<Rightarrow> jsnum \<Rightarrow> jsnum" where
  "js_times fl x y =
     (case (x, y) of (Num a, Num b) \<Rightarrow> fl (a * b) | _ \<Rightarrow> signed_infinity (js_sign x * js_sign y))"

text \<open>Both operands of the division are finite and the divisor is not zero where the code divides.\<close>

definition js_divide :: "rounding \<Rightarrow> jsnum \<Rightarrow> jsnum \<Rightarrow> jsnum" where
  "js_divide fl x y = (case (x, y) of (Num a, Num b) \<Rightarrow> if b = 0 then signed_infinity (sgn a) else fl (a / b) | _ \<Rightarrow> NaN)"

definition one_minus :: "rounding \<Rightarrow> jsnum \<Rightarrow> jsnum" where
  "one_minus fl x = (case x of Num a \<Rightarrow> fl (1 - a) | _ \<Rightarrow> signed_infinity (- js_sign x))"

fun js_isInteger :: "jsnum \<Rightarrow> bool" where
  "js_isInteger (Num r) = (of_int \<lfloor>r\<rfloor> = r)"
| "js_isInteger _ = False"

text \<open>Numbers from 0 are rounded to such numbers, integers to integers and numbers from 1 to such numbers.\<close>

definition ieee :: "rounding \<Rightarrow> bool" where
  "ieee fl \<longleftrightarrow> (\<forall>r. 0 \<le> r \<longrightarrow> fl r = Infinity \<or>
     (\<exists>x. fl r = Num x \<and> 0 \<le> x \<and> (1 \<le> r \<longrightarrow> 1 \<le> x) \<and> (js_isInteger (Num r) \<longrightarrow> js_isInteger (Num x))))"

lemma ieee_exact: "ieee Num"
  by (simp add: ieee_def)

lemma integer_ten: "js_isInteger (Num x) \<Longrightarrow> js_isInteger (Num (x * 10))"
  by (metis floor_of_int js_isInteger.simps(1) of_int_mult of_int_numeral)

end
