(* ===== verification/Pay_Rate.thy ===== *)
theory Pay_Rate
  imports Pay_Quote Js_Float
begin

text \<open>
  The minimum rate of a quote, from the prices to the fraction: \<open>Ratio.from\<close> of \<^verbatim>\<open>pay/src/utils.ts\<close> and the floating-point part of
  \<open>startQuote\<close> in \<^verbatim>\<open>pay/src/index.ts\<close>.

  Numbers are those of \<open>Js_Float\<close>; the power of ten is an argument. The loop of \<open>Ratio.from\<close> may run forever, which is \<open>None\<close>.
\<close>

section \<open>Ratios of numbers\<close>

partial_function (option) scale_loop :: "rounding \<Rightarrow> jsnum \<Rightarrow> jsnum \<Rightarrow> jsnum option" where
  "scale_loop fl n e =
     (if js_isInteger (js_times fl n e) then Some e else scale_loop fl n (js_times fl e (Num 10)))"

declare scale_loop.simps [code]

text \<open>The outer \<open>None\<close> is a loop without end, the inner one \<open>undefined\<close>.\<close>

definition Ratio_from :: "rounding \<Rightarrow> jsnum \<Rightarrow> ratio option option" where
  "Ratio_from fl n =
     (if \<not> isNonNegativeRational n then Some None
      else case scale_loop fl n (Num 1) of
             None \<Rightarrow> None
           | Some e \<Rightarrow>
               Some (case (Int_from (NumberAmount (js_times fl n e)), Int_from (NumberAmount e)) of
                       (Some a, Some b) \<Rightarrow> Some (ratio_of a b)
                     | _ \<Rightarrow> None))"

section \<open>The external rate\<close>

definition external_rate ::
  "rounding \<Rightarrow> (int \<Rightarrow> jsnum) \<Rightarrow> jsnum \<Rightarrow> (jsstring \<times> jsnum) option \<Rightarrow> asset_details \<Rightarrow> (jsstring \<Rightarrow> jsnum option) \<Rightarrow> jsnum" where
  "external_rate fl ten slippage sourceAsset dest prices =
     (if slippage = Num 1 then Num 0
      else case sourceAsset of
             Some (code, Num scale) \<Rightarrow>
               (let rate = (if code = asset_code dest then Num 1
                            else js_divide fl (the (prices code)) (the (prices (asset_code dest))))
                in js_times fl (js_times fl rate (one_minus fl slippage)) (ten (int (asset_scale dest) - \<lfloor>scale\<rfloor>)))
           | _ \<Rightarrow> NaN)"

text \<open>
  \<open>startQuote\<close> from the prices on. An undefined rate is found out by the comparison after the rate probe, where it throws a
  \<open>TypeError\<close>.
\<close>

definition quote_from_prices ::
  "rounding \<Rightarrow> (int \<Rightarrow> jsnum) \<Rightarrow> time \<Rightarrow> quote_options \<Rightarrow> jsnum option \<Rightarrow> (jsstring \<times> jsnum) option \<Rightarrow> asset_details
   \<Rightarrow> (jsstring \<Rightarrow> jsnum option) \<Rightarrow> PaymentError + ProbeResult \<Rightarrow> (PaymentError + quote) result option" where
  "quote_from_prices fl ten now opts slippageOption sourceAsset dest prices probe =
     (let slippage = (case slippageOption of None \<Rightarrow> fl (1 / 100) | Some s \<Rightarrow> s)
      in case quote_target now opts of
           Inl e \<Rightarrow> Some (Inr (Inl e))
         | Inr target \<Rightarrow>
             (case check_prices slippage sourceAsset (asset_code dest) prices of
                Some e \<Rightarrow> Some (Inr (Inl e))
              | None \<Rightarrow>
                  (case Ratio_from fl (external_rate fl ten slippage sourceAsset dest prices) of
                     None \<Rightarrow> None
                   | Some minRate \<Rightarrow>
                       (case (probe, minRate) of
                          (Inl e, _) \<Rightarrow> Some (Inr (Inl e))
                        | (Inr pr, None) \<Rightarrow> Some (Inl (TypeError ''Cannot read properties of undefined''))
                        | (Inr pr, Some r) \<Rightarrow> Some (Inr (finish_quote target r pr))))))"

section \<open>The loop\<close>

fun tower :: "rounding \<Rightarrow> jsnum \<Rightarrow> nat \<Rightarrow> jsnum" where
  "tower fl e 0 = e"
| "tower fl e (Suc k) = tower fl (js_times fl e (Num 10)) k"

lemma scale_loop_result:
  assumes "scale_loop fl n e = Some e'"
  shows "\<exists>k. e' = tower fl e k \<and> js_isInteger (js_times fl n e')"
proof (rule scale_loop.raw_induct [OF _ assms])
  fix loop fl n e e'
  assume IH: "\<And>fl n e e'. loop fl n e = Some e' \<Longrightarrow> \<exists>k. e' = tower fl e k \<and> js_isInteger (js_times fl n e')"
    and step: "(if js_isInteger (js_times fl n e) then Some e else loop fl n (js_times fl e (Num 10))) = Some e'"
  show "\<exists>k. e' = tower fl e k \<and> js_isInteger (js_times fl n e')"
  proof (cases "js_isInteger (js_times fl n e)")
    case True
    with step show ?thesis by (intro exI [of _ 0]) simp
  next
    case False
    with step have "loop fl n (js_times fl e (Num 10)) = Some e'" by simp
    from IH [OF this] obtain k where "e' = tower fl (js_times fl e (Num 10)) k \<and> js_isInteger (js_times fl n e')" by blast
    then show ?thesis by (intro exI [of _ "Suc k"]) auto
  qed
qed

lemma scale_loop_ends:
  "js_isInteger (js_times fl n (tower fl e k)) \<Longrightarrow> \<exists>j \<le> k. scale_loop fl n e = Some (tower fl e j)"
proof (induction k arbitrary: e)
  case 0
  then show ?case by (simp add: scale_loop.simps)
next
  case (Suc k)
  show ?case
  proof (cases "js_isInteger (js_times fl n e)")
    case True
    then show ?thesis by (intro exI [of _ 0]) (simp add: scale_loop.simps)
  next
    case False
    obtain j where "j \<le> k" "scale_loop fl n (js_times fl e (Num 10)) = Some (tower fl (js_times fl e (Num 10)) j)"
      using Suc by auto
    with False show ?thesis by (intro exI [of _ "Suc j"]) (simp add: scale_loop.simps [of fl n e])
  qed
qed

lemma scale_loop_hangs:
  assumes "\<And>k. \<not> js_isInteger (js_times fl n (tower fl e k))"
  shows "scale_loop fl n e = None"
  using assms scale_loop_result [of fl n e] by (cases "scale_loop fl n e") auto

section \<open>Rounded ratios\<close>

lemma tower_ieee:
  assumes "ieee fl"
  shows "e = Infinity \<or> (\<exists>x. e = Num x \<and> 1 \<le> x \<and> js_isInteger (Num x)) \<Longrightarrow>
    tower fl e k = Infinity \<or> (\<exists>x. tower fl e k = Num x \<and> 1 \<le> x \<and> js_isInteger (Num x))"
proof (induction k arbitrary: e)
  case (Suc k)
  have "js_times fl e (Num 10) = Infinity \<or> (\<exists>x. js_times fl e (Num 10) = Num x \<and> 1 \<le> x \<and> js_isInteger (Num x))"
  proof (cases "e = Infinity")
    case True
    then show ?thesis by (simp add: js_times_def signed_infinity_def)
  next
    case False
    with Suc.prems obtain x where x: "e = Num x" "1 \<le> x" "js_isInteger (Num x)" by blast
    have "0 \<le> x * 10" "1 \<le> x * 10" "js_isInteger (Num (x * 10))" using x integer_ten by (simp_all del: js_isInteger.simps)
    then have "fl (x * 10) = Infinity \<or> (\<exists>y. fl (x * 10) = Num y \<and> 1 \<le> y \<and> js_isInteger (Num y))"
      using assms unfolding ieee_def by blast
    then show ?thesis by (simp add: js_times_def x(1))
  qed
  then show ?case using Suc.IH by simp
qed simp

lemma Int_from_integer: "js_isInteger (Num x) \<Longrightarrow> 0 \<le> x \<Longrightarrow> Int_from (NumberAmount (Num x)) = Some (nat \<lfloor>x\<rfloor>) \<and> of_nat (nat \<lfloor>x\<rfloor>) = x"
  by (simp add: of_nat_nat)

text \<open>The numerator is the rounded product of the number and the denominator, and the denominator is at least 1.\<close>

lemma Ratio_from_rounded:
  assumes "ieee fl" "0 \<le> n" "Ratio_from fl (Num n) = Some v"
  shows "\<exists>r. v = Some r \<and> ratio_ok r \<and> fl (n * of_nat (ratio_b r)) = Num (of_nat (ratio_a r))"
proof -
  from assms(2,3) obtain e where e: "scale_loop fl (Num n) (Num 1) = Some e"
    "v = (case (Int_from (NumberAmount (js_times fl (Num n) e)), Int_from (NumberAmount e)) of
            (Some a, Some b) \<Rightarrow> Some (ratio_of a b) | _ \<Rightarrow> None)"
    by (auto simp: Ratio_from_def split: option.split_asm)
  from scale_loop_result [OF e(1)] obtain k where k: "e = tower fl (Num 1) k" "js_isInteger (js_times fl (Num n) e)" by blast
  have "e = Infinity \<or> (\<exists>x. e = Num x \<and> 1 \<le> x \<and> js_isInteger (Num x))"
    unfolding k(1) by (rule tower_ieee [OF assms(1)]) simp
  moreover have "e \<noteq> Infinity" using k(2) by (auto simp: js_times_def signed_infinity_def split: if_splits)
  ultimately obtain x where x: "e = Num x" "1 \<le> x" "js_isInteger (Num x)" by blast
  have "fl (n * x) \<noteq> Infinity" using k(2) x(1) by (auto simp: js_times_def)
  moreover have "0 \<le> n * x" using assms(2) x(2) by simp
  ultimately obtain y where y: "fl (n * x) = Num y" "0 \<le> y" using assms(1) unfolding ieee_def by blast
  have yi: "js_isInteger (Num y)" using k(2) x(1) y(1) by (simp add: js_times_def)
  note a = Int_from_integer [OF yi y(2)] and b = Int_from_integer [OF x(3)]
  have v: "v = Some (ratio_of (nat \<lfloor>y\<rfloor>) (nat \<lfloor>x\<rfloor>))" unfolding e(2) x(1) js_times_def using y(1) yi a b x(2) by simp
  have nx: "of_nat (nat \<lfloor>x\<rfloor>) = x" "of_nat (nat \<lfloor>y\<rfloor>) = y" using a b x(2) by simp_all
  have "0 < nat \<lfloor>x\<rfloor>" using x(2) by simp
  then have ok: "ratio_ok (ratio_of (nat \<lfloor>y\<rfloor>) (nat \<lfloor>x\<rfloor>))" by simp
  have "fl (n * of_nat (ratio_b (ratio_of (nat \<lfloor>y\<rfloor>) (nat \<lfloor>x\<rfloor>)))) = Num (of_nat (ratio_a (ratio_of (nat \<lfloor>y\<rfloor>) (nat \<lfloor>x\<rfloor>))))"
    using y(1) by (simp only: ratio_of_def ratio.simps nx)
  with v ok show ?thesis by blast
qed

section \<open>Exact ratios\<close>

lemma tower_exact: "tower Num (Num x) k = Num (x * 10 ^ k)"
  by (induction k arbitrary: x) (simp_all add: js_times_def mult.assoc)

lemma Ratio_from_exact:
  assumes "0 \<le> n" "Ratio_from Num (Num n) = Some v"
  shows "\<exists>r. v = Some r \<and> ratio_ok r \<and> rat_of r = n"
  using Ratio_from_rounded [OF ieee_exact assms] by (fastforce simp: rat_of_def ratio_ok_def field_simps)

text \<open>
  A decimal fraction is converted exactly: in exact arithmetic the loop of \<open>Ratio.from\<close> ends for a number with finitely many decimal
  places, and the ratio it returns is that number.
\<close>

theorem Ratio_from_decimal: "\<exists>r. Ratio_from Num (Num (of_nat m / 10 ^ k)) = Some (Some r) \<and> rat_of r = of_nat m / 10 ^ k"
proof -
  let ?n = "of_nat m / 10 ^ k :: rat"
  have "js_isInteger (js_times Num (Num ?n) (tower Num (Num 1) k))" by (simp add: tower_exact js_times_def)
  then obtain e where "scale_loop Num (Num ?n) (Num 1) = Some e" using scale_loop_ends by blast
  then obtain v where v: "Ratio_from Num (Num ?n) = Some v" by (simp add: Ratio_from_def)
  then show ?thesis using Ratio_from_exact [OF _ v] by auto
qed

section \<open>The minimum rate of a quote\<close>

text \<open>What the prices say the payment must deliver per source unit, after the slippage.\<close>

definition ten_to :: "int \<Rightarrow> rat" where
  "ten_to k = (if 0 \<le> k then 10 ^ nat k else 1 / 10 ^ nat (- k))"

definition price_ratio :: "jsstring \<Rightarrow> jsstring \<Rightarrow> (jsstring \<Rightarrow> rat) \<Rightarrow> rat" where
  "price_ratio source dest price = (if source = dest then 1 else price source / price dest)"

lemma external_rate_exact:
  assumes "check_prices (Num sl) (Some (code, Num sc)) (asset_code dest) (\<lambda>c. Some (Num (price c))) = None"
  shows "external_rate Num (Num \<circ> ten_to) (Num sl) (Some (code, Num sc)) dest (\<lambda>c. Some (Num (price c)))
      = Num (price_ratio code (asset_code dest) price * (1 - sl) * ten_to (int (asset_scale dest) - \<lfloor>sc\<rfloor>))
    \<and> 0 \<le> price_ratio code (asset_code dest) price * (1 - sl) * ten_to (int (asset_scale dest) - \<lfloor>sc\<rfloor>)"
  using assms unfolding check_prices_def
  by (auto simp: external_rate_def price_ratio_def js_times_def js_divide_def one_minus_def ten_to_def price_ok_def Let_def
      split: if_split_asm)

lemma priced_quote:
  assumes "quote_from_prices Num (Num \<circ> ten_to) now opts (Some (Num sl)) (Some (code, Num sc)) dest (\<lambda>c. Some (Num (price c))) (Inr pr)
      = Some (Inr (Inr q))"
    and "ratio_ok (probe_lowRate pr)"
  shows "rat_of (minExchangeRate q) = price_ratio code (asset_code dest) price * (1 - sl) * ten_to (int (asset_scale dest) - \<lfloor>sc\<rfloor>)
    \<and> rat_of (minExchangeRate q) \<le> rat_of (lowEstimatedExchangeRate q)
    \<and> (paymentType q \<noteq> FixedSend \<or> int (minDeliveryAmount q) = \<lceil>of_nat (maxSourceAmount q - 1) * rat_of (minExchangeRate q)\<rceil>)"
proof -
  let ?rate = "price_ratio code (asset_code dest) price * (1 - sl) * ten_to (int (asset_scale dest) - \<lfloor>sc\<rfloor>)"
  let ?ext = "external_rate Num (Num \<circ> ten_to) (Num sl) (Some (code, Num sc)) dest (\<lambda>c. Some (Num (price c)))"
  from assms(1) obtain target r where t: "check_prices (Num sl) (Some (code, Num sc)) (asset_code dest) (\<lambda>c. Some (Num (price c))) = None"
    "Ratio_from Num ?ext = Some (Some r)" "finish_quote target r pr = Inr q"
    unfolding quote_from_prices_def Let_def by (auto split: sum.split_asm option.split_asm)
  have ext: "?ext = Num ?rate" "0 \<le> ?rate" using external_rate_exact [OF t(1)] by blast+
  have r: "ratio_ok r" "rat_of r = ?rate" using Ratio_from_exact [OF ext(2)] t(2) unfolding ext(1) by auto
  obtain type n where tn: "target = (type, n)" by (cases target)
  note f = finish_quote_facts [OF t(3) [unfolded tn]]
  have "rat_of r \<le> rat_of (probe_lowRate pr)" using f assms(2) r(1) by (simp add: ratio_order)
  then show ?thesis using f r multiplyCeil_ceil [OF r(1)] by auto
qed

text \<open>
  C16. A quote enforces the slippage: in exact arithmetic the minimum rate of a quote is the price of the source asset over that of
  the destination asset, less the slippage and scaled to the units of the two assets (1 for the same asset); the probed rate
  is not below it, and for a fixed-send payment the amount less one unit is promised at this rate.
\<close>

theorem quote_minimum_rate:
  assumes "quote_from_prices Num (Num \<circ> ten_to) now opts (Some (Num sl)) (Some (code, Num sc)) dest (\<lambda>c. Some (Num (price c))) (Inr pr)
      = Some (Inr (Inr q))"
    and "ratio_ok (probe_lowRate pr)"
  shows "rat_of (minExchangeRate q) = price_ratio code (asset_code dest) price * (1 - sl) * ten_to (int (asset_scale dest) - \<lfloor>sc\<rfloor>)
    \<and> rat_of (minExchangeRate q) \<le> rat_of (lowEstimatedExchangeRate q)
    \<and> (paymentType q \<noteq> FixedSend \<or> int (minDeliveryAmount q) = \<lceil>of_nat (maxSourceAmount q - 1) * rat_of (minExchangeRate q)\<rceil>)"
  using assms by (rule priced_quote)

definition rate_quote :: quote where
  "rate_quote = sample_quote\<lparr>minExchangeRate := ratio_of 15 10\<rparr>"

definition rate_asset :: asset_details where
  "rate_asset = \<lparr>asset_code = js ''USD'', asset_scale = 0\<rparr>"

definition rate_price :: "jsstring \<Rightarrow> rat" where
  "rate_price code = (if code = js ''EUR'' then 2 else 1)"

lemma Ratio_from_sample: "Ratio_from Num (Num (3 / 2)) = Some (Some (ratio_of 15 10))"
  by code_simp

lemma rate_prices: "js ''EUR'' \<noteq> js ''USD''" "rate_price (js ''EUR'') = 2" "rate_price (js ''USD'') = 1"
  by (simp_all add: rate_price_def js_def)

lemma rate_quote_computed:
  "quote_from_prices Num (Num \<circ> ten_to) 1000 sample_options (Some (Num (1 / 4))) (Some (js ''EUR'', Num 0)) rate_asset
     (\<lambda>c. Some (Num (rate_price c))) (Inr sample_probe_result) = Some (Inr (Inr rate_quote))"
proof -
  have target: "quote_target 1000 sample_options = Inr (FixedDelivery, 100)"
    by (simp add: quote_target_def incoming_state_def sample_options_def positive_or_def)
  have prices: "check_prices (Num (1 / 4)) (Some (js ''EUR'', Num 0)) (asset_code rate_asset) (\<lambda>c. Some (Num (rate_price c))) = None"
    using rate_prices by (simp add: check_prices_def isValidAssetDetails_def price_ok_def rate_asset_def Let_def)
  have ext: "external_rate Num (Num \<circ> ten_to) (Num (1 / 4)) (Some (js ''EUR'', Num 0)) rate_asset (\<lambda>c. Some (Num (rate_price c))) = Num (3 / 2)"
    using external_rate_exact [OF prices] rate_prices by (simp add: price_ratio_def ten_to_def rate_asset_def)
  have "finish_quote (FixedDelivery, 100) (ratio_of 15 10) sample_probe_result = Inr rate_quote"
    by (simp add: finish_quote_def sample_probe_result_def sample_quote_def rate_quote_def ratio_isGreaterThanOrEqualTo_def ratio_of_def
        ratio_reciprocal_def multiplyFloor_def)
  then show ?thesis by (simp add: quote_from_prices_def target prices ext Ratio_from_sample)
qed

theorem quote_minimum_rate_witness:
  "rat_of (minExchangeRate rate_quote) = 3 / 2 \<and> rat_of (minExchangeRate rate_quote) \<le> rat_of (lowEstimatedExchangeRate rate_quote)"
proof -
  have "ratio_ok (probe_lowRate sample_probe_result)" by (simp add: sample_probe_result_def)
  from quote_minimum_rate [OF rate_quote_computed this] rate_prices show ?thesis
    by (simp add: price_ratio_def ten_to_def rate_asset_def)
qed

section \<open>Where the arithmetic is not exact\<close>

text \<open>
  An external rate that overflows is no error of the payment: \<open>startQuote\<close> throws a \<open>TypeError\<close> after the rate probe.
\<close>

lemma infinite_rate_throws:
  assumes "quote_target now opts = Inr target" "check_prices (Num sl) source (asset_code dest) prices = None"
    and "external_rate fl ten (Num sl) source dest prices = Infinity"
  shows "quote_from_prices fl ten now opts (Some (Num sl)) source dest prices (Inr pr)
    = Some (Inl (TypeError ''Cannot read properties of undefined''))"
  using assms by (simp add: quote_from_prices_def Ratio_from_def)

text \<open>
  The loop of \<open>Ratio.from\<close> does not end for a number so small that the powers of ten overflow before its product with one
  of them is an integer. Exact arithmetic that overflows like a double is enough to show it, for the smallest positive double.
\<close>

definition overflowing :: rounding where
  "overflowing r = (if r \<ge> 2 ^ 1024 then Infinity else Num r)"

lemma tower_overflowing:
  "e = Infinity \<or> (\<exists>j. e = Num (10 ^ j) \<and> (10 :: rat) ^ j < 2 ^ 1024) \<Longrightarrow>
    tower overflowing e k = Infinity \<or> (\<exists>j. tower overflowing e k = Num (10 ^ j) \<and> (10 :: rat) ^ j < 2 ^ 1024)"
proof (induction k arbitrary: e)
  case (Suc k)
  have "js_times overflowing e (Num 10) = Infinity \<or> (\<exists>j. js_times overflowing e (Num 10) = Num (10 ^ j) \<and> (10 :: rat) ^ j < 2 ^ 1024)"
  proof (cases "e = Infinity")
    case True
    then show ?thesis by (simp add: js_times_def signed_infinity_def)
  next
    case False
    with Suc.prems obtain j where "e = Num (10 ^ j)" by blast
    then have "js_times overflowing e (Num 10) = overflowing (10 ^ Suc j)" by (simp add: js_times_def mult.commute)
    then show ?thesis unfolding overflowing_def by (cases "(2 :: rat) ^ 1024 \<le> 10 ^ Suc j") (auto simp del: power_Suc)
  qed
  then show ?case using Suc.IH by simp
qed simp

lemma small_product: "0 < x \<Longrightarrow> x < 1 \<Longrightarrow> \<not> js_isInteger (overflowing x)"
proof -
  assume x: "0 < x" "x < 1"
  have "x < 2 ^ 1024" using x(2) by (rule less_le_trans) simp
  moreover have "\<lfloor>x\<rfloor> = 0" using x by (simp add: floor_eq_iff)
  ultimately show ?thesis using x(1) by (simp add: overflowing_def)
qed

lemma tiny_ratio_hangs: "Ratio_from overflowing (Num (1 / 2 ^ 1074)) = None"
proof -
  let ?n = "1 / 2 ^ 1074 :: rat"
  have "\<not> js_isInteger (js_times overflowing (Num ?n) (tower overflowing (Num 1) k))" for k
  proof -
    have "tower overflowing (Num 1) k = Infinity \<or> (\<exists>j. tower overflowing (Num 1) k = Num (10 ^ j) \<and> (10 :: rat) ^ j < 2 ^ 1024)"
    proof (rule tower_overflowing, rule disjI2, rule exI [of _ 0], rule conjI)
      show "(10 :: rat) ^ 0 < 2 ^ 1024" by simp
    qed simp
    then show ?thesis
    proof
      assume "\<exists>j. tower overflowing (Num 1) k = Num (10 ^ j) \<and> (10 :: rat) ^ j < 2 ^ 1024"
      then obtain j where j: "tower overflowing (Num 1) k = Num (10 ^ j)" "(10 :: rat) ^ j < 2 ^ 1024" by blast
      have "(10 :: rat) ^ j < 2 ^ 1074" using j(2) by (rule less_le_trans) (rule power_increasing, simp_all)
      then have "?n * 10 ^ j < 1" "0 < ?n * 10 ^ j" by (simp_all add: field_simps del: power_divide)
      then show ?thesis unfolding j(1) js_times_def using small_product by simp
    qed (simp add: js_times_def signed_infinity_def)
  qed
  then have "scale_loop overflowing (Num ?n) (Num 1) = None" by (rule scale_loop_hangs)
  then show ?thesis by (simp add: Ratio_from_def)
qed

end
