(* ===== verification/Stream_Wait.thy ===== *)
theory Stream_Wait
  imports Money_Stream
begin

text \<open>
  The promises of \<open>sendTotal\<close> and \<open>receiveTotal\<close> in \<^verbatim>\<open>ilp-protocol-stream/src/stream.ts\<close>: the listeners, the timer and the
  clean-up that waits in \<open>setImmediate\<close>. The two methods have the same shape; \<open>direction\<close> tells them apart. A step is a change of
  the stream or an event; an event runs the handler when it is registered.
\<close>

section \<open>State and handlers\<close>

datatype direction = Sending | Receiving

datatype promise = Pending | Resolved | Rejected string

record waiter =
  wa_limit :: u64
  wa_listening :: bool
  wa_timer :: bool
  wa_cleanups :: nat
  wa_promise :: promise

fun direction_total :: "direction \<Rightarrow> 'cb money_stream \<Rightarrow> u64" where
  "direction_total Sending s = totalSent s"
| "direction_total Receiving s = totalReceived s"

text \<open>Only the first \<open>resolve\<close> or \<open>reject\<close> counts.\<close>

definition settle_with :: "promise \<Rightarrow> waiter \<Rightarrow> waiter" where
  "settle_with r w = (if wa_promise w = Pending then w\<lparr>wa_promise := r\<rparr> else w)"

definition wait_cleanup :: "waiter \<Rightarrow> waiter" where
  "wait_cleanup w = w\<lparr>wa_timer := False, wa_listening := False\<rparr>"

definition money_handler :: "direction \<Rightarrow> 'cb money_stream \<Rightarrow> waiter \<Rightarrow> waiter" where
  "money_handler d s w =
     (if direction_total d s \<ge> wa_limit w then settle_with Resolved (wait_cleanup w) else w)"

definition end_handler :: "direction \<Rightarrow> 'cb money_stream \<Rightarrow> waiter \<Rightarrow> waiter" where
  "end_handler d s w =
     (let w1 = w\<lparr>wa_cleanups := wa_cleanups w + 1\<rparr>
      in if direction_total d s \<ge> wa_limit w then settle_with Resolved w1
         else settle_with (Rejected ''Stream was closed before the desired amount was reached'') w1)"

definition error_handler :: "waiter \<Rightarrow> waiter" where
  "error_handler w =
     settle_with (Rejected ''Stream encountered an error before the desired amount was reached'') (wait_cleanup w)"

definition timeout_handler :: "waiter \<Rightarrow> waiter" where
  "timeout_handler w = settle_with (Rejected ''Timed out before the desired amount was reached'') (wait_cleanup w)"

text \<open>The call up to its await; an exception rejects the promise of the method.\<close>

definition start_wait :: "direction \<Rightarrow> long_value \<Rightarrow> 'cb money_stream \<Rightarrow> ('cb money_stream \<times> waiter) result" where
  "start_wait d limit s =
     ebind (stream_longFromValue limit True) (\<lambda>l.
     ebind (case d of Sending \<Rightarrow> sendTotal limit s | Receiving \<Rightarrow> receiveTotal limit s) (\<lambda>(reached, s').
       Inr (s', \<lparr>wa_limit = long_bits l, wa_listening = \<not> reached, wa_timer = \<not> reached, wa_cleanups = 0,
                 wa_promise = (if reached then Resolved else Pending)\<rparr>)))"

section \<open>Steps\<close>

text \<open>
  A payment of the stream: the execution of a hold that does not wrap the total (\<open>execution_grows\<close>), or an incoming amount. Both emit
  the event after the total is updated.
\<close>

definition money_moved :: "direction \<Rightarrow> 'cb money_stream \<Rightarrow> 'cb money_stream \<Rightarrow> bool" where
  "money_moved d s s' \<longleftrightarrow>
     (case d of
        Sending \<Rightarrow> \<exists>k. map_of (holds s) k \<noteq> None \<and> s' = executeHold k s \<and> totalSent s \<le> totalSent s'
      | Receiving \<Rightarrow> \<exists>am. s' = addToIncoming am s)"

inductive wait_step :: "direction \<Rightarrow> 'cb money_stream \<times> waiter \<Rightarrow> 'cb money_stream \<times> waiter \<Rightarrow> bool" for d where
  money: "money_moved d s s' \<Longrightarrow> wait_step d (s, w) (s', if wa_listening w then money_handler d s' w else w)"
| other: "direction_total d s' = direction_total d s \<Longrightarrow> wait_step d (s, w) (s', w)"
| ended: "wa_listening w \<Longrightarrow> wait_step d (s, w) (s, end_handler d s w)"
| failed: "wa_listening w \<Longrightarrow> wait_step d (s, w) (s, error_handler w)"
| timer: "wa_timer w \<Longrightarrow> wait_step d (s, w) (s, timeout_handler w)"
| cleanup: "0 < wa_cleanups w \<Longrightarrow> wait_step d (s, w) (s, wait_cleanup (w\<lparr>wa_cleanups := wa_cleanups w - 1\<rparr>))"

inductive wait_run :: "direction \<Rightarrow> 'cb money_stream \<times> waiter \<Rightarrow> 'cb money_stream \<times> waiter \<Rightarrow> bool" for d where
  refl: "wait_run d x x"
| step: "wait_run d x y \<Longrightarrow> wait_step d y z \<Longrightarrow> wait_run d x z"

section \<open>The invariant\<close>

lemma execution_grows:
  assumes "money_inv M s" "M < 2 ^ 63"
  shows "totalSent s \<le> totalSent (executeHold k s)"
proof (cases "map_of (holds s) k")
  case (Some a)
  have "unat (totalSent (executeHold k s)) = unat (totalSent s) + unat a \<or> totalSent s \<le> totalSent (executeHold k s)"
    using assms Some release_inv [OF assms(1) Some] by (auto simp: executeHold_def money_inv_def unat_word_ariths)
  then show ?thesis by (auto simp: word_le_nat_alt)
qed (simp add: executeHold_def)

lemma incoming_grows: "totalReceived s \<le> totalReceived (addToIncoming am s)"
  using unat_u64_less [of "totalReceived s"] by (simp add: addToIncoming_def word_le_nat_alt checkedAdd_sat)

lemma moved_grows: "money_moved d s s' \<Longrightarrow> direction_total d s \<le> direction_total d s'"
  by (cases d) (auto simp: money_moved_def incoming_grows)

definition wait_inv :: "direction \<Rightarrow> 'cb money_stream \<Rightarrow> waiter \<Rightarrow> bool" where
  "wait_inv d s w \<longleftrightarrow>
     (wa_promise w = Pending \<longrightarrow> direction_total d s < wa_limit w \<and> wa_listening w \<and> wa_timer w \<and> wa_cleanups w = 0) \<and>
     (wa_promise w = Resolved \<longrightarrow> wa_limit w \<le> direction_total d s) \<and>
     (wa_promise w \<noteq> Pending \<longrightarrow> 0 < wa_cleanups w \<or> \<not> wa_listening w \<and> \<not> wa_timer w)"

lemmas handler_defs = money_handler_def end_handler_def error_handler_def timeout_handler_def settle_with_def wait_cleanup_def

lemma wait_inv_grows:
  assumes "wait_inv d s w" "direction_total d s \<le> direction_total d s'"
  shows "wait_inv d s' (if wa_listening w then money_handler d s' w else w)"
  using assms order_trans [of "wa_limit w" "direction_total d s" "direction_total d s'"]
  by (auto simp: wait_inv_def handler_defs not_le)

lemma wait_step_inv: "wait_step d x y \<Longrightarrow> wait_inv d (fst x) (snd x) \<Longrightarrow> wait_inv d (fst y) (snd y)"
proof (induction rule: wait_step.induct)
  case (money s s' w)
  then show ?case using wait_inv_grows moved_grows by fastforce
next
  case (ended w s)
  then show ?case by (auto simp: wait_inv_def handler_defs Let_def not_le)
qed (auto simp: wait_inv_def handler_defs)

lemma wait_run_inv: "wait_run d x y \<Longrightarrow> wait_inv d (fst x) (snd x) \<Longrightarrow> wait_inv d (fst y) (snd y)"
  by (induction rule: wait_run.induct) (simp_all add: wait_step_inv)

lemma limit_frame:
  "setSendMax l s = Inr s' \<Longrightarrow> totalSent s' = totalSent s"
  "setReceiveMax l s = Inr s' \<Longrightarrow> totalReceived s' = totalReceived s"
  by (auto simp: setSendMax_def setReceiveMax_def split: if_split_asm)

lemma start_wait_inv: "start_wait d limit s = Inr (s', w) \<Longrightarrow> wait_inv d s' w"
  by (cases d) (auto simp: start_wait_def sendTotal_def receiveTotal_def wait_inv_def not_le dest!: limit_frame split: if_split_asm)

text \<open>
  C17. The promise of \<open>sendTotal\<close> and \<open>receiveTotal\<close> is reliable in every order of payments, events, timer and clean-ups: it is resolved
  only when the amount is reached; while it is pending the amount is not reached and both the listeners and the timer are
  there, so no payment is missed and the time-out is sure to come; and once it is settled and its pending clean-ups have run, nothing of
  it stays registered. A payment is one that does not wrap the total, as every payment below a limit of 2 to the 63 (\<open>execution_grows\<close>).
\<close>

theorem total_promise_kept:
  assumes "start_wait d limit s0 = Inr x" "wait_run d x (s, w)"
  shows "(wa_promise w = Resolved \<longrightarrow> wa_limit w \<le> direction_total d s)
    \<and> (wa_promise w = Pending \<longrightarrow> direction_total d s < wa_limit w \<and> wa_listening w \<and> wa_timer w)
    \<and> (wa_promise w \<noteq> Pending \<and> wa_cleanups w = 0 \<longrightarrow> \<not> wa_listening w \<and> \<not> wa_timer w)"
  using wait_run_inv [OF assms(2)] start_wait_inv [of d limit s0 "fst x" "snd x"] assms(1) by (auto simp: wait_inv_def)

text \<open>A settled promise never changes, and a pending one is settled by its timer.\<close>

lemma settled_for_good: "wait_step d (s, w) (s', w') \<Longrightarrow> wa_promise w \<noteq> Pending \<Longrightarrow> wa_promise w' = wa_promise w"
  by (cases rule: wait_step.cases) (auto simp: handler_defs Let_def)

lemma timer_settles: "wait_inv d s w \<Longrightarrow> wa_promise w = Pending \<Longrightarrow> wa_promise (timeout_handler w) \<noteq> Pending \<and> wait_step d (s, w) (s, timeout_handler w)"
  using wait_step.timer [of w d s] by (simp add: wait_inv_def) (simp add: handler_defs)

section \<open>Example\<close>

definition waiting_stream :: "unit money_stream \<times> waiter" where
  "waiting_stream = (new_stream\<lparr>receiveMax := 10\<rparr>,
     \<lparr>wa_limit = 10, wa_listening = True, wa_timer = True, wa_cleanups = 0, wa_promise = Pending\<rparr>)"

lemma waiting_stream_starts: "start_wait Receiving (NumV (Num 10)) new_stream = Inr waiting_stream"
  by code_simp

theorem total_promise_kept_witness:
  "wa_promise (money_handler Receiving (addToIncoming 10 (fst waiting_stream)) (snd waiting_stream)) = Resolved
    \<and> 10 \<le> totalReceived (addToIncoming 10 (fst waiting_stream))"
proof -
  let ?s = "addToIncoming 10 (fst waiting_stream)" and ?w = "money_handler Receiving (addToIncoming 10 (fst waiting_stream)) (snd waiting_stream)"
  have "wait_step Receiving (fst waiting_stream, snd waiting_stream) (?s, if wa_listening (snd waiting_stream) then ?w else snd waiting_stream)"
    by (rule wait_step.money) (auto simp: money_moved_def)
  then have "wait_step Receiving waiting_stream (?s, ?w)" by (simp add: waiting_stream_def)
  then have run: "wait_run Receiving waiting_stream (?s, ?w)" by (rule wait_run.step [OF wait_run.refl])
  have w: "wa_promise ?w = Resolved" "wa_limit ?w = 10" by code_simp+
  then show ?thesis using total_promise_kept [OF waiting_stream_starts run] by simp
qed

end
