(* ===== verification/Float_Rational.thy ===== *)
theory Float_Rational
  imports Rational Js_Float
begin

text \<open>
  \<^verbatim>\<open>ilp-protocol-stream/src/util/rational.ts\<close>: the conversion of numbers, such as the slippage of a connection, to fractions of two
  Longs. \<open>Math.floor(Math.log(value) / Math.LN10)\<close> is an argument.
\<close>

definition Rational_fromNumbers :: "jsnum \<Rightarrow> jsnum \<Rightarrow> bool \<Rightarrow> rational result" where
  "Rational_fromNumbers numerator denominator uns =
     (if \<not> uns then Inl (Error ''signed rationals are not implemented'')
      else new_rational (long_bits (long_fromNumber numerator uns)) (long_bits (long_fromNumber denominator uns)))"

text \<open>\<open>Math.floor(x) === x\<close>.\<close>

fun floor_same :: "jsnum \<Rightarrow> bool" where
  "floor_same (Num r) = (of_int \<lfloor>r\<rfloor> = r)"
| "floor_same NaN = False"
| "floor_same _ = True"

fun shift_loop :: "rounding \<Rightarrow> jsnum \<Rightarrow> jsnum \<Rightarrow> nat \<Rightarrow> jsnum" where
  "shift_loop fl v den 0 = den"
| "shift_loop fl v den (Suc shift) =
     (if floor_same (js_times fl v den) then den else shift_loop fl v (js_times fl den (Num 10)) shift)"

definition Rational_fromNumber :: "rounding \<Rightarrow> (rat \<Rightarrow> int) \<Rightarrow> jsnum \<Rightarrow> bool \<Rightarrow> rational result" where
  "Rational_fromNumber fl log10_floor v uns =
     (case v of
        Num r \<Rightarrow>
          if uns \<and> r < 0 then Inl (Error ''unsigned value must be positive'')
          else if of_int \<lfloor>r\<rfloor> = r then Rational_fromNumbers v (Num 1) uns
          else
            let mag = log10_floor r;
                shift = nat (if mag < 0 then 18 else 18 - mag);
                den = shift_loop fl v (Num 1) shift
            in Rational_fromNumbers (js_times fl v den) den uns
      | _ \<Rightarrow> Inl (Error ''value must be finite''))"

section \<open>Exact conversion\<close>

lemma shift_loop_exact:
  assumes "js_isInteger (Num (v * 10 ^ k))" "k \<le> shift"
  shows "\<exists>j \<le> k. shift_loop Num (Num v) (Num 1) shift = Num (10 ^ j) \<and> js_isInteger (Num (v * 10 ^ j))"
proof -
  have "\<exists>j \<le> k. shift_loop Num (Num v) (Num x) n = Num (x * 10 ^ j) \<and> js_isInteger (Num (v * (x * 10 ^ j)))"
    if "js_isInteger (Num (v * (x * 10 ^ k)))" "k \<le> n" for x n
    using that
  proof (induction n arbitrary: x k)
    case (Suc n)
    show ?case
    proof (cases "js_isInteger (Num (v * x))")
      case True
      then show ?thesis by (intro exI [of _ 0]) (simp add: js_times_def)
    next
      case False
      then obtain i where i: "k = Suc i" using Suc.prems(1) by (cases k) auto
      then have "js_isInteger (Num (v * (x * 10 * 10 ^ i)))" "i \<le> n" using Suc.prems by (simp_all add: mult_ac)
      from Suc.IH [OF this] obtain j where "j \<le> i" "shift_loop Num (Num v) (Num (x * 10)) n = Num (x * 10 * 10 ^ j)"
        "js_isInteger (Num (v * (x * 10 * 10 ^ j)))" by blast
      with False i show ?thesis by (intro exI [of _ "Suc j"]) (simp add: js_times_def mult_ac)
    qed
  qed (simp add: mult_ac)
  from this [of 1 shift] assms show ?thesis by simp
qed

lemma long_of_nat: "n < 2 ^ 64 \<Longrightarrow> unat (long_bits (long_fromNumber (Num (of_nat n)) True)) = n"
  by (simp add: long_fromInt_def min_def unat_of_nat)

lemma fromNumbers_exact:
  assumes "n < 2 ^ 64" "0 < d" "d < 2 ^ 64"
  shows "\<exists>r. Rational_fromNumbers (Num (of_nat n)) (Num (of_nat d)) True = Inr r \<and> denom r \<noteq> 0
    \<and> unat (numer r) = n \<and> unat (denom r) = d"
proof -
  have "long_bits (long_fromNumber (Num (of_nat d)) True) \<noteq> 0" using long_of_nat [OF assms(3)] assms(2) by auto
  then show ?thesis using long_of_nat [OF assms(1)] long_of_nat [OF assms(3)]
    by (simp add: Rational_fromNumbers_def new_rational_def del: long_fromNumber.simps)
qed

lemma integer_nat: "js_isInteger (Num x) \<Longrightarrow> 0 \<le> x \<Longrightarrow> \<exists>n. x = of_nat n"
  by (metis js_isInteger.simps(1) nonneg_int_cases of_int_0_le_iff of_int_of_nat_eq)

text \<open>
  A decimal fraction becomes an exact rational: in exact arithmetic a number whose decimals fit the 18 places (less those of
  its integer part) is converted without error and without overflow of the two Longs.
\<close>

theorem Rational_fromNumber_exact:
  assumes "m < 2 ^ 64" "int k \<le> 18 - max 0 (log10_floor (of_nat m / 10 ^ k))"
  shows "\<exists>r. Rational_fromNumber Num log10_floor (Num (of_nat m / 10 ^ k)) True = Inr r \<and> denom r \<noteq> 0
    \<and> of_nat (unat (numer r)) / of_nat (unat (denom r)) = (of_nat m / 10 ^ k :: rat)"
proof -
  let ?v = "of_nat m / 10 ^ k :: rat"
  have "k \<le> nat (if log10_floor ?v < 0 then 18 else 18 - log10_floor ?v)" using assms(2) by auto
  from shift_loop_exact [OF _ this, of ?v] obtain i where i: "i \<le> k"
    "shift_loop Num (Num ?v) (Num 1) (nat (if log10_floor ?v < 0 then 18 else 18 - log10_floor ?v)) = Num (10 ^ i)"
    "js_isInteger (Num (?v * 10 ^ i))" by auto
  define j where "j = (if of_int \<lfloor>?v\<rfloor> = ?v then 0 else i)"
  have j: "j \<le> k" "js_isInteger (Num (?v * 10 ^ j))" using i by (auto simp: j_def)
  have "\<not> ?v < 0" by (simp add: not_less)
  then have conv: "Rational_fromNumber Num log10_floor (Num ?v) True = Rational_fromNumbers (Num (?v * 10 ^ j)) (Num (10 ^ j)) True"
    using i(2) by (simp add: Rational_fromNumber_def j_def js_times_def Let_def)
  obtain n where n: "?v * 10 ^ j = of_nat n" using integer_nat [OF j(2)] by auto
  have "?v * 10 ^ j \<le> ?v * 10 ^ k" using j(1) by (intro mult_left_mono power_increasing) simp_all
  then have "n \<le> m" unfolding n by simp
  moreover have "(10 :: nat) ^ j \<le> 10 ^ 18" using j(1) assms(2) by (intro power_increasing) auto
  ultimately obtain r where r: "Rational_fromNumbers (Num (of_nat n)) (Num (of_nat (10 ^ j))) True = Inr r" "denom r \<noteq> 0"
    "unat (numer r) = n" "unat (denom r) = 10 ^ j"
    using fromNumbers_exact [of n "10 ^ j"] assms(1) by auto
  have "of_nat n / of_nat (10 ^ j) = ?v" unfolding n [symmetric] by simp
  with r show ?thesis unfolding conv n by (intro exI [of _ r]) simp
qed

theorem Rational_fromNumber_exact_witness:
  "\<exists>r. Rational_fromNumber Num (\<lambda>v. -2) (Num (of_nat 1 / 10 ^ 2)) True = Inr r \<and> denom r \<noteq> 0
    \<and> of_nat (unat (numer r)) / of_nat (unat (denom r)) = (of_nat 1 / 10 ^ 2 :: rat)"
  by (rule Rational_fromNumber_exact) simp_all

end
