(* ===== verification/Spec2Isabelle.thy ===== *)
theory Spec2Isabelle
  imports Oer_Codec Ilp_Packet Stream_Packet Receipt Rational Congestion Money_Stream Pay_Quote
    Stream_Exchange
    Ildcp Ccp Connection_Tag Stream_Receiver
    Payout Open_Payments Crypto_Browser Pay_Rate Stream_Wait Float_Rational
begin

text \<open>
  A verification of \<^verbatim>\<open>interledgerjs\<close>, a TypeScript implementation of the Interledger protocols: binary
  encodings, ILP packets, the STREAM transport, a payment client, payouts, a stateless receiver and two protocols
  between connectors. All paths are below \<^verbatim>\<open>src/packages/\<close>.

  \<^bold>\<open>The program and the theories.\<close> Each theory models the files it names, one definition per function
  or method with the source's name; a prefix or suffix avoids a clash.

  \<^item> \<open>Prelude\<close>: exceptions as values, bytes and big-endian numbers, 64-bit words. \<open>Js_String\<close>: UTF-16 strings,
    ASCII, UTF-8 and decimal conversions. \<open>Base64\<close>: base64, its URL-safe variants, hexadecimal.
  \<^item> \<^verbatim>\<open>oer-utils\<close>: \<open>Oer_Util\<close>, \<open>Oer_Reader\<close>, \<open>Writer_Interface\<close> (the locale \<open>writer_interface\<close>: every
    operation appends the reference encoding of its argument), \<open>Oer_Writer\<close> and \<open>Oer_Predictor\<close> (its two
    interpretations), \<open>Oer_Codec\<close> (properties across them). A reader or writer is a record; an operation returns the
    new state or an error.
  \<^item> \<^verbatim>\<open>ilp-packet\<close>: \<open>Ilp_Address\<close>, \<open>Ilp_Date\<close>, \<open>Ilp_Packet\<close> (packets, replies, error classes).
  \<^item> \<^verbatim>\<open>ilp-protocol-ildcp\<close> and \<^verbatim>\<open>ilp-protocol-ccp\<close>: \<open>Peer_Protocol\<close> (what both share; locale \<open>peer_request\<close>,
    interpreted for both CCP requests), \<open>Ildcp\<close>, \<open>Ccp\<close>.
  \<^item> \<^verbatim>\<open>ilp-protocol-stream\<close>: \<open>Long_Util\<close>, \<open>Rational\<close>, \<open>Stream_Crypto\<close>, \<open>Crypto_Browser\<close> (the same functions in
    the browser, with their caches of keys), \<open>Stream_Packet\<close>, \<open>Receipt\<close>, \<open>Congestion\<close>,
    \<open>Data_Queue\<close> (locale \<open>byte_fifo\<close>), \<open>Offset_Sorter\<close>, \<open>Money_Stream\<close> (the accounting and data of \<^verbatim>\<open>stream.ts\<close>),
    \<open>Stream_Wait\<close> (the promises of \<open>sendTotal\<close> and \<open>receiveTotal\<close>), \<open>Js_Float\<close> and \<open>Float_Rational\<close> (numbers to rationals).
  \<^item> \<^verbatim>\<open>ilp-protocol-stream/src/connection.ts\<close>: \<open>Connection\<close> (the state as the record \<open>conn\<close>, opening and closing, streams, frame
    dispatch, totals), \<open>Connection_Receive\<close> (\<open>handlePrepare\<close>), \<open>Connection_Send\<close> (\<open>loadAndSendPacket\<close>, \<open>sendPacket\<close>, responses and connector
    errors), \<open>Connection_Rate\<close> (test packets and the exchange rate). Asynchronous methods are cut at their awaits, and
    \<open>Connection_System\<close> lets the parts run in any order as the step relation \<open>conn_step\<close>: calls of the application, control frames, received
    packets between arrival and decision, test packets, turns of the send loop, timers. \<open>Connection_Books\<close> and
    \<open>Connection_Settle\<close> hold the accounting lemmas, \<open>Connection_Config\<close> shows that no step changes the parameters of a connection,
    \<open>Connection_Safety\<close> has the properties of all reachable states.
  \<^item> \<^verbatim>\<open>server.ts\<close>, \<^verbatim>\<open>pool.ts\<close> and \<^verbatim>\<open>index.ts\<close> of the same package: \<open>Stream_Server\<close> (addresses and their tokens, the pool as the step
    relation \<open>pool_step\<close>, whose connections make any \<open>conn_step\<close>, the data handlers). \<open>Stream_Exchange\<close> joins a sending and a receiving connection.
  \<^item> \<^verbatim>\<open>pay\<close>: \<open>Pay_Int\<close>, \<open>Exchange_Rate\<close>, \<open>Max_Packet\<close>, \<open>Pay_Request\<close> (\<^verbatim>\<open>request.ts\<close>), \<open>Pay_Controllers\<close> (the
    controllers as records of methods; locale \<open>stream_controller\<close>, interpreted for all nine), \<open>Stream_Sender\<close> (the send loop as
    the step relation \<open>loop_step\<close>; locale \<open>sender_invariant\<close>), \<open>Payment_Sender\<close>, \<open>Pay_Probes\<close>, \<open>Pay_Quote\<close>,
    \<open>Pay_Rate\<close> (the minimum rate of a quote from its prices), \<open>Payment_Pointer\<close> (account URLs) and \<open>Open_Payments\<close> (the queries that resolve a destination, their retries, the validation of
    JSON, \<open>setupPayment\<close>).
  \<^item> \<^verbatim>\<open>ilp-spsp-payout\<close>: \<open>Payout\<close>, a payout with everything that can happen to it as the step relation \<open>payout_step\<close>, and the
    table of payouts.
  \<^item> \<^verbatim>\<open>stream-receiver\<close> and \<^verbatim>\<open>connection-tag-utils\<close>: \<open>Stream_Receiver\<close>, \<open>Connection_Tag\<close>.
  \<^item> This theory: the properties that join several packages.

  \<^bold>\<open>How the parts interact.\<close> A payment runs a rate probe, computes a quote and runs a payment loop; every request of
  a loop is built by the controllers in order, becomes a STREAM packet inside an ILP Prepare, reaches a receiver through connectors
  that may change its amount or reject it, and comes back as a Fulfill or a Reject that is authenticated, given to the
  controllers in order and accounted for by the sender. The receiver keeps no state: the address it handed out contains an
  encrypted token with all it has to know.

  A payment begins with \<open>setupPayment\<close>, which asks a server for the destination; a payout asks it again for each connection it opens and
  keeps opening connections until its target is sent.

  A STREAM server hands out addresses of the same kind, but the first packet to one opens a connection that the pool keeps; from then on the
  two connections exchange prepares in both directions, each with control frames in the packet and in its answer.

  \<^bold>\<open>What is shown.\<close>
  \<^item> Encodings: every writer is inverted by its reader, the predicted size is the written size, length prefixes
    are canonical, capacity is respected; the same for ILP packets, STREAM packets (also encrypted and padded), receipts, connection tokens, IL-DCP and CCP
    messages. Parsers return only values that satisfy the type guards.
  \<^item> Money: a payment never has more sent and in flight than quoted, enforces the minimum rate on every packet and, when it
    succeeds, met its target; a stream's holds, totals and limits stay consistent under every interleaving of its operations.
    On a connection the totals, the streams and the packets in progress agree in every reachable state
    (\<open>connection_money_conserved\<close>), and a fulfilled packet moves exactly its amount (\<open>fulfilled_packet_counted\<close>).
  \<^item> Authenticity: a fulfill is accepted only with the expected fulfillment, a receiver fulfills only what its own token,
    decryption, minimum and condition allow, receipts verify exactly when they were made with the secret.
  \<^item> Both ends: what a payment client prepares, the receiver recognizes, and the amount it accepts is the amount the client
    records (\<open>payment_packet_fulfilled\<close>); a quote computed from any probe is honoured by every run of the payment
    (\<open>quoted_payment\<close>), and an Incoming Payment resolved by setup, with both amounts in one unit, is completed at no worse than the market rate less the slippage
    (\<open>incoming_payment_paid\<close>); an F08 error reaches the congestion controller with the connector's limit.
    On a connection, what one end sends and the other accepts is settled on both (\<open>packet_exchange\<close>), an address opens
    exactly the connection it was made for, and the pool has one connection for an address and never mixes two.
  \<^item> Control: rate bounds enclose an honest path's rate, the packet amount search finds the exact limit, congestion control keeps its
    bounds, the asset probe ends; the byte queue refines a byte string, a stream
    hands out every byte of its outgoing data (\<open>outgoing_data_faithful\<close>) and reads incoming chunks in any order as the data that was sent
    (\<open>stream_reassembles\<close>).
  \<^item> Destinations: whatever servers answer, what a payment is set up with is well-formed (\<open>fetchPaymentDetails_sound\<close>), its target is what is
    missing (\<open>setup_quote_target\<close>), an honest server that fails at most three times (time-outs apart) is understood, a query makes at most four
    requests, a payment pointer and its URL name one account.
  \<^item> Rates: the minimum rate of a quote is what prices and slippage say (\<open>quote_minimum_rate\<close>). Promises: waiting for an amount never
    misses a payment and always ends with the time-out (\<open>total_promise_kept\<close>).
  \<^item> Payouts: in any order of events a payout counts each finished connection once and no connection sends more than the target
    (\<open>payout_books\<close>), and one that is owed money has a timer, an attempt or a connection (\<open>payout_keeps_trying\<close>); that two connections
    together pay once is false (\<open>payout_pays_twice\<close>). The browser's cryptography is Node's.
  \<^item> Where the code falls short of its intention, the theorems say so: the rounding allowance of a payment can be used twice, a
    fixed-delivery payment can hang, saturating operations miss overflows, a stale chunk blocks a stream, the hold of a receiving connection
    counts what was received before, a claimed amount can make a connection lose count of what it sent, a payout whose connection fails can pay twice, an overflowing or tiny rate ends in an exception or not at all,
    amounts of different units are subtracted.

  \<^bold>\<open>Bounds, fuel and abstractions.\<close> No definition uses fuel that the code does not have (the rate probe counts its attempts): loops are structural or have a measure, and the send loop, which
  need not end, is a relation whose reachable states the invariants cover. Lengths in hypotheses (\<open>2 ^ 46\<close> and
  the like) are far above what a JavaScript buffer can hold. Dates are restricted to years 1000 to 9999, which the timestamp format
  represents. JavaScript numbers are exact rationals with the special values; pacing and round trip times
  are computed exactly where the code uses floating point; where numbers become fractions the rounding of a floating-point operation is an
  argument (\<open>Js_Float\<close>), and the theorems are about exact arithmetic or about what \<open>ieee\<close> states of rounding. \<open>Ratio.from\<close> may run forever:
  it is a partial function, and ends for decimals (\<open>Ratio_from_decimal\<close>). Cryptography is the record \<open>crypto_lib\<close>, with the hypotheses \<open>aead\<close> and \<open>digests\<close>; random bytes and the clock are
  arguments.

  \<^bold>\<open>Not modelled.\<close> Logging, event emitters and promise plumbing; the delays of timers; the connecting of plugins;
  \<^verbatim>\<open>ilp-plugin\<close> and \<^verbatim>\<open>ilp-logger\<close>, which load a module and wrap another; conversions of
  rationals to floats and strings. \<open>fetch\<close>, the
  parser of the \<open>URL\<close> class (with the hypothesis \<open>url_laws\<close>), \<open>Date.parse\<close> and WebCrypto (with \<open>same_primitives\<close>) are arguments.
\<close>

section \<open>Properties that span components\<close>

lemma amountTooLargeData_bytes:
  assumes "r < 2 ^ 64" "m < 2 ^ 64"
  shows "amountTooLargeData (dec_of_nat r) (dec_of_nat m) = Inr (nat_to_be 8 r @ nat_to_be 8 m)"
proof -
  have "wr.emits (\<lambda>w. ebind (writeUInt (StrV (dec_of_nat r)) 8 w) (writeUInt (StrV (dec_of_nat m)) 8))
      (nat_to_be 8 r @ nat_to_be 8 m)"
    using wr.emits_UInt [of "StrV (dec_of_nat r)" r 8] wr.emits_UInt [of "StrV (dec_of_nat m)" m 8] assms
    by (intro wr.emits_seq) simp_all
  from written_emits_capacity [OF this] show ?thesis by (simp add: amountTooLargeData_def)
qed

lemma reads_amounts:
  assumes "r < 2 ^ 64" "m < 2 ^ 64"
  shows "run_reader read_amounts (nat_to_be 8 r @ nat_to_be 8 m) = Inr (of_nat r, of_nat m)"
proof -
  have l: "reads readUInt64Long (nat_to_be 8 n) (Long (of_nat n) True)" if "n < 2 ^ 64" for n
    using reads_UIntLong_be [of 8 n] that by (simp add: readUInt64Long_def)
  have "reads read_amounts (nat_to_be 8 r @ nat_to_be 8 m) (of_nat r, of_nat m)"
    unfolding read_amounts_def
    by (rule reads_bind [OF l [OF assms(1)]], rule reads_bind_last [OF l [OF assms(2)]]) simp
  from reads_run [OF this, of "[]"] show ?thesis by simp
qed

text \<open>
  Above 2 to the 63 steps of the division wrap: for an amount received of 2 to the 63 plus 2 to the 62 and a maximum of
  2 to the 63, a sender that sent as much as was received gets 0 instead of the maximum.
\<close>

lemma amount_too_large_wraps: "multiplyDivideFloor (2 ^ 63 + 2 ^ 62) (2 ^ 63) (2 ^ 63 + 2 ^ 62) = Inr 0"
  by (simp add: multiplyDivideFloor_def multiplyDivide_def multiplyDivide_loop.simps carry_def)

text \<open>
  C31. A connector that rejects a packet with \<open>AmountTooLargeError\<close> and the amounts it received and
  accepts, the second smaller than the first and the first at most 2 to the 63, tells the sender its limit: the reject it serializes,
  in the name of a valid address and with a message of well-formed text of less than 2 to the 46 bytes, is parsed by the sender, whose
  congestion controller then takes the sent amount scaled by maximum over received, rounded
  down, as its maximum packet amount. (Beyond 2 to the 63 the 64-bit division of the sender is not exact: \<open>amount_too_large_wraps\<close>.)
\<close>

theorem amount_too_large_end_to_end:
  assumes "isValidIlpAddress address" and "well_formed msg" and "length (utf8_encode msg) < 2 ^ 46"
    and "m < r" and "r \<le> 2 ^ 63"
  shows "\<exists>d bs reject c'. amountTooLargeData (dec_of_nat r) (dec_of_nat m) = Inr d
    \<and> errorToReject address \<lparr>err_message = msg, ilpErrorCode = Some (error_code AmountTooLargeError),
        ilpErrorData = Some d\<rparr> = Inr bs
    \<and> deserializeIlpReply bs = Inr (RejectReply reject)
    \<and> onAmountTooLargeError reject sent c = Inr (maximumPacketAmount c', c')
    \<and> unat (c_maximumPacketAmount c') = unat sent * m div r"
proof -
  let ?d = "nat_to_be 8 r @ nat_to_be 8 m"
  let ?reject = "\<lparr>rej_code = error_code AmountTooLargeError, triggeredBy = address, rej_message = msg, rej_data = ?d\<rparr>"
  have r: "r < 2 ^ 64" and m: "m < 2 ^ 64" using assms(4,5) by simp_all
  have "encodable_reject ?reject"
    using assms(1-3) canonical_code_form [OF error_code_canonical, of AmountTooLargeError]
    by (simp add: encodable_reject_def isReject_def)
  then obtain bs where bs: "serializeIlpReject ?reject = Inr bs" "first_byte bs = Some 14"
      "deserializeIlpReject bs = Inr ?reject"
    using reject_packet_roundtrip [of ?reject "[]"] by auto
  have e: "errorToIlpReject address \<lparr>err_message = msg, ilpErrorCode = Some (error_code AmountTooLargeError),
      ilpErrorData = Some ?d\<rparr> = ?reject"
    by (simp add: errorToIlpReject_def js_def)
  have u: "unat (of_nat r :: u64) = r" "unat (of_nat m :: u64) = m" using r m by (simp_all add: unat_of_nat_u64)
  then have lt: "(of_nat m :: u64) < of_nat r" using assms(4) by (simp add: word_less_nat_alt)
  obtain q where q: "unat q = unat sent * m div r"
      "onAmountTooLargeError ?reject sent c =
        Inr (minLong q (fixedPacketAmount c), c\<lparr>c_maximumPacketAmount := q, testMaximumPacketAmount := q\<rparr>)"
    using onAmountTooLargeError_amounts [of ?reject "of_nat r" "of_nat m" sent c] reads_amounts [OF r m] lt u assms(5)
    by auto
  show ?thesis
    using amountTooLargeData_bytes [OF r m] bs e q
    by (intro exI [of _ ?d] exI [of _ bs] exI [of _ ?reject]
        exI [of _ "c\<lparr>c_maximumPacketAmount := q, testMaximumPacketAmount := q\<rparr>"])
      (simp add: errorToReject_def deserializeIlpReply_def maximumPacketAmount_def)
qed

theorem amount_too_large_end_to_end_witness:
  "\<exists>d bs reject c'. amountTooLargeData (dec_of_nat 100) (dec_of_nat 60) = Inr d
    \<and> errorToReject (js ''g.hub'') \<lparr>err_message = [], ilpErrorCode = Some (error_code AmountTooLargeError),
        ilpErrorData = Some d\<rparr> = Inr bs
    \<and> deserializeIlpReply bs = Inr (RejectReply reject)
    \<and> onAmountTooLargeError reject 1000 (new_congestion None) = Inr (maximumPacketAmount c', c')
    \<and> unat (c_maximumPacketAmount c') = unat (1000 :: u64) * 60 div 100"
proof (rule amount_too_large_end_to_end)
  show "isValidIlpAddress (js ''g.hub'')"
    by (simp add: isValidIlpAddress_def ilp_address_regex_def ILP_ADDRESS_MAX_LENGTH_def js_def dot_def
        schemes_def segment_def address_char_def)
qed (simp_all add: utf8_encode_def)

lemma quoted_run:
  assumes "loop_reach RateProbe (new_rate_probe address asset n) lp" and "lp_result lp = Some (Inr pr)"
    and "startQuote now opts slippage sourceAsset destinationCode prices minRate (Inr pr) = Inr q" and "ratio_ok minRate"
    and "k \<le> PACKET_LIMIT" and "loop_reach PaymentSender (new_payment q address asset' k) l"
  shows "amountSent (lp_state l) + sum_list (map (pk_source \<circ> fl_data) (lp_flight l)) \<le> maxSourceAmount q
    \<and> of_nat (maxSourceAmount q - 1) * rat_of minRate \<le> of_nat (minDeliveryAmount q)
    \<and> (lp_result l = Some (Inr prog) \<longrightarrow> lp_flight l = []
        \<and> (case paymentType q of FixedSend \<Rightarrow> pr_amountSent prog = maxSourceAmount q
           | FixedDelivery \<Rightarrow> minDeliveryAmount q \<le> pr_amountDelivered prog))"
proof -
  have q: "quote_ok q" "minExchangeRate q = minRate"
    "of_nat (maxSourceAmount q - 1) * rat_of (minExchangeRate q) \<le> of_nat (minDeliveryAmount q)"
  proof -
    note pr = rate_probe_result [OF assms(1,2)]
    note s = startQuote_sound [OF assms(3,4) conjunct1 [OF pr] conjunct2 [OF pr]]
    then show "quote_ok q" by blast
    show "minExchangeRate q = minRate"
      using assms(3) finish_quote_facts by (fastforce simp: startQuote_def ebind_def split: sum.splits option.splits)
    show "of_nat (maxSourceAmount q - 1) * rat_of (minExchangeRate q) \<le> of_nat (minDeliveryAmount q)"
    proof (cases "paymentType q")
      case FixedSend
      with s have "int (minDeliveryAmount q) = \<lceil>of_nat (maxSourceAmount q - 1) * rat_of (minExchangeRate q)\<rceil>" by simp
      then show ?thesis by (metis le_of_int_ceiling of_int_of_nat_eq)
    qed (use s in \<open>simp del: of_nat_diff\<close>)
  qed
  have inv: "payment_inv q (lp_state l) (lp_flight l)" by (rule payment_reach_inv [OF q(1) assms(5,6)])
  then have "amountSent (lp_state l) + sum_list (map (pk_source \<circ> fl_data) (lp_flight l)) \<le> maxSourceAmount q"
    by (simp add: payment_inv_def)
  then show ?thesis using q(2,3) payment_done [OF q(1) assms(5,6), of prog] inv
    by (auto simp: payment_inv_def paidFixedSend_def paidFixedDelivery_def getProgress_def split: PaymentType.splits)
qed

text \<open>
  C1. A payment honours its quote, from probe to last reply. For every run of the rate probe that ends with a
  result, every quote computed from that result, and every run of the payment with that quote: the amount sent, packets in flight included,
  never exceeds the maximum source amount of the quote, and that maximum less one unit is worth no more than the delivery target at the minimum rate.
  When the payment ends without an error, nothing is in flight and a fixed-send payment has sent exactly the amount asked for, a
  fixed-delivery payment has delivered at least its target.
\<close>

theorem quoted_payment:
  assumes "loop_reach RateProbe (new_rate_probe address asset n) lp" and "lp_result lp = Some (Inr pr)"
    and "startQuote now opts slippage sourceAsset destinationCode prices minRate (Inr pr) = Inr q" and "ratio_ok minRate"
    and "k \<le> PACKET_LIMIT" and "loop_reach PaymentSender (new_payment q address asset' k) l"
  shows "amountSent (lp_state l) + sum_list (map (pk_source \<circ> fl_data) (lp_flight l)) \<le> maxSourceAmount q
    \<and> of_nat (maxSourceAmount q - 1) * rat_of minRate \<le> of_nat (minDeliveryAmount q)
    \<and> (lp_result l = Some (Inr prog) \<longrightarrow> lp_flight l = []
        \<and> (case paymentType q of FixedSend \<Rightarrow> pr_amountSent prog = maxSourceAmount q
           | FixedDelivery \<Rightarrow> minDeliveryAmount q \<le> pr_amountDelivered prog))"
  using assms by (rule quoted_run)

text \<open>A run: the probe of \<open>sample_probe\<close>, a quote to send ten units at any rate, and a payment of one packet.\<close>

definition small_probe :: ProbeResult where
  "small_probe = \<lparr>probe_maxPacketAmount = MAX_U64, probe_lowRate = ratio_of 5 (10 ^ 12), probe_highRate = ratio_of 6 (10 ^ 12)\<rparr>"

definition small_options :: quote_options where
  "small_options = \<lparr>destinationPaymentDetails = None, amountToSend = Some (IntAmount 10), amountToDeliver = None\<rparr>"

definition small_quote :: quote where
  "small_quote = \<lparr>paymentType = FixedSend, maxSourceAmount = 10, minDeliveryAmount = 0, quote_maxPacketAmount = MAX_U64,
     lowEstimatedExchangeRate = ratio_of 5 (10 ^ 12), highEstimatedExchangeRate = ratio_of 6 (10 ^ 12),
     minExchangeRate = ratio_of 0 1\<rparr>"

lemma small_startQuote:
  "startQuote 1000 small_options (Num 1) None [] (\<lambda>_. None) (ratio_of 0 1) (Inr small_probe) = Inr small_quote"
  by (simp add: startQuote_def quote_target_def incoming_state_def small_options_def positive_or_def check_prices_def
      finish_quote_def small_probe_def small_quote_def ratio_isGreaterThanOrEqualTo_def ratio_of_def multiplyCeil_def
      divideCeil_def)

lemma small_run:
  "\<exists>l. run_events PaymentSender [Attempt 1000, Reply 1100 0 (StreamFulfill (Some []) (Some 3))]
        (start_loop (new_payment small_quote [] None 0)) = Some l
     \<and> lp_result l = Some (Inr \<lparr>streamReceipt = None, pr_amountSent = 10, pr_amountDelivered = 3,
         pr_sourceAmountInFlight = 0, pr_destinationAmountInFlight = 0\<rparr>)"
  by (simp add: run_simps small_quote_def)

theorem quoted_payment_witness:
  "\<exists>l prog. loop_reach PaymentSender (new_payment small_quote [] None 0) l \<and> lp_result l = Some (Inr prog)
     \<and> lp_flight l = [] \<and> pr_amountSent prog = maxSourceAmount small_quote"
proof -
  obtain lp where lp: "loop_reach RateProbe (new_rate_probe [] None 0) lp" "lp_result lp = Some (Inr small_probe)"
    using sample_probe [folded small_probe_def]
    by (elim exE conjE) (rule that, rule run_events_reach [OF loop_reach.start])
  obtain l prog where l: "loop_reach PaymentSender (new_payment small_quote [] None 0) l" "lp_result l = Some (Inr prog)"
    using small_run by (elim exE conjE) (rule that, rule run_events_reach [OF loop_reach.start])
  have t: "paymentType small_quote = FixedSend" by (simp add: small_quote_def)
  have "lp_flight l = [] \<and> pr_amountSent prog = maxSourceAmount small_quote"
    using quoted_payment [OF lp small_startQuote _ _ l(1), of prog] l(2) t by (simp add: ratio_ok_def ratio_of_def)
  with l show ?thesis by blast
qed

text \<open>
  C2. An Incoming Payment is paid at the market rate, from the URL to the last reply: when setup resolves it, the rate probe ends with
  a result, a quote is computed from prices and slippage (in exact arithmetic), and the payment runs with the quote, then in every
  state the amount sent and in flight is at most the quoted maximum, this maximum less one unit is worth no more than what is missing
  at the price ratio less the slippage, and a payment that ends without an error has completed the Incoming Payment. This is for an
  Incoming Payment whose amount and received amount are of one asset code and scale; the code does not compare them, and what is
  missing has a meaning only then. The asset of the resolved payment, which the price is taken for, is this asset.
\<close>

theorem incoming_payment_paid:
  assumes "setupPayment w probe sopts tr = (Inr r, tr')" "probe_runs probe"
    and "pd_paymentDetails (rs_destination r) = Some ip" "in_incomingAmount ip = Some a"
    and "asset_of a = asset_of (in_receivedAmount ip)"
    and "loop_reach RateProbe (new_rate_probe address asset n) lp" "lp_result lp = Some (Inr pr)"
    and "quote_from_prices Num (Num \<circ> ten_to) now \<lparr>destinationPaymentDetails = Some (quote_details ip), amountToSend = s, amountToDeliver = t\<rparr>
      (Some (Num sl)) (Some (code, Num sc)) (rs_asset r) (\<lambda>c. Some (Num (price c))) (Inr pr) = Some (Inr (Inr q))"
    and "k \<le> PACKET_LIMIT" "loop_reach PaymentSender (new_payment q address asset' k) l"
  shows "amountSent (lp_state l) + sum_list (map (pk_source \<circ> fl_data) (lp_flight l)) \<le> maxSourceAmount q
    \<and> rs_asset r = asset_of a
    \<and> of_nat (maxSourceAmount q - 1) * (price_ratio code (am_assetCode a) price * (1 - sl) * ten_to (int (am_assetScale a) - \<lfloor>sc\<rfloor>))
        \<le> of_nat (am_value a - am_value (in_receivedAmount ip))
    \<and> (lp_result l = Some (Inr prog) \<longrightarrow> am_value a \<le> am_value (in_receivedAmount ip) + pr_amountDelivered prog)"
proof -
  let ?opts = "\<lparr>destinationPaymentDetails = Some (quote_details ip), amountToSend = s, amountToDeliver = t\<rparr>"
  let ?prices = "\<lambda>c. Some (Num (price c))"
  from assms(8) obtain type m minRate where q: "quote_target now ?opts = Inr (type, m)"
    "check_prices (Num sl) (Some (code, Num sc)) (asset_code (rs_asset r)) ?prices = None"
    "Ratio_from Num (external_rate Num (Num \<circ> ten_to) (Num sl) (Some (code, Num sc)) (rs_asset r) ?prices) = Some (Some minRate)"
    "finish_quote (type, m) minRate pr = Inr q"
    unfolding quote_from_prices_def Let_def by (auto split: sum.split_asm option.split_asm)
  have start: "startQuote now ?opts (Num sl) (Some (code, Num sc)) (asset_code (rs_asset r)) ?prices minRate (Inr pr) = Inr q"
    using q by (simp add: startQuote_def)
  note lo = rate_probe_result [OF assms(6,7)]
  have low: "ratio_ok (probe_lowRate pr)" using lo by (simp add: rate_inv_def)
  note f = finish_quote_facts [OF q(4)]
  have minimum: "rat_of minRate = price_ratio code (asset_code (rs_asset r)) price * (1 - sl) * ten_to (int (asset_scale (rs_asset r)) - \<lfloor>sc\<rfloor>)"
    using priced_quote [OF assms(8) low] f by simp
  note ext = external_rate_exact [OF q(2)]
  have "ratio_ok minRate" using Ratio_from_exact [OF conjunct2 [OF ext], of "Some minRate"] q(3) unfolding conjunct1 [OF ext] by simp
  note run = quoted_run [OF assms(6,7) start this assms(9,10), of prog]
  have target: "type = FixedDelivery \<and> m + am_value (in_receivedAmount ip) = am_value a"
    using setup_target [OF assms(1,3,4) q(1)] by blast
  then have "minDeliveryAmount q = am_value a - am_value (in_receivedAmount ip)" "paymentType q = FixedDelivery" using f by auto
  moreover have "rs_asset r = asset_of a" using setup_asset [OF assms(1-3)] assms(5) by simp
  ultimately show ?thesis using run minimum by (auto simp: asset_of_def)
qed

section \<open>A run from setup to the last reply\<close>

definition big_quote :: quote where
  "big_quote = \<lparr>paymentType = FixedDelivery, maxSourceAmount = 70 * 10 ^ 12 + 1, minDeliveryAmount = 70, quote_maxPacketAmount = MAX_U64,
     lowEstimatedExchangeRate = ratio_of 5 (10 ^ 12), highEstimatedExchangeRate = ratio_of 6 (10 ^ 12),
     minExchangeRate = ratio_of 1 (10 ^ 12)\<rparr>"

definition big_price :: "jsstring \<Rightarrow> rat" where
  "big_price code = (if code = js ''EUR'' then 1 else 10 ^ 12)"

lemma big_run:
  "\<exists>l. run_events PaymentSender [Attempt 1000, Reply 1100 0 (StreamFulfill (Some []) (Some 70))]
        (start_loop (new_payment big_quote [] None 0)) = Some l
     \<and> (\<exists>prog. lp_result l = Some (Inr prog) \<and> pr_amountDelivered prog = 70)"
  by (simp add: run_simps big_quote_def)

lemma Ratio_from_trillionth: "Ratio_from Num (Num (1 / 10 ^ 12)) = Some (Some (ratio_of 1 (10 ^ 12)))"
proof -
  obtain j where j: "j \<le> 12" "scale_loop Num (Num (1 / 10 ^ 12)) (Num 1) = Some (tower Num (Num 1) j)"
    using scale_loop_ends [of Num "Num (1 / 10 ^ 12)" "Num 1" 12] by (auto simp: tower_exact js_times_def)
  have "js_isInteger (js_times Num (Num (1 / 10 ^ 12)) (tower Num (Num 1) j))"
    using scale_loop_result [OF j(2)] by auto
  then have int: "js_isInteger (Num (10 ^ j / 10 ^ 12))" by (simp add: tower_exact js_times_def)
  have "j = 12"
  proof (rule ccontr)
    assume "j \<noteq> 12"
    then have "(10 :: rat) ^ j < 10 ^ 12" using j(1) by (intro power_strict_increasing) simp_all
    then have "0 < (10 :: rat) ^ j / 10 ^ 12" "(10 :: rat) ^ j / 10 ^ 12 < 1" by simp_all
    then have "\<lfloor>(10 :: rat) ^ j / 10 ^ 12\<rfloor> = 0" by (simp add: floor_eq_iff)
    with int show False by (simp del: floor_divide_of_int_eq)
  qed
  then show ?thesis using j(2) by (simp add: Ratio_from_def tower_exact js_times_def)
qed

lemma big_quote_computed:
  "quote_from_prices Num (Num \<circ> ten_to) 0 (incoming_quote dollars) (Some (Num 0)) (Some (js ''EUR'', Num 2)) dollars
     (\<lambda>c. Some (Num (big_price c))) (Inr small_probe) = Some (Inr (Inr big_quote))"
proof -
  have codes: "js ''EUR'' \<noteq> js ''USD''" by (simp add: js_def)
  have prices: "check_prices (Num 0) (Some (js ''EUR'', Num 2)) (asset_code dollars) (\<lambda>c. Some (Num (big_price c))) = None"
    using codes by (simp add: check_prices_def isValidAssetDetails_def price_ok_def dollars_def big_price_def Let_def)
  have ext: "external_rate Num (Num \<circ> ten_to) (Num 0) (Some (js ''EUR'', Num 2)) dollars (\<lambda>c. Some (Num (big_price c))) = Num (1 / 10 ^ 12)"
    using external_rate_exact [OF prices] codes by (simp add: price_ratio_def ten_to_def dollars_def big_price_def)
  have "finish_quote (FixedDelivery, 70) (ratio_of 1 (10 ^ 12)) small_probe = Inr big_quote"
    by (simp add: finish_quote_def small_probe_def big_quote_def ratio_isGreaterThanOrEqualTo_def ratio_of_def
        ratio_reciprocal_def multiplyFloor_def)
  then show ?thesis by (simp add: quote_from_prices_def incoming_target prices ext Ratio_from_trillionth [simplified])
qed

theorem incoming_payment_paid_witness:
  "\<exists>l prog. loop_reach PaymentSender (new_payment big_quote [] None 0) l \<and> lp_result l = Some (Inr prog)
     \<and> asset_of (hundred dollars) = asset_of thirty_cents \<and> am_value (hundred dollars) \<le> am_value thirty_cents + pr_amountDelivered prog"
proof -
  note r = incoming_setup [OF dollars_of(1)]
  note ip = incoming_resolved_details [of dollars]
  obtain lp where lp: "loop_reach RateProbe (new_rate_probe [] None 0) lp" "lp_result lp = Some (Inr small_probe)"
    using sample_probe [folded small_probe_def]
    by (elim exE conjE) (rule that, rule run_events_reach [OF loop_reach.start])
  obtain l prog where l: "loop_reach PaymentSender (new_payment big_quote [] None 0) l" "lp_result l = Some (Inr prog)"
    using big_run by (elim exE conjE) (rule that, rule run_events_reach [OF loop_reach.start])
  have q: "quote_from_prices Num (Num \<circ> ten_to) 0 (incoming_quote dollars) (Some (Num 0)) (Some (js ''EUR'', Num 2))
      (rs_asset (incoming_resolved dollars)) (\<lambda>c. Some (Num (big_price c))) (Inr small_probe) = Some (Inr (Inr big_quote))"
    unfolding ip(4) by (rule big_quote_computed)
  have "am_value (hundred dollars) \<le> am_value thirty_cents + pr_amountDelivered prog"
    using incoming_payment_paid [OF r known_asset_runs ip(1,2) dollars_of(2) [folded ip(3)] lp
        q [unfolded incoming_quote_def] _ l(1), of prog] l(2) ip(3)
    by simp
  with l dollars_of(2) show ?thesis by blast
qed

end
